(* ===== verification/Prelude.thy ===== *)
theory Prelude
  imports Main "HOL-Library.Word" "HOL-Library.Monad_Syntax"
begin

unbundle bit_operations_syntax

text \<open>
  Shared vocabulary of the development: the C integer types at their width, the reading of
  partial C operations as \<open>option\<close> values, and generic lemmas on words, lists and options.

  A C computation that can fail to return normally is a value of an \<open>option\<close> type.
  \<open>None\<close> stands for every way not to return: undefined behaviour (an invalid shift, a
  read past the end of an array, a null dereference, a second \<open>free\<close>), a failed
  \<open>assert\<close>, or a loop that runs forever. \<open>Some r\<close> is a normal return with result \<open>r\<close>.
  Null pointers, on the other hand, are ordinary values: a pointer that may be null is an
  \<open>option\<close> whose \<open>None\<close> is \<open>NULL\<close>.
\<close>

section \<open>C integer types\<close>

type_synonym u8 = "8 word"
type_synonym u16 = "16 word"
type_synonym u32 = "32 word"
type_synonym u64 = "64 word"

text \<open>Bytes of a C string or of an opaque key, and \<open>size_t\<close> on the LP64 targets.\<close>

type_synonym byte = u8
type_synonym bytes = "byte list"
type_synonym size_t = u64

text \<open>
  The collections the component theories feed: \<open>c_defs\<close> unfolds the straight-line
  translations of C functions, \<open>ub_simps\<close> evaluates the \<open>option\<close> layer.
\<close>

named_theorems c_defs "definitions of straight-line C functions"
named_theorems ub_simps "evaluation of computations that may not return"

section \<open>Assertions and undefined behaviour\<close>

definition c_assert :: "bool \<Rightarrow> unit option" where
  "c_assert b = (if b then Some () else None)"

lemma c_assert_simps [simp, ub_simps]:
  "c_assert True = Some ()"
  "c_assert False = None"
  by (simp_all add: c_assert_def)

lemma c_assert_eq_Some [simp]: "c_assert b = Some u \<longleftrightarrow> b"
  by (simp add: c_assert_def)

declare bind_eq_Some_conv [simp]

text \<open>
  Reading and writing an array: an index outside of the allocated elements is undefined.
\<close>

definition arr_get :: "'a list \<Rightarrow> nat \<Rightarrow> 'a option" where
  "arr_get xs i = (if i < length xs then Some (xs ! i) else None)"

definition arr_set :: "'a list \<Rightarrow> nat \<Rightarrow> 'a \<Rightarrow> 'a list option" where
  "arr_set xs i v = (if i < length xs then Some (xs[i := v]) else None)"

lemma arr_get_in [simp, ub_simps]: "i < length xs \<Longrightarrow> arr_get xs i = Some (xs ! i)"
  by (simp add: arr_get_def)

lemma arr_get_out [simp, ub_simps]: "length xs \<le> i \<Longrightarrow> arr_get xs i = None"
  by (simp add: arr_get_def)

lemma arr_set_in [simp, ub_simps]: "i < length xs \<Longrightarrow> arr_set xs i v = Some (xs[i := v])"
  by (simp add: arr_set_def)

lemma arr_set_out [simp, ub_simps]: "length xs \<le> i \<Longrightarrow> arr_set xs i v = None"
  by (simp add: arr_set_def)

section \<open>Words\<close>

text \<open>\<open>1u << n\<close>: a 32-bit shift, undefined from 32 bits on.\<close>

definition shl1u :: "size_t \<Rightarrow> u32 option" where
  "shl1u n = (if unat n < 32 then Some (push_bit (unat n) 1) else None)"

lemma unat_push_bit_one32: "n < 32 \<Longrightarrow> unat (push_bit n (1::u32)) = 2 ^ n"
  using power_strict_increasing [of n 32 "2::nat"]
  by (simp only: unsigned_push_bit_eq) (simp add: push_bit_eq_mult take_bit_eq_mod)

lemma unat_ucast_32_64 [simp]: "unat (ucast (x :: u32) :: u64) = unat x"
  by (simp add: unsigned_ucast_eq unsigned_take_bit_eq [symmetric] take_bit_word_eq_self)

lemma unat_and_mask: "unat (x AND mask n :: 'a::len word) = unat x mod 2 ^ n"
proof -
  have "unat (x AND mask n) = take_bit n (unat x)"
    by (simp only: take_bit_eq_mask [symmetric] unsigned_take_bit_eq)
  then show ?thesis by (simp only: take_bit_eq_mod)
qed

lemma unat_drop_bit: "unat (drop_bit n x :: 'a::len word) = unat x div 2 ^ n"
proof -
  have "unat (drop_bit n x) = drop_bit n (unat x)"
    by (simp only: unsigned_drop_bit_eq) (simp add: take_bit_nat_eq_self unsigned_less)
  then show ?thesis by (simp only: drop_bit_eq_div)
qed

lemma unat32_less: "unat (x :: u32) < 4294967296"
  using unsigned_less [of x, where 'a = nat] by simp

lemma unat64_less: "unat (x :: u64) < 18446744073709551616"
  using unsigned_less [of x, where 'a = nat] by simp

lemma shl1u_in [simp]: "unat n < 32 \<Longrightarrow> shl1u n = Some (push_bit (unat n) 1)"
  by (simp only: shl1u_def if_True)

lemma shl1u_out [simp]: "32 \<le> unat n \<Longrightarrow> shl1u n = None"
  by (simp add: shl1u_def)

lemma ucast_shl1u_minus_1: "n < 32 \<Longrightarrow> (ucast (push_bit n (1::u32) - 1) :: u64) = mask n"
proof -
  assume "n < 32"
  have "push_bit n (1::u32) - 1 = mask n" by (simp add: mask_eq_exp_minus_1 push_bit_of_1)
  moreover have "(ucast (mask n :: u32) :: u64) = mask n"
    using \<open>n < 32\<close> by (intro bit_word_eqI) (auto simp: bit_simps)
  ultimately show ?thesis by simp
qed

lemma ucast32_high_bits: "32 \<le> n \<Longrightarrow> \<not> bit (ucast (x :: u32) :: u64) n"
  by (auto simp: bit_unsigned_iff dest: bit_imp_le_length)

lemma drop_bit_ucast32 [simp]: "32 \<le> n \<Longrightarrow> drop_bit n (ucast (x :: u32) :: u64) = 0"
  by (rule bit_word_eqI) (auto simp: bit_drop_bit_eq ucast32_high_bits)

section \<open>Lists\<close>

lemma sum_list_map_update:
  "i < length xs \<Longrightarrow>
   sum_list (map f (xs[i := y])) + f (xs ! i) = sum_list (map f xs) + (f y :: nat)"
  by (induction xs arbitrary: i) (auto split: nat.splits)

lemma concat_update_split:
  assumes "i < length xs"
  shows "concat xs = concat (take i xs) @ xs ! i @ concat (drop (Suc i) xs)"
    and "concat (xs[i := y]) = concat (take i xs) @ y @ concat (drop (Suc i) xs)"
proof -
  have split: "xs = take i xs @ xs ! i # drop (Suc i) xs"
    using assms by (rule id_take_nth_drop)
  show "concat xs = concat (take i xs) @ xs ! i @ concat (drop (Suc i) xs)"
    by (subst split) simp
  show "concat (xs[i := y]) = concat (take i xs) @ y @ concat (drop (Suc i) xs)"
    using assms by (simp add: upd_conv_take_nth_drop)
qed

end
