(* ===== verification/Pcg32.thy ===== *)
theory Pcg32
  imports Prelude
begin

unbundle bit_operations_syntax

text \<open>
  The pseudo-random generator of \<open>src/util/pcg32.c\<close> with the state type declared in
  \<open>include/hdql/util/pcg32.h\<close>. The arithmetic of the C code is 64-bit, but the two fields
  of the structure are \<open>uint32_t\<close>: every store into them truncates, and every load
  zero-extends. The conversions are written out.
\<close>

section \<open>State and operations\<close>

record hdql_PCG32 =
  pcg_state :: u32
  pcg_inc :: u32

definition hdql_rand_pcg32_draw :: "hdql_PCG32 \<Rightarrow> u32 \<times> hdql_PCG32" where
  "hdql_rand_pcg32_draw rng =
     (let S = ucast (pcg_state rng) :: u64;
          rng' = rng\<lparr>pcg_state :=
                   ucast (S * 6364136223846793005 + ucast (pcg_inc rng))\<rparr>;
          x = ucast (drop_bit 27 (drop_bit 18 S XOR S)) :: u32;
          r = ucast (drop_bit 59 S) :: u32
      in (drop_bit (unat r) x OR push_bit (unat (- r AND 31)) x, rng'))"

definition hdql_rand_pcg32_seed :: "hdql_PCG32 \<Rightarrow> u64 \<Rightarrow> u64 \<Rightarrow> hdql_PCG32" where
  "hdql_rand_pcg32_seed rng seed sq =
     (let rng = rng\<lparr>pcg_state := 0\<rparr>;
          rng = rng\<lparr>pcg_inc := ucast (push_bit 1 sq OR 1)\<rparr>;
          rng = snd (hdql_rand_pcg32_draw rng);
          rng = rng\<lparr>pcg_state := ucast (ucast (pcg_state rng) + seed)\<rparr>
      in snd (hdql_rand_pcg32_draw rng))"

definition hdql_rand_pcg32_draw_u64 :: "hdql_PCG32 \<Rightarrow> u64 \<times> hdql_PCG32" where
  "hdql_rand_pcg32_draw_u64 rng =
     (let (hi, rng) = hdql_rand_pcg32_draw rng;
          (lo, rng) = hdql_rand_pcg32_draw rng
      in (push_bit 32 (ucast hi) OR ucast lo, rng))"

text \<open>The rejection loop: \<open>None\<close> when no draw ever reaches the threshold.\<close>

partial_function (option) pcg32_below_loop ::
    "u64 \<Rightarrow> u64 \<Rightarrow> hdql_PCG32 \<Rightarrow> (u64 \<times> hdql_PCG32) option" where
  "pcg32_below_loop threshold bound rng =
     (case hdql_rand_pcg32_draw_u64 rng of (r, rng') \<Rightarrow>
        if threshold \<le> r then Some (r mod bound, rng')
        else pcg32_below_loop threshold bound rng')"

definition hdql_rand_pcg32_uint64_below ::
    "hdql_PCG32 \<Rightarrow> u64 \<Rightarrow> (u64 \<times> hdql_PCG32) option" where
  "hdql_rand_pcg32_uint64_below rng bound =
     (if bound = 0 then Some (0, rng)
      else pcg32_below_loop (- bound mod bound) bound rng)"

section \<open>What a draw yields\<close>

lemma xor_shift_top_bits:
  "(ucast (drop_bit 27 (drop_bit 18 (ucast (x :: u32) :: u64) XOR ucast x)) :: u32) = drop_bit 27 x"
  by (rule bit_word_eqI)
     (auto simp: bit_unsigned_iff bit_drop_bit_eq bit_xor_iff dest: bit_imp_le_length)

lemma draw_top: "fst (hdql_rand_pcg32_draw rng) = drop_bit 27 (pcg_state rng)"
  by (simp add: hdql_rand_pcg32_draw_def Let_def xor_shift_top_bits del: drop_bit_xor)

lemma draw_lt_32: "unat (fst (hdql_rand_pcg32_draw rng)) < 32"
  using unat32_less [of "pcg_state rng"]
  by (simp only: draw_top unat_drop_bit) simp

text \<open>
  On the state type the header declares, one draw returns nothing but the five most
  significant bits of the 32-bit state: the output rotation degenerates to the identity
  (its amount is read from bits 59..63 of a value below \<open>2 ^ 32\<close>), so a "32-bit" draw is
  always one of 32 values.
\<close>

theorem draw_is_top_bits:
  "fst (hdql_rand_pcg32_draw rng) = drop_bit 27 (pcg_state rng) \<and>
   unat (fst (hdql_rand_pcg32_draw rng)) < 32"
  by (simp only: draw_top [symmetric] draw_lt_32)

lemma or_shift_disjoint:
  "unat (push_bit 32 (ucast (hi :: u32) :: u64) OR ucast (lo :: u32)) = unat hi * 2 ^ 32 + unat lo"
proof -
  have "push_bit 32 (ucast hi :: u64) AND ucast lo = 0"
    by (rule bit_word_eqI) (auto simp: bit_and_iff bit_push_bit_iff ucast32_high_bits)
  then have "push_bit 32 (ucast hi :: u64) OR ucast lo = push_bit 32 (ucast hi) + ucast lo"
    by (rule disjunctive_add_eq_or [symmetric])
  moreover have "unat (push_bit 32 (ucast hi :: u64)) = unat hi * 2 ^ 32"
    using unat32_less [of hi]
    by (simp only: unsigned_push_bit_eq) (simp add: push_bit_eq_mult take_bit_eq_mod)
  ultimately show ?thesis
    using unat32_less [of hi] unat32_less [of lo]
    by (simp add: unat_word_ariths)
qed

lemma draw_u64_value:
  "unat (fst (hdql_rand_pcg32_draw_u64 rng)) =
     unat (fst (hdql_rand_pcg32_draw rng)) * 2 ^ 32 +
     unat (fst (hdql_rand_pcg32_draw (snd (hdql_rand_pcg32_draw rng))))"
  by (simp add: hdql_rand_pcg32_draw_u64_def or_shift_disjoint split_beta)

lemma draw_u64_bound: "unat (fst (hdql_rand_pcg32_draw_u64 rng)) \<le> 31 * 2 ^ 32 + 31"
  using draw_lt_32 [of rng] draw_lt_32 [of "snd (hdql_rand_pcg32_draw rng)"]
  by (simp add: draw_u64_value)

section \<open>The rejection loop\<close>

text \<open>The state after \<open>n\<close> rejected 64-bit draws, and the value drawn from it.\<close>

primrec pcg32_after :: "nat \<Rightarrow> hdql_PCG32 \<Rightarrow> hdql_PCG32" where
  "pcg32_after 0 rng = rng"
| "pcg32_after (Suc n) rng = pcg32_after n (snd (hdql_rand_pcg32_draw_u64 rng))"

abbreviation pcg32_nth_draw :: "nat \<Rightarrow> hdql_PCG32 \<Rightarrow> u64" where
  "pcg32_nth_draw n rng \<equiv> fst (hdql_rand_pcg32_draw_u64 (pcg32_after n rng))"

lemma below_loop_unfold:
  "pcg32_below_loop t b rng =
     (let d = hdql_rand_pcg32_draw_u64 rng
      in if t \<le> fst d then Some (fst d mod b, snd d) else pcg32_below_loop t b (snd d))"
  by (subst pcg32_below_loop.simps) (simp add: split_beta Let_def)

lemma below_loop_returns:
  "threshold \<le> fst (hdql_rand_pcg32_draw_u64 (pcg32_after n rng)) \<Longrightarrow>
   \<exists>res. pcg32_below_loop threshold bound rng = Some res"
proof (induction n arbitrary: rng)
  case 0
  then show ?case by (simp add: below_loop_unfold [of threshold bound rng] Let_def)
next
  case (Suc n)
  from Suc.prems have "threshold \<le> fst (hdql_rand_pcg32_draw_u64 (pcg32_after n (snd (hdql_rand_pcg32_draw_u64 rng))))"
    by simp
  from Suc.IH [OF this] show ?case
    by (simp add: below_loop_unfold [of threshold bound rng] Let_def)
qed

lemma below_loop_result:
  assumes "pcg32_below_loop t bound rng = Some res"
  shows "\<exists>n. t \<le> pcg32_nth_draw n rng \<and> fst res = pcg32_nth_draw n rng mod bound"
proof (rule pcg32_below_loop.raw_induct [where P = "\<lambda>t b rng res.
    \<exists>n. t \<le> pcg32_nth_draw n rng \<and> fst res = pcg32_nth_draw n rng mod b", OF _ assms])
  fix f t b rng res
  assume IH: "\<And>t b rng res. f t b rng = Some res \<Longrightarrow>
      \<exists>n. t \<le> pcg32_nth_draw n rng \<and> fst res = pcg32_nth_draw n rng mod b"
    and eq: "(case hdql_rand_pcg32_draw_u64 rng of (r, rng') \<Rightarrow>
        if t \<le> r then Some (r mod b, rng') else f t b rng') = Some res"
  obtain r rng' where d: "hdql_rand_pcg32_draw_u64 rng = (r, rng')" by force
  show "\<exists>n. t \<le> pcg32_nth_draw n rng \<and> fst res = pcg32_nth_draw n rng mod b"
  proof (cases "t \<le> r")
    case True
    with eq d show ?thesis by (intro exI [of _ 0]) auto
  next
    case False
    with eq d have "f t b rng' = Some res" by simp
    from IH [OF this] obtain n where
      "t \<le> pcg32_nth_draw n rng' \<and> fst res = pcg32_nth_draw n rng' mod b" ..
    with d show ?thesis by (intro exI [of _ "Suc n"]) simp
  qed
qed

lemma below_loop_returns_iff:
  "pcg32_below_loop t bound rng \<noteq> None \<longleftrightarrow> (\<exists>n. t \<le> pcg32_nth_draw n rng)"
  using below_loop_result [of t bound rng] below_loop_returns [of t _ rng bound] by blast

lemma word_mod_less: "(0 :: u64) < b \<Longrightarrow> x mod b < b"
  by (simp add: word_less_nat_alt unat_mod word_gt_0_no)

lemma below_loop_first:
  "t \<le> pcg32_nth_draw n rng \<Longrightarrow> \<forall>k < n. pcg32_nth_draw k rng < t \<Longrightarrow>
   pcg32_below_loop t b rng = Some (pcg32_nth_draw n rng mod b, pcg32_after (Suc n) rng)"
proof (induction n arbitrary: rng)
  case 0
  then show ?case by (simp add: below_loop_unfold [of t b rng] Let_def)
next
  case (Suc n)
  have "\<forall>k < n. pcg32_nth_draw k (snd (hdql_rand_pcg32_draw_u64 rng)) < t"
    using Suc.prems(2) by fastforce
  moreover have "\<not> t \<le> fst (hdql_rand_pcg32_draw_u64 rng)"
    using Suc.prems(2) by (force simp: not_le)
  ultimately show ?case
    using Suc.IH [of "snd (hdql_rand_pcg32_draw_u64 rng)"] Suc.prems(1)
    by (simp add: below_loop_unfold [of t b rng] Let_def)
qed

text \<open>
  For a non-zero bound \<open>hdql_rand_pcg32_uint64_below\<close> returns exactly when some draw
  reaches the rejection threshold \<open>-bound % bound\<close>. It then returns the first such draw modulo
  the bound, which is below the bound, and leaves the generator right after that draw.
\<close>

theorem uint64_below_spec:
  assumes "bound \<noteq> 0"
  shows "(\<forall>n. - bound mod bound \<le> pcg32_nth_draw n rng \<longrightarrow>
            (\<forall>k < n. pcg32_nth_draw k rng < - bound mod bound) \<longrightarrow>
            hdql_rand_pcg32_uint64_below rng bound =
              Some (pcg32_nth_draw n rng mod bound, pcg32_after (Suc n) rng) \<and>
            pcg32_nth_draw n rng mod bound < bound) \<and>
         (hdql_rand_pcg32_uint64_below rng bound = None \<longleftrightarrow>
            (\<forall>n. pcg32_nth_draw n rng < - bound mod bound))"
proof (intro conjI allI impI)
  show "hdql_rand_pcg32_uint64_below rng bound = None \<longleftrightarrow>
      (\<forall>n. pcg32_nth_draw n rng < - bound mod bound)"
    using below_loop_returns_iff [of "- bound mod bound" bound rng] assms
    by (auto simp: hdql_rand_pcg32_uint64_below_def not_le [symmetric])
qed (use assms below_loop_first in
    \<open>simp_all add: hdql_rand_pcg32_uint64_below_def word_gt_0 word_mod_less del: pcg32_after.simps\<close>)

theorem uint64_below_spec_witness:
  "hdql_rand_pcg32_uint64_below \<lparr>pcg_state = 0xdeadbeef, pcg_inc = 1\<rparr> 10 =
     Some (115964117005 mod 10, pcg32_after 1 \<lparr>pcg_state = 0xdeadbeef, pcg_inc = 1\<rparr>)"
  using uint64_below_spec [of 10 "\<lparr>pcg_state = 0xdeadbeef, pcg_inc = 1\<rparr>", THEN conjunct1, rule_format, of 0]
  by (simp add: hdql_rand_pcg32_draw_u64_def hdql_rand_pcg32_draw_def)

text \<open>
  C40: For a bound whose rejection threshold exceeds \<open>31 * 2 ^ 32 + 31\<close>, the largest value
  two five-bit draws can be glued into, the rejection loop never ends, whatever the state.
\<close>

theorem uint64_below_diverges:
  assumes "31 * 2 ^ 32 + 31 < unat (- bound mod bound)"
  shows "hdql_rand_pcg32_uint64_below rng bound = None"
proof -
  from assms have nz: "bound \<noteq> 0" by auto
  have "\<not> - bound mod bound \<le> pcg32_nth_draw n rng" for n
    using assms draw_u64_bound [of "pcg32_after n rng"] by (simp add: word_le_nat_alt)
  with nz show ?thesis
    using below_loop_result [of "- bound mod bound" bound rng]
    by (cases "hdql_rand_pcg32_uint64_below rng bound")
       (auto simp: hdql_rand_pcg32_uint64_below_def)
qed

theorem uint64_below_diverges_witness:
  "hdql_rand_pcg32_uint64_below \<lparr>pcg_state = 7, pcg_inc = 1\<rparr> 0x8000000000000001 = None"
  by (rule uint64_below_diverges) simp


section \<open>Termination of the rejection loop\<close>

text \<open>
  The state update is a linear congruential step modulo \<open>2 ^ 32\<close>: the truncating store
  commutes with the 64-bit multiply-add. Composing the step with itself doubles its length;
  thirty doublings of the two-draw step give the translation by \<open>2 ^ 31\<close>, so within
  \<open>2 ^ 30\<close> rounds the top bits of the state have been nonzero at the start of some round.
\<close>

definition lcg32 :: "u32 \<Rightarrow> u32 \<Rightarrow> u32 \<Rightarrow> u32" where
  "lcg32 a c x = a * x + c"

lemma ucast_affine:
  "(ucast (ucast (s :: u32) * m + ucast (c :: u32) :: u64) :: u32) = s * ucast m + c"
proof -
  have "x mod 18446744073709551616 mod 4294967296 = x mod 4294967296" for x :: int
    by (rule mod_mod_cancel) simp
  then show ?thesis
    by (simp add: word_uint_eq_iff unsigned_ucast_eq take_bit_eq_mod uint_word_ariths mod_simps)
qed

lemma draw_state:
  "pcg_state (snd (hdql_rand_pcg32_draw rng)) = lcg32 0x4C957F2D (pcg_inc rng) (pcg_state rng)"
  "pcg_inc (snd (hdql_rand_pcg32_draw rng)) = pcg_inc rng"
proof -
  have m: "ucast (6364136223846793005 :: u64) = (0x4C957F2D :: u32)" by simp
  show "pcg_state (snd (hdql_rand_pcg32_draw rng)) = lcg32 0x4C957F2D (pcg_inc rng) (pcg_state rng)"
    by (simp only: hdql_rand_pcg32_draw_def Let_def snd_conv ucast_affine lcg32_def m)
      (simp add: mult.commute)
qed (simp add: hdql_rand_pcg32_draw_def Let_def)

lemma lcg32_compose: "lcg32 a (k * c) (lcg32 a (k * c) x) = lcg32 (a * a) ((a + 1) * k * c) x"
  by (simp add: lcg32_def algebra_simps)

fun lcg32_double :: "nat \<Rightarrow> u32 \<times> u32 \<Rightarrow> u32 \<times> u32" where
  "lcg32_double 0 ak = ak"
| "lcg32_double (Suc t) (a, k) = lcg32_double t (a * a, (a + 1) * k)"

lemma funpow_2_pow_Suc: "f ^^ (2 ^ Suc t) = (f \<circ> f) ^^ (2 ^ t)"
proof -
  have "f ^^ (2 * 2 ^ t) = (f ^^ 2) ^^ (2 ^ t)" by (rule funpow_mult [symmetric])
  moreover have "f ^^ 2 = f \<circ> f" by (simp add: numeral_2_eq_2)
  ultimately show ?thesis by simp
qed

lemma lcg32_funpow:
  "lcg32 a (k * c) ^^ (2 ^ t) =
     (case lcg32_double t (a, k) of (a', k') \<Rightarrow> lcg32 a' (k' * c))"
proof (induction t arbitrary: a k)
  case (Suc t)
  have "lcg32 a (k * c) \<circ> lcg32 a (k * c) = lcg32 (a * a) ((a + 1) * k * c)"
    by (rule ext) (simp add: lcg32_compose)
  then show ?case by (simp only: funpow_2_pow_Suc Suc.IH lcg32_double.simps)
qed simp

lemma lcg32_double_30: "lcg32_double 30 (0x4C957F2D * 0x4C957F2D, 0x4C957F2D + 1) = (1, 0x80000000)"
  by code_simp

lemma pcg32_after_state:
  "pcg_state (pcg32_after n rng) =
     (lcg32 (0x4C957F2D * 0x4C957F2D) ((0x4C957F2D + 1) * pcg_inc rng) ^^ n) (pcg_state rng)"
  "pcg_inc (pcg32_after n rng) = pcg_inc rng"
proof (induction n arbitrary: rng)
  case (Suc n)
  have step: "pcg_state (snd (hdql_rand_pcg32_draw_u64 rng)) =
      lcg32 (0x4C957F2D * 0x4C957F2D) ((0x4C957F2D + 1) * pcg_inc rng) (pcg_state rng)"
    and inc: "pcg_inc (snd (hdql_rand_pcg32_draw_u64 rng)) = pcg_inc rng" for rng
    using lcg32_compose [of "0x4C957F2D" 1 "pcg_inc rng" "pcg_state rng"]
    by (simp_all add: hdql_rand_pcg32_draw_u64_def split_beta draw_state)
  {
    case 1
    show ?case by (simp only: pcg32_after.simps Suc.IH step inc funpow_Suc_right o_apply)
  next
    case 2
    show ?case by (simp only: pcg32_after.simps Suc.IH inc)
  }
qed simp_all

lemma odd_top_bit: "odd (c :: u32) \<Longrightarrow> 0x80000000 * c = 0x80000000"
proof -
  assume "odd c"
  then obtain k where "c = 2 * k + 1" by (rule oddE)
  then have "0x80000000 * c = 0x100000000 * k + 0x80000000" by (simp add: algebra_simps)
  moreover have "(0x100000000 :: u32) = 0" by simp
  ultimately show ?thesis by (simp only: mult_zero_left add_0_left)
qed

lemma pcg32_after_half_period:
  assumes "odd (pcg_inc rng)"
  shows "pcg_state (pcg32_after (2 ^ 30) rng) = pcg_state rng + 0x80000000"
proof -
  have "lcg32 (0x4C957F2D * 0x4C957F2D) ((0x4C957F2D + 1) * pcg_inc rng) ^^ (2 ^ 30) =
      lcg32 1 (0x80000000 * pcg_inc rng)"
    by (simp only: lcg32_funpow lcg32_double_30 prod.case)
  then show ?thesis
    by (simp only: pcg32_after_state odd_top_bit [OF assms]) (simp add: lcg32_def)
qed

lemma draw_u64_ge:
  assumes "2 ^ 27 \<le> unat (pcg_state rng)"
  shows "2 ^ 32 \<le> unat (fst (hdql_rand_pcg32_draw_u64 rng))"
proof -
  have "1 \<le> unat (fst (hdql_rand_pcg32_draw rng))"
    using assms by (simp only: draw_top unat_drop_bit) (simp add: div_greater_zero_iff Suc_le_eq)
  then show ?thesis by (simp add: draw_u64_value)
qed

lemma high_state_within:
  assumes "odd (pcg_inc rng)"
  shows "\<exists>n \<le> 2 ^ 30. 2 ^ 27 \<le> unat (pcg_state (pcg32_after n rng))"
proof (cases "2 ^ 27 \<le> unat (pcg_state rng)")
  case True
  then show ?thesis by (intro exI [of _ 0]) simp
next
  case False
  then have "unat (pcg_state rng + 0x80000000) = unat (pcg_state rng) + 0x80000000"
    by (simp add: unat_word_ariths)
  then have "unat (pcg_state (pcg32_after (2 ^ 30) rng)) = unat (pcg_state rng) + 0x80000000"
    by (simp only: pcg32_after_half_period [OF assms])
  then have "0x80000000 \<le> unat (pcg_state (pcg32_after (2 ^ 30) rng))"
    by (simp only: le_add2)
  then have "2 ^ 27 \<le> unat (pcg_state (pcg32_after (2 ^ 30) rng))"
    by (rule order_trans [rotated]) simp
  then show ?thesis by (intro exI [of _ "2 ^ 30"] conjI order_refl)
qed

lemma mod_dvd_word: "unat b dvd 2 ^ 64 \<Longrightarrow> - b mod b = (0 :: u64)"
proof -
  assume "unat b dvd 2 ^ 64"
  then have "uint b dvd 2 ^ 64" by (metis int_dvd_int_iff of_nat_numeral of_nat_power uint_nat)
  then have "(- uint b) mod 2 ^ 64 mod uint b = - uint b mod uint b"
    by (rule mod_mod_cancel)
  then show ?thesis
    by (simp add: word_uint_eq_iff uint_mod uint_word_ariths)
qed
lemma unat_below_threshold: "bound \<noteq> 0 \<Longrightarrow> unat (- bound mod bound) < unat (bound :: u64)"
  by (simp add: unat_mod unat_gt_0)

lemma below_pow2_immediate:
  assumes "unat bound dvd 2 ^ 64"
  shows "hdql_rand_pcg32_uint64_below rng bound =
    Some (fst (hdql_rand_pcg32_draw_u64 rng) mod bound, snd (hdql_rand_pcg32_draw_u64 rng))"
  using assms mod_dvd_word [OF assms]
  by (cases "bound = 0")
     (simp_all add: hdql_rand_pcg32_uint64_below_def below_loop_unfold [of 0] Let_def)

text \<open>
  C39: With an odd increment, which is what seeding stores, \<open>hdql_rand_pcg32_uint64_below\<close>
  returns for every bound up to \<open>2 ^ 32\<close>, from every state, and what it returns is below the bound:
  the first draw that is not below the rejection threshold, modulo the bound. It leaves the
  generator after that draw, with the same increment, so that the next call returns too. The bound 0
  gives 0 with nothing drawn.
\<close>

theorem uint64_below_terminates:
  assumes "odd (pcg_inc rng)" and "unat bound \<le> 2 ^ 32"
  shows "\<exists>r rng'. hdql_rand_pcg32_uint64_below rng bound = Some (r, rng') \<and>
    pcg_inc rng' = pcg_inc rng \<and> (bound \<noteq> 0 \<longrightarrow> r < bound) \<and>
    (if bound = 0 then r = 0 \<and> rng' = rng
     else \<exists>n. - bound mod bound \<le> pcg32_nth_draw n rng \<and>
       (\<forall>k < n. pcg32_nth_draw k rng < - bound mod bound) \<and>
       r = pcg32_nth_draw n rng mod bound \<and> rng' = pcg32_after (Suc n) rng)"
proof (cases "bound = 0")
  case False
  obtain n where "2 ^ 27 \<le> unat (pcg_state (pcg32_after n rng))"
    using high_state_within [OF assms(1)] by blast
  then have "2 ^ 32 \<le> unat (pcg32_nth_draw n rng)" by (rule draw_u64_ge)
  with unat_below_threshold [OF False] assms(2) have "- bound mod bound \<le> pcg32_nth_draw n rng"
    by (simp only: word_le_nat_alt)
  then obtain m where m: "- bound mod bound \<le> pcg32_nth_draw m rng"
      "\<forall>k < m. pcg32_nth_draw k rng < - bound mod bound"
    using exists_least_iff [of "\<lambda>n. - bound mod bound \<le> pcg32_nth_draw n rng"] by (auto simp: not_le)
  have "hdql_rand_pcg32_uint64_below rng bound =
      Some (pcg32_nth_draw m rng mod bound, pcg32_after (Suc m) rng)"
    using False below_loop_first [OF m] by (simp only: hdql_rand_pcg32_uint64_below_def if_False)
  moreover have "pcg32_nth_draw m rng mod bound < bound" using False by (simp add: word_mod_less word_gt_0)
  moreover have "pcg_inc (pcg32_after (Suc m) rng) = pcg_inc rng" by (rule pcg32_after_state(2))
  ultimately show ?thesis using False m by (simp del: pcg32_after.simps) blast
qed (simp add: hdql_rand_pcg32_uint64_below_def)

theorem uint64_below_terminates_witness:
  "\<exists>r rng'. hdql_rand_pcg32_uint64_below
     (hdql_rand_pcg32_seed \<lparr>pcg_state = 0, pcg_inc = 0\<rparr> 0xdeadbeef 0) 1000 = Some (r, rng') \<and> r < 1000"
proof -
  have "odd (pcg_inc (hdql_rand_pcg32_seed \<lparr>pcg_state = 0, pcg_inc = 0\<rparr> 0xdeadbeef 0))"
    by (simp add: hdql_rand_pcg32_seed_def Let_def draw_state)
  from uint64_below_terminates [OF this, of 1000] show ?thesis by auto
qed

end
