(* ===== verification/Heap.thy ===== *)
theory Heap
  imports Prelude
begin

text \<open>
  The C heap as the library uses it. \<open>malloc\<close> hands out an address that no live block has,
  or null; which requests fail is an arbitrary function of the number of the request, fixed
  in the state, so a theorem for every heap covers every pattern of failures. \<open>free\<close> of null
  does nothing, and \<open>free\<close> of an address that is not live is undefined. The contents of a
  block are kept by the structures that own it, a block is only a name here.

  \<open>hdql_context_alloc\<close> and \<open>hdql_context_free\<close> (\<open>src/context.cc\<close>) forward to \<open>malloc\<close> and
  \<open>free\<close> of the same heap.
\<close>

type_synonym addr = nat

record heap =
  hp_next :: nat
  hp_live :: "addr set"
  hp_oom :: "nat \<Rightarrow> bool"

definition heap_wf :: "heap \<Rightarrow> bool" where
  "heap_wf h \<longleftrightarrow> (\<forall>a \<in> hp_live h. a < hp_next h)"

definition heap_malloc :: "heap \<Rightarrow> addr option \<times> heap" where
  "heap_malloc h =
     (let n = hp_next h; h' = h\<lparr>hp_next := Suc n\<rparr>
      in if hp_oom h n then (None, h') else (Some n, h'\<lparr>hp_live := insert n (hp_live h)\<rparr>))"

definition heap_free :: "addr option \<Rightarrow> heap \<Rightarrow> heap option" where
  "heap_free p h =
     (case p of None \<Rightarrow> Some h
      | Some a \<Rightarrow> if a \<in> hp_live h then Some (h\<lparr>hp_live := hp_live h - {a}\<rparr>) else None)"

definition hdql_context_alloc :: "heap \<Rightarrow> size_t \<Rightarrow> addr option \<times> heap" where
  "hdql_context_alloc h len = heap_malloc h"

definition hdql_context_free :: "heap \<Rightarrow> addr option \<Rightarrow> heap option" where
  "hdql_context_free h p = heap_free p h"

lemma heap_malloc_wf: "heap_wf h \<Longrightarrow> heap_malloc h = (p, h') \<Longrightarrow> heap_wf h'"
  by (auto simp: heap_malloc_def heap_wf_def Let_def less_Suc_eq split: if_splits)

lemma heap_malloc_fresh:
  "heap_wf h \<Longrightarrow> heap_malloc h = (Some p, h') \<Longrightarrow>
   p \<notin> hp_live h \<and> hp_live h' = insert p (hp_live h)"
  by (auto simp: heap_malloc_def heap_wf_def Let_def split: if_splits)

lemma heap_malloc_null: "heap_malloc h = (None, h') \<Longrightarrow> hp_live h' = hp_live h"
  by (auto simp: heap_malloc_def Let_def split: if_splits)

lemma heap_free_live:
  "p \<in> hp_live h \<Longrightarrow> heap_free (Some p) h = Some (h\<lparr>hp_live := hp_live h - {p}\<rparr>)"
  by (simp add: heap_free_def)

lemma heap_free_wf: "heap_wf h \<Longrightarrow> heap_free p h = Some h' \<Longrightarrow> heap_wf h'"
  by (auto simp: heap_free_def heap_wf_def split: option.splits if_splits)

lemma heap_free_null [simp]: "heap_free None h = Some h"
  by (simp add: heap_free_def)

lemma heap_free_not_live [simp]: "p \<notin> hp_live h \<Longrightarrow> heap_free (Some p) h = None"
  by (simp add: heap_free_def)

end
