(* ===== verification/Allocator.thy ===== *)
theory Allocator
  imports Heap
begin

unbundle bit_operations_syntax

text \<open>
  The allocators of \<open>src/allocator.c\<close> behind the interface \<open>struct hdql_Allocator\<close>: the
  forwarding one over the C heap, and the arena that carves blocks out of mapped pages. The
  \<open>userdata\<close> pointer of the interface is the allocator's state, passed and returned.
\<close>

section \<open>The interface and its contract\<close>

record 'u hdql_Allocator =
  al_alloc :: "size_t \<Rightarrow> 'u \<Rightarrow> (addr option \<times> 'u) option"
  al_free :: "addr option \<Rightarrow> 'u \<Rightarrow> 'u option"

text \<open>
  A source of memory: every request for at least one byte (and at most \<open>limit\<close>) returns, and
  an address it returns is not in use. \<open>live u\<close> is the set of addresses in use.
\<close>

locale alloc_source =
  fixes alloc :: "size_t \<Rightarrow> 'u \<Rightarrow> (addr option \<times> 'u) option"
    and live :: "'u \<Rightarrow> addr set"
    and inv :: "'u \<Rightarrow> bool"
    and limit :: nat
  assumes alloc_returns: "inv u \<Longrightarrow> 0 < sz \<Longrightarrow> unat sz \<le> limit \<Longrightarrow> \<exists>r u'. alloc sz u = Some (r, u')"
    and alloc_inv: "inv u \<Longrightarrow> 0 < sz \<Longrightarrow> unat sz \<le> limit \<Longrightarrow> alloc sz u = Some (r, u') \<Longrightarrow> inv u'"
    and alloc_fresh: "inv u \<Longrightarrow> 0 < sz \<Longrightarrow> unat sz \<le> limit \<Longrightarrow> alloc sz u = Some (Some p, u') \<Longrightarrow>
      p \<notin> live u \<and> insert p (live u) \<subseteq> live u'"
    and alloc_null: "inv u \<Longrightarrow> 0 < sz \<Longrightarrow> unat sz \<le> limit \<Longrightarrow> alloc sz u = Some (None, u') \<Longrightarrow>
      live u' = live u"
begin

text \<open>Two requests in a row never return the same address.\<close>

lemma alloc_distinct:
  assumes "inv u" "0 < sz" "unat sz \<le> limit" "0 < sz'" "unat sz' \<le> limit"
    and first: "alloc sz u = Some (Some p, u')"
    and second: "alloc sz' u' = Some (Some q, u'')"
  shows "p \<noteq> q"
  using alloc_fresh [OF assms(1-3) first] alloc_fresh [OF alloc_inv [OF assms(1-3) first] assms(4,5) second]
  by auto

end

text \<open>
  An allocator also takes blocks back. A \<open>precise\<close> one keeps an exact account of what is in
  use; one that is not may reserve more than it was asked for, or keep a block it was given
  back, as the arena does.
\<close>

locale allocator = alloc_source +
  fixes free :: "addr option \<Rightarrow> 'u \<Rightarrow> 'u option"
    and precise :: bool
  assumes alloc_exact: "precise \<Longrightarrow> inv u \<Longrightarrow> 0 < sz \<Longrightarrow> unat sz \<le> limit \<Longrightarrow>
      alloc sz u = Some (Some p, u') \<Longrightarrow> live u' = insert p (live u)"
    and free_live: "inv u \<Longrightarrow> p \<in> live u \<Longrightarrow>
      \<exists>u'. free (Some p) u = Some u' \<and> inv u' \<and> live u - {p} \<subseteq> live u' \<and>
        (precise \<longrightarrow> live u' = live u - {p})"
begin

text \<open>
  The accounting of a client. From \<open>u\<close>, where it owned the blocks \<open>X\<close>, to \<open>u'\<close>, where it owns
  the blocks \<open>Y\<close>: everything it owns is in use, everything in use that was not its own is
  still in use and still not its own, and with a precise allocator nothing else is in use.
\<close>

definition moved :: "'u \<Rightarrow> addr set \<Rightarrow> addr set \<Rightarrow> 'u \<Rightarrow> bool" where
  "moved u X Y u' \<longleftrightarrow> inv u' \<and> Y \<subseteq> live u' \<and> live u - X \<subseteq> live u' \<and> Y \<inter> (live u - X) = {} \<and>
     (precise \<longrightarrow> live u' = (live u - X) \<union> Y)"

lemma moved_refl: "inv u \<Longrightarrow> X \<subseteq> live u \<Longrightarrow> moved u X X u"
  by (auto simp: moved_def)

lemma moved_trans: "moved u X Y u' \<Longrightarrow> moved u' Y Z u'' \<Longrightarrow> moved u X Z u''"
  unfolding moved_def by blast

lemma moved_inv: "moved u X Y u' \<Longrightarrow> inv u'"
  by (simp add: moved_def)

lemma moved_owned: "moved u X Y u' \<Longrightarrow> Y \<subseteq> live u'"
  by (simp add: moved_def)

lemma moved_alloc:
  assumes "inv u" "0 < sz" "unat sz \<le> limit" "alloc sz u = Some (Some p, u')" "X \<subseteq> live u"
  shows "p \<notin> X" "moved u X (insert p X) u'"
  using alloc_fresh [OF assms(1-4)] alloc_inv [OF assms(1-4)] alloc_exact [OF _ assms(1-4)] assms(5)
  by (auto simp: moved_def)

lemma moved_alloc_null:
  assumes "inv u" "0 < sz" "unat sz \<le> limit" "alloc sz u = Some (None, u')" "X \<subseteq> live u"
  shows "moved u X X u'"
  using alloc_null [OF assms(1-4)] alloc_inv [OF assms(1-4)] assms(5)
  by (auto simp: moved_def)

lemma moved_free:
  assumes "inv u" "X \<subseteq> live u" "p \<in> X"
  obtains u' where "free (Some p) u = Some u'" "moved u X (X - {p}) u'"
proof -
  from free_live [of u p] assms obtain u' where
    "free (Some p) u = Some u'" "inv u'" "live u - {p} \<subseteq> live u'"
    "precise \<longrightarrow> live u' = live u - {p}" by auto
  with that assms(2,3) show thesis by (auto simp: moved_def)
qed

text \<open>Releasing a list of distinct owned blocks in order succeeds and gives up exactly them.\<close>

fun free_list :: "addr list \<Rightarrow> 'u \<Rightarrow> 'u option" where
  "free_list [] u = Some u"
| "free_list (p # ps) u = do { u \<leftarrow> free (Some p) u; free_list ps u }"

lemma moved_free_list:
  "inv u \<Longrightarrow> X \<subseteq> live u \<Longrightarrow> distinct ps \<Longrightarrow> set ps \<subseteq> X \<Longrightarrow>
   \<exists>u'. free_list ps u = Some u' \<and> moved u X (X - set ps) u'"
proof (induction ps arbitrary: u X)
  case (Cons p ps)
  from Cons.prems obtain v where v: "free (Some p) u = Some v" "moved u X (X - {p}) v"
    using moved_free [of u X p] by auto
  have "\<exists>w. free_list ps v = Some w \<and> moved v (X - {p}) (X - {p} - set ps) w"
    using Cons.IH [of v "X - {p}"] moved_inv [OF v(2)] moved_owned [OF v(2)] Cons.prems by auto
  with v show ?case
    using moved_trans by (auto simp: Diff_insert2 [symmetric] Diff_insert [of X p "set ps"])
qed (auto simp: moved_refl)

lemma free_list_append: "free_list (ps @ qs) u = do { u \<leftarrow> free_list ps u; free_list qs u }"
  by (induction ps arbitrary: u) (auto split: bind_splits)

end

section \<open>Forwarding to the C heap\<close>

definition hdql_std_malloc :: "size_t \<Rightarrow> heap \<Rightarrow> (addr option \<times> heap) option" where
  "hdql_std_malloc sz h = do { c_assert (0 < sz); Some (heap_malloc h) }"

definition hdql_std_free :: "addr option \<Rightarrow> heap \<Rightarrow> heap option" where
  "hdql_std_free p h = heap_free p h"

definition hdql_gHeapAllocator :: "heap hdql_Allocator" where
  "hdql_gHeapAllocator = \<lparr>al_alloc = hdql_std_malloc, al_free = hdql_std_free\<rparr>"

lemma hdql_std_malloc_pos: "0 < sz \<Longrightarrow> hdql_std_malloc sz h = Some (heap_malloc h)"
  by (simp add: hdql_std_malloc_def)

lemma hdql_std_free_live:
  "heap_wf h \<Longrightarrow> p \<in> hp_live h \<Longrightarrow>
   \<exists>h'. hdql_std_free (Some p) h = Some h' \<and> heap_wf h' \<and> hp_live h' = hp_live h - {p}"
  by (auto simp: hdql_std_free_def heap_free_live dest: heap_free_wf [OF _ heap_free_live])

interpretation std: allocator hdql_std_malloc hp_live heap_wf "2 ^ 64" hdql_std_free True
proof unfold_locales
  fix h sz p h'
  assume "heap_wf h" "0 < sz" "hdql_std_malloc sz h = Some (p, h')"
  then show "heap_wf h'" by (simp add: hdql_std_malloc_pos heap_malloc_wf)
next
  fix h p
  assume "heap_wf h" "p \<in> hp_live h"
  from hdql_std_free_live [OF this]
  show "\<exists>h'. hdql_std_free (Some p) h = Some h' \<and> heap_wf h' \<and> hp_live h - {p} \<subseteq> hp_live h' \<and>
      (True \<longrightarrow> hp_live h' = hp_live h - {p})" by blast
qed (auto simp: hdql_std_malloc_pos dest: heap_malloc_fresh heap_malloc_null)

section \<open>The arena\<close>

text \<open>
  Page mappings: \<open>mmap\<close> of an anonymous private region hands out a fresh page-aligned range or
  fails (\<open>MAP_FAILED\<close>), which requests fail is an arbitrary function of the request's number;
  a request for nothing fails. \<open>munmap\<close> takes a whole mapping back.
\<close>

record vm =
  vm_next :: nat
  vm_maps :: "(addr \<times> nat) set"
  vm_reqs :: nat
  vm_fail :: "nat \<Rightarrow> bool"
  vm_page :: size_t

definition vm_mmap :: "size_t \<Rightarrow> vm \<Rightarrow> addr option \<times> vm" where
  "vm_mmap len v =
     (let n = vm_next v; v' = v\<lparr>vm_reqs := Suc (vm_reqs v)\<rparr>
      in if len = 0 \<or> vm_fail v (vm_reqs v) then (None, v')
         else (Some n,
               v'\<lparr>vm_next := n + unat len, vm_maps := insert (n, unat len) (vm_maps v)\<rparr>))"

definition vm_munmap :: "addr \<Rightarrow> size_t \<Rightarrow> vm \<Rightarrow> vm option" where
  "vm_munmap a len v =
     (if (a, unat len) \<in> vm_maps v then Some (v\<lparr>vm_maps := vm_maps v - {(a, unat len)}\<rparr>) else None)"

text \<open>
  The blocks of an arena are linked through \<open>next\<close>, the head first: a list. \<open>ab_addr\<close> is the
  address of the block itself, its \<open>data\<close> starts after the header of three words.
\<close>

record ArenaBlock =
  ab_addr :: addr
  ab_used :: size_t
  ab_capacity :: size_t

record Arena =
  ar_head :: "ArenaBlock list"
  ar_pageSize :: size_t

definition sizeof_ArenaBlock :: size_t where
  "sizeof_ArenaBlock = 24"

lemma unat_sizeof_ArenaBlock [simp]: "unat sizeof_ArenaBlock = 24"
  by (simp add: sizeof_ArenaBlock_def)

definition ab_data :: "ArenaBlock \<Rightarrow> addr" where
  "ab_data b = ab_addr b + unat sizeof_ArenaBlock"

text \<open>\<open>(size + sizeof(void *) - 1) & ~(sizeof(void *) - 1)\<close>\<close>

definition arena_align :: "size_t \<Rightarrow> size_t" where
  "arena_align sz = (sz + 8 - 1) AND NOT (8 - 1)"

definition arena_needs_block :: "ArenaBlock list \<Rightarrow> size_t \<Rightarrow> bool" where
  "arena_needs_block bs sz =
     (case bs of [] \<Rightarrow> True | b # _ \<Rightarrow> ab_used b + sz > ab_capacity b)"

definition arena_block_size :: "size_t \<Rightarrow> size_t \<Rightarrow> size_t" where
  "arena_block_size sz page = ((sz + sizeof_ArenaBlock + page - 1) div page) * page"

text \<open>The code after the block has been settled: take \<open>size\<close> bytes of the head block.\<close>

definition arena_take :: "size_t \<Rightarrow> ArenaBlock list \<Rightarrow> (addr \<times> ArenaBlock list) option" where
  "arena_take sz bs =
     (case bs of [] \<Rightarrow> None
      | b # bs' \<Rightarrow> Some (ab_data b + unat (ab_used b), b\<lparr>ab_used := ab_used b + sz\<rparr> # bs'))"

definition arena_alloc :: "size_t \<Rightarrow> Arena \<times> vm \<Rightarrow> (addr option \<times> Arena \<times> vm) option" where
  "arena_alloc sz0 u =
     (let (ar, v) = u; sz = arena_align sz0
      in if arena_needs_block (ar_head ar) sz
         then let len = arena_block_size sz (ar_pageSize ar)
              in case vm_mmap len v of
                   (None, v') \<Rightarrow> Some (None, ar, v')
                 | (Some a, v') \<Rightarrow>
                     (let nb = \<lparr>ab_addr = a, ab_used = 0, ab_capacity = len - sizeof_ArenaBlock\<rparr>
                      in do { (mem, bs) \<leftarrow> arena_take sz (nb # ar_head ar);
                              Some (Some mem, ar\<lparr>ar_head := bs\<rparr>, v') })
         else do { (mem, bs) \<leftarrow> arena_take sz (ar_head ar);
                   Some (Some mem, ar\<lparr>ar_head := bs\<rparr>, v) })"

definition arena_free :: "addr option \<Rightarrow> Arena \<times> vm \<Rightarrow> (Arena \<times> vm) option" where
  "arena_free data u = Some u"

definition arena_allocator :: "(Arena \<times> vm) hdql_Allocator" where
  "arena_allocator = \<lparr>al_alloc = arena_alloc, al_free = arena_free\<rparr>"

text \<open>
  \<open>hdql_alloc_arena_init\<close> does not test the result of \<open>malloc\<close>: a null one is dereferenced.
  The unsigned page size is \<open>\<le> 0\<close> only when it is zero.
\<close>

definition hdql_alloc_arena_init :: "heap \<times> vm \<Rightarrow> (addr \<times> Arena \<times> heap) option" where
  "hdql_alloc_arena_init hv =
     (let (h, v) = hv
      in case heap_malloc h of
           (None, _) \<Rightarrow> None
         | (Some a, h') \<Rightarrow>
             Some (a, \<lparr>ar_head = [], ar_pageSize = (if vm_page v \<le> 0 then 4096 else vm_page v)\<rparr>, h'))"

fun arena_unmap_all :: "ArenaBlock list \<Rightarrow> vm \<Rightarrow> vm option" where
  "arena_unmap_all [] v = Some v"
| "arena_unmap_all (b # bs) v =
     do { v \<leftarrow> vm_munmap (ab_addr b) (ab_capacity b + sizeof_ArenaBlock) v; arena_unmap_all bs v }"

definition hdql_alloc_arena_destroy :: "addr \<Rightarrow> Arena \<times> vm \<Rightarrow> heap \<Rightarrow> (vm \<times> heap) option" where
  "hdql_alloc_arena_destroy a u h =
     do { v \<leftarrow> arena_unmap_all (ar_head (fst u)) (snd u);
          h \<leftarrow> heap_free (Some a) h;
          Some (v, h) }"

section \<open>What the arena guarantees\<close>

lemma and_not_mask: "x AND NOT (mask n) = push_bit n (drop_bit n (x :: 'a::len word))"
  by (rule bit_word_eqI) (auto simp: bit_simps)

lemma unat_arena_align:
  assumes "unat sz \<le> 2 ^ 62"
  shows "unat (arena_align sz) = (unat sz + 7) div 8 * 8"
proof -
  have mask3: "(8 - 1 :: size_t) = mask 3" by (simp add: mask_eq_exp_minus_1)
  have sum: "unat (sz + 8 - 1) = unat sz + 7"
    using assms by (simp add: unat_word_ariths add_diff_eq [symmetric] del: add_diff_eq)
  have "(unat sz + 7) div 8 * 8 < 18446744073709551616" using assms by simp
  then show ?thesis
    unfolding arena_align_def
    by (simp only: mask3 and_not_mask unsigned_push_bit_eq unsigned_drop_bit_eq sum)
      (simp add: push_bit_eq_mult drop_bit_eq_div take_bit_eq_mod)
qed

lemma unat_arena_block_size:
  assumes "unat sz \<le> 2 ^ 62" "24 < unat page" "unat page \<le> 2 ^ 61"
  shows "unat (arena_block_size sz page) = (unat sz + 23 + unat page) div unat page * unat page"
    and "unat (arena_block_size sz page) < 2 ^ 63"
    and "unat sz + 24 \<le> unat (arena_block_size sz page)"
proof -
  let ?n = "unat sz + 23 + unat page"
  have sum: "unat (sz + sizeof_ArenaBlock + page - 1) = ?n"
  proof -
    have "sz + sizeof_ArenaBlock + page - 1 = sz + 23 + page"
      by (simp add: sizeof_ArenaBlock_def)
    moreover have "unat (sz + 23 + page) = ?n" using assms by (simp add: unat_word_ariths)
    ultimately show ?thesis by (simp only:)
  qed
  have le: "?n div unat page * unat page \<le> ?n" by simp
  have bound: "?n < 2 ^ 63" using assms by simp
  show eq: "unat (arena_block_size sz page) = ?n div unat page * unat page"
    unfolding arena_block_size_def unat_word_ariths(2) unat_div sum
    by (rule mod_less, rule le_less_trans [OF le], rule less_trans [OF bound]) simp
  show "unat (arena_block_size sz page) < 2 ^ 63" using eq le bound by linarith
  have "?n = ?n div unat page * unat page + ?n mod unat page" by (simp only: div_mult_mod_eq)
  moreover have "?n mod unat page < unat page" using assms by simp
  ultimately show "unat sz + 24 \<le> unat (arena_block_size sz page)" using eq by linarith
qed

text \<open>
  The invariant: blocks are mapped, lie below the next mapping one after the other without
  overlap, are aligned, and are not filled beyond their capacity.
\<close>

fun arena_blocks_ok :: "ArenaBlock list \<Rightarrow> addr \<Rightarrow> bool" where
  "arena_blocks_ok [] lim \<longleftrightarrow> True"
| "arena_blocks_ok (b # bs) lim \<longleftrightarrow>
     ab_data b + unat (ab_capacity b) \<le> lim \<and> 8 dvd ab_addr b \<and> 8 dvd unat (ab_used b) \<and>
     ab_used b \<le> ab_capacity b \<and> unat (ab_capacity b) < 2 ^ 63 \<and> arena_blocks_ok bs (ab_addr b)"

definition arena_mapped :: "Arena \<times> vm \<Rightarrow> bool" where
  "arena_mapped u \<longleftrightarrow>
     (\<forall>b \<in> set (ar_head (fst u)). (ab_addr b, unat (ab_capacity b + sizeof_ArenaBlock)) \<in> vm_maps (snd u))"

definition arena_inv :: "Arena \<times> vm \<Rightarrow> bool" where
  "arena_inv u \<longleftrightarrow>
     arena_blocks_ok (ar_head (fst u)) (vm_next (snd u)) \<and> arena_mapped u \<and> 8 dvd vm_next (snd u) \<and>
     8 dvd unat (ar_pageSize (fst u)) \<and> 24 < unat (ar_pageSize (fst u)) \<and>
     unat (ar_pageSize (fst u)) \<le> 2 ^ 61"

definition block_bytes :: "ArenaBlock \<Rightarrow> addr set" where
  "block_bytes b = {ab_data b ..< ab_data b + unat (ab_used b)}"

definition arena_live :: "Arena \<times> vm \<Rightarrow> addr set" where
  "arena_live u = (\<Union>b \<in> set (ar_head (fst u)). block_bytes b)"

lemma blocks_below:
  "arena_blocks_ok bs lim \<Longrightarrow> (\<Union>b \<in> set bs. block_bytes b) \<subseteq> {..< lim}"
proof (induction bs arbitrary: lim)
  case (Cons b bs)
  then have "(\<Union>c \<in> set bs. block_bytes c) \<subseteq> {..< ab_addr b}" by simp
  moreover have "block_bytes b \<subseteq> {..< lim}"
    using Cons.prems by (auto simp: block_bytes_def word_le_nat_alt)
  moreover have "ab_addr b \<le> lim" using Cons.prems by (simp add: ab_data_def)
  ultimately show ?case by fastforce
qed simp

text \<open>Taking bytes of a head block with enough room.\<close>

lemma arena_take_room:
  assumes ok: "arena_blocks_ok (b # bs) lim"
    and sz: "8 dvd unat sz" "unat (ab_used b) + unat sz \<le> unat (ab_capacity b)"
    and p: "p = ab_data b + unat (ab_used b)" and b': "b' = b\<lparr>ab_used := ab_used b + sz\<rparr>"
  shows "arena_take sz (b # bs) = Some (p, b' # bs)"
    and "arena_blocks_ok (b' # bs) lim"
    and "8 dvd p"
    and "{p ..< p + unat sz} \<inter> (\<Union>c \<in> set (b # bs). block_bytes c) = {}"
    and "(\<Union>c \<in> set (b' # bs). block_bytes c) = {p ..< p + unat sz} \<union> (\<Union>c \<in> set (b # bs). block_bytes c)"
    and "{p ..< p + unat sz} \<subseteq> {ab_data b' ..< ab_data b' + unat (ab_capacity b')}"
proof -
  have used: "unat (ab_used b + sz) = unat (ab_used b) + unat sz"
    using sz(2) unat64_less [of "ab_capacity b"] by (simp add: unat_word_ariths)
  have below: "(\<Union>c \<in> set bs. block_bytes c) \<subseteq> {..< ab_addr b}"
    using ok by (intro blocks_below) simp
  have data: "ab_addr b < ab_data b" "ab_data b' = ab_data b" "8 dvd ab_addr b \<longrightarrow> 8 dvd ab_data b"
    by (simp_all add: ab_data_def sizeof_ArenaBlock_def b')
  show "arena_take sz (b # bs) = Some (p, b' # bs)" by (simp add: arena_take_def p b')
  show "arena_blocks_ok (b' # bs) lim"
    using ok sz used data by (simp add: b' ab_data_def word_le_nat_alt)
  show "8 dvd p" using ok data by (simp add: p)
  show "{p ..< p + unat sz} \<inter> (\<Union>c \<in> set (b # bs). block_bytes c) = {}"
    using below data by (force simp: p block_bytes_def)
  show "(\<Union>c \<in> set (b' # bs). block_bytes c) = {p ..< p + unat sz} \<union> (\<Union>c \<in> set (b # bs). block_bytes c)"
    using used data by (auto simp: p block_bytes_def b')
  show "{p ..< p + unat sz} \<subseteq> {ab_data b' ..< ab_data b' + unat (ab_capacity b')}"
    using sz(2) by (auto simp: p data) (simp add: b')
qed


text \<open>One request, on both branches of the code.\<close>

lemma arena_alloc_old:
  assumes inv: "arena_inv (ar, v)" and sz: "unat sz \<le> 2 ^ 62"
    and old: "\<not> arena_needs_block (ar_head ar) (arena_align sz)"
  obtains b bs where "ar_head ar = b # bs"
    "unat (ab_used b) + unat (arena_align sz) \<le> unat (ab_capacity b)"
proof -
  from old obtain b bs where b: "ar_head ar = b # bs"
    and room: "\<not> ab_used b + arena_align sz > ab_capacity b"
    by (cases "ar_head ar") (auto simp: arena_needs_block_def)
  have "(unat sz + 7) div 8 * 8 \<le> unat sz + 7" by simp
  then have al: "unat (arena_align sz) \<le> 2 ^ 62 + 7" using sz by (simp add: unat_arena_align)
  have "ab_used b \<le> ab_capacity b" "unat (ab_capacity b) < 2 ^ 63"
    using inv b by (simp_all add: arena_inv_def)
  then have "unat (ab_used b + arena_align sz) = unat (ab_used b) + unat (arena_align sz)"
    using al by (simp add: unat_word_ariths word_le_nat_alt)
  then show thesis using that b room by (simp add: word_le_nat_alt not_less)
qed

lemma arena_alloc_spec:
  assumes inv: "arena_inv u" and sz: "unat sz \<le> 2 ^ 62"
    and ret: "arena_alloc sz u = Some (Some p, u')"
  shows "arena_inv u' \<and> 8 dvd p \<and>
    {p ..< p + unat (arena_align sz)} \<inter> arena_live u = {} \<and>
    arena_live u' = {p ..< p + unat (arena_align sz)} \<union> arena_live u \<and>
    (\<exists>b \<in> set (ar_head (fst u')).
       {p ..< p + unat (arena_align sz)} \<subseteq> {ab_data b ..< ab_data b + unat (ab_capacity b)} \<and>
       (ab_addr b, unat (ab_capacity b + sizeof_ArenaBlock)) \<in> vm_maps (snd u'))"
proof -
  obtain ar v where u: "u = (ar, v)" by (cases u)
  let ?sz = "arena_align sz"
  have al: "8 dvd unat ?sz" "unat ?sz \<le> 2 ^ 62 + 7"
    using sz div_times_less_eq_dividend [of "unat sz + 7" 8] by (simp_all add: unat_arena_align)
  have small: "unat ?sz \<le> 2 ^ 62"
  proof -
    have "(unat sz + 7) div 8 \<le> (2 ^ 62 + 7) div 8" using sz by (intro div_le_mono) simp
    then show ?thesis using sz by (simp add: unat_arena_align)
  qed
  show ?thesis
  proof (cases "arena_needs_block (ar_head ar) ?sz")
    case False
    then obtain b bs where b: "ar_head ar = b # bs"
      and room: "unat (ab_used b) + unat ?sz \<le> unat (ab_capacity b)"
      using arena_alloc_old inv sz u by blast
    define b' where "b' = b\<lparr>ab_used := ab_used b + ?sz\<rparr>"
    have ok: "arena_blocks_ok (b # bs) (vm_next v)" using inv by (simp add: arena_inv_def u b)
    note t = arena_take_room [OF ok al(1) room refl b'_def]
    have "Some p = Some (ab_data b + unat (ab_used b)) \<and> u' = (ar\<lparr>ar_head := b' # bs\<rparr>, v)"
      using ret False by (simp add: u arena_alloc_def Let_def b t(1))
    then have p: "p = ab_data b + unat (ab_used b)" and u': "u' = (ar\<lparr>ar_head := b' # bs\<rparr>, v)"
      by simp_all
    have "arena_mapped u'" using inv by (simp add: arena_inv_def arena_mapped_def u u' b b'_def)
    with inv t(2-6) show ?thesis
      unfolding arena_inv_def arena_mapped_def arena_live_def u u' p
      by (simp add: b)
  next
    case True
    let ?len = "arena_block_size ?sz (ar_pageSize ar)"
    from inv have page: "24 < unat (ar_pageSize ar)" "unat (ar_pageSize ar) \<le> 2 ^ 61"
      "8 dvd unat (ar_pageSize ar)" by (simp_all add: arena_inv_def u)
    note len = unat_arena_block_size [OF small page(1,2)]
    define nb where "nb = \<lparr>ab_addr = vm_next v, ab_used = 0, ab_capacity = ?len - sizeof_ArenaBlock\<rparr>"
    define v' where "v' = v\<lparr>vm_reqs := Suc (vm_reqs v), vm_next := vm_next v + unat ?len,
      vm_maps := insert (vm_next v, unat ?len) (vm_maps v)\<rparr>"
    define nb' where "nb' = nb\<lparr>ab_used := ab_used nb + ?sz\<rparr>"
    have cap: "unat (ab_capacity nb) = unat ?len - 24" "unat ?sz \<le> unat ?len - 24"
      using len(3) by (auto simp: nb_def sizeof_ArenaBlock_def unat_sub word_le_nat_alt)
    have ok: "arena_blocks_ok (nb # ar_head ar) (vm_next v')"
      using inv len cap by (auto simp: arena_inv_def u v'_def ab_data_def sizeof_ArenaBlock_def)
        (simp_all add: nb_def)
    note t = arena_take_room [OF ok al(1) _ refl nb'_def]
    have room: "unat (ab_used nb) + unat ?sz \<le> unat (ab_capacity nb)"
      using cap by (simp add: nb_def)
    have mm: "vm_mmap ?len v = (Some (vm_next v), v')"
      using ret True by (simp add: u arena_alloc_def vm_mmap_def Let_def v'_def split: if_splits)
    have "Some p = Some (ab_data nb + unat (ab_used nb)) \<and> u' = (ar\<lparr>ar_head := nb' # ar_head ar\<rparr>, v')"
      using ret True t(1) [OF room] by (simp add: u arena_alloc_def Let_def mm nb_def [symmetric])
    then have p: "p = ab_data nb + unat (ab_used nb)"
      and u': "u' = (ar\<lparr>ar_head := nb' # ar_head ar\<rparr>, v')"
      by simp_all
    have nb0: "block_bytes nb = {}" by (simp add: nb_def block_bytes_def)
    have map: "(ab_addr nb', unat (ab_capacity nb' + sizeof_ArenaBlock)) \<in> vm_maps v'"
      by (simp add: nb'_def nb_def v'_def)
    have "arena_mapped u'"
      using inv map by (auto simp: arena_inv_def arena_mapped_def u u' v'_def)
    moreover have "8 dvd vm_next v'"
      using inv page(3) by (simp add: v'_def arena_inv_def u len(1))
    ultimately show ?thesis
      using inv t(2-6) [OF room] map
      unfolding arena_inv_def arena_live_def u u' p
      by (simp add: nb0)
  qed
qed


lemma arena_alloc_null:
  assumes "arena_inv u" "arena_alloc sz u = Some (None, u')"
  shows "arena_inv u'" "ar_head (fst u') = ar_head (fst u)"
  using assms
  by (auto simp: arena_alloc_def arena_inv_def arena_mapped_def vm_mmap_def Let_def
      split: prod.splits if_splits option.splits)

lemma arena_alloc_returns:
  assumes "arena_inv u" "unat sz \<le> 2 ^ 62"
  shows "\<exists>r u'. arena_alloc sz u = Some (r, u')"
proof (cases "arena_needs_block (ar_head (fst u)) (arena_align sz)")
  case True
  then show ?thesis
    by (auto simp: arena_alloc_def arena_take_def Let_def split: prod.splits option.splits)
next
  case False
  then show ?thesis
    by (auto simp: arena_alloc_def arena_take_def arena_needs_block_def Let_def
        split: prod.splits list.splits)
qed

lemma unat_arena_align_pos:
  "unat sz \<le> 2 ^ 62 \<Longrightarrow> 0 < sz \<Longrightarrow> unat sz \<le> unat (arena_align sz) \<and> 0 < unat (arena_align sz)"
  by (auto simp: unat_arena_align word_less_nat_alt)

interpretation arena: allocator arena_alloc arena_live arena_inv "2 ^ 62" arena_free False
proof unfold_locales
  fix u sz r u'
  assume u: "arena_inv u" "unat sz \<le> 2 ^ 62" "arena_alloc sz u = Some (r, u')"
  then show "arena_inv u'"
    by (cases r) (auto dest: arena_alloc_null arena_alloc_spec)
next
  fix u sz p u'
  assume u: "arena_inv u" "0 < sz" "unat sz \<le> 2 ^ 62" "arena_alloc sz u = Some (Some p, u')"
  then have "p \<in> {p ..< p + unat (arena_align sz)}" by (simp add: unat_arena_align_pos)
  then show "p \<notin> arena_live u \<and> insert p (arena_live u) \<subseteq> arena_live u'"
    using arena_alloc_spec [OF u(1,3,4)] by blast
next
  fix u sz u'
  assume "arena_inv u" "arena_alloc sz u = Some (None, u')"
  from arena_alloc_null(2) [OF this] show "arena_live u' = arena_live u"
    by (simp only: arena_live_def)
next
  fix u and sz :: size_t
  assume "arena_inv u" "unat sz \<le> 2 ^ 62"
  then show "\<exists>r u'. arena_alloc sz u = Some (r, u')" by (rule arena_alloc_returns)
qed (simp_all add: arena_free_def)

text \<open>Destroying the arena unmaps every block, once.\<close>

lemma arena_unmap_all_exact:
  "arena_blocks_ok bs lim \<Longrightarrow>
   \<forall>b \<in> set bs. (ab_addr b, unat (ab_capacity b + sizeof_ArenaBlock)) \<in> vm_maps v \<Longrightarrow>
   \<exists>v'. arena_unmap_all bs v = Some v' \<and>
     vm_maps v' = vm_maps v - {(ab_addr b, unat (ab_capacity b + sizeof_ArenaBlock)) | b. b \<in> set bs}"
proof (induction bs arbitrary: v lim)
  case (Cons b bs)
  let ?m = "\<lambda>b. (ab_addr b, unat (ab_capacity b + sizeof_ArenaBlock))"
  have below: "arena_blocks_ok cs l \<Longrightarrow> c \<in> set cs \<Longrightarrow> ab_addr c < l" for cs l c
    by (induction cs l rule: arena_blocks_ok.induct) (auto simp: ab_data_def sizeof_ArenaBlock_def)
  from Cons.prems(1) have ne: "c \<in> set bs \<Longrightarrow> ab_addr c \<noteq> ab_addr b" for c
    using below [of bs "ab_addr b" c] by simp
  define w where "w = v\<lparr>vm_maps := vm_maps v - {?m b}\<rparr>"
  have w: "vm_munmap (ab_addr b) (ab_capacity b + sizeof_ArenaBlock) v = Some w"
    using Cons.prems(2) by (simp add: vm_munmap_def w_def)
  have "\<forall>c \<in> set bs. ?m c \<in> vm_maps w" using Cons.prems(2) ne by (auto simp: w_def)
  with Cons.IH [of "ab_addr b" w] Cons.prems(1) obtain v' where
    "arena_unmap_all bs w = Some v'" "vm_maps v' = vm_maps w - {?m c | c. c \<in> set bs}"
    by auto
  with w show ?case by (auto simp: w_def)
qed auto

lemma arena_capacity_fits:
  "arena_blocks_ok bs lim \<Longrightarrow> b \<in> set bs \<Longrightarrow>
   unat (ab_capacity b + sizeof_ArenaBlock) = unat (ab_capacity b) + 24"
  by (induction bs lim rule: arena_blocks_ok.induct)
    (auto simp: sizeof_ArenaBlock_def unat_word_ariths)

text \<open>
  C38: A request of up to 2^62 bytes to a well-formed arena returns null or an 8-aligned address.
  The requested bytes from there on lie inside one mapped block and belong to no earlier
  request, everything handed out before stays handed out, and the arena stays well-formed.
\<close>

theorem arena_alloc_disjoint:
  assumes "arena_inv u" "0 < sz" "unat sz \<le> 2 ^ 62"
  shows "\<exists>r u'. arena_alloc sz u = Some (r, u') \<and> arena_inv u' \<and>
    (case r of None \<Rightarrow> arena_live u' = arena_live u
     | Some p \<Rightarrow> 8 dvd p \<and> {p ..< p + unat sz} \<inter> arena_live u = {} \<and>
         {p ..< p + unat sz} \<union> arena_live u \<subseteq> arena_live u' \<and>
         (\<exists>(a, len) \<in> vm_maps (snd u'). {p ..< p + unat sz} \<subseteq> {a + 24 ..< a + len}))"
proof -
  obtain r u' where ret: "arena_alloc sz u = Some (r, u')"
    using arena.alloc_returns [OF assms] by blast
  have inv: "arena_inv u'" using arena.alloc_inv [OF assms ret] .
  show ?thesis
  proof (cases r)
    case None
    then show ?thesis using ret inv arena.alloc_null [OF assms] by simp
  next
    case (Some p)
    note spec = arena_alloc_spec [OF assms(1,3) ret [unfolded Some]]
    then obtain b where b: "b \<in> set (ar_head (fst u'))"
      and in_b: "{p ..< p + unat (arena_align sz)} \<subseteq> {ab_data b ..< ab_data b + unat (ab_capacity b)}"
      and m: "(ab_addr b, unat (ab_capacity b + sizeof_ArenaBlock)) \<in> vm_maps (snd u')"
      by blast
    have sub: "{p ..< p + unat sz} \<subseteq> {p ..< p + unat (arena_align sz)}"
      using unat_arena_align_pos [OF assms(3,2)] by auto
    have "unat (ab_capacity b + sizeof_ArenaBlock) = unat (ab_capacity b) + 24"
      using inv b by (auto simp: arena_inv_def intro: arena_capacity_fits)
    then have "{p ..< p + unat sz} \<subseteq>
        {ab_addr b + 24 ..< ab_addr b + unat (ab_capacity b + sizeof_ArenaBlock)}"
      using in_b unat_arena_align_pos [OF assms(3,2)] by (auto simp: ab_data_def)
    with m have "\<exists>(a, len) \<in> vm_maps (snd u'). {p ..< p + unat sz} \<subseteq> {a + 24 ..< a + len}" by blast
    moreover have "{p ..< p + unat sz} \<inter> arena_live u = {}"
      "{p ..< p + unat sz} \<union> arena_live u \<subseteq> arena_live u'" using spec sub by blast+
    ultimately show ?thesis using ret inv spec Some by auto
  qed
qed

lemma arena_alloc_disjoint_witness:
  "\<exists>r u'. arena_alloc 100 (\<lparr>ar_head = [], ar_pageSize = 4096\<rparr>,
      \<lparr>vm_next = 65536, vm_maps = {}, vm_reqs = 0, vm_fail = (\<lambda>n. n = 1), vm_page = 4096\<rparr>) = Some (r, u') \<and>
    arena_inv u'"
  using arena_alloc_disjoint [of "(\<lparr>ar_head = [], ar_pageSize = 4096\<rparr>,
      \<lparr>vm_next = 65536, vm_maps = {}, vm_reqs = 0, vm_fail = (\<lambda>n. n = 1), vm_page = 4096\<rparr>)" 100]
  by (auto simp: arena_inv_def arena_mapped_def)

text \<open>
  Destroying a well-formed arena unmaps each of its blocks exactly once and nothing else,
  and releases the arena's own record.
\<close>

theorem arena_destroy_exact:
  assumes "arena_inv u" "a \<in> hp_live h"
  shows "\<exists>v' h'. hdql_alloc_arena_destroy a u h = Some (v', h') \<and>
    vm_maps v' = vm_maps (snd u) -
      {(ab_addr b, unat (ab_capacity b + sizeof_ArenaBlock)) | b. b \<in> set (ar_head (fst u))} \<and>
    hp_live h' = hp_live h - {a}"
  using assms arena_unmap_all_exact [of "ar_head (fst u)" "vm_next (snd u)" "snd u"]
  by (auto simp: arena_inv_def arena_mapped_def hdql_alloc_arena_destroy_def heap_free_live)

lemma arena_destroy_exact_witness:
  "\<exists>v' h'. hdql_alloc_arena_destroy 3
      (\<lparr>ar_head = [\<lparr>ab_addr = 8192, ab_used = 16, ab_capacity = 4072\<rparr>], ar_pageSize = 4096\<rparr>,
       \<lparr>vm_next = 12288, vm_maps = {(8192, 4096), (0, 4096)}, vm_reqs = 1,
        vm_fail = (\<lambda>n. False), vm_page = 4096\<rparr>)
      \<lparr>hp_next = 4, hp_live = {2, 3}, hp_oom = (\<lambda>n. False)\<rparr> = Some (v', h') \<and>
    vm_maps v' = {(0, 4096)} \<and> hp_live h' = {2}"
  using arena_destroy_exact [of "(\<lparr>ar_head = [\<lparr>ab_addr = 8192, ab_used = 16, ab_capacity = 4072\<rparr>],
       ar_pageSize = 4096\<rparr>,
       \<lparr>vm_next = 12288, vm_maps = {(8192, 4096), (0, 4096)}, vm_reqs = 1,
        vm_fail = (\<lambda>n. False), vm_page = 4096\<rparr>)" 3
      "\<lparr>hp_next = 4, hp_live = {2, 3}, hp_oom = (\<lambda>n. False)\<rparr>"]
  by (auto simp: arena_inv_def arena_mapped_def ab_data_def sizeof_ArenaBlock_def)

text \<open>
  Requests of almost the whole address space are not refused: rounding one up wraps to
  zero bytes, and a non-null address with no byte reserved behind it is returned.
\<close>

theorem arena_alloc_wraps:
  "arena_alloc 0xFFFFFFFFFFFFFFFF
      (\<lparr>ar_head = [\<lparr>ab_addr = 8192, ab_used = 4072, ab_capacity = 4072\<rparr>], ar_pageSize = 4096\<rparr>, v) =
    Some (Some 12288, \<lparr>ar_head = [\<lparr>ab_addr = 8192, ab_used = 4072, ab_capacity = 4072\<rparr>],
       ar_pageSize = 4096\<rparr>, v)"
  by (simp add: arena_alloc_def arena_align_def arena_needs_block_def arena_take_def ab_data_def
      sizeof_ArenaBlock_def)

end
