(* ===== verification/HashTable.thy ===== *)
theory HashTable
  imports Allocator "HOL-Library.Multiset"
begin

unbundle bit_operations_syntax

text \<open>
  The hash table of \<open>src/hash-table.c\<close>: the MurmurHash3 function, and the table of bucket lists
  with its operations over an arbitrary allocator.

  A key with its length is a byte list; a key of 2 GiB or more overflows the \<open>int\<close> in which
  the hash function counts its blocks, which is undefined. A bucket, linked through \<open>next\<close>, is the list of its
  entries. Entries keep the addresses of their two blocks (the entry and the copy of the key),
  so that the entry a caller holds is identified the way the code does, by its address. A
  value is a pointer, \<open>None\<close> when null. The allocator's \<open>userdata\<close> is passed and returned.
\<close>

section \<open>MurmurHash3\<close>

definition murmur_c1 :: u32 where "murmur_c1 = 0xcc9e2d51"
definition murmur_c2 :: u32 where "murmur_c2 = 0x1b873593"

text \<open>A 32-bit load of four bytes, least significant first.\<close>

definition load_le32 :: "byte \<Rightarrow> byte \<Rightarrow> byte \<Rightarrow> byte \<Rightarrow> u32" where
  "load_le32 b0 b1 b2 b3 =
     ucast b0 OR push_bit 8 (ucast b1) OR push_bit 16 (ucast b2) OR push_bit 24 (ucast b3)"

definition murmur_scramble :: "u32 \<Rightarrow> u32" where
  "murmur_scramble k =
     (let k = k * murmur_c1; k = push_bit 15 k OR drop_bit 17 k in k * murmur_c2)"

definition murmur_round :: "u32 \<Rightarrow> u32 \<Rightarrow> u32" where
  "murmur_round h k =
     (let h = h XOR murmur_scramble k; h = push_bit 13 h OR drop_bit 19 h
      in h * 5 + 0xe6546b64)"

text \<open>
  The number of whole blocks is an \<open>int\<close>: \<open>len >> 2\<close>, a \<open>size_t\<close>, converted to 32 bits with
  its sign.
\<close>

definition murmur_nblocks :: "bytes \<Rightarrow> int" where
  "murmur_nblocks key = sint (ucast (drop_bit 2 (of_nat (length key) :: size_t)) :: 32 word)"

text \<open>The loop over the blocks; the bytes from \<open>nblocks << 2\<close> on are the tail.\<close>

fun murmur_blocks :: "nat \<Rightarrow> u32 \<Rightarrow> bytes \<Rightarrow> (u32 \<times> bytes) option" where
  "murmur_blocks 0 h bs = Some (h, bs)"
| "murmur_blocks (Suc n) h (b0 # b1 # b2 # b3 # bs) =
     murmur_blocks n (murmur_round h (load_le32 b0 b1 b2 b3)) bs"
| "murmur_blocks (Suc n) h _ = None"

fun murmur_tail :: "u32 \<Rightarrow> bytes \<Rightarrow> u32" where
  "murmur_tail h [t0, t1, t2] =
     h XOR murmur_scramble (((0 XOR push_bit 16 (ucast t2)) XOR push_bit 8 (ucast t1)) XOR ucast t0)"
| "murmur_tail h [t0, t1] = h XOR murmur_scramble ((0 XOR push_bit 8 (ucast t1)) XOR ucast t0)"
| "murmur_tail h [t0] = h XOR murmur_scramble (0 XOR ucast t0)"
| "murmur_tail h _ = h"

text \<open>The shift \<open>nblocks << 2\<close> is undefined for a negative number and when it overflows the \<open>int\<close>.\<close>

definition murmur3_32 :: "bytes \<Rightarrow> u32 \<Rightarrow> u32 option" where
  "murmur3_32 key seed = do {
     let nblocks = murmur_nblocks key;
     (h, tl) \<leftarrow> murmur_blocks (nat nblocks) seed key;
     c_assert (0 \<le> nblocks \<and> nblocks * 4 < 2 ^ 31);
     let h = murmur_tail h (take (length key mod 4) tl);
     let h = h XOR of_nat (length key);
     let h = h XOR drop_bit 16 h;
     let h = h * 0x85ebca6b;
     let h = h XOR drop_bit 13 h;
     let h = h * 0xc2b2ae35;
     Some (h XOR drop_bit 16 h) }"

text \<open>The function is defined on keys of less than 2 GiB.\<close>

lemma murmur_nblocks_short:
  assumes "length key < 2 ^ 31"
  shows "murmur_nblocks key = int (length key div 4)"
proof -
  have n: "length key div 4 < 2 ^ 29" using assms by simp
  have "unat (drop_bit 2 (of_nat (length key) :: size_t)) = length key div 4"
    using assms by (simp only: unat_drop_bit) (simp add: unat_of_nat)
  then have "ucast (drop_bit 2 (of_nat (length key) :: size_t)) = (of_nat (length key div 4) :: 32 word)"
    by (metis of_nat_unat)
  then show ?thesis
    using n signed_take_bit_int_eq_self [of 31 "int (length key div 4)"]
    by (simp add: murmur_nblocks_def sint_uint uint_nat unat_of_nat)
qed

lemma murmur_blocks_ok: "4 * n \<le> length bs \<Longrightarrow> \<exists>h'. murmur_blocks n h bs = Some (h', drop (4 * n) bs)"
proof (induction n h bs rule: murmur_blocks.induct)
  case (2 n h b0 b1 b2 b3 bs)
  then show ?case by (simp add: numeral_eq_Suc)
qed auto

lemma murmur3_32_defined:
  assumes "length key < 2 ^ 31"
  shows "\<exists>h. murmur3_32 key seed = Some h"
proof -
  have "4 * (length key div 4) \<le> length key" by simp
  then obtain h' where "murmur_blocks (length key div 4) seed key =
      Some (h', drop (4 * (length key div 4)) key)"
    using murmur_blocks_ok by blast
  moreover have "int (length key div 4) * 4 < 2 ^ 31"
  proof -
    have "int (length key div 4 * 4) < int (2 ^ 31)"
      using le_less_trans [OF div_times_less_eq_dividend assms] by (simp only: of_nat_less_iff)
    then show ?thesis by simp
  qed
  ultimately show ?thesis
    by (simp add: murmur3_32_def murmur_nblocks_short [OF assms] Let_def)
qed

text \<open>
  The hash agrees with the published test vectors of MurmurHash3 (x86, 32 bit): with and
  without a tail of each length, and with seeds of all kinds.
\<close>

theorem murmur3_32_vectors:
  "murmur3_32 [] 0 = Some 0 \<and>
   murmur3_32 [] 1 = Some 0x514E28B7 \<and>
   murmur3_32 [] 0xffffffff = Some 0x81F16F39 \<and>
   murmur3_32 [0xff, 0xff, 0xff, 0xff] 0 = Some 0x76293B50 \<and>
   murmur3_32 [0x21, 0x43, 0x65, 0x87] 0 = Some 0xF55B516B \<and>
   murmur3_32 [0x21, 0x43, 0x65, 0x87] 0x5082EDEE = Some 0x2362F9DE \<and>
   murmur3_32 [0x21, 0x43, 0x65] 0 = Some 0x7E4A8634 \<and>
   murmur3_32 [0x21, 0x43] 0 = Some 0xA0F7B07A \<and>
   murmur3_32 [0x21] 0 = Some 0x72661CF4 \<and>
   murmur3_32 [0, 0, 0, 0] 0 = Some 0x2362F9DE \<and>
   murmur3_32 [97, 97, 97, 97] 0x9747b28c = Some 0x5A97808A"
  by (intro conjI; code_simp)

section \<open>The table\<close>

definition HDQL_HT_RC_OK :: int where "HDQL_HT_RC_OK = 0"
definition HDQL_HT_RC_UPDATED :: int where "HDQL_HT_RC_UPDATED = 1"
definition HDQL_HT_RC_INSERTED :: int where "HDQL_HT_RC_INSERTED = 2"
definition HDQL_HT_ERROR :: int where "HDQL_HT_ERROR = 128"
definition HDQL_HT_ERR_MEM :: int where "HDQL_HT_ERR_MEM = 129"
definition HDQL_HT_RC_ERR_NOENT :: int where "HDQL_HT_RC_ERR_NOENT = 130"

lemmas ht_codes = HDQL_HT_RC_OK_def HDQL_HT_RC_UPDATED_def HDQL_HT_RC_INSERTED_def
  HDQL_HT_ERROR_def HDQL_HT_ERR_MEM_def HDQL_HT_RC_ERR_NOENT_def

record 'v hdql_ht_entry =
  he_addr :: addr
  he_keyp :: addr
  he_key :: bytes
  he_value :: "'v option"

record ('v, 'u) hdql_ht =
  ht_addr :: addr
  ht_bucketsp :: addr
  ht_buckets :: "'v hdql_ht_entry list list"
  ht_size :: size_t
  ht_capacity :: size_t
  ht_mask :: size_t
  ht_allocator :: "'u hdql_Allocator"
  ht_hashSeed :: size_t

definition sizeof_hdql_ht :: size_t where "sizeof_hdql_ht = 64"
definition sizeof_hdql_ht_entry :: size_t where "sizeof_hdql_ht_entry = 32"
definition sizeof_ptr :: size_t where "sizeof_ptr = 8"

definition hdql_ht_create ::
  "'u hdql_Allocator \<Rightarrow> size_t \<Rightarrow> size_t \<Rightarrow> 'u \<Rightarrow> (('v, 'u) hdql_ht option \<times> 'u) option" where
  "hdql_ht_create a dftCap hashSeed u = do {
     (htp, u) \<leftarrow> al_alloc a sizeof_hdql_ht u;
     case htp of None \<Rightarrow> Some (None, u)
     | Some ht \<Rightarrow> do {
         n \<leftarrow> shl1u dftCap;
         (bp, u) \<leftarrow> al_alloc a (ucast n * sizeof_ptr) u;
         case bp of None \<Rightarrow> do { u \<leftarrow> al_free a (Some ht) u; Some (None, u) }
         | Some b \<Rightarrow>
             Some (Some \<lparr>ht_addr = ht, ht_bucketsp = b, ht_buckets = replicate (unat n) [],
                         ht_size = 0, ht_capacity = dftCap, ht_mask = ucast (n - 1),
                         ht_allocator = a, ht_hashSeed = hashSeed\<rparr>, u) } }"

text \<open>The hash of a key in a table, \<open>murmur3_32(key, keyLen, ht->hashSeed)\<close>.\<close>

definition ht_murmur :: "('v, 'u) hdql_ht \<Rightarrow> bytes \<Rightarrow> u32 option" where
  "ht_murmur ht key = murmur3_32 key (ucast (ht_hashSeed ht))"

fun ht_scan :: "bytes \<Rightarrow> 'v hdql_ht_entry list \<Rightarrow> 'v hdql_ht_entry option" where
  "ht_scan key [] = None"
| "ht_scan key (e # es) =
     (if length (he_key e) \<noteq> length key \<or> he_key e \<noteq> key then ht_scan key es else Some e)"

text \<open>The found entry or null, and the number of the bucket.\<close>

definition hdql_ht_lookup ::
  "('v, 'u) hdql_ht \<Rightarrow> bytes \<Rightarrow> ('v hdql_ht_entry option \<times> size_t) option" where
  "hdql_ht_lookup ht key = do {
     hash \<leftarrow> ht_murmur ht key;
     let nbl = ucast hash AND ht_mask ht;
     es \<leftarrow> arr_get (ht_buckets ht) (unat nbl);
     Some (ht_scan key es, nbl) }"

definition hdql_ht_get :: "('v, 'u) hdql_ht \<Rightarrow> bytes \<Rightarrow> 'v option option" where
  "hdql_ht_get ht key = do {
     (e, _) \<leftarrow> hdql_ht_lookup ht key;
     Some (case e of None \<Rightarrow> None | Some e \<Rightarrow> he_value e) }"

text \<open>\<open>hdql_ht_rebuild\<close>: the inner loop moves one bucket's entries to the front of their new buckets.\<close>

fun ht_rehash_bucket ::
  "('v, 'u) hdql_ht \<Rightarrow> size_t \<Rightarrow> 'v hdql_ht_entry list \<Rightarrow> 'v hdql_ht_entry list list \<Rightarrow>
   'v hdql_ht_entry list list option" where
  "ht_rehash_bucket ht m [] new = Some new"
| "ht_rehash_bucket ht m (e # es) new = do {
     hash \<leftarrow> ht_murmur ht (he_key e);
     let newNB = unat (ucast hash AND m);
     old \<leftarrow> arr_get new newNB;
     new \<leftarrow> arr_set new newNB (e # old);
     ht_rehash_bucket ht m es new }"

text \<open>The outer loop, over the first \<open>cap\<close> elements of the array of buckets.\<close>

fun ht_rehash_buckets ::
  "('v, 'u) hdql_ht \<Rightarrow> size_t \<Rightarrow> nat \<Rightarrow> 'v hdql_ht_entry list list \<Rightarrow> 'v hdql_ht_entry list list \<Rightarrow>
   'v hdql_ht_entry list list option" where
  "ht_rehash_buckets ht m 0 bs new = Some new"
| "ht_rehash_buckets ht m (Suc n) [] new = None"
| "ht_rehash_buckets ht m (Suc n) (b # bs) new = do {
     new \<leftarrow> ht_rehash_bucket ht m b new;
     ht_rehash_buckets ht m n bs new }"

definition hdql_ht_rebuild :: "('v, 'u) hdql_ht \<Rightarrow> 'u \<Rightarrow> (int \<times> ('v, 'u) hdql_ht \<times> 'u) option" where
  "hdql_ht_rebuild ht u = do {
     let newCap = (if ht_capacity ht \<noteq> 0 then ht_capacity ht + 1 else 5);
     n \<leftarrow> shl1u newCap;
     (nb, u) \<leftarrow> al_alloc (ht_allocator ht) (ucast n * sizeof_ptr) u;
     case nb of None \<Rightarrow> Some (HDQL_HT_ERR_MEM, ht, u)
     | Some nb \<Rightarrow> do {
         cap \<leftarrow> shl1u (ht_capacity ht);
         new \<leftarrow> ht_rehash_buckets ht (ucast (n - 1)) (unat cap) (ht_buckets ht) (replicate (unat n) []);
         u \<leftarrow> al_free (ht_allocator ht) (Some (ht_bucketsp ht)) u;
         Some (HDQL_HT_RC_OK,
               ht\<lparr>ht_bucketsp := nb, ht_buckets := new, ht_capacity := newCap,
                  ht_mask := ucast (n - 1)\<rparr>, u) } }"

text \<open>The value of an entry found by its address is overwritten.\<close>

definition ht_set_value :: "addr \<Rightarrow> 'v option \<Rightarrow> 'v hdql_ht_entry list \<Rightarrow> 'v hdql_ht_entry list" where
  "ht_set_value a v es = map (\<lambda>e. if he_addr e = a then e\<lparr>he_value := v\<rparr> else e) es"

text \<open>The part of \<open>hdql_ht_ins\<close> after the table may have been extended.\<close>

definition ht_ins_entry ::
  "('v, 'u) hdql_ht \<Rightarrow> bytes \<Rightarrow> 'v option \<Rightarrow> 'u \<Rightarrow> (int \<times> ('v, 'u) hdql_ht \<times> 'u) option" where
  "ht_ins_entry ht key v u = do {
     (found, nb) \<leftarrow> hdql_ht_lookup ht key;
     es \<leftarrow> arr_get (ht_buckets ht) (unat nb);
     case found of
       Some e \<Rightarrow> do {
         c_assert (length (he_key e) = length key);
         c_assert (key = he_key e);
         bs \<leftarrow> arr_set (ht_buckets ht) (unat nb) (ht_set_value (he_addr e) v es);
         Some (HDQL_HT_RC_UPDATED, ht\<lparr>ht_buckets := bs\<rparr>, u) }
     | None \<Rightarrow> do {
         (kp, u) \<leftarrow> al_alloc (ht_allocator ht) (of_nat (length key)) u;
         case kp of None \<Rightarrow> Some (HDQL_HT_ERR_MEM, ht, u)
         | Some keyCopy \<Rightarrow> do {
             (ep, u) \<leftarrow> al_alloc (ht_allocator ht) sizeof_hdql_ht_entry u;
             case ep of None \<Rightarrow> do { u \<leftarrow> al_free (ht_allocator ht) (Some keyCopy) u; Some (- 3, ht, u) }
             | Some entry \<Rightarrow> do {
                 bs \<leftarrow> arr_set (ht_buckets ht) (unat nb)
                   (\<lparr>he_addr = entry, he_keyp = keyCopy, he_key = key, he_value = v\<rparr> # es);
                 Some (HDQL_HT_RC_INSERTED, ht\<lparr>ht_buckets := bs, ht_size := ht_size ht + 1\<rparr>, u) } } } }"

definition hdql_ht_ins ::
  "('v, 'u) hdql_ht \<Rightarrow> bytes \<Rightarrow> 'v option \<Rightarrow> 'u \<Rightarrow> (int \<times> ('v, 'u) hdql_ht \<times> 'u) option" where
  "hdql_ht_ins ht key v u = do {
     half \<leftarrow> shl1u (ht_capacity ht - 1);
     if ht_size ht > ucast half
     then do {
       (rc, ht, u) \<leftarrow> hdql_ht_rebuild ht u;
       if HDQL_HT_ERROR AND rc \<noteq> 0 then Some (rc, ht, u) else ht_ins_entry ht key v u }
     else ht_ins_entry ht key v u }"

text \<open>\<open>hdql_ht_erase\<close>: the walk of a bucket with the address of the link to the current entry.\<close>

fun ht_unlink ::
  "addr \<Rightarrow> 'v hdql_ht_entry list \<Rightarrow> ('v hdql_ht_entry \<times> 'v hdql_ht_entry list) option" where
  "ht_unlink a [] = None"
| "ht_unlink a (e # es) =
     (if he_addr e = a then Some (e, es)
      else case ht_unlink a es of None \<Rightarrow> None | Some (r, es') \<Rightarrow> Some (r, e # es'))"

definition hdql_ht_erase ::
  "('v, 'u) hdql_ht \<Rightarrow> addr option \<Rightarrow> size_t \<Rightarrow> 'u \<Rightarrow> (int \<times> ('v, 'u) hdql_ht \<times> 'u) option" where
  "hdql_ht_erase ht entry nb u = do {
     a \<leftarrow> entry;
     cap \<leftarrow> shl1u (ht_capacity ht);
     c_assert (nb < ucast cap);
     es \<leftarrow> arr_get (ht_buckets ht) (unat nb);
     case ht_unlink a es of
       None \<Rightarrow> Some (HDQL_HT_RC_ERR_NOENT, ht, u)
     | Some (e, es') \<Rightarrow> do {
         bs \<leftarrow> arr_set (ht_buckets ht) (unat nb) es';
         u \<leftarrow> al_free (ht_allocator ht) (Some (he_keyp e)) u;
         u \<leftarrow> al_free (ht_allocator ht) (Some (he_addr e)) u;
         Some (HDQL_HT_RC_OK, ht\<lparr>ht_buckets := bs\<rparr>, u) } }"

definition hdql_ht_remove ::
  "('v, 'u) hdql_ht \<Rightarrow> bytes \<Rightarrow> 'u \<Rightarrow> (int \<times> ('v, 'u) hdql_ht \<times> 'u) option" where
  "hdql_ht_remove ht key u = do {
     (entry, nb) \<leftarrow> hdql_ht_lookup ht key;
     case entry of None \<Rightarrow> Some (HDQL_HT_RC_ERR_NOENT, ht, u)
     | Some e \<Rightarrow> hdql_ht_erase ht (Some (he_addr e)) nb u }"

text \<open>
  \<open>hdql_ht_iter\<close>: the callback sees the key and the place of the value, which it may
  overwrite, and stops the walk with a non-zero code. Its \<open>userdata\<close> is \<open>'s\<close>.
\<close>

type_synonym ('v, 's) ht_callback = "bytes \<Rightarrow> 'v option \<Rightarrow> 's \<Rightarrow> (int \<times> 'v option \<times> 's) option"

fun ht_iter_bucket ::
  "('v, 's) ht_callback \<Rightarrow> 'v hdql_ht_entry list \<Rightarrow> 's \<Rightarrow> (int \<times> 'v hdql_ht_entry list \<times> 's) option" where
  "ht_iter_bucket cb [] s = Some (0, [], s)"
| "ht_iter_bucket cb (e # es) s = do {
     (rc, v, s) \<leftarrow> cb (he_key e) (he_value e) s;
     if rc \<noteq> 0 then Some (rc, e\<lparr>he_value := v\<rparr> # es, s)
     else do {
       (rc, es, s) \<leftarrow> ht_iter_bucket cb es s;
       Some (rc, e\<lparr>he_value := v\<rparr> # es, s) } }"

fun ht_iter_buckets ::
  "('v, 's) ht_callback \<Rightarrow> nat \<Rightarrow> 'v hdql_ht_entry list list \<Rightarrow> 's \<Rightarrow>
   (int \<times> 'v hdql_ht_entry list list \<times> 's) option" where
  "ht_iter_buckets cb 0 bs s = Some (0, bs, s)"
| "ht_iter_buckets cb (Suc n) [] s = None"
| "ht_iter_buckets cb (Suc n) (b # bs) s = do {
     (rc, b, s) \<leftarrow> ht_iter_bucket cb b s;
     if rc \<noteq> 0 then Some (rc, b # bs, s)
     else do {
       (rc, bs, s) \<leftarrow> ht_iter_buckets cb n bs s;
       Some (rc, b # bs, s) } }"

definition hdql_ht_iter ::
  "('v, 'u) hdql_ht \<Rightarrow> ('v, 's) ht_callback \<Rightarrow> 's \<Rightarrow> (int \<times> ('v, 'u) hdql_ht \<times> 's) option" where
  "hdql_ht_iter ht cb s = do {
     cap \<leftarrow> shl1u (ht_capacity ht);
     (rc, bs, s) \<leftarrow> ht_iter_buckets cb (unat cap) (ht_buckets ht) s;
     Some (rc, ht\<lparr>ht_buckets := bs\<rparr>, s) }"

fun ht_free_bucket :: "'u hdql_Allocator \<Rightarrow> 'v hdql_ht_entry list \<Rightarrow> 'u \<Rightarrow> 'u option" where
  "ht_free_bucket a [] u = Some u"
| "ht_free_bucket a (e # es) u = do {
     u \<leftarrow> al_free a (Some (he_keyp e)) u;
     u \<leftarrow> al_free a (Some (he_addr e)) u;
     ht_free_bucket a es u }"

fun ht_free_buckets :: "'u hdql_Allocator \<Rightarrow> nat \<Rightarrow> 'v hdql_ht_entry list list \<Rightarrow> 'u \<Rightarrow> 'u option" where
  "ht_free_buckets a 0 bs u = Some u"
| "ht_free_buckets a (Suc n) [] u = None"
| "ht_free_buckets a (Suc n) (b # bs) u = do { u \<leftarrow> ht_free_bucket a b u; ht_free_buckets a n bs u }"

definition hdql_ht_destroy :: "('v, 'u) hdql_ht \<Rightarrow> 'u \<Rightarrow> 'u option" where
  "hdql_ht_destroy ht u = do {
     cap \<leftarrow> shl1u (ht_capacity ht);
     u \<leftarrow> ht_free_buckets (ht_allocator ht) (unat cap) (ht_buckets ht) u;
     u \<leftarrow> al_free (ht_allocator ht) (Some (ht_bucketsp ht)) u;
     al_free (ht_allocator ht) (Some (ht_addr ht)) u }"

text \<open>The wrappers for zero-terminated strings: \<open>strlen\<close> stops at the first zero byte.\<close>

definition c_str :: "bytes \<Rightarrow> bytes" where
  "c_str s = takeWhile (\<lambda>b. b \<noteq> 0) s"

definition hdql_ht_s_ins ::
  "('v, 'u) hdql_ht \<Rightarrow> bytes \<Rightarrow> 'v option \<Rightarrow> 'u \<Rightarrow> (int \<times> ('v, 'u) hdql_ht \<times> 'u) option" where
  "hdql_ht_s_ins ht key v u = hdql_ht_ins ht (c_str key) v u"

definition hdql_ht_s_get :: "('v, 'u) hdql_ht \<Rightarrow> bytes \<Rightarrow> 'v option option" where
  "hdql_ht_s_get ht key = hdql_ht_get ht (c_str key)"

definition hdql_ht_s_rm :: "('v, 'u) hdql_ht \<Rightarrow> bytes \<Rightarrow> 'u \<Rightarrow> (int \<times> ('v, 'u) hdql_ht \<times> 'u) option" where
  "hdql_ht_s_rm ht key u = hdql_ht_remove ht (c_str key) u"

section \<open>Well-formed tables and the map they hold\<close>

definition ht_hash :: "('v, 'u) hdql_ht \<Rightarrow> bytes \<Rightarrow> u32" where
  "ht_hash ht key = the (ht_murmur ht key)"

lemma ht_murmur_short: "length key < 2 ^ 31 \<Longrightarrow> ht_murmur ht key = Some (ht_hash ht key)"
  using murmur3_32_defined [of key "ucast (ht_hashSeed ht)"] by (auto simp: ht_hash_def ht_murmur_def)

definition ht_slot :: "('v, 'u) hdql_ht \<Rightarrow> bytes \<Rightarrow> nat" where
  "ht_slot ht key = unat (ucast (ht_hash ht key) AND ht_mask ht)"

definition ht_entries :: "('v, 'u) hdql_ht \<Rightarrow> 'v hdql_ht_entry list" where
  "ht_entries ht = concat (ht_buckets ht)"

definition ht_map :: "('v, 'u) hdql_ht \<Rightarrow> bytes \<Rightarrow> 'v option option" where
  "ht_map ht = map_of (map (\<lambda>e. (he_key e, he_value e)) (ht_entries ht))"

text \<open>The blocks of memory a table owns.\<close>

definition entries_blocks :: "'v hdql_ht_entry list \<Rightarrow> addr list" where
  "entries_blocks es = concat (map (\<lambda>e. [he_keyp e, he_addr e]) es)"

definition ht_blocks :: "('v, 'u) hdql_ht \<Rightarrow> addr list" where
  "ht_blocks ht = entries_blocks (ht_entries ht) @ [ht_bucketsp ht, ht_addr ht]"

definition ht_wf :: "('v, 'u) hdql_ht \<Rightarrow> bool" where
  "ht_wf ht \<longleftrightarrow>
     unat (ht_capacity ht) < 32 \<and>
     length (ht_buckets ht) = 2 ^ unat (ht_capacity ht) \<and>
     ht_mask ht = mask (unat (ht_capacity ht)) \<and>
     (\<forall>i < length (ht_buckets ht). \<forall>e \<in> set (ht_buckets ht ! i).
        ht_slot ht (he_key e) = i \<and> length (he_key e) < 2 ^ 31) \<and>
     distinct (map he_key (ht_entries ht)) \<and>
     distinct (ht_blocks ht)"

lemma entries_blocks_simps [simp]:
  "entries_blocks [] = []"
  "entries_blocks (e # es) = he_keyp e # he_addr e # entries_blocks es"
  "entries_blocks (es @ es') = entries_blocks es @ entries_blocks es'"
  by (simp_all add: entries_blocks_def)

lemma mset_entries_blocks_sum:
  "mset (entries_blocks es) = (\<Sum>e \<in># mset es. {#he_keyp e, he_addr e#})"
  by (induction es) auto

lemma mset_entries_blocks:
  "mset es = mset es' \<Longrightarrow> mset (entries_blocks es) = mset (entries_blocks es')"
  by (simp only: mset_entries_blocks_sum)

lemma set_entries_blocks: "set (entries_blocks es) = he_keyp ` set es \<union> he_addr ` set es"
  by (induction es) auto

lemma ht_mask_slot:
  "ht_mask ht = mask n \<Longrightarrow> ht_slot ht key = unat (ht_hash ht key) mod 2 ^ n"
  by (simp add: ht_slot_def unat_and_mask)

lemma ht_slot_less: "ht_wf ht \<Longrightarrow> ht_slot ht key < length (ht_buckets ht)"
  by (simp add: ht_wf_def ht_mask_slot)

lemma ht_entry_bucket:
  assumes "ht_wf ht" "e \<in> set (ht_entries ht)"
  shows "e \<in> set (ht_buckets ht ! ht_slot ht (he_key e))"
proof -
  from assms(2) obtain b where "b \<in> set (ht_buckets ht)" and e: "e \<in> set b"
    by (auto simp: ht_entries_def)
  then obtain i where "i < length (ht_buckets ht)" "b = ht_buckets ht ! i"
    by (auto simp: in_set_conv_nth)
  with e assms(1) show ?thesis by (simp add: ht_wf_def)
qed

lemma ht_entry_short:
  assumes "ht_wf ht" "e \<in> set (ht_entries ht)"
  shows "length (he_key e) < 2 ^ 31"
proof -
  have "ht_slot ht (he_key e) < length (ht_buckets ht)" using assms(1) by (rule ht_slot_less)
  then show ?thesis
    using ht_entry_bucket [OF assms] assms(1) unfolding ht_wf_def by blast
qed

lemma ht_scan_find: "ht_scan key es = find (\<lambda>e. he_key e = key) es"
  by (induction es) auto

lemma ht_scan_Some: "ht_scan key es = Some e \<Longrightarrow> e \<in> set es \<and> he_key e = key"
  by (induction es) (auto split: if_splits)

lemma ht_scan_None: "ht_scan key es = None \<longleftrightarrow> key \<notin> he_key ` set es"
  by (induction es) auto

lemma hdql_ht_lookup_wf:
  "ht_wf ht \<Longrightarrow> length key < 2 ^ 31 \<Longrightarrow> hdql_ht_lookup ht key =
     Some (ht_scan key (ht_buckets ht ! ht_slot ht key), ucast (ht_hash ht key) AND ht_mask ht)"
  using ht_slot_less [of ht key] by (simp add: hdql_ht_lookup_def ht_slot_def ht_murmur_short Let_def)

lemma ht_map_Some:
  "ht_wf ht \<Longrightarrow> ht_map ht key = Some v \<longleftrightarrow> (\<exists>e \<in> set (ht_entries ht). he_key e = key \<and> he_value e = v)"
  unfolding ht_map_def ht_wf_def
  by (subst map_of_eq_Some_iff) (auto simp: o_def)

lemma dom_ht_map: "dom (ht_map ht) = he_key ` set (ht_entries ht)"
  by (simp add: ht_map_def dom_map_of_conv_image_fst image_image)

lemma ht_scan_slot_None:
  "ht_wf ht \<Longrightarrow> ht_scan key (ht_buckets ht ! ht_slot ht key) = None \<longleftrightarrow> key \<notin> dom (ht_map ht)"
  using ht_slot_less [of ht key]
  by (auto simp: ht_scan_None dom_ht_map dest: ht_entry_bucket)
    (auto simp: ht_entries_def dest: nth_mem)

lemma ht_scan_slot_Some:
  assumes "ht_wf ht" "ht_scan key (ht_buckets ht ! ht_slot ht key) = Some e"
  shows "e \<in> set (ht_entries ht)" "e \<in> set (ht_buckets ht ! ht_slot ht key)" "he_key e = key"
    "ht_map ht key = Some (he_value e)"
proof -
  show b: "e \<in> set (ht_buckets ht ! ht_slot ht key)" and k: "he_key e = key"
    using ht_scan_Some [OF assms(2)] by auto
  show e: "e \<in> set (ht_entries ht)"
    using ht_slot_less [OF assms(1), of key] b by (auto simp: ht_entries_def)
  show "ht_map ht key = Some (he_value e)" using ht_map_Some [OF assms(1)] e k by blast
qed

lemma ht_map_perm:
  assumes "mset (ht_entries a) = mset (ht_entries b)" "distinct (map he_key (ht_entries a))"
  shows "distinct (map he_key (ht_entries b))" "ht_map a = ht_map b"
proof -
  show d: "distinct (map he_key (ht_entries b))"
    using assms by (metis mset_eq_imp_distinct_iff mset_map)
  have "set (ht_entries a) = set (ht_entries b)" using assms(1) by (rule mset_eq_setD)
  then show "ht_map a = ht_map b"
    unfolding ht_map_def using assms(2) d
    by (intro iffD2 [OF map_of_inject_set]) (auto simp: o_def)
qed

text \<open>
  The lookup of a well-formed table returns the value the map has for the key, and null for
  a key it does not have.
\<close>

theorem ht_get_spec:
  "ht_wf ht \<Longrightarrow> length key < 2 ^ 31 \<Longrightarrow>
   hdql_ht_get ht key = Some (case ht_map ht key of None \<Rightarrow> None | Some v \<Rightarrow> v)"
  by (cases "ht_scan key (ht_buckets ht ! ht_slot ht key)")
    (auto simp: hdql_ht_get_def hdql_ht_lookup_wf ht_scan_slot_None domIff
      dest: ht_scan_slot_Some(4) split: option.splits)

lemma ht_get_spec_witness:
  "hdql_ht_get \<lparr>ht_addr = 0, ht_bucketsp = 1, ht_buckets =
       [[\<lparr>he_addr = 2, he_keyp = 3, he_key = [97], he_value = Some (7::nat)\<rparr>]],
     ht_size = 1, ht_capacity = 0, ht_mask = 0, ht_allocator = hdql_gHeapAllocator, ht_hashSeed = 0\<rparr>
     [97] = Some (Some 7)"
  using ht_get_spec [of "\<lparr>ht_addr = 0, ht_bucketsp = 1, ht_buckets =
       [[\<lparr>he_addr = 2, he_keyp = 3, he_key = [97], he_value = Some (7::nat)\<rparr>]],
     ht_size = 1, ht_capacity = 0, ht_mask = 0, ht_allocator = hdql_gHeapAllocator, ht_hashSeed = 0\<rparr>"
     "[97]"]
  by (simp add: ht_wf_def ht_entries_def ht_blocks_def ht_slot_def ht_map_def)

lemma ht_slot_update [simp]:
  "ht_slot (ht\<lparr>ht_buckets := bs\<rparr>) key = ht_slot ht key"
  "ht_slot (ht\<lparr>ht_size := n\<rparr>) key = ht_slot ht key"
  "ht_slot (ht\<lparr>ht_bucketsp := p\<rparr>) key = ht_slot ht key"
  by (simp_all add: ht_slot_def ht_hash_def ht_murmur_def)

text \<open>Replacing one bucket: the entries before and after it stay.\<close>

lemma ht_bucket_split:
  assumes "i < length (ht_buckets ht)"
  obtains A B where "ht_entries ht = A @ ht_buckets ht ! i @ B"
    "\<And>es. ht_entries (ht\<lparr>ht_buckets := (ht_buckets ht)[i := es]\<rparr>) = A @ es @ B"
proof
  show "ht_entries ht = concat (take i (ht_buckets ht)) @ ht_buckets ht ! i @
      concat (drop (Suc i) (ht_buckets ht))"
    using concat_update_split(1) [OF assms] by (simp add: ht_entries_def)
  show "ht_entries (ht\<lparr>ht_buckets := (ht_buckets ht)[i := es]\<rparr>) = concat (take i (ht_buckets ht)) @
      es @ concat (drop (Suc i) (ht_buckets ht))" for es
    using concat_update_split(2) [OF assms] by (simp add: ht_entries_def)
qed

lemma ht_wf_bucket:
  assumes "ht_wf ht" "ht' = ht\<lparr>ht_buckets := (ht_buckets ht)[i := es]\<rparr>" "i < length (ht_buckets ht)"
    "\<And>e. e \<in> set es \<Longrightarrow> ht_slot ht (he_key e) = i \<and> length (he_key e) < 2 ^ 31"
    "distinct (map he_key (ht_entries ht'))" "distinct (ht_blocks ht')"
  shows "ht_wf ht'"
  using assms unfolding ht_wf_def by (auto simp: nth_list_update)

lemma ht_wf_size [simp]: "ht_wf (ht\<lparr>ht_size := n\<rparr>) = ht_wf ht"
  by (simp add: ht_wf_def ht_entries_def ht_blocks_def)

lemma ht_map_size [simp]: "ht_map (ht\<lparr>ht_size := n\<rparr>) = ht_map ht"
  by (simp add: ht_map_def ht_entries_def)

lemma ht_blocks_size [simp]: "ht_blocks (ht\<lparr>ht_size := n\<rparr>) = ht_blocks ht"
  by (simp add: ht_blocks_def ht_entries_def)

lemma ht_set_value_keep [simp]:
  "map he_key (ht_set_value a v es) = map he_key es"
  "entries_blocks (ht_set_value a v es) = entries_blocks es"
  by (induction es) (auto simp: ht_set_value_def)

lemma ht_set_value_other: "a \<notin> he_addr ` set es \<Longrightarrow> ht_set_value a v es = es"
  by (induction es) (auto simp: ht_set_value_def)

text \<open>The two updates a successful insertion makes of the bucket.\<close>

lemma ht_update_value:
  assumes wf: "ht_wf ht" and scan: "ht_scan key (ht_buckets ht ! ht_slot ht key) = Some e"
    and ht': "ht' = ht\<lparr>ht_buckets := (ht_buckets ht)[ht_slot ht key :=
                 ht_set_value (he_addr e) v (ht_buckets ht ! ht_slot ht key)]\<rparr>"
  shows "ht_wf ht'" "ht_map ht' = (ht_map ht)(key \<mapsto> v)" "ht_blocks ht' = ht_blocks ht"
proof -
  let ?i = "ht_slot ht key"
  note e = ht_scan_slot_Some [OF wf scan]
  obtain A B where AB: "ht_entries ht = A @ ht_buckets ht ! ?i @ B"
    "\<And>es. ht_entries (ht\<lparr>ht_buckets := (ht_buckets ht)[?i := es]\<rparr>) = A @ es @ B"
    using ht_bucket_split [OF ht_slot_less [OF wf]] by blast
  have entries': "ht_entries ht' = A @ ht_set_value (he_addr e) v (ht_buckets ht ! ?i) @ B"
    by (simp add: ht' AB)
  have keys: "map he_key (ht_entries ht') = map he_key (ht_entries ht)"
    by (simp add: entries' AB(1))
  show blocks: "ht_blocks ht' = ht_blocks ht"
    using entries' AB(1) by (simp add: ht_blocks_def) (simp add: ht')
  show wf': "ht_wf ht'"
  proof (rule ht_wf_bucket [OF wf ht' ht_slot_less [OF wf]])
    fix x
    assume "x \<in> set (ht_set_value (he_addr e) v (ht_buckets ht ! ?i))"
    then have "he_key x \<in> he_key ` set (ht_buckets ht ! ?i)"
      by (auto simp: ht_set_value_def split: if_splits)
    then show "ht_slot ht (he_key x) = ?i \<and> length (he_key x) < 2 ^ 31"
      using wf ht_slot_less [OF wf, of key] by (auto simp: ht_wf_def)
  qed (use wf keys blocks in \<open>simp_all add: ht_wf_def\<close>)
  have inj: "inj_on he_key (set (ht_entries ht))" "inj_on he_addr (set (ht_entries ht))"
  proof -
    show "inj_on he_key (set (ht_entries ht))" using wf by (simp add: ht_wf_def distinct_map)
    have "distinct (entries_blocks es) \<Longrightarrow> inj_on he_addr (set es)" for es :: "'a hdql_ht_entry list"
      by (induction es) (auto simp: set_entries_blocks)
    then show "inj_on he_addr (set (ht_entries ht))"
      using wf by (simp add: ht_wf_def ht_blocks_def)
  qed
  have set': "set (ht_entries ht') = (\<lambda>x. if x = e then e\<lparr>he_value := v\<rparr> else x) ` set (ht_entries ht)"
  proof -
    have "ht_set_value (he_addr e) v A = A" "ht_set_value (he_addr e) v B = B"
    proof -
      have "distinct (entries_blocks (ht_entries ht))" using wf by (simp add: ht_wf_def ht_blocks_def)
      then have "he_addr e \<notin> he_addr ` set A" "he_addr e \<notin> he_addr ` set B"
        using e(2) by (auto simp: AB(1) set_entries_blocks)
      then show "ht_set_value (he_addr e) v A = A" "ht_set_value (he_addr e) v B = B"
        by (simp_all add: ht_set_value_other)
    qed
    then have "ht_entries ht' = ht_set_value (he_addr e) v (ht_entries ht)"
      by (simp add: entries' AB(1)) (simp add: ht_set_value_def)
    moreover have "\<And>x. x \<in> set (ht_entries ht) \<Longrightarrow> he_addr x = he_addr e \<longleftrightarrow> x = e"
      using inj(2) e(1) by (auto dest: inj_onD)
    ultimately show ?thesis
      by (simp only: ht_set_value_def set_map) (rule image_cong, auto)
  qed
  show "ht_map ht' = (ht_map ht)(key \<mapsto> v)"
  proof
    fix k
    have "ht_map ht' k = Some w \<longleftrightarrow> ((ht_map ht)(key \<mapsto> v)) k = Some w" for w
    proof (cases "k = key")
      case True
      have "ht_map ht' key = Some w \<longleftrightarrow> (\<exists>x \<in> set (ht_entries ht'). he_key x = key \<and> he_value x = w)"
        by (rule ht_map_Some [OF wf'])
      also have "\<dots> \<longleftrightarrow> v = w"
        using e(1,3) inj(1) by (auto simp: set' inj_on_def)
      finally show ?thesis using True by simp
    next
      case False
      then show ?thesis
        using e(3) by (auto simp: ht_map_Some [OF wf'] ht_map_Some [OF wf] set' split: if_splits)
    qed
    then show "ht_map ht' k = ((ht_map ht)(key \<mapsto> v)) k"
      by (metis not_Some_eq)
  qed
qed

lemma ht_add_entry:
  assumes wf: "ht_wf ht" and new: "key \<notin> dom (ht_map ht)" and short: "length key < 2 ^ 31"
    and fresh: "kp \<notin> set (ht_blocks ht)" "ep \<notin> set (ht_blocks ht)" "kp \<noteq> ep"
    and ht': "ht' = ht\<lparr>ht_buckets := (ht_buckets ht)[ht_slot ht key :=
        \<lparr>he_addr = ep, he_keyp = kp, he_key = key, he_value = v\<rparr> # ht_buckets ht ! ht_slot ht key]\<rparr>"
  shows "ht_wf ht'" "ht_map ht' = (ht_map ht)(key \<mapsto> v)"
    "set (ht_blocks ht') = insert ep (insert kp (set (ht_blocks ht)))"
proof -
  let ?i = "ht_slot ht key" and ?e = "\<lparr>he_addr = ep, he_keyp = kp, he_key = key, he_value = v\<rparr>"
  obtain A B where AB: "ht_entries ht = A @ ht_buckets ht ! ?i @ B"
    "\<And>es. ht_entries (ht\<lparr>ht_buckets := (ht_buckets ht)[?i := es]\<rparr>) = A @ es @ B"
    using ht_bucket_split [OF ht_slot_less [OF wf]] by blast
  have entries': "ht_entries ht' = A @ ?e # ht_buckets ht ! ?i @ B" by (simp add: ht' AB)
  have ptr: "ht_bucketsp ht' = ht_bucketsp ht" "ht_addr ht' = ht_addr ht" by (simp_all add: ht')
  have old: "distinct (map he_key (ht_entries ht))" "distinct (ht_blocks ht)"
    using wf by (simp_all add: ht_wf_def)
  have keys: "key \<notin> he_key ` set (A @ ht_buckets ht ! ?i @ B)" using new by (simp add: dom_ht_map AB(1))
  have dist: "distinct (map he_key (ht_entries ht'))"
    using old(1) keys unfolding entries' AB(1) by auto
  show blocks: "set (ht_blocks ht') = insert ep (insert kp (set (ht_blocks ht)))"
    by (auto simp: ht_blocks_def entries' AB(1) ptr)
  have "mset (ht_blocks ht') = add_mset ep (add_mset kp (mset (ht_blocks ht)))"
    by (simp add: ht_blocks_def entries' AB(1) ptr)
  then have "mset (ht_blocks ht') = mset (ep # kp # ht_blocks ht)" by simp
  then have dist_blocks: "distinct (ht_blocks ht')"
    using fresh old(2) by (metis mset_eq_imp_distinct_iff distinct.simps(2) set_ConsD)
  show "ht_wf ht'"
  proof (rule ht_wf_bucket [OF wf ht' ht_slot_less [OF wf] _ dist dist_blocks])
    fix x
    assume "x \<in> set (?e # ht_buckets ht ! ?i)"
    then show "ht_slot ht (he_key x) = ?i \<and> length (he_key x) < 2 ^ 31"
      using wf short ht_slot_less [OF wf, of key] by (auto simp: ht_wf_def)
  qed
  show "ht_map ht' = (ht_map ht)(key \<mapsto> v)"
  proof -
    have "map_of (map (\<lambda>e. (he_key e, he_value e)) A) key = None"
      using keys by (auto simp: map_of_eq_None_iff)
    then show ?thesis
      unfolding ht_map_def entries' AB(1) by (auto simp: map_add_def fun_eq_iff split: option.splits)
  qed
qed

text \<open>Unlinking the entry the lookup found.\<close>

lemma ht_unlink_Some:
  "ht_unlink a es = Some (e, es') \<Longrightarrow> he_addr e = a \<and> (\<exists>xs ys. es = xs @ e # ys \<and> es' = xs @ ys)"
proof (induction es arbitrary: es')
  case (Cons x es)
  show ?case
  proof (cases "he_addr x = a")
    case True
    then have "es = es' \<and> x = e" using Cons.prems by simp
    then have "x # es = [] @ e # es" "es' = [] @ es" by simp_all
    then show ?thesis using True \<open>es = es' \<and> x = e\<close> by blast
  next
    case False
    then obtain es'' where u: "ht_unlink a es = Some (e, es'')" "es' = x # es''"
      using Cons.prems by (auto split: option.splits)
    with Cons.IH obtain xs ys where "he_addr e = a" "es = xs @ e # ys" "es'' = xs @ ys" by blast
    then have "x # es = (x # xs) @ e # ys" "es' = (x # xs) @ ys" using u by simp_all
    then show ?thesis using \<open>he_addr e = a\<close> by blast
  qed
qed simp

lemma ht_unlink_None: "ht_unlink a es = None \<longleftrightarrow> a \<notin> he_addr ` set es"
  by (induction es) (auto split: option.splits)

lemma ht_drop_entry:
  assumes wf: "ht_wf ht" and bucket: "ht_buckets ht ! ht_slot ht key = xs @ e # ys"
    and e: "he_key e = key"
    and ht': "ht' = ht\<lparr>ht_buckets := (ht_buckets ht)[ht_slot ht key := xs @ ys]\<rparr>"
  shows "ht_wf ht'" "ht_map ht' = (ht_map ht)(key := None)"
    "set (ht_blocks ht') = set (ht_blocks ht) - {he_keyp e, he_addr e}"
    "he_keyp e \<noteq> he_addr e" "he_keyp e \<in> set (ht_blocks ht)" "he_addr e \<in> set (ht_blocks ht)"
proof -
  let ?i = "ht_slot ht key"
  obtain A B where AB: "ht_entries ht = A @ ht_buckets ht ! ?i @ B"
    "\<And>es. ht_entries (ht\<lparr>ht_buckets := (ht_buckets ht)[?i := es]\<rparr>) = A @ es @ B"
    using ht_bucket_split [OF ht_slot_less [OF wf]] by blast
  have entries: "ht_entries ht = A @ (xs @ e # ys) @ B" by (simp add: AB(1) bucket)
  have entries': "ht_entries ht' = A @ (xs @ ys) @ B" by (simp add: ht' AB)
  have ptr: "ht_bucketsp ht' = ht_bucketsp ht" "ht_addr ht' = ht_addr ht" by (simp_all add: ht')
  have old: "distinct (map he_key (ht_entries ht))" "distinct (ht_blocks ht)"
    using wf by (simp_all add: ht_wf_def)
  have "mset (ht_blocks ht) = add_mset (he_keyp e) (add_mset (he_addr e) (mset (ht_blocks ht')))"
    by (simp add: ht_blocks_def entries entries' ptr)
  then have perm: "mset (ht_blocks ht) = mset (he_keyp e # he_addr e # ht_blocks ht')" by simp
  have dist2: "distinct (he_keyp e # he_addr e # ht_blocks ht')"
    using old(2) perm mset_eq_imp_distinct_iff by blast
  then have dist_blocks: "distinct (ht_blocks ht')" by simp
  have "set (ht_blocks ht) = set (he_keyp e # he_addr e # ht_blocks ht')"
    using perm by (rule mset_eq_setD)
  with dist2 show "set (ht_blocks ht') = set (ht_blocks ht) - {he_keyp e, he_addr e}"
    and "he_keyp e \<noteq> he_addr e" and "he_keyp e \<in> set (ht_blocks ht)"
    and "he_addr e \<in> set (ht_blocks ht)"
    by auto
  have dist: "distinct (map he_key (ht_entries ht'))"
    using old(1) unfolding entries entries' by auto
  show "ht_wf ht'"
  proof (rule ht_wf_bucket [OF wf ht' ht_slot_less [OF wf] _ dist dist_blocks])
    fix x
    assume "x \<in> set (xs @ ys)"
    then have "x \<in> set (ht_buckets ht ! ?i)" by (auto simp: bucket)
    then show "ht_slot ht (he_key x) = ?i \<and> length (he_key x) < 2 ^ 31"
      using wf ht_slot_less [OF wf, of key] by (auto simp: ht_wf_def)
  qed
  show "ht_map ht' = (ht_map ht)(key := None)"
  proof
    fix k
    have "key \<notin> he_key ` set (ht_entries ht')"
      using old(1) e unfolding entries entries' by auto
    then have "ht_map ht' key = None" unfolding dom_ht_map [symmetric] domIff by simp
    moreover have "k \<noteq> key \<Longrightarrow> ht_map ht' k = ht_map ht k"
      using e by (auto simp: ht_map_def entries entries' map_add_def split: option.splits)
    ultimately show "ht_map ht' k = ((ht_map ht)(key := None)) k" by simp
  qed
qed

section \<open>Rebuilding\<close>

lemma ht_rehash_bucket_correct:
  assumes "\<And>e. e \<in> set es \<Longrightarrow>
      unat (ucast (ht_hash ht (he_key e)) AND m) < length new \<and> length (he_key e) < 2 ^ 31"
    and "\<forall>i < length new. \<forall>e \<in> set (new ! i). unat (ucast (ht_hash ht (he_key e)) AND m) = i"
  shows "\<exists>new'. ht_rehash_bucket ht m es new = Some new' \<and> length new' = length new \<and>
    mset (concat new') = mset es + mset (concat new) \<and>
    (\<forall>i < length new'. \<forall>e \<in> set (new' ! i). unat (ucast (ht_hash ht (he_key e)) AND m) = i)"
  using assms
proof (induction es arbitrary: new)
  case (Cons e es)
  let ?i = "unat (ucast (ht_hash ht (he_key e)) AND m)"
  have i: "?i < length new" using Cons.prems(1) by simp
  let ?new = "new[?i := e # new ! ?i]"
  have cnt: "mset (concat ?new) = add_mset e (mset (concat new))"
    using concat_update_split [OF i] by simp
  have slots: "\<forall>j < length ?new. \<forall>x \<in> set (?new ! j). unat (ucast (ht_hash ht (he_key x)) AND m) = j"
    using Cons.prems(2) i by (auto simp: nth_list_update)
  have "\<And>x. x \<in> set es \<Longrightarrow>
      unat (ucast (ht_hash ht (he_key x)) AND m) < length ?new \<and> length (he_key x) < 2 ^ 31"
    using Cons.prems(1) by simp
  from Cons.IH [OF this slots] obtain new' where
    "ht_rehash_bucket ht m es ?new = Some new'" "length new' = length new"
    "mset (concat new') = mset es + mset (concat ?new)"
    "\<forall>i < length new'. \<forall>e \<in> set (new' ! i). unat (ucast (ht_hash ht (he_key e)) AND m) = i"
    by auto
  moreover have "ht_murmur ht (he_key e) = Some (ht_hash ht (he_key e))"
    using Cons.prems(1) by (simp add: ht_murmur_short)
  ultimately show ?case using i cnt by (simp add: Let_def)
qed auto

lemma ht_rehash_buckets_correct:
  assumes "\<And>e. e \<in> set (concat bs) \<Longrightarrow>
      unat (ucast (ht_hash ht (he_key e)) AND m) < length new \<and> length (he_key e) < 2 ^ 31"
    and "\<forall>i < length new. \<forall>e \<in> set (new ! i). unat (ucast (ht_hash ht (he_key e)) AND m) = i"
    and "n = length bs"
  shows "\<exists>new'. ht_rehash_buckets ht m n bs new = Some new' \<and> length new' = length new \<and>
    mset (concat new') = mset (concat bs) + mset (concat new) \<and>
    (\<forall>i < length new'. \<forall>e \<in> set (new' ! i). unat (ucast (ht_hash ht (he_key e)) AND m) = i)"
  using assms
proof (induction bs arbitrary: new n)
  case (Cons b bs)
  obtain new1 where n1: "ht_rehash_bucket ht m b new = Some new1" "length new1 = length new"
    "mset (concat new1) = mset b + mset (concat new)"
    "\<forall>i < length new1. \<forall>e \<in> set (new1 ! i). unat (ucast (ht_hash ht (he_key e)) AND m) = i"
    using ht_rehash_bucket_correct [of b ht m new] Cons.prems by auto
  obtain new2 where "ht_rehash_buckets ht m (length bs) bs new1 = Some new2" "length new2 = length new1"
    "mset (concat new2) = mset (concat bs) + mset (concat new1)"
    "\<forall>i < length new2. \<forall>e \<in> set (new2 ! i). unat (ucast (ht_hash ht (he_key e)) AND m) = i"
    using Cons.IH [of new1 "length bs"] Cons.prems(1) n1(2,4) by auto
  with n1 show ?case using Cons.prems(3) by simp
qed auto

text \<open>The new table: same entries, redistributed over the longer array.\<close>

lemma ht_rehash_wf:
  assumes wf: "ht_wf ht" and c: "unat c < 32"
  obtains new where
    "ht_rehash_buckets ht (mask (unat c)) (2 ^ unat (ht_capacity ht)) (ht_buckets ht)
       (replicate (2 ^ unat c) []) = Some new"
    "\<And>ht' p. ht' = ht\<lparr>ht_bucketsp := p, ht_buckets := new, ht_capacity := c, ht_mask := mask (unat c)\<rparr> \<Longrightarrow>
       p \<notin> set (ht_blocks ht) \<Longrightarrow>
       ht_wf ht' \<and> ht_map ht' = ht_map ht \<and>
       set (ht_blocks ht') = insert p (set (ht_blocks ht) - {ht_bucketsp ht})"
proof -
  have slot: "unat (ucast (ht_hash ht k) AND (mask (unat c) :: size_t)) < 2 ^ unat c" for k
    by (simp add: unat_and_mask)
  have short: "length (he_key e) < 2 ^ 31" if "e \<in> set (concat (ht_buckets ht))" for e
    using ht_entry_short [OF wf, of e] that by (simp add: ht_entries_def)
  have len: "2 ^ unat (ht_capacity ht) = length (ht_buckets ht)" using wf by (simp add: ht_wf_def)
  obtain new where new: "ht_rehash_buckets ht (mask (unat c)) (2 ^ unat (ht_capacity ht)) (ht_buckets ht)
       (replicate (2 ^ unat c) []) = Some new" "length new = 2 ^ unat c"
    "mset (concat new) = mset (concat (ht_buckets ht))"
    "\<forall>i < length new. \<forall>e \<in> set (new ! i). unat (ucast (ht_hash ht (he_key e)) AND (mask (unat c) :: size_t)) = i"
    using ht_rehash_buckets_correct [of "ht_buckets ht" ht "mask (unat c)" "replicate (2 ^ unat c) []"
        "2 ^ unat (ht_capacity ht)"] slot short len by auto
  show thesis
  proof (rule that [OF new(1)])
    fix ht' p
    assume ht': "ht' = ht\<lparr>ht_bucketsp := p, ht_buckets := new, ht_capacity := c, ht_mask := mask (unat c)\<rparr>"
      and p: "p \<notin> set (ht_blocks ht)"
    have perm: "mset (ht_entries ht) = mset (ht_entries ht')" by (simp add: ht_entries_def ht' new(3))
    have keys: "distinct (map he_key (ht_entries ht))" and blocks: "distinct (ht_blocks ht)"
      using wf by (simp_all add: ht_wf_def)
    note m = ht_map_perm [OF perm keys]
    have perm_b: "mset (entries_blocks (ht_entries ht)) = mset (entries_blocks (ht_entries ht'))"
      using perm by (rule mset_entries_blocks)
    have set_b: "set (entries_blocks (ht_entries ht')) = set (entries_blocks (ht_entries ht))"
      using perm_b by (metis mset_eq_setD)
    have dist_b: "distinct (entries_blocks (ht_entries ht'))"
      using blocks perm_b by (simp add: ht_blocks_def) (metis mset_eq_imp_distinct_iff)
    have "distinct (ht_blocks ht')"
      using dist_b blocks p set_b by (auto simp: ht_blocks_def ht')
    moreover have "set (ht_blocks ht') = insert p (set (ht_blocks ht) - {ht_bucketsp ht})"
      using blocks set_b by (auto simp: ht_blocks_def ht')
    moreover have "\<forall>i < length new. \<forall>e \<in> set (new ! i).
        unat (ucast (ht_hash ht (he_key e)) AND (mask (unat c) :: size_t)) = i \<and> length (he_key e) < 2 ^ 31"
    proof (intro allI impI ballI conjI)
      fix i e
      assume i: "i < length new" and e: "e \<in> set (new ! i)"
      show "unat (ucast (ht_hash ht (he_key e)) AND (mask (unat c) :: size_t)) = i"
        using new(4) i e by blast
      have "e \<in> set (concat new)" using i e by auto
      then show "length (he_key e) < 2 ^ 31" using short mset_eq_setD [OF new(3)] by blast
    qed
    then have "ht_wf ht'"
      unfolding ht_wf_def using \<open>distinct (ht_blocks ht')\<close> m(1) c new(2)
      by (simp add: ht' ht_slot_def ht_hash_def ht_murmur_def)
    ultimately show "ht_wf ht' \<and> ht_map ht' = ht_map ht \<and>
       set (ht_blocks ht') = insert p (set (ht_blocks ht) - {ht_bucketsp ht})"
      using m(2) by simp
  qed
qed

section \<open>The operations over an allocator\<close>

text \<open>Constants and sizes of the requests.\<close>

lemma ht_bucket_bytes:
  "c < 32 \<Longrightarrow> unat (ucast (push_bit c (1::u32)) * sizeof_ptr :: size_t) = 2 ^ c * 8"
proof -
  assume c: "c < 32"
  have "(2::nat) ^ c \<le> 2 ^ 31" using c by (intro power_increasing) auto
  moreover have "unat (ucast (push_bit c (1::u32)) :: size_t) = 2 ^ c"
    using c by (simp only: unat_ucast_32_64 unat_push_bit_one32)
  ultimately show ?thesis
    by (simp only: unat_word_ariths(2)) (simp add: sizeof_ptr_def)
qed

lemma unat_add_1_64: "unat (x :: u64) < 2 ^ 63 \<Longrightarrow> unat (x + 1) = unat x + 1"
  by (simp add: unat_word_ariths)

text \<open>The exponent a rebuild aims at.\<close>

definition ht_new_cap :: "('v, 'u) hdql_ht \<Rightarrow> size_t" where
  "ht_new_cap ht = (if ht_capacity ht \<noteq> 0 then ht_capacity ht + 1 else 5)"

text \<open>What an insertion may do to the map.\<close>

definition ht_ins_result :: "int \<Rightarrow> bytes \<Rightarrow> 'v option \<Rightarrow> ('v, 'u) hdql_ht \<Rightarrow> ('v, 'u) hdql_ht \<Rightarrow> bool" where
  "ht_ins_result rc key v ht ht' \<longleftrightarrow>
     (rc = HDQL_HT_RC_INSERTED \<and> key \<notin> dom (ht_map ht) \<and> ht_map ht' = (ht_map ht)(key \<mapsto> v) \<and>
        ht_size ht' = ht_size ht + 1) \<or>
     (rc = HDQL_HT_RC_UPDATED \<and> key \<in> dom (ht_map ht) \<and> ht_map ht' = (ht_map ht)(key \<mapsto> v) \<and>
        ht_size ht' = ht_size ht) \<or>
     ((rc = HDQL_HT_ERR_MEM \<or> rc = - 3) \<and> ht_map ht' = ht_map ht \<and> ht_size ht' = ht_size ht)"

context allocator
begin

definition ht_own :: "('v, 'u) hdql_ht \<Rightarrow> 'u \<Rightarrow> bool" where
  "ht_own ht u \<longleftrightarrow> ht_wf ht \<and> ht_allocator ht = \<lparr>al_alloc = alloc, al_free = free\<rparr> \<and>
     inv u \<and> set (ht_blocks ht) \<subseteq> live u"

lemma alloc_cases:
  assumes "inv u" "0 < sz" "unat sz \<le> limit" "X \<subseteq> live u"
  obtains (null) u' where "alloc sz u = Some (None, u')" "moved u X X u'"
  | (block) p u' where "alloc sz u = Some (Some p, u')" "p \<notin> X" "moved u X (insert p X) u'"
proof -
  obtain r u' where ret: "alloc sz u = Some (r, u')" using alloc_returns [OF assms(1-3)] by blast
  show thesis
  proof (cases r)
    case None
    with ret moved_alloc_null [OF assms(1-3) _ assms(4)] show thesis by (intro null) auto
  next
    case (Some p)
    with ret moved_alloc [OF assms(1-3) _ assms(4)] show thesis by (intro block) auto
  qed
qed

lemma bucket_request:
  assumes "c < 32" "2 ^ 40 \<le> limit"
  shows "0 < (ucast (push_bit c (1::u32)) * sizeof_ptr :: size_t)"
    "unat (ucast (push_bit c (1::u32)) * sizeof_ptr :: size_t) \<le> limit"
proof -
  have "(2::nat) ^ c \<le> 2 ^ 31" using assms(1) by (intro power_increasing) auto
  then show "unat (ucast (push_bit c (1::u32)) * sizeof_ptr :: size_t) \<le> limit"
    using assms(2) unfolding ht_bucket_bytes [OF assms(1)] by simp
  show "0 < (ucast (push_bit c (1::u32)) * sizeof_ptr :: size_t)"
    unfolding word_less_nat_alt ht_bucket_bytes [OF assms(1)] by simp
qed

theorem hdql_ht_create_correct:
  assumes "inv u" "unat c < 32" "2 ^ 40 \<le> limit"
  shows "\<exists>(r :: ('v, 'u) hdql_ht option) u'. hdql_ht_create \<lparr>al_alloc = alloc, al_free = free\<rparr> c seed u = Some (r, u') \<and>
    (case r of None \<Rightarrow> moved u {} {} u'
     | Some ht \<Rightarrow> ht_own ht u' \<and> moved u {} (set (ht_blocks ht)) u' \<and> ht_map ht = Map.empty \<and>
         ht_capacity ht = c \<and> ht_size ht = 0)"
proof -
  have szh: "0 < sizeof_hdql_ht" "unat sizeof_hdql_ht \<le> limit"
    using assms(3) by (simp_all add: sizeof_hdql_ht_def)
  note req = bucket_request [OF assms(2,3)]
  show ?thesis
  proof (rule alloc_cases [OF assms(1) szh empty_subsetI], goal_cases null block)
    case null
    then show ?thesis by (simp add: hdql_ht_create_def)
  next
    case (block p v)
    from block(3) have v: "inv v" "{p} \<subseteq> live v" by (simp_all add: moved_def)
    show ?thesis
    proof (rule alloc_cases [OF v(1) req v(2)], goal_cases null block)
      case (null w)
      then obtain x where "free (Some p) w = Some x" "moved w {p} ({p} - {p}) x"
        using moved_free [of w "{p}" p] by (auto simp: moved_def)
      with block null show ?thesis
        using assms(2) by (auto simp: hdql_ht_create_def intro: moved_trans)
    next
      case (block b w)
      define ht where "ht = (\<lparr>ht_addr = p, ht_bucketsp = b, ht_buckets = replicate (2 ^ unat c) [],
        ht_size = 0, ht_capacity = c, ht_mask = mask (unat c),
        ht_allocator = \<lparr>al_alloc = alloc, al_free = free\<rparr>, ht_hashSeed = seed\<rparr> :: ('v, 'u) hdql_ht)"
      have ret: "hdql_ht_create \<lparr>al_alloc = alloc, al_free = free\<rparr> c seed u = Some (Some ht, w)"
        using \<open>alloc sizeof_hdql_ht u = Some (Some p, v)\<close> block(1) assms(2)
        by (simp add: hdql_ht_create_def ht_def ucast_shl1u_minus_1 unat_push_bit_one32 del: push_bit_of_1)
      have ent: "ht_entries ht = []" by (simp add: ht_entries_def ht_def)
      then have blocks: "ht_blocks ht = [b, p]" by (simp add: ht_blocks_def) (simp add: ht_def)
      have mv: "moved u {} (set (ht_blocks ht)) w"
        using moved_trans [OF \<open>moved u {} {p} v\<close> block(3)] by (simp add: blocks insert_commute)
      have "ht_wf ht"
        using assms(2) block(2) ent blocks by (simp add: ht_wf_def) (simp add: ht_def)
      then have "ht_own ht w"
        using mv by (simp add: ht_own_def moved_def) (simp add: ht_def)
      then show ?thesis
        using ret mv by (intro exI [of _ "Some ht"] exI [of _ w]) (simp add: ht_map_def ent, simp add: ht_def)
    qed
  qed
qed

lemma ht_own_wf: "ht_own ht u \<Longrightarrow> ht_wf ht"
  by (simp add: ht_own_def)

lemma ht_own_al:
  "ht_own ht u \<Longrightarrow> al_alloc (ht_allocator ht) = alloc"
  "ht_own ht u \<Longrightarrow> al_free (ht_allocator ht) = free"
  by (simp_all add: ht_own_def)

lemma ht_ownD: "ht_own ht u \<Longrightarrow> inv u \<and> set (ht_blocks ht) \<subseteq> live u"
  by (simp add: ht_own_def)

lemma ht_own_moved:
  "ht_wf ht' \<Longrightarrow> ht_allocator ht' = \<lparr>al_alloc = alloc, al_free = free\<rparr> \<Longrightarrow>
   moved u X (set (ht_blocks ht')) u' \<Longrightarrow> ht_own ht' u'"
  by (simp add: ht_own_def moved_def)

theorem hdql_ht_rebuild_correct:
  assumes own: "ht_own ht u" and cap: "unat (ht_capacity ht) < 31" and lim: "2 ^ 40 \<le> limit"
  shows "\<exists>rc ht' u'. hdql_ht_rebuild ht u = Some (rc, ht', u') \<and> ht_own ht' u' \<and>
    moved u (set (ht_blocks ht)) (set (ht_blocks ht')) u' \<and>
    ht_map ht' = ht_map ht \<and> ht_size ht' = ht_size ht \<and>
    (rc = HDQL_HT_ERR_MEM \<and> ht' = ht \<or> rc = HDQL_HT_RC_OK \<and> ht_capacity ht' = ht_new_cap ht)"
proof -
  let ?c = "ht_new_cap ht"
  note wf = ht_own_wf [OF own] and al = ht_own_al [OF own]
  have inv: "inv u" and sub: "set (ht_blocks ht) \<subseteq> live u" using ht_ownD [OF own] by auto
  have c: "unat ?c < 32"
    using cap by (auto simp: ht_new_cap_def unat_add_1_64)
  note req = bucket_request [OF c lim]
  show ?thesis
  proof (rule alloc_cases [OF inv req sub], goal_cases null block)
    case (null v)
    then have "hdql_ht_rebuild ht u = Some (HDQL_HT_ERR_MEM, ht, v)"
      using c by (simp add: hdql_ht_rebuild_def ht_new_cap_def [symmetric] al)
    moreover have "ht_own ht v" using own null(2) by (simp add: ht_own_def moved_def)
    ultimately show ?case using null(2) by blast
  next
    case (block p v)
    obtain new where new: "ht_rehash_buckets ht (mask (unat ?c)) (2 ^ unat (ht_capacity ht)) (ht_buckets ht)
       (replicate (2 ^ unat ?c) []) = Some new"
      and ht': "\<And>ht' p. ht' = ht\<lparr>ht_bucketsp := p, ht_buckets := new, ht_capacity := ?c, ht_mask := mask (unat ?c)\<rparr> \<Longrightarrow>
       p \<notin> set (ht_blocks ht) \<Longrightarrow>
       ht_wf ht' \<and> ht_map ht' = ht_map ht \<and>
       set (ht_blocks ht') = insert p (set (ht_blocks ht) - {ht_bucketsp ht})"
      using ht_rehash_wf [OF wf c] by blast
    define h where "h = ht\<lparr>ht_bucketsp := p, ht_buckets := new, ht_capacity := ?c, ht_mask := mask (unat ?c)\<rparr>"
    note h = ht' [OF h_def block(2)]
    obtain w where w: "free (Some (ht_bucketsp ht)) v = Some w"
      "moved v (insert p (set (ht_blocks ht))) (insert p (set (ht_blocks ht)) - {ht_bucketsp ht}) w"
      using moved_free [OF moved_inv moved_owned, OF block(3) block(3), of "ht_bucketsp ht"]
      by (auto simp: ht_blocks_def)
    have "p \<noteq> ht_bucketsp ht" using block(2) by (auto simp: ht_blocks_def)
    then have "insert p (set (ht_blocks ht)) - {ht_bucketsp ht} = set (ht_blocks h)" using h by auto
    then have mv: "moved u (set (ht_blocks ht)) (set (ht_blocks h)) w"
      using moved_trans [OF block(3) w(2)] by simp
    have c0: "unat (ht_capacity ht) < 32" using cap by simp
    have "hdql_ht_rebuild ht u = Some (HDQL_HT_RC_OK, h, w)"
      using c c0 block(1) w(1) new
      by (simp add: hdql_ht_rebuild_def ht_new_cap_def [symmetric] al ucast_shl1u_minus_1 h_def
          Let_def unat_push_bit_one32 del: push_bit_of_1)
    moreover have "ht_own h w"
      using h mv own by (intro ht_own_moved) (auto simp: h_def ht_own_def)
    moreover have "ht_size h = ht_size ht" "ht_capacity h = ?c" by (simp_all add: h_def)
    ultimately show ?case using mv h by blast
  qed
qed

lemma ht_ins_entry_correct:
  assumes own: "ht_own ht u" and key: "key \<noteq> []" "length key < 2 ^ 31" and lim: "2 ^ 40 \<le> limit"
  shows "\<exists>rc ht' u'. ht_ins_entry ht key v u = Some (rc, ht', u') \<and> ht_own ht' u' \<and>
    moved u (set (ht_blocks ht)) (set (ht_blocks ht')) u' \<and> ht_ins_result rc key v ht ht' \<and>
    ht_capacity ht' = ht_capacity ht"
proof -
  let ?i = "ht_slot ht key"
  note wf = ht_own_wf [OF own] and al = ht_own_al [OF own]
  have inv: "inv u" and sub: "set (ht_blocks ht) \<subseteq> live u" using ht_ownD [OF own] by auto
  have i: "?i < length (ht_buckets ht)" using ht_slot_less [OF wf] .
  have slot: "unat (ucast (ht_hash ht key) AND ht_mask ht) = ?i" by (simp add: ht_slot_def)
  note look = hdql_ht_lookup_wf [OF wf key(2)]
  show ?thesis
  proof (cases "ht_scan key (ht_buckets ht ! ?i)")
    case (Some e)
    let ?h = "ht\<lparr>ht_buckets := (ht_buckets ht)[?i := ht_set_value (he_addr e) v (ht_buckets ht ! ?i)]\<rparr>"
    note h = ht_update_value [OF wf Some refl, of v]
    have "key \<in> dom (ht_map ht)" using Some ht_scan_slot_None [OF wf, of key] by auto
    moreover have "ht_ins_entry ht key v u = Some (HDQL_HT_RC_UPDATED, ?h, u)"
      using i ht_scan_slot_Some(3) [OF wf Some]
      by (simp add: ht_ins_entry_def look Some slot)
    moreover have "ht_own ?h u" using own h by (simp add: ht_own_def)
    moreover have "moved u (set (ht_blocks ht)) (set (ht_blocks ?h)) u"
      using h moved_refl [OF inv sub] by simp
    ultimately show ?thesis using h unfolding ht_ins_result_def
      by (intro exI [of _ HDQL_HT_RC_UPDATED] exI [of _ ?h] exI [of _ u]) simp
  next
    case None
    then have new: "key \<notin> dom (ht_map ht)" using ht_scan_slot_None [OF wf] by blast
    have len: "unat (of_nat (length key) :: size_t) = length key"
      using key(2) by (simp add: unat_of_nat)
    then have req: "0 < (of_nat (length key) :: size_t)" "unat (of_nat (length key) :: size_t) \<le> limit"
      using key lim by (simp_all only: word_less_nat_alt) auto
    have req2: "0 < sizeof_hdql_ht_entry" "unat sizeof_hdql_ht_entry \<le> limit"
      using lim by (simp_all add: sizeof_hdql_ht_entry_def)
    show ?thesis
    proof (rule alloc_cases [OF inv req sub], goal_cases null block)
      case (null w)
      then have "ht_ins_entry ht key v u = Some (HDQL_HT_ERR_MEM, ht, w)"
        using i by (simp add: ht_ins_entry_def look None slot al)
      moreover have "ht_own ht w" using own null(2) by (simp add: ht_own_def moved_def)
      ultimately show ?case using null(2) unfolding ht_ins_result_def by blast
    next
      case (block kp w)
      note kp = block
      note inv' = moved_inv [OF kp(3)] and sub' = moved_owned [OF kp(3)]
      show ?case
      proof (rule alloc_cases [OF inv' req2 sub'], goal_cases null block)
        case (null x)
        obtain y where y: "free (Some kp) x = Some y"
          "moved x (insert kp (set (ht_blocks ht))) (insert kp (set (ht_blocks ht)) - {kp}) y"
          using moved_free [OF moved_inv moved_owned, OF null(2) null(2), of kp] by auto
        have "insert kp (set (ht_blocks ht)) - {kp} = set (ht_blocks ht)" using kp(2) by auto
        then have mv: "moved u (set (ht_blocks ht)) (set (ht_blocks ht)) y"
          using moved_trans [OF kp(3) moved_trans [OF null(2) y(2)]] by simp
        have "ht_ins_entry ht key v u = Some (- 3, ht, y)"
          using i kp(1) null(1) y(1) by (simp add: ht_ins_entry_def look None slot al)
        moreover have "ht_own ht y" using own mv by (simp add: ht_own_def moved_def)
        ultimately show ?case using mv unfolding ht_ins_result_def by blast
      next
        case (block ep x)
        define h where "h = ht\<lparr>ht_buckets := (ht_buckets ht)[?i :=
          \<lparr>he_addr = ep, he_keyp = kp, he_key = key, he_value = v\<rparr> # ht_buckets ht ! ?i]\<rparr>"
        have fresh: "kp \<notin> set (ht_blocks ht)" "ep \<notin> set (ht_blocks ht)" "kp \<noteq> ep"
          using kp(2) block(2) by auto
        note h = ht_add_entry [OF wf new key(2) fresh h_def]
        let ?h = "h\<lparr>ht_size := ht_size h + 1\<rparr>"
        have mv: "moved u (set (ht_blocks ht)) (set (ht_blocks ?h)) x"
          using moved_trans [OF kp(3) block(3)] h(3) by simp
        have "ht_ins_entry ht key v u = Some (HDQL_HT_RC_INSERTED, ?h, x)"
          using i kp(1) block(1) by (simp add: ht_ins_entry_def look None slot al h_def)
        moreover have "ht_own ?h x"
          using h mv own by (intro ht_own_moved) (auto simp: h_def ht_own_def)
        moreover have "ht_size ?h = ht_size ht + 1" "ht_capacity ?h = ht_capacity ht"
          by (simp_all add: h_def)
        ultimately show ?case using mv h(2) new unfolding ht_ins_result_def
          by (intro exI [of _ HDQL_HT_RC_INSERTED] exI [of _ ?h] exI [of _ x]) simp
      qed
    qed
  qed
qed

theorem hdql_ht_ins_correct:
  assumes own: "ht_own ht u" and key: "key \<noteq> []" "length key < 2 ^ 31" and lim: "2 ^ 40 \<le> limit"
    and cap: "0 < ht_capacity ht" "unat (ht_size ht) < 2 ^ 30"
  shows "\<exists>rc ht' u'. hdql_ht_ins ht key v u = Some (rc, ht', u') \<and> ht_own ht' u' \<and>
    moved u (set (ht_blocks ht)) (set (ht_blocks ht')) u' \<and> ht_ins_result rc key v ht ht' \<and>
    0 < ht_capacity ht'"
proof -
  let ?half = "ht_capacity ht - 1"
  have c1: "unat ?half = unat (ht_capacity ht) - 1"
    using cap(1) by (simp add: unat_sub word_le_nat_alt word_less_nat_alt)
  have c32: "unat (ht_capacity ht) < 32" using ht_own_wf [OF own] by (simp add: ht_wf_def)
  then have half: "shl1u ?half = Some (push_bit (unat ?half) 1)" using c1 by simp
  have half_val: "unat (ucast (push_bit (unat ?half) (1::u32)) :: size_t) = 2 ^ (unat (ht_capacity ht) - 1)"
    using c1 c32 by (simp only: unat_ucast_32_64) (simp add: unat_push_bit_one32 del: push_bit_of_1)
  show ?thesis
  proof (cases "ht_size ht > ucast (push_bit (unat ?half) (1::u32))")
    case False
    then have "hdql_ht_ins ht key v u = ht_ins_entry ht key v u"
      by (simp add: hdql_ht_ins_def half)
    then show ?thesis using ht_ins_entry_correct [OF own key lim, of v] cap(1) by (auto; metis)
  next
    case True
    then have "2 ^ (unat (ht_capacity ht) - 1) < (2::nat) ^ 30"
      using cap(2) unfolding word_less_nat_alt half_val by linarith
    then have "unat (ht_capacity ht) - 1 < 30" by (rule power_less_imp_less_exp [rotated]) simp
    then have c31: "unat (ht_capacity ht) < 31" using cap(1) by (simp add: word_less_nat_alt)
    obtain rc h w where r: "hdql_ht_rebuild ht u = Some (rc, h, w)" "ht_own h w"
      "moved u (set (ht_blocks ht)) (set (ht_blocks h)) w" "ht_map h = ht_map ht" "ht_size h = ht_size ht"
      "rc = HDQL_HT_ERR_MEM \<and> h = ht \<or> rc = HDQL_HT_RC_OK \<and> ht_capacity h = ht_new_cap ht"
      using hdql_ht_rebuild_correct [OF own c31 lim] by blast
    from r(6) show ?thesis
    proof
      assume "rc = HDQL_HT_ERR_MEM \<and> h = ht"
      then have "hdql_ht_ins ht key v u = Some (HDQL_HT_ERR_MEM, ht, w)"
        using True r(1) by (simp add: hdql_ht_ins_def half ht_codes)
      then show ?thesis using r \<open>rc = HDQL_HT_ERR_MEM \<and> h = ht\<close> cap(1) unfolding ht_ins_result_def by blast
    next
      assume ok: "rc = HDQL_HT_RC_OK \<and> ht_capacity h = ht_new_cap ht"
      then have ins: "hdql_ht_ins ht key v u = ht_ins_entry h key v w"
        using True r(1) by (simp add: hdql_ht_ins_def half ht_codes)
      have "0 < ht_new_cap ht"
        using c31 by (auto simp: ht_new_cap_def word_less_nat_alt unat_add_1_64)
      moreover obtain rc' h' w' where "ht_ins_entry h key v w = Some (rc', h', w')" "ht_own h' w'"
        "moved w (set (ht_blocks h)) (set (ht_blocks h')) w'" "ht_ins_result rc' key v h h'"
        "ht_capacity h' = ht_capacity h"
        using ht_ins_entry_correct [OF r(2) key lim, of v] by blast
      ultimately show ?thesis
        using ins ok r(3-5) moved_trans unfolding ht_ins_result_def by (metis (no_types, lifting))
    qed
  qed
qed

theorem hdql_ht_remove_correct:
  assumes own: "ht_own ht u" and key: "length key < 2 ^ 31"
  shows "\<exists>rc ht' u'. hdql_ht_remove ht key u = Some (rc, ht', u') \<and> ht_own ht' u' \<and>
    moved u (set (ht_blocks ht)) (set (ht_blocks ht')) u' \<and>
    ht_map ht' = (ht_map ht)(key := None) \<and> ht_size ht' = ht_size ht \<and> ht_capacity ht' = ht_capacity ht \<and>
    rc = (if key \<in> dom (ht_map ht) then HDQL_HT_RC_OK else HDQL_HT_RC_ERR_NOENT)"
proof -
  let ?i = "ht_slot ht key"
  note wf = ht_own_wf [OF own] and al = ht_own_al [OF own]
  have inv: "inv u" and sub: "set (ht_blocks ht) \<subseteq> live u" using ht_ownD [OF own] by auto
  have i: "?i < length (ht_buckets ht)" using ht_slot_less [OF wf] .
  have slot: "unat (ucast (ht_hash ht key) AND ht_mask ht) = ?i" by (simp add: ht_slot_def)
  have c32: "unat (ht_capacity ht) < 32" and len: "length (ht_buckets ht) = 2 ^ unat (ht_capacity ht)"
    using wf by (simp_all add: ht_wf_def)
  note look = hdql_ht_lookup_wf [OF wf key]
  show ?thesis
  proof (cases "ht_scan key (ht_buckets ht ! ?i)")
    case None
    then have "key \<notin> dom (ht_map ht)" using ht_scan_slot_None [OF wf] by blast
    then have "(ht_map ht)(key := None) = ht_map ht" by (auto simp: domIff fun_eq_iff)
    moreover have "hdql_ht_remove ht key u = Some (HDQL_HT_RC_ERR_NOENT, ht, u)"
      by (simp add: hdql_ht_remove_def look None)
    ultimately show ?thesis
      using own moved_refl [OF inv sub] \<open>key \<notin> dom (ht_map ht)\<close> by auto
  next
    case (Some e)
    note e = ht_scan_slot_Some [OF wf Some]
    have dom: "key \<in> dom (ht_map ht)" using e(4) by blast
    obtain f es' where f: "ht_unlink (he_addr e) (ht_buckets ht ! ?i) = Some (f, es')"
      using ht_unlink_None [of "he_addr e" "ht_buckets ht ! ?i"] e(2) by fastforce
    then obtain xs ys where xy: "ht_buckets ht ! ?i = xs @ f # ys" "es' = xs @ ys" "he_addr f = he_addr e"
      using ht_unlink_Some by blast
    have "f = e"
    proof -
      have "distinct (entries_blocks (ht_entries ht))" using wf by (simp add: ht_wf_def ht_blocks_def)
      moreover have "distinct (entries_blocks es) \<Longrightarrow> inj_on he_addr (set es)" for es :: "'a hdql_ht_entry list"
        by (induction es) (auto simp: set_entries_blocks)
      moreover have "f \<in> set (ht_entries ht)"
        using xy(1) nth_mem [OF i] unfolding ht_entries_def set_concat by fastforce
      ultimately show ?thesis using e(1) xy(3) by (auto dest: inj_onD)
    qed
    define h where "h = ht\<lparr>ht_buckets := (ht_buckets ht)[?i := es']\<rparr>"
    note h = ht_drop_entry [OF wf xy(1) _ h_def [unfolded xy(2)]]
    have fk: "he_key f = key" using e(3) \<open>f = e\<close> by simp
    note h = h [OF fk]
    obtain v where v: "free (Some (he_keyp f)) u = Some v"
      "moved u (set (ht_blocks ht)) (set (ht_blocks ht) - {he_keyp f}) v"
      using moved_free [OF inv sub h(5)] by blast
    obtain w where w: "free (Some (he_addr f)) v = Some w"
      "moved v (set (ht_blocks ht) - {he_keyp f}) (set (ht_blocks ht) - {he_keyp f} - {he_addr f}) w"
      using moved_free [OF moved_inv moved_owned, OF v(2) v(2), of "he_addr f"] h(4,6) by auto
    have "set (ht_blocks ht) - {he_keyp f} - {he_addr f} = set (ht_blocks h)" using h(3) by auto
    then have mv: "moved u (set (ht_blocks ht)) (set (ht_blocks h)) w"
      using moved_trans [OF v(2) w(2)] by simp
    have nb: "ucast (ht_hash ht key) AND ht_mask ht < (ucast (push_bit (unat (ht_capacity ht)) (1::u32)) :: size_t)"
      unfolding word_less_nat_alt unat_ucast_32_64 unat_push_bit_one32 [OF c32] slot
      using i len by simp
    have "hdql_ht_remove ht key u = Some (HDQL_HT_RC_OK, h, w)"
      using i c32 nb f v(1) w(1)
      by (simp add: hdql_ht_remove_def look Some hdql_ht_erase_def slot al h_def del: push_bit_of_1)
    moreover have "ht_own h w" using h mv own by (intro ht_own_moved) (auto simp: h_def ht_own_def)
    moreover have "ht_size h = ht_size ht" "ht_capacity h = ht_capacity ht" by (simp_all add: h_def)
    ultimately show ?thesis using mv h dom by auto
  qed
qed

lemma free_list_fun:
  "free_list [] = Some"
  "free_list (p # ps) = (\<lambda>u. do { u \<leftarrow> free (Some p) u; free_list ps u })"
  by (simp_all add: fun_eq_iff)

lemma ht_free_bucket_list:
  "ht_free_bucket \<lparr>al_alloc = alloc, al_free = free\<rparr> es = free_list (entries_blocks es)"
proof (induction es)
  case (Cons e es)
  show ?case by (rule ext) (simp add: Cons.IH free_list_fun)
qed (simp add: fun_eq_iff)

lemma ht_free_buckets_list:
  "n = length bs \<Longrightarrow> ht_free_buckets \<lparr>al_alloc = alloc, al_free = free\<rparr> n bs =
     free_list (entries_blocks (concat bs))"
proof (induction bs arbitrary: n)
  case (Cons b bs)
  have "ht_free_buckets \<lparr>al_alloc = alloc, al_free = free\<rparr> (length bs) bs =
     free_list (entries_blocks (concat bs))"
    by (rule Cons.IH) simp
  then show ?case
    by (intro ext) (simp add: Cons.prems ht_free_bucket_list free_list_append)
qed (simp add: fun_eq_iff)

theorem hdql_ht_destroy_correct:
  assumes own: "ht_own ht u"
  shows "\<exists>u'. hdql_ht_destroy ht u = Some u' \<and> moved u (set (ht_blocks ht)) {} u'"
proof -
  have a: "ht_allocator ht = \<lparr>al_alloc = alloc, al_free = free\<rparr>" and
    wf: "ht_wf ht" using own by (simp_all add: ht_own_def)
  have "hdql_ht_destroy ht u = free_list (ht_blocks ht) u"
    using wf by (simp add: hdql_ht_destroy_def a ht_free_buckets_list ht_blocks_def free_list_append
        free_list_fun ht_wf_def ht_entries_def unat_push_bit_one32 del: push_bit_of_1)
  moreover have "distinct (ht_blocks ht)" using wf by (simp add: ht_wf_def)
  ultimately show ?thesis using moved_free_list [of u "set (ht_blocks ht)" "ht_blocks ht"] ht_ownD [OF own] by auto
qed

end

section \<open>Iterating\<close>

lemma ht_iter_bucket_append:
  "ht_iter_bucket cb (es @ es') s = do {
     (rc, xs, s) \<leftarrow> ht_iter_bucket cb es s;
     if rc \<noteq> 0 then Some (rc, xs @ es', s)
     else do { (rc, ys, s) \<leftarrow> ht_iter_bucket cb es' s; Some (rc, xs @ ys, s) } }"
proof (induction es arbitrary: s)
  case (Cons e es)
  show ?case
    by (simp add: Cons.IH split: prod.splits if_splits bind_splits)
qed (simp split: bind_splits)

lemma ht_iter_buckets_flat:
  "n = length bs \<Longrightarrow>
   map_option (\<lambda>(rc, bs, s). (rc, concat bs, s)) (ht_iter_buckets cb n bs s) =
   ht_iter_bucket cb (concat bs) s"
proof (induction bs arbitrary: n s)
  case (Cons b bs)
  show ?case
  proof (cases "ht_iter_bucket cb b s")
    case (Some r)
    obtain rc xs s' where r: "r = (rc, xs, s')" by (cases r)
    have "map_option (\<lambda>(rc, bs, s). (rc, concat bs, s)) (ht_iter_buckets cb (length bs) bs s') =
        ht_iter_bucket cb (concat bs) s'"
      by (rule Cons.IH) simp
    then show ?thesis
      using Some r Cons.prems
      by (cases "ht_iter_buckets cb (length bs) bs s'") (auto simp: ht_iter_bucket_append dest: sym)
  qed (simp add: Cons.prems ht_iter_bucket_append)
qed simp

lemma ht_iter_bucket_all:
  "ht_iter_bucket (\<lambda>k v s. Some (0, g k v, s @ [(k, v)])) es s =
     Some (0, map (\<lambda>e. e\<lparr>he_value := g (he_key e) (he_value e)\<rparr>) es,
           s @ map (\<lambda>e. (he_key e, he_value e)) es)"
  by (induction es arbitrary: s) auto

text \<open>
  Iterating over a well-formed table with a callback that does not stop visits every pair
  of the map exactly once, and writes through the value pointer reach the map.
\<close>

theorem ht_iter_all:
  assumes "ht_wf ht"
  shows "\<exists>ht' visited. hdql_ht_iter ht (\<lambda>k v s. Some (0, g k v, s @ [(k, v)])) [] = Some (0, ht', visited) \<and>
    distinct (map fst visited) \<and> map_of visited = ht_map ht \<and>
    ht_map ht' = (\<lambda>k. map_option (g k) (ht_map ht k))"
proof -
  let ?cb = "\<lambda>k v s. Some (0, g k v, s @ [(k, v)])"
  have len: "length (ht_buckets ht) = 2 ^ unat (ht_capacity ht)" and c: "unat (ht_capacity ht) < 32"
    and keys: "distinct (map he_key (ht_entries ht))"
    using assms by (simp_all add: ht_wf_def)
  obtain bs where bs: "ht_iter_buckets ?cb (length (ht_buckets ht)) (ht_buckets ht) [] =
      Some (0, bs, map (\<lambda>e. (he_key e, he_value e)) (ht_entries ht))"
    "concat bs = map (\<lambda>e. e\<lparr>he_value := g (he_key e) (he_value e)\<rparr>) (ht_entries ht)"
    using ht_iter_buckets_flat [OF refl, of ?cb "ht_buckets ht" "[]"]
    unfolding ht_iter_bucket_all by (auto simp: ht_entries_def)
  define h where "h = ht\<lparr>ht_buckets := bs\<rparr>"
  have "hdql_ht_iter ht ?cb [] = Some (0, h, map (\<lambda>e. (he_key e, he_value e)) (ht_entries ht))"
    using bs(1) c len by (simp add: hdql_ht_iter_def h_def unat_push_bit_one32 del: push_bit_of_1)
  moreover have "ht_map h = (\<lambda>k. map_option (g k) (ht_map ht k))"
  proof
    have *: "map_of (map (\<lambda>e. (he_key e, g (he_key e) (he_value e))) es) k =
        map_option (g k) (map_of (map (\<lambda>e. (he_key e, he_value e)) es) k)" for es :: "'a hdql_ht_entry list" and k
      by (induction es) auto
    show "ht_map h k = map_option (g k) (ht_map ht k)" for k
      by (simp add: ht_map_def h_def ht_entries_def [of "ht\<lparr>ht_buckets := bs\<rparr>"] bs(2) o_def *)
  qed
  ultimately show ?thesis using keys by (auto simp: ht_map_def o_def)
qed

lemma ht_iter_all_witness:
  "\<exists>ht' visited. hdql_ht_iter
      \<lparr>ht_addr = 0, ht_bucketsp = 1, ht_buckets =
         [[\<lparr>he_addr = 2, he_keyp = 3, he_key = [97], he_value = Some (7::nat)\<rparr>,
           \<lparr>he_addr = 4, he_keyp = 5, he_key = [98], he_value = None\<rparr>]],
       ht_size = 2, ht_capacity = 0, ht_mask = 0, ht_allocator = hdql_gHeapAllocator, ht_hashSeed = 0\<rparr>
      (\<lambda>k v s. Some (0, map_option Suc v, s @ [(k, v)])) [] = Some (0, ht', visited) \<and>
    map_of visited = [[97] \<mapsto> Some 7, [98] \<mapsto> None] \<and> ht_map ht' [97] = Some (Some 8)"
  using ht_iter_all [of "\<lparr>ht_addr = 0, ht_bucketsp = 1, ht_buckets =
         [[\<lparr>he_addr = 2, he_keyp = 3, he_key = [97], he_value = Some (7::nat)\<rparr>,
           \<lparr>he_addr = 4, he_keyp = 5, he_key = [98], he_value = None\<rparr>]],
       ht_size = 2, ht_capacity = 0, ht_mask = 0, ht_allocator = hdql_gHeapAllocator, ht_hashSeed = 0\<rparr>"
      "\<lambda>k. map_option Suc"]
  by (fastforce simp: ht_wf_def ht_entries_def ht_blocks_def ht_slot_def ht_map_def)


section \<open>The table over the C heap\<close>

text \<open>A table all of whose blocks are live blocks of the heap.\<close>

definition ht_live :: "('v, heap) hdql_ht \<Rightarrow> heap \<Rightarrow> bool" where
  "ht_live ht h \<longleftrightarrow> ht_wf ht \<and> ht_allocator ht = hdql_gHeapAllocator \<and> heap_wf h \<and>
     set (ht_blocks ht) \<subseteq> hp_live h"

text \<open>The blocks of the heap that are not the table's.\<close>

definition ht_foreign :: "('v, heap) hdql_ht \<Rightarrow> heap \<Rightarrow> addr set" where
  "ht_foreign ht h = hp_live h - set (ht_blocks ht)"

lemma ht_live_own: "ht_live ht h = std.ht_own ht h"
  by (auto simp: ht_live_def std.ht_own_def hdql_gHeapAllocator_def)

lemma std_moved_foreign:
  "std.moved h (set (ht_blocks ht)) (set (ht_blocks ht')) h' \<Longrightarrow> ht_foreign ht' h' = ht_foreign ht h"
  by (auto simp: std.moved_def ht_foreign_def)

text \<open>
  On a live table, inserting a non-empty key always returns. It inserts a new key or
  updates a present one and reports which, or reports the lack of memory and leaves the map
  as it was; the table stays well-formed and no block that is not the table's is touched.
\<close>

theorem ht_ins_spec:
  assumes "ht_live ht h" "key \<noteq> []" "length key < 2 ^ 31" "0 < ht_capacity ht"
    "unat (ht_size ht) < 2 ^ 30"
  shows "\<exists>rc ht' h'. hdql_ht_ins ht key v h = Some (rc, ht', h') \<and> ht_live ht' h' \<and>
    ht_foreign ht' h' = ht_foreign ht h \<and>
    (rc = HDQL_HT_RC_INSERTED \<and> key \<notin> dom (ht_map ht) \<and> ht_map ht' = (ht_map ht)(key \<mapsto> v) \<or>
     rc = HDQL_HT_RC_UPDATED \<and> key \<in> dom (ht_map ht) \<and> ht_map ht' = (ht_map ht)(key \<mapsto> v) \<or>
     (rc = HDQL_HT_ERR_MEM \<or> rc = - 3) \<and> ht_map ht' = ht_map ht)"
proof -
  have "std.ht_own ht h" using assms(1) by (simp add: ht_live_own)
  then obtain rc ht' h' where "hdql_ht_ins ht key v h = Some (rc, ht', h')" "std.ht_own ht' h'"
    "std.moved h (set (ht_blocks ht)) (set (ht_blocks ht')) h'" "ht_ins_result rc key v ht ht'"
    using std.hdql_ht_ins_correct [OF _ assms(2,3) _ assms(4,5), of h v] by auto
  then show ?thesis
    using std_moved_foreign unfolding ht_live_own ht_ins_result_def by blast
qed

definition ht_sample :: "(nat, heap) hdql_ht" where
  "ht_sample = \<lparr>ht_addr = 0, ht_bucketsp = 1, ht_buckets = [[], []], ht_size = 0, ht_capacity = 1,
     ht_mask = 1, ht_allocator = hdql_gHeapAllocator, ht_hashSeed = 0\<rparr>"

definition heap_sample :: heap where
  "heap_sample = \<lparr>hp_next = 3, hp_live = {0, 1, 2}, hp_oom = (\<lambda>n. n = 5)\<rparr>"

lemma ht_sample_live: "ht_live ht_sample heap_sample"
  by (auto simp: ht_live_def ht_wf_def ht_sample_def heap_sample_def ht_entries_def ht_blocks_def
      heap_wf_def less_Suc_eq)

lemma ht_ins_spec_witness:
  "\<exists>rc ht' h'. hdql_ht_ins ht_sample [97, 98] (Some 7) heap_sample = Some (rc, ht', h') \<and>
    ht_live ht' h' \<and> hp_live h' - set (ht_blocks ht') = {2}"
  using ht_ins_spec [OF ht_sample_live, of "[97, 98]" "Some 7"]
  by (fastforce simp: ht_sample_def heap_sample_def ht_foreign_def ht_blocks_def ht_entries_def)


text \<open>
  Removing a key from a live table returns 0 when the key was present and
  HDQL_HT_RC_ERR_NOENT (130) when it was not; the map loses exactly that key, its blocks are
  released once, and the recorded number of pairs does not change.
\<close>

theorem ht_remove_spec:
  assumes "ht_live ht h" "length key < 2 ^ 31"
  shows "\<exists>ht' h'. hdql_ht_remove ht key h =
      Some (if key \<in> dom (ht_map ht) then 0 else 130, ht', h') \<and> ht_live ht' h' \<and>
    ht_foreign ht' h' = ht_foreign ht h \<and> ht_map ht' = (ht_map ht)(key := None) \<and>
    ht_size ht' = ht_size ht"
proof -
  obtain rc ht' h' where "hdql_ht_remove ht key h = Some (rc, ht', h')" "std.ht_own ht' h'"
    "std.moved h (set (ht_blocks ht)) (set (ht_blocks ht')) h'"
    "ht_map ht' = (ht_map ht)(key := None)" "ht_size ht' = ht_size ht"
    "rc = (if key \<in> dom (ht_map ht) then 0 else 130)"
    using std.hdql_ht_remove_correct [OF iffD1 [OF ht_live_own assms(1)] assms(2)] unfolding ht_codes by blast
  then show ?thesis
    using std_moved_foreign unfolding ht_live_own by blast
qed

lemma ht_remove_spec_witness:
  "\<exists>ht' h'. hdql_ht_remove ht_sample [97] heap_sample = Some (130, ht', h') \<and> ht_live ht' h'"
  using ht_remove_spec [OF ht_sample_live, of "[97]"]
  by (fastforce simp: ht_sample_def ht_map_def ht_entries_def)


text \<open>
  Extending a table keeps the map and touches no foreign block, also when the memory for
  the longer array of buckets is not there.
\<close>

theorem ht_rebuild_spec:
  assumes "ht_live ht h" "unat (ht_capacity ht) < 31"
  shows "\<exists>rc ht' h'. hdql_ht_rebuild ht h = Some (rc, ht', h') \<and> ht_live ht' h' \<and>
    ht_foreign ht' h' = ht_foreign ht h \<and> ht_map ht' = ht_map ht \<and>
    (rc = HDQL_HT_ERR_MEM \<and> ht' = ht \<or>
     rc = HDQL_HT_RC_OK \<and> ht_capacity ht' = (if ht_capacity ht = 0 then 5 else ht_capacity ht + 1))"
proof -
  obtain rc ht' h' where "hdql_ht_rebuild ht h = Some (rc, ht', h')" "std.ht_own ht' h'"
    "std.moved h (set (ht_blocks ht)) (set (ht_blocks ht')) h'" "ht_map ht' = ht_map ht"
    "rc = HDQL_HT_ERR_MEM \<and> ht' = ht \<or> rc = HDQL_HT_RC_OK \<and> ht_capacity ht' = ht_new_cap ht"
    using std.hdql_ht_rebuild_correct [OF iffD1 [OF ht_live_own assms(1)] assms(2)] by auto
  moreover have "ht_new_cap ht = (if ht_capacity ht = 0 then 5 else ht_capacity ht + 1)"
    by (simp add: ht_new_cap_def)
  ultimately show ?thesis
    using std_moved_foreign unfolding ht_live_own by metis
qed

lemma ht_rebuild_spec_witness:
  "\<exists>rc ht' h'. hdql_ht_rebuild ht_sample heap_sample = Some (rc, ht', h') \<and> ht_live ht' h' \<and>
    ht_map ht' = Map.empty"
  using ht_rebuild_spec [OF ht_sample_live]
  by (fastforce simp: ht_sample_def ht_map_def ht_entries_def)


section \<open>Whole lifetimes\<close>

text \<open>A program that uses a table: creation, any calls, destruction.\<close>

datatype 'v ht_cmd = HtIns bytes "'v option" | HtRem bytes | HtGet bytes

datatype 'v ht_out = OutCode int | OutValue "'v option"

fun ht_step :: "'v ht_cmd \<Rightarrow> ('v, 'u) hdql_ht \<Rightarrow> 'u \<Rightarrow> ('v ht_out \<times> ('v, 'u) hdql_ht \<times> 'u) option" where
  "ht_step (HtIns k v) ht u = do { (rc, ht, u) \<leftarrow> hdql_ht_ins ht k v u; Some (OutCode rc, ht, u) }"
| "ht_step (HtRem k) ht u = do { (rc, ht, u) \<leftarrow> hdql_ht_remove ht k u; Some (OutCode rc, ht, u) }"
| "ht_step (HtGet k) ht u = do { v \<leftarrow> hdql_ht_get ht k; Some (OutValue v, ht, u) }"

fun ht_run :: "'v ht_cmd list \<Rightarrow> ('v, 'u) hdql_ht \<Rightarrow> 'u \<Rightarrow> ('v ht_out list \<times> ('v, 'u) hdql_ht \<times> 'u) option" where
  "ht_run [] ht u = Some ([], ht, u)"
| "ht_run (c # cs) ht u = do {
     (out, ht, u) \<leftarrow> ht_step c ht u;
     (outs, ht, u) \<leftarrow> ht_run cs ht u;
     Some (out # outs, ht, u) }"

definition ht_session :: "size_t \<Rightarrow> size_t \<Rightarrow> 'v ht_cmd list \<Rightarrow> heap \<Rightarrow> ('v ht_out list option \<times> heap) option" where
  "ht_session cap seed cs h = do {
     (r, h) \<leftarrow> hdql_ht_create hdql_gHeapAllocator cap seed h;
     case r of None \<Rightarrow> Some (None, h)
     | Some ht \<Rightarrow> do {
         (outs, ht, h) \<leftarrow> ht_run cs ht h;
         h \<leftarrow> hdql_ht_destroy ht h;
         Some (Some outs, h) } }"

text \<open>What the results of the calls must be, played on a plain map.\<close>

fun map_step :: "'v ht_cmd \<Rightarrow> (bytes \<rightharpoonup> 'v option) \<Rightarrow> 'v ht_out \<Rightarrow> (bytes \<rightharpoonup> 'v option) \<Rightarrow> bool" where
  "map_step (HtIns k v) m out m' \<longleftrightarrow>
     (out = OutCode HDQL_HT_RC_INSERTED \<and> k \<notin> dom m \<and> m' = m(k \<mapsto> v)) \<or>
     (out = OutCode HDQL_HT_RC_UPDATED \<and> k \<in> dom m \<and> m' = m(k \<mapsto> v)) \<or>
     ((out = OutCode HDQL_HT_ERR_MEM \<or> out = OutCode (- 3)) \<and> m' = m)"
| "map_step (HtRem k) m out m' \<longleftrightarrow>
     out = OutCode (if k \<in> dom m then HDQL_HT_RC_OK else HDQL_HT_RC_ERR_NOENT) \<and> m' = m(k := None)"
| "map_step (HtGet k) m out m' \<longleftrightarrow>
     out = OutValue (case m k of None \<Rightarrow> None | Some v \<Rightarrow> v) \<and> m' = m"

inductive map_run :: "'v ht_cmd list \<Rightarrow> (bytes \<rightharpoonup> 'v option) \<Rightarrow> 'v ht_out list \<Rightarrow> bool" where
  map_run_Nil: "map_run [] m []"
| map_run_Cons: "map_step c m out m' \<Longrightarrow> map_run cs m' outs \<Longrightarrow> map_run (c # cs) m (out # outs)"

fun ht_cmd_ok :: "'v ht_cmd \<Rightarrow> bool" where
  "ht_cmd_ok (HtIns k v) \<longleftrightarrow> k \<noteq> [] \<and> length k < 2 ^ 31"
| "ht_cmd_ok (HtRem k) \<longleftrightarrow> length k < 2 ^ 31"
| "ht_cmd_ok (HtGet k) \<longleftrightarrow> length k < 2 ^ 31"

context allocator
begin

lemma ht_step_correct:
  assumes own: "ht_own ht u" and lim: "2 ^ 40 \<le> limit" and ok: "ht_cmd_ok c"
    and cap: "0 < ht_capacity ht" "unat (ht_size ht) < 2 ^ 30"
  shows "\<exists>out ht' u'. ht_step c ht u = Some (out, ht', u') \<and> ht_own ht' u' \<and>
    moved u (set (ht_blocks ht)) (set (ht_blocks ht')) u' \<and> map_step c (ht_map ht) out (ht_map ht') \<and>
    0 < ht_capacity ht' \<and> unat (ht_size ht') \<le> unat (ht_size ht) + 1"
proof (cases c)
  case (HtIns k v)
  then obtain rc ht' u' where r: "hdql_ht_ins ht k v u = Some (rc, ht', u')" "ht_own ht' u'"
    "moved u (set (ht_blocks ht)) (set (ht_blocks ht')) u'" "ht_ins_result rc k v ht ht'" "0 < ht_capacity ht'"
    using hdql_ht_ins_correct [OF own _ _ lim cap, of k v] ok by auto
  have "unat (ht_size ht') \<le> unat (ht_size ht) + 1"
    using r(4) cap(2) unat_add_1_64 [of "ht_size ht"] by (auto simp: ht_ins_result_def)
  moreover have "map_step c (ht_map ht) (OutCode rc) (ht_map ht')"
    using r(4) unfolding HtIns ht_ins_result_def by auto
  ultimately show ?thesis using r HtIns by auto
next
  case (HtRem k)
  obtain rc ht' u' where "hdql_ht_remove ht k u = Some (rc, ht', u')" "ht_own ht' u'"
    "moved u (set (ht_blocks ht)) (set (ht_blocks ht')) u'" "ht_map ht' = (ht_map ht)(k := None)"
    "ht_size ht' = ht_size ht" "ht_capacity ht' = ht_capacity ht"
    "rc = (if k \<in> dom (ht_map ht) then HDQL_HT_RC_OK else HDQL_HT_RC_ERR_NOENT)"
    using hdql_ht_remove_correct [OF own, of k] ok HtRem by auto
  then show ?thesis using HtRem cap(1) by auto
next
  case (HtGet k)
  then show ?thesis
    using ht_get_spec [OF ht_own_wf [OF own], of k] own cap(1) ht_ownD [OF own] ok
    by (auto intro: moved_refl)
qed

lemma ht_run_correct:
  assumes "ht_own ht u" "2 ^ 40 \<le> limit" "list_all ht_cmd_ok cs" "0 < ht_capacity ht"
    "unat (ht_size ht) + length cs \<le> 2 ^ 30"
  shows "\<exists>outs ht' u'. ht_run cs ht u = Some (outs, ht', u') \<and> ht_own ht' u' \<and>
    moved u (set (ht_blocks ht)) (set (ht_blocks ht')) u' \<and> map_run cs (ht_map ht) outs"
  using assms
proof (induction cs arbitrary: ht u)
  case Nil
  then show ?case
    using moved_refl [of u "set (ht_blocks ht)"] ht_ownD [of ht u] by (simp add: map_run_Nil)
next
  case (Cons c cs)
  have ok0: "ht_cmd_ok c" using Cons.prems(3) by simp
  have size0: "unat (ht_size ht) < 2 ^ 30" using Cons.prems(5) by simp
  obtain out h w where s: "ht_step c ht u = Some (out, h, w)" "ht_own h w"
    "moved u (set (ht_blocks ht)) (set (ht_blocks h)) w" "map_step c (ht_map ht) out (ht_map h)"
    "0 < ht_capacity h" "unat (ht_size h) \<le> unat (ht_size ht) + 1"
    using ht_step_correct [OF Cons.prems(1,2) _ Cons.prems(4) size0, of c] ok0 by blast
  have ok: "list_all ht_cmd_ok cs" using Cons.prems(3) by simp
  have bound: "unat (ht_size h) + length cs \<le> 2 ^ 30" using Cons.prems(5) s(6) by simp
  obtain outs h' w' where r: "ht_run cs h w = Some (outs, h', w')" "ht_own h' w'"
    "moved w (set (ht_blocks h)) (set (ht_blocks h')) w'" "map_run cs (ht_map h) outs"
    using Cons.IH [OF s(2) Cons.prems(2) ok s(5) bound] by blast
  have "ht_run (c # cs) ht u = Some (out # outs, h', w')" using s(1) r(1) by simp
  then show ?case using r(2) moved_trans [OF s(3) r(3)] map_run_Cons [OF s(4) r(4)] by blast
qed

end

text \<open>
  C5: A program of at most 2^30 calls that creates a table of a capacity exponent from 1 to 31
  on the C heap, inserts non-empty keys, removes and looks up keys, all shorter than 2^31 bytes,
  and destroys the table, runs to its end whatever requests for memory fail. Its results are
  those of a plain map, with the codes the code returns (a removal returns 0 for a key that was
  there and 130 for one that was not), and at the end exactly the blocks live before are live:
  nothing leaks, nothing is released twice and no other block is touched.
\<close>

theorem ht_session_spec:
  fixes cs :: "'v ht_cmd list"
  assumes "heap_wf h" "0 < cap" "unat cap < 32" "list_all ht_cmd_ok cs" "length cs \<le> 2 ^ 30"
  shows "\<exists>r h'. ht_session cap seed cs h = Some (r, h') \<and> hp_live h' = hp_live h \<and>
    (case r of None \<Rightarrow> True | Some outs \<Rightarrow> map_run cs Map.empty outs)"
proof -
  obtain r :: "('v, heap) hdql_ht option" and h1 where
    c: "hdql_ht_create hdql_gHeapAllocator cap seed h = Some (r, h1)" and
    r: "case r of None \<Rightarrow> std.moved h {} {} h1
     | Some ht \<Rightarrow> std.ht_own ht h1 \<and> std.moved h {} (set (ht_blocks ht)) h1 \<and> ht_map ht = Map.empty \<and>
         ht_capacity ht = cap \<and> ht_size ht = 0"
    using std.hdql_ht_create_correct [OF assms(1,3), of seed, where 'v = 'v]
    by (auto simp: hdql_gHeapAllocator_def)
  show ?thesis
  proof (cases r)
    case None
    then show ?thesis using c r by (simp add: ht_session_def std.moved_def)
  next
    case (Some ht)
    then have own: "std.ht_own ht h1" and mv: "std.moved h {} (set (ht_blocks ht)) h1"
      and m: "ht_map ht = Map.empty" "ht_capacity ht = cap" "ht_size ht = 0"
      using r by simp_all
    obtain outs ht' h2 where run: "ht_run cs ht h1 = Some (outs, ht', h2)" "std.ht_own ht' h2"
      "std.moved h1 (set (ht_blocks ht)) (set (ht_blocks ht')) h2" "map_run cs (ht_map ht) outs"
      using std.ht_run_correct [OF own _ assms(4)] assms(2,5) m by auto
    obtain h3 where d: "hdql_ht_destroy ht' h2 = Some h3" "std.moved h2 (set (ht_blocks ht')) {} h3"
      using std.hdql_ht_destroy_correct [OF run(2)] by blast
    have "std.moved h {} {} h3" using std.moved_trans mv run(3) d(2) by blast
    then show ?thesis
      using c Some run d m(1) by (simp add: ht_session_def std.moved_def)
  qed
qed

definition ht_cmds_sample :: "nat ht_cmd list" where
  "ht_cmds_sample = [HtIns [97] (Some 1), HtRem [97], HtGet [97]]"

lemma ht_session_spec_witness:
  "\<exists>r h'. ht_session 5 7 ht_cmds_sample heap_sample = Some (r, h') \<and> hp_live h' = {0, 1, 2}"
proof -
  have wf: "heap_wf heap_sample" using ht_sample_live by (simp add: ht_live_def)
  have cap: "(0::size_t) < 5" "unat (5::size_t) < 32" by simp_all
  have ok: "list_all ht_cmd_ok ht_cmds_sample" by (simp add: ht_cmds_sample_def)
  have len: "length ht_cmds_sample \<le> 2 ^ 30" by (simp add: ht_cmds_sample_def)
  have "hp_live heap_sample = {0, 1, 2}" by (simp add: heap_sample_def)
  then show ?thesis using ht_session_spec [OF wf cap ok len, of 7] by fastforce
qed

text \<open>
  A table created with the capacity exponent 0, which a rebuild would extend to 5, cannot be
  inserted into: the test for the extension shifts by 2^64 - 1, which is undefined.
\<close>

theorem ht_ins_capacity_0:
  assumes "hdql_ht_create a 0 seed u = Some (Some ht, u')"
  shows "hdql_ht_ins ht key v w = None"
proof -
  have "ht_capacity ht = 0"
    using assms by (auto simp: hdql_ht_create_def split: option.splits)
  moreover have "shl1u (- 1) = None"
  proof -
    have "(32::size_t) \<le> - 1" by simp
    then have "32 \<le> unat (- 1 :: size_t)" unfolding word_le_nat_alt by simp
    then show ?thesis by (rule shl1u_out)
  qed
  ultimately show ?thesis by (simp add: hdql_ht_ins_def)
qed

lemma ht_ins_capacity_0_witness:
  "\<exists>ht u'. hdql_ht_create hdql_gHeapAllocator 0 7 heap_sample = Some (Some (ht :: (nat, heap) hdql_ht), u') \<and>
    hdql_ht_ins ht [97] None u' = None"
proof -
  obtain ht u' where c: "hdql_ht_create hdql_gHeapAllocator 0 7 heap_sample =
      Some (Some (ht :: (nat, heap) hdql_ht), u')"
    by (simp add: hdql_ht_create_def hdql_gHeapAllocator_def hdql_std_malloc_def heap_malloc_def
        sizeof_hdql_ht_def sizeof_ptr_def heap_sample_def Let_def)
  then show ?thesis using ht_ins_capacity_0 [OF c, of "[97]" None u'] by blast
qed

end
