(* ===== verification/Errors.thy ===== *)
theory Errors
  imports Prelude
begin

text \<open>
  The error codes of \<open>include/hdql/errors.h\<close> and their messages, \<open>src/errors.c\<close>.
\<close>

section \<open>Codes\<close>

type_synonym hdql_Err_t = int

definition HDQL_ERR_CODE_OK :: hdql_Err_t where "HDQL_ERR_CODE_OK = 0"
definition HDQL_ERR_GENERIC :: hdql_Err_t where "HDQL_ERR_GENERIC = - 1"
definition HDQL_ERR_MEMORY :: hdql_Err_t where "HDQL_ERR_MEMORY = - 2"
definition HDQL_ERR_BAD_ARGUMENT :: hdql_Err_t where "HDQL_ERR_BAD_ARGUMENT = - 3"
definition HDQL_ERR_CONTEXT_INCOMPLETE :: hdql_Err_t where "HDQL_ERR_CONTEXT_INCOMPLETE = - 4"
definition HDQL_ERR_NAME_COLLISION :: hdql_Err_t where "HDQL_ERR_NAME_COLLISION = - 5"
definition HDQL_ERR_NO_KEY_SUPPORT :: hdql_Err_t where "HDQL_ERR_NO_KEY_SUPPORT = - 6"
definition HDQL_ERR_TRANSLATION_FAILURE :: hdql_Err_t where "HDQL_ERR_TRANSLATION_FAILURE = - 11"
definition HDQL_ERR_UNKNOWN_ATTRIBUTE :: hdql_Err_t where "HDQL_ERR_UNKNOWN_ATTRIBUTE = - 12"
definition HDQL_ERR_ATTRIBUTE :: hdql_Err_t where "HDQL_ERR_ATTRIBUTE = - 13"
definition HDQL_BAD_QUERY_EXPRESSION :: hdql_Err_t where "HDQL_BAD_QUERY_EXPRESSION = - 14"
definition HDQL_ERR_COMPOUNDS_STACK_DEPTH :: hdql_Err_t where "HDQL_ERR_COMPOUNDS_STACK_DEPTH = - 15"
definition HDQL_ERR_ATTR_FILTER :: hdql_Err_t where "HDQL_ERR_ATTR_FILTER = - 16"
definition HDQL_ERR_FILTER_RET_TYPE :: hdql_Err_t where "HDQL_ERR_FILTER_RET_TYPE = - 17"
definition HDQL_ERR_BAD_QUERY_STATE :: hdql_Err_t where "HDQL_ERR_BAD_QUERY_STATE = - 18"
definition HDQL_ERR_NOT_A_COLLECTION :: hdql_Err_t where "HDQL_ERR_NOT_A_COLLECTION = - 19"
definition HDQL_ERR_OPERATION_NOT_SUPPORTED :: hdql_Err_t where "HDQL_ERR_OPERATION_NOT_SUPPORTED = - 21"
definition HDQL_ERR_ARITH_OPERATION :: hdql_Err_t where "HDQL_ERR_ARITH_OPERATION = - 22"
definition HDQL_ARITH_ERR_ZERO_DIVISION :: hdql_Err_t where "HDQL_ARITH_ERR_ZERO_DIVISION = - 23"
definition HDQL_ARITH_ERR_NEGATIVE_SHIFT :: hdql_Err_t where "HDQL_ARITH_ERR_NEGATIVE_SHIFT = - 24"
definition HDQL_ERR_FUNC_UNKNOWN :: hdql_Err_t where "HDQL_ERR_FUNC_UNKNOWN = - 25"
definition HDQL_ERR_FUNC_CANT_INSTANTIATE :: hdql_Err_t where "HDQL_ERR_FUNC_CANT_INSTANTIATE = - 26"
definition HDQL_ERR_EMPTY_SET :: hdql_Err_t where "HDQL_ERR_EMPTY_SET = - 27"
definition HDQL_ERR_CONVERSION :: hdql_Err_t where "HDQL_ERR_CONVERSION = - 31"
definition HDQL_ERR_INTERFACE_ERROR :: hdql_Err_t where "HDQL_ERR_INTERFACE_ERROR = - 101"

lemmas err_codes = HDQL_ERR_CODE_OK_def HDQL_ERR_GENERIC_def HDQL_ERR_MEMORY_def
  HDQL_ERR_BAD_ARGUMENT_def HDQL_ERR_CONTEXT_INCOMPLETE_def HDQL_ERR_NAME_COLLISION_def
  HDQL_ERR_NO_KEY_SUPPORT_def HDQL_ERR_TRANSLATION_FAILURE_def HDQL_ERR_UNKNOWN_ATTRIBUTE_def
  HDQL_ERR_ATTRIBUTE_def HDQL_BAD_QUERY_EXPRESSION_def HDQL_ERR_COMPOUNDS_STACK_DEPTH_def
  HDQL_ERR_ATTR_FILTER_def HDQL_ERR_FILTER_RET_TYPE_def HDQL_ERR_BAD_QUERY_STATE_def
  HDQL_ERR_NOT_A_COLLECTION_def HDQL_ERR_OPERATION_NOT_SUPPORTED_def HDQL_ERR_ARITH_OPERATION_def
  HDQL_ARITH_ERR_ZERO_DIVISION_def HDQL_ARITH_ERR_NEGATIVE_SHIFT_def HDQL_ERR_FUNC_UNKNOWN_def
  HDQL_ERR_FUNC_CANT_INSTANTIATE_def HDQL_ERR_EMPTY_SET_def HDQL_ERR_CONVERSION_def
  HDQL_ERR_INTERFACE_ERROR_def

text \<open>Every code the header declares.\<close>

definition declared_codes :: "hdql_Err_t list" where
  "declared_codes =
     [HDQL_ERR_CODE_OK, HDQL_ERR_GENERIC, HDQL_ERR_MEMORY, HDQL_ERR_BAD_ARGUMENT,
      HDQL_ERR_CONTEXT_INCOMPLETE, HDQL_ERR_NAME_COLLISION, HDQL_ERR_NO_KEY_SUPPORT,
      HDQL_ERR_TRANSLATION_FAILURE, HDQL_ERR_UNKNOWN_ATTRIBUTE, HDQL_ERR_ATTRIBUTE,
      HDQL_BAD_QUERY_EXPRESSION, HDQL_ERR_COMPOUNDS_STACK_DEPTH, HDQL_ERR_ATTR_FILTER,
      HDQL_ERR_FILTER_RET_TYPE, HDQL_ERR_BAD_QUERY_STATE, HDQL_ERR_NOT_A_COLLECTION,
      HDQL_ERR_OPERATION_NOT_SUPPORTED, HDQL_ERR_ARITH_OPERATION, HDQL_ARITH_ERR_ZERO_DIVISION,
      HDQL_ARITH_ERR_NEGATIVE_SHIFT, HDQL_ERR_FUNC_UNKNOWN, HDQL_ERR_FUNC_CANT_INSTANTIATE,
      HDQL_ERR_EMPTY_SET, HDQL_ERR_CONVERSION, HDQL_ERR_INTERFACE_ERROR]"

section \<open>Messages\<close>

definition hdql_err_str :: "hdql_Err_t \<Rightarrow> string" where
  "hdql_err_str code =
     (if code = HDQL_ERR_CODE_OK then ''not an error, ok return code''
      else if code = HDQL_ERR_GENERIC then ''unspecified common error''
      else if code = HDQL_ERR_MEMORY then ''memory allocation error''
      else if code = HDQL_ERR_NAME_COLLISION then ''an entry with such name already exists''
      else if code = HDQL_ERR_NO_KEY_SUPPORT then ''dynamic data does not maintain key''
      else if code = HDQL_ERR_TRANSLATION_FAILURE then ''general parser/lexer error''
      else if code = HDQL_ERR_UNKNOWN_ATTRIBUTE then ''identifier is not known''
      else if code = HDQL_ERR_ATTRIBUTE then ''querying atomic value''
      else if code = HDQL_BAD_QUERY_EXPRESSION then ''failed to create or append query object''
      else if code = HDQL_ERR_COMPOUNDS_STACK_DEPTH then ''compounds stack depth exceed''
      else if code = HDQL_ERR_ATTR_FILTER then
        ''filter can not be applied to previous query result of type''
      else if code = HDQL_ERR_FILTER_RET_TYPE then
        ''filter query result type can not be evaluated to bool''
      else if code = HDQL_ERR_BAD_QUERY_STATE then ''query instance is on unforeseen state''
      else if code = HDQL_ERR_NOT_A_COLLECTION then ''query results in a scalar, collection expected''
      else if code = HDQL_ERR_OPERATION_NOT_SUPPORTED then ''operation is not supported''
      else if code = HDQL_ERR_ARITH_OPERATION then ''arithmetic operation error''
      else if code = HDQL_ARITH_ERR_ZERO_DIVISION then ''division by zero''
      else if code = HDQL_ARITH_ERR_NEGATIVE_SHIFT then ''negative bit shift''
      else if code = HDQL_ERR_FUNC_UNKNOWN then ''unknown function identifier''
      else if code = HDQL_ERR_FUNC_CANT_INSTANTIATE then
        ''could not instantiate function candidate for given arguments''
      else if code = HDQL_ERR_EMPTY_SET then ''operation result is an empty set''
      else if code = HDQL_ERR_CONVERSION then ''value conversion failed''
      else ''(unidentified error)'')"

text \<open>
  The codes the header declares are distinct. Of them exactly three, for a bad argument,
  an incomplete context and an interface failure, have no message of their own; the others
  have pairwise different messages.
\<close>

theorem err_str_declared:
  "distinct declared_codes \<and>
   filter (\<lambda>c. hdql_err_str c = ''(unidentified error)'') declared_codes =
     [HDQL_ERR_BAD_ARGUMENT, HDQL_ERR_CONTEXT_INCOMPLETE, HDQL_ERR_INTERFACE_ERROR] \<and>
   distinct (map hdql_err_str
     (filter (\<lambda>c. hdql_err_str c \<noteq> ''(unidentified error)'') declared_codes))"
  by (intro conjI; code_simp)

end
