(* ===== verification/Context.thy ===== *)
theory Context
  imports Allocator Errors
begin

text \<open>
  What the C code uses of an evaluation context (\<open>src/context.cc\<close>): its memory, the stack of
  reported errors and the table of value types. Only the codes of the reported errors are kept,
  not the formatted texts.
\<close>

type_synonym hdql_ValueTypeCode_t = "13 word"

record hdql_ValueInterface =
  vi_name :: string
  vi_size :: nat

type_synonym hdql_ValueTypes = "hdql_ValueTypeCode_t \<Rightarrow> hdql_ValueInterface option"

record hdql_Context =
  cx_heap :: heap
  cx_errors :: "hdql_Err_t list"
  cx_types :: "hdql_ValueTypes option"

definition hdql_context_err_push :: "hdql_Err_t \<Rightarrow> hdql_Context \<Rightarrow> hdql_Context" where
  "hdql_context_err_push code c = c\<lparr>cx_errors := cx_errors c @ [code]\<rparr>"

definition ctx_alloc :: "hdql_Context \<Rightarrow> addr option \<times> hdql_Context" where
  "ctx_alloc c = (let (p, h) = hdql_context_alloc (cx_heap c) 0 in (p, c\<lparr>cx_heap := h\<rparr>))"

definition ctx_free :: "addr option \<Rightarrow> hdql_Context \<Rightarrow> hdql_Context option" where
  "ctx_free p c = do { h \<leftarrow> hdql_context_free (cx_heap c) p; Some (c\<lparr>cx_heap := h\<rparr>) }"

definition ctx_live :: "hdql_Context \<Rightarrow> addr set" where
  "ctx_live c = hp_live (cx_heap c)"

definition ctx_wf :: "hdql_Context \<Rightarrow> bool" where
  "ctx_wf c = heap_wf (cx_heap c)"

text \<open>The context's memory is an allocator in the sense of the allocator contract.\<close>

lemma ctx_alloc_malloc:
  "ctx_alloc c = (fst (heap_malloc (cx_heap c)), c\<lparr>cx_heap := snd (heap_malloc (cx_heap c))\<rparr>)"
  by (simp add: ctx_alloc_def hdql_context_alloc_def split_beta Let_def)

lemma ctx_err_push_simps [simp]:
  "cx_heap (hdql_context_err_push e c) = cx_heap c"
  "cx_types (hdql_context_err_push e c) = cx_types c"
  "cx_errors (hdql_context_err_push e c) = cx_errors c @ [e]"
  "ctx_live (hdql_context_err_push e c) = ctx_live c"
  "ctx_wf (hdql_context_err_push e c) = ctx_wf c"
  by (simp_all add: hdql_context_err_push_def ctx_live_def ctx_wf_def)

lemma ctx_alloc_types [simp]: "ctx_alloc c = (p, c') \<Longrightarrow> cx_types c' = cx_types c"
  by (auto simp: ctx_alloc_malloc)

lemma ctx_free_types [simp]: "ctx_free p c = Some c' \<Longrightarrow> cx_types c' = cx_types c"
  by (auto simp: ctx_free_def)

lemma ctx_free_null [simp]: "ctx_free None c = Some c"
  by (simp add: ctx_free_def hdql_context_free_def)

lemma ctx_alloc_heap: "ctx_alloc c = (r, c') \<Longrightarrow> heap_malloc (cx_heap c) = (r, cx_heap c')"
  by (auto simp: ctx_alloc_malloc prod_eq_iff)

interpretation cx: allocator "\<lambda>sz c. Some (ctx_alloc c)" ctx_live ctx_wf "2 ^ 64" ctx_free True
proof unfold_locales
  fix c c' and sz :: size_t and r
  assume "ctx_wf c" "Some (ctx_alloc c) = Some (r, c')"
  then show "ctx_wf c'" unfolding ctx_wf_def option.inject by (rule heap_malloc_wf [OF _ ctx_alloc_heap])
next
  fix c c' and sz :: size_t and p
  assume "ctx_wf c" "Some (ctx_alloc c) = Some (Some p, c')"
  then have "p \<notin> ctx_live c \<and> ctx_live c' = insert p (ctx_live c)"
    unfolding ctx_wf_def ctx_live_def option.inject by (rule heap_malloc_fresh [OF _ ctx_alloc_heap])
  then show "p \<notin> ctx_live c \<and> insert p (ctx_live c) \<subseteq> ctx_live c'"
    and "ctx_live c' = insert p (ctx_live c)" by simp_all
next
  fix c c' and sz :: size_t
  assume "Some (ctx_alloc c) = Some (None, c')"
  then show "ctx_live c' = ctx_live c"
    unfolding ctx_live_def option.inject by (rule heap_malloc_null [OF ctx_alloc_heap])
next
  fix c p
  assume c: "ctx_wf c" "p \<in> ctx_live c"
  let ?h = "cx_heap c\<lparr>hp_live := hp_live (cx_heap c) - {p}\<rparr>"
  have f: "heap_free (Some p) (cx_heap c) = Some ?h"
    using c(2) by (simp add: heap_free_live ctx_live_def)
  have "heap_wf ?h" using heap_free_wf [OF _ f] c(1) by (simp add: ctx_wf_def)
  then show "\<exists>c'. ctx_free (Some p) c = Some c' \<and> ctx_wf c' \<and> ctx_live c - {p} \<subseteq> ctx_live c' \<and>
      (True \<longrightarrow> ctx_live c' = ctx_live c - {p})"
    using f by (simp add: ctx_free_def hdql_context_free_def ctx_wf_def ctx_live_def)
qed (auto simp: ctx_alloc_malloc)

end
