(* ===== verification/ContextData.thy ===== *)
theory ContextData
  imports Context
begin

text \<open>
  The data of variable size of a context (\<open>src/context.cc\<close>): blocks of its memory with the numbers of bytes
  used and allocated, in a table by the address. Whether \<open>realloc\<close> of a block can stay in place is a
  parameter; a block that moves gets a new address, and the old one is released.
\<close>

record VariadicDatumInfo =
  nUsedBytes :: u32
  nAllocatedBytes :: u32

record variadic_context =
  vc_ctx :: hdql_Context
  variadicDataSizes :: "addr \<rightharpoonup> VariadicDatumInfo"

definition vc_error :: "variadic_context \<Rightarrow> variadic_context" where
  "vc_error v = v\<lparr>vc_ctx := hdql_context_err_push HDQL_ERR_MEMORY (vc_ctx v)\<rparr>"

text \<open>\<open>emplace\<close>, and what is done when the address is taken.\<close>

definition vc_emplace :: "addr \<Rightarrow> VariadicDatumInfo \<Rightarrow> variadic_context \<Rightarrow> (addr option \<times> variadic_context) option" where
  "vc_emplace p i v = (if variadicDataSizes v p = None
     then Some (Some p, v\<lparr>variadicDataSizes := (variadicDataSizes v)(p \<mapsto> i)\<rparr>)
     else do {
       let v = vc_error v;
       c \<leftarrow> ctx_free (Some p) (vc_ctx v);
       Some (None, v\<lparr>vc_ctx := c\<rparr>) })"

definition hdql_context_variadic_datum_alloc ::
  "variadic_context \<Rightarrow> u32 \<Rightarrow> u32 \<Rightarrow> (addr option \<times> variadic_context) option" where
  "hdql_context_variadic_datum_alloc v usedSize preallocSize =
     (if preallocSize = 0 then Some (None, vc_error v)
      else (case ctx_alloc (vc_ctx v) of
          (None, c) \<Rightarrow> Some (None, vc_error (v\<lparr>vc_ctx := c\<rparr>))
        | (Some p, c) \<Rightarrow> vc_emplace p \<lparr>nUsedBytes = usedSize, nAllocatedBytes = preallocSize\<rparr> (v\<lparr>vc_ctx := c\<rparr>)))"

definition hdql_context_variadic_datum_size :: "variadic_context \<Rightarrow> addr \<Rightarrow> u32" where
  "hdql_context_variadic_datum_size v p = (case variadicDataSizes v p of None \<Rightarrow> - 1 | Some i \<Rightarrow> nUsedBytes i)"

definition c_realloc :: "(addr \<Rightarrow> u32 \<Rightarrow> bool) \<Rightarrow> addr \<Rightarrow> u32 \<Rightarrow> hdql_Context \<Rightarrow> (addr option \<times> hdql_Context) option" where
  "c_realloc in_place p sz c =
     (if p \<notin> ctx_live c then None
      else if in_place p sz then Some (Some p, c)
      else (case ctx_alloc c of
          (None, c) \<Rightarrow> Some (None, c)
        | (Some q, c) \<Rightarrow> do { c \<leftarrow> ctx_free (Some p) c; Some (Some q, c) }))"

definition hdql_context_variadic_datum_realloc ::
  "(addr \<Rightarrow> u32 \<Rightarrow> bool) \<Rightarrow> variadic_context \<Rightarrow> addr option \<Rightarrow> u32 \<Rightarrow> (addr option \<times> variadic_context) option" where
  "hdql_context_variadic_datum_realloc in_place v datum sz = do {
     p \<leftarrow> datum;
     c_assert (sz \<noteq> 0);
     i \<leftarrow> variadicDataSizes v p;
     if nAllocatedBytes i \<ge> sz
     then Some (Some p, v\<lparr>variadicDataSizes := (variadicDataSizes v)(p \<mapsto> i\<lparr>nUsedBytes := sz\<rparr>)\<rparr>)
     else do {
       (newData, c) \<leftarrow> c_realloc in_place p sz (vc_ctx v);
       let v = v\<lparr>vc_ctx := c\<rparr>;
       case newData of
         None \<Rightarrow> Some (None, vc_error v)
       | Some q \<Rightarrow>
           if q = p
           then Some (Some p, v\<lparr>variadicDataSizes := (variadicDataSizes v)(p \<mapsto> \<lparr>nUsedBytes = sz, nAllocatedBytes = sz\<rparr>)\<rparr>)
           else vc_emplace q \<lparr>nUsedBytes = sz, nAllocatedBytes = sz\<rparr>
             (v\<lparr>variadicDataSizes := (variadicDataSizes v)(p := None)\<rparr>) } }"

definition hdql_context_variadic_datum_free :: "variadic_context \<Rightarrow> addr \<Rightarrow> variadic_context option" where
  "hdql_context_variadic_datum_free v p = (case variadicDataSizes v p of
     None \<Rightarrow> Some v
   | Some i \<Rightarrow> do {
       c \<leftarrow> ctx_free (Some p) (vc_ctx v);
       Some (v\<lparr>vc_ctx := c, variadicDataSizes := (variadicDataSizes v)(p := None)\<rparr>) })"

section \<open>The invariant\<close>

text \<open>What is in the table is allocated.\<close>

definition vc_ok :: "variadic_context \<Rightarrow> bool" where
  "vc_ok v \<longleftrightarrow> ctx_wf (vc_ctx v) \<and> dom (variadicDataSizes v) \<subseteq> ctx_live (vc_ctx v)"

text \<open>The blocks that are not in the table: those of others.\<close>

definition vc_foreign :: "variadic_context \<Rightarrow> addr set" where
  "vc_foreign v = ctx_live (vc_ctx v) - dom (variadicDataSizes v)"

lemma vc_error_simps [simp]:
  "variadicDataSizes (vc_error v) = variadicDataSizes v" "vc_ok (vc_error v) = vc_ok v" "vc_foreign (vc_error v) = vc_foreign v"
  by (simp_all add: vc_error_def vc_ok_def vc_foreign_def)

lemma ctx_free_live: "p \<in> ctx_live c \<Longrightarrow> \<exists>c'. ctx_free (Some p) c = Some c' \<and> ctx_live c' = ctx_live c - {p} \<and> (ctx_wf c \<longrightarrow> ctx_wf c')"
  by (auto simp: ctx_free_def hdql_context_free_def heap_free_def ctx_live_def ctx_wf_def heap_wf_def)

lemma ctx_alloc_cases:
  assumes "ctx_wf c"
  obtains (null) c' where "ctx_alloc c = (None, c')" "ctx_wf c'" "ctx_live c' = ctx_live c"
    | (block) p c' where "ctx_alloc c = (Some p, c')" "ctx_wf c'" "p \<notin> ctx_live c" "ctx_live c' = insert p (ctx_live c)"
proof -
  obtain r h where "heap_malloc (cx_heap c) = (r, h)" by (cases "heap_malloc (cx_heap c)")
  note m = this
  have wf: "heap_wf (cx_heap c)" using assms by (simp add: ctx_wf_def)
  have alloc: "ctx_alloc c = (r, c\<lparr>cx_heap := h\<rparr>)" "ctx_wf (c\<lparr>cx_heap := h\<rparr>)"
    using m heap_malloc_wf [OF wf m] by (simp_all add: ctx_alloc_malloc ctx_wf_def)
  show thesis
  proof (cases r)
    case None
    then show thesis using null alloc heap_malloc_null m by (auto simp: ctx_live_def)
  next
    case (Some p)
    then show thesis using block alloc heap_malloc_fresh [OF wf] m by (auto simp: ctx_live_def)
  qed
qed

section \<open>The operations\<close>

lemma variadic_alloc:
  assumes "vc_ok v"
  shows "\<exists>r v'. hdql_context_variadic_datum_alloc v used prealloc = Some (r, v') \<and> vc_ok v' \<and> vc_foreign v' = vc_foreign v \<and>
      (case r of None \<Rightarrow> variadicDataSizes v' = variadicDataSizes v
       | Some p \<Rightarrow> p \<notin> ctx_live (vc_ctx v) \<and>
           variadicDataSizes v' = (variadicDataSizes v)(p \<mapsto> \<lparr>nUsedBytes = used, nAllocatedBytes = prealloc\<rparr>))"
proof (cases "prealloc = 0")
  case True
  then show ?thesis using assms by (simp add: hdql_context_variadic_datum_alloc_def)
next
  case False
  have wf: "ctx_wf (vc_ctx v)" and dom: "dom (variadicDataSizes v) \<subseteq> ctx_live (vc_ctx v)" using assms by (simp_all add: vc_ok_def)
  show ?thesis
  proof (cases rule: ctx_alloc_cases [OF wf])
    case (1 c')
    then show ?thesis using False dom by (simp add: hdql_context_variadic_datum_alloc_def) (simp add: vc_ok_def vc_foreign_def)
  next
    case (2 p c')
    then have "variadicDataSizes v p = None" using dom by auto
    then show ?thesis using 2 False dom
      by (simp add: hdql_context_variadic_datum_alloc_def vc_emplace_def) (auto simp: vc_ok_def vc_foreign_def)
  qed
qed

lemma variadic_free:
  assumes "vc_ok v"
  shows "\<exists>v'. hdql_context_variadic_datum_free v p = Some v' \<and> vc_ok v' \<and> vc_foreign v' = vc_foreign v \<and>
      variadicDataSizes v' = (variadicDataSizes v)(p := None)"
proof (cases "variadicDataSizes v p")
  case None
  then show ?thesis using assms by (auto simp: hdql_context_variadic_datum_free_def)
next
  case (Some i)
  then have "p \<in> ctx_live (vc_ctx v)" using assms by (auto simp: vc_ok_def)
  from ctx_free_live [OF this] obtain c' where c': "ctx_free (Some p) (vc_ctx v) = Some c'" "ctx_live c' = ctx_live (vc_ctx v) - {p}"
    "ctx_wf c'" using assms by (auto simp: vc_ok_def)
  have "dom (variadicDataSizes v) \<subseteq> ctx_live (vc_ctx v)" using assms by (simp add: vc_ok_def)
  then show ?thesis using Some c'
    by (simp add: hdql_context_variadic_datum_free_def) (auto simp: vc_ok_def vc_foreign_def)
qed

lemma variadic_realloc:
  assumes "vc_ok v" "p \<in> dom (variadicDataSizes v)" "sz \<noteq> 0"
  shows "\<exists>r v'. hdql_context_variadic_datum_realloc in_place v (Some p) sz = Some (r, v') \<and> vc_ok v' \<and> vc_foreign v' = vc_foreign v \<and>
      (case r of None \<Rightarrow> variadicDataSizes v' = variadicDataSizes v
       | Some q \<Rightarrow> hdql_context_variadic_datum_size v' q = sz \<and> (q = p \<or> q \<notin> ctx_live (vc_ctx v) \<and> p \<notin> ctx_live (vc_ctx v')) \<and>
           (\<forall>x. x \<noteq> p \<longrightarrow> x \<noteq> q \<longrightarrow> variadicDataSizes v' x = variadicDataSizes v x))"
proof -
  have wf: "ctx_wf (vc_ctx v)" and dom: "dom (variadicDataSizes v) \<subseteq> ctx_live (vc_ctx v)" using assms by (simp_all add: vc_ok_def)
  obtain i where i: "variadicDataSizes v p = Some i" using assms(2) by auto
  have live: "p \<in> ctx_live (vc_ctx v)" using dom assms(2) by auto
  note realloc = hdql_context_variadic_datum_realloc_def c_realloc_def i live assms(3)
  note sizes = hdql_context_variadic_datum_size_def vc_ok_def vc_foreign_def
  consider (fits) "nAllocatedBytes i \<ge> sz" | (stays) "\<not> nAllocatedBytes i \<ge> sz" "in_place p sz"
    | (moves) "\<not> nAllocatedBytes i \<ge> sz" "\<not> in_place p sz" by blast
  then show ?thesis
  proof cases
    case fits
    then have "hdql_context_variadic_datum_realloc in_place v (Some p) sz =
        Some (Some p, v\<lparr>variadicDataSizes := (variadicDataSizes v)(p \<mapsto> i\<lparr>nUsedBytes := sz\<rparr>)\<rparr>)" by (simp add: realloc)
    then show ?thesis using wf dom live i by (auto simp: sizes)
  next
    case stays
    then have "hdql_context_variadic_datum_realloc in_place v (Some p) sz =
        Some (Some p, v\<lparr>variadicDataSizes := (variadicDataSizes v)(p \<mapsto> \<lparr>nUsedBytes = sz, nAllocatedBytes = sz\<rparr>)\<rparr>)" by (simp add: realloc)
    then show ?thesis using wf dom live i by (auto simp: sizes)
  next
    case moves
    show ?thesis
    proof (cases rule: ctx_alloc_cases [OF wf])
      case (1 c')
      then show ?thesis using moves dom by (simp add: realloc) (simp add: sizes)
    next
      case (2 q c')
      then have q: "variadicDataSizes v q = None" "q \<noteq> p" using dom live by auto
      obtain c2 where c2: "ctx_free (Some p) c' = Some c2" "ctx_live c2 = ctx_live c' - {p}" "ctx_wf c2"
        using ctx_free_live [of p c'] 2 live by auto
      let ?v = "v\<lparr>vc_ctx := c2, variadicDataSizes := (variadicDataSizes v)(p := None, q \<mapsto> \<lparr>nUsedBytes = sz, nAllocatedBytes = sz\<rparr>)\<rparr>"
      have "hdql_context_variadic_datum_realloc in_place v (Some p) sz = Some (Some q, ?v)"
        using moves 2 q c2 by (simp add: realloc vc_emplace_def)
      then show ?thesis using 2 q c2 dom live i by (auto simp: sizes)
    qed
  qed
qed

section \<open>What a client can reach\<close>

inductive vc_reach :: "(addr \<Rightarrow> u32 \<Rightarrow> bool) \<Rightarrow> variadic_context \<Rightarrow> variadic_context \<Rightarrow> bool" for in_place v0 where
  vc_start: "vc_reach in_place v0 v0"
| vc_alloc: "vc_reach in_place v0 v \<Longrightarrow> hdql_context_variadic_datum_alloc v used prealloc = Some (r, v') \<Longrightarrow> vc_reach in_place v0 v'"
| vc_realloc: "vc_reach in_place v0 v \<Longrightarrow> p \<in> dom (variadicDataSizes v) \<Longrightarrow> sz \<noteq> 0 \<Longrightarrow>
    hdql_context_variadic_datum_realloc in_place v (Some p) sz = Some (r, v') \<Longrightarrow> vc_reach in_place v0 v'"
| vc_free: "vc_reach in_place v0 v \<Longrightarrow> hdql_context_variadic_datum_free v p = Some v' \<Longrightarrow> vc_reach in_place v0 v'"

text \<open>
  C34: However a client allocates, resizes and frees data of variable size, with allocations failing and
  blocks moving as they may, every datum of the table stays allocated, no block of others is touched, and
  no call stops the program: a new datum is a fresh block of the sizes asked for or null, a resized one has
  the new size, or is null with the table as it was.
\<close>

theorem variadic_reachable:
  assumes "vc_reach in_place v0 v" "vc_ok v0"
  shows "vc_ok v \<and> vc_foreign v = vc_foreign v0 \<and>
    (\<forall>used prealloc. \<exists>r v'. hdql_context_variadic_datum_alloc v used prealloc = Some (r, v') \<and>
      variadicDataSizes v' = (case r of None \<Rightarrow> variadicDataSizes v
        | Some p \<Rightarrow> (variadicDataSizes v)(p \<mapsto> \<lparr>nUsedBytes = used, nAllocatedBytes = prealloc\<rparr>))) \<and>
    (\<forall>p sz. p \<in> dom (variadicDataSizes v) \<and> sz \<noteq> 0 \<longrightarrow> (\<exists>r v'. hdql_context_variadic_datum_realloc in_place v (Some p) sz = Some (r, v') \<and>
      (case r of None \<Rightarrow> variadicDataSizes v' = variadicDataSizes v | Some q \<Rightarrow> hdql_context_variadic_datum_size v' q = sz))) \<and>
    (\<forall>p. \<exists>v'. hdql_context_variadic_datum_free v p = Some v' \<and> variadicDataSizes v' = (variadicDataSizes v)(p := None))"
proof -
  have inv: "vc_ok v \<and> vc_foreign v = vc_foreign v0"
    using assms
  proof (induction rule: vc_reach.induct)
    case (vc_alloc v used prealloc r v')
    then show ?case using variadic_alloc [of v used prealloc] by auto
  next
    case (vc_realloc v p sz r v')
    then show ?case using variadic_realloc [of v p sz in_place] by auto
  next
    case (vc_free v p v')
    then show ?case using variadic_free [of v p] by auto
  qed simp
  then have ok: "vc_ok v" by simp
  have "\<exists>r v'. hdql_context_variadic_datum_alloc v used prealloc = Some (r, v') \<and>
      variadicDataSizes v' = (case r of None \<Rightarrow> variadicDataSizes v
        | Some p \<Rightarrow> (variadicDataSizes v)(p \<mapsto> \<lparr>nUsedBytes = used, nAllocatedBytes = prealloc\<rparr>))" for used prealloc
    using variadic_alloc [OF ok, of used prealloc] by (auto split: option.splits)
  moreover have "\<exists>r v'. hdql_context_variadic_datum_realloc in_place v (Some p) sz = Some (r, v') \<and>
      (case r of None \<Rightarrow> variadicDataSizes v' = variadicDataSizes v | Some q \<Rightarrow> hdql_context_variadic_datum_size v' q = sz)"
    if "p \<in> dom (variadicDataSizes v)" "sz \<noteq> 0" for p sz
  proof -
    note resize = variadic_realloc [OF ok that, of in_place]
    obtain r v' where "hdql_context_variadic_datum_realloc in_place v (Some p) sz = Some (r, v')"
      "case r of None \<Rightarrow> variadicDataSizes v' = variadicDataSizes v
       | Some q \<Rightarrow> hdql_context_variadic_datum_size v' q = sz \<and> (q = p \<or> q \<notin> ctx_live (vc_ctx v) \<and> p \<notin> ctx_live (vc_ctx v')) \<and>
           (\<forall>x. x \<noteq> p \<longrightarrow> x \<noteq> q \<longrightarrow> variadicDataSizes v' x = variadicDataSizes v x)"
      using resize by blast
    then show ?thesis by (intro exI [of _ r] exI [of _ v']) (simp split: option.splits)
  qed
  moreover have "\<exists>v'. hdql_context_variadic_datum_free v p = Some v' \<and> variadicDataSizes v' = (variadicDataSizes v)(p := None)" for p
    using variadic_free [OF ok, of p] by auto
  ultimately show ?thesis using inv by blast
qed

text \<open>A datum of 8 bytes that needs 16 and moves, in a memory with a block of others.\<close>

definition vc_sample :: variadic_context where
  "vc_sample = \<lparr>vc_ctx = \<lparr>cx_heap = \<lparr>hp_next = 6, hp_live = {4, 5}, hp_oom = (\<lambda>_. False)\<rparr>, cx_errors = [], cx_types = None\<rparr>,
     variadicDataSizes = [5 \<mapsto> \<lparr>nUsedBytes = 8, nAllocatedBytes = 8\<rparr>]\<rparr>"

lemma variadic_reachable_witness:
  "\<exists>v. hdql_context_variadic_datum_realloc (\<lambda>_ _. False) vc_sample (Some 5) 16 = Some (Some 6, v) \<and>
    vc_ok v \<and> vc_foreign v = {4} \<and> hdql_context_variadic_datum_size v 6 = 16 \<and> hdql_context_variadic_datum_size v 5 = - 1"
proof -
  let ?r = "hdql_context_variadic_datum_realloc (\<lambda>_ _. False) vc_sample (Some 5) 16"
  have ok: "vc_ok vc_sample" by (auto simp: vc_sample_def vc_ok_def ctx_wf_def heap_wf_def ctx_live_def)
  have foreign: "vc_foreign vc_sample = {4}" by (auto simp: vc_sample_def vc_foreign_def ctx_live_def)
  obtain v where v: "?r = Some (Some 6, v)" "hdql_context_variadic_datum_size v 6 = 16" "hdql_context_variadic_datum_size v 5 = - 1"
    by (simp add: vc_sample_def hdql_context_variadic_datum_realloc_def c_realloc_def ctx_live_def ctx_alloc_malloc heap_malloc_def
      ctx_free_def hdql_context_free_def heap_free_def vc_emplace_def hdql_context_variadic_datum_size_def)
  have "vc_reach (\<lambda>_ _. False) vc_sample v"
    by (rule vc_realloc [OF vc_start _ _ v(1)]) (simp_all add: vc_sample_def)
  then show ?thesis using variadic_reachable [of "\<lambda>_ _. False" vc_sample v] ok foreign v by simp
qed

end
