(* ===== verification/RandGen.thy ===== *)
theory RandGen
  imports Pcg32 Context
begin

text \<open>
  The random generator of a context (\<open>src/random.c\<close>): a generator with a parent forwards to it. The
  states of the PCG32 generators are in a store by their address, as generators share them; a state
  that was not seeded is whatever is at the address.
\<close>

datatype hdql_RandGen = RandGen (rg_addr: addr) (rg_parent: "hdql_RandGen option") (rg_pcg32gen: "addr option")

type_synonym pcg_store = "addr \<Rightarrow> hdql_PCG32"

fun hdql_rand_seed :: "hdql_RandGen \<Rightarrow> u64 \<Rightarrow> u64 \<Rightarrow> pcg_store \<Rightarrow> pcg_store option" where
  "hdql_rand_seed (RandGen a parent gen) seed sq st = (case parent of
     Some p \<Rightarrow> hdql_rand_seed p seed sq st
   | None \<Rightarrow> do { g \<leftarrow> gen; Some (st(g := hdql_rand_pcg32_seed (st g) seed sq)) })"

text \<open>The number drawn is returned as a \<open>bool\<close>.\<close>

fun hdql_randgen_below :: "hdql_RandGen \<Rightarrow> u64 \<Rightarrow> pcg_store \<Rightarrow> (bool \<times> pcg_store) option" where
  "hdql_randgen_below (RandGen a parent gen) v st = (case parent of
     Some p \<Rightarrow> hdql_randgen_below p v st
   | None \<Rightarrow> do {
       g \<leftarrow> gen;
       (r, s) \<leftarrow> hdql_rand_pcg32_uint64_below (st g) v;
       Some (r \<noteq> 0, st(g := s)) })"

text \<open>The second allocation is not checked, and the state is not seeded.\<close>

definition hdql_randgen_create :: "hdql_RandGen option \<Rightarrow> hdql_Context \<Rightarrow> hdql_RandGen option \<times> hdql_Context" where
  "hdql_randgen_create rgParent c = (case ctx_alloc c of
     (None, c) \<Rightarrow> (None, c)
   | (Some rg, c) \<Rightarrow>
       if rgParent \<noteq> None then (Some (RandGen rg rgParent None), c)
       else (let (g, c) = ctx_alloc c in (Some (RandGen rg None g), c)))"

definition hdql_randgen_destroy :: "hdql_RandGen \<Rightarrow> hdql_Context \<Rightarrow> hdql_Context option" where
  "hdql_randgen_destroy rg c = do {
     c \<leftarrow> ctx_free (rg_pcg32gen rg) c;
     ctx_free (Some (rg_addr rg)) c }"

text \<open>All generators below one share its state.\<close>

fun rg_root :: "hdql_RandGen \<Rightarrow> hdql_RandGen" where
  "rg_root (RandGen a parent gen) = (case parent of Some p \<Rightarrow> rg_root p | None \<Rightarrow> RandGen a parent gen)"

lemma randgen_forwards:
  "hdql_rand_seed rg seed sq st = hdql_rand_seed (rg_root rg) seed sq st"
  "hdql_randgen_below rg v st = hdql_randgen_below (rg_root rg) v st"
  by (induction rg rule: rg_root.induct) (auto split: option.splits)

lemma rg_root_parent: "rg_parent (rg_root rg) = None"
  by (induction rg rule: rg_root.induct) (auto split: option.splits)

text \<open>Seeding through one generator of a family determines what another draws.\<close>

lemma randgen_shared:
  assumes "rg_root rg1 = rg_root rg2" "rg_pcg32gen (rg_root rg1) = Some g"
  shows "\<exists>st'. hdql_rand_seed rg1 seed sq st = Some st' \<and>
    hdql_randgen_below rg2 v st' = map_option (\<lambda>(r, s). (r \<noteq> 0, st(g := s)))
      (hdql_rand_pcg32_uint64_below (hdql_rand_pcg32_seed (st g) seed sq) v)"
proof -
  obtain a where "rg_root rg1 = RandGen a None (Some g)" using rg_root_parent [of rg1] assms(2) by (cases "rg_root rg1") auto
  then show ?thesis
    using randgen_forwards [of rg1] randgen_forwards [of rg2] assms(1)
    by (auto split: option.splits simp: map_option_case bind_split fun_upd_def split: bind_splits)
qed

lemma randgen_create_destroy:
  assumes "ctx_wf c" "hdql_randgen_create parent c = (Some rg, c')"
  shows "map_option ctx_live (hdql_randgen_destroy rg c') = Some (ctx_live c)"
proof -
  have free: "ctx_free (Some a) c = Some (c\<lparr>cx_heap := (cx_heap c)\<lparr>hp_live := ctx_live c - {a}\<rparr>\<rparr>)" if "a \<in> ctx_live c" for a c
    using that by (simp add: ctx_free_def hdql_context_free_def heap_free_def ctx_live_def)
  have fresh: "hp_next (cx_heap c) \<notin> ctx_live c" "Suc (hp_next (cx_heap c)) \<notin> ctx_live c"
    using assms(1) by (auto simp: ctx_wf_def heap_wf_def ctx_live_def)
  have live: "ctx_live (c\<lparr>cx_heap := h\<rparr>) = hp_live h" for c h by (simp add: ctx_live_def)
  show ?thesis
    using assms(2) fresh
    by (auto simp: hdql_randgen_create_def hdql_randgen_destroy_def ctx_alloc_malloc heap_malloc_def Let_def free live
        ctx_live_def [symmetric] simp del: map_option_eq_Some bind_eq_Some_conv split: if_splits)
qed

end
