(* ===== verification/Keys.thy ===== *)
theory Keys
  imports Context
begin

text \<open>
  The collection keys of \<open>src/query-key.c\<close>: plain (empty or datum) keys, lists and unions, with
  their construction, traversal, flat view, copying and destruction. (Reserving keys for a
  query is in the theory of attribute definitions.)

  A key in an array is a value of type \<open>'v hdql_Key\<close>; an array of keys is a list, whose block
  has an address. The array does not know its length: the last key is the one flagged
  \<open>isTerminal\<close>, and walking past the allocated keys is undefined. The payload is a union; a
  payload read as the wrong member is undefined. \<open>'v\<close> is the contents of a key's datum.
\<close>

section \<open>Data\<close>

definition KEY_PL_TYPE_PLAIN :: nat where "KEY_PL_TYPE_PLAIN = 0"
definition KEY_PL_TYPE_LIST :: nat where "KEY_PL_TYPE_LIST = 1"
definition KEY_PL_TYPE_UNION :: nat where "KEY_PL_TYPE_UNION = 2"

lemmas key_types = KEY_PL_TYPE_PLAIN_def KEY_PL_TYPE_LIST_def KEY_PL_TYPE_UNION_def

datatype ('v, 'k) key_payload = PlNull | PlDatum addr 'v | PlKeys addr "'k list"

datatype 'v hdql_Key = Key
  (k_code: hdql_ValueTypeCode_t) (k_plType: nat) (k_isTerminal: bool)
  (k_pl: "('v, 'v hdql_Key) key_payload") (k_label: "bytes option")

fun k_set_pl :: "('v, 'v hdql_Key) key_payload \<Rightarrow> 'v hdql_Key \<Rightarrow> 'v hdql_Key" where
  "k_set_pl p (Key c ty t _ l) = Key c ty t p l"

fun k_set_terminal :: "bool \<Rightarrow> 'v hdql_Key \<Rightarrow> 'v hdql_Key" where
  "k_set_terminal t (Key c ty _ p l) = Key c ty t p l"

text \<open>The address a payload holds, whatever the member.\<close>

fun pl_addr :: "('v, 'k) key_payload \<Rightarrow> addr option" where
  "pl_addr PlNull = None"
| "pl_addr (PlDatum a _) = Some a"
| "pl_addr (PlKeys a _) = Some a"

text \<open>The array of keys a payload refers to.\<close>

fun pl_keys :: "('v, 'k) key_payload \<Rightarrow> 'k list option" where
  "pl_keys (PlKeys a ks) = Some ks"
| "pl_keys _ = None"

section \<open>Plain keys\<close>

definition hdql_key_is_empty :: "'v hdql_Key \<Rightarrow> bool" where
  "hdql_key_is_empty k \<longleftrightarrow> k_plType k = KEY_PL_TYPE_PLAIN \<and> k_code k = 0"

definition hdql_key_mark_empty :: "'v hdql_Key" where
  "hdql_key_mark_empty = Key 0 0 False PlNull None"

definition hdql_key_new :: "hdql_Context \<Rightarrow> ((addr \<times> 'v hdql_Key) \<times> hdql_Context) option" where
  "hdql_key_new c = (let (p, c) = ctx_alloc c in do { a \<leftarrow> p; Some ((a, hdql_key_mark_empty), c) })"

fun hdql_key_set_label :: "'v hdql_Key \<Rightarrow> bytes option \<Rightarrow> 'v hdql_Key" where
  "hdql_key_set_label (Key c ty t p _) l = Key c ty t p l"

definition hdql_key_is_labeled :: "'v hdql_Key \<Rightarrow> bool" where
  "hdql_key_is_labeled k \<longleftrightarrow> k_label k \<noteq> None"

definition hdql_key_get_label :: "'v hdql_Key \<Rightarrow> bytes option" where
  "hdql_key_get_label k = k_label k"

definition hdql_key_is_datum :: "'v hdql_Key \<Rightarrow> bool" where
  "hdql_key_is_datum k \<longleftrightarrow> k_plType k = KEY_PL_TYPE_PLAIN \<and> k_code k \<noteq> 0"

definition hdql_key_set_datum ::
  "'v hdql_Key \<Rightarrow> hdql_ValueTypeCode_t \<Rightarrow> (addr \<times> 'v) option \<Rightarrow> 'v hdql_Key option" where
  "hdql_key_set_datum k tc d = do {
     c_assert (k_plType k = KEY_PL_TYPE_PLAIN);
     c_assert (k_code k = 0 \<or> k_code k = tc);
     Some (Key tc (k_plType k) (k_isTerminal k)
            (case d of None \<Rightarrow> PlNull | Some (a, v) \<Rightarrow> PlDatum a v) (k_label k)) }"

definition hdql_key_datum_get_type_code :: "'v hdql_Key \<Rightarrow> hdql_ValueTypeCode_t option" where
  "hdql_key_datum_get_type_code k = do {
     c_assert (k_plType k = KEY_PL_TYPE_PLAIN);
     c_assert (k_code k \<noteq> 0);
     Some (k_code k) }"

definition hdql_key_datum_get :: "'v hdql_Key \<Rightarrow> (addr \<times> 'v) option option" where
  "hdql_key_datum_get k = do {
     c_assert (k_plType k = KEY_PL_TYPE_PLAIN);
     case k_pl k of PlNull \<Rightarrow> Some None | PlDatum a v \<Rightarrow> Some (Some (a, v)) | PlKeys _ _ \<Rightarrow> None }"

section \<open>Lists\<close>

definition hdql_key_is_list :: "'v hdql_Key \<Rightarrow> bool" where
  "hdql_key_is_list k \<longleftrightarrow> k_plType k = KEY_PL_TYPE_LIST"

definition hdql_key_is_union :: "'v hdql_Key \<Rightarrow> bool" where
  "hdql_key_is_union k \<longleftrightarrow> k_plType k = KEY_PL_TYPE_UNION"

text \<open>
  \<open>hdql_key_mark_as_list\<close>: the result of the allocation is not tested before it is cleared, and
  for \<open>n = 0\<close> the key before the array is flagged.
\<close>

definition hdql_key_mark_as_list ::
  "'v hdql_Key \<Rightarrow> nat \<Rightarrow> hdql_Context \<Rightarrow> (hdql_Err_t \<times> 'v hdql_Key \<times> hdql_Context) option" where
  "hdql_key_mark_as_list k n c =
     (if k_code k \<noteq> 0 \<or> k_plType k \<noteq> 0 then Some (HDQL_ERR_GENERIC, k, c)
      else case ctx_alloc c of
        (None, c) \<Rightarrow> None
      | (Some a, c) \<Rightarrow> do {
          ks \<leftarrow> (if n = 0 then None
                else arr_set (replicate n hdql_key_mark_empty) (n - 1) (k_set_terminal True hdql_key_mark_empty));
          Some (HDQL_ERR_CODE_OK, Key (k_code k) KEY_PL_TYPE_LIST (k_isTerminal k) (PlKeys a ks) (k_label k), c) })"

fun list_len_scan :: "'v hdql_Key list \<Rightarrow> nat \<Rightarrow> nat option" where
  "list_len_scan [] r = None"
| "list_len_scan (k # ks) r = (if k_isTerminal k then Some (Suc r) else list_len_scan ks (Suc r))"

definition hdql_key_get_list_len :: "'v hdql_Key \<Rightarrow> nat option" where
  "hdql_key_get_list_len k = do {
     c_assert (k_plType k = KEY_PL_TYPE_LIST);
     ks \<leftarrow> pl_keys (k_pl k);
     list_len_scan ks 0 }"

definition hdql_key_swap_list_item ::
  "'v hdql_Key \<Rightarrow> nat \<Rightarrow> 'v hdql_Key \<Rightarrow> (hdql_Err_t \<times> 'v hdql_Key \<times> 'v hdql_Key) option" where
  "hdql_key_swap_list_item k n element =
     (if k_plType k \<noteq> KEY_PL_TYPE_LIST then Some (HDQL_ERR_GENERIC, k, element)
      else case k_pl k of
        PlKeys a ks \<Rightarrow> do {
          old \<leftarrow> arr_get ks n;
          ks \<leftarrow> arr_set ks n element;
          Some (HDQL_ERR_CODE_OK, k_set_pl (PlKeys a ks) k, old) }
      | _ \<Rightarrow> None)"

text \<open>The key an index refers to (null when the key is no list).\<close>

definition hdql_key_get_list_item :: "'v hdql_Key \<Rightarrow> nat \<Rightarrow> 'v hdql_Key option option" where
  "hdql_key_get_list_item k n =
     (if k_plType k \<noteq> KEY_PL_TYPE_LIST then Some None
      else do { ks \<leftarrow> pl_keys (k_pl k); x \<leftarrow> arr_get ks n; Some (Some x) })"

section \<open>Traversal\<close>

text \<open>
  \<open>_hdql__for_each_key\<close>: children first, then the key itself; the callback gets the key, its
  position (the path from the root, which stands for its address), its state, the level and the
  number in the level. The flag \<open>isTerminal\<close> is read before the recursion.
\<close>

type_synonym ('v, 's) key_callback =
  "'v hdql_Key \<Rightarrow> nat list \<Rightarrow> 's \<Rightarrow> nat \<Rightarrow> nat \<Rightarrow> (hdql_Err_t \<times> 's) option"

fun for_each_key ::
  "('v, 's) key_callback \<Rightarrow> 'v hdql_Key \<Rightarrow> nat list \<Rightarrow> 's \<Rightarrow> nat \<Rightarrow> nat \<Rightarrow> (hdql_Err_t \<times> 's) option"
and for_each_keys ::
  "('v, 's) key_callback \<Rightarrow> 'v hdql_Key list \<Rightarrow> nat list \<Rightarrow> 's \<Rightarrow> nat \<Rightarrow> nat \<Rightarrow> (hdql_Err_t \<times> 's) option"
where
  "for_each_key cb (Key code ty t pl l) path s cLevel nq =
     (if hdql_key_is_empty (Key code ty t pl l) \<or> hdql_key_is_datum (Key code ty t pl l)
      then cb (Key code ty t pl l) path s cLevel nq
      else do {
        c_assert (hdql_key_is_list (Key code ty t pl l) \<or> hdql_key_is_union (Key code ty t pl l));
        case pl of
          PlKeys a ks \<Rightarrow> do {
            (rc, s) \<leftarrow> for_each_keys cb ks path s (cLevel + 1) 1;
            if rc \<noteq> HDQL_ERR_CODE_OK then Some (rc, s)
            else cb (Key code ty t pl l) path s cLevel nq }
        | _ \<Rightarrow> None })"
| "for_each_keys cb [] path s cLevel snq = None"
| "for_each_keys cb (ck # cks) path s cLevel snq = do {
     (rc, s) \<leftarrow> for_each_key cb ck (path @ [snq - 1]) s cLevel snq;
     if rc \<noteq> HDQL_ERR_CODE_OK then Some (rc, s)
     else if k_isTerminal ck then Some (HDQL_ERR_CODE_OK, s)
     else for_each_keys cb cks path s cLevel (snq + 1) }"

text \<open>Destruction; \<open>root\<close> is the address of the outermost key.\<close>

definition hdql__destroy_key_plain :: "addr \<Rightarrow> ('v, hdql_Context) key_callback" where
  "hdql__destroy_key_plain root k path c cLevel snq = do {
     c \<leftarrow> (if hdql_key_is_list k then ctx_free (pl_addr (k_pl k)) c
          else if hdql_key_is_datum k then ctx_free (pl_addr (k_pl k)) c
          else Some c);
     if snq \<noteq> 0 then Some (HDQL_ERR_CODE_OK, c)
     else do { c \<leftarrow> ctx_free (Some root) c; Some (HDQL_ERR_CODE_OK, c) } }"

definition hdql_key_destroy ::
  "addr \<times> 'v hdql_Key \<Rightarrow> hdql_Context \<Rightarrow> (hdql_Err_t \<times> hdql_Context) option" where
  "hdql_key_destroy r c = for_each_key (hdql__destroy_key_plain (fst r)) (snd r) [] c 0 0"

section \<open>Flat view\<close>

definition hdql_count_meaningful_keys :: "('v, nat) key_callback" where
  "hdql_count_meaningful_keys k path n cLevel snq =
     (if \<not> hdql_key_is_datum k then Some (HDQL_ERR_CODE_OK, n) else Some (HDQL_ERR_CODE_OK, Suc n))"

definition hdql_key_flat_view_size :: "'v hdql_Key \<Rightarrow> nat option" where
  "hdql_key_flat_view_size key = do {
     (rc, count) \<leftarrow> for_each_key hdql_count_meaningful_keys key [] 0 0 0;
     c_assert (rc = HDQL_ERR_CODE_OK);
     Some (if HDQL_ERR_CODE_OK \<noteq> rc then 0 else count) }"

text \<open>The caller's array of key pointers and the position written next.\<close>

type_synonym FlatViewIterator = "nat list option list \<times> nat"

definition hdql_set_meaningful_keys :: "('v, FlatViewIterator) key_callback" where
  "hdql_set_meaningful_keys k path it cLevel snq =
     (if \<not> hdql_key_is_datum k then Some (HDQL_ERR_CODE_OK, it)
      else do { view \<leftarrow> arr_set (fst it) (snd it) (Some path); Some (HDQL_ERR_CODE_OK, (view, Suc (snd it))) })"

definition hdql_key_flat_view_populate ::
  "'v hdql_Key \<Rightarrow> nat list option list \<Rightarrow> (hdql_Err_t \<times> nat list option list) option" where
  "hdql_key_flat_view_populate key flatView = do {
     (rc, it) \<leftarrow> for_each_key hdql_set_meaningful_keys key [] (flatView, 0) 0 0;
     Some (rc, fst it) }"

text \<open>The key that a view points to.\<close>

fun key_at :: "'v hdql_Key \<Rightarrow> nat list \<Rightarrow> 'v hdql_Key option" where
  "key_at k [] = Some k"
| "key_at k (i # is) = do { ks \<leftarrow> pl_keys (k_pl k); k \<leftarrow> arr_get ks i; key_at k is }"

section \<open>Copying\<close>

text \<open>
  \<open>hdql_key_copy_value\<close> overwrites the data of the destination, copying \<open>vi->size\<close> bytes of
  each source datum: the whole datum, since the codes agree.
\<close>

fun hdql_key_copy_value ::
  "'v hdql_Key \<Rightarrow> 'v hdql_Key \<Rightarrow> hdql_Context \<Rightarrow> (hdql_Err_t \<times> 'v hdql_Key \<times> hdql_Context) option"
and copy_key_list ::
  "'v hdql_Key list \<Rightarrow> 'v hdql_Key list \<Rightarrow> hdql_Context \<Rightarrow> (hdql_Err_t \<times> 'v hdql_Key list \<times> hdql_Context) option"
where
  "hdql_key_copy_value dest (Key scode sty st spl sl) c =
     (let src = Key scode sty st spl sl
      in if hdql_key_is_empty src then do {
           c_assert (hdql_key_is_empty dest);
           Some (HDQL_ERR_CODE_OK, dest, c) }
         else if hdql_key_is_datum src then do {
           c_assert (hdql_key_is_datum dest);
           types \<leftarrow> cx_types c;
           if scode \<noteq> k_code dest
           then do {
             _ \<leftarrow> types (k_code dest);
             Some (HDQL_ERR_GENERIC, dest, hdql_context_err_push HDQL_ERR_GENERIC c) }
           else do {
             _ \<leftarrow> types scode;
             sd \<leftarrow> hdql_key_datum_get src;
             dd \<leftarrow> hdql_key_datum_get dest;
             sv \<leftarrow> sd;
             dv \<leftarrow> dd;
             Some (HDQL_ERR_CODE_OK, k_set_pl (PlDatum (fst dv) (snd sv)) dest, c) } }
         else if hdql_key_is_list src then do {
           c_assert (hdql_key_is_list dest);
           case spl of PlKeys _ sks \<Rightarrow>
             (case k_pl dest of PlKeys a dks \<Rightarrow> do {
                (rc, dks, c) \<leftarrow> copy_key_list dks sks c;
                Some (rc, k_set_pl (PlKeys a dks) dest, c) }
              | _ \<Rightarrow> None)
           | _ \<Rightarrow> None }
         else Some (HDQL_ERR_GENERIC, dest, hdql_context_err_push HDQL_ERR_BAD_ARGUMENT c))"
| "copy_key_list dks [] c = None"
| "copy_key_list dks (sk # sks) c =
     (case dks of [] \<Rightarrow> None
      | dk # dks' \<Rightarrow> do {
          (rc, dk, c) \<leftarrow> hdql_key_copy_value dk sk c;
          if rc \<noteq> HDQL_ERR_CODE_OK then Some (rc, dk # dks', hdql_context_err_push rc c)
          else if k_isTerminal sk then Some (HDQL_ERR_CODE_OK, dk # dks', c)
          else do {
            (rc, dks', c) \<leftarrow> copy_key_list dks' sks c;
            Some (rc, dk # dks', c) } })"

section \<open>Well-formed keys\<close>

text \<open>
  A well-formed key is empty, a datum, or a list of well-formed keys of which exactly the last
  is flagged as terminal. (No function of the program makes a union.)
\<close>

fun key_ok :: "'v hdql_Key \<Rightarrow> bool" and keys_ok :: "'v hdql_Key list \<Rightarrow> bool" where
  "key_ok (Key code ty t pl l) \<longleftrightarrow>
     (case pl of
        PlNull \<Rightarrow> ty = 0
      | PlDatum a v \<Rightarrow> ty = 0 \<and> code \<noteq> 0
      | PlKeys a ks \<Rightarrow> ty = 1 \<and> code = 0 \<and> keys_ok ks)"
| "keys_ok [] \<longleftrightarrow> False"
| "keys_ok (k # ks) \<longleftrightarrow> key_ok k \<and> (if ks = [] then k_isTerminal k else \<not> k_isTerminal k \<and> keys_ok ks)"

text \<open>The keys in the order of the traversal.\<close>

fun key_walk :: "'v hdql_Key \<Rightarrow> nat list \<Rightarrow> nat \<Rightarrow> nat \<Rightarrow> ('v hdql_Key \<times> nat list \<times> nat \<times> nat) list"
and keys_walk :: "'v hdql_Key list \<Rightarrow> nat list \<Rightarrow> nat \<Rightarrow> nat \<Rightarrow> ('v hdql_Key \<times> nat list \<times> nat \<times> nat) list"
where
  "key_walk (Key code ty t pl l) path lvl nq =
     (case pl of PlKeys a ks \<Rightarrow> keys_walk ks path (lvl + 1) 1 | _ \<Rightarrow> []) @
     [(Key code ty t pl l, path, lvl, nq)]"
| "keys_walk [] path lvl n = []"
| "keys_walk (k # ks) path lvl n = key_walk k (path @ [n - 1]) lvl n @ keys_walk ks path lvl (n + 1)"

fun run_walk ::
  "('v, 's) key_callback \<Rightarrow> ('v hdql_Key \<times> nat list \<times> nat \<times> nat) list \<Rightarrow> 's \<Rightarrow> (hdql_Err_t \<times> 's) option"
where
  "run_walk cb [] s = Some (HDQL_ERR_CODE_OK, s)"
| "run_walk cb ((k, path, lvl, nq) # w) s = do {
     (rc, s) \<leftarrow> cb k path s lvl nq;
     if rc \<noteq> HDQL_ERR_CODE_OK then Some (rc, s) else run_walk cb w s }"

lemma run_walk_append:
  "run_walk cb (w @ w') s = do {
     (rc, s) \<leftarrow> run_walk cb w s;
     if rc \<noteq> HDQL_ERR_CODE_OK then Some (rc, s) else run_walk cb w' s }"
proof (induction cb w s rule: run_walk.induct)
  case (2 cb k path lvl nq w s)
  then show ?case by (cases "cb k path s lvl nq") auto
qed simp

lemma run_walk_single:
  "run_walk cb [(k, path, lvl, nq)] s = cb k path s lvl nq"
  by (cases "cb k path s lvl nq") auto

lemma for_each_key_walk:
  "key_ok k \<Longrightarrow> for_each_key cb k path s lvl nq = run_walk cb (key_walk k path lvl nq) s"
  "keys_ok ks \<Longrightarrow> for_each_keys cb ks path s lvl snq = run_walk cb (keys_walk ks path lvl snq) s"
proof (induction cb k path s lvl nq and cb ks path s lvl snq rule: for_each_key_for_each_keys.induct)
  case (1 cb code ty t pl l path s cLevel nq)
  show ?case
  proof (cases pl)
    case (PlKeys a ks)
    with 1 show ?thesis
      by (auto simp: run_walk_append run_walk_single hdql_key_is_empty_def hdql_key_is_datum_def
          hdql_key_is_list_def key_types intro!: Option.bind_cong simp del: run_walk.simps)
  qed (use 1 in \<open>auto simp: run_walk_single hdql_key_is_empty_def hdql_key_is_datum_def key_types
      simp del: run_walk.simps\<close>)
next
  case (3 cb ck cks path s cLevel snq)
  then show ?case by (auto simp: run_walk_append intro!: Option.bind_cong split: if_splits)
qed simp

text \<open>The datum keys among them, in order, with their positions.\<close>

definition key_leaves :: "'v hdql_Key \<Rightarrow> ('v hdql_Key \<times> nat list) list" where
  "key_leaves k = map (\<lambda>(k, p, _). (k, p)) (filter (\<lambda>(k, _). hdql_key_is_datum k) (key_walk k [] 0 0))"

lemma count_walk:
  "run_walk hdql_count_meaningful_keys w n =
     Some (HDQL_ERR_CODE_OK, n + length (filter (\<lambda>(k, _). hdql_key_is_datum k) w))"
  by (induction w arbitrary: n) (auto simp: hdql_count_meaningful_keys_def)

lemma set_walk:
  "pos + length (filter (\<lambda>(k, _). hdql_key_is_datum k) w) \<le> length view \<Longrightarrow>
   run_walk hdql_set_meaningful_keys w (view, pos) =
     Some (HDQL_ERR_CODE_OK,
           (take pos view @ map (\<lambda>(k, p, _). Some p) (filter (\<lambda>(k, _). hdql_key_is_datum k) w) @
              drop (pos + length (filter (\<lambda>(k, _). hdql_key_is_datum k) w)) view,
            pos + length (filter (\<lambda>(k, _). hdql_key_is_datum k) w)))"
proof (induction w arbitrary: view pos)
  case (Cons x w)
  obtain k p r where x: "x = (k, p, r)" by (cases x)
  obtain lvl nq where r: "r = (lvl, nq)" by (cases r)
  show ?case
  proof (cases "hdql_key_is_datum k")
    case True
    let ?v = "view[pos := Some p]"
    have pos: "pos < length view" using Cons.prems True by (simp add: x)
    have "take (Suc pos) ?v = take pos view @ [Some p]"
      using pos by (simp add: take_Suc_conv_app_nth)
    moreover have "Suc pos + length (filter (\<lambda>(k, _). hdql_key_is_datum k) w) \<le> length ?v"
      using Cons.prems True by (simp add: x)
    ultimately show ?thesis
      using Cons.IH [of "Suc pos" ?v] pos True
      by (simp add: x r hdql_set_meaningful_keys_def)
  qed (use Cons in \<open>simp add: x r hdql_set_meaningful_keys_def\<close>)
qed simp

text \<open>
  On a well-formed key the size of the flat view is the number of its datum keys, and
  filling an array of at least that size writes the positions of exactly these keys, in the
  order of the traversal, and nothing behind them.
\<close>

theorem flat_view_spec:
  assumes "key_ok k"
  shows "hdql_key_flat_view_size k = Some (length (key_leaves k)) \<and>
    (length (key_leaves k) \<le> length view \<longrightarrow>
     hdql_key_flat_view_populate k view =
       Some (HDQL_ERR_CODE_OK, map (Some \<circ> snd) (key_leaves k) @ drop (length (key_leaves k)) view))"
  using assms set_walk [of 0 "key_walk k [] 0 0" view]
  by (auto simp: hdql_key_flat_view_size_def hdql_key_flat_view_populate_def for_each_key_walk count_walk
      key_leaves_def o_def split_beta)

definition key_sample :: "nat hdql_Key" where
  "key_sample = Key 0 1 True (PlKeys 10
     [Key 3 0 False (PlDatum 11 7) None,
      Key 0 1 False (PlKeys 12 [Key 0 0 False PlNull None, Key 5 0 True (PlDatum 13 8) None]) None,
      Key 4 0 True (PlDatum 14 9) None]) None"

lemma flat_view_spec_witness:
  "hdql_key_flat_view_size key_sample = Some 3 \<and>
   hdql_key_flat_view_populate key_sample [None, None, None, None] =
     Some (HDQL_ERR_CODE_OK, [Some [0], Some [1, 1], Some [2], None])"
  using flat_view_spec [of key_sample "[None, None, None, None]"]
  by (simp add: key_sample_def key_leaves_def hdql_key_is_datum_def key_types)

section \<open>Destruction\<close>

text \<open>The blocks of a key, in the order they are released, without the key's own.\<close>

definition walk_blocks :: "('v hdql_Key \<times> nat list \<times> nat \<times> nat) list \<Rightarrow> addr list" where
  "walk_blocks w = concat (map (\<lambda>(k, _). case pl_addr (k_pl k) of None \<Rightarrow> [] | Some a \<Rightarrow> [a]) w)"

definition key_blocks :: "'v hdql_Key \<Rightarrow> addr list" where
  "key_blocks k = walk_blocks (key_walk k [] 0 0)"

lemma walk_blocks_simps [simp]:
  "walk_blocks [] = []"
  "walk_blocks (w @ w') = walk_blocks w @ walk_blocks w'"
  "walk_blocks ((k, r) # w) = (case pl_addr (k_pl k) of None \<Rightarrow> [] | Some a \<Rightarrow> [a]) @ walk_blocks w"
  by (simp_all add: walk_blocks_def)

lemma key_ok_types:
  "key_ok k \<Longrightarrow> hdql_key_is_list k \<or> hdql_key_is_datum k \<or> pl_addr (k_pl k) = None"
  by (cases k) (auto simp: hdql_key_is_list_def hdql_key_is_datum_def key_types split: key_payload.splits)

lemma key_walk_ok:
  fixes k :: "'v hdql_Key" and ks :: "'v hdql_Key list"
  shows "key_ok k \<Longrightarrow> \<forall>(k', _) \<in> set (key_walk k path lvl nq). key_ok k'"
    and "keys_ok ks \<Longrightarrow> \<forall>(k', _) \<in> set (keys_walk ks path lvl n). key_ok k'"
  by (induction k path lvl nq and ks path lvl n rule: key_walk_keys_walk.induct)
    (force split: key_payload.splits if_splits)+

lemma key_walk_nonzero:
  fixes k :: "'v hdql_Key" and ks :: "'v hdql_Key list"
  shows "nq \<noteq> 0 \<Longrightarrow> \<forall>(k', p, l, m) \<in> set (key_walk k path lvl nq). m \<noteq> 0"
    and "n \<noteq> 0 \<Longrightarrow> \<forall>(k', p, l, m) \<in> set (keys_walk ks path lvl n). m \<noteq> 0"
  by (induction k path lvl nq and ks path lvl n rule: key_walk_keys_walk.induct)
    (force split: key_payload.splits if_splits)+

lemma destroy_walk:
  "\<forall>(k, p, l, m) \<in> set w. key_ok k \<and> m \<noteq> 0 \<Longrightarrow>
   run_walk (hdql__destroy_key_plain root) w c =
     do { c \<leftarrow> cx.free_list (walk_blocks w) c; Some (HDQL_ERR_CODE_OK, c) }"
proof (induction w arbitrary: c)
  case (Cons x w)
  obtain k p l m where x: "x = (k, p, l, m)" by (cases x)
  have k: "key_ok k" "m \<noteq> 0" using Cons.prems by (auto simp: x)
  have step: "hdql__destroy_key_plain root k p c l m =
      do { c \<leftarrow> ctx_free (pl_addr (k_pl k)) c; Some (HDQL_ERR_CODE_OK, c) }" for c
    using key_ok_types [OF k(1)] k(2)
    by (auto simp: hdql__destroy_key_plain_def)
  have IH: "run_walk (hdql__destroy_key_plain root) w c =
     do { c \<leftarrow> cx.free_list (walk_blocks w) c; Some (HDQL_ERR_CODE_OK, c) }" for c
    using Cons by simp
  show ?case
    by (cases "pl_addr (k_pl k)") (simp_all add: x step IH)
qed simp

text \<open>
  C15: Destroying a well-formed key whose blocks are live and distinct releases the block of each of
  its arrays and data and the key itself, exactly once, and nothing else, and succeeds: whether the
  context has a table of types is not looked at, and no method of a key type is called.
\<close>

theorem key_destroy_exact:
  assumes "key_ok k" "ctx_wf c" "distinct (key_blocks k @ [root])"
    "set (key_blocks k @ [root]) \<subseteq> ctx_live c"
  shows "\<exists>c'. hdql_key_destroy (root, k) c = Some (HDQL_ERR_CODE_OK, c') \<and> ctx_wf c' \<and>
    ctx_live c' = ctx_live c - set (key_blocks k @ [root])"
proof -
  obtain ws where w: "key_walk k [] 0 0 = ws @ [(k, [], 0, 0)]"
    and inner: "\<forall>(k', p, l, m) \<in> set ws. m \<noteq> 0"
  proof (cases k)
    case (Key code ty t pl l)
    show thesis
    proof (cases pl)
      case (PlKeys a ks)
      have "\<forall>(k', p, l, m) \<in> set (keys_walk ks [] (0 + 1) 1). m \<noteq> 0"
        by (rule key_walk_nonzero(2)) simp
      then show thesis by (intro that [of "keys_walk ks [] (0 + 1) 1"]) (simp_all add: Key PlKeys)
    qed (rule that [of "[]"]; simp add: Key)+
  qed
  have ok: "\<forall>(k', p, l, m) \<in> set ws. key_ok k' \<and> m \<noteq> 0"
    using key_walk_ok(1) [OF assms(1), of "[]" 0 0] inner by (auto simp: w)
  have "hdql_key_destroy (root, k) c =
      do { c \<leftarrow> cx.free_list (key_blocks k @ [root]) c; Some (HDQL_ERR_CODE_OK, c) }"
  proof -
    have last: "hdql__destroy_key_plain root k [] c 0 0 =
        do { c \<leftarrow> ctx_free (pl_addr (k_pl k)) c; c \<leftarrow> ctx_free (Some root) c; Some (HDQL_ERR_CODE_OK, c) }" for c
      using key_ok_types [OF assms(1)] by (auto simp: hdql__destroy_key_plain_def)
    show ?thesis
      by (cases "pl_addr (k_pl k)")
        (simp_all add: hdql_key_destroy_def for_each_key_walk(1) [OF assms(1)] w run_walk_append
          destroy_walk [OF ok] run_walk_single last key_blocks_def cx.free_list_append cong: if_cong)
  qed
  then show ?thesis
    using cx.moved_free_list [OF assms(2) assms(4) assms(3) subset_refl]
      assms(4) by (auto simp: cx.moved_def)
qed

definition ctx_sample :: hdql_Context where
  "ctx_sample = \<lparr>cx_heap = \<lparr>hp_next = 20, hp_live = {9..<16}, hp_oom = (\<lambda>n. n = 30)\<rparr>, cx_errors = [],
     cx_types = Some (\<lambda>c. Some \<lparr>vi_name = ''int'', vi_size = 4\<rparr>)\<rparr>"

lemma key_destroy_exact_witness:
  "\<exists>c'. hdql_key_destroy (9, key_sample) ctx_sample = Some (HDQL_ERR_CODE_OK, c') \<and> ctx_live c' = {15}"
  using key_destroy_exact [of key_sample ctx_sample 9]
  by (force simp: key_sample_def ctx_sample_def key_blocks_def ctx_wf_def heap_wf_def ctx_live_def)

section \<open>Copying between keys of the same topology\<close>

text \<open>The destination has the structure of the source, whatever the data are.\<close>

fun key_like :: "'v hdql_Key \<Rightarrow> 'v hdql_Key \<Rightarrow> bool" and keys_like :: "'v hdql_Key list \<Rightarrow> 'v hdql_Key list \<Rightarrow> bool"
where
  "key_like d (Key code ty t pl l) \<longleftrightarrow>
     k_code d = code \<and> k_plType d = ty \<and> k_isTerminal d = t \<and>
     (case pl of
        PlNull \<Rightarrow> k_pl d = PlNull \<and> code = 0
      | PlDatum a v \<Rightarrow> (\<exists>b w. k_pl d = PlDatum b w)
      | PlKeys a ks \<Rightarrow> (case k_pl d of PlKeys b ds \<Rightarrow> keys_like ds ks | _ \<Rightarrow> False))"
| "keys_like ds [] \<longleftrightarrow> ds = []"
| "keys_like ds (k # ks) \<longleftrightarrow> (case ds of [] \<Rightarrow> False | d # ds' \<Rightarrow> key_like d k \<and> keys_like ds' ks)"

text \<open>The data of a key, in the order of the traversal.\<close>

fun key_data :: "'v hdql_Key \<Rightarrow> 'v list" and keys_data :: "'v hdql_Key list \<Rightarrow> 'v list" where
  "key_data (Key code ty t pl l) =
     (case pl of PlNull \<Rightarrow> [] | PlDatum a v \<Rightarrow> [v] | PlKeys a ks \<Rightarrow> keys_data ks)"
| "keys_data [] = []"
| "keys_data (k # ks) = key_data k @ keys_data ks"

text \<open>The addresses in a key.\<close>

fun key_addrs :: "'v hdql_Key \<Rightarrow> addr list" and keys_addrs :: "'v hdql_Key list \<Rightarrow> addr list" where
  "key_addrs (Key code ty t pl l) =
     (case pl of PlNull \<Rightarrow> [] | PlDatum a v \<Rightarrow> [a] | PlKeys a ks \<Rightarrow> keys_addrs ks @ [a])"
| "keys_addrs [] = []"
| "keys_addrs (k # ks) = key_addrs k @ keys_addrs ks"

lemma keys_like_ne: "keys_like ds ks \<Longrightarrow> ds = [] \<longleftrightarrow> ks = []"
  by (cases ks) (auto split: list.splits)

lemma copy_value_correct:
  fixes src :: "'v hdql_Key" and srcs :: "'v hdql_Key list"
  shows "key_ok src \<Longrightarrow> key_like dest src \<Longrightarrow> (\<And>tc. types tc \<noteq> None) \<Longrightarrow> cx_types c = Some types \<Longrightarrow>
      \<exists>dest'. hdql_key_copy_value dest src c = Some (HDQL_ERR_CODE_OK, dest', c) \<and>
        key_like dest' src \<and> key_data dest' = key_data src \<and> key_addrs dest' = key_addrs dest"
    and "keys_ok srcs \<Longrightarrow> keys_like dests srcs \<Longrightarrow> (\<And>tc. types tc \<noteq> None) \<Longrightarrow> cx_types c = Some types \<Longrightarrow>
      \<exists>dests'. copy_key_list dests srcs c = Some (HDQL_ERR_CODE_OK, dests', c) \<and>
        keys_like dests' srcs \<and> keys_data dests' = keys_data srcs \<and> keys_addrs dests' = keys_addrs dests"
proof (induction dest src c and dests srcs c rule: hdql_key_copy_value_copy_key_list.induct)
  case (1 dest scode sty st spl sl c)
  obtain dcode dty dt dpl dl where d: "dest = Key dcode dty dt dpl dl" by (cases dest)
  show ?case
  proof (cases spl)
    case PlNull
    then show ?thesis using 1 by (simp add: d hdql_key_is_empty_def key_types Let_def)
  next
    case (PlDatum a v)
    with 1(3) obtain b w where "dpl = PlDatum b w" by (auto simp: d)
    moreover have "sty = 0" "scode \<noteq> 0" using 1(2) PlDatum by auto
    moreover obtain vi where "types scode = Some vi" using 1(4) by fastforce
    ultimately show ?thesis using 1(3,5) PlDatum
      by (auto simp: d hdql_key_is_empty_def hdql_key_is_datum_def hdql_key_datum_get_def key_types Let_def)
  next
    case (PlKeys a sks)
    with 1(3) obtain b dks where dk: "dpl = PlKeys b dks" "keys_like dks sks"
      by (auto simp: d split: key_payload.splits)
    have s: "sty = 1" "scode = 0" "keys_ok sks" using 1(2) PlKeys by auto
    have "\<exists>dks'. copy_key_list dks sks c = Some (HDQL_ERR_CODE_OK, dks', c) \<and>
        keys_like dks' sks \<and> keys_data dks' = keys_data sks \<and> keys_addrs dks' = keys_addrs dks"
    proof (rule 1(1) [OF refl _ _ _ _ PlKeys])
      show "c_assert (hdql_key_is_list dest) = Some ()"
        using 1(3) s by (simp add: d hdql_key_is_list_def key_types)
      show "k_pl dest = PlKeys b dks" by (simp add: d dk)
    qed (use s dk 1(4,5) in \<open>auto simp: hdql_key_is_empty_def hdql_key_is_datum_def hdql_key_is_list_def key_types\<close>)
    then show ?thesis using 1(3) PlKeys s dk
      by (auto simp: d hdql_key_is_empty_def hdql_key_is_datum_def hdql_key_is_list_def key_types Let_def)
  qed
next
  case (3 dks sk sks c)
  then obtain dk dks' where dks: "dks = dk # dks'" and like: "key_like dk sk" "keys_like dks' sks"
    by (auto split: list.splits)
  obtain d where d: "hdql_key_copy_value dk sk c = Some (HDQL_ERR_CODE_OK, d, c)"
    "key_like d sk" "key_data d = key_data sk" "key_addrs d = key_addrs dk"
    using 3(1) [OF dks] 3(3,5,6) like by (auto split: if_splits)
  show ?case
  proof (cases "sks = []")
    case True
    then show ?thesis using 3(3) d keys_like_ne [OF like(2)] by (simp add: dks)
  next
    case False
    then have "keys_ok sks" "\<not> k_isTerminal sk" using 3(3) by auto
    moreover have "\<exists>ds. copy_key_list dks' sks c = Some (HDQL_ERR_CODE_OK, ds, c) \<and>
        keys_like ds sks \<and> keys_data ds = keys_data sks \<and> keys_addrs ds = keys_addrs dks'"
      using 3(2) [OF dks d(1)] \<open>keys_ok sks\<close> \<open>\<not> k_isTerminal sk\<close> like(2) 3(5,6) by auto
    ultimately show ?thesis using d by (auto simp: dks)
  qed
qed simp_all

text \<open>
  Copying a well-formed key into one of the same topology, in a context that knows the types
  of the data, succeeds: the destination then holds the data of the source, in its own blocks,
  and still has the same topology.
\<close>

theorem key_copy_value_spec:
  assumes "key_ok src" "key_like dest src" "cx_types c = Some types" "\<And>tc. types tc \<noteq> None"
  shows "\<exists>dest'. hdql_key_copy_value dest src c = Some (HDQL_ERR_CODE_OK, dest', c) \<and>
    key_like dest' src \<and> key_data dest' = key_data src \<and> key_addrs dest' = key_addrs dest"
  using copy_value_correct(1) [OF assms(1,2,4,3)] .

lemma key_copy_value_spec_witness:
  "\<exists>dest'. hdql_key_copy_value
      (Key 0 1 False (PlKeys 1 [Key 3 0 False (PlDatum 2 0) None, Key 0 0 True PlNull None]) None)
      (Key 0 1 False (PlKeys 3 [Key 3 0 False (PlDatum 4 77) None, Key 0 0 True PlNull None]) None)
      ctx_sample = Some (HDQL_ERR_CODE_OK, dest', ctx_sample) \<and>
    key_data dest' = [77 :: nat] \<and> key_addrs dest' = [2, 1]"
  using key_copy_value_spec
    [of "Key 0 1 False (PlKeys 3 [Key 3 0 False (PlDatum 4 77) None, Key 0 0 True PlNull None]) None"
        "Key 0 1 False (PlKeys 1 [Key 3 0 False (PlDatum 2 (0::nat)) None, Key 0 0 True PlNull None]) None"
        ctx_sample]
  by (fastforce simp: ctx_sample_def)

section \<open>Lengths of lists\<close>

lemma list_len_scan_ok: "keys_ok ks \<Longrightarrow> list_len_scan ks r = Some (r + length ks)"
  by (induction ks arbitrary: r) (auto split: if_splits)

lemma list_len_scan_none: "\<forall>k \<in> set ks. \<not> k_isTerminal k \<Longrightarrow> list_len_scan ks r = None"
  by (induction ks arbitrary: r) auto

lemma keys_ok_terminal: "keys_ok ks \<Longrightarrow> \<forall>k \<in> set (butlast ks). \<not> k_isTerminal k"
  by (induction ks) (auto split: if_splits)

lemma keys_ok_fresh:
  "keys_ok (replicate n hdql_key_mark_empty @ [k_set_terminal True hdql_key_mark_empty])"
  by (induction n) (auto simp: hdql_key_mark_empty_def)

lemma keys_addrs_append [simp]: "keys_addrs (ks @ ks') = keys_addrs ks @ keys_addrs ks'"
  by (induction ks) auto

lemma keys_addrs_fresh [simp]: "keys_addrs (replicate m hdql_key_mark_empty) = []"
  by (induction m) (auto simp: hdql_key_mark_empty_def)

text \<open>
  Marking an empty key as a list of \<open>n > 0\<close> items makes, unless memory is lacking (then the
  missing array is written to), a well-formed list key of \<open>n\<close> empty items.
\<close>

theorem mark_as_list_spec:
  assumes "hdql_key_is_empty k" "0 < n" "ctx_wf c"
  shows "case hdql_key_mark_as_list k n c of
      None \<Rightarrow> fst (ctx_alloc c) = None
    | Some (rc, k', c') \<Rightarrow> rc = HDQL_ERR_CODE_OK \<and> key_ok k' \<and> hdql_key_is_list k' \<and>
        hdql_key_get_list_len k' = Some n \<and>
        (\<exists>a. a \<notin> ctx_live c \<and> ctx_live c' = insert a (ctx_live c) \<and> key_addrs k' = [a])"
proof -
  have up: "(replicate n hdql_key_mark_empty)[n - Suc 0 := x] = replicate (n - Suc 0) hdql_key_mark_empty @ [x]"
    for x :: "'a hdql_Key"
  proof -
    have "replicate n (hdql_key_mark_empty :: 'a hdql_Key) =
        replicate (n - 1) hdql_key_mark_empty @ [hdql_key_mark_empty]"
      using assms(2) by (cases n) (simp_all add: replicate_append_same)
    then show ?thesis by (simp add: list_update_append)
  qed
  let ?ks = "replicate (n - Suc 0) hdql_key_mark_empty @ [k_set_terminal True hdql_key_mark_empty]"
  have ok: "keys_ok ?ks" by (rule keys_ok_fresh)
  have len: "list_len_scan ?ks 0 = Some n" using list_len_scan_ok [OF ok, of 0] assms(2) by simp
  have addrs: "keys_addrs ?ks = []" by simp (simp add: hdql_key_mark_empty_def)
  show ?thesis
  proof (cases "ctx_alloc c")
    case (Pair p c')
    show ?thesis
    proof (cases p)
      case (Some a)
      have "a \<notin> ctx_live c \<and> ctx_live c' = insert a (ctx_live c)"
        using cx.alloc_fresh [of c 1 a c'] cx.alloc_exact [of c 1 a c'] assms(3) Pair Some by auto
      then show ?thesis
        using assms(1,2) Pair Some ok len addrs
        by (auto simp: hdql_key_mark_as_list_def hdql_key_is_empty_def hdql_key_is_list_def
            hdql_key_get_list_len_def key_types up)
    qed (use assms(1) Pair in \<open>simp add: hdql_key_mark_as_list_def hdql_key_is_empty_def key_types\<close>)
  qed
qed

lemma mark_as_list_spec_witness:
  "\<exists>k' c'. hdql_key_mark_as_list (hdql_key_mark_empty :: nat hdql_Key) 3 ctx_sample =
      Some (HDQL_ERR_CODE_OK, k', c') \<and> key_ok k' \<and> hdql_key_get_list_len k' = Some 3"
proof -
  have wf: "ctx_wf ctx_sample" by (auto simp: ctx_sample_def ctx_wf_def heap_wf_def)
  have "fst (ctx_alloc ctx_sample) = Some 20"
    by (simp add: ctx_alloc_malloc ctx_sample_def heap_malloc_def)
  then show ?thesis
    using mark_as_list_spec [OF _ _ wf, of "hdql_key_mark_empty :: nat hdql_Key" 3]
    by (auto simp: hdql_key_is_empty_def hdql_key_mark_empty_def key_types split: option.splits)
qed

text \<open>
  Swapping a fresh key (as \<open>hdql_key_new\<close> makes) into the last place of a list takes the
  list's terminator away: its length can no longer be determined, the walk leaves the array.
\<close>

theorem swap_loses_terminator:
  assumes "key_ok k" "hdql_key_is_list k" "hdql_key_get_list_len k = Some n"
  shows "\<exists>k' old. hdql_key_swap_list_item k (n - 1) hdql_key_mark_empty = Some (HDQL_ERR_CODE_OK, k', old) \<and>
    k_isTerminal old \<and> hdql_key_get_list_len k' = None"
proof -
  obtain code t a ks l where k: "k = Key code 1 t (PlKeys a ks) l" and ks: "keys_ok ks"
    using assms(1,2) by (cases k) (auto simp: hdql_key_is_list_def key_types split: key_payload.splits)
  have n: "n = length ks" "ks \<noteq> []"
    using assms(3) list_len_scan_ok [OF ks, of 0] ks by (auto simp: k hdql_key_get_list_len_def key_types)
  have t: "k_isTerminal (last ks)" using ks by (induction ks) (auto split: if_splits)
  have "ks[n - 1 := hdql_key_mark_empty] = butlast ks @ [hdql_key_mark_empty]"
    using n by (metis append_butlast_last_id length_butlast list_update_length)
  then have "list_len_scan (ks[n - 1 := hdql_key_mark_empty]) 0 = None"
    using keys_ok_terminal [OF ks] by (intro list_len_scan_none) (auto simp: hdql_key_mark_empty_def)
  then show ?thesis
    using n t by (simp add: k hdql_key_swap_list_item_def hdql_key_get_list_len_def key_types last_conv_nth)
qed

lemma swap_loses_terminator_witness:
  "\<exists>k' old. hdql_key_swap_list_item key_sample 2 hdql_key_mark_empty = Some (HDQL_ERR_CODE_OK, k', old) \<and>
    hdql_key_get_list_len k' = None"
  using swap_loses_terminator [of key_sample 3]
  by (auto simp: key_sample_def hdql_key_is_list_def hdql_key_get_list_len_def key_types)

end
