(* ===== verification/Query.thy ===== *)
theory Query
  imports Keys
begin

text \<open>
  Query chains, \<open>src/query.c\<close>: the depth-first enumeration \<open>hdql_query_reset\<close> /
  \<open>hdql_query_get\<close> over a doubly linked list of queries, and the interfaces
  \<open>struct hdql_ScalarAttrInterface\<close> / \<open>struct hdql_CollectionAttrInterface\<close> it drives.

  An interface is a record of functions. What a call may change is passed and returned: the
  state behind the iterator (or dynamic data) pointer, \<open>'s\<close>, everything reachable through the
  definition data, \<open>'a\<close>, the key and the context. A null pointer is \<open>None\<close>. A chain is the list of its
  queries; a position in it, with its \<open>prev\<close> and \<open>next\<close> links, is the triple of the queries
  before (nearest first), the current query and the queries after it. A position in an array of
  keys is the same kind of triple.
\<close>

section \<open>Interfaces and queries\<close>

record ('d, 's, 'a, 'v) hdql_ScalarAttrInterface =
  si_new_dyn_data :: "('d option \<Rightarrow> 'a \<Rightarrow> hdql_Context \<Rightarrow> ('s option \<times> 'a \<times> hdql_Context) option) option"
  si_reset :: "'d option \<Rightarrow> 's option \<Rightarrow> 'a \<Rightarrow> 'v hdql_Key option \<Rightarrow> hdql_Context \<Rightarrow>
    ('d option \<times> 's option \<times> 'a \<times> 'v hdql_Key option \<times> hdql_Context) option"
  si_destroy_dyn_data :: "('s option \<Rightarrow> 'a \<Rightarrow> hdql_Context \<Rightarrow> ('a \<times> hdql_Context) option) option"

record ('d, 's, 'a, 'v) hdql_CollectionAttrInterface =
  ci_new_iterator :: "'d option \<Rightarrow> 'a \<Rightarrow> hdql_Context \<Rightarrow> ('s option \<times> 'a \<times> hdql_Context) option"
  ci_yield :: "'s option \<Rightarrow> 'a \<Rightarrow> 'v hdql_Key option \<Rightarrow> hdql_Context \<Rightarrow>
    ('d option \<times> 's option \<times> 'a \<times> 'v hdql_Key option \<times> hdql_Context) option"
  ci_reset_iterator :: "'s option \<Rightarrow> 'd option \<Rightarrow> 'a \<Rightarrow> addr option \<Rightarrow> 'v hdql_Key option \<Rightarrow> hdql_Context \<Rightarrow>
    ('d option \<times> 's option \<times> 'a \<times> 'v hdql_Key option \<times> hdql_Context) option"
  ci_destroy_iterator :: "'s option \<Rightarrow> 'a \<Rightarrow> hdql_Context \<Rightarrow> ('a \<times> hdql_Context) option"
  ci_free_selection :: "('a \<Rightarrow> addr \<Rightarrow> hdql_Context \<Rightarrow> ('a \<times> hdql_Context) option) option"

datatype ('d, 's, 'a, 'v) ad_interface =
  IfScalar "('d, 's, 'a, 'v) hdql_ScalarAttrInterface"
| IfCollection "('d, 's, 'a, 'v) hdql_CollectionAttrInterface"

text \<open>
  The part of an attribute definition the evaluation uses (the flags the accessors read are in
  the theory of attribute definitions). \<open>definitionData\<close> is kept beside the interface.
\<close>

record ('d, 's, 'a, 'v) query_ad =
  qa_addr :: addr
  qa_interface :: "('d, 's, 'a, 'v) ad_interface"
  qa_definitionData :: 'a
  qa_isFwdQuery :: bool
  qa_isTransient :: bool
  qa_transient_dtr :: "('a \<Rightarrow> hdql_Context \<Rightarrow> hdql_Context option) option"

record ('d, 's, 'a, 'v) hdql_Query =
  q_addr :: addr
  q_owner :: "'d option"
  q_ad :: "('d, 's, 'a, 'v) query_ad"
  q_ownsSubject :: bool
  q_state :: "'s option"
  q_selectionArgs :: "addr option"
  q_label :: "addr option"

definition qa_is_collection :: "('d, 's, 'a, 'v) query_ad \<Rightarrow> bool" where
  "qa_is_collection ad = (case qa_interface ad of IfScalar _ \<Rightarrow> False | IfCollection _ \<Rightarrow> True)"

text \<open>Writing back what a call changed.\<close>

definition q_update :: "('d, 's, 'a, 'v) hdql_Query \<Rightarrow> 's option \<Rightarrow> 'a \<Rightarrow> ('d, 's, 'a, 'v) hdql_Query" where
  "q_update q s a = q\<lparr>q_state := s, q_ad := (q_ad q)\<lparr>qa_definitionData := a\<rparr>\<rparr>"

section \<open>One link of the chain\<close>

text \<open>
  \<open>hdql__query_reset\<close>. (After \<open>reset_iterator\<close> the code tests the iterator again; as the pointer
  is passed by value, that test can not succeed.)
\<close>

definition hdql__query_reset ::
  "('d, 's, 'a, 'v) hdql_Query \<Rightarrow> 'd option \<Rightarrow> 'v hdql_Key option \<Rightarrow> hdql_Context \<Rightarrow>
   ('d option \<times> ('d, 's, 'a, 'v) hdql_Query \<times> 'v hdql_Key option \<times> hdql_Context) option"
where
  "hdql__query_reset q0 owner key c =
     (let q = q0\<lparr>q_owner := owner\<rparr>; a = qa_definitionData (q_ad q)
      in case qa_interface (q_ad q) of
        IfCollection iface \<Rightarrow> do {
          (s, a, c) \<leftarrow> (if q_state q = None then ci_new_iterator iface owner a c
                       else Some (q_state q, a, c));
          if s = None
          then Some (None, q_update q None a, key, hdql_context_err_push HDQL_ERR_INTERFACE_ERROR c)
          else do {
            (r, s, a, key, c) \<leftarrow> ci_reset_iterator iface s owner a (q_selectionArgs q) key c;
            Some (r, q_update q s a, key, c) } }
      | IfScalar iface \<Rightarrow> do {
          (fail, s, a, c) \<leftarrow>
            (case si_new_dyn_data iface of
               None \<Rightarrow> Some (False, q_state q, a, c)
             | Some new \<Rightarrow>
                 if q_state q = None
                 then do { (s, a, c) \<leftarrow> new owner a c; Some (s = None, s, a, c) }
                 else Some (False, q_state q, a, c));
          if fail
          then Some (None, q_update q s a, key, hdql_context_err_push HDQL_ERR_INTERFACE_ERROR c)
          else do {
            (r, s, a, key, c) \<leftarrow> si_reset iface owner s a key c;
            Some (r, q_update q s a, key, c) } })"

definition hdql__query_yield ::
  "('d, 's, 'a, 'v) hdql_Query \<Rightarrow> 'v hdql_Key option \<Rightarrow> hdql_Context \<Rightarrow>
   ('d option \<times> ('d, 's, 'a, 'v) hdql_Query \<times> 'v hdql_Key option \<times> hdql_Context) option"
where
  "hdql__query_yield q key c =
     (case qa_interface (q_ad q) of
        IfScalar _ \<Rightarrow> Some (None, q, key, c)
      | IfCollection iface \<Rightarrow> do {
          (r, s, a, key, c) \<leftarrow> ci_yield iface (q_state q) (qa_definitionData (q_ad q)) key c;
          Some (r, q_update q s a, key, c) })"

section \<open>Positions in an array of keys\<close>

type_synonym 'v key_pos = "'v hdql_Key list \<times> 'v hdql_Key \<times> 'v hdql_Key list"

definition hdql__keys_next :: "'v key_pos \<Rightarrow> 'v key_pos option" where
  "hdql__keys_next cur = (case cur of (kp, k, kn) \<Rightarrow> do {
     c_assert (\<not> k_isTerminal k);
     case kn of [] \<Rightarrow> None | k' # kn' \<Rightarrow> Some (k # kp, k', kn') })"

definition hdql__keys_prev :: "'v key_pos \<Rightarrow> 'v key_pos option" where
  "hdql__keys_prev cur = (case cur of (kp, k, kn) \<Rightarrow>
     case kp of [] \<Rightarrow> None | k' # kp' \<Rightarrow> Some (kp', k', k # kn))"

definition hdql__key_get_list_bgn :: "'v hdql_Key \<Rightarrow> 'v key_pos option" where
  "hdql__key_get_list_bgn k = do {
     c_assert (k_plType k = KEY_PL_TYPE_LIST);
     ks \<leftarrow> pl_keys (k_pl k);
     case ks of [] \<Rightarrow> None | k' # ks' \<Rightarrow> Some ([], k', ks') }"

text \<open>A key that may be null: \<open>if(key) key = hdql__keys_next(key)\<close>.\<close>

definition kz_next :: "'v key_pos option \<Rightarrow> 'v key_pos option option" where
  "kz_next kz = (case kz of None \<Rightarrow> Some None | Some p \<Rightarrow> map_option Some (hdql__keys_next p))"

definition kz_prev :: "'v key_pos option \<Rightarrow> 'v key_pos option option" where
  "kz_prev kz = (case kz of None \<Rightarrow> Some None | Some p \<Rightarrow> map_option Some (hdql__keys_prev p))"

definition kz_cur :: "'v key_pos option \<Rightarrow> 'v hdql_Key option" where
  "kz_cur kz = map_option (fst \<circ> snd) kz"

text \<open>The key at the position after a call.\<close>

definition kz_put :: "'v hdql_Key option \<Rightarrow> 'v key_pos option \<Rightarrow> 'v key_pos option" where
  "kz_put k kz = (case kz of None \<Rightarrow> None
     | Some (kp, old, kn) \<Rightarrow> Some (kp, (case k of None \<Rightarrow> old | Some k \<Rightarrow> k), kn))"

section \<open>Reset of a chain\<close>

text \<open>A position in a chain with the position in the keys and the context, and a datum.\<close>

type_synonym ('d, 's, 'a, 'v) chain_pos =
  "('d, 's, 'a, 'v) hdql_Query list \<times> ('d, 's, 'a, 'v) hdql_Query \<times> ('d, 's, 'a, 'v) hdql_Query list \<times>
   'v key_pos option \<times> hdql_Context"

text \<open>
  "Descend as far as possible": ends with a datum at the terminal query, or with null at the
  query that has nothing to offer.
\<close>

fun rd_descend ::
  "('d, 's, 'a, 'v) hdql_Query list \<Rightarrow> ('d, 's, 'a, 'v) hdql_Query \<Rightarrow> ('d, 's, 'a, 'v) hdql_Query list \<Rightarrow>
   'v key_pos option \<Rightarrow> 'd option \<Rightarrow> hdql_Context \<Rightarrow> ('d option \<times> ('d, 's, 'a, 'v) chain_pos) option"
where
  "rd_descend ps cq [] kz r c = do {
     (r, cq, k, c) \<leftarrow> hdql__query_reset cq r (kz_cur kz) c;
     Some (r, ps, cq, [], kz_put k kz, c) }"
| "rd_descend ps cq (n # ns) kz r c = do {
     (r, cq, k, c) \<leftarrow> hdql__query_reset cq r (kz_cur kz) c;
     let kz = kz_put k kz;
     if r = None then Some (None, ps, cq, n # ns, kz, c)
     else do {
       kz \<leftarrow> kz_next kz;
       rd_descend (cq # ps) n ns kz r c } }"

text \<open>"Climb to parent and try to advance it": ends at a parent that yielded, or at the root.\<close>

fun rd_climb ::
  "('d, 's, 'a, 'v) hdql_Query list \<Rightarrow> ('d, 's, 'a, 'v) hdql_Query \<Rightarrow> ('d, 's, 'a, 'v) hdql_Query list \<Rightarrow>
   'v key_pos option \<Rightarrow> hdql_Context \<Rightarrow> ('d option \<times> ('d, 's, 'a, 'v) chain_pos) option"
where
  "rd_climb [] cq ns kz c = Some (None, [], cq, ns, kz, c)"
| "rd_climb (p # ps) cq ns kz c = do {
     kz \<leftarrow> kz_prev kz;
     (r, p, k, c) \<leftarrow> hdql__query_yield p (kz_cur kz) c;
     let kz = kz_put k kz;
     if r \<noteq> None then Some (r, ps, p, cq # ns, kz, c)
     else rd_climb ps p (cq # ns) kz c }"

partial_function (option) rd_loop ::
  "('d, 's, 'a, 'v) hdql_Query list \<Rightarrow> ('d, 's, 'a, 'v) hdql_Query \<Rightarrow> ('d, 's, 'a, 'v) hdql_Query list \<Rightarrow>
   'v key_pos option \<Rightarrow> 'd option \<Rightarrow> hdql_Context \<Rightarrow> ('d option \<times> ('d, 's, 'a, 'v) chain_pos) option"
where
  "rd_loop ps cq ns kz r c =
     Option.bind (rd_descend ps cq ns kz r c) (\<lambda>(r, ps, cq, ns, kz, c).
     if r \<noteq> None then Some (r, ps, cq, ns, kz, c)
     else Option.bind (rd_climb ps cq ns kz c) (\<lambda>(r, ps, cq, ns, kz, c).
       if r = None then Some (None, ps, cq, ns, kz, c)
       else case ns of
         [] \<Rightarrow> Some (r, ps, cq, [], kz, c)
       | n # ns' \<Rightarrow> Option.bind (kz_next kz) (\<lambda>kz. rd_loop (cq # ps) n ns' kz r c)))"

text \<open>The chain and the array of keys a position belongs to.\<close>

definition chain_of :: "'q list \<times> 'q \<times> 'q list \<times> 'z \<Rightarrow> 'q list" where
  "chain_of p = (case p of (ps, q, ns, _) \<Rightarrow> rev ps @ q # ns)"

definition keys_of :: "'v key_pos \<Rightarrow> 'v hdql_Key list" where
  "keys_of p = (case p of (kp, k, kn) \<Rightarrow> rev kp @ k # kn)"

text \<open>The list key with the array as the calls left it.\<close>

definition key_with :: "'v hdql_Key option \<Rightarrow> 'v key_pos option \<Rightarrow> 'v hdql_Key option" where
  "key_with key kz = (case (key, kz) of
     (Some k, Some p) \<Rightarrow> (case k_pl k of PlKeys a _ \<Rightarrow> Some (k_set_pl (PlKeys a (keys_of p)) k) | _ \<Rightarrow> Some k)
   | _ \<Rightarrow> key)"

definition hdql__query_reset_descendant ::
  "('d, 's, 'a, 'v) hdql_Query list \<Rightarrow> 'd option \<Rightarrow> 'v key_pos option \<Rightarrow> hdql_Context \<Rightarrow>
   ('d option \<times> ('d, 's, 'a, 'v) hdql_Query list \<times> 'v key_pos option \<times> hdql_Context) option"
where
  "hdql__query_reset_descendant qs datum kz c =
     (case qs of [] \<Rightarrow> Some (None, [], kz, c)
      | q # ns \<Rightarrow> do {
          (r, ps, cq, ns, kz, c) \<leftarrow> rd_loop [] q ns kz datum c;
          Some (r, chain_of (ps, cq, ns, ()), kz, c) })"

definition hdql_query_reset ::
  "('d, 's, 'a, 'v) hdql_Query list \<Rightarrow> 'd option \<Rightarrow> 'v hdql_Key option \<Rightarrow> hdql_Context \<Rightarrow>
   ('d option \<times> ('d, 's, 'a, 'v) hdql_Query list \<times> 'v hdql_Key option \<times> hdql_Context) option"
where
  "hdql_query_reset qs datum key c = do {
     kz \<leftarrow> (case key of None \<Rightarrow> Some None
           | Some k \<Rightarrow> do { c_assert (hdql_key_is_list k); map_option Some (hdql__key_get_list_bgn k) });
     (r, qs, kz, c) \<leftarrow> hdql__query_reset_descendant qs datum kz c;
     Some (r, qs, key_with key kz, c) }"

section \<open>Advancing a chain\<close>

text \<open>Start from the terminal query and the terminal key.\<close>

fun qg_terminal ::
  "('d, 's, 'a, 'v) hdql_Query list \<Rightarrow> ('d, 's, 'a, 'v) hdql_Query \<Rightarrow> ('d, 's, 'a, 'v) hdql_Query list \<Rightarrow>
   'v key_pos option \<Rightarrow>
   (('d, 's, 'a, 'v) hdql_Query list \<times> ('d, 's, 'a, 'v) hdql_Query \<times> 'v key_pos option) option"
where
  "qg_terminal ps cq [] kz = Some (ps, cq, kz)"
| "qg_terminal ps cq (n # ns) kz = do { kz \<leftarrow> kz_next kz; qg_terminal (cq # ps) n ns kz }"

text \<open>"Backtrack until some iterator yields a value".\<close>

fun qg_backtrack ::
  "('d, 's, 'a, 'v) hdql_Query list \<Rightarrow> ('d, 's, 'a, 'v) hdql_Query \<Rightarrow> ('d, 's, 'a, 'v) hdql_Query list \<Rightarrow>
   'v key_pos option \<Rightarrow> hdql_Context \<Rightarrow> ('d option \<times> ('d, 's, 'a, 'v) chain_pos) option"
where
  "qg_backtrack [] cq ns kz c = do {
     (r, cq, k, c) \<leftarrow> hdql__query_yield cq (kz_cur kz) c;
     Some (r, [], cq, ns, kz_put k kz, c) }"
| "qg_backtrack (p # ps) cq ns kz c = do {
     (r, cq, k, c) \<leftarrow> hdql__query_yield cq (kz_cur kz) c;
     let kz = kz_put k kz;
     if r \<noteq> None then Some (r, p # ps, cq, ns, kz, c)
     else do {
       kz \<leftarrow> kz_prev kz;
       qg_backtrack ps p (cq # ns) kz c } }"

text \<open>"Descend again: reset each child iterator on the value yielded by its parent".\<close>

fun qg_descend ::
  "('d, 's, 'a, 'v) hdql_Query list \<Rightarrow> ('d, 's, 'a, 'v) hdql_Query \<Rightarrow> ('d, 's, 'a, 'v) hdql_Query list \<Rightarrow>
   'v key_pos option \<Rightarrow> 'd option \<Rightarrow> hdql_Context \<Rightarrow> ('d option \<times> ('d, 's, 'a, 'v) chain_pos) option"
where
  "qg_descend ps cq [] kz r c = Some (r, ps, cq, [], kz, c)"
| "qg_descend ps cq (n # ns) kz r c = do {
     kz \<leftarrow> kz_next kz;
     (r, n, k, c) \<leftarrow> hdql__query_reset n r (kz_cur kz) c;
     let kz = kz_put k kz;
     if r = None then Some (None, cq # ps, n, ns, kz, c)
     else qg_descend (cq # ps) n ns kz r c }"

partial_function (option) qg_loop ::
  "('d, 's, 'a, 'v) hdql_Query list \<Rightarrow> ('d, 's, 'a, 'v) hdql_Query \<Rightarrow> ('d, 's, 'a, 'v) hdql_Query list \<Rightarrow>
   'v key_pos option \<Rightarrow> hdql_Context \<Rightarrow> ('d option \<times> ('d, 's, 'a, 'v) chain_pos) option"
where
  "qg_loop ps cq ns kz c =
     Option.bind (qg_backtrack ps cq ns kz c) (\<lambda>(r, ps, cq, ns, kz, c).
     if r = None then Some (None, ps, cq, ns, kz, c)
     else Option.bind (qg_descend ps cq ns kz r c) (\<lambda>(r, ps, cq, ns, kz, c).
       if r \<noteq> None \<and> ns = [] then Some (r, ps, cq, ns, kz, c)
       else qg_loop ps cq ns kz c))"

definition hdql_query_get ::
  "('d, 's, 'a, 'v) hdql_Query list \<Rightarrow> 'v hdql_Key option \<Rightarrow> hdql_Context \<Rightarrow>
   ('d option \<times> ('d, 's, 'a, 'v) hdql_Query list \<times> 'v hdql_Key option \<times> hdql_Context) option"
where
  "hdql_query_get qs key c = (case qs of [] \<Rightarrow> None
     | q # ns \<Rightarrow> do {
         kz \<leftarrow> (case key of None \<Rightarrow> Some None | Some k \<Rightarrow> map_option Some (hdql__key_get_list_bgn k));
         (ps, cq, kz) \<leftarrow> qg_terminal [] q ns kz;
         (r, ps, cq, ns, kz, c) \<leftarrow> qg_loop ps cq [] kz c;
         Some (r, chain_of (ps, cq, ns, ()), key_with key kz, c) })"

end
