(* ===== verification/Enumeration.thy ===== *)
theory Enumeration
  imports Query
begin

text \<open>
  What a query chain enumerates. A level of a chain is a query whose interface, reset on an
  owner, goes through a list of elements and sets the key for each of them. The contract of one
  level is the locale \<open>query_level\<close>; the theorem is that a chain of such levels goes depth-first
  through all combinations, each with the keys of its elements, and then returns null.
\<close>

section \<open>The contract of one level\<close>

text \<open>
  An element is a datum with a tag from which the key is made. \<open>lv_elems\<close> are the elements on an
  owner, \<open>lv_pending q k xs\<close> says that the query \<open>q\<close>, with the key as it was left, still has the
  elements \<open>xs\<close> to offer, \<open>lv_done\<close> that it has said so (it returned null), \<open>lv_kf\<close> is what an element makes of the key. A key is overwritten
  within its shape only. \<open>lv_null\<close> says that the level may be reset on a null owner.
\<close>

record ('q, 'd, 'e, 'k, 'h) level =
  lv_valid :: "'q \<Rightarrow> bool"
  lv_pending :: "'q \<Rightarrow> 'k option \<Rightarrow> ('d \<times> 'e) list \<Rightarrow> bool"
  lv_done :: "'q \<Rightarrow> 'k option \<Rightarrow> bool"
  lv_elems :: "'d option \<Rightarrow> ('d \<times> 'e) list"
  lv_kf :: "'e \<Rightarrow> 'k \<Rightarrow> 'k"
  lv_shape :: "'k \<Rightarrow> 'h"
  lv_keyok :: "'k \<Rightarrow> bool"
  lv_null :: bool

type_synonym ('d, 's, 'a, 'v, 'e, 'h) qlevel =
  "(('d, 's, 'a, 'v) hdql_Query, 'd, 'e, 'v hdql_Key, 'h) level"

definition head_datum :: "('d \<times> 'e) list \<Rightarrow> 'd option" where
  "head_datum xs = (case xs of [] \<Rightarrow> None | x # _ \<Rightarrow> Some (fst x))"

lemma head_datum_simps [simp]:
  "head_datum [] = None"
  "head_datum ((x, e) # xs) = Some x"
  by (simp_all add: head_datum_def)

text \<open>The key after a call that returned the first of \<open>xs\<close> (or null).\<close>

definition key_after :: "('q, 'd, 'e, 'k, 'h) level \<Rightarrow> ('d \<times> 'e) list \<Rightarrow> 'k option \<Rightarrow> 'k option \<Rightarrow> bool" where
  "key_after L xs k k' \<longleftrightarrow>
     (case xs of [] \<Rightarrow> map_option (lv_shape L) k' = map_option (lv_shape L) k
      | x # _ \<Rightarrow> k' = map_option (lv_kf L (snd x)) k)"

definition key_fits :: "('q, 'd, 'e, 'k, 'h) level \<Rightarrow> 'k option \<Rightarrow> bool" where
  "key_fits L k \<longleftrightarrow> (\<forall>k0. k = Some k0 \<longrightarrow> lv_keyok L k0)"

text \<open>
  After a reset or a yield. A level whose reset gave null need not be fit for a yield, which no
  caller then makes; one that was done before still is.
\<close>

definition after_reset ::
  "('d, 's, 'a, 'v, 'e, 'h) qlevel \<Rightarrow> ('d, 's, 'a, 'v) hdql_Query \<Rightarrow> 'v hdql_Key option \<Rightarrow> ('d \<times> 'e) list \<Rightarrow>
   ('d, 's, 'a, 'v) hdql_Query \<Rightarrow> 'v hdql_Key option \<Rightarrow> bool"
where
  "after_reset L q k xs q' k' \<longleftrightarrow> (case xs of
     [] \<Rightarrow> lv_valid L q' \<and> (lv_done L q k \<longrightarrow> lv_done L q' k')
   | _ # ys \<Rightarrow> lv_pending L q' k' ys)"

definition after_yield ::
  "('d, 's, 'a, 'v, 'e, 'h) qlevel \<Rightarrow> ('d \<times> 'e) list \<Rightarrow> ('d, 's, 'a, 'v) hdql_Query \<Rightarrow> 'v hdql_Key option \<Rightarrow> bool"
where
  "after_yield L xs q' k' \<longleftrightarrow> (case xs of [] \<Rightarrow> lv_done L q' k' | _ # ys \<Rightarrow> lv_pending L q' k' ys)"

lemma after_simps [simp]:
  "after_reset L q k [] q' k' \<longleftrightarrow> lv_valid L q' \<and> (lv_done L q k \<longrightarrow> lv_done L q' k')"
  "after_reset L q k (x # ys) q' k' \<longleftrightarrow> lv_pending L q' k' ys"
  "after_yield L [] q' k' \<longleftrightarrow> lv_done L q' k'"
  "after_yield L (x # ys) q' k' \<longleftrightarrow> lv_pending L q' k' ys"
  by (simp_all add: after_reset_def after_yield_def)

locale query_level =
  fixes L :: "('d, 's, 'a, 'v, 'e, 'h) qlevel" and ok :: "hdql_Context \<Rightarrow> bool"
  assumes reset_law: "lv_valid L q \<Longrightarrow> key_fits L k \<Longrightarrow> ok c \<Longrightarrow> d = None \<longrightarrow> lv_null L \<Longrightarrow>
      \<exists>q' k' c'. hdql__query_reset q d k c = Some (head_datum (lv_elems L d), q', k', c') \<and>
        after_reset L q k (lv_elems L d) q' k' \<and> key_after L (lv_elems L d) k k' \<and> ok c'"
    and yield_law: "lv_pending L q k xs \<Longrightarrow> key_fits L k \<Longrightarrow> ok c \<Longrightarrow>
      \<exists>q' k' c'. hdql__query_yield q k c = Some (head_datum xs, q', k', c') \<and>
        after_yield L xs q' k' \<and> key_after L xs k k' \<and> ok c'"
    and done_pending: "lv_done L q k \<Longrightarrow> lv_pending L q k []"
    and pending_valid: "lv_pending L q k xs \<Longrightarrow> lv_valid L q"
    and kf_shape: "lv_shape L (lv_kf L e k0) = lv_shape L k0"
    and kf_cong: "lv_shape L k1 = lv_shape L k2 \<Longrightarrow> lv_kf L e k1 = lv_kf L e k2"
    and shape_terminal: "lv_shape L k1 = lv_shape L k2 \<Longrightarrow> k_isTerminal k1 = k_isTerminal k2"
    and shape_ok: "lv_shape L k1 = lv_shape L k2 \<Longrightarrow> lv_keyok L k1 = lv_keyok L k2"
begin

definition same_shape :: "'v hdql_Key option \<Rightarrow> 'v hdql_Key option \<Rightarrow> bool" where
  "same_shape k k' \<longleftrightarrow> map_option (lv_shape L) k = map_option (lv_shape L) k'"

lemma same_shape_refl [simp]: "same_shape k k"
  by (simp add: same_shape_def)

lemma same_shape_fits: "same_shape k k' \<Longrightarrow> key_fits L k \<longleftrightarrow> key_fits L k'"
  by (cases k; cases k') (auto simp: same_shape_def key_fits_def dest: shape_ok)

lemma same_shape_None: "same_shape k k' \<Longrightarrow> k = None \<longleftrightarrow> k' = None"
  by (cases k; cases k') (auto simp: same_shape_def)

lemma same_shape_kf: "same_shape k k' \<Longrightarrow> map_option (lv_kf L e) k = map_option (lv_kf L e) k'"
  by (cases k; cases k') (auto simp: same_shape_def dest: kf_cong)

lemma same_shape_terminal:
  "same_shape k k' \<Longrightarrow> (\<exists>k0. k = Some k0 \<and> k_isTerminal k0) \<longleftrightarrow> (\<exists>k0. k' = Some k0 \<and> k_isTerminal k0)"
  by (cases k; cases k') (auto simp: same_shape_def dest: shape_terminal)

lemma kf_same_shape [simp]: "same_shape (map_option (lv_kf L e) k) k"
  by (cases k) (auto simp: same_shape_def kf_shape)

lemma key_after_shape: "key_after L xs k k' \<Longrightarrow> same_shape k' k"
  by (cases xs) (auto simp: key_after_def same_shape_def kf_shape option.map_comp o_def)

text \<open>Both laws, for a key that has the shape of a given one.\<close>

lemma reset_from:
  assumes "lv_valid L q" "same_shape k k0" "key_fits L k0" "ok c" "d = None \<longrightarrow> lv_null L"
  obtains q' k' c' where "hdql__query_reset q d k c = Some (head_datum (lv_elems L d), q', k', c')"
    "after_reset L q k (lv_elems L d) q' k'" "ok c'" "same_shape k' k0" "k' = None \<longleftrightarrow> k = None"
    "\<And>x e xs. lv_elems L d = (x, e) # xs \<Longrightarrow> k' = map_option (lv_kf L e) k0"
proof -
  have "key_fits L k" using assms(2,3) same_shape_fits by blast
  then obtain q' k' c' where r: "hdql__query_reset q d k c = Some (head_datum (lv_elems L d), q', k', c')"
    "after_reset L q k (lv_elems L d) q' k'" "key_after L (lv_elems L d) k k'" "ok c'"
    using reset_law [OF assms(1) _ assms(4,5)] by blast
  have "same_shape k' k0" using key_after_shape [OF r(3)] assms(2) by (simp add: same_shape_def)
  moreover have "k' = map_option (lv_kf L e) k0" if "lv_elems L d = (x, e) # xs" for x e xs
    using r(3) same_shape_kf [OF assms(2)] that by (simp add: key_after_def)
  ultimately show thesis using that r same_shape_None [OF key_after_shape [OF r(3)]] by blast
qed

lemma yield_from:
  assumes "lv_pending L q k xs" "same_shape k k0" "key_fits L k0" "ok c"
  obtains q' k' c' where "hdql__query_yield q k c = Some (head_datum xs, q', k', c')"
    "after_yield L xs q' k'" "ok c'" "same_shape k' k0" "k' = None \<longleftrightarrow> k = None"
    "\<And>x e ys. xs = (x, e) # ys \<Longrightarrow> k' = map_option (lv_kf L e) k0"
proof -
  have "key_fits L k" using assms(2,3) same_shape_fits by blast
  then obtain q' k' c' where r: "hdql__query_yield q k c = Some (head_datum xs, q', k', c')"
    "after_yield L xs q' k'" "key_after L xs k k'" "ok c'"
    using yield_law [OF assms(1) _ assms(4)] by blast
  have "same_shape k' k0" using key_after_shape [OF r(3)] assms(2) by (simp add: same_shape_def)
  moreover have "k' = map_option (lv_kf L e) k0" if "xs = (x, e) # ys" for x e ys
    using r(3) same_shape_kf [OF assms(2)] that by (simp add: key_after_def)
  ultimately show thesis using that r same_shape_None [OF key_after_shape [OF r(3)]] by blast
qed

end

text \<open>
  Most levels are fit for a yield after any call, and are done when nothing is left.
\<close>

locale pending_level =
  fixes L :: "('d, 's, 'a, 'v, 'e, 'h) qlevel" and ok :: "hdql_Context \<Rightarrow> bool"
  assumes reset_pending: "lv_valid L q \<Longrightarrow> key_fits L k \<Longrightarrow> ok c \<Longrightarrow> d = None \<longrightarrow> lv_null L \<Longrightarrow>
      \<exists>q' k' c'. hdql__query_reset q d k c = Some (head_datum (lv_elems L d), q', k', c') \<and>
        lv_pending L q' k' (tl (lv_elems L d)) \<and> key_after L (lv_elems L d) k k' \<and> ok c'"
    and yield_pending: "lv_pending L q k xs \<Longrightarrow> key_fits L k \<Longrightarrow> ok c \<Longrightarrow>
      \<exists>q' k' c'. hdql__query_yield q k c = Some (head_datum xs, q', k', c') \<and>
        lv_pending L q' k' (tl xs) \<and> key_after L xs k k' \<and> ok c'"
    and done_law: "lv_done L q k = lv_pending L q k []"
    and valid_law: "lv_pending L q k xs \<Longrightarrow> lv_valid L q"
    and shape_laws: "lv_shape L (lv_kf L e k0) = lv_shape L k0"
      "lv_shape L k1 = lv_shape L k2 \<Longrightarrow> lv_kf L e k1 = lv_kf L e k2"
      "lv_shape L k1 = lv_shape L k2 \<Longrightarrow> k_isTerminal k1 = k_isTerminal k2"
      "lv_shape L k1 = lv_shape L k2 \<Longrightarrow> lv_keyok L k1 = lv_keyok L k2"

sublocale pending_level \<subseteq> query_level
proof
  fix q k c and d :: "'d option"
  assume "lv_valid L q" "key_fits L k" "ok c" "d = None \<longrightarrow> lv_null L"
  from reset_pending [OF this] obtain q' k' c' where
    "hdql__query_reset q d k c = Some (head_datum (lv_elems L d), q', k', c')"
    "lv_pending L q' k' (tl (lv_elems L d))" "key_after L (lv_elems L d) k k'" "ok c'" by blast
  then show "\<exists>q' k' c'. hdql__query_reset q d k c = Some (head_datum (lv_elems L d), q', k', c') \<and>
      after_reset L q k (lv_elems L d) q' k' \<and> key_after L (lv_elems L d) k k' \<and> ok c'"
    by (cases "lv_elems L d") (auto simp: done_law dest: valid_law)
next
  fix q k xs c
  assume "lv_pending L q k xs" "key_fits L k" "ok c"
  from yield_pending [OF this] obtain q' k' c' where
    "hdql__query_yield q k c = Some (head_datum xs, q', k', c')" "lv_pending L q' k' (tl xs)"
    "key_after L xs k k'" "ok c'" by blast
  then show "\<exists>q' k' c'. hdql__query_yield q k c = Some (head_datum xs, q', k', c') \<and>
      after_yield L xs q' k' \<and> key_after L xs k k' \<and> ok c'"
    by (cases xs) (auto simp: done_law)
qed (simp only: done_law, erule valid_law, rule shape_laws(1), (erule shape_laws)+)

section \<open>What a chain enumerates\<close>

text \<open>A level with the key it was given at the start (null when the caller wants no keys).\<close>

type_synonym ('d, 's, 'a, 'v, 'e, 'h) klevel = "('d, 's, 'a, 'v, 'e, 'h) qlevel \<times> 'v hdql_Key option"

fun lpaths :: "('d, 's, 'a, 'v, 'e, 'h) klevel list \<Rightarrow> 'd \<Rightarrow> ('d \<times> 'e list) list" where
  "lpaths [] y = [(y, [])]"
| "lpaths (l # ls) y =
     concat (map (\<lambda>(z, e). map (\<lambda>(w, es). (w, e # es)) (lpaths ls z)) (lv_elems (fst l) (Some y)))"

definition expand :: "('d, 's, 'a, 'v, 'e, 'h) klevel list \<Rightarrow> ('d \<times> 'e) list \<Rightarrow> ('d \<times> 'e list) list" where
  "expand ls xs = concat (map (\<lambda>(z, e). map (\<lambda>(w, es). (w, e # es)) (lpaths ls z)) xs)"

lemma expand_simps [simp]:
  "expand ls [] = []"
  "expand ls ((z, e) # xs) = map (\<lambda>(w, es). (w, e # es)) (lpaths ls z) @ expand ls xs"
  by (simp_all add: expand_def)

lemma lpaths_expand: "lpaths (l # ls) y = expand ls (lv_elems (fst l) (Some y))"
  by (simp add: expand_def)

text \<open>The number of steps left below a datum, and below a list of elements.\<close>

fun lweight :: "('d, 's, 'a, 'v, 'e, 'h) klevel list \<Rightarrow> 'd \<Rightarrow> nat" where
  "lweight [] y = 0"
| "lweight (l # ls) y = sum_list (map (\<lambda>(z, e). Suc (lweight ls z)) (lv_elems (fst l) (Some y)))"

definition xweight :: "('d, 's, 'a, 'v, 'e, 'h) klevel list \<Rightarrow> ('d \<times> 'e) list \<Rightarrow> nat" where
  "xweight ls xs = sum_list (map (\<lambda>(z, e). Suc (lweight ls z)) xs)"

lemma xweight_simps [simp]:
  "xweight ls [] = 0"
  "xweight ls ((z, e) # xs) = Suc (lweight ls z) + xweight ls xs"
  by (simp_all add: xweight_def)

lemma lweight_xweight: "lweight (l # ls) y = xweight ls (lv_elems (fst l) (Some y))"
  by (simp add: xweight_def)

text \<open>
  The queries passed on the way down, nearest first, each as a frame: its level, its current
  element's tag and the elements it still has to offer.
\<close>

type_synonym ('d, 's, 'a, 'v, 'e, 'h) frame =
  "('d, 's, 'a, 'v, 'e, 'h) klevel \<times> 'e \<times> ('d \<times> 'e) list"

definition upath :: "('d, 's, 'a, 'v, 'e, 'h) frame list \<Rightarrow> 'e list" where
  "upath fs = rev (map (\<lambda>(l, e, rem). e) fs)"

definition ulevels :: "('d, 's, 'a, 'v, 'e, 'h) frame list \<Rightarrow> ('d, 's, 'a, 'v, 'e, 'h) klevel list" where
  "ulevels fs = rev (map fst fs)"

definition prefixed :: "'e list \<Rightarrow> ('d \<times> 'e list) list \<Rightarrow> ('d \<times> 'e list) list" where
  "prefixed p xs = map (\<lambda>(w, es). (w, p @ es)) xs"

fun pend_up :: "('d, 's, 'a, 'v, 'e, 'h) frame list \<Rightarrow> ('d, 's, 'a, 'v, 'e, 'h) klevel list \<Rightarrow> ('d \<times> 'e list) list" where
  "pend_up [] ls = []"
| "pend_up ((l, e, rem) # fs) ls = prefixed (upath fs) (expand ls rem) @ pend_up fs (l # ls)"

fun weight_up :: "('d, 's, 'a, 'v, 'e, 'h) frame list \<Rightarrow> ('d, 's, 'a, 'v, 'e, 'h) klevel list \<Rightarrow> nat" where
  "weight_up [] ls = 0"
| "weight_up ((l, e, rem) # fs) ls = xweight ls rem + weight_up fs (l # ls)"

lemma upath_simps [simp]:
  "upath [] = []"
  "upath ((l, e, rem) # fs) = upath fs @ [e]"
  by (simp_all add: upath_def)

lemma ulevels_simps [simp]:
  "ulevels [] = []"
  "ulevels ((l, e, rem) # fs) = ulevels fs @ [l]"
  by (simp_all add: ulevels_def)

lemma prefixed_simps [simp]:
  "prefixed p [] = []"
  "prefixed p ((w, es) # xs) = (w, p @ es) # prefixed p xs"
  "prefixed p (xs @ ys) = prefixed p xs @ prefixed p ys"
  by (simp_all add: prefixed_def)

lemma prefixed_cons: "prefixed p (map (\<lambda>(w, es). (w, e # es)) xs) = prefixed (p @ [e]) xs"
  by (simp add: prefixed_def o_def split_beta)

text \<open>Taking the next element of a frame gives what lies below it, then the rest.\<close>

lemma pend_up_take:
  "pend_up ((l, e, (x, e') # rem) # fs) ls =
     prefixed (upath fs @ [e']) (lpaths ls x) @ pend_up ((l, e', rem) # fs) ls"
  by (simp add: prefixed_cons)

lemma weight_up_take:
  "weight_up ((l, e, (x, e') # rem) # fs) ls = Suc (lweight ls x) + weight_up ((l, e', rem) # fs) ls"
  by simp

declare lpaths.simps(2) [simp del] lweight.simps(2) [simp del]

text \<open>Entering a level on a datum.\<close>

lemma pend_up_enter:
  "prefixed (upath fs) (lpaths (l # ls) x) @ pend_up fs (l # ls) =
     pend_up ((l, e, lv_elems (fst l) (Some x)) # fs) ls"
  by (simp only: pend_up.simps lpaths_expand)

lemma weight_up_enter:
  "lweight (l # ls) x + weight_up fs (l # ls) = weight_up ((l, e, lv_elems (fst l) (Some x)) # fs) ls"
  by (simp only: weight_up.simps lweight_xweight)

text \<open>The first frame from the terminal up that still has an element.\<close>

fun next_frame ::
  "('d, 's, 'a, 'v, 'e, 'h) frame list \<Rightarrow> ('d, 's, 'a, 'v, 'e, 'h) klevel list \<Rightarrow>
   ('d \<times> ('d, 's, 'a, 'v, 'e, 'h) frame list \<times> ('d, 's, 'a, 'v, 'e, 'h) klevel list) option"
where
  "next_frame [] ls = None"
| "next_frame ((l, e, []) # fs) ls = next_frame fs (l # ls)"
| "next_frame ((l, e, (x, e') # rem) # fs) ls = Some (x, (l, e', rem) # fs, ls)"

lemma next_frame_None: "next_frame fs ls = None \<Longrightarrow> pend_up fs ls = []"
  by (induction fs ls rule: next_frame.induct) auto

lemma next_frame_Some:
  "next_frame fs ls = Some (x, fs', ls') \<Longrightarrow>
   pend_up fs ls = prefixed (upath fs') (lpaths ls' x) @ pend_up fs' ls' \<and>
   weight_up fs ls = Suc (lweight ls' x) + weight_up fs' ls' \<and>
   ulevels fs' @ ls' = ulevels fs @ ls \<and> fs' \<noteq> []"
  by (induction fs ls rule: next_frame.induct) (auto simp: pend_up_take weight_up_take prefixed_cons)

section \<open>Positions in the chain and in the keys\<close>

definition kz_is ::
  "'v key_pos option \<Rightarrow> 'v hdql_Key option list \<Rightarrow> 'v hdql_Key option \<Rightarrow> 'v hdql_Key option list \<Rightarrow> bool" where
  "kz_is kz kps k kns \<longleftrightarrow> (case kz of
     None \<Rightarrow> (\<forall>x \<in> set (kps @ k # kns). x = None)
   | Some (a, b, c) \<Rightarrow> kps = map Some a \<and> k = Some b \<and> kns = map Some c)"

definition klevel_ok :: "(hdql_Context \<Rightarrow> bool) \<Rightarrow> ('d, 's, 'a, 'v, 'e, 'h) klevel \<Rightarrow> bool" where
  "klevel_ok ok l \<longleftrightarrow> query_level (fst l) ok \<and> key_fits (fst l) (snd l)"

definition kshape :: "('d, 's, 'a, 'v, 'e, 'h) klevel \<Rightarrow> 'v hdql_Key option \<Rightarrow> bool" where
  "kshape l k \<longleftrightarrow> map_option (lv_shape (fst l)) k = map_option (lv_shape (fst l)) (snd l)"

definition nonterm :: "('d, 's, 'a, 'v, 'e, 'h) klevel \<Rightarrow> bool" where
  "nonterm l \<longleftrightarrow> (\<forall>k0. snd l = Some k0 \<longrightarrow> \<not> k_isTerminal k0)"

definition ekey :: "('d, 's, 'a, 'v, 'e, 'h) klevel \<Rightarrow> 'e \<Rightarrow> 'v hdql_Key option" where
  "ekey l e = map_option (lv_kf (fst l) e) (snd l)"

lemma kz_cur_is [simp]: "kz_is kz kps k kns \<Longrightarrow> kz_cur kz = k"
  by (cases kz) (auto simp: kz_is_def kz_cur_def split: prod.splits)

lemma kz_put_is:
  "kz_is kz kps k kns \<Longrightarrow> (k' = None \<longleftrightarrow> k = None) \<Longrightarrow> kz_is (kz_put k' kz) kps k' kns"
  by (cases kz) (auto simp: kz_is_def kz_put_def split: prod.splits option.splits)

lemma kz_prev_is:
  "kz_is kz (kp # kps) k kns \<Longrightarrow> \<exists>kz'. kz_prev kz = Some kz' \<and> kz_is kz' kps kp (k # kns)"
  by (cases kz) (auto simp: kz_is_def kz_prev_def hdql__keys_prev_def Cons_eq_map_conv split: prod.splits)

lemma kz_next_is:
  "kz_is kz kps k (kn # kns) \<Longrightarrow> (\<And>k0. k = Some k0 \<Longrightarrow> \<not> k_isTerminal k0) \<Longrightarrow>
   \<exists>kz'. kz_next kz = Some kz' \<and> kz_is kz' (k # kps) kn kns"
  by (cases kz) (auto simp: kz_is_def kz_next_def hdql__keys_next_def Cons_eq_map_conv split: prod.splits)

lemma ekey_shape: "klevel_ok ok l \<Longrightarrow> kshape l (ekey l e)"
  using query_level.kf_shape [of "fst l" ok]
  by (cases "snd l") (auto simp: klevel_ok_def kshape_def ekey_def)

lemma kshape_nonterm: "klevel_ok ok l \<Longrightarrow> kshape l k \<Longrightarrow> nonterm l \<Longrightarrow> k = Some k0 \<Longrightarrow> \<not> k_isTerminal k0"
  unfolding klevel_ok_def kshape_def nonterm_def
  by (cases "snd l") (auto dest: query_level.shape_terminal)

text \<open>The laws of a level in the terms of the chain.\<close>

lemma klevel_reset:
  assumes "klevel_ok ok l" "lv_valid (fst l) q" "kshape l k" "ok c" "kz_is kz kps k kns"
    "d = None \<longrightarrow> lv_null (fst l)"
  obtains q' k' c' where "hdql__query_reset q d (kz_cur kz) c = Some (head_datum (lv_elems (fst l) d), q', k', c')"
    "after_reset (fst l) q k (lv_elems (fst l) d) q' k'" "ok c'" "kshape l k'"
    "kz_is (kz_put k' kz) kps k' kns"
    "\<And>x e xs. lv_elems (fst l) d = (x, e) # xs \<Longrightarrow> k' = ekey l e"
proof -
  have L: "query_level (fst l) ok" and fits: "key_fits (fst l) (snd l)"
    using assms(1) by (simp_all add: klevel_ok_def)
  have "query_level.same_shape (fst l) k (snd l)"
    using assms(3) by (simp add: query_level.same_shape_def [OF L] kshape_def)
  from query_level.reset_from [OF L assms(2) this fits assms(4,6)] obtain q' k' c' where
    "hdql__query_reset q d k c = Some (head_datum (lv_elems (fst l) d), q', k', c')"
    "after_reset (fst l) q k (lv_elems (fst l) d) q' k'" "ok c'" "query_level.same_shape (fst l) k' (snd l)"
    "k' = None \<longleftrightarrow> k = None"
    "\<And>x e xs. lv_elems (fst l) d = (x, e) # xs \<Longrightarrow> k' = map_option (lv_kf (fst l) e) (snd l)"
    by metis
  then show thesis
    using that kz_put_is [OF assms(5)] assms(5)
    by (simp add: kshape_def query_level.same_shape_def [OF L] ekey_def)
qed

lemma klevel_yield:
  assumes "klevel_ok ok l" "lv_pending (fst l) q k xs" "kshape l k" "ok c" "kz_is kz kps k kns"
  obtains q' k' c' where "hdql__query_yield q (kz_cur kz) c = Some (head_datum xs, q', k', c')"
    "after_yield (fst l) xs q' k'" "ok c'" "kshape l k'"
    "kz_is (kz_put k' kz) kps k' kns"
    "\<And>x e ys. xs = (x, e) # ys \<Longrightarrow> k' = ekey l e"
proof -
  have L: "query_level (fst l) ok" and fits: "key_fits (fst l) (snd l)"
    using assms(1) by (simp_all add: klevel_ok_def)
  have "query_level.same_shape (fst l) k (snd l)"
    using assms(3) by (simp add: query_level.same_shape_def [OF L] kshape_def)
  from query_level.yield_from [OF L assms(2) this fits assms(4)] obtain q' k' c' where
    "hdql__query_yield q k c = Some (head_datum xs, q', k', c')"
    "after_yield (fst l) xs q' k'" "ok c'" "query_level.same_shape (fst l) k' (snd l)"
    "k' = None \<longleftrightarrow> k = None"
    "\<And>x e ys. xs = (x, e) # ys \<Longrightarrow> k' = map_option (lv_kf (fst l) e) (snd l)"
    by metis
  then show thesis
    using that kz_put_is [OF assms(5)] assms(5)
    by (simp add: kshape_def query_level.same_shape_def [OF L] ekey_def)
qed

text \<open>
  The queries before the current one (nearest first): each is pending on what its frame says,
  and, when \<open>S\<close>, its key is the one of its current element.
\<close>

fun up_ok ::
  "(hdql_Context \<Rightarrow> bool) \<Rightarrow> bool \<Rightarrow> ('d, 's, 'a, 'v) hdql_Query list \<Rightarrow> 'v hdql_Key option list \<Rightarrow>
   ('d, 's, 'a, 'v, 'e, 'h) frame list \<Rightarrow> bool"
where
  "up_ok ok S [] [] [] \<longleftrightarrow> True"
| "up_ok ok S (p # ps) (k # ks) ((l, e, rem) # fs) \<longleftrightarrow>
     klevel_ok ok l \<and> lv_pending (fst l) p k rem \<and> kshape l k \<and> (S \<longrightarrow> k = ekey l e) \<and> nonterm l \<and>
     up_ok ok S ps ks fs"
| "up_ok ok S _ _ _ \<longleftrightarrow> False"

text \<open>The queries after it; \<open>R\<close> says what is known of each.\<close>

fun suf_ok ::
  "(hdql_Context \<Rightarrow> bool) \<Rightarrow>
   (('d, 's, 'a, 'v, 'e, 'h) qlevel \<Rightarrow> ('d, 's, 'a, 'v) hdql_Query \<Rightarrow> 'v hdql_Key option \<Rightarrow> bool) \<Rightarrow>
   ('d, 's, 'a, 'v) hdql_Query list \<Rightarrow> 'v hdql_Key option list \<Rightarrow>
   ('d, 's, 'a, 'v, 'e, 'h) klevel list \<Rightarrow> bool"
where
  "suf_ok ok R [] [] [] \<longleftrightarrow> True"
| "suf_ok ok R (n # ns) (k # ks) (l # ls) \<longleftrightarrow>
     klevel_ok ok l \<and> R (fst l) n k \<and> kshape l k \<and> (ls \<noteq> [] \<longrightarrow> nonterm l) \<and> suf_ok ok R ns ks ls"
| "suf_ok ok R _ _ _ \<longleftrightarrow> False"

definition depleted :: "('d, 's, 'a, 'v, 'e, 'h) qlevel \<Rightarrow> ('d, 's, 'a, 'v) hdql_Query \<Rightarrow> 'v hdql_Key option \<Rightarrow> bool" where
  "depleted L q k \<longleftrightarrow> lv_done L q k"

definition resettable :: "('d, 's, 'a, 'v, 'e, 'h) qlevel \<Rightarrow> ('d, 's, 'a, 'v) hdql_Query \<Rightarrow> 'v hdql_Key option \<Rightarrow> bool" where
  "resettable L q k \<longleftrightarrow> lv_valid L q"

lemma suf_ok_mono:
  "suf_ok ok R ns ks ls \<Longrightarrow> (\<And>l n k. klevel_ok ok l \<Longrightarrow> R (fst l) n k \<Longrightarrow> R' (fst l) n k) \<Longrightarrow>
   suf_ok ok R' ns ks ls"
  by (induction ok R ns ks ls rule: suf_ok.induct) auto

lemma depleted_resettable: "suf_ok ok depleted ns ks ls \<Longrightarrow> suf_ok ok resettable ns ks ls"
  by (erule suf_ok_mono)
    (auto simp: depleted_def resettable_def klevel_ok_def dest: query_level.done_pending query_level.pending_valid)

text \<open>
  What stays true of a query that is reset to null or yields null, and lets it be reset: being
  fit for a reset, and being depleted.
\<close>

definition lasting ::
  "(hdql_Context \<Rightarrow> bool) \<Rightarrow>
   (('d, 's, 'a, 'v, 'e, 'h) qlevel \<Rightarrow> ('d, 's, 'a, 'v) hdql_Query \<Rightarrow> 'v hdql_Key option \<Rightarrow> bool) \<Rightarrow> bool"
where
  "lasting ok R \<longleftrightarrow> (\<forall>L q k. query_level L ok \<longrightarrow>
     (R L q k \<longrightarrow> lv_valid L q) \<and> (lv_done L q k \<longrightarrow> R L q k) \<and>
     (\<forall>q' k'. R L q k \<longrightarrow> after_reset L q k [] q' k' \<longrightarrow> R L q' k'))"

lemma lasting_resettable: "lasting ok resettable"
  by (auto simp: lasting_def resettable_def dest: query_level.done_pending query_level.pending_valid)

lemma lasting_depleted: "lasting ok depleted"
  by (auto simp: lasting_def depleted_def dest: query_level.done_pending query_level.pending_valid)

lemma lasting_facts:
  assumes "lasting ok R" "klevel_ok ok l"
  shows lasting_valid: "R (fst l) q k \<Longrightarrow> lv_valid (fst l) q"
    and lasting_done: "lv_done (fst l) q k \<Longrightarrow> R (fst l) q k"
    and lasting_null: "R (fst l) q k \<Longrightarrow> after_reset (fst l) q k [] q' k' \<Longrightarrow> R (fst l) q' k'"
  using assms unfolding lasting_def klevel_ok_def by blast+

lemma klevel_done_pending: "klevel_ok ok l \<Longrightarrow> lv_done (fst l) q k \<Longrightarrow> lv_pending (fst l) q k []"
  unfolding klevel_ok_def by (blast dest: query_level.done_pending)

lemma suf_ok_empty: "suf_ok ok R ns ks ls \<Longrightarrow> ns = [] \<longleftrightarrow> ls = []"
  by (cases ns; cases ks; cases ls) auto

lemma up_ok_empty: "up_ok ok S ps ks fs \<Longrightarrow> ps = [] \<longleftrightarrow> fs = []"
  by (cases ps; cases ks; cases fs) auto

section \<open>The steps of \<open>hdql_query_get\<close>\<close>

text \<open>The current query pending as its frame says, with the key of its current element.\<close>

definition at_frame ::
  "(hdql_Context \<Rightarrow> bool) \<Rightarrow> ('d, 's, 'a, 'v) hdql_Query list \<Rightarrow> ('d, 's, 'a, 'v) hdql_Query \<Rightarrow>
   'v hdql_Key option list \<Rightarrow> 'v hdql_Key option \<Rightarrow> ('d, 's, 'a, 'v, 'e, 'h) frame list \<Rightarrow> bool"
where
  "at_frame ok ps q kps k fs \<longleftrightarrow> (case fs of [] \<Rightarrow> False
     | (l, e, rem) # us \<Rightarrow> up_ok ok True ps kps us \<and> klevel_ok ok l \<and> lv_pending (fst l) q k rem \<and> k = ekey l e)"

lemma backtrack_correct:
  assumes "up_ok ok S ps kps fs" "klevel_ok ok l" "lv_pending (fst l) q k rem" "kshape l k"
    "suf_ok ok depleted ns kns ls" "ls \<noteq> [] \<Longrightarrow> nonterm l" "kz_is kz kps k kns" "ok c"
  shows "\<exists>r ps' q' ns' kz' c' kps' k' kns'. qg_backtrack ps q ns kz c = Some (r, ps', q', ns', kz', c') \<and>
    ok c' \<and> kz_is kz' kps' k' kns' \<and>
    (case next_frame ((l, e, rem) # fs) ls of
       None \<Rightarrow> r = None \<and> ps' = [] \<and> kps' = [] \<and>
         suf_ok ok depleted (q' # ns') (k' # kns') (ulevels fs @ l # ls)
     | Some (x, fs', ls') \<Rightarrow> r = Some x \<and> suf_ok ok depleted ns' kns' ls' \<and>
         (case fs' of [] \<Rightarrow> False | (l', e', rem') # us \<Rightarrow>
            up_ok ok S ps' kps' us \<and> klevel_ok ok l' \<and> lv_pending (fst l') q' k' rem' \<and> k' = ekey l' e' \<and>
            (ls' \<noteq> [] \<longrightarrow> nonterm l')))"
  using assms
proof (induction ps arbitrary: q k l e rem ns kns ls kz c kps fs)
  case Nil
  then have nil: "kps = [] \<and> fs = []" by (cases kps; cases fs) auto
  obtain q' k' c' where y: "hdql__query_yield q (kz_cur kz) c = Some (head_datum rem, q', k', c')"
    "after_yield (fst l) rem q' k'" "ok c'" "kshape l k'" "kz_is (kz_put k' kz) kps k' kns"
    "\<And>x e ys. rem = (x, e) # ys \<Longrightarrow> k' = ekey l e"
    using klevel_yield [OF Nil.prems(2,3,4,8,7)] by metis
  show ?case
  proof (cases rem)
    case Nil
    then show ?thesis
      using y nil \<open>klevel_ok ok l\<close> \<open>suf_ok ok depleted ns kns ls\<close> \<open>ls \<noteq> [] \<Longrightarrow> nonterm l\<close>
      by (auto simp: depleted_def intro!: exI [of _ "kz_put k' kz"])
  next
    case (Cons xe rem')
    obtain x e' where "xe = (x, e')" by (cases xe)
    then show ?thesis
      using y nil Cons Nil.prems(2,5,6)
      by (intro exI [of _ "Some x"] exI [of _ "[]"] exI [of _ q'] exI [of _ ns] exI [of _ "kz_put k' kz"]
          exI [of _ c'] exI [of _ "[]"] exI [of _ k'] exI [of _ kns]) simp
  qed
next
  case (Cons p ps)
  obtain kp kps' lp ep remp fs' where up: "kps = kp # kps'" "fs = (lp, ep, remp) # fs'"
    using Cons.prems(1) by (cases kps; cases fs) auto
  note u = Cons.prems(1) [unfolded up, simplified]
  obtain q' k' c' where y: "hdql__query_yield q (kz_cur kz) c = Some (head_datum rem, q', k', c')"
    "after_yield (fst l) rem q' k'" "ok c'" "kshape l k'" "kz_is (kz_put k' kz) kps k' kns"
    "\<And>x e ys. rem = (x, e) # ys \<Longrightarrow> k' = ekey l e"
    using klevel_yield [OF Cons.prems(2,3,4,8,7)] by metis
  show ?case
  proof (cases rem)
    case Nil
    obtain kz1 where kz1: "kz_prev (kz_put k' kz) = Some kz1" "kz_is kz1 kps' kp (k' # kns)"
      using kz_prev_is y(5) up(1) by blast
    have suf: "suf_ok ok depleted (q' # ns) (k' # kns) (l # ls)"
      using Cons.prems(2,5,6) y(2,4) Nil by (simp add: depleted_def [of "fst l" q' k'])
    have "up_ok ok S ps kps' fs'" "klevel_ok ok lp" "lv_pending (fst lp) p kp remp" "kshape lp kp" "nonterm lp"
      using u by auto
    note IH = Cons.IH [OF this(1-4) suf this(5) kz1(2) y(3), of ep]
    have call: "qg_backtrack (p # ps) q ns kz c = qg_backtrack ps p (q' # ns) kz1 c'"
      using y(1) Nil kz1(1) by (simp add: Let_def)
    have nf: "next_frame ((l, e, rem) # fs) ls = next_frame ((lp, ep, remp) # fs') (l # ls)"
      "ulevels fs @ l # ls = ulevels fs' @ lp # l # ls"
      by (simp_all add: up Nil)
    show ?thesis unfolding call nf by (rule IH)
  next
    case (Cons xe rem')
    obtain x e' where "xe = (x, e')" by (cases xe)
    then show ?thesis
      using y Cons Cons.prems(1,2,5,6) by (auto intro!: exI [of _ "kz_put k' kz"])
  qed
qed

text \<open>
  After a descent on the way to the outputs \<open>outs\<close>, with at most \<open>w\<close> steps left and \<open>lv\<close> the
  levels of the chain: either a datum, the first of the outputs, with all queries pending on the
  rest, or null at a query without elements, with all outputs still to come.
\<close>

definition descended ::
  "(hdql_Context \<Rightarrow> bool) \<Rightarrow>
   (('d, 's, 'a, 'v, 'e, 'h) qlevel \<Rightarrow> ('d, 's, 'a, 'v) hdql_Query \<Rightarrow> 'v hdql_Key option \<Rightarrow> bool) \<Rightarrow>
   ('d \<times> 'e list) list \<Rightarrow> nat \<Rightarrow> ('d, 's, 'a, 'v, 'e, 'h) klevel list \<Rightarrow>
   'd option \<times> ('d, 's, 'a, 'v) chain_pos \<Rightarrow> bool"
where
  "descended ok R outs w lv res \<longleftrightarrow> (case res of (r, ps, q, ns, kz, c) \<Rightarrow>
     ok c \<and> (\<exists>kps k kns l e rem us ls. kz_is kz kps k kns \<and>
       up_ok ok True ps kps us \<and> klevel_ok ok l \<and> kshape l k \<and>
       suf_ok ok R ns kns ls \<and> (ls \<noteq> [] \<longrightarrow> nonterm l) \<and> ulevels us @ l # ls = lv \<and>
       (case r of
          None \<Rightarrow> R (fst l) q k \<and> rem = [] \<and> outs = pend_up ((l, e, rem) # us) ls \<and> weight_up ((l, e, rem) # us) ls \<le> w
        | Some y \<Rightarrow> lv_pending (fst l) q k rem \<and> ls = [] \<and> k = ekey l e \<and>
            outs = (y, upath ((l, e, rem) # us)) # pend_up ((l, e, rem) # us) [])))"

lemma descended_mono: "descended ok R outs w lv res \<Longrightarrow> w \<le> w' \<Longrightarrow> descended ok R outs w' lv res"
  by (cases res; cases "fst res") (fastforce simp: descended_def)+

lemma descended_null:
  "ok c \<Longrightarrow> kz_is kz kps k kns \<Longrightarrow> up_ok ok True ps kps us \<Longrightarrow> klevel_ok ok l \<Longrightarrow>
   R (fst l) q k \<Longrightarrow> kshape l k \<Longrightarrow> suf_ok ok R ns kns ls \<Longrightarrow> (ls \<noteq> [] \<Longrightarrow> nonterm l) \<Longrightarrow>
   ulevels us @ l # ls = lv \<Longrightarrow> outs = pend_up us (l # ls) \<Longrightarrow> weight_up us (l # ls) \<le> w \<Longrightarrow>
   descended ok R outs w lv (None, ps, q, ns, kz, c)"
  unfolding descended_def prod.case
  by (intro conjI exI [of _ kps] exI [of _ k] exI [of _ kns] exI [of _ l] exI [of _ undefined]
      exI [of _ "[]"] exI [of _ us] exI [of _ ls]) simp_all

lemma descended_datum:
  "ok c \<Longrightarrow> kz_is kz kps k [] \<Longrightarrow> up_ok ok True ps kps us \<Longrightarrow> klevel_ok ok l \<Longrightarrow>
   lv_pending (fst l) q k rem \<Longrightarrow> k = ekey l e \<Longrightarrow> ulevels us @ [l] = lv \<Longrightarrow>
   outs = (y, upath ((l, e, rem) # us)) # pend_up ((l, e, rem) # us) [] \<Longrightarrow>
   descended ok R outs w lv (Some y, ps, q, [], kz, c)"
  unfolding descended_def prod.case
  by (intro conjI exI [of _ kps] exI [of _ k] exI [of _ "[]"] exI [of _ l] exI [of _ e]
      exI [of _ rem] exI [of _ us] exI [of _ "[]"]) (simp_all add: ekey_shape)

lemma descend_correct:
  assumes "at_frame ok ps q kps k fs" "suf_ok ok R ns kns ls" "ls \<noteq> [] \<Longrightarrow> nonterm (fst (hd fs))"
    "kz_is kz kps k kns" "ok c" "lasting ok R"
  shows "\<exists>res. qg_descend ps q ns kz (Some x) c = Some res \<and>
    descended ok R (prefixed (upath fs) (lpaths ls x) @ pend_up fs ls) (lweight ls x + weight_up fs ls)
      (ulevels fs @ ls) res"
  using assms
proof (induction ns arbitrary: ps q kps k fs kns ls kz x c)
  case Nil
  obtain l e rem us where fs: "fs = (l, e, rem) # us"
    using Nil.prems(1) by (cases fs) (auto simp: at_frame_def)
  have "ls = [] \<and> kns = []" using Nil.prems(2) by (cases ls; cases kns) auto
  then show ?case
    using Nil.prems(1,4,5) unfolding fs at_frame_def
    by (auto intro!: descended_datum)
next
  case (Cons n ns)
  obtain l e rem us where fs: "fs = (l, e, rem) # us"
    using Cons.prems(1) by (cases fs) (auto simp: at_frame_def)
  obtain kn kns' m ls' where suf: "kns = kn # kns'" "ls = m # ls'"
    using Cons.prems(2) by (cases kns; cases ls) auto
  note at = Cons.prems(1) [unfolded fs at_frame_def, simplified]
  note s = Cons.prems(2) [unfolded suf, simplified]
  have nt: "nonterm l" using Cons.prems(3) by (simp add: suf fs)
  have kl: "kshape l k" using at ekey_shape [of ok l e] by simp
  obtain kz1 where kz1: "kz_next kz = Some kz1" "kz_is kz1 (k # kps) kn kns'"
    using kz_next_is [of kz kps k kn kns'] Cons.prems(4) suf(1) kshape_nonterm [OF _ kl nt] at by blast
  have valid: "lv_valid (fst m) n"
    using lasting_valid [OF Cons.prems(6)] s by blast
  have m: "klevel_ok ok m" "kshape m kn" using s by auto
  obtain n' k' c' where r: "hdql__query_reset n (Some x) (kz_cur kz1) c =
      Some (head_datum (lv_elems (fst m) (Some x)), n', k', c')"
    "after_reset (fst m) n kn (lv_elems (fst m) (Some x)) n' k'" "ok c'" "kshape m k'"
    "kz_is (kz_put k' kz1) (k # kps) k' kns'"
    "\<And>y e xs. lv_elems (fst m) (Some x) = (y, e) # xs \<Longrightarrow> k' = ekey m e"
    using klevel_reset [OF m(1) valid m(2) Cons.prems(5) kz1(2), of "Some x"] by auto
  have up: "up_ok ok True (q # ps) (k # kps) fs" using at nt kl by (auto simp: fs)
  show ?case
  proof (cases "lv_elems (fst m) (Some x)")
    case Nil
    have out: "prefixed (upath fs) (lpaths ls x) @ pend_up fs ls = pend_up ((m, undefined, []) # fs) ls'"
      "weight_up ((m, undefined, []) # fs) ls' \<le> lweight ls x + weight_up fs ls"
      using pend_up_enter [of fs m ls' x] weight_up_enter [of m ls' x fs] Nil suf(2) by simp_all
    have call: "qg_descend ps q (n # ns) kz (Some x) c = Some (None, q # ps, n', ns, kz_put k' kz1, c')"
      using kz1(1) r(1) Nil by (simp add: Let_def)
    have "descended ok R (prefixed (upath fs) (lpaths ls x) @ pend_up fs ls) (lweight ls x + weight_up fs ls)
        (ulevels fs @ ls) (None, q # ps, n', ns, kz_put k' kz1, c')"
    proof (rule descended_null [where l = m and us = fs])
      show "kz_is (kz_put k' kz1) (k # kps) k' kns'" by (rule r(5))
      show "suf_ok ok R ns kns' ls'" using s by blast
      show "ulevels fs @ m # ls' = ulevels fs @ ls" by (simp add: suf(2))
      show "weight_up fs (m # ls') \<le> lweight ls x + weight_up fs ls" using out(2) by (simp add: suf(2))
      show "prefixed (upath fs) (lpaths ls x) @ pend_up fs ls = pend_up fs (m # ls')"
        using out(1) by simp
      show "R (fst m) n' k'" using lasting_null [OF Cons.prems(6), of m n kn n' k'] r(2) s Nil by simp
    qed (use r m s up in auto)
    then show ?thesis using call by blast
  next
    case (Cons ye xs)
    obtain y e1 where ye: "ye = (y, e1)" by (cases ye)
    let ?fs = "(m, e1, xs) # fs"
    have at': "at_frame ok (q # ps) n' (k # kps) k' ?fs"
      using up m(1) r(2,6) Cons ye by (simp add: at_frame_def)
    have suf': "suf_ok ok R ns kns' ls'" and nt': "ls' \<noteq> [] \<Longrightarrow> nonterm (fst (hd ?fs))" using s by auto
    have out: "prefixed (upath fs) (lpaths ls x) @ pend_up fs ls =
        prefixed (upath ?fs) (lpaths ls' y) @ pend_up ?fs ls'"
      "lweight ls' y + weight_up ?fs ls' \<le> lweight ls x + weight_up fs ls"
      using pend_up_enter [of fs m ls' x] weight_up_enter [of m ls' x fs] Cons ye suf(2)
        pend_up_take [of m undefined y e1 xs fs ls'] weight_up_take [of m undefined y e1 xs fs ls']
      by simp_all
    have call: "qg_descend ps q (n # ns) kz (Some x) c = qg_descend (q # ps) n' ns (kz_put k' kz1) (Some y) c'"
      using kz1(1) r(1) Cons ye by (simp add: Let_def)
    have lv: "ulevels ?fs @ ls' = ulevels fs @ ls" by (simp add: suf(2))
    show ?thesis
      using Cons.IH [OF at' suf' nt' r(5) r(3) Cons.prems(6), of y] descended_mono [OF _ out(2)]
      unfolding call out(1) lv by blast
  qed
qed

text \<open>The whole loop: the next output, or null when there is none.\<close>

definition advanced ::
  "(hdql_Context \<Rightarrow> bool) \<Rightarrow>
   (('d, 's, 'a, 'v, 'e, 'h) qlevel \<Rightarrow> ('d, 's, 'a, 'v) hdql_Query \<Rightarrow> 'v hdql_Key option \<Rightarrow> bool) \<Rightarrow> ('d \<times> 'e list) list \<Rightarrow> ('d, 's, 'a, 'v, 'e, 'h) klevel list \<Rightarrow>
   'd option \<times> ('d, 's, 'a, 'v) chain_pos \<Rightarrow> bool"
where
  "advanced ok R outs lv res \<longleftrightarrow> (case res of (r, ps, q, ns, kz, c) \<Rightarrow>
     ok c \<and> (\<exists>kps k kns. kz_is kz kps k kns \<and>
       (case outs of
          [] \<Rightarrow> r = None \<and> ps = [] \<and> kps = [] \<and> suf_ok ok R (q # ns) (k # kns) lv
        | (y, es) # outs' \<Rightarrow> r = Some y \<and> ns = [] \<and> kns = [] \<and>
            (\<exists>fs. at_frame ok ps q kps k fs \<and> ulevels fs = lv \<and> upath fs = es \<and> pend_up fs [] = outs'))))"

lemma qg_loop_correct:
  assumes "up_ok ok True ps kps us" "klevel_ok ok l" "lv_pending (fst l) q k rem" "kshape l k"
    "suf_ok ok depleted ns kns ls" "ls \<noteq> [] \<Longrightarrow> nonterm l" "kz_is kz kps k kns" "ok c"
  shows "\<exists>res. qg_loop ps q ns kz c = Some res \<and>
    advanced ok depleted (pend_up ((l, e, rem) # us) ls) (ulevels us @ l # ls) res"
  using assms
proof (induction "weight_up ((l, e, rem) # us) ls" arbitrary: ps kps us l q k e rem ns kns ls kz c
    rule: less_induct)
  case less
  let ?F = "(l, e, rem) # us" and ?lv = "ulevels us @ l # ls"
  obtain r ps1 q1 ns1 kz1 c1 kps1 k1 kns1 where bt: "qg_backtrack ps q ns kz c = Some (r, ps1, q1, ns1, kz1, c1)"
    "ok c1" "kz_is kz1 kps1 k1 kns1"
    and nf: "case next_frame ?F ls of
       None \<Rightarrow> r = None \<and> ps1 = [] \<and> kps1 = [] \<and> suf_ok ok depleted (q1 # ns1) (k1 # kns1) ?lv
     | Some (x, fs', ls') \<Rightarrow> r = Some x \<and> suf_ok ok depleted ns1 kns1 ls' \<and>
         (case fs' of [] \<Rightarrow> False | (l', e', rem') # us \<Rightarrow>
            up_ok ok True ps1 kps1 us \<and> klevel_ok ok l' \<and> lv_pending (fst l') q1 k1 rem' \<and> k1 = ekey l' e' \<and>
            (ls' \<noteq> [] \<longrightarrow> nonterm l'))"
    using backtrack_correct [OF less.prems(1-8)] by blast
  show ?case
  proof (cases "next_frame ?F ls")
    case None
    have "qg_loop ps q ns kz c = Some (None, ps1, q1, ns1, kz1, c1)"
      using bt(1) nf None by (subst qg_loop.simps) simp
    moreover have "advanced ok depleted (pend_up ?F ls) ?lv (None, ps1, q1, ns1, kz1, c1)"
      unfolding advanced_def next_frame_None [OF None] using bt nf None by auto
    ultimately show ?thesis by blast
  next
    case (Some res)
    then obtain x fs' ls' where nf1: "next_frame ?F ls = Some (x, fs', ls')" by (cases res) auto
    note pure = next_frame_Some [OF nf1]
    obtain l' e' rem' us' where fs': "fs' = (l', e', rem') # us'" using pure by (cases fs') auto
    note nf2 = nf [unfolded nf1 fs', simplified]
    have at: "at_frame ok ps1 q1 kps1 k1 fs'" using nf2 by (auto simp: at_frame_def fs')
    have suf: "suf_ok ok depleted ns1 kns1 ls'" and nt: "ls' \<noteq> [] \<Longrightarrow> nonterm (fst (hd fs'))"
      using nf2 by (auto simp: fs')
    obtain res2 where d: "qg_descend ps1 q1 ns1 kz1 (Some x) c1 = Some res2"
      "descended ok depleted (pend_up ?F ls) (lweight ls' x + weight_up fs' ls') ?lv res2"
      using descend_correct [OF at suf nt bt(3,2) lasting_depleted, of x] pure by auto
    obtain r2 ps2 q2 ns2 kz2 c2 where res2: "res2 = (r2, ps2, q2, ns2, kz2, c2)" by (cases res2)
    from d(2) obtain kps2 k2 kns2 l2 e2 rem2 us2 ls2 where post: "ok c2" "kz_is kz2 kps2 k2 kns2"
      "up_ok ok True ps2 kps2 us2" "klevel_ok ok l2" "kshape l2 k2"
      "suf_ok ok depleted ns2 kns2 ls2" "ls2 \<noteq> [] \<longrightarrow> nonterm l2" "ulevels us2 @ l2 # ls2 = ?lv"
      "case r2 of
          None \<Rightarrow> depleted (fst l2) q2 k2 \<and> rem2 = [] \<and> pend_up ?F ls = pend_up ((l2, e2, rem2) # us2) ls2 \<and>
            weight_up ((l2, e2, rem2) # us2) ls2 \<le> lweight ls' x + weight_up fs' ls'
        | Some y \<Rightarrow> lv_pending (fst l2) q2 k2 rem2 \<and> ls2 = [] \<and> k2 = ekey l2 e2 \<and>
            pend_up ?F ls = (y, upath ((l2, e2, rem2) # us2)) # pend_up ((l2, e2, rem2) # us2) []"
      unfolding descended_def res2 prod.case by blast
    show ?thesis
    proof (cases r2)
      case (Some y)
      have empty: "ls2 = []" "ns2 = []" "kns2 = []"
        using post(6,9) Some by (cases ns2; cases kns2; auto)+
      have "qg_loop ps q ns kz c = Some res2"
        using bt(1) nf2 d(1) Some empty by (subst qg_loop.simps) (simp add: res2)
      moreover have "advanced ok depleted (pend_up ?F ls) ?lv res2"
        unfolding advanced_def res2
        using post Some empty
        by (auto simp: at_frame_def intro!: exI [of _ kps2] exI [of _ k2] exI [of _ "(l2, e2, rem2) # us2"])
      ultimately show ?thesis by blast
    next
      case None
      have out: "pend_up ?F ls = pend_up ((l2, e2, rem2) # us2) ls2" using post(9) None by auto
      have "weight_up ((l2, e2, rem2) # us2) ls2 < weight_up ?F ls"
        using post(9) None pure by auto
      moreover have pend: "lv_pending (fst l2) q2 k2 rem2"
        using klevel_done_pending [OF post(4)] post(9) None by (auto simp: depleted_def)
      moreover have "ls2 \<noteq> [] \<Longrightarrow> nonterm l2" using post(7) by blast
      ultimately have "\<exists>res. qg_loop ps2 q2 ns2 kz2 c2 = Some res \<and>
          advanced ok depleted (pend_up ((l2, e2, rem2) # us2) ls2) (ulevels us2 @ l2 # ls2) res"
        using less.hyps [OF _ post(3,4) pend post(5,6) _ post(2,1)] by blast
      moreover have "qg_loop ps q ns kz c = qg_loop ps2 q2 ns2 kz2 c2"
        using bt(1) nf2 d(1) None by (subst qg_loop.simps) (simp add: res2)
      ultimately show ?thesis unfolding out post(8) by simp
    qed
  qed
qed

section \<open>The steps of \<open>hdql_query_reset\<close>\<close>

lemma rd_descend_correct:
  assumes "up_ok ok True ps kps us" "suf_ok ok R (q # ns) (k # kns) (l # ls)"
    "kz_is kz kps k kns" "ok c" "d = None \<longrightarrow> lv_null (fst l)" "lasting ok R"
  shows "\<exists>res. rd_descend ps q ns kz d c = Some res \<and>
    descended ok R (prefixed (upath us) (expand ls (lv_elems (fst l) d)) @ pend_up us (l # ls))
      (xweight ls (lv_elems (fst l) d) + weight_up us (l # ls)) (ulevels us @ l # ls) res"
  using assms
proof (induction ns arbitrary: ps kps us q k kns l ls kz d c)
  case Nil
  then have nil: "ls = [] \<and> kns = []" by (cases ls; cases kns) auto
  have q: "klevel_ok ok l" "lv_valid (fst l) q" "kshape l k"
    using Nil.prems(2) lasting_valid [OF Nil.prems(6), of l q k] by auto
  obtain q' k' c' where r: "hdql__query_reset q d (kz_cur kz) c =
      Some (head_datum (lv_elems (fst l) d), q', k', c')"
    "after_reset (fst l) q k (lv_elems (fst l) d) q' k'" "ok c'" "kshape l k'"
    "kz_is (kz_put k' kz) kps k' kns"
    "\<And>x e xs. lv_elems (fst l) d = (x, e) # xs \<Longrightarrow> k' = ekey l e"
    using klevel_reset [OF q Nil.prems(4,3,5)] by metis
  show ?case
  proof (cases "lv_elems (fst l) d")
    case Nil
    then show ?thesis
      using r nil Nil.prems(1,2) q(1) lasting_null [OF Nil.prems(6), of l q k q' k']
      by (auto intro!: descended_null [where l = l and us = us])
  next
    case (Cons xe xs)
    obtain x e where "xe = (x, e)" by (cases xe)
    then show ?thesis
      using r nil Cons Nil.prems(1) q(1)
      by (auto simp: prefixed_cons lpaths_expand [symmetric] prefixed_def
          intro!: descended_datum [where l = l and us = us and e = e and rem = xs])
  qed
next
  case (Cons n ns)
  obtain kn kns' m ls' where suf: "kns = kn # kns'" "ls = m # ls'"
    using Cons.prems(2) by (cases kns; cases ls) auto
  have suf': "suf_ok ok R (n # ns) (kn # kns') (m # ls')"
    using Cons.prems(2) by (simp add: suf)
  have q: "klevel_ok ok l" "lv_valid (fst l) q" "kshape l k" and nt: "nonterm l"
    using Cons.prems(2) lasting_valid [OF Cons.prems(6), of l q k] by (auto simp: suf)
  obtain q' k' c' where r: "hdql__query_reset q d (kz_cur kz) c =
      Some (head_datum (lv_elems (fst l) d), q', k', c')"
    "after_reset (fst l) q k (lv_elems (fst l) d) q' k'" "ok c'" "kshape l k'"
    "kz_is (kz_put k' kz) kps k' kns"
    "\<And>x e xs. lv_elems (fst l) d = (x, e) # xs \<Longrightarrow> k' = ekey l e"
    using klevel_reset [OF q Cons.prems(4,3,5)] by metis
  show ?case
  proof (cases "lv_elems (fst l) d")
    case Nil
    have call: "rd_descend ps q (n # ns) kz d c = Some (None, ps, q', n # ns, kz_put k' kz, c')"
      using r(1) Nil by (simp add: Let_def)
    have "descended ok R (pend_up us (l # ls)) (weight_up us (l # ls)) (ulevels us @ l # ls)
        (None, ps, q', n # ns, kz_put k' kz, c')"
    proof (rule descended_null [where l = l and us = us])
      show "kz_is (kz_put k' kz) kps k' kns" by (rule r(5))
      show "suf_ok ok R (n # ns) kns ls" using suf' by (simp add: suf)
      show "R (fst l) q' k'"
        using lasting_null [OF Cons.prems(6), of l q k q' k'] r(2) q(1) Cons.prems(2) Nil by (simp add: suf)
    qed (use r q nt Cons.prems(1) in auto)
    then show ?thesis unfolding call Nil by simp
  next
    case (Cons xe xs)
    obtain x e where xe: "xe = (x, e)" by (cases xe)
    obtain kz1 where kz1: "kz_next (kz_put k' kz) = Some kz1" "kz_is kz1 (k' # kps) kn kns'"
      using kz_next_is [of "kz_put k' kz" kps k' kn kns'] r(5) suf(1) kshape_nonterm [OF q(1) r(4) nt]
      by blast
    let ?us = "(l, e, xs) # us"
    have up: "up_ok ok True (q' # ps) (k' # kps) ?us"
      using Cons.prems(1) q(1) r(2,4,6) nt Cons xe by simp
    have call: "rd_descend ps q (n # ns) kz d c = rd_descend (q' # ps) n ns kz1 (Some x) c'"
      using r(1) kz1(1) Cons xe by (simp add: Let_def)
    have out: "prefixed (upath us) (expand ls (lv_elems (fst l) d)) @ pend_up us (l # ls) =
        prefixed (upath ?us) (expand ls' (lv_elems (fst m) (Some x))) @ pend_up ?us (m # ls')"
      using Cons xe suf(2) by (simp add: prefixed_cons lpaths_expand)
    have w: "xweight ls' (lv_elems (fst m) (Some x)) + weight_up ?us (m # ls') \<le>
        xweight ls (lv_elems (fst l) d) + weight_up us (l # ls)"
      using Cons xe suf(2) by (simp add: lweight_xweight)
    have lv: "ulevels us @ l # ls = ulevels ?us @ m # ls'" by (simp add: suf(2))
    show ?thesis
      using Cons.IH [OF up suf' kz1(2) r(3) _ Cons.prems(6), of "Some x"] descended_mono [OF _ w]
      unfolding call out lv by simp blast
  qed
qed

lemma rd_climb_correct:
  assumes "up_ok ok True ps kps us" "suf_ok ok R (q # ns) (k # kns) (l # ls)"
    "kz_is kz kps k kns" "ok c" "lasting ok R"
  shows "\<exists>r ps' q' ns' kz' c' kps' k' kns'. rd_climb ps q ns kz c = Some (r, ps', q', ns', kz', c') \<and>
    ok c' \<and> kz_is kz' kps' k' kns' \<and>
    (case next_frame us (l # ls) of
       None \<Rightarrow> r = None \<and> ps' = [] \<and> kps' = [] \<and>
         suf_ok ok R (q' # ns') (k' # kns') (ulevels us @ l # ls)
     | Some (x, fs', ls') \<Rightarrow> r = Some x \<and> suf_ok ok R ns' kns' ls' \<and> ls' \<noteq> [] \<and>
         (case fs' of [] \<Rightarrow> False | (l', e', rem') # us' \<Rightarrow>
            up_ok ok True (q' # ps') (k' # kps') fs'))"
  using assms
proof (induction ps arbitrary: kps us q k ns kns l ls kz c)
  case Nil
  then have "kps = [] \<and> us = []" by (cases kps; cases us) auto
  with Nil show ?case by (auto intro!: exI [of _ "[]"] exI [of _ k] exI [of _ kns])
next
  case (Cons p ps)
  obtain kp kps' lp ep remp us' where up: "kps = kp # kps'" "us = (lp, ep, remp) # us'"
    using Cons.prems(1) by (cases kps; cases us) auto
  have u: "up_ok ok True ps kps' us'" "klevel_ok ok lp" "lv_pending (fst lp) p kp remp" "kshape lp kp" "nonterm lp"
    using Cons.prems(1) unfolding up by auto
  obtain kz0 where kz0: "kz_prev kz = Some kz0" "kz_is kz0 kps' kp (k # kns)"
    using kz_prev_is Cons.prems(3) up(1) by blast
  obtain p' k' c' where y: "hdql__query_yield p (kz_cur kz0) c = Some (head_datum remp, p', k', c')"
    "after_yield (fst lp) remp p' k'" "ok c'" "kshape lp k'" "kz_is (kz_put k' kz0) kps' k' (k # kns)"
    "\<And>x e ys. remp = (x, e) # ys \<Longrightarrow> k' = ekey lp e"
    using klevel_yield [OF u(2-4) Cons.prems(4) kz0(2)] by metis
  show ?case
  proof (cases remp)
    case Nil
    have suf: "suf_ok ok R (p' # q # ns) (k' # k # kns) (lp # l # ls)"
    proof -
      have "R (fst lp) p' k'"
        using lasting_done [OF Cons.prems(5) u(2)] y(2) Nil by simp
      then show ?thesis using Cons.prems(2) u(2,5) y(4) by simp
    qed
    have call: "rd_climb (p # ps) q ns kz c = rd_climb ps p' (q # ns) (kz_put k' kz0) c'"
      using kz0(1) y(1) Nil by (simp add: Let_def)
    have nf: "next_frame us (l # ls) = next_frame us' (lp # l # ls)"
      "ulevels us @ l # ls = ulevels us' @ lp # l # ls"
      by (simp_all add: up Nil)
    show ?thesis unfolding call nf by (rule Cons.IH [OF u(1) suf y(5) y(3) Cons.prems(5)])
  next
    case (Cons xe rem')
    obtain x e' where xe: "xe = (x, e')" by (cases xe)
    have call: "rd_climb (p # ps) q ns kz c = Some (Some x, ps, p', q # ns, kz_put k' kz0, c')"
      using kz0(1) y(1) Cons xe by (simp add: Let_def)
    have "next_frame us (l # ls) = Some (x, (lp, e', rem') # us', l # ls)"
      by (simp add: up Cons xe)
    moreover have "up_ok ok True (p' # ps) (k' # kps') ((lp, e', rem') # us')"
      using u y(2,4,6) Cons xe by simp
    ultimately show ?thesis
      using y(3,5) Cons.prems(2) unfolding call
      by (simp del: up_ok.simps suf_ok.simps rd_climb.simps) blast
  qed
qed

lemma rd_loop_correct:
  assumes "up_ok ok True ps kps us" "suf_ok ok R (q # ns) (k # kns) (l # ls)"
    "kz_is kz kps k kns" "ok c" "d = None \<longrightarrow> lv_null (fst l)" "lasting ok R"
  shows "\<exists>res. rd_loop ps q ns kz d c = Some res \<and>
    advanced ok R (prefixed (upath us) (expand ls (lv_elems (fst l) d)) @ pend_up us (l # ls))
      (ulevels us @ l # ls) res"
  using assms
proof (induction "xweight ls (lv_elems (fst l) d) + weight_up us (l # ls)"
    arbitrary: ps kps us q k ns kns l ls kz d c rule: less_induct)
  case less
  let ?outs = "prefixed (upath us) (expand ls (lv_elems (fst l) d)) @ pend_up us (l # ls)"
    and ?lv = "ulevels us @ l # ls"
  obtain res where d: "rd_descend ps q ns kz d c = Some res"
    "descended ok R ?outs (xweight ls (lv_elems (fst l) d) + weight_up us (l # ls)) ?lv res"
    using rd_descend_correct [OF less.prems] by blast
  obtain r1 ps1 q1 ns1 kz1 c1 where res: "res = (r1, ps1, q1, ns1, kz1, c1)" by (cases res)
  from d(2) obtain kps1 k1 kns1 l1 e1 rem1 us1 ls1 where post: "ok c1" "kz_is kz1 kps1 k1 kns1"
    "up_ok ok True ps1 kps1 us1" "klevel_ok ok l1" "kshape l1 k1"
    "suf_ok ok R ns1 kns1 ls1" "ls1 \<noteq> [] \<longrightarrow> nonterm l1" "ulevels us1 @ l1 # ls1 = ?lv"
    "case r1 of
        None \<Rightarrow> R (fst l1) q1 k1 \<and> rem1 = [] \<and> ?outs = pend_up ((l1, e1, rem1) # us1) ls1 \<and>
          weight_up ((l1, e1, rem1) # us1) ls1 \<le> xweight ls (lv_elems (fst l) d) + weight_up us (l # ls)
      | Some y \<Rightarrow> lv_pending (fst l1) q1 k1 rem1 \<and> ls1 = [] \<and> k1 = ekey l1 e1 \<and>
          ?outs = (y, upath ((l1, e1, rem1) # us1)) # pend_up ((l1, e1, rem1) # us1) []"
    unfolding descended_def res prod.case by blast
  show ?case
  proof (cases r1)
    case (Some y)
    have empty: "ls1 = []" "ns1 = []" "kns1 = []"
      using post(6,9) Some by (cases ns1; cases kns1; auto)+
    have "rd_loop ps q ns kz d c = Some res"
      using d(1) Some by (subst rd_loop.simps) (simp add: res)
    moreover have "advanced ok R ?outs ?lv res"
      unfolding advanced_def res
      using post Some empty
      by (auto simp: at_frame_def intro!: exI [of _ kps1] exI [of _ k1] exI [of _ "(l1, e1, rem1) # us1"])
    ultimately show ?thesis by blast
  next
    case None
    have out: "?outs = pend_up us1 (l1 # ls1)" and
      w: "weight_up us1 (l1 # ls1) \<le> xweight ls (lv_elems (fst l) d) + weight_up us (l # ls)"
      using post(9) None by auto
    have "R (fst l1) q1 k1" using post(9) None by simp
    then have suf: "suf_ok ok R (q1 # ns1) (k1 # kns1) (l1 # ls1)" using post(4-7) by simp
    obtain r2 ps2 q2 ns2 kz2 c2 kps2 k2 kns2 where cl: "rd_climb ps1 q1 ns1 kz1 c1 = Some (r2, ps2, q2, ns2, kz2, c2)"
      "ok c2" "kz_is kz2 kps2 k2 kns2" and nf: "case next_frame us1 (l1 # ls1) of
       None \<Rightarrow> r2 = None \<and> ps2 = [] \<and> kps2 = [] \<and>
         suf_ok ok R (q2 # ns2) (k2 # kns2) (ulevels us1 @ l1 # ls1)
     | Some (x, fs', ls') \<Rightarrow> r2 = Some x \<and> suf_ok ok R ns2 kns2 ls' \<and> ls' \<noteq> [] \<and>
         (case fs' of [] \<Rightarrow> False | (l', e', rem') # us' \<Rightarrow>
            up_ok ok True (q2 # ps2) (k2 # kps2) fs')"
      using rd_climb_correct [OF post(3) suf post(2,1) less.prems(6)] by blast
    show ?thesis
    proof (cases "next_frame us1 (l1 # ls1)")
      case None
      have "rd_loop ps q ns kz d c = Some (None, ps2, q2, ns2, kz2, c2)"
        using d(1) \<open>r1 = None\<close> cl(1) nf None by (subst rd_loop.simps) (simp add: res)
      moreover have "advanced ok R ?outs ?lv (None, ps2, q2, ns2, kz2, c2)"
        unfolding advanced_def out next_frame_None [OF None] using cl nf None post(8) by auto
      ultimately show ?thesis by blast
    next
      case (Some t)
      then obtain x fs' ls' where nf1: "next_frame us1 (l1 # ls1) = Some (x, fs', ls')" by (cases t) auto
      note pure = next_frame_Some [OF nf1]
      obtain l' e' rem' us' where fs': "fs' = (l', e', rem') # us'" using pure by (cases fs') auto
      note nf2 = nf [unfolded nf1 fs', simplified]
      have up: "up_ok ok True (q2 # ps2) (k2 # kps2) fs'" using nf2 by (auto simp: fs')
      obtain n ns3 kn kns3 m ls3 where s3: "ns2 = n # ns3" "kns2 = kn # kns3" "ls' = m # ls3"
        using nf2 by (cases ns2; cases kns2; cases ls') auto
      have suf3: "suf_ok ok R (n # ns3) (kn # kns3) (m # ls3)" using nf2 by (simp add: s3)
      obtain kz3 where kz3: "kz_next kz2 = Some kz3" "kz_is kz3 (k2 # kps2) kn kns3"
      proof -
        have "klevel_ok ok l'" "kshape l' k2" "nonterm l'" using up by (auto simp: fs')
        then show thesis using kz_next_is [of kz2 kps2 k2 kn kns3] cl(3) s3(2) kshape_nonterm that by blast
      qed
      have lt: "xweight ls3 (lv_elems (fst m) (Some x)) + weight_up fs' (m # ls3) <
          xweight ls (lv_elems (fst l) d) + weight_up us (l # ls)"
        using w pure by (simp add: s3(3) lweight_xweight)
      have out3: "?outs = prefixed (upath fs') (expand ls3 (lv_elems (fst m) (Some x))) @ pend_up fs' (m # ls3)"
        unfolding out using pure by (simp add: s3(3) lpaths_expand)
      have lv3: "?lv = ulevels fs' @ m # ls3" using post(8) pure by (simp add: s3(3))
      have "rd_loop ps q ns kz d c = rd_loop (q2 # ps2) n ns3 kz3 (Some x) c2"
        using d(1) \<open>r1 = None\<close> cl(1) nf2 kz3(1) by (subst rd_loop.simps) (simp add: res s3)
      then show ?thesis
        unfolding out3 lv3 using less.hyps [OF lt up suf3 kz3(2) cl(2) _ less.prems(6)] by simp
    qed
  qed
qed

section \<open>The calls on a chain\<close>

text \<open>The items of a list key (or no keys at all, for the null key).\<close>

definition keys_are :: "'v hdql_Key option \<Rightarrow> 'v hdql_Key option list \<Rightarrow> bool" where
  "keys_are key ks \<longleftrightarrow> (case key of None \<Rightarrow> \<forall>k \<in> set ks. k = None
     | Some k \<Rightarrow> hdql_key_is_list k \<and> (\<exists>a kl. k_pl k = PlKeys a kl \<and> ks = map Some kl))"

definition put_keys :: "'v hdql_Key option \<Rightarrow> 'v hdql_Key option list \<Rightarrow> 'v hdql_Key option" where
  "put_keys key ks = (case key of None \<Rightarrow> None
     | Some k \<Rightarrow> (case k_pl k of PlKeys a _ \<Rightarrow> Some (k_set_pl (PlKeys a (map the ks)) k) | _ \<Rightarrow> Some k))"

text \<open>The keys of a path of elements.\<close>

definition path_keys :: "('d, 's, 'a, 'v, 'e, 'h) klevel list \<Rightarrow> 'e list \<Rightarrow> 'v hdql_Key option list" where
  "path_keys ls es = map2 ekey ls es"

text \<open>A chain between calls, with the outputs it still has to give.\<close>

definition chain_pending ::
  "(hdql_Context \<Rightarrow> bool) \<Rightarrow> ('d, 's, 'a, 'v, 'e, 'h) klevel list \<Rightarrow> ('d, 's, 'a, 'v) hdql_Query list \<Rightarrow>
   'v hdql_Key option list \<Rightarrow> ('d \<times> 'e list) list \<Rightarrow> bool"
where
  "chain_pending ok ls qs ks outs \<longleftrightarrow>
     (\<exists>S ps q kps k l e rem us. qs = rev ps @ [q] \<and> ks = rev kps @ [k] \<and> up_ok ok S ps kps us \<and>
        klevel_ok ok l \<and> lv_pending (fst l) q k rem \<and> kshape l k \<and> ulevels us @ [l] = ls \<and>
        pend_up ((l, e, rem) # us) [] = outs \<and> (S \<or> next_frame ((l, e, rem) # us) [] = None))"

text \<open>The chain whose queries may each be reset.\<close>

definition chain_valid ::
  "(hdql_Context \<Rightarrow> bool) \<Rightarrow> ('d, 's, 'a, 'v, 'e, 'h) klevel list \<Rightarrow> ('d, 's, 'a, 'v) hdql_Query list \<Rightarrow>
   'v hdql_Key option list \<Rightarrow> bool"
where
  "chain_valid ok ls qs ks \<longleftrightarrow> qs \<noteq> [] \<and> suf_ok ok resettable qs ks ls"

text \<open>The chain that has said it has no more.\<close>

definition chain_done ::
  "(hdql_Context \<Rightarrow> bool) \<Rightarrow> ('d, 's, 'a, 'v, 'e, 'h) klevel list \<Rightarrow> ('d, 's, 'a, 'v) hdql_Query list \<Rightarrow>
   'v hdql_Key option list \<Rightarrow> bool"
where
  "chain_done ok ls qs ks \<longleftrightarrow> qs \<noteq> [] \<and> suf_ok ok depleted qs ks ls"

lemma up_ok_weaken: "up_ok ok True ps ks fs \<Longrightarrow> up_ok ok S ps ks fs"
  by (induction ok "True" ps ks fs rule: up_ok.induct) auto

lemma up_ok_nonterm:
  "up_ok ok S ps ks fs \<Longrightarrow> k \<in> set ks \<Longrightarrow> k = Some k0 \<Longrightarrow> \<not> k_isTerminal k0"
  by (induction ok S ps ks fs rule: up_ok.induct) (auto dest: kshape_nonterm)

lemma up_ok_length: "up_ok ok S ps ks fs \<Longrightarrow> length ps = length fs \<and> length ks = length fs"
  by (induction ok S ps ks fs rule: up_ok.induct) auto

lemma suf_ok_length: "suf_ok ok R ns ks ls \<Longrightarrow> length ns = length ls \<and> length ks = length ls"
  by (induction ok R ns ks ls rule: suf_ok.induct) auto

lemma at_frame_path: "at_frame ok ps q kps k fs \<Longrightarrow> rev kps @ [k] = path_keys (ulevels fs) (upath fs)"
proof -
  have "up_ok ok True ps kps us \<Longrightarrow> rev kps = path_keys (ulevels us) (upath us)" for ps kps us
  proof (induction ok "True" ps kps us rule: up_ok.induct)
    case (2 ok p ps k ks l e rem fs)
    have "length (ulevels fs) = length (upath fs)" by (simp add: ulevels_def upath_def)
    with 2 show ?case by (simp add: path_keys_def)
  qed (simp_all add: path_keys_def)
  moreover have "length (ulevels us) = length (upath us)" for us :: "('a, 'b, 'c, 'd, 'e, 'f) frame list"
    by (simp add: ulevels_def upath_def)
  ultimately show "at_frame ok ps q kps k fs \<Longrightarrow> rev kps @ [k] = path_keys (ulevels fs) (upath fs)"
    by (cases fs) (auto simp: at_frame_def path_keys_def)
qed

lemma at_frame_pending:
  "at_frame ok ps q kps k fs \<Longrightarrow>
   chain_pending ok (ulevels fs) (rev ps @ [q]) (rev kps @ [k]) (pend_up fs [])"
proof (cases fs)
  case (Cons f us)
  obtain l e rem where f: "f = (l, e, rem)" by (cases f)
  assume "at_frame ok ps q kps k fs"
  then have "up_ok ok True ps kps us" "klevel_ok ok l" "lv_pending (fst l) q k rem" "k = ekey l e"
    by (auto simp: at_frame_def Cons f)
  then show ?thesis
    unfolding chain_pending_def Cons f
    by (intro exI [of _ True] exI [of _ ps] exI [of _ q] exI [of _ kps] exI [of _ k] exI [of _ l]
        exI [of _ e] exI [of _ rem] exI [of _ us]) (auto intro: ekey_shape)
qed (simp add: at_frame_def)

lemma depleted_up:
  assumes "up_ok ok False ps kps us" "\<forall>f \<in> set us. snd (snd f) = []"
    "suf_ok ok depleted (q # ns) (k # kns) (l # ls)"
  shows "\<exists>ps' q' kps' k' l' us'. rev ps @ q # ns = rev ps' @ [q'] \<and> rev kps @ k # kns = rev kps' @ [k'] \<and>
    up_ok ok False ps' kps' us' \<and> klevel_ok ok l' \<and> lv_pending (fst l') q' k' [] \<and> kshape l' k' \<and>
    ulevels us' @ [l'] = ulevels us @ l # ls \<and> (\<forall>f \<in> set us'. snd (snd f) = [])"
  using assms
proof (induction ns arbitrary: ps kps us q k kns l ls)
  case Nil
  then have "kns = [] \<and> ls = []" by (cases kns; cases ls) auto
  then show ?case
    using Nil by (intro exI [of _ ps] exI [of _ q] exI [of _ kps] exI [of _ k] exI [of _ l] exI [of _ us])
      (auto simp: depleted_def [of "fst l" q k] klevel_done_pending)
next
  case (Cons n ns)
  obtain kn kns' m ls' where suf: "kns = kn # kns'" "ls = m # ls'"
    using Cons.prems(3) by (cases kns; cases ls) auto
  have "up_ok ok False (q # ps) (k # kps) ((l, undefined, []) # us)"
    using Cons.prems(1,3) by (auto simp: suf depleted_def [of "fst l" q k] klevel_done_pending)
  from Cons.IH [OF this _ , of n kn kns' m ls'] Cons.prems(2,3) suf show ?case by auto
qed

lemma next_frame_depleted: "\<forall>f \<in> set fs. snd (snd f) = [] \<Longrightarrow> next_frame fs ls = None"
  by (induction fs ls rule: next_frame.induct) auto

lemma depleted_pending:
  assumes "suf_ok ok depleted (q # ns) (k # kns) ls"
  shows "chain_pending ok ls (q # ns) (k # kns) []"
proof -
  obtain l ls' where ls: "ls = l # ls'" using assms by (cases ls) auto
  obtain ps' q' kps' k' l' us' where u: "q # ns = rev ps' @ [q']" "k # kns = rev kps' @ [k']"
    "up_ok ok False ps' kps' us'" "klevel_ok ok l'" "lv_pending (fst l') q' k' []" "kshape l' k'"
    "ulevels us' @ [l'] = ls" "\<forall>f \<in> set us'. snd (snd f) = []"
  proof -
    have "\<exists>ps' q' kps' k' l' us'. rev [] @ q # ns = rev ps' @ [q'] \<and> rev [] @ k # kns = rev kps' @ [k'] \<and>
      up_ok ok False ps' kps' us' \<and> klevel_ok ok l' \<and> lv_pending (fst l') q' k' [] \<and> kshape l' k' \<and>
      ulevels us' @ [l'] = ulevels [] @ l # ls' \<and> (\<forall>f \<in> set us'. snd (snd f) = [])"
      by (rule depleted_up) (use assms in \<open>simp_all add: ls\<close>)
    then show thesis using that by (simp only: rev.simps append_Nil ulevels_simps ls [symmetric]) blast
  qed
  have "next_frame ((l', undefined, []) # us') [] = None" using u(8) by (intro next_frame_depleted) auto
  with u next_frame_None show ?thesis unfolding chain_pending_def by blast
qed

lemma terminal_walk:
  "length kns = length ns \<Longrightarrow> kz_is kz kps k kns \<Longrightarrow>
   (\<And>x k0. x \<in> set (butlast (k # kns)) \<Longrightarrow> x = Some k0 \<Longrightarrow> \<not> k_isTerminal k0) \<Longrightarrow>
   \<exists>kz'. qg_terminal ps q ns kz = Some (rev (butlast (q # ns)) @ ps, last (q # ns), kz') \<and>
     kz_is kz' (rev (butlast (k # kns)) @ kps) (last (k # kns)) []"
proof (induction ns arbitrary: ps q kps k kns kz)
  case (Cons n ns)
  obtain kn kns' where kns: "kns = kn # kns'" using Cons.prems(1) by (cases kns) auto
  obtain kz1 where "kz_next kz = Some kz1" "kz_is kz1 (k # kps) kn kns'"
    using kz_next_is [of kz kps k kn kns'] Cons.prems(2,3) by (auto simp: kns)
  then show ?case
    using Cons.IH [of kns' kz1 "k # kps" kn "q # ps"] Cons.prems(1,3) by (auto simp: kns)
qed simp

text \<open>Opening the list key, and closing it again.\<close>

lemma keys_are_open:
  assumes "keys_are key (k # kns)"
  obtains kz where "(case key of None \<Rightarrow> Some None | Some k \<Rightarrow> map_option Some (hdql__key_get_list_bgn k)) = Some kz"
    "(case key of None \<Rightarrow> Some None
       | Some k \<Rightarrow> do { c_assert (hdql_key_is_list k); map_option Some (hdql__key_get_list_bgn k) }) = Some kz"
    "kz_is kz [] k kns"
proof (cases key)
  case None
  with that [of None] assms show thesis by (auto simp: keys_are_def kz_is_def)
next
  case (Some k0)
  then obtain a kl where "hdql_key_is_list k0" "k_pl k0 = PlKeys a kl" "k # kns = map Some kl"
    using assms by (auto simp: keys_are_def)
  then show thesis
    using that [of "Some ([], hd kl, tl kl)"] Some
    by (cases kl) (auto simp: kz_is_def hdql__key_get_list_bgn_def hdql_key_is_list_def)
qed

lemma keys_are_close:
  assumes "keys_are key ks" "kz_is kz kps k kns" "key = None \<longleftrightarrow> kz = None"
  shows "key_with key kz = put_keys key (rev kps @ k # kns)"
    and "keys_are (put_keys key (rev kps @ k # kns)) (rev kps @ k # kns)"
proof -
  show "key_with key kz = put_keys key (rev kps @ k # kns)"
    using assms by (cases key; cases kz)
      (auto simp: key_with_def put_keys_def kz_is_def keys_of_def keys_are_def rev_map o_def split: prod.splits)
  show "keys_are (put_keys key (rev kps @ k # kns)) (rev kps @ k # kns)"
  proof (cases key)
    case None
    then show ?thesis using assms by (auto simp: keys_are_def put_keys_def kz_is_def)
  next
    case (Some k0)
    then obtain a kl where k0: "hdql_key_is_list k0" "k_pl k0 = PlKeys a kl"
      using assms(1) by (auto simp: keys_are_def)
    obtain kzp where kz: "kz = Some kzp" using assms(3) Some by (cases kz) auto
    obtain x y z where "kzp = (x, y, z)" by (cases kzp)
    with assms(2) kz have "rev kps @ k # kns = map Some (rev x @ y # z)" by (simp add: kz_is_def rev_map)
    then show ?thesis
      using k0 Some by (cases k0) (auto simp: keys_are_def put_keys_def hdql_key_is_list_def o_def)
  qed
qed

end
