(* ===== verification/Chains.thy ===== *)
theory Chains
  imports Enumeration
begin

text \<open>
  The two calls a client makes on a chain, \<open>hdql_query_reset\<close> and \<open>hdql_query_get\<close>, seen from outside:
  what they return, call after call, is the list of the chain's outputs with their keys, then null.
\<close>

definition chain_outs :: "('d, 's, 'a, 'v, 'e, 'h) klevel list \<Rightarrow> 'd option \<Rightarrow> ('d \<times> 'e list) list" where
  "chain_outs ls d = (case ls of [] \<Rightarrow> [] | l # ls' \<Rightarrow> expand ls' (lv_elems (fst l) d))"

lemma list_all2_last: "list_all2 P xs (ys @ [y]) \<Longrightarrow> \<exists>x \<in> set xs. P x y"
  by (auto simp: list_all2_append2 list_all2_Cons2)

lemma keys_are_null: "keys_are key ks \<Longrightarrow> k \<in> set ks \<Longrightarrow> key = None \<longleftrightarrow> k = None"
  by (cases key) (auto simp: keys_are_def)

lemma suf_ok_null:
  "suf_ok ok R ns ks ls \<Longrightarrow> list_all2 (\<lambda>k l. k = None \<longleftrightarrow> snd l = None) ks ls"
  by (induction ok R ns ks ls rule: suf_ok.induct) (auto simp: kshape_def)

text \<open>\<open>R\<close> is what is known of the queries: that they may be reset, or that they are depleted.\<close>

lemma chain_reset_keeps:
  assumes valid: "qs \<noteq> []" "suf_ok ok R qs ks ls" and R: "lasting ok R" and keys: "keys_are key ks" and c: "ok c"
    and owner: "d = None \<longrightarrow> lv_null (fst (hd ls))"
  shows "\<exists>r qs' key' c' ks'. hdql_query_reset qs d key c = Some (r, qs', key', c') \<and> ok c' \<and>
    key' = put_keys key ks' \<and> keys_are key' ks' \<and>
    (case chain_outs ls d of
       [] \<Rightarrow> r = None \<and> qs' \<noteq> [] \<and> suf_ok ok R qs' ks' ls
     | (y, es) # outs \<Rightarrow> r = Some y \<and> ks' = path_keys ls es \<and> chain_pending ok ls qs' ks' outs)"
proof -
  obtain q ns k kns l ls' where eqs: "qs = q # ns" "ks = k # kns" "ls = l # ls'"
    and suf: "suf_ok ok R (q # ns) (k # kns) (l # ls')"
    using valid by (cases qs; cases ks; cases ls) auto
  obtain kz where kz: "(case key of None \<Rightarrow> Some None
       | Some k \<Rightarrow> do { c_assert (hdql_key_is_list k); map_option Some (hdql__key_get_list_bgn k) }) = Some kz"
    "(case key of None \<Rightarrow> Some None | Some k \<Rightarrow> map_option Some (hdql__key_get_list_bgn k)) = Some kz"
    "kz_is kz [] k kns"
    by (rule keys_are_open [OF keys [unfolded eqs(2)]]) (rule that)
  have outs: "prefixed (upath []) (expand ls' (lv_elems (fst l) d)) @ pend_up [] (l # ls') = chain_outs ls d"
    by (simp add: chain_outs_def eqs prefixed_def)
  have up: "up_ok ok True [] [] []" by simp
  obtain res where loop: "rd_loop [] q ns kz d c = Some res"
    "advanced ok R (chain_outs ls d) ls res"
    using rd_loop_correct [OF up suf kz(3) c _ R, of d] owner unfolding outs eqs(3) ulevels_simps append_Nil list.sel by blast
  obtain r ps' q' ns' kz' c' where res: "res = (r, ps', q', ns', kz', c')" by (cases res)
  obtain kps' k' kns' where post: "ok c'" "kz_is kz' kps' k' kns'"
    "case chain_outs ls d of
       [] \<Rightarrow> r = None \<and> ps' = [] \<and> kps' = [] \<and> suf_ok ok R (q' # ns') (k' # kns') ls
     | (y, es) # outs' \<Rightarrow> r = Some y \<and> ns' = [] \<and> kns' = [] \<and>
         (\<exists>fs. at_frame ok ps' q' kps' k' fs \<and> ulevels fs = ls \<and> upath fs = es \<and> pend_up fs [] = outs')"
    using loop(2) unfolding advanced_def res prod.case by blast
  let ?ks = "rev kps' @ k' # kns'"
  have null: "key = None \<longleftrightarrow> kz' = None"
  proof -
    have "key = None \<longleftrightarrow> snd l = None"
      using keys suf_ok_null [OF suf] unfolding eqs by (cases key) (auto simp: keys_are_def)
    moreover have "kz' = None \<longleftrightarrow> snd l = None"
    proof (cases "chain_outs ls d")
      case Nil
      then have "kps' = []" "k' = None \<longleftrightarrow> snd l = None"
        using post(3) suf_ok_null [of ok R "q' # ns'" "k' # kns'" ls] by (auto simp: eqs)
      then show ?thesis using post(2) by (cases kz') (auto simp: kz_is_def)
    next
      case (Cons o1 os)
      then obtain fs where "at_frame ok ps' q' kps' k' fs" "ulevels fs = ls" using post(3) by (cases o1) auto
      then have "rev kps' @ [k'] = path_keys ls (upath fs)" "upath fs \<noteq> []"
        using at_frame_path [of ok ps' q' kps' k' fs] by (auto simp: upath_def ulevels_def eqs)
      then have "hd (rev kps' @ [k']) = None \<longleftrightarrow> snd l = None"
        by (cases "upath fs") (auto simp: path_keys_def eqs ekey_def)
      moreover have "hd (rev kps' @ [k']) \<in> set (kps' @ k' # kns')"
        by (cases "rev kps'") (auto simp: hd_append)
      ultimately show ?thesis using post(2) by (cases kz') (auto simp: kz_is_def)
    qed
    ultimately show ?thesis by simp
  qed
  have call: "hdql_query_reset qs d key c = Some (r, rev ps' @ q' # ns', key_with key kz', c')"
    using kz(1) loop(1) by (simp add: hdql_query_reset_def hdql__query_reset_descendant_def eqs res chain_of_def)
  note close = keys_are_close [OF keys post(2) null]
  have "case chain_outs ls d of
       [] \<Rightarrow> r = None \<and> rev ps' @ q' # ns' \<noteq> [] \<and> suf_ok ok R (rev ps' @ q' # ns') ?ks ls
     | (y, es) # outs \<Rightarrow> r = Some y \<and> ?ks = path_keys ls es \<and> chain_pending ok ls (rev ps' @ q' # ns') ?ks outs"
  proof (cases "chain_outs ls d")
    case Nil
    then show ?thesis using post(3) by (simp)
  next
    case (Cons o1 os)
    obtain y es where o1: "o1 = (y, es)" by (cases o1)
    from post(3) [unfolded Cons o1, simplified] obtain fs where fs: "r = Some y" "ns' = []" "kns' = []"
      "at_frame ok ps' q' kps' k' fs" "ulevels fs = ls" "upath fs = es" "pend_up fs [] = os" by blast
    show ?thesis
      using at_frame_path [OF fs(4)] at_frame_pending [OF fs(4)] fs by (simp add: Cons o1)
  qed
  with call [unfolded close(1)] post(1) close(2) show ?thesis
    by (intro exI conjI) (assumption | rule refl)+
qed

theorem chain_reset:
  assumes "chain_valid ok ls qs ks" "keys_are key ks" "ok c" "d = None \<longrightarrow> lv_null (fst (hd ls))"
  shows "\<exists>r qs' key' c' ks'. hdql_query_reset qs d key c = Some (r, qs', key', c') \<and> ok c' \<and>
    key' = put_keys key ks' \<and> keys_are key' ks' \<and>
    (case chain_outs ls d of
       [] \<Rightarrow> r = None \<and> chain_valid ok ls qs' ks'
     | (y, es) # outs \<Rightarrow> r = Some y \<and> ks' = path_keys ls es \<and> chain_pending ok ls qs' ks' outs)"
  using chain_reset_keeps [where ok = ok and ls = ls and qs = qs and ks = ks, OF _ _ lasting_resettable assms(2-4)] assms(1) unfolding chain_valid_def by blast

text \<open>A chain that was depleted and is reset to nothing is depleted again.\<close>

theorem chain_reset_done:
  assumes "chain_done ok ls qs ks" "keys_are key ks" "ok c" "d = None \<longrightarrow> lv_null (fst (hd ls))"
  shows "\<exists>r qs' key' c' ks'. hdql_query_reset qs d key c = Some (r, qs', key', c') \<and> ok c' \<and>
    key' = put_keys key ks' \<and> keys_are key' ks' \<and>
    (case chain_outs ls d of
       [] \<Rightarrow> r = None \<and> chain_done ok ls qs' ks'
     | (y, es) # outs \<Rightarrow> r = Some y \<and> ks' = path_keys ls es \<and> chain_pending ok ls qs' ks' outs)"
  using chain_reset_keeps [where ok = ok and ls = ls and qs = qs and ks = ks, OF _ _ lasting_depleted assms(2-4)] assms(1) unfolding chain_done_def by blast

lemma chain_done_pending: "chain_done ok ls qs ks \<Longrightarrow> chain_pending ok ls qs ks []"
  unfolding chain_done_def by (cases qs; cases ks) (auto intro: depleted_pending)

theorem chain_get_done:
  assumes pending: "chain_pending ok ls qs ks outs" and keys: "keys_are key ks" and c: "ok c"
  shows "\<exists>r qs' key' c' ks'. hdql_query_get qs key c = Some (r, qs', key', c') \<and> ok c' \<and>
    key' = put_keys key ks' \<and> keys_are key' ks' \<and>
    (case outs of
       [] \<Rightarrow> r = None \<and> chain_done ok ls qs' ks'
     | (y, es) # outs' \<Rightarrow> r = Some y \<and> ks' = path_keys ls es \<and> chain_pending ok ls qs' ks' outs')"
proof -
  obtain S ps q kps k l e rem us where p: "qs = rev ps @ [q]" "ks = rev kps @ [k]" "up_ok ok S ps kps us"
    "klevel_ok ok l" "lv_pending (fst l) q k rem" "kshape l k" "ulevels us @ [l] = ls"
    "pend_up ((l, e, rem) # us) [] = outs" "S \<or> next_frame ((l, e, rem) # us) [] = None"
    using pending unfolding chain_pending_def by blast
  obtain q0 ns k0 kns where hd: "qs = q0 # ns" "ks = k0 # kns" "length kns = length ns"
  proof -
    have "length qs = length ks" "qs \<noteq> []" "ks \<noteq> []" using p(1,2) up_ok_length [OF p(3)] by simp_all
    moreover obtain q0 ns where "qs = q0 # ns" using \<open>qs \<noteq> []\<close> by (meson neq_Nil_conv)
    moreover obtain k0 kns where "ks = k0 # kns" using \<open>ks \<noteq> []\<close> by (meson neq_Nil_conv)
    ultimately show thesis using that by simp
  qed
  obtain kz0 where kz0: "(case key of None \<Rightarrow> Some None | Some k \<Rightarrow> map_option Some (hdql__key_get_list_bgn k)) = Some kz0"
    "kz_is kz0 [] k0 kns"
    by (rule keys_are_open [OF keys [unfolded hd(2)]]) (rule that)
  have nt: "\<And>x y. x \<in> set (butlast (k0 # kns)) \<Longrightarrow> x = Some y \<Longrightarrow> \<not> k_isTerminal y"
    using up_ok_nonterm [OF p(3)] p(2) hd(2) by (metis butlast_snoc set_rev)
  obtain kz where kz: "qg_terminal [] q0 ns kz0 = Some (ps, q, kz)" "kz_is kz kps k []"
  proof -
    have "rev (butlast (q0 # ns)) @ [] = ps" "last (q0 # ns) = q"
      "rev (butlast (k0 # kns)) @ [] = kps" "last (k0 # kns) = k"
      using p(1,2) by (simp_all only: hd(1,2) [symmetric] butlast_snoc last_snoc rev_rev_ident append_Nil2)
    note eqs = this
    have "\<exists>kz'. qg_terminal [] q0 ns kz0 = Some (rev (butlast (q0 # ns)) @ [], last (q0 # ns), kz') \<and>
        kz_is kz' (rev (butlast (k0 # kns)) @ []) (last (k0 # kns)) []"
      by (rule terminal_walk [OF hd(3) kz0(2)]) (rule nt)
    then show thesis unfolding eqs using that by blast
  qed
  have "\<exists>res. qg_loop ps q [] kz c = Some res \<and> advanced ok depleted outs ls res"
  proof (cases S)
    case True
    have "\<exists>res. qg_loop ps q [] kz c = Some res \<and>
        advanced ok depleted (pend_up ((l, e, rem) # us) []) (ulevels us @ l # []) res"
      using True p(3) by (intro qg_loop_correct [OF _ p(4-6) _ _ kz(2) c]) auto
    then show ?thesis unfolding p(8) p(7) .
  next
    case False
    then have nf: "next_frame ((l, e, rem) # us) [] = None" using p(9) by simp
    obtain r ps' q' ns' kz' c' kps' k' kns' where bt:
      "qg_backtrack ps q [] kz c = Some (r, ps', q', ns', kz', c')" "ok c'" "kz_is kz' kps' k' kns'"
      "r = None \<and> ps' = [] \<and> kps' = [] \<and> suf_ok ok depleted (q' # ns') (k' # kns') (ulevels us @ l # [])"
    proof -
      have "suf_ok ok depleted [] [] []" by simp
      from backtrack_correct [OF p(3-6) this _ kz(2) c, where e = e] that show thesis unfolding nf by auto
    qed
    have "qg_loop ps q [] kz c = Some (None, [], q', ns', kz', c')"
      using bt(1,4) by (subst qg_loop.simps) simp
    moreover have "outs = []" using next_frame_None [OF nf] p(8) by simp
    ultimately show ?thesis using bt p(7) unfolding advanced_def by auto
  qed
  then obtain r ps' q' ns' kz' c' where loop: "qg_loop ps q [] kz c = Some (r, ps', q', ns', kz', c')"
    "advanced ok depleted outs ls (r, ps', q', ns', kz', c')" by auto
  obtain kps' k' kns' where post: "ok c'" "kz_is kz' kps' k' kns'"
    "case outs of
       [] \<Rightarrow> r = None \<and> ps' = [] \<and> kps' = [] \<and> suf_ok ok depleted (q' # ns') (k' # kns') ls
     | (y, es) # outs' \<Rightarrow> r = Some y \<and> ns' = [] \<and> kns' = [] \<and>
         (\<exists>fs. at_frame ok ps' q' kps' k' fs \<and> ulevels fs = ls \<and> upath fs = es \<and> pend_up fs [] = outs')"
    using loop(2) unfolding advanced_def prod.case by blast
  let ?ks = "rev kps' @ k' # kns'"
  have null: "key = None \<longleftrightarrow> kz' = None"
  proof -
    have "k = None \<longleftrightarrow> snd l = None" using p(6) by (auto simp: kshape_def dest: arg_cong [where f = "\<lambda>x. x = None"])
    then have "key = None \<longleftrightarrow> snd l = None" using keys_are_null [OF keys, of k] p(2) by simp
    moreover have "\<exists>x \<in> set (kps' @ k' # kns'). x = None \<longleftrightarrow> snd l = None"
    proof (cases outs)
      case Nil
      have "list_all2 (\<lambda>k l. k = None \<longleftrightarrow> snd l = None) (k' # kns') (ulevels us @ [l])"
        using post(3) Nil p(7) suf_ok_null by auto
      from list_all2_last [OF this] show ?thesis unfolding set_append by (rule bexE) (rule bexI, assumption, rule UnI2)
    next
      case (Cons o1 os)
      then obtain fs where fs: "at_frame ok ps' q' kps' k' fs" "ulevels fs = ls" using post(3) by (cases o1) auto
      then obtain l1 e1 rem1 us1 where "fs = (l1, e1, rem1) # us1" by (cases fs) (auto simp: at_frame_def)
      then have "k' = None \<longleftrightarrow> snd l = None" using fs p(7) by (auto simp: at_frame_def ekey_def)
      then show ?thesis by auto
    qed
    ultimately show ?thesis using post(2) by (cases kz') (auto simp: kz_is_def)
  qed
  have call: "hdql_query_get qs key c = Some (r, rev ps' @ q' # ns', key_with key kz', c')"
    using kz0(1) kz(1) loop(1) by (simp add: hdql_query_get_def hd chain_of_def)
  note close = keys_are_close [OF keys post(2) null]
  have "case outs of
       [] \<Rightarrow> r = None \<and> chain_done ok ls (rev ps' @ q' # ns') ?ks
     | (y, es) # outs' \<Rightarrow> r = Some y \<and> ?ks = path_keys ls es \<and> chain_pending ok ls (rev ps' @ q' # ns') ?ks outs'"
  proof (cases outs)
    case Nil
    then show ?thesis using post(3) by (simp add: chain_done_def)
  next
    case (Cons o1 os)
    obtain y es where o1: "o1 = (y, es)" by (cases o1)
    from post(3) [unfolded Cons o1, simplified] obtain fs where fs: "r = Some y" "ns' = []" "kns' = []"
      "at_frame ok ps' q' kps' k' fs" "ulevels fs = ls" "upath fs = es" "pend_up fs [] = os" by blast
    show ?thesis
      using at_frame_path [OF fs(4)] at_frame_pending [OF fs(4)] fs by (simp add: Cons o1)
  qed
  with call [unfolded close(1)] post(1) close(2) show ?thesis
    by (intro exI conjI) (assumption | rule refl)+
qed

corollary chain_get:
  assumes "chain_pending ok ls qs ks outs" "keys_are key ks" "ok c"
  shows "\<exists>r qs' key' c' ks'. hdql_query_get qs key c = Some (r, qs', key', c') \<and> ok c' \<and>
    key' = put_keys key ks' \<and> keys_are key' ks' \<and>
    (case outs of
       [] \<Rightarrow> r = None \<and> chain_pending ok ls qs' ks' []
     | (y, es) # outs' \<Rightarrow> r = Some y \<and> ks' = path_keys ls es \<and> chain_pending ok ls qs' ks' outs')"
proof (cases outs)
  case Nil
  then show ?thesis using chain_get_done [OF assms] chain_done_pending by fastforce
next
  case (Cons o1 os)
  then show ?thesis using chain_get_done [OF assms] by simp
qed

text \<open>A chain between calls may be reset at any time, the depleted one included.\<close>

lemma up_suf_valid:
  "up_ok ok S ps kps us \<Longrightarrow> suf_ok ok resettable ns kns ls \<Longrightarrow> ls \<noteq> [] \<Longrightarrow>
   suf_ok ok resettable (rev ps @ ns) (rev kps @ kns) (ulevels us @ ls)"
proof (induction ok S ps kps us arbitrary: ns kns ls rule: up_ok.induct)
  case (2 ok S p ps k ks l e rem fs)
  have "lv_valid (fst l) p" using 2 by (auto simp: klevel_ok_def dest: query_level.pending_valid)
  then show ?case using 2 "2.IH" [of "p # ns" "k # kns" "l # ls"] by (simp add: resettable_def)
qed auto

lemma chain_pending_valid:
  assumes "chain_pending ok ls qs ks outs"
  shows "chain_valid ok ls qs ks"
proof -
  obtain S ps q kps k l e rem us where p: "qs = rev ps @ [q]" "ks = rev kps @ [k]" "up_ok ok S ps kps us"
    "klevel_ok ok l" "lv_pending (fst l) q k rem" "kshape l k" "ulevels us @ [l] = ls"
    using assms unfolding chain_pending_def by blast
  have "suf_ok ok resettable [q] [k] [l]"
    using p by (auto simp: resettable_def klevel_ok_def dest: query_level.pending_valid)
  from up_suf_valid [OF p(3) this] p show ?thesis by (simp add: chain_valid_def)
qed

text \<open>Writing keys twice is writing the last ones, and the caller's own key is kept where it was.\<close>

lemma put_keys_twice [simp]: "put_keys (put_keys key ks) ks' = put_keys key ks'"
proof (cases key)
  case (Some k)
  then show ?thesis by (cases k) (auto simp: put_keys_def split: key_payload.splits)
qed (simp add: put_keys_def)

lemma put_keys_null [simp]: "put_keys key ks = None \<longleftrightarrow> key = None"
  by (cases key) (auto simp: put_keys_def split: key_payload.splits)

text \<open>What the caller sees of an output: the datum and the list key.\<close>

definition seen :: "('d, 's, 'a, 'v, 'e, 'h) klevel list \<Rightarrow> 'v hdql_Key option \<Rightarrow> 'd \<times> 'e list \<Rightarrow> 'd \<times> 'v hdql_Key option"
where
  "seen ls key o1 = (fst o1, put_keys key (path_keys ls (snd o1)))"

lemma seen_simp [simp]: "seen ls key (y, es) = (y, put_keys key (path_keys ls es))"
  by (simp add: seen_def)

lemma seen_put [simp]: "seen ls (put_keys key ks) = seen ls key"
  by (rule ext) (simp add: seen_def)

end
