(* ===== verification/AttrDef.thy ===== *)
theory AttrDef
  imports Keys
begin

text \<open>
  Attribute definitions (\<open>src/attr-def.c\<close>) and the static side of queries (\<open>src/query.c\<close>: creation,
  chaining, inspection, destruction; \<open>src/query-key.c\<close>: \<open>hdql_key_reserve_for_query\<close>).

  An attribute definition may forward to a query, and a query refers to attribute definitions, so
  the two are one mutually recursive structure. A query chain is the list of its links. Callbacks
  and interfaces defined in the library are constructors, those given by a client are functions.
  A client's definition data is opaque, its address is all there is.
\<close>

section \<open>Data\<close>

record hdql_AtomicTypeFeatures =
  at_isReadOnly :: bool
  at_arithTypeCode :: hdql_ValueTypeCode_t

datatype ad_type_info = TiNull | TiAtomic hdql_AtomicTypeFeatures | TiCompound addr

text \<open>
  Interfaces, as far as the life time is concerned: what destroys the dynamic data, the iterator
  or the selection (client interfaces get the definition data and the object).
\<close>

type_synonym destroy_callback = "addr option \<Rightarrow> addr option \<Rightarrow> hdql_Context \<Rightarrow> hdql_Context option"

datatype scalar_iface = ScFwdQuery | ScBoundQuery | ScStaticAtomic | ScClient "destroy_callback option"

datatype collection_iface = CoFwdQuery | CoClient destroy_callback "destroy_callback option"

datatype ad_iface = AdScalar scalar_iface | AdCollection collection_iface

type_synonym key_callback_client =
  "bytes hdql_Key \<Rightarrow> addr option \<Rightarrow> hdql_Context \<Rightarrow> (hdql_Err_t \<times> bytes hdql_Key \<times> hdql_Context) option"

datatype reserve_key_callback = RkFwdQuery | RkClient key_callback_client

datatype transient_dtr = TdFwdQuery | TdStaticAtomic | TdBindingQuery
  | TdClient "addr option \<Rightarrow> hdql_Context \<Rightarrow> hdql_Context option"

datatype hdql_AttrDef = AttrDef
  (ad_addr: addr) (ad_isAtomic: bool) (ad_isCollection: bool) (ad_isFwdQuery: bool)
  (ad_staticValueFlags: "2 word") (ad_isTransient: bool) (ad_keyTypeCode: hdql_ValueTypeCode_t)
  (ad_interface: ad_iface) (ad_definitionData: def_data)
  (ad_reserve_key: "reserve_key_callback option") (ad_typeInfo: ad_type_info)
  (ad_transient_dtr: "transient_dtr option")
and def_data = DefNull | DefDatum addr | DefQuery "q_link list" | DefBound addr "q_link list"
and q_link = QLink
  (ql_addr: addr) (ql_ad: hdql_AttrDef) (ql_ownsSubject: bool)
  (ql_state: "addr option") (ql_selectionArgs: "addr option") (ql_label: "addr option")

text \<open>The definition data as a pointer.\<close>

fun def_addr :: "def_data \<Rightarrow> addr option" where
  "def_addr DefNull = None"
| "def_addr (DefDatum a) = Some a"
| "def_addr (DefQuery qs) = (case qs of [] \<Rightarrow> None | q # _ \<Rightarrow> Some (ql_addr q))"
| "def_addr (DefBound a _) = Some a"

section \<open>Accessors\<close>

definition hdql_attr_def_is_atomic :: "hdql_AttrDef \<Rightarrow> bool" where
  "hdql_attr_def_is_atomic ad = (if ad_isFwdQuery ad then False else ad_isAtomic ad)"

definition hdql_attr_def_is_compound :: "hdql_AttrDef \<Rightarrow> bool" where
  "hdql_attr_def_is_compound ad =
     (if ad_isFwdQuery ad then False else if ad_staticValueFlags ad \<noteq> 0 then False else \<not> ad_isAtomic ad)"

definition hdql_attr_def_is_scalar :: "hdql_AttrDef \<Rightarrow> bool" where
  "hdql_attr_def_is_scalar ad \<longleftrightarrow> \<not> ad_isCollection ad"

definition hdql_attr_def_is_collection :: "hdql_AttrDef \<Rightarrow> bool" where
  "hdql_attr_def_is_collection ad \<longleftrightarrow> ad_isCollection ad"

definition hdql_attr_def_is_static_const_value :: "hdql_AttrDef \<Rightarrow> bool" where
  "hdql_attr_def_is_static_const_value ad \<longleftrightarrow> ad_staticValueFlags ad = 1"

definition hdql_attr_def_is_static_external_value :: "hdql_AttrDef \<Rightarrow> bool" where
  "hdql_attr_def_is_static_external_value ad \<longleftrightarrow> ad_staticValueFlags ad = 2"

definition hdql_attr_def_is_transient :: "hdql_AttrDef \<Rightarrow> bool" where
  "hdql_attr_def_is_transient ad \<longleftrightarrow> ad_isTransient ad"

text \<open>The interface is a union, the member the flag \<open>isCollection\<close> does not announce is not there.\<close>

fun iface_matches :: "ad_iface \<Rightarrow> bool \<Rightarrow> bool" where
  "iface_matches (AdScalar _) co \<longleftrightarrow> \<not> co"
| "iface_matches (AdCollection _) co \<longleftrightarrow> co"

definition hdql_attr_def_scalar_iface :: "hdql_AttrDef \<Rightarrow> (scalar_iface \<times> def_data) option" where
  "hdql_attr_def_scalar_iface ad = do {
     c_assert (\<not> ad_isCollection ad);
     case ad_interface ad of AdScalar i \<Rightarrow> Some (i, ad_definitionData ad) | AdCollection _ \<Rightarrow> None }"

definition hdql_attr_def_collection_iface :: "hdql_AttrDef \<Rightarrow> (collection_iface \<times> def_data) option" where
  "hdql_attr_def_collection_iface ad = do {
     c_assert (ad_isCollection ad);
     case ad_interface ad of AdCollection i \<Rightarrow> Some (i, ad_definitionData ad) | AdScalar _ \<Rightarrow> None }"

text \<open>
  The bound shim is recognised by its \<open>reset\<close> function, which no other interface of the library
  shares; a client can not have it, the function is private.
\<close>

definition hdql_attr_def_is_bound :: "hdql_AttrDef \<Rightarrow> bool option" where
  "hdql_attr_def_is_bound ad =
     (if \<not> hdql_attr_def_is_scalar ad then Some False
      else do { (i, _) \<leftarrow> hdql_attr_def_scalar_iface ad; Some (case i of ScBoundQuery \<Rightarrow> True | _ \<Rightarrow> False) })"

definition hdql__attr_def_is_fwd_query :: "hdql_AttrDef \<Rightarrow> bool" where
  "hdql__attr_def_is_fwd_query ad \<longleftrightarrow> ad_isFwdQuery ad"

definition hdql__attr_def_fwd_query :: "hdql_AttrDef \<Rightarrow> q_link list option" where
  "hdql__attr_def_fwd_query ad = do {
     c_assert (ad_isFwdQuery ad);
     c_assert (ad_staticValueFlags ad = 0);
     d \<leftarrow> (if hdql_attr_def_is_collection ad then map_option snd (hdql_attr_def_collection_iface ad)
          else map_option snd (hdql_attr_def_scalar_iface ad));
     case d of DefQuery qs \<Rightarrow> Some qs | _ \<Rightarrow> None }"

text \<open>A union cleared with \<open>bzero\<close> reads as the atomic type of code 0.\<close>

fun ti_atomic :: "ad_type_info \<Rightarrow> hdql_AtomicTypeFeatures option" where
  "ti_atomic TiNull = Some \<lparr>at_isReadOnly = False, at_arithTypeCode = 0\<rparr>"
| "ti_atomic (TiAtomic t) = Some t"
| "ti_atomic (TiCompound _) = None"

fun ti_compound :: "ad_type_info \<Rightarrow> addr option option" where
  "ti_compound TiNull = Some None"
| "ti_compound (TiAtomic _) = None"
| "ti_compound (TiCompound a) = Some (Some a)"

definition hdql_attr_def_get_atomic_value_type_code :: "hdql_AttrDef \<Rightarrow> hdql_ValueTypeCode_t option" where
  "hdql_attr_def_get_atomic_value_type_code ad = do {
     c_assert (ad_isAtomic ad \<or> ad_staticValueFlags ad \<noteq> 0);
     map_option at_arithTypeCode (ti_atomic (ad_typeInfo ad)) }"

definition hdql_attr_def_get_key_type_code :: "hdql_AttrDef \<Rightarrow> hdql_ValueTypeCode_t" where
  "hdql_attr_def_get_key_type_code ad = ad_keyTypeCode ad"

definition hdql_attr_def_atomic_type_info :: "hdql_AttrDef \<Rightarrow> hdql_AtomicTypeFeatures option" where
  "hdql_attr_def_atomic_type_info ad = do {
     c_assert (ad_isAtomic ad);
     c_assert (\<not> ad_isFwdQuery ad);
     c_assert (ad_staticValueFlags ad = 0);
     ti_atomic (ad_typeInfo ad) }"

definition hdql_attr_def_compound_type_info :: "hdql_AttrDef \<Rightarrow> addr option option" where
  "hdql_attr_def_compound_type_info ad = do {
     c_assert (\<not> ad_isAtomic ad);
     c_assert (\<not> ad_isFwdQuery ad);
     c_assert (ad_staticValueFlags ad = 0);
     ti_compound (ad_typeInfo ad) }"

definition hdql_attr_def_get_static_value :: "hdql_AttrDef \<Rightarrow> addr option option" where
  "hdql_attr_def_get_static_value ad = do {
     c_assert (ad_staticValueFlags ad = 1);
     if hdql_attr_def_is_collection ad
     then map_option (def_addr \<circ> snd) (hdql_attr_def_collection_iface ad)
     else map_option (def_addr \<circ> snd) (hdql_attr_def_scalar_iface ad) }"

fun hdql_attr_def_set_transient :: "hdql_AttrDef \<Rightarrow> transient_dtr option \<Rightarrow> hdql_AttrDef" where
  "hdql_attr_def_set_transient (AttrDef a at co fw st tr kc i d rk ti _) dtr =
     AttrDef a at co fw st True kc i d rk ti dtr"

section \<open>Inspection of queries\<close>

definition hdql_query_get_subject :: "q_link \<Rightarrow> hdql_AttrDef" where
  "hdql_query_get_subject q = ql_ad q"

definition hdql_query_next_query :: "q_link list \<Rightarrow> q_link list option" where
  "hdql_query_next_query qs = (case qs of [] \<Rightarrow> None | q # ns \<Rightarrow> Some ns)"

fun query_depth_from :: "q_link list \<Rightarrow> nat \<Rightarrow> nat" where
  "query_depth_from [] depth = depth"
| "query_depth_from (q # ns) depth = query_depth_from ns (depth + 1)"

definition hdql_query_depth :: "q_link list \<Rightarrow> nat option" where
  "hdql_query_depth qs = (case qs of [] \<Rightarrow> None | q # ns \<Rightarrow> Some (query_depth_from ns 1))"

definition hdql_query_get_collection_selection :: "q_link \<Rightarrow> addr option option" where
  "hdql_query_get_collection_selection q = do {
     c_assert (hdql_attr_def_is_collection (ql_ad q)); Some (ql_selectionArgs q) }"

fun hdql_query_is_fully_scalar :: "q_link list \<Rightarrow> bool option" where
  "hdql_query_is_fully_scalar [] = None"
| "hdql_query_is_fully_scalar (QLink a (AttrDef aa at co fw st tr kc i d rk ti dtr) ow s se la # ns) =
     (if co then Some False else do {
        sub \<leftarrow> (if fw then do {
                 c_assert (st = 0);
                 c_assert (iface_matches i co);
                 case d of DefQuery qs \<Rightarrow> hdql_query_is_fully_scalar qs | _ \<Rightarrow> None }
               else Some True);
        if \<not> sub then Some False
        else if ns = [] then Some True
        else hdql_query_is_fully_scalar ns })"

text \<open>
  \<open>hdql_attr_def_top_attr\<close> and \<open>hdql_query_top_attr\<close>. The loop of the first is the recursion: what
  \<open>hdql_query_top_attr\<close> returns does not forward.
\<close>

fun hdql_attr_def_top_attr :: "hdql_AttrDef \<Rightarrow> hdql_AttrDef option"
and hdql_query_top_attr :: "q_link list \<Rightarrow> hdql_AttrDef option"
where
  "hdql_attr_def_top_attr (AttrDef a at co fw st tr kc i d rk ti dtr) =
     (if \<not> fw then Some (AttrDef a at co fw st tr kc i d rk ti dtr)
      else do {
        c_assert (st = 0);
        c_assert (iface_matches i co);
        case d of DefQuery qs \<Rightarrow> hdql_query_top_attr qs | _ \<Rightarrow> None })"
| "hdql_query_top_attr [] = None"
| "hdql_query_top_attr (QLink a ad ow s se la # ns) =
     (if ns = [] then hdql_attr_def_top_attr ad else hdql_query_top_attr ns)"

section \<open>Constructors\<close>

text \<open>
  The result of an allocation is cleared without a test, so a failed one is undefined behaviour
  (except in the two functions that report \<open>HDQL_ERR_MEMORY\<close>).
\<close>

definition hdql_attr_def_create_atomic_scalar ::
  "hdql_AtomicTypeFeatures option \<Rightarrow> (scalar_iface \<times> def_data) option \<Rightarrow> hdql_ValueTypeCode_t \<Rightarrow>
   reserve_key_callback option \<Rightarrow> hdql_Context \<Rightarrow> (hdql_AttrDef option \<times> hdql_Context) option"
where
  "hdql_attr_def_create_atomic_scalar typeInfo interface keyTypeCode keyIFace c =
     (if Option.is_none typeInfo \<or> Option.is_none interface
      then Some (None, hdql_context_err_push HDQL_ERR_BAD_ARGUMENT c)
      else if keyTypeCode \<noteq> 0 \<and> \<not> Option.is_none keyIFace
      then Some (None, hdql_context_err_push HDQL_ERR_BAD_ARGUMENT c)
      else do {
        let (p, c) = ctx_alloc c;
        a \<leftarrow> p;
        ti \<leftarrow> typeInfo;
        (iface, dd) \<leftarrow> interface;
        Some (Some (AttrDef a True False False 0 False keyTypeCode (AdScalar iface) dd keyIFace
                     (TiAtomic ti) None), c) })"

definition hdql_attr_def_create_atomic_collection ::
  "hdql_AtomicTypeFeatures option \<Rightarrow> (collection_iface \<times> def_data) option \<Rightarrow> hdql_ValueTypeCode_t \<Rightarrow>
   reserve_key_callback option \<Rightarrow> hdql_Context \<Rightarrow> (hdql_AttrDef option \<times> hdql_Context) option"
where
  "hdql_attr_def_create_atomic_collection typeInfo interface keyTypeCode keyIFace c =
     (if Option.is_none typeInfo \<or> Option.is_none interface
      then Some (None, hdql_context_err_push HDQL_ERR_BAD_ARGUMENT c)
      else if keyTypeCode \<noteq> 0 \<and> \<not> Option.is_none keyIFace
      then Some (None, hdql_context_err_push HDQL_ERR_BAD_ARGUMENT c)
      else do {
        let (p, c) = ctx_alloc c;
        a \<leftarrow> p;
        ti \<leftarrow> typeInfo;
        (iface, dd) \<leftarrow> interface;
        Some (Some (AttrDef a True True False 0 False keyTypeCode (AdCollection iface) dd keyIFace
                     (TiAtomic ti) None), c) })"

definition hdql_attr_def_create_compound_scalar ::
  "addr option \<Rightarrow> (scalar_iface \<times> def_data) option \<Rightarrow> hdql_ValueTypeCode_t \<Rightarrow>
   reserve_key_callback option \<Rightarrow> hdql_Context \<Rightarrow> (hdql_AttrDef option \<times> hdql_Context) option"
where
  "hdql_attr_def_create_compound_scalar typeInfo interface keyTypeCode keyIFace c =
     (if Option.is_none typeInfo \<or> Option.is_none interface
      then Some (None, hdql_context_err_push HDQL_ERR_BAD_ARGUMENT c)
      else if keyTypeCode \<noteq> 0 \<and> \<not> Option.is_none keyIFace
      then Some (None, hdql_context_err_push HDQL_ERR_BAD_ARGUMENT c)
      else do {
        let (p, c) = ctx_alloc c;
        a \<leftarrow> p;
        ti \<leftarrow> typeInfo;
        (iface, dd) \<leftarrow> interface;
        Some (Some (AttrDef a False False False 0 False keyTypeCode (AdScalar iface) dd keyIFace
                     (TiCompound ti) None), c) })"

definition hdql_attr_def_create_compound_collection ::
  "addr option \<Rightarrow> (collection_iface \<times> def_data) option \<Rightarrow> hdql_ValueTypeCode_t \<Rightarrow>
   reserve_key_callback option \<Rightarrow> hdql_Context \<Rightarrow> (hdql_AttrDef option \<times> hdql_Context) option"
where
  "hdql_attr_def_create_compound_collection typeInfo interface keyTypeCode keyIFace c =
     (if Option.is_none typeInfo \<or> Option.is_none interface
      then Some (None, hdql_context_err_push HDQL_ERR_BAD_ARGUMENT c)
      else if keyTypeCode \<noteq> 0 \<and> \<not> Option.is_none keyIFace
      then Some (None, hdql_context_err_push HDQL_ERR_BAD_ARGUMENT c)
      else do {
        let (p, c) = ctx_alloc c;
        a \<leftarrow> p;
        ti \<leftarrow> typeInfo;
        (iface, dd) \<leftarrow> interface;
        Some (Some (AttrDef a False True False 0 False keyTypeCode (AdCollection iface) dd keyIFace
                     (TiCompound ti) None), c) })"

definition hdql_attr_def_create_fwd_query ::
  "q_link list \<Rightarrow> hdql_Context \<Rightarrow> (hdql_AttrDef option \<times> hdql_Err_t option \<times> hdql_Context) option" where
  "hdql_attr_def_create_fwd_query subquery c = (case ctx_alloc c of
     (None, c) \<Rightarrow> Some (None, Some HDQL_ERR_MEMORY, c)
   | (Some a, c) \<Rightarrow> do {
       fwdAD \<leftarrow> hdql_query_top_attr subquery;
       isFullyScalar \<leftarrow> hdql_query_is_fully_scalar subquery;
       Some (Some (hdql_attr_def_set_transient
         (AttrDef a (hdql_attr_def_is_atomic fwdAD) (\<not> isFullyScalar) True 0 False 0
           (if isFullyScalar then AdScalar ScFwdQuery else AdCollection CoFwdQuery) (DefQuery subquery)
           (Some RkFwdQuery) TiNull None)
         (Some TdFwdQuery)), None, c) })"

definition hdql_attr_def_create_static_atomic_scalar_value ::
  "hdql_ValueTypeCode_t \<Rightarrow> addr option \<Rightarrow> hdql_Context \<Rightarrow> (hdql_AttrDef option \<times> hdql_Context) option" where
  "hdql_attr_def_create_static_atomic_scalar_value valueType valueDatum c = do {
     c_assert (valueType \<noteq> 0);
     let (p, c) = ctx_alloc c;
     a \<leftarrow> p;
     Some (Some (hdql_attr_def_set_transient
       (AttrDef a True False False 1 False 0 (AdScalar ScStaticAtomic)
         (case valueDatum of None \<Rightarrow> DefNull | Some v \<Rightarrow> DefDatum v) None
         (TiAtomic \<lparr>at_isReadOnly = True, at_arithTypeCode = valueType\<rparr>) None)
       (Some TdStaticAtomic)), c) }"

text \<open>\<open>hdql_bound_value_interface_definition_data_init\<close> and its inverse, from the bound value interface.\<close>

definition hdql_bound_value_interface_definition_data_init ::
  "q_link list \<Rightarrow> hdql_Context \<Rightarrow> (def_data \<times> hdql_Context) option" where
  "hdql_bound_value_interface_definition_data_init q c =
     (let (p, c) = ctx_alloc c in do { a \<leftarrow> p; Some (DefBound a q, c) })"

definition hdql_bound_value_interface_definition_data_destroy ::
  "def_data \<Rightarrow> hdql_Context \<Rightarrow> hdql_Context option" where
  "hdql_bound_value_interface_definition_data_destroy d c = ctx_free (def_addr d) c"

definition hdql_attr_def_create_bound ::
  "q_link list \<Rightarrow> hdql_Context \<Rightarrow> (hdql_AttrDef option \<times> hdql_Err_t option \<times> hdql_Context) option" where
  "hdql_attr_def_create_bound subquery c = do {
     sc \<leftarrow> hdql_query_is_fully_scalar subquery;
     c_assert (\<not> sc);
     qTopAD \<leftarrow> hdql_query_top_attr subquery;
     case ctx_alloc c of
       (None, c) \<Rightarrow> Some (None, Some HDQL_ERR_MEMORY, c)
     | (Some a, c) \<Rightarrow> do {
         (dd, c) \<leftarrow> hdql_bound_value_interface_definition_data_init subquery c;
         Some (Some (AttrDef a (ad_isAtomic qTopAD) False False (ad_staticValueFlags qTopAD) True 0
                  (AdScalar ScBoundQuery) dd None (ad_typeInfo qTopAD) (Some TdBindingQuery)),
               Some HDQL_ERR_CODE_OK, c) } }"

definition hdql_attr_def_create_dynamic_value :: "hdql_AttrDef option" where
  "hdql_attr_def_create_dynamic_value = None"

section \<open>Queries: creation and chaining\<close>

definition hdql__init_query :: "addr \<Rightarrow> hdql_AttrDef \<Rightarrow> addr option \<Rightarrow> q_link option" where
  "hdql__init_query a ad selexpr =
     (if hdql_attr_def_is_collection ad
      then Some (QLink a ad False None selexpr None)
      else do { c_assert (selexpr = None); Some (QLink a ad False None None None) })"

definition hdql_query_create ::
  "hdql_AttrDef \<Rightarrow> addr option \<Rightarrow> hdql_Context \<Rightarrow> (q_link list \<times> hdql_Context) option" where
  "hdql_query_create attrDef selArgs c = do {
     let (p, c) = ctx_alloc c;
     a \<leftarrow> p;
     q \<leftarrow> hdql__init_query a attrDef selArgs;
     Some ([q], c) }"

fun hdql_query_set_transient_subject_ownership :: "q_link list \<Rightarrow> q_link list option" where
  "hdql_query_set_transient_subject_ownership [] = None"
| "hdql_query_set_transient_subject_ownership (QLink a ad ow s se la # ns) =
     Some (QLink a ad True s se la # ns)"

fun hdql_query_append :: "q_link list \<Rightarrow> q_link list \<Rightarrow> q_link list option" where
  "hdql_query_append [] next = None"
| "hdql_query_append [current] next = (if next = [] then None else Some (current # next))"
| "hdql_query_append (current # n # ns) next = do { r \<leftarrow> hdql_query_append (n # ns) next; Some (current # r) }"

fun hdql_query_assign_label :: "q_link list \<Rightarrow> addr option \<Rightarrow> q_link list option" where
  "hdql_query_assign_label [] label = None"
| "hdql_query_assign_label (QLink a ad ow s se la # ns) label = do {
     c_assert (la = None); Some (QLink a ad ow s se label # ns) }"

definition hdql_query_is_labeled :: "q_link \<Rightarrow> bool" where
  "hdql_query_is_labeled q \<longleftrightarrow> ql_label q \<noteq> None"

definition hdql_query_get_label :: "q_link \<Rightarrow> addr option" where
  "hdql_query_get_label q = ql_label q"

section \<open>Destruction\<close>

text \<open>What \<open>hdql__query_destroy\<close> does with the state and the selection of a link.\<close>

definition q_destroy_state ::
  "ad_iface \<Rightarrow> def_data \<Rightarrow> bool \<Rightarrow> bool \<Rightarrow> addr option \<Rightarrow> addr option \<Rightarrow> hdql_Context \<Rightarrow> hdql_Context option" where
  "q_destroy_state i d co fw state sel c =
     (if co then (case i of
        AdScalar _ \<Rightarrow> None
      | AdCollection iface \<Rightarrow> do {
          c \<leftarrow> (if state \<noteq> None
               then (case iface of CoFwdQuery \<Rightarrow> Some c | CoClient destroy _ \<Rightarrow> destroy (def_addr d) state c)
               else Some c);
          if sel \<noteq> None \<and> \<not> fw
          then (case iface of CoClient _ (Some free_sel) \<Rightarrow> free_sel (def_addr d) sel c | _ \<Rightarrow> None)
          else Some c })
      else (case i of
        AdCollection _ \<Rightarrow> None
      | AdScalar iface \<Rightarrow>
          (case iface of ScClient (Some destroy) \<Rightarrow> destroy (def_addr d) state c | _ \<Rightarrow> Some c)))"

fun hdql_attr_def_destroy :: "hdql_AttrDef \<Rightarrow> hdql_Context \<Rightarrow> hdql_Context option"
and hdql_query_destroy :: "q_link list \<Rightarrow> hdql_Context \<Rightarrow> hdql_Context option"
where
  "hdql_attr_def_destroy (AttrDef a at co fw st tr kc i d rk ti dtr) c = do {
     c \<leftarrow> (if tr then (case dtr of
             None \<Rightarrow> Some c
           | Some TdFwdQuery \<Rightarrow>
               (case d of DefNull \<Rightarrow> Some c | DefQuery qs \<Rightarrow> hdql_query_destroy qs c | _ \<Rightarrow> None)
           | Some TdStaticAtomic \<Rightarrow> ctx_free (def_addr d) c
           | Some TdBindingQuery \<Rightarrow> hdql_bound_value_interface_definition_data_destroy d c
           | Some (TdClient f) \<Rightarrow> f (def_addr d) c)
          else Some c);
     ctx_free (Some a) c }"
| "hdql_query_destroy [] c = None"
| "hdql_query_destroy (QLink a (AttrDef aa at co fw st tr kc i d rk ti dtr) ow s se la # ns) c = do {
     c \<leftarrow> ctx_free la c;
     c \<leftarrow> (if ns \<noteq> [] then hdql_query_destroy ns c else Some c);
     c \<leftarrow> q_destroy_state i d co fw s se c;
     c \<leftarrow> (if tr \<and> ow then hdql_attr_def_destroy (AttrDef aa at co fw st tr kc i d rk ti dtr) c else Some c);
     ctx_free (Some a) c }"

section \<open>Reserving keys\<close>

text \<open>The assertion that ends a turn of the loop of \<open>hdql_key_reserve_for_query\<close>.\<close>

definition key_reserved :: "bytes hdql_Key \<Rightarrow> bool" where
  "key_reserved k \<longleftrightarrow>
     (k_code k \<noteq> 0 \<and> k_plType k = KEY_PL_TYPE_PLAIN \<and> pl_addr (k_pl k) \<noteq> None) \<or>
     (k_code k = 0 \<and> (k_plType k = KEY_PL_TYPE_LIST \<and> pl_addr (k_pl k) \<noteq> None \<or> pl_addr (k_pl k) = None))"

fun k_set_code :: "hdql_ValueTypeCode_t \<Rightarrow> 'v hdql_Key \<Rightarrow> 'v hdql_Key" where
  "k_set_code c (Key _ ty t p l) = Key c ty t p l"

text \<open>
  \<open>hdql_key_reserve_for_query\<close>, \<open>hdql_attr_def_reserve_key\<close> (which drops what the callback returns)
  and the callback of forwarding queries call one another. \<open>reserve_links\<close> is the loop over the
  links of a chain.
\<close>

function (sequential) hdql_attr_def_reserve_key ::
  "hdql_AttrDef \<Rightarrow> bytes hdql_Key \<Rightarrow> hdql_Context \<Rightarrow> (hdql_Err_t \<times> bytes hdql_Key \<times> hdql_Context) option"
and hdql_key_reserve_for_query ::
  "q_link list \<Rightarrow> bytes hdql_Key \<Rightarrow> hdql_Context \<Rightarrow> (hdql_Err_t \<times> bytes hdql_Key \<times> hdql_Context) option"
and reserve_links ::
  "hdql_ValueTypes \<Rightarrow> q_link list \<Rightarrow> bytes hdql_Key list \<Rightarrow> hdql_Context \<Rightarrow>
   (hdql_Err_t \<times> bytes hdql_Key list \<times> hdql_Context) option"
where
  "hdql_attr_def_reserve_key (AttrDef a at co fw st tr kc i d rk ti dtr) key c = do {
     c_assert (kc = 0);
     case rk of
       None \<Rightarrow> Some (HDQL_ERR_CODE_OK, hdql_key_mark_empty, c)
     | Some cb \<Rightarrow> do {
         c_assert (iface_matches i co);
         (_, key, c) \<leftarrow> (case cb of
            RkClient f \<Rightarrow> f key (def_addr d) c
          | RkFwdQuery \<Rightarrow> do {
              (rc, key, c) \<leftarrow> (case d of
                 DefQuery qs \<Rightarrow> hdql_key_reserve_for_query qs key c
               | DefNull \<Rightarrow> Some (HDQL_ERR_BAD_ARGUMENT, key, c)
               | _ \<Rightarrow> None);
              c_assert (hdql_key_is_list key);
              Some (rc, key, c) });
         Some (HDQL_ERR_CODE_OK, key, c) } }"
| "hdql_key_reserve_for_query qs key c = (case hdql_query_depth qs of
     None \<Rightarrow> Some (HDQL_ERR_BAD_ARGUMENT, key, c)
   | Some nKeys \<Rightarrow> do {
       (rc, key, c) \<leftarrow> hdql_key_mark_as_list key nKeys c;
       if rc \<noteq> HDQL_ERR_CODE_OK then Some (rc, key, c)
       else case cx_types c of
         None \<Rightarrow> Some (HDQL_ERR_CONTEXT_INCOMPLETE, key, c)
       | Some types \<Rightarrow> do {
           ks \<leftarrow> pl_keys (k_pl key);
           ka \<leftarrow> pl_addr (k_pl key);
           (rc, ks, c) \<leftarrow> reserve_links types qs ks c;
           Some (rc, k_set_pl (PlKeys ka ks) key, c) } })"
| "reserve_links types (QLink a ad ow s se la # ns) (k # ks) c =
     (let kc = ad_keyTypeCode ad; k = k_set_code kc (hdql_key_set_label k None)
      in do {
        (stop, rc, k, c) \<leftarrow>
          (if kc \<noteq> 0 then do {
             vi \<leftarrow> types kc;
             Some (case ctx_alloc c of
               (None, c) \<Rightarrow> (True, HDQL_ERR_MEMORY, k_set_pl PlNull k, hdql_context_err_push HDQL_ERR_MEMORY c)
             | (Some p, c) \<Rightarrow> (False, HDQL_ERR_CODE_OK, k_set_pl (PlDatum p (replicate (vi_size vi) 0)) k, c)) }
           else do {
             (rc, k, c) \<leftarrow> hdql_attr_def_reserve_key ad k c;
             Some (if rc \<noteq> HDQL_ERR_CODE_OK
                   then (True, HDQL_ERR_INTERFACE_ERROR, Key (k_code k) KEY_PL_TYPE_LIST True PlNull (k_label k),
                         hdql_context_err_push HDQL_ERR_INTERFACE_ERROR c)
                   else (False, HDQL_ERR_CODE_OK, k, c)) });
        if stop then Some (rc, k # ks, c)
        else do {
          c_assert (key_reserved k);
          if ns = [] then Some (HDQL_ERR_CODE_OK, k_set_terminal True k # ks, c)
          else do {
            (rc, ks, c) \<leftarrow> reserve_links types ns ks c;
            Some (rc, k # ks, c) } } })"
| "reserve_links types _ _ c = None"
  by pat_completeness auto
termination
  by (relation "measure (\<lambda>x. case x of
        Inl (ad, _, _) \<Rightarrow> 2 * size ad
      | Inr (Inl (qs, _, _)) \<Rightarrow> 2 * size_list size qs + 1
      | Inr (Inr (_, qs, _, _)) \<Rightarrow> 2 * size_list size qs)") auto

section \<open>Destruction releases what a query owns\<close>

text \<open>
  A client's destructor is expected to release the object it is given; the objects a query owns
  are then these, in the order they are released.
\<close>

definition frees_object :: "destroy_callback \<Rightarrow> bool" where
  "frees_object f \<longleftrightarrow> (\<forall>p s c. f p s c = ctx_free s c)"

definition opt_list :: "'a option \<Rightarrow> 'a list" where
  "opt_list x = (case x of None \<Rightarrow> [] | Some y \<Rightarrow> [y])"

lemma opt_list_simps [simp]: "opt_list None = []" "opt_list (Some x) = [x]"
  by (simp_all add: opt_list_def)

definition state_blocks :: "ad_iface \<Rightarrow> bool \<Rightarrow> addr option \<Rightarrow> addr option \<Rightarrow> addr list" where
  "state_blocks i fw s se = (case i of
     AdCollection CoFwdQuery \<Rightarrow> []
   | AdCollection (CoClient _ _) \<Rightarrow> opt_list s @ (if fw then [] else opt_list se)
   | AdScalar (ScClient (Some _)) \<Rightarrow> opt_list s
   | _ \<Rightarrow> [])"

definition state_ok :: "ad_iface \<Rightarrow> bool \<Rightarrow> bool \<Rightarrow> addr option \<Rightarrow> bool" where
  "state_ok i co fw se \<longleftrightarrow> iface_matches i co \<and> (case i of
     AdCollection CoFwdQuery \<Rightarrow> se = None \<or> fw
   | AdCollection (CoClient destroy free_sel) \<Rightarrow> frees_object destroy \<and>
       (se \<noteq> None \<and> \<not> fw \<longrightarrow> (case free_sel of None \<Rightarrow> False | Some f \<Rightarrow> frees_object f))
   | AdScalar (ScClient (Some destroy)) \<Rightarrow> frees_object destroy
   | _ \<Rightarrow> True)"

fun ad_blocks :: "hdql_AttrDef \<Rightarrow> addr list" and q_blocks :: "q_link list \<Rightarrow> addr list" where
  "ad_blocks (AttrDef a at co fw st tr kc i d rk ti dtr) =
     (if tr then (case dtr of
        Some TdFwdQuery \<Rightarrow> (case d of DefQuery qs \<Rightarrow> q_blocks qs | _ \<Rightarrow> [])
      | None \<Rightarrow> []
      | _ \<Rightarrow> opt_list (def_addr d)) else []) @ [a]"
| "q_blocks [] = []"
| "q_blocks (QLink a (AttrDef aa at co fw st tr kc i d rk ti dtr) ow s se la # ns) =
     opt_list la @ q_blocks ns @ state_blocks i fw s se @
     (if tr \<and> ow then ad_blocks (AttrDef aa at co fw st tr kc i d rk ti dtr) else []) @ [a]"

fun ad_ok :: "hdql_AttrDef \<Rightarrow> bool" and q_ok :: "q_link list \<Rightarrow> bool" where
  "ad_ok (AttrDef a at co fw st tr kc i d rk ti dtr) \<longleftrightarrow>
     (tr \<longrightarrow> (case dtr of
        None \<Rightarrow> True
      | Some TdFwdQuery \<Rightarrow> (case d of DefNull \<Rightarrow> True | DefQuery qs \<Rightarrow> q_ok qs | _ \<Rightarrow> False)
      | Some (TdClient f) \<Rightarrow> frees_object (\<lambda>_. f)
      | _ \<Rightarrow> True))"
| "q_ok [] \<longleftrightarrow> False"
| "q_ok (QLink a (AttrDef aa at co fw st tr kc i d rk ti dtr) ow s se la # ns) \<longleftrightarrow>
     state_ok i co fw se \<and> (ns \<noteq> [] \<longrightarrow> q_ok ns) \<and>
     (tr \<and> ow \<longrightarrow> ad_ok (AttrDef aa at co fw st tr kc i d rk ti dtr))"

lemma free_list_none [simp]: "cx.free_list [] = Some"
  by (rule ext) simp

lemma free_list_one [simp]: "cx.free_list [a] = ctx_free (Some a)"
  by (rule ext) simp

lemma free_opt [simp]: "cx.free_list (opt_list p) = ctx_free p"
  by (rule ext, cases p) simp_all

lemma q_destroy_state_list:
  "state_ok i co fw se \<Longrightarrow> q_destroy_state i d co fw s se c = cx.free_list (state_blocks i fw s se) c"
  by (cases i; cases s; cases se)
    (auto simp: state_ok_def q_destroy_state_def state_blocks_def frees_object_def cx.free_list_append
       split: collection_iface.splits scalar_iface.splits option.splits)

lemma destroy_is_free_list:
  shows "ad_ok ad \<Longrightarrow> hdql_attr_def_destroy ad c = cx.free_list (ad_blocks ad) c"
    and "q_ok qs \<Longrightarrow> hdql_query_destroy qs c = cx.free_list (q_blocks qs) c"
proof (induction ad c and qs c rule: hdql_attr_def_destroy_hdql_query_destroy.induct)
  case (1 a at co fw st tr kc i d rk ti dtr c)
  then show ?case
    by (auto simp: cx.free_list_append frees_object_def hdql_bound_value_interface_definition_data_destroy_def
        split: option.splits transient_dtr.splits def_data.splits)
next
  case (3 a aa at co fw st tr kc i d rk ti dtr ow s se la ns c)
  then show ?case
    by (cases "ns = []"; cases "tr \<and> ow")
      (auto simp: cx.free_list_append q_destroy_state_list simp del: hdql_attr_def_destroy.simps
        ad_blocks.simps ad_ok.simps intro!: Option.bind_cong)
qed simp

text \<open>
  C14: Destroying a query chain whose blocks are live and distinct releases each of them once: the
  links, their labels, iterators and selections, the transient attribute definitions they own and,
  through forwarding definitions, the queries below; nothing else is released.
\<close>

theorem query_destroy_exact:
  assumes "q_ok qs" "ctx_wf c" "distinct (q_blocks qs)" "set (q_blocks qs) \<subseteq> ctx_live c"
  shows "\<exists>c'. hdql_query_destroy qs c = Some c' \<and> ctx_wf c' \<and> ctx_live c' = ctx_live c - set (q_blocks qs)"
  using cx.moved_free_list [OF assms(2,4,3) subset_refl] assms(4)
  by (auto simp: destroy_is_free_list(2) [OF assms(1)] cx.moved_def)

text \<open>A chain of two: a client's collection, then a forwarding definition it owns.\<close>

definition ad_client_sample :: hdql_AttrDef where
  "ad_client_sample = AttrDef 8 False True False 0 False 7
     (AdCollection (CoClient (\<lambda>_ s c. ctx_free s c) None)) DefNull None (TiCompound 7) None"

definition ad_scalar_sample :: hdql_AttrDef where
  "ad_scalar_sample = AttrDef 7 True False False 0 False 0 (AdScalar (ScClient None)) DefNull None
     (TiAtomic \<lparr>at_isReadOnly = False, at_arithTypeCode = 3\<rparr>) None"

definition ad_fwd_sample :: hdql_AttrDef where
  "ad_fwd_sample = AttrDef 13 False False True 0 True 0 (AdScalar ScFwdQuery)
     (DefQuery [QLink 14 ad_scalar_sample False None None None]) (Some RkFwdQuery) TiNull (Some TdFwdQuery)"

definition q_sample :: "q_link list" where
  "q_sample = [QLink 9 ad_client_sample False (Some 11) None (Some 10), QLink 12 ad_fwd_sample True None None None]"

lemmas q_samples = q_sample_def ad_client_sample_def ad_scalar_sample_def ad_fwd_sample_def

lemma query_destroy_exact_witness:
  "\<exists>c'. hdql_query_destroy q_sample ctx_sample = Some c' \<and> ctx_live c' = {15}"
proof -
  have blocks: "q_blocks q_sample = [10, 14, 13, 12, 11, 9]"
    by (simp add: q_samples state_blocks_def)
  have "q_ok q_sample" by (simp add: q_samples state_ok_def frees_object_def)
  from query_destroy_exact [OF this, of ctx_sample] show ?thesis
    by (force simp: blocks ctx_sample_def ctx_wf_def heap_wf_def ctx_live_def)
qed

section \<open>Reserving a key and releasing it\<close>

text \<open>The blocks of a key by its structure.\<close>

lemma walk_blocks_addrs:
  fixes k :: "'v hdql_Key" and ks :: "'v hdql_Key list"
  shows "walk_blocks (key_walk k path lvl nq) = key_addrs k"
    and "walk_blocks (keys_walk ks path lvl n) = keys_addrs ks"
  by (induction k path lvl nq and ks path lvl n rule: key_walk_keys_walk.induct)
    (auto split: key_payload.splits)

lemma key_blocks_addrs: "key_blocks k = key_addrs k"
  by (simp add: key_blocks_def walk_blocks_addrs)

text \<open>
  What a chain makes of its key: an item per link, a cleared datum of the key type's size, an
  empty key when there is nothing to reserve, or the key of the query forwarded to. A client's
  callback may build any well-formed key.
\<close>

fun key_matches :: "hdql_ValueTypes \<Rightarrow> q_link list \<Rightarrow> bytes hdql_Key list \<Rightarrow> bool" where
  "key_matches types [] ks \<longleftrightarrow> ks = []"
| "key_matches types (QLink a (AttrDef aa at co fw st tr kc i d rk ti dtr) ow s se la # ns) ks \<longleftrightarrow>
     (case ks of [] \<Rightarrow> False | k # ks' \<Rightarrow>
        k_code k = kc \<and> key_matches types ns ks' \<and>
        (if kc \<noteq> 0 then (\<exists>p vi. types kc = Some vi \<and> k_pl k = PlDatum p (replicate (vi_size vi) 0))
         else case rk of
           None \<Rightarrow> k_pl k = PlNull
         | Some RkFwdQuery \<Rightarrow> (case d of
             DefQuery qs \<Rightarrow> (\<exists>p ks''. k_pl k = PlKeys p ks'' \<and> key_matches types qs ks'')
           | _ \<Rightarrow> False)
         | Some (RkClient _) \<Rightarrow> key_ok k))"

definition no_oom :: "hdql_Context \<Rightarrow> bool" where
  "no_oom c \<longleftrightarrow> (\<forall>n. \<not> hp_oom (cx_heap c) n)"

definition key_fresh :: "'v hdql_Key \<Rightarrow> bool" where
  "key_fresh k \<longleftrightarrow> k_code k = 0 \<and> k_plType k = KEY_PL_TYPE_PLAIN \<and> k_pl k = PlNull"

text \<open>The key \<open>k\<close> was built between two contexts, all of its blocks new.\<close>

definition built :: "hdql_Context \<Rightarrow> addr list \<Rightarrow> hdql_Context \<Rightarrow> bool" where
  "built c ps c' \<longleftrightarrow> distinct ps \<and> cx.moved c {} (set ps) c' \<and> cx_types c' = cx_types c \<and> (no_oom c \<longrightarrow> no_oom c')"

definition client_reserves :: "key_callback_client \<Rightarrow> bool" where
  "client_reserves f \<longleftrightarrow> (\<forall>k p c. key_fresh k \<and> ctx_wf c \<and> no_oom c \<longrightarrow>
     (case f k p c of None \<Rightarrow> False
      | Some (_, k', c') \<Rightarrow> k_code k' = 0 \<and> key_ok k' \<and> k_isTerminal k' = k_isTerminal k \<and> built c (key_addrs k') c'))"

fun q_reservable :: "hdql_ValueTypes \<Rightarrow> q_link list \<Rightarrow> bool" where
  "q_reservable types [] \<longleftrightarrow> True"
| "q_reservable types (QLink a (AttrDef aa at co fw st tr kc i d rk ti dtr) ow s se la # ns) \<longleftrightarrow>
     q_reservable types ns \<and>
     (if kc \<noteq> 0 then types kc \<noteq> None
      else case rk of
        None \<Rightarrow> True
      | Some RkFwdQuery \<Rightarrow> iface_matches i co \<and>
          (case d of DefQuery qs \<Rightarrow> qs \<noteq> [] \<and> q_reservable types qs | _ \<Rightarrow> False)
      | Some (RkClient f) \<Rightarrow> iface_matches i co \<and> client_reserves f)"

lemma built_refl: "ctx_wf c \<Longrightarrow> built c [] c"
  by (simp add: built_def cx.moved_refl)

lemma built_trans:
  assumes "built c ps c'" "built c' qs c''"
  shows "built c (ps @ qs) c''"
  using assms unfolding built_def cx.moved_def by auto

lemma built_perm: "built c ps c' \<Longrightarrow> set qs = set ps \<Longrightarrow> distinct qs \<Longrightarrow> built c qs c'"
  by (simp add: built_def)

lemma built_wf: "built c ps c' \<Longrightarrow> ctx_wf c'"
  by (simp add: built_def cx.moved_def)

lemma built_swap: "built c (ps @ qs) c' \<Longrightarrow> built c (qs @ ps) c'"
  by (rule built_perm [of _ "ps @ qs"]) (auto simp: built_def)

lemma alloc_built:
  assumes "ctx_wf c" "no_oom c"
  obtains p c' where "ctx_alloc c = (Some p, c')" "built c [p] c'"
proof -
  obtain r c' where a: "ctx_alloc c = (r, c')" by (cases "ctx_alloc c")
  then obtain p where p: "r = Some p"
    using assms(2) by (auto simp: no_oom_def ctx_alloc_malloc heap_malloc_def Let_def)
  have "cx.moved c {} {p} c'"
    using cx.moved_alloc(2) [of c 1 p c' "{}"] a p assms(1) by simp
  moreover have "no_oom c'"
    using a assms(2) by (auto simp: no_oom_def ctx_alloc_malloc heap_malloc_def Let_def)
  ultimately show thesis using that a p by (simp add: built_def)
qed

lemma mark_as_list_built:
  assumes "key_fresh k" "0 < n" "ctx_wf c" "no_oom c"
  obtains a c' where "hdql_key_mark_as_list k n c = Some (HDQL_ERR_CODE_OK,
      Key 0 KEY_PL_TYPE_LIST (k_isTerminal k)
        (PlKeys a (replicate (n - 1) hdql_key_mark_empty @ [k_set_terminal True hdql_key_mark_empty])) (k_label k), c')"
    "built c [a] c'"
proof -
  obtain a c' where a: "ctx_alloc c = (Some a, c')" "built c [a] c'" using alloc_built assms(3,4) by blast
  have "(replicate n hdql_key_mark_empty)[n - 1 := x] = replicate (n - 1) hdql_key_mark_empty @ [x]"
    for x :: "'a hdql_Key"
    using assms(2) by (cases n) (simp_all add: replicate_append_same [symmetric] list_update_append)
  then show thesis
    using that a assms(1,2) by (simp add: hdql_key_mark_as_list_def key_fresh_def key_types)
qed

lemma hdql_query_depth_length: "qs \<noteq> [] \<Longrightarrow> hdql_query_depth qs = Some (length qs)"
proof -
  have "query_depth_from ns d = d + length ns" for ns d by (induction ns arbitrary: d) auto
  then show "qs \<noteq> [] \<Longrightarrow> ?thesis" by (cases qs) (auto simp: hdql_query_depth_def)
qed

lemma key_fresh_set_code: "key_fresh k \<Longrightarrow> key_fresh (k_set_code 0 (hdql_key_set_label k None))"
  by (cases k) (simp add: key_fresh_def)

text \<open>From the links of a chain to its key.\<close>

definition links_reserved :: "hdql_ValueTypes \<Rightarrow> q_link list \<Rightarrow> bool" where
  "links_reserved types qs \<longleftrightarrow> (\<forall>ks c. length ks = length qs \<and> keys_ok ks \<and>
     (\<forall>k \<in> set ks. key_fresh k) \<and> ctx_wf c \<and> no_oom c \<and> cx_types c = Some types \<longrightarrow>
     (\<exists>ks' c'. reserve_links types qs ks c = Some (HDQL_ERR_CODE_OK, ks', c') \<and> keys_ok ks' \<and>
        key_matches types qs ks' \<and> built c (keys_addrs ks') c'))"

lemma reserve_from_links:
  assumes "links_reserved types qs" "qs \<noteq> []" "k = Key 0 KEY_PL_TYPE_PLAIN t PlNull l"
    "ctx_wf c" "no_oom c" "cx_types c = Some types"
  obtains a ks' c' where "hdql_key_reserve_for_query qs k c = Some (HDQL_ERR_CODE_OK,
      Key 0 KEY_PL_TYPE_LIST t (PlKeys a ks') l, c')"
    "keys_ok ks'" "key_matches types qs ks'" "built c (keys_addrs ks' @ [a]) c'"
proof -
  let ?ks = "replicate (length qs - 1) (hdql_key_mark_empty :: bytes hdql_Key) @ [k_set_terminal True hdql_key_mark_empty]"
  obtain a c1 where m: "hdql_key_mark_as_list k (length qs) c = Some (HDQL_ERR_CODE_OK,
      Key 0 KEY_PL_TYPE_LIST t (PlKeys a ?ks) l, c1)" "built c [a] c1"
  proof -
    have "key_fresh k" by (simp add: assms(3) key_fresh_def)
    from mark_as_list_built [OF this _ assms(4,5), of "length qs"] that show thesis
      using assms(2) by (auto simp: assms(3))
  qed
  have c1: "ctx_wf c1" "no_oom c1" "cx_types c1 = Some types"
    using built_wf [OF m(2)] m(2) assms(5,6) by (auto simp: built_def)
  have ks: "length ?ks = length qs" "keys_ok ?ks" "\<forall>k \<in> set ?ks. key_fresh k"
    using assms(2) keys_ok_fresh by (auto simp: key_fresh_def hdql_key_mark_empty_def key_types)
  from assms(1) ks c1 obtain ks' c' where r:
    "reserve_links types qs ?ks c1 = Some (HDQL_ERR_CODE_OK, ks', c')" "keys_ok ks'" "key_matches types qs ks'"
    "built c1 (keys_addrs ks') c'"
    unfolding links_reserved_def by blast
  have "built c (keys_addrs ks' @ [a]) c'" using built_swap [OF built_trans [OF m(2) r(4)]] by simp
  moreover have "hdql_key_reserve_for_query qs k c = Some (HDQL_ERR_CODE_OK,
      Key 0 KEY_PL_TYPE_LIST t (PlKeys a ks') l, c')"
    using m(1) r(1) c1(3) by (simp add: hdql_query_depth_length [OF assms(2)])
  ultimately show thesis using that r by blast
qed

text \<open>One link: the item reserved for it.\<close>

definition item_matches :: "hdql_ValueTypes \<Rightarrow> q_link \<Rightarrow> bytes hdql_Key \<Rightarrow> bool" where
  "item_matches types q k \<longleftrightarrow> key_matches types [q] [k]"

lemma key_matches_Cons:
  "key_matches types (q # ns) (k # ks) \<longleftrightarrow> item_matches types q k \<and> key_matches types ns ks"
proof -
  obtain a ad ow s se la where "q = QLink a ad ow s se la" by (cases q)
  then show ?thesis by (cases ad) (auto simp: item_matches_def)
qed

lemma item_matches_terminal: "item_matches types q (k_set_terminal t k) \<longleftrightarrow> item_matches types q k"
proof -
  obtain a ad ow s se la where "q = QLink a ad ow s se la" by (cases q)
  moreover obtain c ty t' p l where "k = Key c ty t' p l" by (cases k)
  ultimately show ?thesis
    by (cases ad) (auto simp: item_matches_def split: option.splits reserve_key_callback.splits def_data.splits)
qed

text \<open>
  The step of the loop for one link: in every case the item is well formed, keeps its flag and
  all of its blocks are new.
\<close>

definition reserve_item ::
  "hdql_ValueTypes \<Rightarrow> hdql_AttrDef \<Rightarrow> bytes hdql_Key \<Rightarrow> hdql_Context \<Rightarrow>
   (bool \<times> hdql_Err_t \<times> bytes hdql_Key \<times> hdql_Context) option" where
  "reserve_item types ad k c =
     (let kc = ad_keyTypeCode ad; k = k_set_code kc (hdql_key_set_label k None)
      in if kc \<noteq> 0 then do {
           vi \<leftarrow> types kc;
           Some (case ctx_alloc c of
             (None, c) \<Rightarrow> (True, HDQL_ERR_MEMORY, k_set_pl PlNull k, hdql_context_err_push HDQL_ERR_MEMORY c)
           | (Some p, c) \<Rightarrow> (False, HDQL_ERR_CODE_OK, k_set_pl (PlDatum p (replicate (vi_size vi) 0)) k, c)) }
         else do {
           (rc, k, c) \<leftarrow> hdql_attr_def_reserve_key ad k c;
           Some (if rc \<noteq> HDQL_ERR_CODE_OK
                 then (True, HDQL_ERR_INTERFACE_ERROR, Key (k_code k) KEY_PL_TYPE_LIST True PlNull (k_label k),
                       hdql_context_err_push HDQL_ERR_INTERFACE_ERROR c)
                 else (False, HDQL_ERR_CODE_OK, k, c)) })"

lemma reserve_links_item:
  "reserve_links types (QLink a ad ow s se la # ns) (k # ks) c = do {
     (stop, rc, k, c) \<leftarrow> reserve_item types ad k c;
     if stop then Some (rc, k # ks, c)
     else do {
       c_assert (key_reserved k);
       if ns = [] then Some (HDQL_ERR_CODE_OK, k_set_terminal True k # ks, c)
       else do {
         (rc, ks, c) \<leftarrow> reserve_links types ns ks c;
         Some (rc, k # ks, c) } } }"
  by (simp add: reserve_item_def Let_def)

lemma key_ok_reserved: "key_ok k \<Longrightarrow> k_code k = 0 \<Longrightarrow> key_reserved k"
  by (cases k) (auto simp: key_reserved_def key_types split: key_payload.splits)

lemma reserve_item_ok:
  assumes res: "q_reservable types [QLink a ad ow s se la]" and k: "key_fresh k"
    and c: "ctx_wf c" "no_oom c" "cx_types c = Some types"
    and sub: "\<And>qs. ad_definitionData ad = DefQuery qs \<Longrightarrow> q_reservable types qs \<Longrightarrow> qs \<noteq> [] \<Longrightarrow> links_reserved types qs"
  shows "\<exists>k' c'. reserve_item types ad k c = Some (False, HDQL_ERR_CODE_OK, k', c') \<and> key_ok k' \<and>
    (\<not> k_isTerminal k \<longrightarrow> \<not> k_isTerminal k') \<and>
    key_reserved k' \<and> item_matches types (QLink a ad ow s se la) k' \<and> built c (key_addrs k') c'"
proof -
  obtain aa at co fw st tr kc i d rk ti dtr where ad: "ad = AttrDef aa at co fw st tr kc i d rk ti dtr" by (cases ad)
  obtain t l where k0: "k = Key 0 KEY_PL_TYPE_PLAIN t PlNull l" using k by (cases k) (auto simp: key_fresh_def)
  show ?thesis
  proof (cases "kc = 0")
    case False
    then obtain vi where vi: "types kc = Some vi" using res by (auto simp: ad)
    obtain p c' where a: "ctx_alloc c = (Some p, c')" "built c [p] c'" using alloc_built c by blast
    show ?thesis
      using False vi a by (simp add: reserve_item_def ad k0 item_matches_def key_reserved_def key_types)
  next
    case True
    have fresh: "key_fresh (Key 0 KEY_PL_TYPE_PLAIN t PlNull None)" by (simp add: key_fresh_def)
    show ?thesis
    proof (cases rk)
      case None
      then show ?thesis
        using True c by (simp add: reserve_item_def ad k0 item_matches_def key_reserved_def built_refl
            hdql_key_mark_empty_def key_types)
    next
      case (Some cb)
      show ?thesis
      proof (cases cb)
        case RkFwdQuery
        then obtain qs where d: "d = DefQuery qs" "qs \<noteq> []" "q_reservable types qs" "iface_matches i co"
          using res True Some by (auto simp: ad split: def_data.splits)
        have "links_reserved types qs" using sub d by (simp add: ad)
        from reserve_from_links [OF this d(2) refl c] obtain b ks' c' where r:
          "hdql_key_reserve_for_query qs (Key 0 KEY_PL_TYPE_PLAIN t PlNull None) c = Some (HDQL_ERR_CODE_OK,
             Key 0 KEY_PL_TYPE_LIST t (PlKeys b ks') None, c')"
          "keys_ok ks'" "key_matches types qs ks'" "built c (keys_addrs ks' @ [b]) c'"
          by metis
        show ?thesis
          using True Some RkFwdQuery d r
          by (simp add: reserve_item_def ad k0 item_matches_def key_reserved_def hdql_key_is_list_def key_types
              del: hdql_key_reserve_for_query.simps)
      next
        case (RkClient f)
        then have cl: "client_reserves f" "iface_matches i co" using res True Some by (auto simp: ad)
        let ?k = "Key 0 KEY_PL_TYPE_PLAIN t PlNull None :: bytes hdql_Key"
        have "case f ?k (def_addr d) c of None \<Rightarrow> False
          | Some (_, k', c') \<Rightarrow> k_code k' = 0 \<and> key_ok k' \<and> k_isTerminal k' = k_isTerminal ?k \<and> built c (key_addrs k') c'"
          using cl(1) fresh c unfolding client_reserves_def by blast
        then obtain rc k' c' where f: "f ?k (def_addr d) c = Some (rc, k', c')"
          "k_code k' = 0" "key_ok k'" "k_isTerminal k' = t" "built c (key_addrs k') c'"
          by (cases "f ?k (def_addr d) c") auto
        show ?thesis
          using True Some RkClient cl f key_ok_reserved [OF f(3,2)]
          by (simp add: reserve_item_def ad k0 item_matches_def)
      qed
    qed
  qed
qed

lemma keys_ok_ConsI: "key_ok k \<Longrightarrow> \<not> k_isTerminal k \<Longrightarrow> keys_ok ks \<Longrightarrow> keys_ok (k # ks)"
  by auto

lemma key_ok_terminal [simp]: "key_ok (k_set_terminal t k) = key_ok k" "key_addrs (k_set_terminal t k) = key_addrs k"
  "k_isTerminal (k_set_terminal t k) = t"
  by (cases k; simp)+

lemma links_reserved_all: "q_reservable types qs \<Longrightarrow> qs \<noteq> [] \<Longrightarrow> links_reserved types qs"
proof (induction "size_list size qs" arbitrary: qs rule: less_induct)
  case less
  obtain q ns where qs: "qs = q # ns" using less.prems(2) by (cases qs) auto
  obtain a ad ow s se la where q: "q = QLink a ad ow s se la" by (cases q)
  have res: "q_reservable types [QLink a ad ow s se la]" "q_reservable types ns"
    using less.prems(1) by (cases ad; auto simp: qs q)+
  have sub: "links_reserved types qs'" if "ad_definitionData ad = DefQuery qs'" "q_reservable types qs'" "qs' \<noteq> []" for qs'
  proof (rule less.hyps [OF _ that(2,3)])
    show "size_list size qs' < size_list size qs" using that(1) by (cases ad) (simp add: qs q)
  qed
  have tail: "ns \<noteq> [] \<Longrightarrow> links_reserved types ns"
    using res(2) by (intro less.hyps) (simp_all add: qs)
  show ?case
    unfolding links_reserved_def
  proof (intro allI impI, elim conjE)
    fix ks :: "bytes hdql_Key list" and c
    assume len: "length ks = length qs" and ok: "keys_ok ks" and fr: "\<forall>k \<in> set ks. key_fresh k"
      and c: "ctx_wf c" "no_oom c" "cx_types c = Some types"
    obtain k ks1 where ks: "ks = k # ks1" using len by (cases ks) (auto simp: qs)
    have k: "key_fresh k" using fr by (simp add: ks)
    obtain k' c1 where item: "reserve_item types ad k c = Some (False, HDQL_ERR_CODE_OK, k', c1)" "key_ok k'"
      "\<not> k_isTerminal k \<longrightarrow> \<not> k_isTerminal k'" "key_reserved k'" "item_matches types q k'" "built c (key_addrs k') c1"
      using reserve_item_ok [OF res(1) k c sub] unfolding q by blast
    show "\<exists>ks' c'. reserve_links types qs ks c = Some (HDQL_ERR_CODE_OK, ks', c') \<and> keys_ok ks' \<and>
        key_matches types qs ks' \<and> built c (keys_addrs ks') c'"
    proof (cases "ns = []")
      case True
      have "ks1 = []" using len by (simp add: ks qs True)
      with True show ?thesis
        using item by (simp add: qs q ks reserve_links_item del: reserve_links.simps key_matches.simps(2))
          (simp add: item_matches_def [symmetric] item_matches_terminal)
    next
      case False
      have "ks1 \<noteq> []" using len False by (auto simp: ks qs)
      then have nt: "\<not> k_isTerminal k" "keys_ok ks1" using ok by (auto simp: ks)
      have c1: "ctx_wf c1" "no_oom c1" "cx_types c1 = Some types"
        using built_wf [OF item(6)] item(6) c by (auto simp: built_def)
      obtain ks' c' where t: "reserve_links types ns ks1 c1 = Some (HDQL_ERR_CODE_OK, ks', c')" "keys_ok ks'"
        "key_matches types ns ks'" "built c1 (keys_addrs ks') c'"
      proof -
        have "length ks1 = length ns \<and> keys_ok ks1 \<and> (\<forall>k \<in> set ks1. key_fresh k) \<and>
            ctx_wf c1 \<and> no_oom c1 \<and> cx_types c1 = Some types"
          using len fr nt(2) c1 by (simp add: ks qs)
        with tail [OF False, unfolded links_reserved_def] that show thesis by blast
      qed
      have "keys_ok (k' # ks')" using keys_ok_ConsI item(2,3) nt(1) t(2) by blast
      moreover have "key_matches types qs (k' # ks')"
        using key_matches_Cons item(5) t(3) by (simp add: qs q key_matches_Cons del: key_matches.simps(2))
      moreover have "built c (keys_addrs (k' # ks')) c'" using built_trans [OF item(6) t(4)] by simp
      moreover have "reserve_links types qs ks c = Some (HDQL_ERR_CODE_OK, k' # ks', c')"
        using item(1,4) t(1) False by (simp add: qs q ks reserve_links_item del: reserve_links.simps)
      ultimately show ?thesis by blast
    qed
  qed
qed

text \<open>
  C16: Reserving the key of a chain succeeds when every key type is known, client callbacks build
  well-formed keys and memory suffices: the key is a well-formed list with an item per link (a
  cleared datum of the key type's size, an empty key, or the key of the query forwarded to), made
  of new blocks, and destroying it gives every block back: the memory is what it was.
\<close>

theorem reserve_destroy_roundtrip:
  assumes "qs \<noteq> []" "q_reservable types qs" "ctx_wf c" "no_oom c" "cx_types c = Some types"
    and "hdql_key_new c = Some ((root, key), c0)"
  shows "\<exists>key' ks c1 c2. hdql_key_reserve_for_query qs key c0 = Some (HDQL_ERR_CODE_OK, key', c1) \<and>
    key_ok key' \<and> (\<exists>a. k_pl key' = PlKeys a ks) \<and> key_matches types qs ks \<and>
    set (key_addrs key') \<inter> ctx_live c = {} \<and>
    hdql_key_destroy (root, key') c1 = Some (HDQL_ERR_CODE_OK, c2) \<and> ctx_live c2 = ctx_live c"
proof -
  have new: "ctx_alloc c = (Some root, c0)" "key = hdql_key_mark_empty"
    using assms(6) by (auto simp: hdql_key_new_def split: prod.splits)
  have b0: "built c [root] c0" using alloc_built [OF assms(3,4)] new(1) by (metis option.inject prod.inject)
  have c0: "ctx_wf c0" "no_oom c0" "cx_types c0 = Some types"
    using built_wf [OF b0] b0 assms(4,5) by (auto simp: built_def)
  have key: "key = Key 0 KEY_PL_TYPE_PLAIN False PlNull None" by (simp add: new(2) hdql_key_mark_empty_def key_types)
  obtain a ks c1 where r: "hdql_key_reserve_for_query qs key c0 = Some (HDQL_ERR_CODE_OK,
      Key 0 KEY_PL_TYPE_LIST False (PlKeys a ks) None, c1)"
    "keys_ok ks" "key_matches types qs ks" "built c0 (keys_addrs ks @ [a]) c1"
    using reserve_from_links [OF links_reserved_all [OF assms(2,1)] assms(1) key c0] by metis
  let ?k = "Key 0 KEY_PL_TYPE_LIST False (PlKeys a ks) None :: bytes hdql_Key"
  have all: "built c (key_addrs ?k @ [root]) c1" using built_swap [OF built_trans [OF b0 r(4)]] by simp
  have ok: "key_ok ?k" using r(2) by (simp add: key_types)
  have live: "set (key_addrs ?k @ [root]) \<subseteq> ctx_live c1" "ctx_live c1 = ctx_live c \<union> set (key_addrs ?k @ [root])"
    "set (key_addrs ?k @ [root]) \<inter> ctx_live c = {}"
    using all by (auto simp: built_def cx.moved_def)
  obtain c2 where d: "hdql_key_destroy (root, ?k) c1 = Some (HDQL_ERR_CODE_OK, c2)"
    "ctx_live c2 = ctx_live c1 - set (key_addrs ?k @ [root])"
    using key_destroy_exact [OF ok built_wf [OF all]] live(1) all unfolding key_blocks_addrs built_def by blast
  show ?thesis
  proof (intro exI conjI)
    show "hdql_key_reserve_for_query qs key c0 = Some (HDQL_ERR_CODE_OK, ?k, c1)" by (fact r(1))
    show "k_pl ?k = PlKeys a ks" by simp
    show "set (key_addrs ?k) \<inter> ctx_live c = {}" "ctx_live c2 = ctx_live c" using d(2) live(2,3) by auto
  qed (fact ok r(3) d(1))+
qed

definition ctx_roomy :: hdql_Context where
  "ctx_roomy = \<lparr>cx_heap = \<lparr>hp_next = 20, hp_live = {9..<16}, hp_oom = (\<lambda>_. False)\<rparr>, cx_errors = [],
     cx_types = Some (\<lambda>c. if c = 7 then Some \<lparr>vi_name = ''uint'', vi_size = 4\<rparr> else None)\<rparr>"

lemma reserve_destroy_roundtrip_witness:
  "\<exists>key' c1 c2 root c0. hdql_key_new ctx_roomy = Some ((root, hdql_key_mark_empty :: bytes hdql_Key), c0) \<and>
    hdql_key_reserve_for_query q_sample hdql_key_mark_empty c0 = Some (HDQL_ERR_CODE_OK, key', c1) \<and>
    key_ok key' \<and> hdql_key_destroy (root, key') c1 = Some (HDQL_ERR_CODE_OK, c2) \<and> ctx_live c2 = {9..<16}"
proof -
  obtain root c0 where n: "hdql_key_new ctx_roomy = Some ((root, hdql_key_mark_empty :: bytes hdql_Key), c0)"
    by (simp add: hdql_key_new_def ctx_alloc_malloc heap_malloc_def ctx_roomy_def)
  have r: "q_reservable (the (cx_types ctx_roomy)) q_sample" by (simp add: q_samples ctx_roomy_def)
  have c: "ctx_wf ctx_roomy" "no_oom ctx_roomy" "cx_types ctx_roomy = Some (the (cx_types ctx_roomy))" "q_sample \<noteq> []"
    by (auto simp: ctx_roomy_def ctx_wf_def heap_wf_def no_oom_def q_sample_def)
  have live: "ctx_live ctx_roomy = {9..<16}" by (simp add: ctx_roomy_def ctx_live_def)
  from reserve_destroy_roundtrip [OF c(4) r c(1-3) n] n show ?thesis
    unfolding live by (elim exE conjE) (intro exI conjI, assumption+)
qed

section \<open>Well-formed attribute definitions\<close>

definition ad_wf :: "hdql_AttrDef \<Rightarrow> bool" where
  "ad_wf ad \<longleftrightarrow> iface_matches (ad_interface ad) (ad_isCollection ad) \<and>
     (ad_keyTypeCode ad = 0 \<or> Option.is_none (ad_reserve_key ad)) \<and>
     (if ad_isFwdQuery ad
      then ad_staticValueFlags ad = 0 \<and> (case ad_definitionData ad of DefQuery qs \<Rightarrow> qs \<noteq> [] | _ \<Rightarrow> False)
      else if ad_isAtomic ad then ti_atomic (ad_typeInfo ad) \<noteq> None
      else ti_compound (ad_typeInfo ad) \<noteq> None)"

lemma set_transient_sel [simp]:
  "ad_interface (hdql_attr_def_set_transient ad t) = ad_interface ad"
  "ad_isCollection (hdql_attr_def_set_transient ad t) = ad_isCollection ad"
  "ad_wf (hdql_attr_def_set_transient ad t) = ad_wf ad"
  by (cases ad; simp add: ad_wf_def)+

lemma top_attr_not_fwd:
  shows "hdql_attr_def_top_attr ad = Some ad' \<Longrightarrow> \<not> ad_isFwdQuery ad'"
    and "hdql_query_top_attr qs = Some ad' \<Longrightarrow> \<not> ad_isFwdQuery ad'"
  by (induction ad and qs rule: hdql_attr_def_top_attr_hdql_query_top_attr.induct)
    (auto split: if_splits def_data.splits)

lemma top_attr_ne: "hdql_query_top_attr qs = Some ad \<Longrightarrow> qs \<noteq> []"
  by auto

lemma create_wf:
  "hdql_attr_def_create_atomic_scalar ti si kc rk c = Some (Some ad, c') \<Longrightarrow> ad_wf ad"
  "hdql_attr_def_create_atomic_collection ti ci kc rk c = Some (Some ad, c') \<Longrightarrow> ad_wf ad"
  "hdql_attr_def_create_compound_scalar co si kc rk c = Some (Some ad, c') \<Longrightarrow> ad_wf ad"
  "hdql_attr_def_create_compound_collection co ci kc rk c = Some (Some ad, c') \<Longrightarrow> ad_wf ad"
  "hdql_attr_def_create_static_atomic_scalar_value vt vd c = Some (Some ad, c') \<Longrightarrow> ad_wf ad"
  by (auto simp: hdql_attr_def_create_atomic_scalar_def hdql_attr_def_create_atomic_collection_def
      hdql_attr_def_create_compound_scalar_def hdql_attr_def_create_compound_collection_def
      hdql_attr_def_create_static_atomic_scalar_value_def ad_wf_def Option.is_none_def split: if_splits prod.splits)

lemma create_fwd_query_wf:
  assumes "hdql_attr_def_create_fwd_query sub c = Some (Some ad, rc, c')"
  shows "ad_wf ad" "ad_definitionData ad = DefQuery sub" "ad_isFwdQuery ad"
    "Some (\<not> ad_isCollection ad) = hdql_query_is_fully_scalar sub" "ad_reserve_key ad = Some RkFwdQuery"
proof -
  obtain a c1 where al: "ctx_alloc c = (Some a, c1)"
    using assms by (auto simp: hdql_attr_def_create_fwd_query_def split: prod.splits option.splits)
  obtain tad sc where s: "hdql_query_top_attr sub = Some tad" "hdql_query_is_fully_scalar sub = Some sc"
    and ad: "ad = hdql_attr_def_set_transient (AttrDef a (hdql_attr_def_is_atomic tad) (\<not> sc) True 0 False 0
           (if sc then AdScalar ScFwdQuery else AdCollection CoFwdQuery) (DefQuery sub)
           (Some RkFwdQuery) TiNull None) (Some TdFwdQuery)"
    using assms by (auto simp: hdql_attr_def_create_fwd_query_def al)
  show "ad_wf ad" "ad_definitionData ad = DefQuery sub" "ad_isFwdQuery ad"
    "Some (\<not> ad_isCollection ad) = hdql_query_is_fully_scalar sub" "ad_reserve_key ad = Some RkFwdQuery"
    using s top_attr_ne [OF s(1)] by (simp_all add: ad ad_wf_def)
qed

lemma create_bound_wf:
  assumes "hdql_attr_def_create_bound sub c = Some (Some ad, rc, c')"
    "\<And>ad'. hdql_query_top_attr sub = Some ad' \<Longrightarrow> ad_wf ad'"
  shows "ad_wf ad"
proof -
  obtain tad where s: "hdql_query_top_attr sub = Some tad"
    and ad: "ad_interface ad = AdScalar ScBoundQuery" "\<not> ad_isCollection ad" "\<not> ad_isFwdQuery ad"
      "ad_isAtomic ad = ad_isAtomic tad" "ad_typeInfo ad = ad_typeInfo tad" "ad_keyTypeCode ad = 0"
    using assms(1) by (cases "ctx_alloc c"; cases "fst (ctx_alloc c)") (auto simp: hdql_attr_def_create_bound_def)
  show ?thesis
    using assms(2) [OF s] ad top_attr_not_fwd(2) [OF s] by (auto simp: ad_wf_def split: if_splits)
qed

lemma ad_wf_accessors:
  assumes wf: "ad_wf ad"
  shows "if hdql_attr_def_is_collection ad then hdql_attr_def_collection_iface ad \<noteq> None
      else hdql_attr_def_scalar_iface ad \<noteq> None"
    and "hdql_attr_def_is_bound ad \<noteq> None"
    and "hdql_attr_def_is_atomic ad \<Longrightarrow> hdql_attr_def_get_atomic_value_type_code ad \<noteq> None"
    and "hdql_attr_def_is_compound ad \<Longrightarrow> hdql_attr_def_compound_type_info ad \<noteq> None"
    and "hdql__attr_def_is_fwd_query ad \<Longrightarrow> hdql__attr_def_fwd_query ad \<noteq> None"
proof -
  have co: "ad_isCollection ad \<Longrightarrow> \<exists>i. hdql_attr_def_collection_iface ad = Some (i, ad_definitionData ad)"
    using wf by (cases "ad_interface ad") (auto simp: ad_wf_def hdql_attr_def_collection_iface_def)
  have sc: "\<not> ad_isCollection ad \<Longrightarrow> \<exists>i. hdql_attr_def_scalar_iface ad = Some (i, ad_definitionData ad)"
    using wf by (cases "ad_interface ad") (auto simp: ad_wf_def hdql_attr_def_scalar_iface_def)
  show "if hdql_attr_def_is_collection ad then hdql_attr_def_collection_iface ad \<noteq> None
      else hdql_attr_def_scalar_iface ad \<noteq> None"
    using co sc by (auto simp: hdql_attr_def_is_collection_def)
  show "hdql_attr_def_is_bound ad \<noteq> None"
    using sc by (auto simp: hdql_attr_def_is_bound_def hdql_attr_def_is_scalar_def)
  show "hdql_attr_def_is_atomic ad \<Longrightarrow> hdql_attr_def_get_atomic_value_type_code ad \<noteq> None"
    using wf by (auto simp: ad_wf_def hdql_attr_def_is_atomic_def hdql_attr_def_get_atomic_value_type_code_def split: if_splits)
  show "hdql_attr_def_is_compound ad \<Longrightarrow> hdql_attr_def_compound_type_info ad \<noteq> None"
    using wf by (auto simp: ad_wf_def hdql_attr_def_is_compound_def hdql_attr_def_compound_type_info_def split: if_splits)
  show "hdql__attr_def_is_fwd_query ad \<Longrightarrow> hdql__attr_def_fwd_query ad \<noteq> None"
    using wf co sc by (cases "ad_definitionData ad"; cases "ad_isCollection ad")
      (auto simp: ad_wf_def hdql__attr_def_is_fwd_query_def hdql__attr_def_fwd_query_def hdql_attr_def_is_collection_def)
qed

text \<open>
  Every constructor that returns an attribute definition returns a well-formed one (the bound
  one, when the query's final attribute is), and on a well-formed definition the accessors of what
  its predicates announce do not fail: the interface of its kind, the test for a bound attribute,
  the type code of an atomic, the compound of a compound, the query of a forwarding one.
\<close>

theorem ad_constructors_wf:
  assumes "hdql_attr_def_create_atomic_scalar ti si kc rk c = Some (Some ad, c') \<or>
    hdql_attr_def_create_atomic_collection ti ci kc rk c = Some (Some ad, c') \<or>
    hdql_attr_def_create_compound_scalar co si kc rk c = Some (Some ad, c') \<or>
    hdql_attr_def_create_compound_collection co ci kc rk c = Some (Some ad, c') \<or>
    hdql_attr_def_create_static_atomic_scalar_value vt vd c = Some (Some ad, c') \<or>
    hdql_attr_def_create_fwd_query sub c = Some (Some ad, rc, c') \<or>
    hdql_attr_def_create_bound sub c = Some (Some ad, rc, c')"
    and "\<And>ad'. hdql_query_top_attr sub = Some ad' \<Longrightarrow> ad_wf ad'"
  shows "ad_wf ad \<and>
    (if hdql_attr_def_is_collection ad then hdql_attr_def_collection_iface ad \<noteq> None
     else hdql_attr_def_scalar_iface ad \<noteq> None) \<and> hdql_attr_def_is_bound ad \<noteq> None \<and>
    (hdql_attr_def_is_atomic ad \<longrightarrow> hdql_attr_def_get_atomic_value_type_code ad \<noteq> None) \<and>
    (hdql_attr_def_is_compound ad \<longrightarrow> hdql_attr_def_compound_type_info ad \<noteq> None) \<and>
    (hdql__attr_def_is_fwd_query ad \<longrightarrow> hdql__attr_def_fwd_query ad \<noteq> None)"
proof -
  have "ad_wf ad"
    using assms(1) by (elim disjE) (erule create_wf create_fwd_query_wf(1) create_bound_wf [OF _ assms(2)]; assumption)+
  with ad_wf_accessors [OF this] show ?thesis by blast
qed

lemma ad_constructors_wf_witness:
  "\<exists>ad c'. hdql_attr_def_create_bound
      [QLink 9 (AttrDef 8 False True False 0 False 7
        (AdCollection (CoClient (\<lambda>_ s c. ctx_free s c) None)) DefNull None (TiCompound 7) None) False None None None]
      ctx_roomy = Some (Some ad, Some HDQL_ERR_CODE_OK, c') \<and> ad_wf ad \<and>
    hdql_attr_def_is_bound ad = Some True \<and> hdql_attr_def_compound_type_info ad = Some (Some 7)"
proof -
  let ?q = "[QLink 9 (AttrDef 8 False True False 0 False 7
        (AdCollection (CoClient (\<lambda>_ s c. ctx_free s c) None)) DefNull None (TiCompound 7) None) False None None None]"
  obtain ad c' where b: "hdql_attr_def_create_bound ?q ctx_roomy = Some (Some ad, Some HDQL_ERR_CODE_OK, c')"
    and ad: "ad_interface ad = AdScalar ScBoundQuery" "\<not> ad_isCollection ad" "ad_typeInfo ad = TiCompound 7"
      "\<not> ad_isAtomic ad" "\<not> ad_isFwdQuery ad" "ad_staticValueFlags ad = 0"
    by (simp add: hdql_attr_def_create_bound_def hdql_bound_value_interface_definition_data_init_def
        ctx_alloc_malloc heap_malloc_def ctx_roomy_def)
  from ad_constructors_wf [OF disjI2 [OF disjI2 [OF disjI2 [OF disjI2 [OF disjI2 [OF disjI2 [OF b]]]]]]]
  have "ad_wf ad" by (force simp: ad_wf_def)
  with b ad show ?thesis
    by (auto simp: hdql_attr_def_is_bound_def hdql_attr_def_is_scalar_def hdql_attr_def_scalar_iface_def
        hdql_attr_def_compound_type_info_def)
qed

text \<open>
  A forwarding attribute is transparent: its final attribute is the query's final attribute,
  a chain of it alone is fully scalar exactly when the query is, it is a collection exactly when
  the query is not, and its key is reserved as the query's.
\<close>

theorem fwd_query_transparent:
  assumes "hdql_attr_def_create_fwd_query sub c = Some (Some ad, rc, c')"
  shows "hdql_attr_def_top_attr ad = hdql_query_top_attr sub \<and>
    hdql_query_is_fully_scalar [QLink a ad ow s se la] = hdql_query_is_fully_scalar sub \<and>
    Some (\<not> hdql_attr_def_is_collection ad) = hdql_query_is_fully_scalar sub \<and>
    hdql_attr_def_is_bound ad = Some False"
proof -
  note wf = create_fwd_query_wf [OF assms]
  obtain aa at co fw st tr kc i d rk ti dtr where ad: "ad = AttrDef aa at co fw st tr kc i d rk ti dtr" by (cases ad)
  have "ad_interface ad = (if ad_isCollection ad then AdCollection CoFwdQuery else AdScalar ScFwdQuery)"
    using assms by (auto simp: hdql_attr_def_create_fwd_query_def split: prod.splits option.splits)
  with wf wf(4) [symmetric] show ?thesis
    by (auto simp: ad ad_wf_def hdql_attr_def_is_collection_def hdql_attr_def_is_bound_def
        hdql_attr_def_is_scalar_def hdql_attr_def_scalar_iface_def split: if_splits)
qed

lemma fwd_query_transparent_witness:
  "\<exists>ad c'. hdql_attr_def_create_fwd_query q_sample ctx_roomy = Some (Some ad, None, c') \<and>
    hdql_attr_def_top_attr ad = Some ad_scalar_sample \<and> hdql_attr_def_is_collection ad"
proof -
  obtain ad c' where c: "hdql_attr_def_create_fwd_query q_sample ctx_roomy = Some (Some ad, None, c')"
    by (simp add: hdql_attr_def_create_fwd_query_def q_samples ctx_alloc_malloc heap_malloc_def ctx_roomy_def)
  from fwd_query_transparent [OF this] c show ?thesis by (auto simp: q_samples)
qed

end
