(* ===== verification/Containers.thy ===== *)
theory Containers
  imports Chains AttrDef
begin

text \<open>
  The access interfaces a C++ client gets from \<open>src/include/hdql/helpers/compounds.hh\<close>: scalar members,
  arrays and STL containers, without and with a selection, and the static atomic values of
  \<open>src/attr-def.c\<close>; each of them is a level of a chain.

  What the templates are instantiated with are parameters: where a member is in its owner, the
  contents of a container (the element pointers, null for an empty shared pointer, with what
  \<open>get_key\<close> copies for each), the selection traits. \<open>mk_it\<close> and \<open>as_it\<close> are the casts between the opaque
  iterator and the iterator structure. Contents do not change during an iteration.
\<close>

section \<open>Shapes of keys and tags of elements\<close>

text \<open>Of a key, a level overwrites the data and nothing else.\<close>

definition erased :: "'v hdql_Key \<Rightarrow> unit hdql_Key" where
  "erased k = map_hdql_Key (\<lambda>_. ()) k"

definition key_fill :: "'v \<Rightarrow> 'v hdql_Key \<Rightarrow> 'v hdql_Key" where
  "key_fill v k = map_hdql_Key (\<lambda>_. v) k"

lemma erased_fill [simp]: "erased (key_fill v k) = erased k"
  by (simp add: erased_def key_fill_def hdql_Key.map_comp o_def)

lemma key_fill_erased: "key_fill v k = map_hdql_Key (\<lambda>_. v) (erased k)"
  by (simp add: erased_def key_fill_def hdql_Key.map_comp o_def)

lemma key_fill_cong: "erased k1 = erased k2 \<Longrightarrow> key_fill v k1 = key_fill v k2"
  by (simp add: key_fill_erased)

lemma erased_terminal: "erased k1 = erased k2 \<Longrightarrow> k_isTerminal k1 = k_isTerminal k2"
  unfolding erased_def by (cases k1; cases k2) simp

lemma erased_set: "erased k1 = erased k2 \<Longrightarrow> set_hdql_Key k1 = {} \<longleftrightarrow> set_hdql_Key k2 = {}"
  unfolding erased_def by (metis hdql_Key.set_map image_is_empty)

text \<open>A key without data is not changed by filling it.\<close>

lemma key_fill_dataless: "set_hdql_Key k = {} \<Longrightarrow> key_fill v k = k"
  unfolding key_fill_def by (rule trans [OF hdql_Key.map_cong0 hdql_Key.map_ident]) simp

text \<open>A datum key, as reserved for a collection with a key type.\<close>

fun datum_key :: "'v hdql_Key \<Rightarrow> bool" where
  "datum_key (Key code ty t pl l) \<longleftrightarrow> code \<noteq> 0 \<and> ty = KEY_PL_TYPE_PLAIN \<and> (case pl of PlDatum _ _ \<Rightarrow> True | _ \<Rightarrow> False)"

lemma datum_key_erased: "datum_key (erased k) = datum_key k"
  by (cases k) (auto simp: erased_def split: key_payload.splits)

lemma datum_key_cong: "erased k1 = erased k2 \<Longrightarrow> datum_key k1 = datum_key k2"
  using datum_key_erased [of k1] datum_key_erased [of k2] by simp

text \<open>The tag of an element: nothing, the datum of its key, or the tags along a chain.\<close>

datatype 'v tag = TNone | TKey 'v | TPath "'v tag list"

section \<open>Scalars\<close>

text \<open>
  A scalar interface without dynamic data whose reset looks its datum up and leaves the key alone
  is a level of at most one element.
\<close>

definition scalar_level ::
  "('d, 's, 'a, 'v) hdql_ScalarAttrInterface \<Rightarrow> (('d, 's, 'a, 'v) hdql_Query \<Rightarrow> bool) \<Rightarrow> ('d option \<Rightarrow> 'd option) \<Rightarrow>
   bool \<Rightarrow> ('d, 's, 'a, 'v, 'v tag, unit hdql_Key) qlevel"
where
  "scalar_level iface vq f null = \<lparr>
     lv_valid = (\<lambda>q. qa_interface (q_ad q) = IfScalar iface \<and> vq q),
     lv_pending = (\<lambda>q k xs. qa_interface (q_ad q) = IfScalar iface \<and> vq q \<and> xs = []),
     lv_done = (\<lambda>q k. qa_interface (q_ad q) = IfScalar iface \<and> vq q),
     lv_elems = (\<lambda>d. case f d of None \<Rightarrow> [] | Some x \<Rightarrow> [(x, TNone)]),
     lv_kf = (\<lambda>_. key_fill undefined),
     lv_shape = erased,
     lv_keyok = (\<lambda>k. set_hdql_Key k = {}),
     lv_null = null \<rparr>"

locale scalar_interface =
  fixes iface :: "('d, 's, 'a, 'v) hdql_ScalarAttrInterface"
    and vq :: "('d, 's, 'a, 'v) hdql_Query \<Rightarrow> bool" and f :: "'d option \<Rightarrow> 'd option" and null :: bool
  assumes no_dyn: "si_new_dyn_data iface = None"
    and reset: "vq q \<Longrightarrow> d = None \<longrightarrow> null \<Longrightarrow>
      si_reset iface d (q_state q) (qa_definitionData (q_ad q)) k c =
        Some (f d, q_state q, qa_definitionData (q_ad q), k, c)"
    and owner: "vq (q\<lparr>q_owner := w\<rparr>) = vq q"
begin

lemma update_same: "q_update q (q_state q) (qa_definitionData (q_ad q)) = q"
  by (simp add: q_update_def)

lemma level_reset:
  assumes "qa_interface (q_ad q) = IfScalar iface" "vq q" "d = None \<longrightarrow> null"
  shows "hdql__query_reset q d k c = Some (f d, q\<lparr>q_owner := d\<rparr>, k, c)"
  using reset [of "q\<lparr>q_owner := d\<rparr>" d] assms update_same [of "q\<lparr>q_owner := d\<rparr>"]
  by (simp add: hdql__query_reset_def no_dyn owner Let_def)

end

sublocale scalar_interface \<subseteq> lev: pending_level "scalar_level iface vq f null" ok
proof unfold_locales
  fix q :: "('d, 's, 'a, 'v) hdql_Query" and d :: "'d option" and k :: "'v hdql_Key option" and c
  let ?L = "scalar_level iface vq f null"
  assume q: "lv_valid ?L q" and k: "key_fits ?L k" and c: "ok c" and d: "d = None \<longrightarrow> lv_null ?L"
  have "key_after ?L (lv_elems ?L d) k k"
    using k by (cases "f d"; cases k)
      (auto simp: key_after_def scalar_level_def key_fits_def key_fill_dataless)
  moreover have "hdql__query_reset q d k c = Some (f d, q\<lparr>q_owner := d\<rparr>, k, c)"
    using q d by (intro level_reset) (simp_all add: scalar_level_def)
  ultimately show "\<exists>q' k' c'. hdql__query_reset q d k c = Some (head_datum (lv_elems ?L d), q', k', c') \<and>
      lv_pending ?L q' k' (tl (lv_elems ?L d)) \<and> key_after ?L (lv_elems ?L d) k k' \<and> ok c'"
    using q c by (intro exI [of _ "q\<lparr>q_owner := d\<rparr>"] exI [of _ k] exI [of _ c])
      (auto simp: scalar_level_def owner split: option.splits)
next
  fix q :: "('d, 's, 'a, 'v) hdql_Query" and k :: "'v hdql_Key option" and xs c
  let ?L = "scalar_level iface vq f null"
  assume "lv_pending ?L q k xs" "ok c"
  then show "\<exists>q' k' c'. hdql__query_yield q k c = Some (head_datum xs, q', k', c') \<and>
      lv_pending ?L q' k' (tl xs) \<and> key_after ?L xs k k' \<and> ok c'"
    by (simp add: hdql__query_yield_def scalar_level_def key_after_def)
qed (simp_all add: scalar_level_def, (erule key_fill_cong erased_terminal erased_set)+)

text \<open>The interface of an arithmetic member, and of a member that is a (shared) pointer.\<close>

definition member_reset ::
  "('d \<Rightarrow> 'd) \<Rightarrow> 'd option \<Rightarrow> 's option \<Rightarrow> 'a \<Rightarrow> 'v hdql_Key option \<Rightarrow> hdql_Context \<Rightarrow>
   ('d option \<times> 's option \<times> 'a \<times> 'v hdql_Key option \<times> hdql_Context) option"
where
  "member_reset member root dynData defData key c = do { d \<leftarrow> root; Some (Some (member d), dynData, defData, key, c) }"

definition indirect_reset ::
  "('d \<Rightarrow> 'd option) \<Rightarrow> 'd option \<Rightarrow> 's option \<Rightarrow> 'a \<Rightarrow> 'v hdql_Key option \<Rightarrow> hdql_Context \<Rightarrow>
   ('d option \<times> 's option \<times> 'a \<times> 'v hdql_Key option \<times> hdql_Context) option"
where
  "indirect_reset member root dynData defData key c = do { d \<leftarrow> root; Some (member d, dynData, defData, key, c) }"

definition member_iface :: "('d \<Rightarrow> 'd) \<Rightarrow> ('d, 's, 'a, 'v) hdql_ScalarAttrInterface" where
  "member_iface member = \<lparr>si_new_dyn_data = None, si_reset = member_reset member, si_destroy_dyn_data = None\<rparr>"

definition indirect_iface :: "('d \<Rightarrow> 'd option) \<Rightarrow> ('d, 's, 'a, 'v) hdql_ScalarAttrInterface" where
  "indirect_iface member = \<lparr>si_new_dyn_data = None, si_reset = indirect_reset member, si_destroy_dyn_data = None\<rparr>"

text \<open>Static atomic values; \<open>as_datum\<close> is the cast of the definition data.\<close>

definition static_atomic_scalar_reset ::
  "('a \<Rightarrow> 'd option) \<Rightarrow> 'd option \<Rightarrow> 's option \<Rightarrow> 'a \<Rightarrow> 'v hdql_Key option \<Rightarrow> hdql_Context \<Rightarrow>
   ('d option \<times> 's option \<times> 'a \<times> 'v hdql_Key option \<times> hdql_Context) option"
where
  "static_atomic_scalar_reset as_datum root dynData defData key c = do {
     c_assert (Option.is_none dynData);
     c_assert (\<not> Option.is_none (as_datum defData));
     Some (as_datum defData, dynData, defData, key, c) }"

definition static_atomic_iface :: "('a \<Rightarrow> 'd option) \<Rightarrow> ('d, 's, 'a, 'v) hdql_ScalarAttrInterface" where
  "static_atomic_iface as_datum =
     \<lparr>si_new_dyn_data = None, si_reset = static_atomic_scalar_reset as_datum, si_destroy_dyn_data = None\<rparr>"

interpretation member: scalar_interface "member_iface m" "\<lambda>_. True" "map_option m" False for m
  by unfold_locales (auto simp: member_iface_def member_reset_def)

interpretation indirect: scalar_interface "indirect_iface m" "\<lambda>_. True" "\<lambda>d. Option.bind d m" False for m
  by unfold_locales (auto simp: indirect_iface_def indirect_reset_def)

interpretation static_atomic: scalar_interface "static_atomic_iface as_datum"
    "\<lambda>q. q_state q = None \<and> as_datum (qa_definitionData (q_ad q)) = Some v" "\<lambda>_. Some v" True for as_datum v
  by unfold_locales (auto simp: static_atomic_iface_def static_atomic_scalar_reset_def)

section \<open>Arrays and containers\<close>

text \<open>The iterator structures; what \<open>new_iterator\<close> does not set is \<open>None\<close>.\<close>

record 'd cpp_iterator =
  it_addr :: addr
  it_owner :: "'d option"
  it_selection :: "addr option"
  it_pos :: "nat option"

text \<open>Writing through the key: \<open>memcpy(hdql_key_datum_get(&key), ...)\<close>, with what is asserted before.\<close>

definition key_memcpy :: "'v \<Rightarrow> 'v hdql_Key \<Rightarrow> 'v hdql_Key option" where
  "key_memcpy v k = do {
     d \<leftarrow> hdql_key_datum_get k;
     (a, _) \<leftarrow> d;
     Some (k_set_pl (PlDatum a v) k) }"

definition stl_get_key :: "'v \<Rightarrow> 'v hdql_Key \<Rightarrow> 'v hdql_Key option" where
  "stl_get_key v k = do {
     tc \<leftarrow> hdql_key_datum_get_type_code k;
     c_assert (tc \<noteq> 0);
     key_memcpy v k }"

definition with_key :: "('k \<Rightarrow> 'k option) \<Rightarrow> 'k option \<Rightarrow> 'k option option" where
  "with_key f key = (case key of None \<Rightarrow> Some None | Some k \<Rightarrow> map_option Some (f k))"

lemma key_memcpy_fill: "datum_key k \<Longrightarrow> key_memcpy v k = Some (key_fill v k)"
  by (cases k) (auto simp: key_memcpy_def hdql_key_datum_get_def key_fill_def split: key_payload.splits)

lemma stl_get_key_fill: "datum_key k \<Longrightarrow> stl_get_key v k = Some (key_fill v k)"
  by (cases k) (auto simp: stl_get_key_def hdql_key_datum_get_type_code_def key_memcpy_fill)

lemma with_key_fill:
  assumes "\<And>k v. datum_key k \<Longrightarrow> f v k = Some (key_fill v k)" "\<forall>k. key = Some k \<longrightarrow> datum_key k"
  shows "with_key (f v) key = Some (map_option (key_fill v) key)"
  using assms by (cases key) (auto simp: with_key_def)

subsection \<open>One-dimensional arrays\<close>

definition array_new_iterator ::
  "('d cpp_iterator \<Rightarrow> 's) \<Rightarrow> 'd option \<Rightarrow> 'a \<Rightarrow> hdql_Context \<Rightarrow> ('s option \<times> 'a \<times> hdql_Context) option" where
  "array_new_iterator mk_it owner defData c = do {
     let (p, c) = ctx_alloc c;
     a \<leftarrow> p;
     Some (Some (mk_it \<lparr>it_addr = a, it_owner = owner, it_selection = None, it_pos = None\<rparr>), defData, c) }"

definition array_yield ::
  "('d cpp_iterator \<Rightarrow> 's) \<Rightarrow> ('s \<Rightarrow> 'd cpp_iterator option) \<Rightarrow> nat \<Rightarrow> ('d \<Rightarrow> nat \<Rightarrow> 'd) \<Rightarrow> (nat \<Rightarrow> 'v) \<Rightarrow>
   's option \<Rightarrow> 'a \<Rightarrow> 'v hdql_Key option \<Rightarrow> hdql_Context \<Rightarrow>
   ('d option \<times> 's option \<times> 'a \<times> 'v hdql_Key option \<times> hdql_Context) option"
where
  "array_yield mk_it as_it extent elem idx itr defData key c = do {
     s \<leftarrow> itr;
     it \<leftarrow> as_it s;
     cIndex \<leftarrow> it_pos it;
     if cIndex = extent then Some (None, itr, defData, key, c)
     else do {
       let it = it\<lparr>it_pos := Some (cIndex + 1)\<rparr>;
       if cIndex + 1 = extent then Some (None, Some (mk_it it), defData, key, c)
       else do {
         key \<leftarrow> with_key (key_memcpy (idx (cIndex + 1))) key;
         owner \<leftarrow> it_owner it;
         Some (Some (elem owner (cIndex + 1)), Some (mk_it it), defData, key, c) } } }"

definition array_reset_iterator ::
  "('d cpp_iterator \<Rightarrow> 's) \<Rightarrow> ('s \<Rightarrow> 'd cpp_iterator option) \<Rightarrow> ('d \<Rightarrow> nat \<Rightarrow> 'd) \<Rightarrow> (nat \<Rightarrow> 'v) \<Rightarrow>
   's option \<Rightarrow> 'd option \<Rightarrow> 'a \<Rightarrow> addr option \<Rightarrow> 'v hdql_Key option \<Rightarrow> hdql_Context \<Rightarrow>
   ('d option \<times> 's option \<times> 'a \<times> 'v hdql_Key option \<times> hdql_Context) option"
where
  "array_reset_iterator mk_it as_it elem idx itr newOwner defData selection key c = do {
     s \<leftarrow> itr;
     it \<leftarrow> as_it s;
     c_assert (Option.is_none selection);
     key \<leftarrow> with_key (key_memcpy (idx 0)) key;
     owner \<leftarrow> newOwner;
     Some (Some (elem owner 0), Some (mk_it (it\<lparr>it_owner := newOwner, it_pos := Some 0\<rparr>)), defData, key, c) }"

definition cpp_destroy_iterator ::
  "('s \<Rightarrow> 'd cpp_iterator option) \<Rightarrow> 's option \<Rightarrow> 'a \<Rightarrow> hdql_Context \<Rightarrow> ('a \<times> hdql_Context) option" where
  "cpp_destroy_iterator as_it itr defData c = do {
     p \<leftarrow> (case itr of None \<Rightarrow> Some None | Some s \<Rightarrow> map_option (Some \<circ> it_addr) (as_it s));
     c \<leftarrow> ctx_free p c;
     Some (defData, c) }"

definition array_iface ::
  "('d cpp_iterator \<Rightarrow> 's) \<Rightarrow> ('s \<Rightarrow> 'd cpp_iterator option) \<Rightarrow> nat \<Rightarrow> ('d \<Rightarrow> nat \<Rightarrow> 'd) \<Rightarrow> (nat \<Rightarrow> 'v) \<Rightarrow>
   ('d, 's, 'a, 'v) hdql_CollectionAttrInterface"
where
  "array_iface mk_it as_it extent elem idx = \<lparr>
     ci_new_iterator = array_new_iterator mk_it,
     ci_yield = array_yield mk_it as_it extent elem idx,
     ci_reset_iterator = array_reset_iterator mk_it as_it elem idx,
     ci_destroy_iterator = cpp_destroy_iterator as_it,
     ci_free_selection = None \<rparr>"

subsection \<open>STL containers\<close>

type_synonym ('d, 'v) contents = "'d \<Rightarrow> ('d option \<times> 'v) list"

definition stl_new_iterator ::
  "('d cpp_iterator \<Rightarrow> 's) \<Rightarrow> 'd option \<Rightarrow> 'a \<Rightarrow> hdql_Context \<Rightarrow> ('s option \<times> 'a \<times> hdql_Context) option" where
  "stl_new_iterator mk_it owner defData c = do {
     c_assert (\<not> Option.is_none owner);
     let (p, c) = ctx_alloc c;
     a \<leftarrow> p;
     Some (Some (mk_it \<lparr>it_addr = a, it_owner = owner, it_selection = None, it_pos = Some 0\<rparr>), defData, c) }"

definition stl_yield ::
  "('d cpp_iterator \<Rightarrow> 's) \<Rightarrow> ('s \<Rightarrow> 'd cpp_iterator option) \<Rightarrow> ('d, 'v) contents \<Rightarrow>
   's option \<Rightarrow> 'a \<Rightarrow> 'v hdql_Key option \<Rightarrow> hdql_Context \<Rightarrow>
   ('d option \<times> 's option \<times> 'a \<times> 'v hdql_Key option \<times> hdql_Context) option"
where
  "stl_yield mk_it as_it contents itr defData key c = do {
     s \<leftarrow> itr;
     it \<leftarrow> as_it s;
     owner \<leftarrow> it_owner it;
     pos \<leftarrow> it_pos it;
     let xs = contents owner;
     if pos = length xs then Some (None, itr, defData, key, c)
     else do {
       let it = it\<lparr>it_pos := Some (pos + 1)\<rparr>;
       if pos + 1 = length xs then Some (None, Some (mk_it it), defData, key, c)
       else do {
         x \<leftarrow> arr_get xs (pos + 1);
         key \<leftarrow> with_key (stl_get_key (snd x)) key;
         Some (fst x, Some (mk_it it), defData, key, c) } } }"

definition stl_reset_iterator ::
  "('d cpp_iterator \<Rightarrow> 's) \<Rightarrow> ('s \<Rightarrow> 'd cpp_iterator option) \<Rightarrow> ('d, 'v) contents \<Rightarrow>
   's option \<Rightarrow> 'd option \<Rightarrow> 'a \<Rightarrow> addr option \<Rightarrow> 'v hdql_Key option \<Rightarrow> hdql_Context \<Rightarrow>
   ('d option \<times> 's option \<times> 'a \<times> 'v hdql_Key option \<times> hdql_Context) option"
where
  "stl_reset_iterator mk_it as_it contents itr newOwner defData selection key c = do {
     s \<leftarrow> itr;
     it \<leftarrow> as_it s;
     c_assert (Option.is_none selection);
     owner \<leftarrow> newOwner;
     let it = it\<lparr>it_owner := newOwner, it_pos := Some 0\<rparr>;
     case contents owner of
       [] \<Rightarrow> Some (None, Some (mk_it it), defData, key, c)
     | x # _ \<Rightarrow> do {
         key \<leftarrow> with_key (stl_get_key (snd x)) key;
         Some (fst x, Some (mk_it it), defData, key, c) } }"

definition stl_iface ::
  "('d cpp_iterator \<Rightarrow> 's) \<Rightarrow> ('s \<Rightarrow> 'd cpp_iterator option) \<Rightarrow> ('d, 'v) contents \<Rightarrow>
   ('d, 's, 'a, 'v) hdql_CollectionAttrInterface"
where
  "stl_iface mk_it as_it contents = \<lparr>
     ci_new_iterator = stl_new_iterator mk_it,
     ci_yield = stl_yield mk_it as_it contents,
     ci_reset_iterator = stl_reset_iterator mk_it as_it contents,
     ci_destroy_iterator = cpp_destroy_iterator as_it,
     ci_free_selection = None \<rparr>"

text \<open>With a selection: the traits say where the iterator goes.\<close>

record 'd selection_traits =
  tr_reset :: "'d \<Rightarrow> addr option \<Rightarrow> nat option \<Rightarrow> nat"
  tr_advance :: "'d \<Rightarrow> addr option \<Rightarrow> nat \<Rightarrow> nat"
  tr_destroy :: "addr \<Rightarrow> hdql_Context \<Rightarrow> hdql_Context option"

definition stl_sel_yield ::
  "('d cpp_iterator \<Rightarrow> 's) \<Rightarrow> ('s \<Rightarrow> 'd cpp_iterator option) \<Rightarrow> 'd selection_traits \<Rightarrow> ('d, 'v) contents \<Rightarrow>
   's option \<Rightarrow> 'a \<Rightarrow> 'v hdql_Key option \<Rightarrow> hdql_Context \<Rightarrow>
   ('d option \<times> 's option \<times> 'a \<times> 'v hdql_Key option \<times> hdql_Context) option"
where
  "stl_sel_yield mk_it as_it traits contents itr defData key c = do {
     s \<leftarrow> itr;
     it \<leftarrow> as_it s;
     owner \<leftarrow> it_owner it;
     pos \<leftarrow> it_pos it;
     let xs = contents owner;
     if pos = length xs then Some (None, itr, defData, key, c)
     else do {
       let pos = tr_advance traits owner (it_selection it) pos;
       let it = it\<lparr>it_pos := Some pos\<rparr>;
       if pos = length xs then Some (None, Some (mk_it it), defData, key, c)
       else do {
         x \<leftarrow> arr_get xs pos;
         key \<leftarrow> with_key (stl_get_key (snd x)) key;
         Some (fst x, Some (mk_it it), defData, key, c) } } }"

definition stl_sel_reset_iterator ::
  "('d cpp_iterator \<Rightarrow> 's) \<Rightarrow> ('s \<Rightarrow> 'd cpp_iterator option) \<Rightarrow> 'd selection_traits \<Rightarrow> ('d, 'v) contents \<Rightarrow>
   's option \<Rightarrow> 'd option \<Rightarrow> 'a \<Rightarrow> addr option \<Rightarrow> 'v hdql_Key option \<Rightarrow> hdql_Context \<Rightarrow>
   ('d option \<times> 's option \<times> 'a \<times> 'v hdql_Key option \<times> hdql_Context) option"
where
  "stl_sel_reset_iterator mk_it as_it traits contents itr newOwner defData selection key c = do {
     s \<leftarrow> itr;
     it \<leftarrow> as_it s;
     owner \<leftarrow> newOwner;
     let pos = tr_reset traits owner selection (it_pos it);
     let it = it\<lparr>it_owner := newOwner, it_selection := selection, it_pos := Some pos\<rparr>;
     let xs = contents owner;
     if pos = length xs then Some (None, Some (mk_it it), defData, key, c)
     else do {
       x \<leftarrow> arr_get xs pos;
       key \<leftarrow> with_key (stl_get_key (snd x)) key;
       Some (fst x, Some (mk_it it), defData, key, c) } }"

definition stl_sel_free_selection ::
  "'d selection_traits \<Rightarrow> 'a \<Rightarrow> addr \<Rightarrow> hdql_Context \<Rightarrow> ('a \<times> hdql_Context) option" where
  "stl_sel_free_selection traits defData sArgs c = map_option (Pair defData) (tr_destroy traits sArgs c)"

definition stl_sel_iface ::
  "('d cpp_iterator \<Rightarrow> 's) \<Rightarrow> ('s \<Rightarrow> 'd cpp_iterator option) \<Rightarrow> 'd selection_traits \<Rightarrow> ('d, 'v) contents \<Rightarrow>
   ('d, 's, 'a, 'v) hdql_CollectionAttrInterface"
where
  "stl_sel_iface mk_it as_it traits contents = \<lparr>
     ci_new_iterator = array_new_iterator mk_it,
     ci_yield = stl_sel_yield mk_it as_it traits contents,
     ci_reset_iterator = stl_sel_reset_iterator mk_it as_it traits contents,
     ci_destroy_iterator = cpp_destroy_iterator as_it,
     ci_free_selection = Some (stl_sel_free_selection traits) \<rparr>"

text \<open>
  Arrays with a selection. The reset does not test for the end, and writes the key, whatever the
  traits answer: for a selection of nothing it returns the address past the array.
\<close>

definition array_sel_yield ::
  "('d cpp_iterator \<Rightarrow> 's) \<Rightarrow> ('s \<Rightarrow> 'd cpp_iterator option) \<Rightarrow> 'd selection_traits \<Rightarrow> nat \<Rightarrow> ('d \<Rightarrow> nat \<Rightarrow> 'd) \<Rightarrow> (nat \<Rightarrow> 'v) \<Rightarrow>
   's option \<Rightarrow> 'a \<Rightarrow> 'v hdql_Key option \<Rightarrow> hdql_Context \<Rightarrow>
   ('d option \<times> 's option \<times> 'a \<times> 'v hdql_Key option \<times> hdql_Context) option"
where
  "array_sel_yield mk_it as_it traits extent elem idx itr defData key c = do {
     s \<leftarrow> itr;
     it \<leftarrow> as_it s;
     cIndex \<leftarrow> it_pos it;
     if cIndex = extent then Some (None, itr, defData, key, c)
     else do {
       owner \<leftarrow> it_owner it;
       let cIndex = tr_advance traits owner (it_selection it) cIndex;
       let it = it\<lparr>it_pos := Some cIndex\<rparr>;
       if cIndex = extent then Some (None, Some (mk_it it), defData, key, c)
       else do {
         key \<leftarrow> with_key (key_memcpy (idx cIndex)) key;
         Some (Some (elem owner cIndex), Some (mk_it it), defData, key, c) } } }"

definition array_sel_reset_iterator ::
  "('d cpp_iterator \<Rightarrow> 's) \<Rightarrow> ('s \<Rightarrow> 'd cpp_iterator option) \<Rightarrow> 'd selection_traits \<Rightarrow> ('d \<Rightarrow> nat \<Rightarrow> 'd) \<Rightarrow> (nat \<Rightarrow> 'v) \<Rightarrow>
   's option \<Rightarrow> 'd option \<Rightarrow> 'a \<Rightarrow> addr option \<Rightarrow> 'v hdql_Key option \<Rightarrow> hdql_Context \<Rightarrow>
   ('d option \<times> 's option \<times> 'a \<times> 'v hdql_Key option \<times> hdql_Context) option"
where
  "array_sel_reset_iterator mk_it as_it traits elem idx itr newOwner defData selection key c = do {
     s \<leftarrow> itr;
     it \<leftarrow> as_it s;
     owner \<leftarrow> newOwner;
     let cIndex = tr_reset traits owner selection (it_pos it);
     key \<leftarrow> with_key (key_memcpy (idx cIndex)) key;
     Some (Some (elem owner cIndex),
       Some (mk_it (it\<lparr>it_owner := newOwner, it_selection := selection, it_pos := Some cIndex\<rparr>)), defData, key, c) }"

definition array_sel_iface ::
  "('d cpp_iterator \<Rightarrow> 's) \<Rightarrow> ('s \<Rightarrow> 'd cpp_iterator option) \<Rightarrow> 'd selection_traits \<Rightarrow> nat \<Rightarrow> ('d \<Rightarrow> nat \<Rightarrow> 'd) \<Rightarrow> (nat \<Rightarrow> 'v) \<Rightarrow>
   ('d, 's, 'a, 'v) hdql_CollectionAttrInterface"
where
  "array_sel_iface mk_it as_it traits extent elem idx = \<lparr>
     ci_new_iterator = array_new_iterator mk_it,
     ci_yield = array_sel_yield mk_it as_it traits extent elem idx,
     ci_reset_iterator = array_sel_reset_iterator mk_it as_it traits elem idx,
     ci_destroy_iterator = cpp_destroy_iterator as_it,
     ci_free_selection = Some (stl_sel_free_selection traits) \<rparr>"

section \<open>Collections as levels\<close>

text \<open>The first selected position from \<open>i\<close> on, or the end.\<close>

definition next_pos :: "(nat \<Rightarrow> bool) \<Rightarrow> nat \<Rightarrow> nat \<Rightarrow> nat" where
  "next_pos P n i = (case filter P [i..<n] of [] \<Rightarrow> n | j # _ \<Rightarrow> j)"

lemma next_pos_step: "i < n \<Longrightarrow> next_pos P n i = (if P i then i else next_pos P n (Suc i))"
  by (simp add: next_pos_def upt_conv_Cons)

lemma next_pos_dest:
  "next_pos P n i = n \<and> filter P [i..<n] = [] \<or>
   next_pos P n i < n \<and> filter P [i..<n] = next_pos P n i # filter P [Suc (next_pos P n i)..<n]"
proof (induction "n - i" arbitrary: i)
  case (Suc m)
  then have "i < n" "m = n - Suc i" by simp_all
  then show ?case using Suc.hyps(1) [of "Suc i"] by (auto simp: next_pos_step upt_conv_Cons)
qed (simp add: next_pos_def)

lemma next_pos_cases:
  obtains "next_pos P n i = n" "filter P [i..<n] = []"
  | j where "next_pos P n i = j" "j < n" "filter P [i..<n] = j # filter P [Suc j..<n]"
  using next_pos_dest [of P n i] by blast

text \<open>The reset of a collection query, with or without an iterator.\<close>

lemma query_reset_collection:
  assumes "qa_interface (q_ad q) = IfCollection iface"
    and "(if q_state q = None then ci_new_iterator iface d (qa_definitionData (q_ad q)) c
          else Some (q_state q, qa_definitionData (q_ad q), c)) = Some (Some s, a, c1)"
    and "ci_reset_iterator iface (Some s) d a (q_selectionArgs q) k c1 = Some (r, s', a', k', c')"
  shows "hdql__query_reset q d k c = Some (r, q_update (q\<lparr>q_owner := d\<rparr>) s' a', k', c')"
  using assms by (cases "q_state q") (simp_all add: hdql__query_reset_def Let_def)

definition elements :: "('d, 'v) contents \<Rightarrow> ('d \<Rightarrow> nat \<Rightarrow> bool) \<Rightarrow> 'd \<Rightarrow> nat \<Rightarrow> ('d \<times> 'v tag) list" where
  "elements contents P d i =
     map (\<lambda>j. (the (fst (contents d ! j)), TKey (snd (contents d ! j)))) (filter (P d) [i..<length (contents d)])"

fun tag_value :: "'v tag \<Rightarrow> 'v" where
  "tag_value (TKey v) = v"
| "tag_value _ = undefined"

definition container_level ::
  "('d, 's, 'a, 'v) hdql_CollectionAttrInterface \<Rightarrow> ('d cpp_iterator \<Rightarrow> 's) \<Rightarrow> ('d, 'v) contents \<Rightarrow>
   ('d \<Rightarrow> nat \<Rightarrow> bool) \<Rightarrow> ('d cpp_iterator \<Rightarrow> bool) \<Rightarrow> addr option \<Rightarrow>
   ('d, 's, 'a, 'v, 'v tag, unit hdql_Key) qlevel"
where
  "container_level iface mk_it contents P good sel = (let
     valid = (\<lambda>q. qa_interface (q_ad q) = IfCollection iface \<and> q_selectionArgs q = sel \<and>
       (q_state q = None \<or> (\<exists>i. q_state q = Some (mk_it i))));
     pending = (\<lambda>q k xs. valid q \<and> (\<exists>i d pos. q_state q = Some (mk_it i) \<and> it_owner i = Some d \<and>
       good i \<and> it_pos i = Some pos \<and> pos \<le> length (contents d) \<and> xs = elements contents P d (Suc pos)))
   in \<lparr>
     lv_valid = valid,
     lv_pending = pending,
     lv_done = (\<lambda>q k. pending q k []),
     lv_elems = (\<lambda>d. case d of None \<Rightarrow> [] | Some d \<Rightarrow> elements contents P d 0),
     lv_kf = (\<lambda>e. key_fill (tag_value e)),
     lv_shape = erased,
     lv_keyok = datum_key,
     lv_null = False \<rparr>)"

text \<open>Arriving at a position: what is returned, and the key.\<close>

definition arrive :: "('d, 'v) contents \<Rightarrow> 'd \<Rightarrow> nat \<Rightarrow> 'v hdql_Key option \<Rightarrow> 'd option \<times> 'v hdql_Key option" where
  "arrive contents d j key = (if j < length (contents d)
     then (fst (contents d ! j), map_option (key_fill (snd (contents d ! j))) key) else (None, key))"

locale container_interface =
  fixes iface :: "('d, 's, 'a, 'v) hdql_CollectionAttrInterface"
    and mk_it :: "'d cpp_iterator \<Rightarrow> 's" and contents :: "('d, 'v) contents"
    and P :: "'d \<Rightarrow> nat \<Rightarrow> bool" and good :: "'d cpp_iterator \<Rightarrow> bool" and sel :: "addr option"
  assumes nonnull: "x \<in> set (contents d) \<Longrightarrow> fst x \<noteq> None"
    and new: "no_oom c \<Longrightarrow> \<exists>i c'. ci_new_iterator iface (Some d) a c = Some (Some (mk_it i), a, c') \<and> no_oom c'"
    and reset: "\<forall>k. key = Some k \<longrightarrow> datum_key k \<Longrightarrow> j = next_pos (P d) (length (contents d)) 0 \<Longrightarrow>
      \<exists>i'. ci_reset_iterator iface (Some (mk_it i)) (Some d) a sel key c =
          Some (fst (arrive contents d j key), Some (mk_it i'), a, snd (arrive contents d j key), c) \<and>
        it_owner i' = Some d \<and> good i' \<and> it_pos i' = Some j"
    and yield: "\<forall>k. key = Some k \<longrightarrow> datum_key k \<Longrightarrow> it_owner i = Some d \<Longrightarrow> good i \<Longrightarrow>
      it_pos i = Some pos \<Longrightarrow> pos \<le> length (contents d) \<Longrightarrow>
      j = next_pos (P d) (length (contents d)) (Suc pos) \<Longrightarrow>
      \<exists>i'. ci_yield iface (Some (mk_it i)) a key c =
          Some (fst (arrive contents d j key), Some (mk_it i'), a, snd (arrive contents d j key), c) \<and>
        it_owner i' = Some d \<and> good i' \<and> it_pos i' = Some j"
begin

abbreviation level where "level \<equiv> container_level iface mk_it contents P good sel"

text \<open>Both calls end at a position: what they return is what the level says.\<close>

lemma arrived:
  assumes "j = next_pos (P d) (length (contents d)) i"
  shows "fst (arrive contents d j key) = head_datum (elements contents P d i)"
    and "tl (elements contents P d i) = elements contents P d (Suc j)"
    and "key_after level (elements contents P d i) key (snd (arrive contents d j key))"
    and "j \<le> length (contents d)"
proof -
  let ?n = "length (contents d)"
  have "fst (arrive contents d j key) = head_datum (elements contents P d i) \<and>
    tl (elements contents P d i) = elements contents P d (Suc j) \<and>
    key_after level (elements contents P d i) key (snd (arrive contents d j key)) \<and> j \<le> ?n"
  proof (cases rule: next_pos_cases [of "P d" ?n i, case_names none some])
    case none
    then show ?thesis
      by (simp add: assms arrive_def elements_def key_after_def container_level_def Let_def)
  next
    case (some j')
    have "fst (contents d ! j) = Some (the (fst (contents d ! j)))"
      using nonnull [of "contents d ! j" d] some(1,2) by (simp add: assms)
    with some show ?thesis
      by (simp add: assms arrive_def elements_def key_after_def container_level_def Let_def head_datum_def)
  qed
  then show "fst (arrive contents d j key) = head_datum (elements contents P d i)"
    "tl (elements contents P d i) = elements contents P d (Suc j)"
    "key_after level (elements contents P d i) key (snd (arrive contents d j key))" "j \<le> ?n" by blast+
qed

end

sublocale container_interface \<subseteq> lev: pending_level "container_level iface mk_it contents P good sel" no_oom
proof unfold_locales
  fix q :: "('d, 's, 'a, 'v) hdql_Query" and d :: "'d option" and k :: "'v hdql_Key option" and c
  let ?L = level
  assume q: "lv_valid ?L q" and k: "key_fits ?L k" and c: "no_oom c" and d: "d = None \<longrightarrow> lv_null ?L"
  obtain w where w: "d = Some w" using d by (cases d) (auto simp: container_level_def Let_def)
  have q': "qa_interface (q_ad q) = IfCollection iface" "q_selectionArgs q = sel"
    "q_state q = None \<or> (\<exists>i. q_state q = Some (mk_it i))"
    using q by (auto simp: container_level_def Let_def)
  have kd: "\<forall>k0. k = Some k0 \<longrightarrow> datum_key k0" using k by (simp add: key_fits_def container_level_def Let_def)
  let ?a = "qa_definitionData (q_ad q)"
  obtain i c' where i: "(if q_state q = None then ci_new_iterator iface (Some w) ?a c else Some (q_state q, ?a, c)) =
      Some (Some (mk_it i), ?a, c')" "no_oom c'"
    using new [OF c, of w ?a] q'(3) c by (cases "q_state q = None") auto
  let ?j = "next_pos (P w) (length (contents w)) 0"
  obtain i' where r: "ci_reset_iterator iface (Some (mk_it i)) (Some w) ?a sel k c' =
      Some (fst (arrive contents w ?j k), Some (mk_it i'), ?a, snd (arrive contents w ?j k), c')"
    "it_owner i' = Some w" "good i'" "it_pos i' = Some ?j"
    using reset [OF kd refl] by blast
  let ?q = "q_update (q\<lparr>q_owner := d\<rparr>) (Some (mk_it i')) ?a"
  have "hdql__query_reset q d k c = Some (fst (arrive contents w ?j k), ?q, snd (arrive contents w ?j k), c')"
    unfolding w by (rule query_reset_collection [OF q'(1) i(1)]) (simp only: q'(2) r(1))
  then have "hdql__query_reset q d k c = Some (head_datum (lv_elems ?L d), ?q, snd (arrive contents w ?j k), c')"
    using arrived(1) [OF refl, of w 0 k] by (simp add: w Let_def container_level_def)
  moreover have "lv_pending ?L ?q (snd (arrive contents w ?j k)) (tl (lv_elems ?L d))"
    using q'(1,2) r(2-4) arrived(2,4) [OF refl, of w 0]
    by (auto simp: container_level_def Let_def w q_update_def)
  moreover have "key_after ?L (lv_elems ?L d) k (snd (arrive contents w ?j k))"
    using arrived(3) [OF refl, of w 0 k] by (simp add: w container_level_def Let_def)
  ultimately show "\<exists>q' k' c'. hdql__query_reset q d k c = Some (head_datum (lv_elems ?L d), q', k', c') \<and>
      lv_pending ?L q' k' (tl (lv_elems ?L d)) \<and> key_after ?L (lv_elems ?L d) k k' \<and> no_oom c'"
    using i(2) by blast
next
  fix q :: "('d, 's, 'a, 'v) hdql_Query" and k :: "'v hdql_Key option" and xs and c
  let ?L = level
  assume q: "lv_pending ?L q k xs" and k: "key_fits ?L k" and c: "no_oom c"
  obtain i d pos where q': "qa_interface (q_ad q) = IfCollection iface" "q_selectionArgs q = sel"
    "q_state q = Some (mk_it i)" "it_owner i = Some d" "good i" "it_pos i = Some pos"
    "pos \<le> length (contents d)" "xs = elements contents P d (Suc pos)"
    using q by (auto simp: container_level_def Let_def)
  have kd: "\<forall>k0. k = Some k0 \<longrightarrow> datum_key k0" using k by (simp add: key_fits_def container_level_def Let_def)
  let ?a = "qa_definitionData (q_ad q)" and ?j = "next_pos (P d) (length (contents d)) (Suc pos)"
  obtain i' where r: "ci_yield iface (Some (mk_it i)) ?a k c =
      Some (fst (arrive contents d ?j k), Some (mk_it i'), ?a, snd (arrive contents d ?j k), c)"
    "it_owner i' = Some d" "good i'" "it_pos i' = Some ?j"
    using yield [OF kd q'(4-7) refl] by blast
  let ?q = "q_update q (Some (mk_it i')) ?a"
  have "hdql__query_yield q k c = Some (head_datum xs, ?q, snd (arrive contents d ?j k), c)"
    using q' r(1) arrived(1) [OF refl, of d "Suc pos" k] by (simp add: hdql__query_yield_def)
  moreover have "lv_pending ?L ?q (snd (arrive contents d ?j k)) (tl xs)"
    using q' r(2-4) arrived(2,4) [OF refl, of d "Suc pos"]
    by (auto simp: container_level_def Let_def q_update_def)
  ultimately show "\<exists>q' k' c'. hdql__query_yield q k c = Some (head_datum xs, q', k', c') \<and>
      lv_pending ?L q' k' (tl xs) \<and> key_after ?L xs k k' \<and> no_oom c'"
    using arrived(3) [OF refl, of d "Suc pos" k] c q'(8) by blast
qed (auto simp: container_level_def Let_def intro: key_fill_cong dest: erased_terminal datum_key_cong)

context container_interface
begin

lemma klevel: "datum_key k \<Longrightarrow> klevel_ok no_oom (level, Some k)"
  using lev.query_level_axioms by (simp add: klevel_ok_def key_fits_def container_level_def Let_def)

lemma fresh_query:
  "qa_interface (q_ad q) = IfCollection iface \<Longrightarrow> q_selectionArgs q = sel \<Longrightarrow> q_state q = None \<Longrightarrow> resettable level q k"
  by (simp add: resettable_def container_level_def Let_def)

end

lemma container_level_simps [simp]:
  "lv_elems (container_level iface mk_it contents P good sel) (Some d) = elements contents P d 0"
  "lv_kf (container_level iface mk_it contents P good sel) (TKey v) = key_fill v"
  "lv_null (container_level iface mk_it contents P good sel) = False"
  by (simp_all add: container_level_def Let_def)

subsection \<open>The interfaces meet the contract\<close>

definition array_contents :: "nat \<Rightarrow> ('d \<Rightarrow> nat \<Rightarrow> 'd) \<Rightarrow> (nat \<Rightarrow> 'v) \<Rightarrow> ('d, 'v) contents" where
  "array_contents n elem idx d = map (\<lambda>j. (Some (elem d j), idx j)) [0..<n]"

lemma array_contents_simps [simp]:
  "length (array_contents n elem idx d) = n"
  "j < n \<Longrightarrow> array_contents n elem idx d ! j = (Some (elem d j), idx j)"
  by (simp_all add: array_contents_def)

lemma next_pos_end: "n \<le> i \<Longrightarrow> next_pos P n i = n"
  by (simp add: next_pos_def)

lemma next_pos_all: "i \<le> n \<Longrightarrow> next_pos (\<lambda>_. True) n i = i"
  by (cases "i < n") (simp_all add: next_pos_step next_pos_end)

lemma next_pos_le: "next_pos P n i \<le> n"
  using next_pos_dest [of P n i] by auto

lemma no_oom_alloc:
  assumes "no_oom c"
  obtains p c' where "ctx_alloc c = (Some p, c')" "no_oom c'"
  using assms by (cases "ctx_alloc c") (auto simp: no_oom_def ctx_alloc_malloc heap_malloc_def Let_def)

lemmas key_memcpy_all = with_key_fill [of key_memcpy, OF key_memcpy_fill]
lemmas stl_get_key_all = with_key_fill [of stl_get_key, OF stl_get_key_fill]

lemma array_new:
  assumes "no_oom c"
  shows "\<exists>i c'. array_new_iterator mk_it d a c = Some (Some (mk_it i), a, c') \<and> no_oom c'"
  using assms by (rule no_oom_alloc) (auto simp: array_new_iterator_def)

lemma stl_new:
  assumes "no_oom c"
  shows "\<exists>i c'. stl_new_iterator mk_it (Some d) a c = Some (Some (mk_it i), a, c') \<and> no_oom c'"
  using assms by (rule no_oom_alloc) (auto simp: stl_new_iterator_def)

lemma array_container:
  assumes cast: "\<And>i. as_it (mk_it i) = Some i" and n: "0 < n"
  shows "container_interface (array_iface mk_it as_it n elem idx) mk_it (array_contents n elem idx) (\<lambda>_ _. True) (\<lambda>_. True) None"
proof (unfold_locales, goal_cases)
  case (1 x d)
  then show ?case by (auto simp: array_contents_def)
next
  case (2 c d a)
  then show ?case by (simp add: array_iface_def array_new)
next
  case (3 key j d i a c)
  then show ?case
    using n by (intro exI [of _ "i\<lparr>it_owner := Some d, it_pos := Some 0\<rparr>"])
      (simp add: array_iface_def array_reset_iterator_def cast key_memcpy_all next_pos_all arrive_def)
next
  case (4 key i d pos j a c)
  show ?case
  proof (cases "pos = n")
    case True
    with 4 show ?thesis
      by (intro exI [of _ i]) (simp add: array_iface_def array_yield_def cast next_pos_end arrive_def)
  next
    case False
    with 4 show ?thesis
      by (intro exI [of _ "i\<lparr>it_pos := Some (Suc pos)\<rparr>"])
        (auto simp: array_iface_def array_yield_def cast next_pos_all arrive_def key_memcpy_all)
  qed
qed

lemma stl_container:
  assumes cast: "\<And>i. as_it (mk_it i) = Some i" and nonnull: "\<And>d x. x \<in> set (contents d) \<Longrightarrow> fst x \<noteq> None"
  shows "container_interface (stl_iface mk_it as_it contents) mk_it contents (\<lambda>_ _. True) (\<lambda>_. True) None"
proof (unfold_locales, goal_cases)
  case (1 x d)
  then show ?case by (rule nonnull)
next
  case (2 c d a)
  then show ?case by (simp add: stl_iface_def stl_new)
next
  case (3 key j d i a c)
  then show ?case
    by (intro exI [of _ "i\<lparr>it_owner := Some d, it_pos := Some 0\<rparr>"], cases "contents d")
      (simp_all add: stl_iface_def stl_reset_iterator_def cast stl_get_key_all next_pos_all arrive_def Let_def)
next
  case (4 key i d pos j a c)
  show ?case
  proof (cases "pos = length (contents d)")
    case True
    with 4 show ?thesis
      by (intro exI [of _ i]) (simp add: stl_iface_def stl_yield_def cast next_pos_end arrive_def Let_def)
  next
    case False
    with 4 show ?thesis
      by (intro exI [of _ "i\<lparr>it_pos := Some (Suc pos)\<rparr>"])
        (auto simp: stl_iface_def stl_yield_def cast next_pos_all arrive_def stl_get_key_all Let_def)
  qed
qed

text \<open>Selection traits that go through the selected positions in order.\<close>

definition traits_select :: "'d selection_traits \<Rightarrow> ('d, 'v) contents \<Rightarrow> ('d \<Rightarrow> nat \<Rightarrow> bool) \<Rightarrow> addr option \<Rightarrow> bool" where
  "traits_select traits contents P sel \<longleftrightarrow>
     (\<forall>d p. tr_reset traits d sel p = next_pos (P d) (length (contents d)) 0) \<and>
     (\<forall>d pos. pos < length (contents d) \<longrightarrow> tr_advance traits d sel pos = next_pos (P d) (length (contents d)) (Suc pos))"

lemma stl_sel_container:
  assumes cast: "\<And>i. as_it (mk_it i) = Some i" and nonnull: "\<And>d x. x \<in> set (contents d) \<Longrightarrow> fst x \<noteq> None"
    and traits: "traits_select traits contents P sel"
  shows "container_interface (stl_sel_iface mk_it as_it traits contents) mk_it contents P (\<lambda>i. it_selection i = sel) sel"
proof (unfold_locales, goal_cases)
  case (1 x d)
  then show ?case by (rule nonnull)
next
  case (2 c d a)
  then show ?case by (simp add: stl_sel_iface_def array_new)
next
  case (3 key j d i a c)
  then have "tr_reset traits d sel p = j" "j \<le> length (contents d)" for p
    using traits by (auto simp: traits_select_def next_pos_le)
  then show ?case using 3(1)
    by (intro exI [of _ "i\<lparr>it_owner := Some d, it_selection := sel, it_pos := Some j\<rparr>"])
      (auto simp: stl_sel_iface_def stl_sel_reset_iterator_def cast stl_get_key_all arrive_def Let_def)
next
  case (4 key i d pos j a c)
  show ?case
  proof (cases "pos = length (contents d)")
    case True
    with 4 show ?thesis
      by (intro exI [of _ i]) (simp add: stl_sel_iface_def stl_sel_yield_def cast next_pos_end arrive_def Let_def)
  next
    case False
    then have "tr_advance traits d sel pos = j" "j \<le> length (contents d)"
      using traits 4(5,6) by (auto simp: traits_select_def next_pos_le)
    with False 4 show ?thesis
      by (intro exI [of _ "i\<lparr>it_pos := Some j\<rparr>"])
        (auto simp: stl_sel_iface_def stl_sel_yield_def cast arrive_def stl_get_key_all Let_def)
  qed
qed

text \<open>The contract on the interfaces themselves, their iterators cast to nothing else.\<close>

interpretation array: container_interface "array_iface (\<lambda>i. i) Some (Suc n) elem idx" "\<lambda>i. i"
    "array_contents (Suc n) elem idx" "\<lambda>_ _. True" "\<lambda>_. True" None for n elem idx
  by (rule array_container) simp_all

interpretation stl: container_interface "stl_iface (\<lambda>i. i) Some (\<lambda>d. map (\<lambda>(x, v). (Some x, v)) (members d))"
    "\<lambda>i. i" "\<lambda>d. map (\<lambda>(x, v). (Some x, v)) (members d)" "\<lambda>_ _. True" "\<lambda>_. True" None for members
  by (rule stl_container) auto

text \<open>An array with a selection of nothing: what the reset returns is the address past the last element.\<close>

lemma array_sel_reset_of_nothing:
  assumes "as_it s = Some i" "tr_reset traits d sel (it_pos i) = extent"
  shows "\<exists>s'. array_sel_reset_iterator mk_it as_it traits elem idx (Some s) (Some d) a sel None c =
    Some (Some (elem d extent), s', a, None, c)"
  using assms by (simp add: array_sel_reset_iterator_def with_key_def Let_def)

end
