(* ===== verification/Results.thy ===== *)
theory Results
  imports Containers
begin

text \<open>
  The query results handler (\<open>src/helpers/query-results-handler.c\<close>): the client that drives a query,
  from the reservation of the keys to the last record. The query is kept in its two views, the
  running chain and its static links.

  The callbacks get and return the user data. A record's callback sees the datum, and, through
  the key given to \<open>handle_keys\<close>, the key of the record.
\<close>

record ('d, 'u) hdql_iQueryResultsHandler =
  qr_userdata :: 'u
  qr_handle_result_type :: "(hdql_AttrDef \<Rightarrow> 'u \<Rightarrow> (int \<times> 'u) option) option"
  qr_handle_keys :: "(bytes hdql_Key \<Rightarrow> nat list option list \<Rightarrow> nat \<Rightarrow> 'u \<Rightarrow> (int \<times> 'u) option) option"
  qr_finalize_schema :: "('u \<Rightarrow> (int \<times> 'u) option) option"
  qr_handle_record :: "('d \<Rightarrow> bytes hdql_Key option \<Rightarrow> 'u \<Rightarrow> (int \<times> 'u) option) option"

record ('d, 's, 'a, 'u) hdql_QueryResultsWorkspace =
  ws_addr :: addr
  ws_q :: "('d, 's, 'a, bytes) hdql_Query list"
  ws_iqr :: "('d, 'u) hdql_iQueryResultsHandler"
  ws_keys :: "(addr \<times> bytes hdql_Key) option"
  ws_flatKeyViewLength :: nat
  ws_kv :: "addr option"

definition call_back :: "('u \<Rightarrow> (int \<times> 'u) option) \<Rightarrow> ('d, 'u) hdql_iQueryResultsHandler \<Rightarrow>
   (int \<times> ('d, 'u) hdql_iQueryResultsHandler) option" where
  "call_back f iqr = do { (rc, u) \<leftarrow> f (qr_userdata iqr); Some (rc, iqr\<lparr>qr_userdata := u\<rparr>) }"

section \<open>Setting up and tearing down\<close>

definition query_result_table_init_keys ::
  "q_link list \<Rightarrow> ('d, 's, 'a, 'u) hdql_QueryResultsWorkspace \<Rightarrow> hdql_Context \<Rightarrow>
   (int \<times> ('d, 's, 'a, 'u) hdql_QueryResultsWorkspace \<times> hdql_Context) option"
where
  "query_result_table_init_keys q ws c = do {
     (r, c) \<leftarrow> hdql_key_new c;
     (rc, key, c) \<leftarrow> hdql_key_reserve_for_query q (snd r) c;
     c_assert (rc = HDQL_ERR_CODE_OK);
     n \<leftarrow> hdql_key_flat_view_size key;
     let (kv, h) = (if n \<noteq> 0 then heap_malloc (cx_heap c) else (None, cx_heap c));
     let c = c\<lparr>cx_heap := h\<rparr>;
     (_, view) \<leftarrow> hdql_key_flat_view_populate key (if kv = None then [] else replicate n None);
     let ws = ws\<lparr>ws_keys := Some (fst r, key), ws_flatKeyViewLength := n, ws_kv := kv\<rparr>;
     handle \<leftarrow> qr_handle_keys (ws_iqr ws);
     (rc, iqr) \<leftarrow> call_back (handle key view n) (ws_iqr ws);
     Some (rc, ws\<lparr>ws_iqr := iqr\<rparr>, c) }"

text \<open>
  \<open>hdql_query_results_init\<close>. On an error the workspace is not released; nor is, for an error of
  \<open>handle_keys\<close>, the key. (The user data outlives the call, so the handler is returned as well.)
\<close>

definition hdql_query_results_init ::
  "('d, 's, 'a, bytes) hdql_Query list \<Rightarrow> q_link list \<Rightarrow> ('d, 'u) hdql_iQueryResultsHandler \<Rightarrow> hdql_Context \<Rightarrow>
   (('d, 's, 'a, 'u) hdql_QueryResultsWorkspace option \<times> ('d, 'u) hdql_iQueryResultsHandler \<times> hdql_Context) option"
where
  "hdql_query_results_init q links iqr c =
     (if Option.is_none (qr_handle_record iqr) then Some (None, iqr, c)
      else do {
        let (p, c) = ctx_alloc c;
        a \<leftarrow> p;
        (rc, iqr) \<leftarrow> (case qr_handle_result_type iqr of
           None \<Rightarrow> Some (0, iqr)
         | Some h \<Rightarrow> do { ad \<leftarrow> hdql_query_top_attr links; call_back (h ad) iqr });
        if rc \<noteq> 0 then Some (None, iqr, c)
        else do {
          let ws = \<lparr>ws_addr = a, ws_q = q, ws_iqr = iqr, ws_keys = None, ws_flatKeyViewLength = 0, ws_kv = None\<rparr>;
          (rc, ws, c) \<leftarrow> (if Option.is_none (qr_handle_keys iqr) then Some (0, ws, c)
                         else query_result_table_init_keys links ws c);
          if rc \<noteq> 0 then Some (None, ws_iqr ws, c)
          else do {
            (_, iqr) \<leftarrow> (case qr_finalize_schema (ws_iqr ws) of
               None \<Rightarrow> Some (0, ws_iqr ws)
             | Some f \<Rightarrow> call_back f (ws_iqr ws));
            Some (Some (ws\<lparr>ws_iqr := iqr\<rparr>), iqr, c) } } })"

definition hdql_query_results_destroy ::
  "('d, 's, 'a, 'u) hdql_QueryResultsWorkspace \<Rightarrow> hdql_Context \<Rightarrow> (int \<times> hdql_Context) option" where
  "hdql_query_results_destroy ws c = do {
     h \<leftarrow> heap_free (ws_kv ws) (cx_heap c);
     let c = c\<lparr>cx_heap := h\<rparr>;
     c \<leftarrow> (case ws_keys ws of None \<Rightarrow> Some c
          | Some k \<Rightarrow> map_option snd (hdql_key_destroy k c));
     c \<leftarrow> ctx_free (Some (ws_addr ws)) c;
     Some (0, c) }"

section \<open>Processing the records\<close>

partial_function (option) process_records ::
  "('d \<Rightarrow> bytes hdql_Key option \<Rightarrow> 'u \<Rightarrow> (int \<times> 'u) option) \<Rightarrow> 'd option \<Rightarrow>
   ('d, 's, 'a, bytes) hdql_Query list \<Rightarrow> bytes hdql_Key option \<Rightarrow> hdql_Context \<Rightarrow> 'u \<Rightarrow>
   (('d, 's, 'a, bytes) hdql_Query list \<times> bytes hdql_Key option \<times> hdql_Context \<times> 'u) option"
where
  "process_records handle r q key c u =
     (case r of None \<Rightarrow> Some (q, key, c, u)
      | Some d \<Rightarrow> Option.bind (handle d key u) (\<lambda>(rc, u).
          Option.bind (hdql_query_get q key c) (\<lambda>(r, q, key, c).
            process_records handle r q key c u)))"

definition hdql_query_results_process_records_from ::
  "'d option \<Rightarrow> ('d, 's, 'a, 'u) hdql_QueryResultsWorkspace \<Rightarrow> hdql_Context \<Rightarrow>
   (hdql_Err_t \<times> ('d, 's, 'a, 'u) hdql_QueryResultsWorkspace \<times> hdql_Context) option"
where
  "hdql_query_results_process_records_from d ws c = do {
     handle \<leftarrow> qr_handle_record (ws_iqr ws);
     (r, q, key, c) \<leftarrow> hdql_query_reset (ws_q ws) d (map_option snd (ws_keys ws)) c;
     (q, key, c, u) \<leftarrow> process_records handle r q key c (qr_userdata (ws_iqr ws));
     Some (HDQL_ERR_CODE_OK,
       ws\<lparr>ws_q := q, ws_keys := (case ws_keys ws of None \<Rightarrow> None | Some (a, k) \<Rightarrow> map_option (Pair a) key),
          ws_iqr := (ws_iqr ws)\<lparr>qr_userdata := u\<rparr>\<rparr>, c) }"

text \<open>What a handler that always returns makes of the outputs, in order.\<close>

definition handle_all ::
  "('d \<Rightarrow> bytes hdql_Key option \<Rightarrow> 'u \<Rightarrow> 'u) \<Rightarrow> ('d \<times> bytes hdql_Key option) list \<Rightarrow> 'u \<Rightarrow> 'u" where
  "handle_all f outs u = fold (\<lambda>(d, k). f d k) outs u"

text \<open>Running through the outputs keeps what every call of the handler keeps: \<open>I\<close> of the outputs so far.\<close>

lemma process_records_inv:
  assumes step: "\<And>xs d k ys u. outs0 = xs @ (d, k) # ys \<Longrightarrow> I xs u \<Longrightarrow> \<exists>rc u'. handle d k u = Some (rc, u') \<and> I (xs @ [(d, k)]) u'"
  shows "chain_pending ok ls q ks outs \<Longrightarrow> keys_are key ks \<Longrightarrow> ok c \<Longrightarrow>
   key = put_keys key0 (path_keys ls es) \<Longrightarrow> outs0 = xs @ map (seen ls key0) ((y, es) # outs) \<Longrightarrow> I xs u \<Longrightarrow>
   \<exists>q' key' ks' c' u'. process_records handle (Some y) q key c u = Some (q', key', c', u') \<and> I outs0 u' \<and>
     chain_valid ok ls q' ks' \<and> keys_are key' ks' \<and> ok c' \<and> key' = put_keys key0 ks'"
proof (induction outs arbitrary: q ks key c y es u xs)
  case Nil
  obtain rc u' where h: "handle y key u = Some (rc, u')" "I outs0 u'"
    using step [of xs y key "[]" u] Nil.prems(4-6) by auto
  obtain q' key' c' ks' where g: "hdql_query_get q key c = Some (None, q', key', c')" "ok c'"
    "key' = put_keys key ks'" "keys_are key' ks'" "chain_pending ok ls q' ks' []"
    using chain_get [OF Nil.prems(1-3)] by auto
  have "process_records handle (Some y) q key c u = Some (q', key', c', u')"
    by (subst process_records.simps) (simp add: h(1) g(1) process_records.simps)
  then show ?case using g h(2) chain_pending_valid [OF g(5)] Nil.prems(4) by auto
next
  case (Cons o1 outs)
  obtain y1 es1 where o1: "o1 = (y1, es1)" by (cases o1)
  obtain rc u1 where h: "handle y key u = Some (rc, u1)" "I (xs @ [(y, key)]) u1"
    using step [of xs y key "map (seen ls key0) (o1 # outs)" u] Cons.prems(4-6) by auto
  obtain q' key' c' where g: "hdql_query_get q key c = Some (Some y1, q', key', c')" "ok c'"
    "key' = put_keys key (path_keys ls es1)" "keys_are key' (path_keys ls es1)"
    "chain_pending ok ls q' (path_keys ls es1) outs"
    using chain_get [OF Cons.prems(1-3)] by (auto simp: o1)
  have k: "key' = put_keys key0 (path_keys ls es1)" using g(3) Cons.prems(4) by simp
  have outs0: "outs0 = (xs @ [(y, key)]) @ map (seen ls key0) ((y1, es1) # outs)"
    using Cons.prems(4,5) by (simp add: o1)
  obtain q2 key2 ks2 c2 u2 where r: "process_records handle (Some y1) q' key' c' u1 = Some (q2, key2, c2, u2)" "I outs0 u2"
    "chain_valid ok ls q2 ks2" "keys_are key2 ks2" "ok c2" "key2 = put_keys key0 ks2"
    using Cons.IH [OF g(5,4,2) k outs0 h(2)] by blast
  have "process_records handle (Some y) q key c u = Some (q2, key2, c2, u2)"
    by (subst process_records.simps) (simp add: h(1) g(1) r(1))
  then show ?case using r by blast
qed

lemma records_inv:
  assumes "chain_valid ok ls qs ks" "keys_are key ks" "ok c" "d = None \<longrightarrow> lv_null (fst (hd ls))"
    and step: "\<And>xs d' k ys u. map (seen ls key) (chain_outs ls d) = xs @ (d', k) # ys \<Longrightarrow> I xs u \<Longrightarrow>
      \<exists>rc u'. handle d' k u = Some (rc, u') \<and> I (xs @ [(d', k)]) u'" and "I [] u"
  obtains r q k1 c1 q' key' ks' c' u' where "hdql_query_reset qs d key c = Some (r, q, k1, c1)"
    "process_records handle r q k1 c1 u = Some (q', key', c', u')" "I (map (seen ls key) (chain_outs ls d)) u'"
    "chain_valid ok ls q' ks'" "keys_are key' ks'" "ok c'" "key' = put_keys key ks'"
proof -
  obtain r q k1 c1 ks1 where reset: "hdql_query_reset qs d key c = Some (r, q, k1, c1)" "ok c1"
    "k1 = put_keys key ks1" "keys_are k1 ks1" "case chain_outs ls d of
       [] \<Rightarrow> r = None \<and> chain_valid ok ls q ks1
     | (y, es) # outs \<Rightarrow> r = Some y \<and> ks1 = path_keys ls es \<and> chain_pending ok ls q ks1 outs"
    using chain_reset [OF assms(1-4)] by blast
  show thesis
  proof (cases "chain_outs ls d")
    case Nil
    then have "process_records handle r q k1 c1 u = Some (q, k1, c1, u)" "chain_valid ok ls q ks1"
      using reset(5) by (simp_all add: process_records.simps)
    with that [of r q k1 c1 q k1 c1 u ks1] show thesis using reset Nil assms(6) by simp
  next
    case (Cons o1 outs)
    obtain y es where o1: "o1 = (y, es)" by (cases o1)
    have r: "r = Some y" "ks1 = path_keys ls es" "chain_pending ok ls q ks1 outs"
      using reset(5) by (auto simp: Cons o1)
    have k: "k1 = put_keys key (path_keys ls es)" using reset(3) r(2) by simp
    have outs: "map (seen ls key) (chain_outs ls d) = [] @ map (seen ls key) ((y, es) # outs)" by (simp add: Cons o1)
    have "\<exists>q' key' ks' c' u'. process_records handle (Some y) q k1 c1 u = Some (q', key', c', u') \<and>
        I (map (seen ls key) (chain_outs ls d)) u' \<and> chain_valid ok ls q' ks' \<and> keys_are key' ks' \<and> ok c' \<and> key' = put_keys key ks'"
      by (rule process_records_inv [OF step r(3) reset(4,2) k outs assms(6)])
    then show thesis using that reset(1) r(1) by blast
  qed
qed

lemma process_records_from_inv:
  assumes "chain_valid ok ls (ws_q ws) ks" "keys_are (map_option snd (ws_keys ws)) ks" "ok c"
    and "d = None \<longrightarrow> lv_null (fst (hd ls))"
    and "qr_handle_record (ws_iqr ws) = Some handle"
    and "\<And>xs d' k ys u. map (seen ls (map_option snd (ws_keys ws))) (chain_outs ls d) = xs @ (d', k) # ys \<Longrightarrow> I xs u \<Longrightarrow>
      \<exists>rc u'. handle d' k u = Some (rc, u') \<and> I (xs @ [(d', k)]) u'"
    and "I [] (qr_userdata (ws_iqr ws))"
  shows "\<exists>ws' c' ks'. hdql_query_results_process_records_from d ws c = Some (HDQL_ERR_CODE_OK, ws', c') \<and> ok c' \<and>
    I (map (seen ls (map_option snd (ws_keys ws))) (chain_outs ls d)) (qr_userdata (ws_iqr ws')) \<and>
    chain_valid ok ls (ws_q ws') ks' \<and> keys_are (map_option snd (ws_keys ws')) ks' \<and>
    qr_handle_record (ws_iqr ws') = Some handle \<and> map_option fst (ws_keys ws') = map_option fst (ws_keys ws)"
proof -
  let ?key = "map_option snd (ws_keys ws)" and ?u = "qr_userdata (ws_iqr ws)"
  obtain r q key c1 q' key' c' ks' u' where reset: "hdql_query_reset (ws_q ws) d ?key c = Some (r, q, key, c1)"
    and p: "process_records handle r q key c1 ?u = Some (q', key', c', u')" "I (map (seen ls ?key) (chain_outs ls d)) u'"
    "chain_valid ok ls q' ks'" "keys_are key' ks'" "ok c'" "key' = put_keys ?key ks'"
    by (rule records_inv [where handle = handle and I = I and u = ?u, OF assms(1-4,6,7)]) (assumption | rule that)+
  have addr: "map_option snd (case ws_keys ws of None \<Rightarrow> None | Some (a, k) \<Rightarrow> map_option (Pair a) key') = key'"
    "map_option fst (case ws_keys ws of None \<Rightarrow> None | Some (a, k) \<Rightarrow> map_option (Pair a) key') =
     map_option fst (ws_keys ws)"
  proof -
    have "key' = None \<longleftrightarrow> ws_keys ws = None" unfolding p(6) put_keys_null by simp
    then show "map_option snd (case ws_keys ws of None \<Rightarrow> None | Some (a, k) \<Rightarrow> map_option (Pair a) key') = key'"
      "map_option fst (case ws_keys ws of None \<Rightarrow> None | Some (a, k) \<Rightarrow> map_option (Pair a) key') =
       map_option fst (ws_keys ws)"
      by (cases "ws_keys ws"; cases key'; auto)+
  qed
  let ?ws = "ws\<lparr>ws_q := q', ws_keys := (case ws_keys ws of None \<Rightarrow> None | Some (a, k) \<Rightarrow> map_option (Pair a) key'),
    ws_iqr := (ws_iqr ws)\<lparr>qr_userdata := u'\<rparr>\<rparr>"
  have "hdql_query_results_process_records_from d ws c = Some (HDQL_ERR_CODE_OK, ?ws, c')"
    by (simp add: hdql_query_results_process_records_from_def assms(5) reset p(1))
  then show ?thesis
    using p(2-5) addr assms(5) by (intro exI [of _ ?ws] exI [of _ c'] exI [of _ ks']) simp
qed

text \<open>A handler that always returns.\<close>

lemma handle_all_step:
  assumes "\<And>d k u. map_option snd (handle d k u) = Some (f d k u)" "u = handle_all f xs u0"
  shows "\<exists>rc u'. handle d k u = Some (rc, u') \<and> u' = handle_all f (xs @ [(d, k)]) u0"
  using assms(1) [of d k u] assms(2) by (auto simp: handle_all_def)

lemma records_all:
  assumes "chain_valid ok ls qs ks" "keys_are key ks" "ok c" "d = None \<longrightarrow> lv_null (fst (hd ls))"
    and handle: "\<And>d k u. map_option snd (handle d k u) = Some (f d k u)"
  obtains r q k1 c1 q' key' ks' c' where "hdql_query_reset qs d key c = Some (r, q, k1, c1)"
    "process_records handle r q k1 c1 u = Some (q', key', c', handle_all f (map (seen ls key) (chain_outs ls d)) u)"
    "chain_valid ok ls q' ks'" "keys_are key' ks'" "ok c'" "key' = put_keys key ks'"
  by (rule records_inv [where handle = handle and I = "\<lambda>xs v. v = handle_all f xs u" and u = u, OF assms(1-4)])
    (erule handle_all_step [OF handle], simp add: handle_all_def, blast intro: that)

text \<open>
  C1: Processing the records of a datum returns, and its handler has been called on exactly the
  outputs the chain has for the datum, depth first and in order, each with the key of its
  elements; the workspace is left ready for the next datum.
\<close>

theorem process_records_complete:
  assumes "chain_valid ok ls (ws_q ws) ks" "keys_are (map_option snd (ws_keys ws)) ks" "ok c"
    and "d = None \<longrightarrow> lv_null (fst (hd ls))"
    and "qr_handle_record (ws_iqr ws) = Some handle"
    and "\<And>d k u. map_option snd (handle d k u) = Some (f d k u)"
  shows "\<exists>ws' c' ks'. hdql_query_results_process_records_from d ws c = Some (HDQL_ERR_CODE_OK, ws', c') \<and> ok c' \<and>
    qr_userdata (ws_iqr ws') = handle_all f (map (seen ls (map_option snd (ws_keys ws))) (chain_outs ls d))
      (qr_userdata (ws_iqr ws)) \<and>
    chain_valid ok ls (ws_q ws') ks' \<and> keys_are (map_option snd (ws_keys ws')) ks' \<and>
    qr_handle_record (ws_iqr ws') = Some handle \<and> map_option fst (ws_keys ws') = map_option fst (ws_keys ws)"
  by (rule process_records_from_inv [where I = "\<lambda>xs v. v = handle_all f xs (qr_userdata (ws_iqr ws))", OF assms(1-5)])
    (erule handle_all_step [OF assms(6)], simp add: handle_all_def)

section \<open>Containers through the handler\<close>

text \<open>The records of a query, each with its key, in the order they are handled.\<close>

definition collect :: "'d \<Rightarrow> bytes hdql_Key option \<Rightarrow> ('d \<times> bytes hdql_Key option) list \<Rightarrow>
   (int \<times> ('d \<times> bytes hdql_Key option) list) option" where
  "collect d k u = Some (0, u @ [(d, k)])"

definition query_records ::
  "('d, 's, 'a, bytes) hdql_Query list \<Rightarrow> 'd option \<Rightarrow> bytes hdql_Key option \<Rightarrow> hdql_Context \<Rightarrow>
   ('d \<times> bytes hdql_Key option) list option"
where
  "query_records qs d key c = do {
     (r, qs, key, c) \<leftarrow> hdql_query_reset qs d key c;
     (_, _, _, u) \<leftarrow> process_records collect r qs key c [];
     Some u }"

lemma collect_all: "handle_all (\<lambda>d k u. u @ [(d, k)]) outs u = u @ outs"
  by (induction outs arbitrary: u) (auto simp: handle_all_def)

lemma query_records_chain:
  assumes "chain_valid ok ls qs ks" "keys_are key ks" "ok c" "d = None \<longrightarrow> lv_null (fst (hd ls))"
  shows "query_records qs d key c = Some (map (seen ls key) (chain_outs ls d))"
  by (rule records_all [where handle = collect and f = "\<lambda>d k u. u @ [(d, k)]" and u = "[]", OF assms])
    (simp_all add: collect_def query_records_def collect_all)

text \<open>A list key of datum keys, as reserved for a chain of collections.\<close>

definition list_key :: "'v hdql_Key list \<Rightarrow> 'v hdql_Key" where
  "list_key ks = Key 0 KEY_PL_TYPE_LIST True (PlKeys 0 ks) None"

lemma list_key_facts:
  "keys_are (Some (list_key ks)) (map Some ks)"
  "put_keys (Some (list_key ks)) ks' = Some (list_key (map the ks'))"
  by (simp_all add: list_key_def keys_are_def put_keys_def hdql_key_is_list_def)

lemmas chain_simps = chain_valid_def kshape_def nonterm_def chain_outs_def seen_def path_keys_def ekey_def
  expand_def

lemma concat_singletons: "concat (map (\<lambda>(z, e). [(z, [e])]) xs) = map (\<lambda>(z, e). (z, [e])) xs"
  by (induction xs) auto

lemma lpaths_one: "lpaths [l] y = map (\<lambda>(z, e). (z, [e])) (lv_elems (fst l) (Some y))"
  by (simp add: lpaths.simps(2) concat_singletons)

text \<open>A query on one container, and a query that goes through two.\<close>

lemma container_records:
  assumes I: "container_interface iface mk_it contents P good sel" and k: "datum_key k" and c: "no_oom c"
    and q: "qa_interface (q_ad q) = IfCollection iface" "q_selectionArgs q = sel" "q_state q = None"
  shows "query_records [q] (Some d) (Some (list_key [k])) c =
    Some (map (\<lambda>(x, v). (the x, Some (list_key [key_fill v k])))
      (map ((!) (contents d)) (filter (P d) [0..<length (contents d)])))"
proof -
  let ?L = "container_level iface mk_it contents P good sel"
  have "chain_valid no_oom [(?L, Some k)] [q] [Some k]"
    using container_interface.klevel [OF I k] container_interface.fresh_query [OF I q]
    by (simp add: chain_valid_def kshape_def)
  then have "query_records [q] (Some d) (Some (list_key [k])) c =
      Some (map (seen [(?L, Some k)] (Some (list_key [k]))) (chain_outs [(?L, Some k)] (Some d)))"
    by (rule query_records_chain [where ok = no_oom]) (simp_all add: c list_key_facts(1) [of "[k]", simplified])
  then show ?thesis
    by (simp add: chain_simps elements_def list_key_facts o_def split_beta map_concat [symmetric])
qed

lemma container_nested_records:
  assumes I: "container_interface iface1 mk_it1 contents1 P1 good1 sel1"
      "container_interface iface2 mk_it2 contents2 P2 good2 sel2"
    and k: "datum_key k1" "\<not> k_isTerminal k1" "datum_key k2" and c: "no_oom c"
    and q: "qa_interface (q_ad q1) = IfCollection iface1" "q_selectionArgs q1 = sel1" "q_state q1 = None"
      "qa_interface (q_ad q2) = IfCollection iface2" "q_selectionArgs q2 = sel2" "q_state q2 = None"
  shows "query_records [q1, q2] (Some d) (Some (list_key [k1, k2])) c =
    Some (concat (map (\<lambda>(x, v). map (\<lambda>(y, w). (the y, Some (list_key [key_fill v k1, key_fill w k2])))
        (map ((!) (contents2 (the x))) (filter (P2 (the x)) [0..<length (contents2 (the x))])))
      (map ((!) (contents1 d)) (filter (P1 d) [0..<length (contents1 d)]))))"
proof -
  let ?L1 = "container_level iface1 mk_it1 contents1 P1 good1 sel1"
  let ?L2 = "container_level iface2 mk_it2 contents2 P2 good2 sel2"
  let ?ls = "[(?L1, Some k1), (?L2, Some k2)]" and ?key = "Some (list_key [k1, k2])"
  have "chain_valid no_oom ?ls [q1, q2] [Some k1, Some k2]"
    using container_interface.klevel [OF I(1) k(1)] container_interface.fresh_query [OF I(1) q(1-3)]
      container_interface.klevel [OF I(2) k(3)] container_interface.fresh_query [OF I(2) q(4-6)] k(2)
    by (simp add: chain_valid_def kshape_def nonterm_def)
  then have "query_records [q1, q2] (Some d) ?key c = Some (map (seen ?ls ?key) (chain_outs ?ls (Some d)))"
    by (rule query_records_chain [where ok = no_oom]) (simp_all add: c list_key_facts(1) [of "[k1, k2]", simplified])
  then show ?thesis
    by (simp add: chain_simps elements_def list_key_facts o_def split_beta map_concat lpaths_one)
qed

section \<open>The properties\<close>

text \<open>A sample: numbers contain numbers, with the position as the key; the selection is of even positions.\<close>

definition sample_contents :: "(nat, bytes) contents" where
  "sample_contents d = (if d = 0 then [] else map (\<lambda>j. (Some (10 * d + j), [of_nat j])) [0..<3])"

definition even_traits :: "nat selection_traits" where
  "even_traits = \<lparr>tr_reset = (\<lambda>d p pos. next_pos even (length (sample_contents d)) 0),
     tr_advance = (\<lambda>d p pos. next_pos even (length (sample_contents d)) (Suc pos)), tr_destroy = ctx_free \<circ> Some\<rparr>"

definition sample_query ::
  "'a \<Rightarrow> (nat, nat cpp_iterator, 'a, bytes) hdql_CollectionAttrInterface \<Rightarrow> (nat, nat cpp_iterator, 'a, bytes) hdql_Query" where
  "sample_query dd iface = \<lparr>q_addr = 1, q_owner = None,
     q_ad = \<lparr>qa_addr = 2, qa_interface = IfCollection iface, qa_definitionData = dd, qa_isFwdQuery = False,
       qa_isTransient = False, qa_transient_dtr = None\<rparr>,
     q_ownsSubject = False, q_state = None, q_selectionArgs = None, q_label = None\<rparr>"

definition sample_key :: "bool \<Rightarrow> bytes hdql_Key" where
  "sample_key t = Key 5 KEY_PL_TYPE_PLAIN t (PlDatum 7 [0]) None"

abbreviation stl_sample :: "(nat, nat cpp_iterator, unit, bytes) hdql_CollectionAttrInterface" where
  "stl_sample \<equiv> stl_iface (\<lambda>i. i) Some sample_contents"
abbreviation stl_sel_sample :: "(nat, nat cpp_iterator, unit, bytes) hdql_CollectionAttrInterface" where
  "stl_sel_sample \<equiv> stl_sel_iface (\<lambda>i. i) Some even_traits sample_contents"

lemma sample_nonnull: "x \<in> set (sample_contents d) \<Longrightarrow> fst x \<noteq> None"
  by (auto simp: sample_contents_def split: if_splits)

lemma upto_3: "[0..<3] = [0, 1, 2::nat]"
  by (simp add: upt_rec)

text \<open>
  C8: A query on an STL container with a selection is handled as the selected elements, in order,
  each with the key its container position writes, and nothing else.
\<close>

theorem stl_selection_records:
  assumes "\<And>i. as_it (mk_it i) = Some i" "\<And>d x. x \<in> set (contents d) \<Longrightarrow> fst x \<noteq> None"
    and "traits_select traits contents P sel"
    and "qa_interface (q_ad q) = IfCollection (stl_sel_iface mk_it as_it traits contents)"
      "q_selectionArgs q = sel" "q_state q = None" "datum_key k" "no_oom c"
  shows "query_records [q] (Some d) (Some (list_key [k])) c =
    Some (map (\<lambda>(x, v). (the x, Some (list_key [key_fill v k])))
      (map ((!) (contents d)) (filter (P d) [0..<length (contents d)])))"
  by (rule container_records) (rule stl_sel_container, fact+)

lemma stl_selection_records_witness:
  "query_records [sample_query () stl_sel_sample] (Some 4) (Some (list_key [sample_key True])) ctx_roomy =
     Some [(40, Some (list_key [Key 5 KEY_PL_TYPE_PLAIN True (PlDatum 7 [0]) None])),
           (42, Some (list_key [Key 5 KEY_PL_TYPE_PLAIN True (PlDatum 7 [2]) None]))]"
proof -
  have "traits_select even_traits sample_contents (\<lambda>_. even) None"
    by (simp add: traits_select_def even_traits_def)
  then show ?thesis
    by (subst stl_selection_records [where mk_it = "\<lambda>i. i" and as_it = Some and contents = sample_contents and
          traits = even_traits and P = "\<lambda>_. even" and sel = None])
      (simp_all add: sample_nonnull sample_query_def sample_key_def ctx_roomy_def no_oom_def key_types
         sample_contents_def upto_3 key_fill_def)
qed

text \<open>
  C7: A query through two STL containers is handled depth first: the elements of the first
  element, then those of the second, and so on, each with the keys of both; an empty inner
  container contributes nothing.
\<close>

theorem stl_nested_records:
  assumes "\<And>i. as_it (mk_it i) = Some i"
    and "\<And>d x. x \<in> set (contents1 d) \<Longrightarrow> fst x \<noteq> None" "\<And>d x. x \<in> set (contents2 d) \<Longrightarrow> fst x \<noteq> None"
    and "qa_interface (q_ad q1) = IfCollection (stl_iface mk_it as_it contents1)"
      "q_selectionArgs q1 = None" "q_state q1 = None"
      "qa_interface (q_ad q2) = IfCollection (stl_iface mk_it as_it contents2)"
      "q_selectionArgs q2 = None" "q_state q2 = None"
    and "datum_key k1" "\<not> k_isTerminal k1" "datum_key k2" "no_oom c"
  shows "query_records [q1, q2] (Some d) (Some (list_key [k1, k2])) c =
    Some (concat (map (\<lambda>(x, v). map (\<lambda>(y, w). (the y, Some (list_key [key_fill v k1, key_fill w k2])))
        (contents2 (the x))) (contents1 d)))"
proof -
  have stl: "container_interface (stl_iface mk_it as_it contents1) mk_it contents1 (\<lambda>_ _. True) (\<lambda>_. True) None"
    "container_interface (stl_iface mk_it as_it contents2) mk_it contents2 (\<lambda>_ _. True) (\<lambda>_. True) None"
    by (rule stl_container, fact+)+
  show ?thesis
    unfolding container_nested_records [OF stl assms(10-13,4-9)] by (simp add: map_nth)
qed

lemma stl_nested_records_witness:
  "map_option (map fst) (query_records [sample_query () stl_sample, sample_query () (stl_iface (\<lambda>i. i) Some (\<lambda>d. if d = 41 then [] else sample_contents d))]
      (Some 4) (Some (list_key [sample_key False, sample_key True])) ctx_roomy) =
   Some [400, 401, 402, 420, 421, 422]"
  by (subst stl_nested_records [where mk_it = "\<lambda>i. i" and as_it = Some and ?contents1.0 = sample_contents and
        ?contents2.0 = "\<lambda>d. if d = 41 then [] else sample_contents d"])
    (auto simp: sample_nonnull sample_query_def sample_key_def ctx_roomy_def no_oom_def key_types
       sample_contents_def upto_3 split: if_splits)

text \<open>
  A query on an array is handled as all its elements, from the first to the last, each with its
  index in its key.
\<close>

theorem array_records:
  assumes "\<And>i. as_it (mk_it i) = Some i" "0 < n"
    and "qa_interface (q_ad q) = IfCollection (array_iface mk_it as_it n elem idx)"
      "q_selectionArgs q = None" "q_state q = None" "datum_key k" "no_oom c"
  shows "query_records [q] (Some d) (Some (list_key [k])) c =
    Some (map (\<lambda>j. (elem d j, Some (list_key [key_fill (idx j) k]))) [0..<n])"
proof -
  have array: "container_interface (array_iface mk_it as_it n elem idx) mk_it (array_contents n elem idx)
      (\<lambda>_ _. True) (\<lambda>_. True) None"
    by (rule array_container) fact+
  show ?thesis
    unfolding container_records [OF array assms(6,7,3-5)] by (simp add: array_contents_def map_nth)
qed

lemma array_records_witness:
  "query_records [sample_query () (array_iface (\<lambda>i. i) Some 3 (\<lambda>d j. 10 * d + j) (\<lambda>j. [of_nat j]))]
      (Some 4) (Some (list_key [sample_key True])) ctx_roomy =
   Some [(40, Some (list_key [Key 5 KEY_PL_TYPE_PLAIN True (PlDatum 7 [0]) None])),
         (41, Some (list_key [Key 5 KEY_PL_TYPE_PLAIN True (PlDatum 7 [1]) None])),
         (42, Some (list_key [Key 5 KEY_PL_TYPE_PLAIN True (PlDatum 7 [2]) None]))]"
  by (subst array_records [where mk_it = "\<lambda>i. i" and as_it = Some and n = 3 and elem = "\<lambda>d j. 10 * d + j"
        and idx = "\<lambda>j. [of_nat j]"])
    (simp_all add: sample_query_def sample_key_def ctx_roomy_def no_oom_def key_types upto_3 key_fill_def)

definition sample_handler :: "(nat, (nat \<times> bytes hdql_Key option) list) hdql_iQueryResultsHandler" where
  "sample_handler = \<lparr>qr_userdata = [], qr_handle_result_type = None, qr_handle_keys = None,
     qr_finalize_schema = None, qr_handle_record = Some collect\<rparr>"

definition sample_workspace ::
  "(nat, nat cpp_iterator, unit, (nat \<times> bytes hdql_Key option) list) hdql_QueryResultsWorkspace" where
  "sample_workspace = \<lparr>ws_addr = 3, ws_q = [sample_query () stl_sample], ws_iqr = sample_handler,
     ws_keys = Some (4, list_key [sample_key True]), ws_flatKeyViewLength = 1, ws_kv = None\<rparr>"

lemma process_records_complete_witness:
  "\<exists>ws' c'. hdql_query_results_process_records_from (Some 4) sample_workspace ctx_roomy =
     Some (HDQL_ERR_CODE_OK, ws', c') \<and> map fst (qr_userdata (ws_iqr ws')) = [40, 41, 42]"
proof -
  let ?L = "container_level stl_sample (\<lambda>i. i) sample_contents (\<lambda>_ _. True) (\<lambda>_. True) None"
  let ?ls = "[(?L, Some (sample_key True))]"
  have I: "container_interface stl_sample (\<lambda>i. i) sample_contents (\<lambda>_ _. True) (\<lambda>_. True) None"
    by (rule stl_container) (simp_all add: sample_nonnull)
  have k: "datum_key (sample_key True)" by (simp add: sample_key_def key_types)
  let ?f = "\<lambda>d k u. u @ [(d, k)]"
  have valid: "chain_valid no_oom ?ls (ws_q sample_workspace) [Some (sample_key True)]"
    using container_interface.klevel [OF I k] container_interface.fresh_query [OF I, of "sample_query () stl_sample"]
    by (simp add: chain_valid_def kshape_def sample_workspace_def sample_query_def)
  have keys: "keys_are (map_option snd (ws_keys sample_workspace)) [Some (sample_key True)]"
    by (simp add: sample_workspace_def list_key_facts(1) [of "[sample_key True]", simplified])
  have c: "no_oom ctx_roomy" by (simp add: ctx_roomy_def no_oom_def)
  have d: "Some 4 = None \<longrightarrow> lv_null (fst (hd ?ls))" by simp
  have h: "qr_handle_record (ws_iqr sample_workspace) = Some collect" "qr_userdata (ws_iqr sample_workspace) = []"
    by (simp_all add: sample_workspace_def sample_handler_def)
  have f: "map_option snd (collect d k u) = Some (?f d k u)" for d :: nat and k u by (simp add: collect_def)
  obtain ws' c' where r: "hdql_query_results_process_records_from (Some 4) sample_workspace ctx_roomy =
      Some (HDQL_ERR_CODE_OK, ws', c')"
    "qr_userdata (ws_iqr ws') = handle_all ?f
       (map (seen ?ls (map_option snd (ws_keys sample_workspace))) (chain_outs ?ls (Some 4))) []"
    using process_records_complete [where f = ?f, OF valid keys c d h(1) f] unfolding h(2) by blast
  have "map fst (qr_userdata (ws_iqr ws')) = [40, 41, 42]"
    unfolding r(2) collect_all by (simp add: chain_simps elements_def sample_contents_def upto_3)
  with r(1) show ?thesis by (intro exI conjI)
qed

end
