(* ===== verification/Compound.thy ===== *)
theory Compound
  imports AttrDef
begin

text \<open>
  Compound types (\<open>src/compound.cc\<close>): named attributes, with the attributes of a parent behind those
  of a virtual compound. The hash map of the attributes is the list of its entries in the order it
  is gone through; where a new entry goes is up to the hash map, and an argument of the insertion.
  A compound refers to its parent, which does not change while it is used.
\<close>

section \<open>Data and operations\<close>

datatype hdql_Compound = Compound
  (cp_addr: addr) (cp_name: bytes) (cp_parent: "hdql_Compound option") (cp_attrs: "(bytes \<times> hdql_AttrDef) list")

text \<open>\<open>new\<close> throws when there is no memory: no result.\<close>

definition hdql_compound_new :: "bytes \<Rightarrow> hdql_Context \<Rightarrow> (hdql_Compound \<times> hdql_Context) option" where
  "hdql_compound_new name c = (let (p, c) = ctx_alloc c in do { a \<leftarrow> p; Some (Compound a name None [], c) })"

definition hdql_virtual_compound_new :: "hdql_Compound \<Rightarrow> hdql_Context \<Rightarrow> (hdql_Compound \<times> hdql_Context) option" where
  "hdql_virtual_compound_new parent c = (let (p, c) = ctx_alloc c in do { a \<leftarrow> p; Some (Compound a [] (Some parent) [], c) })"

fun destroy_transient :: "(bytes \<times> hdql_AttrDef) list \<Rightarrow> hdql_Context \<Rightarrow> hdql_Context option" where
  "destroy_transient [] c = Some c"
| "destroy_transient ((n, ad) # as) c = do {
     c \<leftarrow> (if hdql_attr_def_is_transient ad then hdql_attr_def_destroy ad c else Some c);
     destroy_transient as c }"

definition hdql_virtual_compound_destroy :: "hdql_Compound \<Rightarrow> hdql_Context \<Rightarrow> hdql_Context option" where
  "hdql_virtual_compound_destroy cp c = do {
     c \<leftarrow> destroy_transient (cp_attrs cp) c;
     ctx_free (Some (cp_addr cp)) c }"

definition hdql_compound_is_virtual :: "hdql_Compound \<Rightarrow> int" where
  "hdql_compound_is_virtual cp = (if cp_parent cp = None then 0 else 2147483647)"

fun any_bound :: "(bytes \<times> hdql_AttrDef) list \<Rightarrow> bool option" where
  "any_bound [] = Some False"
| "any_bound ((n, ad) # as) = do { b \<leftarrow> hdql_attr_def_is_bound ad; if b then Some True else any_bound as }"

definition hdql_virtual_compound_is_bound :: "hdql_Compound \<Rightarrow> bool option" where
  "hdql_virtual_compound_is_bound cp = any_bound (cp_attrs cp)"

definition hdql_compound_is_same :: "hdql_Compound \<Rightarrow> hdql_Compound \<Rightarrow> bool" where
  "hdql_compound_is_same a b \<longleftrightarrow> cp_addr a = cp_addr b"

definition hdql_virtual_compound_get_parent :: "hdql_Compound \<Rightarrow> hdql_Compound option" where
  "hdql_virtual_compound_get_parent cp = cp_parent cp"

text \<open>The text \<open>(virtual)\<close>.\<close>

definition gVirtualCompoundName :: bytes where
  "gVirtualCompoundName = [40, 118, 105, 114, 116, 117, 97, 108, 41]"

definition hdql_compound_get_name :: "hdql_Compound \<Rightarrow> bytes" where
  "hdql_compound_get_name cp = (if cp_parent cp \<noteq> None then gVirtualCompoundName else cp_name cp)"

definition emplace :: "nat \<Rightarrow> bytes \<Rightarrow> hdql_AttrDef \<Rightarrow> (bytes \<times> hdql_AttrDef) list \<Rightarrow> (bytes \<times> hdql_AttrDef) list option" where
  "emplace pos n ad as = (if n \<in> fst ` set as then None else Some (take pos as @ (n, ad) # drop pos as))"

text \<open>The first byte of a string; \<open>'0'\<close>, the digit, is what the code compares it with.\<close>

definition first_char :: "bytes \<Rightarrow> byte" where
  "first_char s = (case s of [] \<Rightarrow> 0 | x # _ \<Rightarrow> x)"

definition hdql_compound_add_attr :: "nat \<Rightarrow> hdql_Compound \<Rightarrow> bytes option \<Rightarrow> hdql_AttrDef \<Rightarrow> int \<times> hdql_Compound" where
  "hdql_compound_add_attr pos cp attrName ad = (case attrName of
     None \<Rightarrow> (-11, cp)
   | Some n \<Rightarrow>
       if first_char n = 48 then (-11, cp)
       else case emplace pos n ad (cp_attrs cp) of
         None \<Rightarrow> (-1, cp)
       | Some as \<Rightarrow> (0, Compound (cp_addr cp) (cp_name cp) (cp_parent cp) as))"

fun hdql_compound_get_attr :: "hdql_Compound \<Rightarrow> bytes \<Rightarrow> hdql_AttrDef option" where
  "hdql_compound_get_attr (Compound a nm parent as) n = (case map_of as n of
     Some ad \<Rightarrow> Some ad
   | None \<Rightarrow> (case parent of None \<Rightarrow> None | Some p \<Rightarrow> hdql_compound_get_attr p n))"

definition hdql_compound_get_nattrs :: "hdql_Compound \<Rightarrow> nat" where
  "hdql_compound_get_nattrs cp = length (cp_attrs cp)"

fun hdql_compound_get_nattrs_recursive :: "hdql_Compound \<Rightarrow> nat" where
  "hdql_compound_get_nattrs_recursive (Compound a nm parent as) =
     length as + (case parent of None \<Rightarrow> 0 | Some p \<Rightarrow> hdql_compound_get_nattrs_recursive p)"

definition hdql_compound_get_attr_names :: "hdql_Compound \<Rightarrow> bytes list" where
  "hdql_compound_get_attr_names cp = map fst (cp_attrs cp)"

fun hdql_compound_get_attr_names_recursive :: "hdql_Compound \<Rightarrow> bytes list" where
  "hdql_compound_get_attr_names_recursive (Compound a nm parent as) =
     map fst as @ (case parent of None \<Rightarrow> [] | Some p \<Rightarrow> hdql_compound_get_attr_names_recursive p)"

fun free_attrs :: "(bytes \<times> hdql_AttrDef) list \<Rightarrow> hdql_Context \<Rightarrow> hdql_Context option" where
  "free_attrs [] c = Some c"
| "free_attrs ((n, ad) # as) c = do { c \<leftarrow> ctx_free (Some (ad_addr ad)) c; free_attrs as c }"

definition hdql_compound_destroy :: "hdql_Compound \<Rightarrow> hdql_Context \<Rightarrow> hdql_Context option" where
  "hdql_compound_destroy cp c = do { c \<leftarrow> free_attrs (cp_attrs cp) c; ctx_free (Some (cp_addr cp)) c }"

text \<open>
  \<open>hdql_compound_for_each_own_attribute\<close>. In spite of its name and of its description it calls back
  for the bound attributes only.
\<close>

fun for_each_name ::
  "hdql_Compound \<Rightarrow> (bytes \<Rightarrow> nat \<Rightarrow> hdql_AttrDef \<Rightarrow> 'u \<Rightarrow> (int \<times> 'u) option) option \<Rightarrow> bytes list \<Rightarrow> nat \<Rightarrow> 'u \<Rightarrow> (nat \<times> 'u) option"
where
  "for_each_name cp cllb [] nb u = Some (nb, u)"
| "for_each_name cp cllb (n # ns) nb u = do {
     ad \<leftarrow> hdql_compound_get_attr cp n;
     b \<leftarrow> hdql_attr_def_is_bound ad;
     if \<not> b then for_each_name cp cllb ns nb u
     else (case cllb of
         None \<Rightarrow> for_each_name cp cllb ns (Suc nb) u
       | Some f \<Rightarrow> do {
           (rc, u) \<leftarrow> f n (Suc nb) ad u;
           if rc \<noteq> 0 then Some (Suc nb, u) else for_each_name cp cllb ns (Suc nb) u }) }"

definition hdql_compound_for_each_own_attribute ::
  "hdql_Compound \<Rightarrow> (bytes \<Rightarrow> nat \<Rightarrow> hdql_AttrDef \<Rightarrow> 'u \<Rightarrow> (int \<times> 'u) option) option \<Rightarrow> 'u \<Rightarrow> (nat \<times> 'u) option"
where
  "hdql_compound_for_each_own_attribute cp cllb u = for_each_name cp cllb (hdql_compound_get_attr_names cp) 0 u"

section \<open>The text of a type\<close>

text \<open>
  \<open>strncat(buf, t, n)\<close> with what \<open>buf\<close> holds and its capacity; writing past the capacity is
  undefined. As \<open>strncat\<close> returns its first argument, \<open>_M_apps\<close> never moves \<open>buf\<close> nor lowers
  \<open>bufSize\<close>, which is the capacity throughout.
\<close>

definition strncat :: "nat \<Rightarrow> bytes \<Rightarrow> bytes \<Rightarrow> nat \<Rightarrow> bytes option" where
  "strncat cap s t n = (let r = s @ take n t in if length r < cap then Some r else None)"

fun append_names :: "nat \<Rightarrow> bool \<Rightarrow> bytes list \<Rightarrow> bytes \<Rightarrow> bytes option" where
  "append_names cap first [] s = Some s"
| "append_names cap first (n # ns) s = do {
     s \<leftarrow> (if first then Some s else strncat cap s [44, 32] cap);
     s \<leftarrow> strncat cap s n cap;
     append_names cap False ns s }"

fun type_str :: "nat \<Rightarrow> hdql_Compound \<Rightarrow> bytes \<Rightarrow> bytes option" where
  "type_str cap (Compound a nm parent as) s = do {
     s \<leftarrow> (case parent of
         None \<Rightarrow> strncat cap s nm cap
       | Some _ \<Rightarrow> do {
           s \<leftarrow> strncat cap s [123] cap;
           s \<leftarrow> append_names cap True (map fst as) s;
           strncat cap s [125, 45, 62] cap });
     (case parent of None \<Rightarrow> Some s | Some p \<Rightarrow> type_str cap p s) }"

definition hdql_compound_get_full_type_str :: "hdql_Compound \<Rightarrow> nat \<Rightarrow> bytes option" where
  "hdql_compound_get_full_type_str cp bufSize = do { c_assert (bufSize > 0); type_str bufSize cp [] }"

section \<open>Attributes\<close>

text \<open>The chain of a compound and its parents; each has every name once.\<close>

fun lineage :: "hdql_Compound \<Rightarrow> hdql_Compound list" where
  "lineage (Compound a nm parent as) =
     Compound a nm parent as # (case parent of None \<Rightarrow> [] | Some p \<Rightarrow> lineage p)"

definition compound_wf :: "hdql_Compound \<Rightarrow> bool" where
  "compound_wf cp \<longleftrightarrow> (\<forall>c \<in> set (lineage cp). distinct (map fst (cp_attrs c)))"

lemma lineage_self [simp]: "cp \<in> set (lineage cp)"
  by (cases cp) simp

text \<open>The nearest definition of a name is the one that is found.\<close>

lemma get_attr_nearest:
  "hdql_compound_get_attr cp n = map_of (concat (map cp_attrs (lineage cp))) n"
  by (induction cp n rule: hdql_compound_get_attr.induct)
    (auto simp: map_add_def split: option.split)

lemma names_recursive: "hdql_compound_get_attr_names_recursive cp = map fst (concat (map cp_attrs (lineage cp)))"
  by (induction cp rule: hdql_compound_get_attr_names_recursive.induct) (auto split: option.split)

lemma nattrs_recursive: "hdql_compound_get_nattrs_recursive cp = length (hdql_compound_get_attr_names_recursive cp)"
  by (induction cp rule: hdql_compound_get_attr_names_recursive.induct) (auto split: option.split)

lemma map_of_emplace:
  "n \<notin> fst ` set as \<Longrightarrow> map_of (take pos as @ (n, ad) # drop pos as) = (map_of as)(n \<mapsto> ad)"
proof -
  assume n: "n \<notin> fst ` set as"
  have "map_of as = map_of (drop pos as) ++ map_of (take pos as)"
    by (simp only: map_of_append [symmetric] append_take_drop_id)
  moreover have "n \<notin> dom (map_of (take pos as))"
    using n by (auto simp: dom_map_of_conv_image_fst dest: in_set_takeD)
  ultimately show ?thesis by (auto simp: map_add_def fun_eq_iff domIff split: option.split)
qed

text \<open>
  C17: Adding an attribute without a name or with one that starts with the digit 0 is refused with -11,
  with the name of an own attribute with -1, and nothing changes. With every other name, the empty one
  and those of the parents among them, it succeeds: the attribute is found under its name, every other
  name is found as before, in the compound or its parents, wherever the hash map put the entry, and the
  compound stays well formed.
\<close>

theorem compound_add_get:
  assumes "compound_wf cp" "hdql_compound_add_attr pos cp name ad = (rc, cp')"
  shows "compound_wf cp' \<and> (case name of
      None \<Rightarrow> rc = - 11 \<and> cp' = cp
    | Some n \<Rightarrow>
        if first_char n = 48 then rc = - 11 \<and> cp' = cp
        else if n \<in> set (hdql_compound_get_attr_names cp) then rc = - 1 \<and> cp' = cp
        else rc = 0 \<and> (\<forall>m. hdql_compound_get_attr cp' m = (if m = n then Some ad else hdql_compound_get_attr cp m)) \<and>
          hdql_compound_get_nattrs cp' = Suc (hdql_compound_get_nattrs cp))"
proof (cases "\<forall>n. name = Some n \<longrightarrow> first_char n = 48 \<or> n \<in> fst ` set (cp_attrs cp)")
  case True
  then show ?thesis
    using assms by (auto simp: hdql_compound_add_attr_def emplace_def hdql_compound_get_attr_names_def
      split: if_splits option.splits)
next
  case False0: False
  then obtain n where name: "name = Some n" and False: "\<not> (first_char n = 48 \<or> n \<in> fst ` set (cp_attrs cp))" by blast
  obtain a nm parent as where cp: "cp = Compound a nm parent as" by (cases cp)
  let ?as = "take pos as @ (n, ad) # drop pos as"
  have cp': "rc = 0" "cp' = Compound a nm parent ?as"
    using assms(2) False by (auto simp: hdql_compound_add_attr_def emplace_def cp name)
  have set: "set ?as = insert (n, ad) (set as)"
  proof -
    have "set (take pos as) \<union> set (drop pos as) = set as"
      by (simp only: set_append [symmetric] append_take_drop_id)
    then show ?thesis by simp
  qed
  have "distinct (map fst as)" "n \<notin> fst ` set as" using assms(1) False by (auto simp: compound_wf_def cp)
  moreover from this have "distinct (map fst (take pos as) @ map fst (drop pos as))"
    by (simp only: map_append [symmetric] append_take_drop_id)
  ultimately have "distinct (map fst ?as)" by (auto dest: in_set_takeD in_set_dropD)
  then have "compound_wf cp'" using assms(1) by (auto simp: compound_wf_def cp cp'(2) split: option.splits)
  moreover have "hdql_compound_get_attr cp' m = (if m = n then Some ad else hdql_compound_get_attr cp m)" for m
    using map_of_emplace [of n as pos ad] False by (auto simp: cp cp'(2) split: option.split)
  moreover have "first_char n \<noteq> 48" "n \<notin> set (hdql_compound_get_attr_names cp)"
    using False by (auto simp: hdql_compound_get_attr_names_def)
  ultimately show ?thesis by (simp add: name cp'(1)) (simp add: cp cp'(2) hdql_compound_get_nattrs_def)
qed

lemma compound_add_get_witness:
  "hdql_compound_add_attr 1 (Compound 3 [] (Some (Compound 2 [65] None [([97], ad_scalar_sample)])) [([98], ad_fwd_sample)])
       (Some [98]) ad_client_sample =
     (- 1, Compound 3 [] (Some (Compound 2 [65] None [([97], ad_scalar_sample)])) [([98], ad_fwd_sample)]) \<and>
   hdql_compound_get_attr (snd (hdql_compound_add_attr 1 (Compound 3 [] (Some (Compound 2 [65] None [([97], ad_scalar_sample)])) [([98], ad_fwd_sample)])
       (Some [97]) ad_client_sample)) [97] = Some ad_client_sample \<and>
   hdql_compound_get_attr (snd (hdql_compound_add_attr 1 (Compound 3 [] (Some (Compound 2 [65] None [([97], ad_scalar_sample)])) [([98], ad_fwd_sample)])
       (Some [99]) ad_client_sample)) [97] = Some ad_scalar_sample"
proof -
  let ?cp = "Compound 3 [] (Some (Compound 2 [65] None [([97], ad_scalar_sample)])) [([98], ad_fwd_sample)]"
  have wf: "compound_wf ?cp" by (simp add: compound_wf_def)
  obtain rc1 cp1 where 1: "hdql_compound_add_attr 1 ?cp (Some [97]) ad_client_sample = (rc1, cp1)" by force
  obtain rc2 cp2 where 2: "hdql_compound_add_attr 1 ?cp (Some [99]) ad_client_sample = (rc2, cp2)" by force
  obtain rc3 cp3 where 3: "hdql_compound_add_attr 1 ?cp (Some [98]) ad_client_sample = (rc3, cp3)" by force
  show ?thesis using compound_add_get [OF wf 1] compound_add_get [OF wf 2] compound_add_get [OF wf 3]
    unfolding 1 2 3 snd_conv by (simp add: first_char_def hdql_compound_get_attr_names_def)
qed

section \<open>Going through the bound attributes\<close>

text \<open>The attributes as the callbacks see them.\<close>

definition bound_attrs :: "hdql_Compound \<Rightarrow> (bytes \<times> hdql_AttrDef) list" where
  "bound_attrs cp = filter (\<lambda>(n, ad). hdql_attr_def_is_bound ad = Some True) (cp_attrs cp)"

text \<open>A callback that never stops the loop, as a fold.\<close>

fun fold_bound :: "(bytes \<Rightarrow> nat \<Rightarrow> hdql_AttrDef \<Rightarrow> 'u \<Rightarrow> 'u) \<Rightarrow> nat \<Rightarrow> (bytes \<times> hdql_AttrDef) list \<Rightarrow> 'u \<Rightarrow> 'u" where
  "fold_bound f nb [] u = u"
| "fold_bound f nb ((n, ad) # as) u = fold_bound f (Suc nb) as (f n (Suc nb) ad u)"

lemma for_each_bound:
  assumes "compound_wf cp" "\<forall>(n, ad) \<in> set (cp_attrs cp). hdql_attr_def_is_bound ad \<noteq> None"
    and "\<And>n nb ad u. cb n nb ad u = Some (0, f n nb ad u)"
  shows "hdql_compound_for_each_own_attribute cp (Some cb) u =
    Some (length (bound_attrs cp), fold_bound f 0 (bound_attrs cp) u)"
proof -
  obtain a nm parent as0 where cp: "cp = Compound a nm parent as0" by (cases cp)
  have d: "distinct (map fst as0)" using assms(1) by (simp add: compound_wf_def cp)
  have "for_each_name cp (Some cb) (map fst as) nb u =
      Some (nb + length (filter (\<lambda>(n, ad). hdql_attr_def_is_bound ad = Some True) as),
        fold_bound f nb (filter (\<lambda>(n, ad). hdql_attr_def_is_bound ad = Some True) as) u)"
    if "set as \<subseteq> set as0" for as nb u
    using that
  proof (induction as arbitrary: nb u)
    case (Cons x as)
    obtain n ad where x: "x = (n, ad)" by (cases x)
    have "map_of as0 n = Some ad" using Cons.prems d by (simp add: x)
    moreover obtain b where "hdql_attr_def_is_bound ad = Some b" using assms(2) Cons.prems by (auto simp: x cp)
    ultimately show ?case using Cons by (simp add: x cp assms(3))
  qed simp
  from this [OF subset_refl, of 0 u] show ?thesis
    by (simp add: hdql_compound_for_each_own_attribute_def hdql_compound_get_attr_names_def bound_attrs_def cp)
qed

lemma is_bound_some:
  "\<forall>(n, ad) \<in> set (cp_attrs cp). hdql_attr_def_is_bound ad \<noteq> None \<Longrightarrow>
   hdql_virtual_compound_is_bound cp = Some (bound_attrs cp \<noteq> [])"
proof -
  have "\<forall>(n, ad) \<in> set as. hdql_attr_def_is_bound ad \<noteq> None \<Longrightarrow>
      any_bound as = Some (filter (\<lambda>(n, ad). hdql_attr_def_is_bound ad = Some True) as \<noteq> [])" for as
  proof (induction as rule: any_bound.induct)
    case (2 n ad as)
    then obtain b where "hdql_attr_def_is_bound ad = Some b" by auto
    with 2 show ?case by (cases b) simp_all
  qed simp
  then show "\<forall>(n, ad) \<in> set (cp_attrs cp). hdql_attr_def_is_bound ad \<noteq> None \<Longrightarrow> ?thesis"
    by (simp add: hdql_virtual_compound_is_bound_def bound_attrs_def)
qed

section \<open>Life time\<close>

text \<open>A virtual compound owns its transient attributes, with all that is behind them.\<close>

definition virtual_blocks :: "hdql_Compound \<Rightarrow> addr list" where
  "virtual_blocks cp = concat (map (ad_blocks \<circ> snd) (filter (hdql_attr_def_is_transient \<circ> snd) (cp_attrs cp))) @ [cp_addr cp]"

lemma virtual_destroy_list:
  assumes "\<forall>(n, ad) \<in> set (cp_attrs cp). hdql_attr_def_is_transient ad \<longrightarrow> ad_ok ad"
  shows "hdql_virtual_compound_destroy cp c = cx.free_list (virtual_blocks cp) c"
proof -
  have "\<forall>(n, ad) \<in> set as. hdql_attr_def_is_transient ad \<longrightarrow> ad_ok ad \<Longrightarrow>
      destroy_transient as c = cx.free_list (concat (map (ad_blocks \<circ> snd) (filter (hdql_attr_def_is_transient \<circ> snd) as))) c" for as c
    by (induction as c rule: destroy_transient.induct)
      (auto simp: cx.free_list_append destroy_is_free_list(1) simp del: ad_blocks.simps hdql_attr_def_destroy.simps
         intro!: Option.bind_cong)
  with assms show ?thesis by (simp add: hdql_virtual_compound_destroy_def virtual_blocks_def cx.free_list_append)
qed

lemma virtual_destroy_exact:
  assumes "\<forall>(n, ad) \<in> set (cp_attrs cp). hdql_attr_def_is_transient ad \<longrightarrow> ad_ok ad"
    and "ctx_wf c" "distinct (virtual_blocks cp)" "set (virtual_blocks cp) \<subseteq> ctx_live c"
  shows "\<exists>c'. hdql_virtual_compound_destroy cp c = Some c' \<and> ctx_wf c' \<and> ctx_live c' = ctx_live c - set (virtual_blocks cp)"
  using cx.moved_free_list [OF assms(2,4,3) subset_refl] assms(4)
  by (auto simp: virtual_destroy_list [OF assms(1)] cx.moved_def)

section \<open>The text is never cut short\<close>

fun full_type :: "hdql_Compound \<Rightarrow> bytes" where
  "full_type (Compound a nm parent as) = (case parent of
     None \<Rightarrow> nm
   | Some p \<Rightarrow> [123] @ (case map fst as of [] \<Rightarrow> [] | n # ns \<Rightarrow> n @ concat (map (\<lambda>n. 44 # 32 # n) ns)) @ [125, 45, 62] @ full_type p)"

lemma strncat_full: "strncat cap s t cap = (if length (s @ t) < cap then Some (s @ t) else None)"
  by (auto simp: strncat_def Let_def)

lemma append_names_full:
  "append_names cap False ns s = (let r = s @ concat (map (\<lambda>n. 44 # 32 # n) ns) in
     if ns = [] \<or> length r < cap then Some r else None)"
proof (induction ns arbitrary: s)
  case (Cons n ns)
  then show ?case by (cases "length s + 2 + length n < cap") (auto simp: strncat_full Let_def)
qed simp

lemma type_str_full: "type_str cap cp s = (if length (s @ full_type cp) < cap then Some (s @ full_type cp) else None)"
proof (induction cp arbitrary: s rule: full_type.induct)
  case (1 a nm parent as)
  show ?case
  proof (cases parent)
    case None
    then show ?thesis by (simp add: strncat_full)
  next
    case (Some p)
    show ?thesis
    proof (cases "map fst as")
      case Nil
      then show ?thesis using 1 Some by (simp add: strncat_full)
    next
      case (Cons n ns)
      then show ?thesis using 1 Some by (simp add: Cons strncat_full append_names_full Let_def)
    qed
  qed
qed

text \<open>
  \<open>hdql_compound_get_full_type_str\<close> gives the whole text when it fits with its terminator, and
  otherwise writes past the end of the buffer: the size it is given bounds nothing.
\<close>

theorem full_type_str_unbounded:
  assumes "0 < bufSize"
  shows "hdql_compound_get_full_type_str cp bufSize = (if length (full_type cp) < bufSize then Some (full_type cp) else None)"
  using assms by (simp add: hdql_compound_get_full_type_str_def type_str_full)

lemma full_type_str_unbounded_witness:
  "hdql_compound_get_full_type_str (Compound 3 [] (Some (Compound 2 [65] None [])) [([98], ad_fwd_sample)]) 7 = Some [123, 98, 125, 45, 62, 65] \<and>
   hdql_compound_get_full_type_str (Compound 3 [] (Some (Compound 2 [65] None [])) [([98], ad_fwd_sample)]) 6 = None"
  by (simp add: full_type_str_unbounded)

end
