(* ===== verification/Products.thy ===== *)
theory Products
  imports Results
begin

text \<open>
  Products of queries, \<open>hdql_query_product_reset\<close> and \<open>hdql_query_product_advance\<close> of
  \<open>src/query.c\<close>: an odometer whose digits are query chains, the last one turning fastest. The
  arrays of queries and of values, of the same length, are one list of pairs; a position in them is
  the triple of the pairs before (nearest first), the pair and the pairs after it. The digits' keys are
  the items of the product's list key.
\<close>

section \<open>Reset and advance\<close>

type_synonym ('d, 's, 'a, 'v) product = "(('d, 's, 'a, 'v) hdql_Query list \<times> 'd option) list"

definition hdql__key_get_list_at :: "'v hdql_Key \<Rightarrow> nat \<Rightarrow> 'v key_pos option" where
  "hdql__key_get_list_at k n = do {
     ks \<leftarrow> pl_keys (k_pl k);
     x \<leftarrow> arr_get ks n;
     Some (rev (take n ks), x, drop (Suc n) ks) }"

fun hdql__query_product_reset ::
  "('d, 's, 'a, 'v) product \<Rightarrow> 'v key_pos option \<Rightarrow> 'd option \<Rightarrow> hdql_Context \<Rightarrow>
   (hdql_Err_t \<times> ('d, 's, 'a, 'v) product \<times> 'v key_pos option \<times> hdql_Context) option"
where
  "hdql__query_product_reset [] kz d c = Some (HDQL_ERR_CODE_OK, [], kz, c)"
| "hdql__query_product_reset ((q, v) # qs) kz d c = do {
     (r, q, k, c) \<leftarrow> hdql_query_reset q d (kz_cur kz) c;
     let kz = kz_put k kz;
     if r = None then Some (HDQL_ERR_EMPTY_SET, (q, None) # qs, kz, c)
     else do {
       kz \<leftarrow> (if qs \<noteq> [] then kz_next kz else Some kz);
       (rc, qs, kz, c) \<leftarrow> hdql__query_product_reset qs kz d c;
       Some (rc, (q, r) # qs, kz, c) } }"

definition hdql_query_product_reset ::
  "('d, 's, 'a, 'v) product \<Rightarrow> 'v hdql_Key option \<Rightarrow> 'd option \<Rightarrow> hdql_Context \<Rightarrow>
   (hdql_Err_t \<times> ('d, 's, 'a, 'v) product \<times> 'v hdql_Key option \<times> hdql_Context) option"
where
  "hdql_query_product_reset qs key d c = do {
     kz \<leftarrow> (case key of None \<Rightarrow> Some None | Some k \<Rightarrow> map_option Some (hdql__key_get_list_bgn k));
     (rc, qs, kz, c) \<leftarrow> hdql__query_product_reset qs kz d c;
     Some (rc, qs, key_with key kz, c) }"

fun pa_loop ::
  "('d, 's, 'a, 'v) product \<Rightarrow> ('d, 's, 'a, 'v) hdql_Query list \<times> 'd option \<Rightarrow> ('d, 's, 'a, 'v) product \<Rightarrow>
   'v key_pos option \<Rightarrow> 'd option \<Rightarrow> hdql_Context \<Rightarrow>
   (hdql_Err_t \<times> ('d, 's, 'a, 'v) product \<times> 'v key_pos option \<times> hdql_Context) option"
where
  "pa_loop ps x ns kz d c = do {
     (r, q, k, c) \<leftarrow> hdql_query_get (fst x) (kz_cur kz) c;
     let kz = kz_put k kz;
     if r \<noteq> None then
       if ns \<noteq> [] then do {
         kz \<leftarrow> kz_next kz;
         (rc, ns, kz, c) \<leftarrow> hdql__query_product_reset ns kz d c;
         Some (rc, rev ps @ (q, r) # ns, kz, c) }
       else Some (HDQL_ERR_CODE_OK, rev ps @ [(q, r)], kz, c)
     else case ps of
       [] \<Rightarrow> Some (HDQL_ERR_EMPTY_SET, (q, snd x) # ns, kz, c)
     | p # ps \<Rightarrow> do { kz \<leftarrow> kz_prev kz; pa_loop ps p ((q, snd x) # ns) kz d c } }"

declare pa_loop.simps [simp del]

definition hdql_query_product_advance ::
  "('d, 's, 'a, 'v) product \<Rightarrow> 'v hdql_Key option \<Rightarrow> 'd option \<Rightarrow> hdql_Context \<Rightarrow>
   (hdql_Err_t \<times> ('d, 's, 'a, 'v) product \<times> 'v hdql_Key option \<times> hdql_Context) option"
where
  "hdql_query_product_advance qs key d c =
     (if qs = [] then Some (HDQL_ERR_EMPTY_SET, qs, key, c)
      else do {
        kz \<leftarrow> (case key of None \<Rightarrow> Some None
              | Some k \<Rightarrow> map_option Some (hdql__key_get_list_at k (length qs - 1)));
        (rc, qs, kz, c) \<leftarrow> pa_loop (tl (rev qs)) (last qs) [] kz d c;
        Some (rc, qs, key_with key kz, c) })"

section \<open>The odometer\<close>

text \<open>
  A digit: its levels and first key, the output it shows (none once it is depleted) and the
  outputs after that one.
\<close>

type_synonym ('d, 's, 'a, 'v, 'e, 'h) digit =
  "('d, 's, 'a, 'v, 'e, 'h) klevel list \<times> 'v hdql_Key option \<times> ('d \<times> 'e list) option \<times> ('d \<times> 'e list) list"

abbreviation (input) dg_ls :: "('d, 's, 'a, 'v, 'e, 'h) digit \<Rightarrow> ('d, 's, 'a, 'v, 'e, 'h) klevel list" where "dg_ls \<equiv> fst"
abbreviation (input) dg_key :: "('d, 's, 'a, 'v, 'e, 'h) digit \<Rightarrow> 'v hdql_Key option" where "dg_key g \<equiv> fst (snd g)"
abbreviation (input) dg_cur :: "('d, 's, 'a, 'v, 'e, 'h) digit \<Rightarrow> ('d \<times> 'e list) option" where "dg_cur g \<equiv> fst (snd (snd g))"
abbreviation (input) dg_rem :: "('d, 's, 'a, 'v, 'e, 'h) digit \<Rightarrow> ('d \<times> 'e list) list" where "dg_rem g \<equiv> snd (snd (snd g))"

definition dg_outs :: "'d option \<Rightarrow> ('d, 's, 'a, 'v, 'e, 'h) digit \<Rightarrow> ('d \<times> 'e list) list" where
  "dg_outs d g = chain_outs (dg_ls g) d"

definition dg_start :: "'d option \<Rightarrow> ('d, 's, 'a, 'v, 'e, 'h) digit \<Rightarrow> ('d, 's, 'a, 'v, 'e, 'h) digit" where
  "dg_start d g = (dg_ls g, dg_key g, Some (hd (dg_outs d g)), tl (dg_outs d g))"

definition dg_spent :: "('d, 's, 'a, 'v, 'e, 'h) digit \<Rightarrow> ('d, 's, 'a, 'v, 'e, 'h) digit" where
  "dg_spent g = (dg_ls g, dg_key g, None, [])"

lemma dg_outs_simps [simp]:
  "dg_outs d (dg_start d' g) = dg_outs d g" "dg_outs d (dg_spent g) = dg_outs d g"
  by (simp_all add: dg_outs_def dg_start_def dg_spent_def)

text \<open>One step, from the digit at a position whose right neighbours are all depleted.\<close>

fun odo ::
  "'d option \<Rightarrow> ('d, 's, 'a, 'v, 'e, 'h) digit list \<Rightarrow> ('d, 's, 'a, 'v, 'e, 'h) digit \<Rightarrow>
   ('d, 's, 'a, 'v, 'e, 'h) digit list \<Rightarrow> ('d, 's, 'a, 'v, 'e, 'h) digit list option"
where
  "odo d ps (ls, k, cur, o1 # rem) ns = Some (rev ps @ (ls, k, Some o1, rem) # map (dg_start d) ns)"
| "odo d [] (ls, k, cur, []) ns = None"
| "odo d (p # ps) (ls, k, cur, []) ns = odo d ps p (dg_spent (ls, k, cur, []) # ns)"

text \<open>The tuples still to come, in lexicographic order.\<close>

fun prod_rest :: "'d option \<Rightarrow> ('d, 's, 'a, 'v, 'e, 'h) digit list \<Rightarrow> ('d \<times> 'e list) list list" where
  "prod_rest d [] = []"
| "prod_rest d (g # gs) = map ((#) (the (dg_cur g))) (prod_rest d gs) @
     concat (map (\<lambda>x. map ((#) x) (product_lists (map (dg_outs d) gs))) (dg_rem g))"

lemma prod_rest_spent: "\<forall>g \<in> set gs. dg_rem g = [] \<Longrightarrow> prod_rest d gs = []"
  by (induction gs) auto

lemma product_lists_start:
  "\<forall>g \<in> set gs. dg_outs d g \<noteq> [] \<Longrightarrow>
   product_lists (map (dg_outs d) gs) =
     map (the \<circ> dg_cur) (map (dg_start d) gs) # prod_rest d (map (dg_start d) gs)"
proof (induction gs)
  case (Cons g gs)
  then obtain x xs where "dg_outs d g = x # xs" by (cases "dg_outs d g") auto
  with Cons show ?case by (simp add: dg_start_def [of d g] o_def)
qed simp

lemma prod_rest_prefix:
  assumes "prod_rest d gs = t # prod_rest d gs'" "map (dg_outs d) gs' = map (dg_outs d) gs"
  shows "prod_rest d (as @ gs) = (map (the \<circ> dg_cur) as @ t) # prod_rest d (as @ gs')"
  using assms by (induction as) simp_all

lemma prod_rest_suffix:
  assumes "prod_rest d gs = prod_rest d gs'" "map (dg_outs d) gs' = map (dg_outs d) gs"
  shows "prod_rest d (as @ gs) = prod_rest d (as @ gs')"
  using assms by (induction as) simp_all

lemma odo_None: "\<forall>g \<in> set ns. dg_rem g = [] \<Longrightarrow> odo d ps g ns = None \<Longrightarrow> \<forall>g' \<in> set (g # ps). dg_rem g' = []"
  by (induction d ps g ns rule: odo.induct) (auto simp: dg_spent_def)

lemma odo_lexicographic:
  assumes "\<forall>g' \<in> set (rev ps @ g # ns). dg_outs d g' \<noteq> []" "\<forall>g' \<in> set ns. dg_rem g' = []"
  shows "prod_rest d (rev ps @ g # ns) =
    (case odo d ps g ns of None \<Rightarrow> [] | Some gs \<Rightarrow> map (the \<circ> dg_cur) gs # prod_rest d gs)"
  using assms
proof (induction d ps g ns rule: odo.induct)
  case (1 d ps ls k cur o1 rem ns)
  have outs: "map (dg_outs d) ((ls, k, Some o1, rem) # map (dg_start d) ns) =
      map (dg_outs d) ((ls, k, cur, o1 # rem) # ns)"
    by (simp add: dg_outs_def [of d "(ls, _)"])
  have "prod_rest d ((ls, k, cur, o1 # rem) # ns) =
      (o1 # map (the \<circ> dg_cur) (map (dg_start d) ns)) # prod_rest d ((ls, k, Some o1, rem) # map (dg_start d) ns)"
    using 1 product_lists_start [of ns d] prod_rest_spent [of ns d] by (simp add: o_def)
  from prod_rest_prefix [OF this outs] show ?case by simp
next
  case (3 d p ps ls k cur ns)
  have "prod_rest d ((ls, k, cur, []) # ns) = prod_rest d (dg_spent (ls, k, cur, []) # ns)"
    using 3(3) prod_rest_spent [of ns d] by (simp add: dg_spent_def)
  then have "prod_rest d ((rev ps @ [p]) @ (ls, k, cur, []) # ns) =
      prod_rest d ((rev ps @ [p]) @ dg_spent (ls, k, cur, []) # ns)"
    by (rule prod_rest_suffix) simp
  then show ?case using 3 by (simp add: dg_spent_def dg_outs_def [of d "(ls, _)"])
qed (simp add: prod_rest_spent)

section \<open>The product implements the odometer\<close>

text \<open>A chain between calls, with its key, seen as a digit; and one that may be reset.\<close>

definition digit_is ::
  "(hdql_Context \<Rightarrow> bool) \<Rightarrow> ('d, 's, 'a, 'v) hdql_Query list \<times> 'd option \<Rightarrow> 'v hdql_Key option \<Rightarrow>
   ('d, 's, 'a, 'v, 'e, 'h) digit \<Rightarrow> bool"
where
  "digit_is ok x k g \<longleftrightarrow> (\<exists>ks. chain_pending ok (dg_ls g) (fst x) ks (dg_rem g) \<and> keys_are k ks \<and> k = put_keys (dg_key g) ks \<and>
     (\<forall>o1. dg_cur g = Some o1 \<longrightarrow> snd x = Some (fst o1) \<and> ks = path_keys (dg_ls g) (snd o1)))"

definition digit_idle ::
  "(hdql_Context \<Rightarrow> bool) \<Rightarrow> ('d, 's, 'a, 'v) hdql_Query list \<times> 'd option \<Rightarrow> 'v hdql_Key option \<Rightarrow>
   ('d, 's, 'a, 'v, 'e, 'h) digit \<Rightarrow> bool"
where
  "digit_idle ok x k g \<longleftrightarrow> (\<exists>ks. chain_valid ok (dg_ls g) (fst x) ks \<and> keys_are k ks \<and> k = put_keys (dg_key g) ks)"

lemma digit_is_idle: "digit_is ok x k g \<Longrightarrow> digit_idle ok x k g'" if "dg_ls g' = dg_ls g" "dg_key g' = dg_key g"
  using that chain_pending_valid unfolding digit_is_def digit_idle_def by metis

definition dg_nonterm :: "('d, 's, 'a, 'v, 'e, 'h) digit \<Rightarrow> bool" where
  "dg_nonterm g \<longleftrightarrow> (\<forall>k0. dg_key g = Some k0 \<longrightarrow> \<not> k_isTerminal k0)"

lemma put_keys_terminal: "put_keys key ks = Some k \<Longrightarrow> \<exists>k0. key = Some k0 \<and> k_isTerminal k = k_isTerminal k0"
  by (cases key; (cases "the key")?) (auto simp: put_keys_def split: key_payload.splits)

lemma digit_nonterm: "digit_is ok x k g \<or> digit_idle ok x k g \<Longrightarrow> dg_nonterm g \<Longrightarrow> k = Some k1 \<Longrightarrow> \<not> k_isTerminal k1"
  unfolding digit_is_def digit_idle_def dg_nonterm_def using put_keys_terminal by metis

lemma digit_null: "digit_is ok x k g \<or> digit_idle ok x k g \<Longrightarrow> k = None \<longleftrightarrow> dg_key g = None"
  unfolding digit_is_def digit_idle_def by auto

lemma dg_nonterm_simps [simp]:
  "dg_nonterm (dg_start d g) = dg_nonterm g" "dg_nonterm (dg_spent g) = dg_nonterm g"
  by (simp_all add: dg_nonterm_def dg_start_def dg_spent_def)

lemma digit_start_idle: "digit_is ok x k (dg_start d g) \<Longrightarrow> digit_idle ok x k g"
  by (erule digit_is_idle [rotated 2]) (simp_all add: dg_start_def)

text \<open>A list of digits from some position to the end, and the list up to a position, backwards.\<close>

fun digits ::
  "(('d, 's, 'a, 'v) hdql_Query list \<times> 'd option \<Rightarrow> 'v hdql_Key option \<Rightarrow> ('d, 's, 'a, 'v, 'e, 'h) digit \<Rightarrow> bool) \<Rightarrow>
   ('d, 's, 'a, 'v) product \<Rightarrow> 'v hdql_Key option list \<Rightarrow> ('d, 's, 'a, 'v, 'e, 'h) digit list \<Rightarrow> bool"
where
  "digits R [] [] [] \<longleftrightarrow> True"
| "digits R (x # xs) (k # ks) (g # gs) \<longleftrightarrow> R x k g \<and> (gs \<noteq> [] \<longrightarrow> dg_nonterm g) \<and> digits R xs ks gs"
| "digits R _ _ _ \<longleftrightarrow> False"

fun digits_up ::
  "(hdql_Context \<Rightarrow> bool) \<Rightarrow> ('d, 's, 'a, 'v) product \<Rightarrow> 'v hdql_Key option list \<Rightarrow> ('d, 's, 'a, 'v, 'e, 'h) digit list \<Rightarrow> bool"
where
  "digits_up ok [] [] [] \<longleftrightarrow> True"
| "digits_up ok (x # xs) (k # ks) (g # gs) \<longleftrightarrow> digit_is ok x k g \<and> dg_nonterm g \<and> digits_up ok xs ks gs"
| "digits_up ok _ _ _ \<longleftrightarrow> False"

lemma digits_Cons: "digits R xs ks (g # gs) \<Longrightarrow> \<exists>x xs' k ks'. xs = x # xs' \<and> ks = k # ks'"
  by (cases xs; cases ks) auto

lemma digits_length: "digits R xs ks gs \<Longrightarrow> length xs = length gs \<and> length ks = length gs"
  by (induction R xs ks gs rule: digits.induct) auto

lemma digits_up_append:
  "digits_up ok ps kps us \<Longrightarrow> digits (digit_is ok) xs ks gs \<Longrightarrow> gs \<noteq> [] \<Longrightarrow>
   digits (digit_is ok) (rev ps @ xs) (rev kps @ ks) (rev us @ gs)"
  by (induction ok ps kps us arbitrary: xs ks gs rule: digits_up.induct) auto

lemma digits_up_snoc:
  "digits_up ok ps kps us \<Longrightarrow> digit_is ok x k g \<Longrightarrow> dg_nonterm g \<Longrightarrow> digits_up ok (ps @ [x]) (kps @ [k]) (us @ [g])"
  by (induction ok ps kps us rule: digits_up.induct) auto

lemma digits_last:
  "digits (digit_is ok) xs ks gs \<Longrightarrow> gs \<noteq> [] \<Longrightarrow>
   digit_is ok (last xs) (last ks) (last gs) \<and> digits_up ok (tl (rev xs)) (tl (rev ks)) (tl (rev gs))"
proof (induction gs arbitrary: xs ks)
  case (Cons g gs)
  obtain x xs' k ks' where e: "xs = x # xs'" "ks = k # ks'" using digits_Cons [OF Cons.prems(1)] by blast
  show ?case
  proof (cases "gs = []")
    case True
    then have "xs' = []" "ks' = []" using digits_length [OF Cons.prems(1)] by (auto simp: e)
    with Cons True show ?thesis by (auto simp: e)
  next
    case False
    have "xs' \<noteq> []" "ks' \<noteq> []" using False digits_length [OF Cons.prems(1)] by (auto simp: e)
    then show ?thesis
      using False Cons.IH [of xs' ks'] Cons.prems digits_up_snoc [of ok "tl (rev xs')" "tl (rev ks')" "tl (rev gs)" x k g]
      by (simp add: e tl_append2)
  qed
qed simp

text \<open>What reset and get do to one digit.\<close>

lemma digit_reset:
  assumes "digit_idle ok x k g" "ok c" "d = None \<longrightarrow> lv_null (fst (hd (dg_ls g)))"
  obtains r q k' c' where "hdql_query_reset (fst x) d k c = Some (r, q, k', c')" "ok c'"
    "k' = None \<longleftrightarrow> k = None"
    "case dg_outs d g of [] \<Rightarrow> r = None \<and> (\<forall>v. digit_idle ok (q, v) k' g)
     | o1 # rem \<Rightarrow> r \<noteq> None \<and> digit_is ok (q, r) k' (dg_start d g)"
proof -
  obtain ks where ks: "chain_valid ok (dg_ls g) (fst x) ks" "keys_are k ks" "k = put_keys (dg_key g) ks"
    using assms(1) by (auto simp: digit_idle_def)
  obtain r q k' c' ks' where r: "hdql_query_reset (fst x) d k c = Some (r, q, k', c')" "ok c'"
    "k' = put_keys k ks'" "keys_are k' ks'" "case dg_outs d g of
       [] \<Rightarrow> r = None \<and> chain_valid ok (dg_ls g) q ks'
     | (y, es) # outs \<Rightarrow> r = Some y \<and> ks' = path_keys (dg_ls g) es \<and> chain_pending ok (dg_ls g) q ks' outs"
    using chain_reset [OF ks(1,2) assms(2,3)] unfolding dg_outs_def by blast
  have k': "k' = put_keys (dg_key g) ks'" using r(3) ks(3) by simp
  show thesis
  proof (rule that [OF r(1,2)])
    show "case dg_outs d g of [] \<Rightarrow> r = None \<and> (\<forall>v. digit_idle ok (q, v) k' g)
      | o1 # rem \<Rightarrow> r \<noteq> None \<and> digit_is ok (q, r) k' (dg_start d g)"
    proof (cases "dg_outs d g")
      case Nil
      then show ?thesis using r(4,5) k' by (auto simp: digit_idle_def)
    next
      case (Cons o1 outs)
      then show ?thesis
        using r(4,5) k' by (auto simp: digit_is_def dg_start_def split: prod.splits)
    qed
  qed (simp add: r(3))
qed

lemma digit_get:
  assumes "digit_is ok x k g" "ok c"
  obtains r q k' c' where "hdql_query_get (fst x) k c = Some (r, q, k', c')" "ok c'" "k' = None \<longleftrightarrow> k = None"
    "case dg_rem g of [] \<Rightarrow> r = None \<and> (\<forall>v. digit_is ok (q, v) k' (dg_spent g))
     | o1 # rem \<Rightarrow> r \<noteq> None \<and> digit_is ok (q, r) k' (dg_ls g, dg_key g, Some o1, rem)"
proof -
  obtain ks where ks: "chain_pending ok (dg_ls g) (fst x) ks (dg_rem g)" "keys_are k ks" "k = put_keys (dg_key g) ks"
    using assms(1) by (auto simp: digit_is_def)
  obtain r q k' c' ks' where r: "hdql_query_get (fst x) k c = Some (r, q, k', c')" "ok c'"
    "k' = put_keys k ks'" "keys_are k' ks'" "case dg_rem g of
       [] \<Rightarrow> r = None \<and> chain_pending ok (dg_ls g) q ks' []
     | (y, es) # outs \<Rightarrow> r = Some y \<and> ks' = path_keys (dg_ls g) es \<and> chain_pending ok (dg_ls g) q ks' outs"
    using chain_get [OF ks(1,2) assms(2)] by blast
  have k': "k' = put_keys (dg_key g) ks'" using r(3) ks(3) by simp
  show thesis
  proof (rule that [OF r(1,2)])
    show "case dg_rem g of [] \<Rightarrow> r = None \<and> (\<forall>v. digit_is ok (q, v) k' (dg_spent g))
      | o1 # rem \<Rightarrow> r \<noteq> None \<and> digit_is ok (q, r) k' (dg_ls g, dg_key g, Some o1, rem)"
    proof (cases "dg_rem g")
      case Nil
      then show ?thesis using r(4,5) k' by (auto simp: digit_is_def dg_spent_def)
    next
      case (Cons o1 outs)
      then show ?thesis using r(4,5) k' by (auto simp: digit_is_def split: prod.splits)
    qed
  qed (simp add: r(3))
qed

text \<open>The owner a product is reset on.\<close>

definition owner_ok :: "'d option \<Rightarrow> ('d, 's, 'a, 'v, 'e, 'h) digit list \<Rightarrow> bool" where
  "owner_ok d gs \<longleftrightarrow> (\<forall>g \<in> set gs. d = None \<longrightarrow> lv_null (fst (hd (dg_ls g))))"

lemma product_reset_correct:
  assumes "digits (digit_idle ok) xs (k # kns) gs" "kz_is kz kps k kns" "ok c" "owner_ok d gs"
  shows "\<exists>rc xs' kz' c' kps' k' kns'. hdql__query_product_reset xs kz d c = Some (rc, xs', kz', c') \<and> ok c' \<and>
    kz_is kz' kps' k' kns' \<and> length xs' = length xs \<and> (\<exists>ks'. rev kps' @ k' # kns' = rev kps @ ks' \<and>
    (if \<forall>g \<in> set gs. dg_outs d g \<noteq> [] then rc = HDQL_ERR_CODE_OK \<and> digits (digit_is ok) xs' ks' (map (dg_start d) gs)
     else rc = HDQL_ERR_EMPTY_SET \<and> digits (digit_idle ok) xs' ks' gs))"
  using assms
proof (induction gs arbitrary: xs k kns kz kps c)
  case (Cons g gs)
  obtain x xs1 where xs: "xs = x # xs1" using digits_Cons [OF Cons.prems(1)] by blast
  have g: "digit_idle ok x k g" "gs \<noteq> [] \<longrightarrow> dg_nonterm g" "digits (digit_idle ok) xs1 kns gs"
    using Cons.prems(1) by (auto simp: xs)
  have d: "d = None \<longrightarrow> lv_null (fst (hd (dg_ls g)))" using Cons.prems(4) by (simp add: owner_ok_def)
  obtain r q k' c1 where r: "hdql_query_reset (fst x) d k c = Some (r, q, k', c1)" "ok c1" "k' = None \<longleftrightarrow> k = None"
    "case dg_outs d g of [] \<Rightarrow> r = None \<and> (\<forall>v. digit_idle ok (q, v) k' g)
     | o1 # rem \<Rightarrow> r \<noteq> None \<and> digit_is ok (q, r) k' (dg_start d g)"
    by (rule digit_reset [OF g(1) Cons.prems(3) d]) (rule that)
  have kz1: "kz_is (kz_put k' kz) kps k' kns" by (rule kz_put_is [OF Cons.prems(2) r(3)])
  show ?case
  proof (cases "dg_outs d g")
    case Nil
    then have "hdql__query_product_reset xs kz d c = Some (HDQL_ERR_EMPTY_SET, (q, None) # xs1, kz_put k' kz, c1)"
      using r(1,4) by (cases x) (auto simp: xs kz_cur_is [OF Cons.prems(2)] Let_def)
    moreover have "if \<forall>g \<in> set (g # gs). dg_outs d g \<noteq> []
      then HDQL_ERR_EMPTY_SET = HDQL_ERR_CODE_OK \<and> digits (digit_is ok) ((q, None) # xs1) (k' # kns) (map (dg_start d) (g # gs))
      else HDQL_ERR_EMPTY_SET = HDQL_ERR_EMPTY_SET \<and> digits (digit_idle ok) ((q, None) # xs1) (k' # kns) (g # gs)"
      using g(2,3) r(4) Nil by auto
    moreover have "length ((q, None) # xs1) = length xs" by (simp add: xs)
    ultimately show ?thesis using r(2) kz1 by (intro exI conjI) (assumption | rule refl)+
  next
    case (Cons o1 rem)
    then have o1: "r \<noteq> None" "digit_is ok (q, r) k' (dg_start d g)" using r(4) by auto
    show ?thesis
    proof (cases "gs = []")
      case True
      then have e: "xs1 = []" "kns = []" using digits_length [OF g(3)] by auto
      have "hdql__query_product_reset xs kz d c = Some (HDQL_ERR_CODE_OK, [(q, r)], kz_put k' kz, c1)"
        using r(1) o1(1) e by (cases x) (auto simp: xs kz_cur_is [OF Cons.prems(2)] Let_def)
      moreover have "if \<forall>g \<in> set (g # gs). dg_outs d g \<noteq> []
        then HDQL_ERR_CODE_OK = HDQL_ERR_CODE_OK \<and> digits (digit_is ok) [(q, r)] (k' # kns) (map (dg_start d) (g # gs))
        else HDQL_ERR_CODE_OK = HDQL_ERR_EMPTY_SET \<and> digits (digit_idle ok) [(q, r)] (k' # kns) (g # gs)"
        using o1(2) e True Cons by auto
      moreover have "length [(q, r)] = length xs" by (simp add: xs e)
      ultimately show ?thesis using r(2) kz1 by (intro exI conjI) (assumption | rule refl)+
    next
      case False
      then have e: "xs1 \<noteq> []" "kns \<noteq> []" using digits_length [OF g(3)] by auto
      then obtain kn kns1 where kns: "kns = kn # kns1" by (cases kns) auto
      have nt: "\<not> k_isTerminal k0" if "k' = Some k0" for k0
        using digit_nonterm [of ok "(q, r)" k' "dg_start d g"] o1(2) g(2) False that by auto
      obtain kz2 where kz2: "kz_next (kz_put k' kz) = Some kz2" "kz_is kz2 (k' # kps) kn kns1"
        using kz_next_is [OF kz1 [unfolded kns]] nt by blast
      have own: "owner_ok d gs" using Cons.prems(4) by (simp add: owner_ok_def)
      from Cons.IH [OF g(3) [unfolded kns] kz2(2) r(2) own] obtain rc xs' kz' c' kps' k2 kns' ks' where ih:
        "hdql__query_product_reset xs1 kz2 d c1 = Some (rc, xs', kz', c')" "ok c'" "kz_is kz' kps' k2 kns'"
        "length xs' = length xs1" "rev kps' @ k2 # kns' = rev (k' # kps) @ ks'"
        "if \<forall>g \<in> set gs. dg_outs d g \<noteq> [] then rc = HDQL_ERR_CODE_OK \<and> digits (digit_is ok) xs' ks' (map (dg_start d) gs)
         else rc = HDQL_ERR_EMPTY_SET \<and> digits (digit_idle ok) xs' ks' gs"
        by blast
      have "hdql__query_product_reset xs kz d c = Some (rc, (q, r) # xs', kz', c')"
        using r(1) o1(1) e(1) kz2(1) ih(1) by (cases x) (auto simp: xs kz_cur_is [OF Cons.prems(2)] Let_def)
      moreover have "if \<forall>g \<in> set (g # gs). dg_outs d g \<noteq> []
         then rc = HDQL_ERR_CODE_OK \<and> digits (digit_is ok) ((q, r) # xs') (k' # ks') (map (dg_start d) (g # gs))
         else rc = HDQL_ERR_EMPTY_SET \<and> digits (digit_idle ok) ((q, r) # xs') (k' # ks') (g # gs)"
        using ih(6) o1(2) g(2) Cons digit_start_idle [OF o1(2)] by (auto split: if_splits)
      moreover have "length ((q, r) # xs') = length xs" using ih(4) by (simp add: xs)
      moreover have "rev kps' @ k2 # kns' = rev kps @ (k' # ks')" using ih(5) by simp
      ultimately show ?thesis using ih(2,3) by (intro exI conjI) assumption+
    qed
  qed
qed simp

lemma digits_idle_of: "digits (digit_is ok) xs ks gs \<Longrightarrow> digits (digit_idle ok) xs ks gs"
proof (induction gs arbitrary: xs ks)
  case (Cons g gs)
  then obtain x xs' k ks' where "xs = x # xs'" "ks = k # ks'" using digits_Cons by blast
  with Cons show ?case using digit_is_idle [of g g] by auto
qed (auto elim: digits.elims)

lemma dg_spent_spent [simp]: "dg_spent (dg_spent g) = dg_spent g"
  by (simp add: dg_spent_def)

lemma dg_spent_rem [simp]: "dg_rem (dg_spent g) = []"
  by (simp add: dg_spent_def)

lemma odo_yields: "dg_rem g = o1 # rem \<Longrightarrow> odo d us g gs = Some (rev us @ (dg_ls g, dg_key g, Some o1, rem) # map (dg_start d) gs)"
  by (cases g) simp

lemma odo_up: "dg_rem g = [] \<Longrightarrow> odo d (u # us) g gs = odo d us u (dg_spent g # gs)"
  by (cases g) simp

lemma odo_end: "dg_rem g = [] \<Longrightarrow> odo d [] g gs = None"
  by (cases g) simp

text \<open>The digit at the position yields, and the ones after it are reset.\<close>

lemma pa_yields:
  assumes up: "digits_up ok ps kps us" and g: "digit_is ok x k g" "gs \<noteq> [] \<longrightarrow> dg_nonterm g" "digits (digit_is ok) ns kns gs"
    and kz: "kz_is kz kps k kns" and c: "ok c" and own: "owner_ok d gs" and outs: "\<forall>g' \<in> set gs. dg_outs d g' \<noteq> []"
    and rem: "dg_rem g = o1 # rem"
  shows "\<exists>xs' kz' c' kps' k' kns'. pa_loop ps x ns kz d c = Some (HDQL_ERR_CODE_OK, xs', kz', c') \<and> ok c' \<and>
    kz_is kz' kps' k' kns' \<and>
    digits (digit_is ok) xs' (rev kps' @ k' # kns') (rev us @ (dg_ls g, dg_key g, Some o1, rem) # map (dg_start d) gs)"
proof -
  obtain r q k' c1 where r: "hdql_query_get (fst x) k c = Some (r, q, k', c1)" "ok c1" "k' = None \<longleftrightarrow> k = None"
    "r \<noteq> None" "digit_is ok (q, r) k' (dg_ls g, dg_key g, Some o1, rem)"
    by (rule digit_get [OF g(1) c]) (simp add: rem)
  let ?g = "(dg_ls g, dg_key g, Some o1, rem)"
  have kz1: "kz_is (kz_put k' kz) kps k' kns" by (rule kz_put_is [OF kz r(3)])
  have nt: "gs \<noteq> [] \<Longrightarrow> dg_nonterm ?g" using g(2) by (simp add: dg_nonterm_def)
  show ?thesis
  proof (cases "gs = []")
    case True
    then have e: "ns = []" "kns = []" using digits_length [OF g(3)] by auto
    have "pa_loop ps x ns kz d c = Some (HDQL_ERR_CODE_OK, rev ps @ [(q, r)], kz_put k' kz, c1)"
      using r(1,4) e by (subst pa_loop.simps) (auto simp: kz_cur_is [OF kz] Let_def)
    moreover have "digits (digit_is ok) (rev ps @ [(q, r)]) (rev kps @ k' # kns) (rev us @ ?g # map (dg_start d) gs)"
      using digits_up_append [OF up, of "[(q, r)]" "[k']" "[?g]"] r(5) e True by simp
    ultimately show ?thesis using r(2) kz1 by (intro exI conjI) assumption+
  next
    case False
    then have e: "ns \<noteq> []" "kns \<noteq> []" using digits_length [OF g(3)] by auto
    then obtain kn kns1 where kns: "kns = kn # kns1" by (cases kns) auto
    have ntk: "\<not> k_isTerminal k0" if "k' = Some k0" for k0
      using digit_nonterm [of ok "(q, r)" k' ?g] r(5) nt [OF False] that by auto
    obtain kz2 where kz2: "kz_next (kz_put k' kz) = Some kz2" "kz_is kz2 (k' # kps) kn kns1"
      using kz_next_is [OF kz1 [unfolded kns]] ntk by blast
    obtain rc xs' kz' c' kps' k2 kns' ks' where z: "hdql__query_product_reset ns kz2 d c1 = Some (rc, xs', kz', c')"
      "ok c'" "kz_is kz' kps' k2 kns'" "rev kps' @ k2 # kns' = rev (k' # kps) @ ks'"
      "rc = HDQL_ERR_CODE_OK" "digits (digit_is ok) xs' ks' (map (dg_start d) gs)"
      using product_reset_correct [OF digits_idle_of [OF g(3) [unfolded kns]] kz2(2) r(2) own] outs by auto
    have "pa_loop ps x ns kz d c = Some (HDQL_ERR_CODE_OK, rev ps @ (q, r) # xs', kz', c')"
      using r(1,4) e kz2(1) z(1,5) by (subst pa_loop.simps) (auto simp: kz_cur_is [OF kz] Let_def)
    moreover have "digits (digit_is ok) (rev ps @ (q, r) # xs') (rev kps' @ k2 # kns') (rev us @ ?g # map (dg_start d) gs)"
      using digits_up_append [OF up, of "(q, r) # xs'" "k' # ks'" "?g # map (dg_start d) gs"] r(5) nt z(6) z(4)
      by simp
    ultimately show ?thesis using z(2,3) by (intro exI conjI) assumption+
  qed
qed

lemma pa_loop_correct:
  assumes "digits_up ok ps kps us" "digit_is ok x k g" "gs \<noteq> [] \<longrightarrow> dg_nonterm g" "digits (digit_is ok) ns kns gs"
    "\<forall>g' \<in> set gs. dg_spent g' = g'" "kz_is kz kps k kns" "ok c" "owner_ok d (us @ g # gs)"
    "\<forall>g' \<in> set (us @ g # gs). dg_outs d g' \<noteq> []"
  shows "\<exists>rc xs' kz' c' kps' k' kns'. pa_loop ps x ns kz d c = Some (rc, xs', kz', c') \<and> ok c' \<and>
    kz_is kz' kps' k' kns' \<and>
    rc = (if odo d us g gs = None then HDQL_ERR_EMPTY_SET else HDQL_ERR_CODE_OK) \<and>
    digits (digit_is ok) xs' (rev kps' @ k' # kns')
      (case odo d us g gs of None \<Rightarrow> map dg_spent (rev us @ g # gs) | Some gs' \<Rightarrow> gs')"
  using assms
proof (induction us arbitrary: ps kps x k g ns kns gs kz c)
  case (Nil ps kps x k g ns kns gs kz c)
  have e: "ps = []" "kps = []" using Nil(1) by (cases ps; cases kps; simp)+
  show ?case
  proof (cases "dg_rem g")
    case rem: Nil
    obtain r q k' c1 where r: "hdql_query_get (fst x) k c = Some (r, q, k', c1)" "ok c1" "k' = None \<longleftrightarrow> k = None"
      "r = None" "digit_is ok (q, snd x) k' (dg_spent g)"
      by (rule digit_get [OF Nil(2,7)]) (simp add: rem)
    have "pa_loop ps x ns kz d c = Some (HDQL_ERR_EMPTY_SET, (q, snd x) # ns, kz_put k' kz, c1)"
      using r(1,4) by (subst pa_loop.simps) (simp add: e kz_cur_is [OF Nil(6)] Let_def)
    moreover have "digits (digit_is ok) ((q, snd x) # ns) (rev kps @ k' # kns) (map dg_spent (rev [] @ g # gs))"
      using r(5) Nil(3-5) by (simp add: e map_idI)
    moreover have "kz_is (kz_put k' kz) kps k' kns" by (rule kz_put_is [OF Nil(6) r(3)])
    ultimately show ?thesis
      unfolding odo_end [OF rem] using r(2) by (intro exI conjI) (assumption | simp)+
  next
    case (Cons o1 rem)
    have "owner_ok d gs" "\<forall>g' \<in> set gs. dg_outs d g' \<noteq> []" using Nil(8,9) by (simp_all add: owner_ok_def)
    from pa_yields [OF Nil(1-4,6,7) this Cons] obtain xs' kz' c' kps' k' kns' where
      "pa_loop ps x ns kz d c = Some (HDQL_ERR_CODE_OK, xs', kz', c')" "ok c'" "kz_is kz' kps' k' kns'"
      "digits (digit_is ok) xs' (rev kps' @ k' # kns')
         (rev [] @ (dg_ls g, dg_key g, Some o1, rem) # map (dg_start d) gs)" by blast
    then show ?thesis unfolding odo_yields [OF Cons] by (intro exI conjI) (assumption | simp)+
  qed
next
  case (Cons u us)
  show ?case
  proof (cases "dg_rem g")
    case rem: Nil
    obtain p ps1 kp kps1 where e: "ps = p # ps1" "kps = kp # kps1" using Cons.prems(1) by (cases ps; cases kps) auto
    have u: "digit_is ok p kp u" "dg_nonterm u" "digits_up ok ps1 kps1 us" using Cons.prems(1) by (simp_all add: e)
    obtain r q k' c1 where r: "hdql_query_get (fst x) k c = Some (r, q, k', c1)" "ok c1" "k' = None \<longleftrightarrow> k = None"
      "r = None" "digit_is ok (q, snd x) k' (dg_spent g)"
      by (rule digit_get [OF Cons.prems(2,7)]) (simp add: rem)
    obtain kz2 where kz2: "kz_prev (kz_put k' kz) = Some kz2" "kz_is kz2 kps1 kp (k' # kns)"
      using kz_prev_is [OF kz_put_is [OF Cons.prems(6) r(3), unfolded e]] by blast
    have loop: "pa_loop ps x ns kz d c = pa_loop ps1 p ((q, snd x) # ns) kz2 d c1"
      using r(1,4) kz2(1) by (subst pa_loop.simps) (simp add: e kz_cur_is [OF Cons.prems(6)] Let_def)
    have ih: "digits (digit_is ok) ((q, snd x) # ns) (k' # kns) (dg_spent g # gs)" using r(5) Cons.prems(3,4) by simp
    have eq: "map dg_spent (rev (u # us) @ g # gs) = map dg_spent (rev us @ u # dg_spent g # gs)" by simp
    have own: "owner_ok d (us @ u # dg_spent g # gs)" using Cons.prems(8) by (simp add: owner_ok_def dg_spent_def)
    show ?thesis
      unfolding loop odo_up [OF rem] eq
      by (rule Cons.IH [OF u(3,1) _ ih _ kz2(2) r(2) own]) (use u(2) Cons.prems(5,9) in simp_all)
  next
    case (Cons o1 rem)
    have "owner_ok d gs" "\<forall>g' \<in> set gs. dg_outs d g' \<noteq> []" using Cons.prems(8,9) by (simp_all add: owner_ok_def)
    from pa_yields [OF Cons.prems(1-4,6,7) this Cons] obtain xs' kz' c' kps' k' kns' where
      "pa_loop ps x ns kz d c = Some (HDQL_ERR_CODE_OK, xs', kz', c')" "ok c'" "kz_is kz' kps' k' kns'"
      "digits (digit_is ok) xs' (rev kps' @ k' # kns')
         (rev (u # us) @ (dg_ls g, dg_key g, Some o1, rem) # map (dg_start d) gs)" by blast
    then show ?thesis unfolding odo_yields [OF Cons] by (intro exI conjI) (assumption | simp)+
  qed
qed

section \<open>The calls of a client\<close>

definition product_is ::
  "(('d, 's, 'a, 'v) hdql_Query list \<times> 'd option \<Rightarrow> 'v hdql_Key option \<Rightarrow> ('d, 's, 'a, 'v, 'e, 'h) digit \<Rightarrow> bool) \<Rightarrow>
   'v hdql_Key option \<Rightarrow> ('d, 's, 'a, 'v) product \<Rightarrow> ('d, 's, 'a, 'v, 'e, 'h) digit list \<Rightarrow> bool"
where
  "product_is R key qs gs \<longleftrightarrow> (\<exists>ks. keys_are key ks \<and> digits R qs ks gs)"

text \<open>The key with a tuple of outputs in it.\<close>

definition product_key ::
  "'v hdql_Key option \<Rightarrow> ('d, 's, 'a, 'v, 'e, 'h) digit list \<Rightarrow> ('d \<times> 'e list) list \<Rightarrow> 'v hdql_Key option" where
  "product_key key gs t = put_keys key (map2 (\<lambda>g o1. put_keys (dg_key g) (path_keys (dg_ls g) (snd o1))) gs t)"

lemma kz_is_hd: "kz_is kz kps k kns \<Longrightarrow> kz = None \<longleftrightarrow> hd (rev kps @ k # kns) = None"
proof (cases kz)
  case None
  moreover assume "kz_is kz kps k kns"
  moreover have "hd (rev kps @ k # kns) \<in> set (kps @ k # kns)" by (cases "rev kps") (auto simp: hd_append)
  ultimately show ?thesis by (auto simp: kz_is_def)
next
  case (Some p)
  moreover assume "kz_is kz kps k kns"
  ultimately show ?thesis by (cases p) (auto simp: kz_is_def rev_map hd_append hd_map)
qed

lemma keys_are_hd: "keys_are key ks \<Longrightarrow> ks \<noteq> [] \<Longrightarrow> key = None \<longleftrightarrow> hd ks = None"
  by (rule keys_are_null) (auto intro: hd_in_set)

lemma tl_rev_butlast: "xs \<noteq> [] \<Longrightarrow> rev (tl (rev xs)) = butlast xs" "xs \<noteq> [] \<Longrightarrow> tl (rev xs) = rev (butlast xs)"
  by (metis append_butlast_last_id butlast_rev rev_rev_ident rev_swap)+

lemma digits_hd:
  "digits (digit_is ok) xs ks gs \<or> digits (digit_idle ok) xs ks gs \<Longrightarrow> gs \<noteq> [] \<Longrightarrow> hd ks = None \<longleftrightarrow> dg_key (hd gs) = None"
proof (cases gs)
  case (Cons g gs')
  assume "digits (digit_is ok) xs ks gs \<or> digits (digit_idle ok) xs ks gs"
  then obtain x xs' k ks' where "xs = x # xs'" "ks = k # ks'" unfolding Cons using digits_Cons by blast
  then show ?thesis
    using \<open>digits (digit_is ok) xs ks gs \<or> digits (digit_idle ok) xs ks gs\<close> digit_null [of ok x k g] by (auto simp: Cons)
qed simp

text \<open>Writing the keys back when the digits' keys are the ones they had.\<close>

lemma product_close:
  assumes "keys_are key ks" "digits (digit_is ok) xs ks gs \<or> digits (digit_idle ok) xs ks gs"
    and "kz_is kz kps k kns"
    and "digits (digit_is ok) xs' (rev kps @ k # kns) gs' \<or> digits (digit_idle ok) xs' (rev kps @ k # kns) gs'"
    and "map dg_key gs' = map dg_key gs" "gs \<noteq> []"
  shows "key_with key kz = put_keys key (rev kps @ k # kns)"
    and "keys_are (key_with key kz) (rev kps @ k # kns)"
proof -
  have "ks \<noteq> []" using assms(2,6) digits_length [of _ xs ks gs] by fastforce
  have gs': "gs' \<noteq> []" "dg_key (hd gs') = dg_key (hd gs)" using assms(5,6) by (cases gs; cases gs'; simp)+
  have "key = None \<longleftrightarrow> kz = None"
    using keys_are_hd [OF assms(1) \<open>ks \<noteq> []\<close>] digits_hd [OF assms(2,6)] digits_hd [OF assms(4) gs'(1)]
      kz_is_hd [OF assms(3)] gs'(2) by simp
  note close = keys_are_close [OF assms(1,3) this]
  show "key_with key kz = put_keys key (rev kps @ k # kns)" by (rule close(1))
  show "keys_are (key_with key kz) (rev kps @ k # kns)" unfolding close(1) by (rule close(2))
qed

lemma product_reset:
  assumes "product_is (digit_idle ok) key qs gs" "gs \<noteq> []" "ok c" "owner_ok d gs"
  obtains rc qs' key' c' where "hdql_query_product_reset qs key d c = Some (rc, qs', key', c')" "ok c'"
    "\<And>ks. put_keys key' ks = put_keys key ks"
    "if \<forall>g \<in> set gs. dg_outs d g \<noteq> [] then rc = HDQL_ERR_CODE_OK \<and> product_is (digit_is ok) key' qs' (map (dg_start d) gs)
     else rc = HDQL_ERR_EMPTY_SET \<and> product_is (digit_idle ok) key' qs' gs"
proof -
  obtain k kns where p: "keys_are key (k # kns)" "digits (digit_idle ok) qs (k # kns) gs"
  proof -
    obtain ks where ks: "keys_are key ks" "digits (digit_idle ok) qs ks gs" using assms(1) by (auto simp: product_is_def)
    then have "ks \<noteq> []" using assms(2) digits_length [OF ks(2)] by auto
    then show thesis using that ks by (cases ks) auto
  qed
  obtain kz where kz: "(case key of None \<Rightarrow> Some None | Some k \<Rightarrow> map_option Some (hdql__key_get_list_bgn k)) = Some kz"
    "kz_is kz [] k kns" by (rule keys_are_open [OF p(1)]) (rule that)
  obtain rc xs' kz' c' kps' k' kns' where r: "hdql__query_product_reset qs kz d c = Some (rc, xs', kz', c')" "ok c'"
    "kz_is kz' kps' k' kns'"
    "if \<forall>g \<in> set gs. dg_outs d g \<noteq> [] then rc = HDQL_ERR_CODE_OK \<and> digits (digit_is ok) xs' (rev kps' @ k' # kns') (map (dg_start d) gs)
     else rc = HDQL_ERR_EMPTY_SET \<and> digits (digit_idle ok) xs' (rev kps' @ k' # kns') gs"
    using product_reset_correct [OF p(2) kz(2) assms(3,4)] by auto
  define gs' where "gs' = (if \<forall>g \<in> set gs. dg_outs d g \<noteq> [] then map (dg_start d) gs else gs)"
  have gs': "digits (digit_is ok) xs' (rev kps' @ k' # kns') gs' \<or> digits (digit_idle ok) xs' (rev kps' @ k' # kns') gs'"
    "map dg_key gs' = map dg_key gs"
    using r(4) by (auto simp: gs'_def dg_start_def split: if_splits)
  note close = product_close [OF p(1) disjI2 [OF p(2)] r(3) gs' assms(2)]
  show thesis
  proof (rule that [of rc xs' "key_with key kz'" c'])
    show "hdql_query_product_reset qs key d c = Some (rc, xs', key_with key kz', c')"
      by (simp add: hdql_query_product_reset_def kz(1) r(1))
    show "if \<forall>g \<in> set gs. dg_outs d g \<noteq> []
      then rc = HDQL_ERR_CODE_OK \<and> product_is (digit_is ok) (key_with key kz') xs' (map (dg_start d) gs)
      else rc = HDQL_ERR_EMPTY_SET \<and> product_is (digit_idle ok) (key_with key kz') xs' gs"
    proof (cases "\<forall>g \<in> set gs. dg_outs d g \<noteq> []")
      case True
      show ?thesis using r(4) close(2) unfolding product_is_def if_P [OF True] by blast
    next
      case False
      show ?thesis using r(4) close(2) unfolding product_is_def if_not_P [OF False] by blast
    qed
  qed (simp_all add: close(1) r(2))
qed

lemma keys_are_at:
  assumes "keys_are key ks" "ks \<noteq> []"
  obtains kz where "(case key of None \<Rightarrow> Some None | Some k \<Rightarrow> map_option Some (hdql__key_get_list_at k (length ks - 1))) = Some kz"
    "kz_is kz (tl (rev ks)) (last ks) []"
proof (cases key)
  case None
  with that [of None] assms show thesis
    by (auto simp: keys_are_def kz_is_def tl_rev_butlast(2) dest: in_set_butlastD)
next
  case (Some k0)
  then obtain a kl where k0: "k_pl k0 = PlKeys a kl" "ks = map Some kl" using assms by (auto simp: keys_are_def)
  then have "kl \<noteq> []" using assms(2) by simp
  then have "rev (take (length kl - 1) kl) = tl (rev kl)" "kl ! (length kl - 1) = last kl"
    by (simp_all only: butlast_conv_take [symmetric] last_conv_nth tl_rev_butlast not_False_eq_True)
  with Some k0 \<open>kl \<noteq> []\<close> show thesis
    by (intro that [of "Some (tl (rev kl), last kl, [])"])
      (auto simp: hdql__key_get_list_at_def kz_is_def map_tl rev_map last_map)
qed

lemma odo_keys: "odo d us g gs = Some gs' \<Longrightarrow> map dg_key gs' = map dg_key (rev us @ g # gs) \<and> map dg_ls gs' = map dg_ls (rev us @ g # gs)"
  by (induction d us g gs rule: odo.induct) (auto simp: dg_start_def dg_spent_def)

lemma product_advance:
  assumes "product_is (digit_is ok) key qs gs" "gs \<noteq> []" "ok c" "owner_ok d gs" "\<forall>g \<in> set gs. dg_outs d g \<noteq> []"
  obtains rc qs' key' c' where "hdql_query_product_advance qs key d c = Some (rc, qs', key', c')" "ok c'"
    "\<And>ks. put_keys key' ks = put_keys key ks"
    "case odo d (tl (rev gs)) (last gs) [] of
       None \<Rightarrow> rc = HDQL_ERR_EMPTY_SET \<and> product_is (digit_is ok) key' qs' (map dg_spent gs)
     | Some gs' \<Rightarrow> rc = HDQL_ERR_CODE_OK \<and> product_is (digit_is ok) key' qs' gs'"
proof -
  obtain ks where p: "keys_are key ks" "digits (digit_is ok) qs ks gs" using assms(1) by (auto simp: product_is_def)
  have len: "length qs = length gs" "length ks = length gs" using digits_length [OF p(2)] by auto
  then have ne: "qs \<noteq> []" "ks \<noteq> []" using assms(2) by auto
  have split: "rev (tl (rev gs)) @ [last gs] = gs" using assms(2) by (simp add: tl_rev_butlast(1))
  have sets: "set (tl (rev gs) @ last gs # []) = set gs"
    using arg_cong [OF split, of set] by simp
  obtain kz where kz: "(case key of None \<Rightarrow> Some None | Some k \<Rightarrow> map_option Some (hdql__key_get_list_at k (length ks - 1))) = Some kz"
    "kz_is kz (tl (rev ks)) (last ks) []" by (rule keys_are_at [OF p(1) ne(2)]) (rule that)
  have l: "digit_is ok (last qs) (last ks) (last gs)" "digits_up ok (tl (rev qs)) (tl (rev ks)) (tl (rev gs))"
    using digits_last [OF p(2) assms(2)] by blast+
  have own: "owner_ok d (tl (rev gs) @ [last gs])" using assms(4) unfolding owner_ok_def sets .
  have outs: "\<forall>g' \<in> set (tl (rev gs) @ [last gs]). dg_outs d g' \<noteq> []" using assms(5) unfolding sets .
  have nil: "digits (digit_is ok) [] [] []" by simp
  obtain rc xs' kz' c' kps' k' kns' where r: "pa_loop (tl (rev qs)) (last qs) [] kz d c = Some (rc, xs', kz', c')" "ok c'"
    "kz_is kz' kps' k' kns'"
    "rc = (if odo d (tl (rev gs)) (last gs) [] = None then HDQL_ERR_EMPTY_SET else HDQL_ERR_CODE_OK)"
    "digits (digit_is ok) xs' (rev kps' @ k' # kns')
      (case odo d (tl (rev gs)) (last gs) [] of None \<Rightarrow> map dg_spent gs | Some gs' \<Rightarrow> gs')"
    using pa_loop_correct [OF l(2,1) _ nil _ kz(2) assms(3) own outs] unfolding split by auto
  let ?gs' = "case odo d (tl (rev gs)) (last gs) [] of None \<Rightarrow> map dg_spent gs | Some gs' \<Rightarrow> gs'"
  have keys: "map dg_key ?gs' = map dg_key gs"
    using odo_keys [of d "tl (rev gs)" "last gs" "[]"] unfolding split by (auto simp: dg_spent_def split: option.split)
  note close = product_close [OF p(1) disjI1 [OF p(2)] r(3) disjI1 [OF r(5)] keys assms(2)]
  show thesis
  proof (rule that [of rc xs' "key_with key kz'" c'])
    show "hdql_query_product_advance qs key d c = Some (rc, xs', key_with key kz', c')"
      using ne kz(1) unfolding hdql_query_product_advance_def len by (simp add: r(1))
    show "case odo d (tl (rev gs)) (last gs) [] of
        None \<Rightarrow> rc = HDQL_ERR_EMPTY_SET \<and> product_is (digit_is ok) (key_with key kz') xs' (map dg_spent gs)
      | Some gs' \<Rightarrow> rc = HDQL_ERR_CODE_OK \<and> product_is (digit_is ok) (key_with key kz') xs' gs'"
      using r(4,5) close(2) by (auto simp: product_is_def split: option.splits)
  qed (simp_all add: close(1) r(2))
qed

section \<open>All tuples\<close>

text \<open>A client's loop over a product: the values and the key, as they are after each call that succeeded.\<close>

partial_function (option) product_loop ::
  "hdql_Err_t \<Rightarrow> ('d, 's, 'a, 'v) product \<Rightarrow> 'v hdql_Key option \<Rightarrow> 'd option \<Rightarrow> hdql_Context \<Rightarrow>
   ('d option list \<times> 'v hdql_Key option) list \<Rightarrow> ('d option list \<times> 'v hdql_Key option) list option"
where
  "product_loop rc qs key d c acc =
     (if rc \<noteq> HDQL_ERR_CODE_OK then Some acc
      else Option.bind (hdql_query_product_advance qs key d c) (\<lambda>(rc', qs', key', c').
        product_loop rc' qs' key' d c' (acc @ [(map snd qs, key)])))"

definition product_tuples ::
  "('d, 's, 'a, 'v) product \<Rightarrow> 'v hdql_Key option \<Rightarrow> 'd option \<Rightarrow> hdql_Context \<Rightarrow>
   ('d option list \<times> 'v hdql_Key option) list option" where
  "product_tuples qs key d c = do {
     (rc, qs, key, c) \<leftarrow> hdql_query_product_reset qs key d c;
     product_loop rc qs key d c [] }"

definition tuple_seen ::
  "'v hdql_Key option \<Rightarrow> ('d, 's, 'a, 'v, 'e, 'h) digit list \<Rightarrow> ('d \<times> 'e list) list \<Rightarrow> 'd option list \<times> 'v hdql_Key option" where
  "tuple_seen key gs t = (map (Some \<circ> fst) t, product_key key gs t)"

lemma put_keys_self: "keys_are key ks \<Longrightarrow> put_keys key ks = key"
proof (cases key)
  case (Some k)
  assume "keys_are key ks"
  with Some show ?thesis by (cases k) (auto simp: put_keys_def keys_are_def o_def)
qed (simp add: put_keys_def)

lemma digits_shown:
  "digits (digit_is ok) qs ks gs \<Longrightarrow> \<forall>g \<in> set gs. dg_cur g \<noteq> None \<Longrightarrow>
   map snd qs = map (Some \<circ> fst) (map (the \<circ> dg_cur) gs) \<and>
   ks = map2 (\<lambda>g o1. put_keys (dg_key g) (path_keys (dg_ls g) (snd o1))) gs (map (the \<circ> dg_cur) gs)"
proof (induction gs arbitrary: qs ks)
  case (Cons g gs)
  then obtain x xs' k ks' where e: "qs = x # xs'" "ks = k # ks'" using digits_Cons by blast
  from Cons.prems(2) obtain y es where o1: "dg_cur g = Some (y, es)" by auto
  have "digit_is ok x k g" "digits (digit_is ok) xs' ks' gs" using Cons.prems(1) by (simp_all add: e)
  moreover from this(1) o1 have "snd x = Some y" "k = put_keys (dg_key g) (path_keys (dg_ls g) es)"
    by (auto simp: digit_is_def)
  ultimately show ?case using Cons.IH [of xs' ks'] Cons.prems(2) o1 by (simp add: e)
qed (auto elim: digits.elims)

lemma product_shown:
  assumes "product_is (digit_is ok) key qs gs" "\<forall>g \<in> set gs. dg_cur g \<noteq> None"
  shows "(map snd qs, key) = tuple_seen key gs (map (the \<circ> dg_cur) gs)"
proof -
  obtain ks where ks: "keys_are key ks" "digits (digit_is ok) qs ks gs" using assms(1) by (auto simp: product_is_def)
  show ?thesis
    using digits_shown [OF ks(2) assms(2)] put_keys_self [OF ks(1)] by (simp add: tuple_seen_def product_key_def)
qed

lemma map2_dg_cong:
  "map dg_key gs' = map dg_key gs \<Longrightarrow> map dg_ls gs' = map dg_ls gs \<Longrightarrow>
   map2 (\<lambda>g o1. put_keys (dg_key g) (path_keys (dg_ls g) (snd o1))) gs' t =
   map2 (\<lambda>g o1. put_keys (dg_key g) (path_keys (dg_ls g) (snd o1))) gs t"
proof (induction gs arbitrary: gs' t)
  case (Cons g gs)
  from Cons.prems obtain g' gs'' where e: "gs' = g' # gs''" by (cases gs') auto
  have p: "map dg_key gs'' = map dg_key gs" "map dg_ls gs'' = map dg_ls gs" "dg_key g' = dg_key g" "dg_ls g' = dg_ls g"
    using Cons.prems by (simp_all add: e)
  show ?case by (cases t) (simp_all add: e p(3,4) Cons.IH [OF p(1,2)])
qed simp

lemma tuple_seen_cong:
  "map dg_key gs' = map dg_key gs \<Longrightarrow> map dg_ls gs' = map dg_ls gs \<Longrightarrow> (\<And>ks. put_keys key' ks = put_keys key ks) \<Longrightarrow>
   tuple_seen key' gs' = tuple_seen key gs"
  unfolding tuple_seen_def product_key_def by (rule ext) (simp only: map2_dg_cong [of gs' gs])

lemma odo_cur: "\<forall>g' \<in> set us. dg_cur g' \<noteq> None \<Longrightarrow> odo d us g gs = Some gs' \<Longrightarrow> \<forall>g' \<in> set gs'. dg_cur g' \<noteq> None"
  by (induction d us g gs rule: odo.induct) (auto simp: dg_start_def iff del: not_None_eq)

lemma all_of_map: "map f gs' = map f gs \<Longrightarrow> (\<forall>g \<in> set gs. P (f g)) \<Longrightarrow> (\<forall>g \<in> set gs'. P (f g))"
  by (metis (mono_tags, lifting) imageE image_eqI list.set_map)

text \<open>A product that shows the tuple \<open>t\<close>, with the tuples \<open>ts\<close> to come.\<close>

definition product_run ::
  "(hdql_Context \<Rightarrow> bool) \<Rightarrow> 'd option \<Rightarrow> 'v hdql_Key option \<Rightarrow> ('d, 's, 'a, 'v, 'e, 'h) digit list \<Rightarrow>
   'v hdql_Key option \<Rightarrow> ('d, 's, 'a, 'v) product \<Rightarrow> ('d \<times> 'e list) list \<Rightarrow> ('d \<times> 'e list) list list \<Rightarrow> bool"
where
  "product_run ok d key0 gs0 key qs t ts \<longleftrightarrow> (\<exists>gs. product_is (digit_is ok) key qs gs \<and> gs \<noteq> [] \<and> owner_ok d gs \<and>
     (\<forall>g \<in> set gs. dg_outs d g \<noteq> []) \<and> (\<forall>g \<in> set gs. dg_cur g \<noteq> None) \<and>
     map dg_key gs = map dg_key gs0 \<and> map dg_ls gs = map dg_ls gs0 \<and> (\<forall>ks. put_keys key ks = put_keys key0 ks) \<and>
     t = map (the \<circ> dg_cur) gs \<and> ts = prod_rest d gs)"

lemma run_seen: "product_run ok d key0 gs0 key qs t ts \<Longrightarrow> (map snd qs, key) = tuple_seen key0 gs0 t"
proof -
  assume "product_run ok d key0 gs0 key qs t ts"
  then obtain gs where gs: "product_is (digit_is ok) key qs gs" "\<forall>g \<in> set gs. dg_cur g \<noteq> None"
    "map dg_key gs = map dg_key gs0" "map dg_ls gs = map dg_ls gs0" "\<forall>ks. put_keys key ks = put_keys key0 ks"
    "t = map (the \<circ> dg_cur) gs"
    unfolding product_run_def by blast
  have "tuple_seen key gs = tuple_seen key0 gs0" by (rule tuple_seen_cong [OF gs(3,4)]) (simp add: gs(5))
  with product_shown [OF gs(1,2)] show ?thesis by (simp add: gs(6))
qed

lemma run_step:
  assumes "product_run ok d key0 gs0 key qs t ts" "ok c"
  shows "\<exists>rc qs' key' c'. hdql_query_product_advance qs key d c = Some (rc, qs', key', c') \<and> ok c' \<and>
    (case ts of [] \<Rightarrow> rc = HDQL_ERR_EMPTY_SET
     | t' # ts' \<Rightarrow> rc = HDQL_ERR_CODE_OK \<and> product_run ok d key0 gs0 key' qs' t' ts')"
proof -
  obtain gs where gs: "product_is (digit_is ok) key qs gs" "gs \<noteq> []" "owner_ok d gs" "\<forall>g \<in> set gs. dg_outs d g \<noteq> []"
    "\<forall>g \<in> set gs. dg_cur g \<noteq> None" "map dg_key gs = map dg_key gs0" "map dg_ls gs = map dg_ls gs0"
    "\<forall>ks. put_keys key ks = put_keys key0 ks" "ts = prod_rest d gs"
    using assms(1) unfolding product_run_def by blast
  let ?odo = "odo d (tl (rev gs)) (last gs) []"
  have split: "rev (tl (rev gs)) @ [last gs] = gs" using gs(2) by (simp add: tl_rev_butlast(1))
  have rest: "ts = (case ?odo of None \<Rightarrow> [] | Some gs \<Rightarrow> map (the \<circ> dg_cur) gs # prod_rest d gs)"
    using odo_lexicographic [of "tl (rev gs)" "last gs" "[]" d] gs(4) unfolding split gs(9) by simp
  obtain rc qs' key' c' where a: "hdql_query_product_advance qs key d c = Some (rc, qs', key', c')" "ok c'"
    "\<And>ks. put_keys key' ks = put_keys key ks"
    "case ?odo of None \<Rightarrow> rc = HDQL_ERR_EMPTY_SET \<and> product_is (digit_is ok) key' qs' (map dg_spent gs)
     | Some gs' \<Rightarrow> rc = HDQL_ERR_CODE_OK \<and> product_is (digit_is ok) key' qs' gs'"
    by (rule product_advance [OF gs(1,2) assms(2) gs(3,4)]) (rule that)
  have "case ts of [] \<Rightarrow> rc = HDQL_ERR_EMPTY_SET
     | t' # ts' \<Rightarrow> rc = HDQL_ERR_CODE_OK \<and> product_run ok d key0 gs0 key' qs' t' ts'"
  proof (cases ?odo)
    case None
    then show ?thesis using a(4) rest by simp
  next
    case (Some gs')
    have keys: "map dg_key gs' = map dg_key gs" "map dg_ls gs' = map dg_ls gs"
      using odo_keys [OF Some] unfolding split by blast+
    have gs': "gs' \<noteq> []" "owner_ok d gs'" "\<forall>g \<in> set gs'. dg_outs d g \<noteq> []"
      using keys(1) gs(2) all_of_map [OF keys(2), of "\<lambda>ls. d = None \<longrightarrow> lv_null (fst (hd ls))"] gs(3,4)
        all_of_map [OF keys(2), of "\<lambda>ls. chain_outs ls d \<noteq> []"] by (auto simp: owner_ok_def dg_outs_def)
    have cur: "\<forall>g \<in> set gs'. dg_cur g \<noteq> None"
    proof (rule odo_cur [OF _ Some], rule ballI)
      fix g assume "g \<in> set (tl (rev gs))"
      then have "g \<in> set gs" using gs(2) by (simp add: tl_rev_butlast(2)) (rule in_set_butlastD)
      then show "dg_cur g \<noteq> None" using gs(5) by blast
    qed
    have "product_run ok d key0 gs0 key' qs' (map (the \<circ> dg_cur) gs') (prod_rest d gs')"
      unfolding product_run_def using a(4) gs' cur keys gs(6-8) a(3) Some by (intro exI [of _ gs']) simp
    then show ?thesis using a(4) rest Some by simp
  qed
  with a(1,2) show ?thesis by blast
qed

lemma run_start:
  assumes "product_is (digit_idle ok) key qs gs" "gs \<noteq> []" "ok c" "owner_ok d gs"
  shows "\<exists>rc qs' key' c'. hdql_query_product_reset qs key d c = Some (rc, qs', key', c') \<and> ok c' \<and>
    (case product_lists (map (dg_outs d) gs) of [] \<Rightarrow> rc = HDQL_ERR_EMPTY_SET
     | t' # ts' \<Rightarrow> rc = HDQL_ERR_CODE_OK \<and> product_run ok d key gs key' qs' t' ts')"
proof -
  obtain rc qs' key' c' where r: "hdql_query_product_reset qs key d c = Some (rc, qs', key', c')" "ok c'"
    "\<And>ks. put_keys key' ks = put_keys key ks"
    "if \<forall>g \<in> set gs. dg_outs d g \<noteq> [] then rc = HDQL_ERR_CODE_OK \<and> product_is (digit_is ok) key' qs' (map (dg_start d) gs)
     else rc = HDQL_ERR_EMPTY_SET \<and> product_is (digit_idle ok) key' qs' gs"
    by (rule product_reset [OF assms]) (rule that)
  have "case product_lists (map (dg_outs d) gs) of [] \<Rightarrow> rc = HDQL_ERR_EMPTY_SET
     | t' # ts' \<Rightarrow> rc = HDQL_ERR_CODE_OK \<and> product_run ok d key gs key' qs' t' ts'"
  proof (cases "\<forall>g \<in> set gs. dg_outs d g \<noteq> []")
    case True
    then have s: "rc = HDQL_ERR_CODE_OK" "product_is (digit_is ok) key' qs' (map (dg_start d) gs)"
      using r(4) unfolding if_P [OF True] by blast+
    have "product_run ok d key gs key' qs' (map (the \<circ> dg_cur) (map (dg_start d) gs)) (prod_rest d (map (dg_start d) gs))"
      unfolding product_run_def using s(2) assms(2,4) True r(3)
      by (intro exI [of _ "map (dg_start d) gs"]) (auto simp: owner_ok_def dg_start_def dg_outs_def)
    then show ?thesis by (simp add: product_lists_start [OF True] s(1))
  next
    case False
    then have "rc = HDQL_ERR_EMPTY_SET" using r(4) unfolding if_not_P [OF False] by blast
    moreover have "product_lists (map (dg_outs d) gs) = []" using False by (induction gs) auto
    ultimately show ?thesis by simp
  qed
  with r(1,2) show ?thesis by blast
qed

lemma product_loop_end: "product_loop HDQL_ERR_EMPTY_SET qs key d c acc = Some acc"
  by (subst product_loop.simps) (simp add: err_codes)

lemma product_loop_correct:
  "product_run ok d key0 gs0 key qs t ts \<Longrightarrow> ok c \<Longrightarrow>
   product_loop HDQL_ERR_CODE_OK qs key d c acc = Some (acc @ map (tuple_seen key0 gs0) (t # ts))"
proof (induction ts arbitrary: key qs t c acc)
  case Nil
  then obtain qs' key' c' where a: "hdql_query_product_advance qs key d c = Some (HDQL_ERR_EMPTY_SET, qs', key', c')"
    using run_step [OF Nil] by auto
  show ?case
    by (subst product_loop.simps) (simp add: a run_seen [OF Nil(1)] product_loop_end)
next
  case (Cons t' ts)
  then obtain qs' key' c' where a: "hdql_query_product_advance qs key d c = Some (HDQL_ERR_CODE_OK, qs', key', c')"
    "ok c'" "product_run ok d key0 gs0 key' qs' t' ts"
    using run_step [OF Cons.prems] by auto
  show ?case
    by (subst product_loop.simps) (simp add: a(1) run_seen [OF Cons.prems(1)] Cons.IH [OF a(3,2)])
qed

text \<open>
  C3: A product of queries goes through all tuples of their outputs in lexicographic order, the
  last query turning fastest, with the values and the key of each tuple, and then ends; it is
  empty when one of the queries is.
\<close>

theorem product_enumerates:
  assumes "product_is (digit_idle ok) key qs gs" "gs \<noteq> []" "ok c" "owner_ok d gs"
  shows "product_tuples qs key d c = Some (map (tuple_seen key gs) (product_lists (map (dg_outs d) gs)))"
proof -
  obtain rc qs' key' c' where r: "hdql_query_product_reset qs key d c = Some (rc, qs', key', c')" "ok c'"
    "case product_lists (map (dg_outs d) gs) of [] \<Rightarrow> rc = HDQL_ERR_EMPTY_SET
     | t' # ts' \<Rightarrow> rc = HDQL_ERR_CODE_OK \<and> product_run ok d key gs key' qs' t' ts'"
    using run_start [OF assms] by blast
  show ?thesis
  proof (cases "product_lists (map (dg_outs d) gs)")
    case Nil
    with r show ?thesis by (simp add: product_tuples_def product_loop_end)
  next
    case (Cons t ts)
    with r product_loop_correct [of ok d key gs key' qs' t ts c' "[]"] show ?thesis by (simp add: product_tuples_def)
  qed
qed

text \<open>Two queries on the same owner, the numbers in it.\<close>

definition sample_level :: "(nat, nat cpp_iterator, 'a, bytes, bytes tag, unit hdql_Key) qlevel" where
  "sample_level = container_level (stl_iface (\<lambda>i. i) Some sample_contents) (\<lambda>i. i) sample_contents (\<lambda>_ _. True) (\<lambda>_. True) None"

definition sample_digit :: "bool \<Rightarrow> (nat, nat cpp_iterator, 'a, bytes, bytes tag, unit hdql_Key) digit" where
  "sample_digit t = ([(sample_level, Some (sample_key True))], Some (k_set_terminal t (list_key [sample_key True])), None, [])"

definition sample_product :: "'a \<Rightarrow> (nat, nat cpp_iterator, 'a, bytes) product" where
  "sample_product dd = [([sample_query dd (stl_iface (\<lambda>i. i) Some sample_contents)], None), ([sample_query dd (stl_iface (\<lambda>i. i) Some sample_contents)], None)]"

definition sample_product_key :: "bytes hdql_Key" where
  "sample_product_key = list_key [k_set_terminal False (list_key [sample_key True]), k_set_terminal True (list_key [sample_key True])]"

lemma sample_digit_idle: "digit_idle no_oom ([sample_query dd (stl_iface (\<lambda>i. i) Some sample_contents)], v) (Some (k_set_terminal t (list_key [sample_key True]))) (sample_digit t)"
proof -
  have I: "container_interface (stl_iface (\<lambda>i. i) Some sample_contents) (\<lambda>i. i) sample_contents (\<lambda>_ _. True) (\<lambda>_. True) None"
    by (rule stl_container) (simp_all add: sample_nonnull)
  have k: "datum_key (sample_key True)" by (simp add: sample_key_def key_types)
  have "chain_valid no_oom [(sample_level, Some (sample_key True))] [sample_query dd (stl_iface (\<lambda>i. i) Some sample_contents)] [Some (sample_key True)]"
    using container_interface.klevel [OF I k] container_interface.fresh_query [OF I, of "sample_query dd (stl_iface (\<lambda>i. i) Some sample_contents)"]
    by (simp add: chain_valid_def kshape_def sample_query_def sample_level_def)
  then show ?thesis
    by (auto simp: digit_idle_def sample_digit_def keys_are_def put_keys_def list_key_def hdql_key_is_list_def
        intro!: exI [of _ "[Some (sample_key True)]"])
qed

lemma sample_nonterm: "dg_nonterm (sample_digit False)"
  by (simp add: dg_nonterm_def sample_digit_def list_key_def)

lemma sample_product_is:
  "product_is (digit_idle no_oom) (Some sample_product_key) (sample_product dd) [sample_digit False, sample_digit True]"
proof -
  have "keys_are (Some sample_product_key) [Some (k_set_terminal False (list_key [sample_key True])), Some (k_set_terminal True (list_key [sample_key True]))]"
    by (simp add: sample_product_key_def list_key_facts(1) [of "[_, _]", simplified])
  then show ?thesis
    unfolding product_is_def sample_product_def
    by (intro exI [of _ "[Some (k_set_terminal False (list_key [sample_key True])), Some (k_set_terminal True (list_key [sample_key True]))]"])
      (simp add: sample_digit_idle sample_nonterm)
qed

lemma sample_outs: "dg_outs (Some 4) (sample_digit t) = [(40, [TKey [0]]), (41, [TKey [1]]), (42, [TKey [2]])]"
  by (simp add: dg_outs_def sample_digit_def chain_outs_def expand_def sample_level_def elements_def
      sample_contents_def upto_3)

lemma product_enumerates_witness:
  "map_option (map fst) (product_tuples (sample_product ()) (Some sample_product_key) (Some 4) ctx_roomy) =
   Some [[Some 40, Some 40], [Some 40, Some 41], [Some 40, Some 42],
         [Some 41, Some 40], [Some 41, Some 41], [Some 41, Some 42],
         [Some 42, Some 40], [Some 42, Some 41], [Some 42, Some 42]]"
  by (subst product_enumerates [OF sample_product_is])
    (simp_all add: sample_outs tuple_seen_def owner_ok_def ctx_roomy_def no_oom_def o_def)

section \<open>Reserving the key of a product\<close>

fun reserve_items ::
  "q_link list list \<Rightarrow> bytes hdql_Key list \<Rightarrow> hdql_Context \<Rightarrow> (hdql_Err_t \<times> bytes hdql_Key list \<times> hdql_Context) option"
where
  "reserve_items [] ks c = Some (HDQL_ERR_CODE_OK, ks, c)"
| "reserve_items (q # qs) [] c = None"
| "reserve_items (q # qs) (k # ks) c = do {
     (rc, k, c) \<leftarrow> hdql_key_reserve_for_query q k c;
     if rc \<noteq> HDQL_ERR_CODE_OK then Some (rc, k # ks, hdql_context_err_push rc c)
     else do { (rc, ks, c) \<leftarrow> reserve_items qs ks c; Some (rc, k # ks, c) } }"

text \<open>\<open>hdql_query_product_reserve_key\<close>; what \<open>hdql_key_mark_as_list\<close> returns is not looked at.\<close>

definition hdql_query_product_reserve_key ::
  "q_link list list \<Rightarrow> bytes hdql_Key \<Rightarrow> hdql_Context \<Rightarrow> (hdql_Err_t \<times> bytes hdql_Key \<times> hdql_Context) option"
where
  "hdql_query_product_reserve_key qs key c = do {
     (_, key, c) \<leftarrow> hdql_key_mark_as_list key (length qs) c;
     (case k_pl key of
        PlKeys a ks \<Rightarrow> do {
          (rc, ks, c) \<leftarrow> reserve_items qs ks c;
          Some (rc, k_set_pl (PlKeys a ks) key, c) }
      | _ \<Rightarrow> None) }"

end
