(* ===== verification/BoundValue.thy ===== *)
theory BoundValue
  imports Products Compound Results
begin

text \<open>
  Bound values and collections of bound compounds, \<open>src/ifaces/bound-value.c\<close>: a virtual compound
  with bound attributes is the collection of the tuples its bound queries enumerate, possibly
  filtered.

  A bound attribute refers to a cell of the iterator's array of values. \<open>cells vs q\<close> stands for this
  reference: it is the filter query \<open>q\<close> with the cells of the attributes it reads holding \<open>vs\<close>. The
  queries to evaluate and their static links are the two views of the same queries. \<open>logicCode\<close> is the
  code of \<open>hdql_Bool_t\<close> and \<open>converters\<close> the context's table of conversions; a conversion gives its
  result code and what it writes.
\<close>

section \<open>A value bound by a query\<close>

record 'd BoundValueDefinitionData =
  bv_value :: "'d option option"

definition bound_query_scalar_interface_reset ::
  "('a \<Rightarrow> 'd BoundValueDefinitionData option) \<Rightarrow> 'd option \<Rightarrow> 's option \<Rightarrow> 'a \<Rightarrow> 'v hdql_Key option \<Rightarrow> hdql_Context \<Rightarrow>
   ('d option \<times> 's option \<times> 'a \<times> 'v hdql_Key option \<times> hdql_Context) option"
where
  "bound_query_scalar_interface_reset as_bv root dynData defData key c = do {
     bv \<leftarrow> as_bv defData;
     v \<leftarrow> bv_value bv;
     c_assert (v \<noteq> None);
     Some (v, dynData, defData, key, c) }"

definition hdql_gBoundQueryIFace ::
  "('a \<Rightarrow> 'd BoundValueDefinitionData option) \<Rightarrow> ('d, 's, 'a, 'v) hdql_ScalarAttrInterface" where
  "hdql_gBoundQueryIFace as_bv =
     \<lparr>si_new_dyn_data = None, si_reset = bound_query_scalar_interface_reset as_bv, si_destroy_dyn_data = None\<rparr>"

text \<open>While its cell holds a value, a bound attribute is a level whose only element is that value.\<close>

interpretation bound: scalar_interface "hdql_gBoundQueryIFace as_bv"
    "\<lambda>q. as_bv (qa_definitionData (q_ad q)) = Some \<lparr>bv_value = Some (Some v)\<rparr>" "\<lambda>_. Some v" True for as_bv v
  by unfold_locales (auto simp: hdql_gBoundQueryIFace_def bound_query_scalar_interface_reset_def)

section \<open>The collection of a bound compound\<close>

record ('d, 's, 'a, 'v) hdql_BindingCompoundCollectionDefData =
  bc_vCompound :: hdql_Compound
  bc_bound :: "hdql_AttrDef \<Rightarrow> ('d, 's, 'a, 'v) hdql_Query list"
  bc_filterQuery :: "(('d, 's, 'a, 'v) hdql_Query list \<times> q_link list) option"

record ('d, 's, 'a, 'v) QueryProdIterator =
  pi_addr :: addr
  pi_filterQuery :: "('d, 's, 'a, 'v) hdql_Query list option"
  pi_toLogic :: "('d \<Rightarrow> int \<times> bool) option"
  pi_queriesAddr :: addr
  pi_valuesAddr :: addr
  pi_bound :: "('d, 's, 'a, 'v) product"
  pi_owner :: "'d option"

definition count_bound_attributes :: "bytes \<Rightarrow> nat \<Rightarrow> hdql_AttrDef \<Rightarrow> nat \<Rightarrow> (int \<times> nat) option" where
  "count_bound_attributes name n ad count = do {
     b \<leftarrow> hdql_attr_def_is_bound ad;
     Some (0, if b then Suc count else count) }"

text \<open>The pairs of bound queries and (not yet written) values, as they are filled.\<close>

definition bind_query ::
  "(hdql_AttrDef \<Rightarrow> ('d, 's, 'a, 'v) hdql_Query list) \<Rightarrow> bytes \<Rightarrow> nat \<Rightarrow> hdql_AttrDef \<Rightarrow> ('d, 's, 'a, 'v) product \<Rightarrow>
   (int \<times> ('d, 's, 'a, 'v) product) option" where
  "bind_query bound name n ad qs = do {
     b \<leftarrow> hdql_attr_def_is_bound ad;
     if \<not> b then Some (0, qs)
     else do {
       (i, d) \<leftarrow> hdql_attr_def_scalar_iface ad;
       c_assert (i = ScBoundQuery);
       c_assert (d \<noteq> DefNull);
       Some (0, qs @ [(bound ad, None)]) } }"

definition cartesian_product_new_iterator ::
  "(('d, 's, 'a, 'v) QueryProdIterator \<Rightarrow> 't) \<Rightarrow> ('b \<Rightarrow> ('d, 's, 'a, 'v) hdql_BindingCompoundCollectionDefData option) \<Rightarrow>
   hdql_ValueTypeCode_t \<Rightarrow> (hdql_ValueTypeCode_t \<Rightarrow> hdql_ValueTypeCode_t \<Rightarrow> ('d \<Rightarrow> int \<times> bool) option) \<Rightarrow>
   'd option \<Rightarrow> 'b \<Rightarrow> hdql_Context \<Rightarrow> ('t option \<times> 'b \<times> hdql_Context) option"
where
  "cartesian_product_new_iterator mk_pi as_dd logicCode converters owner defData c = do {
     dd \<leftarrow> as_dd defData;
     let (p, c) = ctx_alloc c;
     a \<leftarrow> p;
     (fail, toLogic) \<leftarrow> (case bc_filterQuery dd of
        None \<Rightarrow> Some (False, None)
      | Some (q, links) \<Rightarrow> do {
          ad \<leftarrow> hdql_query_top_attr links;
          tc \<leftarrow> hdql_attr_def_get_atomic_value_type_code ad;
          c_assert (logicCode \<noteq> 0);
          if logicCode = tc then Some (False, None)
          else (case converters logicCode tc of
              None \<Rightarrow> Some (True, None)
            | Some f \<Rightarrow> Some (False, Some f)) });
     if fail then do {
       c \<leftarrow> ctx_free (Some a) (hdql_context_err_push HDQL_ERR_CONVERSION c);
       Some (None, defData, c) }
     else do {
       (_, n) \<leftarrow> hdql_compound_for_each_own_attribute (bc_vCompound dd) (Some count_bound_attributes) 0;
       c_assert (n > 0);
       let (pq, c) = ctx_alloc c;
       let (pv, c) = ctx_alloc c;
       aq \<leftarrow> pq;
       av \<leftarrow> pv;
       (_, qs) \<leftarrow> hdql_compound_for_each_own_attribute (bc_vCompound dd) (Some (bind_query (bc_bound dd))) [];
       Some (Some (mk_pi \<lparr>pi_addr = a, pi_filterQuery = map_option fst (bc_filterQuery dd), pi_toLogic = toLogic,
          pi_queriesAddr = aq, pi_valuesAddr = av, pi_bound = qs, pi_owner = None\<rparr>), defData, c) } }"

text \<open>
  The filter on the current tuple: null, or whether it lets the tuple pass. It is reset with the
  key of the product. \<open>as_bool\<close> reads a datum as a boolean.
\<close>

definition filter_result ::
  "('d option list \<Rightarrow> ('d, 's, 'a, 'v) hdql_Query list \<Rightarrow> ('d, 's, 'a, 'v) hdql_Query list) \<Rightarrow> ('d \<Rightarrow> bool) \<Rightarrow>
   ('d, 's, 'a, 'v) QueryProdIterator \<Rightarrow> ('d, 's, 'a, 'v) hdql_Query list \<Rightarrow> 'v hdql_Key option \<Rightarrow> hdql_Context \<Rightarrow>
   (bool option \<times> ('d, 's, 'a, 'v) QueryProdIterator \<times> 'v hdql_Key option \<times> hdql_Context) option"
where
  "filter_result cells as_bool it q key c = do {
     (r, q, key, c) \<leftarrow> hdql_query_reset (cells (map snd (pi_bound it)) q) (pi_owner it) key c;
     let it = it\<lparr>pi_filterQuery := Some q\<rparr>;
     case r of
       None \<Rightarrow> Some (None, it, key, c)
     | Some x \<Rightarrow> (case pi_toLogic it of
           Some f \<Rightarrow> do { c_assert (fst (f x) = 0); Some (Some (snd (f x)), it, key, c) }
         | None \<Rightarrow> Some (Some (as_bool x), it, key, c)) }"

definition values_set :: "('d, 's, 'a, 'v) product \<Rightarrow> bool" where
  "values_set qs \<longleftrightarrow> (\<forall>x \<in> set qs. snd x \<noteq> None)"

text \<open>\<open>yield\<close>: the next tuple the filter lets pass. A null result of the filter is a tuple passed over.\<close>

partial_function (option) yield_loop ::
  "('d option list \<Rightarrow> ('d, 's, 'a, 'v) hdql_Query list \<Rightarrow> ('d, 's, 'a, 'v) hdql_Query list) \<Rightarrow> ('d \<Rightarrow> bool) \<Rightarrow>
   ('d, 's, 'a, 'v) QueryProdIterator \<Rightarrow> 'v hdql_Key option \<Rightarrow> hdql_Context \<Rightarrow>
   ('d option \<times> ('d, 's, 'a, 'v) QueryProdIterator \<times> 'v hdql_Key option \<times> hdql_Context) option"
where
  "yield_loop cells as_bool it key c =
     Option.bind (hdql_query_product_advance (pi_bound it) key (pi_owner it) c) (\<lambda>(rc, qs, key, c).
       let it = it\<lparr>pi_bound := qs\<rparr> in
       if rc = HDQL_ERR_EMPTY_SET then Some (None, it\<lparr>pi_owner := None\<rparr>, key, c)
       else Option.bind (c_assert (values_set qs)) (\<lambda>_.
         case pi_filterQuery it of
           None \<Rightarrow> Some (pi_owner it, it, key, c)
         | Some q \<Rightarrow> Option.bind (filter_result cells as_bool it q key c) (\<lambda>(r, it, key, c).
             if r = Some True then Some (pi_owner it, it, key, c)
             else yield_loop cells as_bool it key c)))"

definition cartesian_product_yield ::
  "(('d, 's, 'a, 'v) QueryProdIterator \<Rightarrow> 't) \<Rightarrow> ('t \<Rightarrow> ('d, 's, 'a, 'v) QueryProdIterator option) \<Rightarrow>
   ('d option list \<Rightarrow> ('d, 's, 'a, 'v) hdql_Query list \<Rightarrow> ('d, 's, 'a, 'v) hdql_Query list) \<Rightarrow> ('d \<Rightarrow> bool) \<Rightarrow>
   't option \<Rightarrow> 'b \<Rightarrow> 'v hdql_Key option \<Rightarrow> hdql_Context \<Rightarrow>
   ('d option \<times> 't option \<times> 'b \<times> 'v hdql_Key option \<times> hdql_Context) option"
where
  "cartesian_product_yield mk_pi as_pi cells as_bool itr defData key c = do {
     s \<leftarrow> itr;
     it \<leftarrow> as_pi s;
     (r, it, key, c) \<leftarrow> yield_loop cells as_bool it key c;
     Some (r, Some (mk_pi it), defData, key, c) }"

text \<open>
  \<open>reset\<close>: the first tuple the filter lets pass. When the filter gives null the loop goes on
  without advancing the product.
\<close>

partial_function (option) reset_loop ::
  "('d option list \<Rightarrow> ('d, 's, 'a, 'v) hdql_Query list \<Rightarrow> ('d, 's, 'a, 'v) hdql_Query list) \<Rightarrow> ('d \<Rightarrow> bool) \<Rightarrow>
   ('d, 's, 'a, 'v) QueryProdIterator \<Rightarrow> 'v hdql_Key option \<Rightarrow> hdql_Context \<Rightarrow>
   ('d option \<times> ('d, 's, 'a, 'v) QueryProdIterator \<times> 'v hdql_Key option \<times> hdql_Context) option"
where
  "reset_loop cells as_bool it key c = (case pi_filterQuery it of
       None \<Rightarrow> Some (pi_owner it, it, key, c)
     | Some q \<Rightarrow> Option.bind (filter_result cells as_bool it q key c) (\<lambda>(r, it, key, c).
         if r = None then reset_loop cells as_bool it key c
         else if r = Some True then Some (pi_owner it, it, key, c)
         else Option.bind (hdql_query_product_advance (pi_bound it) key (pi_owner it) c) (\<lambda>(rc, qs, key, c).
           let it = it\<lparr>pi_bound := qs\<rparr> in
           if rc = HDQL_ERR_EMPTY_SET then Some (None, it\<lparr>pi_owner := None\<rparr>, key, c)
           else reset_loop cells as_bool it key c)))"

definition cartesian_product_reset ::
  "(('d, 's, 'a, 'v) QueryProdIterator \<Rightarrow> 't) \<Rightarrow> ('t \<Rightarrow> ('d, 's, 'a, 'v) QueryProdIterator option) \<Rightarrow>
   ('d option list \<Rightarrow> ('d, 's, 'a, 'v) hdql_Query list \<Rightarrow> ('d, 's, 'a, 'v) hdql_Query list) \<Rightarrow> ('d \<Rightarrow> bool) \<Rightarrow>
   't option \<Rightarrow> 'd option \<Rightarrow> 'b \<Rightarrow> addr option \<Rightarrow> 'v hdql_Key option \<Rightarrow> hdql_Context \<Rightarrow>
   ('d option \<times> 't option \<times> 'b \<times> 'v hdql_Key option \<times> hdql_Context) option"
where
  "cartesian_product_reset mk_pi as_pi cells as_bool itr newOwner defData selArgs key c = do {
     s \<leftarrow> itr;
     it \<leftarrow> as_pi s;
     (rc, qs, key, c) \<leftarrow> hdql_query_product_reset (pi_bound it) key newOwner c;
     let it = it\<lparr>pi_bound := qs, pi_owner := newOwner\<rparr>;
     if rc = HDQL_ERR_EMPTY_SET then Some (None, Some (mk_pi (it\<lparr>pi_owner := None\<rparr>)), defData, key, c)
     else do {
       c_assert (values_set qs);
       (r, it, key, c) \<leftarrow> reset_loop cells as_bool it key c;
       Some (r, Some (mk_pi it), defData, key, c) } }"

fun destroy_queries :: "q_link list list \<Rightarrow> hdql_Context \<Rightarrow> hdql_Context option" where
  "destroy_queries [] c = Some c"
| "destroy_queries (q # qs) c = do { c \<leftarrow> hdql_query_destroy q c; destroy_queries qs c }"

definition cartesian_product_destroy_iterator ::
  "('t \<Rightarrow> ('d, 's, 'a, 'v) QueryProdIterator option) \<Rightarrow> q_link list list \<Rightarrow> 't option \<Rightarrow> 'b \<Rightarrow> hdql_Context \<Rightarrow> ('b \<times> hdql_Context) option"
where
  "cartesian_product_destroy_iterator as_pi links itr defData c = do {
     s \<leftarrow> itr;
     it \<leftarrow> as_pi s;
     c \<leftarrow> destroy_queries links c;
     c \<leftarrow> ctx_free (Some (pi_valuesAddr it)) c;
     c \<leftarrow> ctx_free (Some (pi_queriesAddr it)) c;
     c \<leftarrow> ctx_free (Some (pi_addr it)) c;
     Some (defData, c) }"

text \<open>Reserving the key: a list with the keys of the bound queries; what the reservations return is dropped.\<close>

definition reserve_keys_list_for_binding_query ::
  "bytes \<Rightarrow> nat \<Rightarrow> hdql_AttrDef \<Rightarrow> nat \<times> bytes hdql_Key list \<times> hdql_Context \<Rightarrow>
   (int \<times> nat \<times> bytes hdql_Key list \<times> hdql_Context) option"
where
  "reserve_keys_list_for_binding_query name n ad ud = (case ud of (i, ks, c) \<Rightarrow> do {
     b \<leftarrow> hdql_attr_def_is_bound ad;
     if \<not> b then Some (0, i, ks, c)
     else do {
       (iface, d) \<leftarrow> hdql_attr_def_scalar_iface ad;
       c_assert (iface = ScBoundQuery);
       c_assert (d \<noteq> DefNull);
       links \<leftarrow> (case d of DefBound _ links \<Rightarrow> Some links | _ \<Rightarrow> None);
       k \<leftarrow> arr_get ks i;
       (_, k, c) \<leftarrow> hdql_key_reserve_for_query links k c;
       ks \<leftarrow> arr_set ks i k;
       Some (0, Suc i, ks, c) } })"

definition hdql_bound_compound_key_reserve ::
  "hdql_Compound \<Rightarrow> bytes hdql_Key \<Rightarrow> hdql_Context \<Rightarrow> (hdql_Err_t \<times> bytes hdql_Key \<times> hdql_Context) option"
where
  "hdql_bound_compound_key_reserve cp key c = do {
     (_, n) \<leftarrow> hdql_compound_for_each_own_attribute cp (Some count_bound_attributes) 0;
     c_assert (n > 0);
     (_, key, c) \<leftarrow> hdql_key_mark_as_list key n c;
     (case k_pl key of
        PlKeys a ks \<Rightarrow> do {
          (_, _, ks, c) \<leftarrow> hdql_compound_for_each_own_attribute cp (Some reserve_keys_list_for_binding_query) (0, ks, c);
          Some (HDQL_ERR_CODE_OK, k_set_pl (PlKeys a ks) key, c) }
      | _ \<Rightarrow> None) }"

text \<open>A client of the collection: every datum a call returned, with the values and the key at that time.\<close>

partial_function (option) yields_all ::
  "(('d, 's, 'a, 'v) QueryProdIterator \<Rightarrow> 't) \<Rightarrow> ('t \<Rightarrow> ('d, 's, 'a, 'v) QueryProdIterator option) \<Rightarrow>
   ('d option list \<Rightarrow> ('d, 's, 'a, 'v) hdql_Query list \<Rightarrow> ('d, 's, 'a, 'v) hdql_Query list) \<Rightarrow> ('d \<Rightarrow> bool) \<Rightarrow>
   'd option \<Rightarrow> 't option \<Rightarrow> 'b \<Rightarrow> 'v hdql_Key option \<Rightarrow> hdql_Context \<Rightarrow>
   ('d \<times> 'd option list \<times> 'v hdql_Key option) list \<Rightarrow> ('d \<times> 'd option list \<times> 'v hdql_Key option) list option"
where
  "yields_all mk_pi as_pi cells as_bool r s a key c acc = (case r of
       None \<Rightarrow> Some acc
     | Some x \<Rightarrow> Option.bind (Option.bind s as_pi) (\<lambda>it.
         Option.bind (cartesian_product_yield mk_pi as_pi cells as_bool s a key c) (\<lambda>(r', s', a', key', c').
           yields_all mk_pi as_pi cells as_bool r' s' a' key' c' (acc @ [(x, map snd (pi_bound it), key)]))))"

definition bound_tuples ::
  "(('d, 's, 'a, 'v) QueryProdIterator \<Rightarrow> 't) \<Rightarrow> ('t \<Rightarrow> ('d, 's, 'a, 'v) QueryProdIterator option) \<Rightarrow>
   ('d option list \<Rightarrow> ('d, 's, 'a, 'v) hdql_Query list \<Rightarrow> ('d, 's, 'a, 'v) hdql_Query list) \<Rightarrow> ('d \<Rightarrow> bool) \<Rightarrow>
   ('d, 's, 'a, 'v) QueryProdIterator \<Rightarrow> 'd option \<Rightarrow> 'b \<Rightarrow> 'v hdql_Key option \<Rightarrow> hdql_Context \<Rightarrow>
   ('d \<times> 'd option list \<times> 'v hdql_Key option) list option"
where
  "bound_tuples mk_pi as_pi cells as_bool it d a key c = do {
     (r, s, a, key, c) \<leftarrow> cartesian_product_reset mk_pi as_pi cells as_bool (Some (mk_pi it)) d a None key c;
     yields_all mk_pi as_pi cells as_bool r s a key c [] }"

section \<open>The contract of a filter\<close>

definition as_logic :: "('d \<Rightarrow> int \<times> bool) option \<Rightarrow> ('d \<Rightarrow> bool) \<Rightarrow> 'd \<Rightarrow> bool" where
  "as_logic toLogic as_bool x = (case toLogic of None \<Rightarrow> as_bool x | Some f \<Rightarrow> snd (f x))"

text \<open>A key the product may have: none, or a list with something in it.\<close>

definition opens :: "'v hdql_Key option \<Rightarrow> bool" where
  "opens key \<longleftrightarrow> (\<exists>ks. keys_are key ks \<and> ks \<noteq> [])"

lemma run_opens: "product_run ok d key0 gs0 key qs t ts \<Longrightarrow> opens key \<and> length t = length gs0"
proof -
  assume "product_run ok d key0 gs0 key qs t ts"
  then obtain gs where gs: "product_is (digit_is ok) key qs gs" "gs \<noteq> []" "map dg_key gs = map dg_key gs0"
    "t = map (the \<circ> dg_cur) gs" "map dg_ls gs = map dg_ls gs0" unfolding product_run_def by blast
  obtain ks where ks: "keys_are key ks" "digits (digit_is ok) qs ks gs" using gs(1) by (auto simp: product_is_def)
  have "ks \<noteq> []" using digits_length [OF ks(2)] gs(2) by auto
  with ks(1) have "opens key" by (auto simp: opens_def)
  with gs(3,4) show ?thesis by (metis length_map)
qed

text \<open>
  \<open>arity\<close> is the number of bound attributes, \<open>fq\<close> says which filter queries (or none) there may be on the owner \<open>d\<close>; \<open>passes\<close> what they say of a
  tuple. A filter leaves the key alone.
\<close>

locale tuple_filter =
  fixes cells :: "'d option list \<Rightarrow> ('d, 's, 'a, 'v) hdql_Query list \<Rightarrow> ('d, 's, 'a, 'v) hdql_Query list"
    and as_bool :: "'d \<Rightarrow> bool" and toLogic :: "('d \<Rightarrow> int \<times> bool) option"
    and fq :: "('d, 's, 'a, 'v) hdql_Query list option \<Rightarrow> bool" and ok :: "hdql_Context \<Rightarrow> bool"
    and d :: 'd and passes :: "'d option list \<Rightarrow> bool option" and arity :: nat
  assumes law: "fq (Some q) \<Longrightarrow> ok c \<Longrightarrow> \<forall>v \<in> set vs. v \<noteq> None \<Longrightarrow> length vs = arity \<Longrightarrow> opens key \<Longrightarrow>
      \<exists>r q' c'. hdql_query_reset (cells vs q) (Some d) key c = Some (r, q', key, c') \<and> fq (Some q') \<and> ok c' \<and>
        passes vs = map_option (as_logic toLogic as_bool) r"
    and conv: "toLogic = Some f \<Longrightarrow> fst (f x) = 0"
    and none: "fq None \<Longrightarrow> passes vs = Some True"
begin

text \<open>An iterator that shows the tuple \<open>t\<close>, with the tuples \<open>ts\<close> to come.\<close>

definition shows_tuple ::
  "'v hdql_Key option \<Rightarrow> ('d, 's, 'a, 'v, 'e, 'h) digit list \<Rightarrow> ('d, 's, 'a, 'v) QueryProdIterator \<Rightarrow> 'v hdql_Key option \<Rightarrow>
   ('d \<times> 'e list) list \<Rightarrow> ('d \<times> 'e list) list list \<Rightarrow> bool"
where
  "shows_tuple key0 gs0 it key t ts \<longleftrightarrow> length gs0 = arity \<and> product_run ok (Some d) key0 gs0 key (pi_bound it) t ts \<and>
     pi_owner it = Some d \<and> fq (pi_filterQuery it) \<and> pi_toLogic it = toLogic"

definition pass :: "('d \<times> 'e list) list \<Rightarrow> bool option" where
  "pass t = passes (map (Some \<circ> fst) t)"

lemma run_values:
  "product_run ok (Some d) key0 gs0 key qs t ts \<Longrightarrow> map snd qs = map (Some \<circ> fst) t \<and> values_set qs"
proof -
  assume "product_run ok (Some d) key0 gs0 key qs t ts"
  then have v: "map snd qs = map (Some \<circ> fst) t" using run_seen by (fastforce simp: tuple_seen_def)
  have "snd x \<noteq> None" if "x \<in> set qs" for x
  proof -
    have "snd x \<in> set (map snd qs)" using that by simp
    then show ?thesis unfolding v by auto
  qed
  with v show ?thesis by (simp add: values_set_def)
qed

lemma shows_filter:
  assumes "shows_tuple key0 gs0 it key t ts" "pi_filterQuery it = Some q" "ok c"
  shows "\<exists>it' c'. filter_result cells as_bool it q key c = Some (pass t, it', key, c') \<and>
    shows_tuple key0 gs0 it' key t ts \<and> ok c' \<and> (\<exists>q'. pi_filterQuery it' = Some q')"
proof -
  have v: "map snd (pi_bound it) = map (Some \<circ> fst) t" and o: "pi_owner it = Some d" and Q: "fq (Some q)"
    and l: "pi_toLogic it = toLogic"
    using assms(1,2) run_values unfolding shows_tuple_def by (metis, auto)
  obtain r q' c' where r: "hdql_query_reset (cells (map (Some \<circ> fst) t) q) (Some d) key c = Some (r, q', key, c')"
    "fq (Some q')" "ok c'" "pass t = map_option (as_logic toLogic as_bool) r"
    using law [OF Q assms(3), of "map (Some \<circ> fst) t" key] run_opens assms(1)
    unfolding pass_def shows_tuple_def by (metis (no_types, lifting) comp_apply ex_map_conv length_map option.distinct(1))
  have "filter_result cells as_bool it q key c = Some (pass t, it\<lparr>pi_filterQuery := Some q'\<rparr>, key, c')"
    using conv by (cases r; cases toLogic) (auto simp: filter_result_def v o r(1,4) l as_logic_def Let_def)
  moreover have "shows_tuple key0 gs0 (it\<lparr>pi_filterQuery := Some q'\<rparr>) key t ts"
    using assms(1) r(2) by (simp add: shows_tuple_def)
  ultimately show ?thesis using r(3) by auto
qed

lemma yield_loop_correct:
  assumes "shows_tuple key0 gs0 it key t ts" "ok c"
  shows "\<exists>r it' key' c'. yield_loop cells as_bool it key c = Some (r, it', key', c') \<and> ok c' \<and>
    (case dropWhile (\<lambda>t. pass t \<noteq> Some True) ts of
       [] \<Rightarrow> r = None
     | t' # ts' \<Rightarrow> r = Some d \<and> shows_tuple key0 gs0 it' key' t' ts')"
  using assms
proof (induction ts arbitrary: it key t c)
  case Nil
  then obtain qs' key' c' where "hdql_query_product_advance (pi_bound it) key (Some d) c = Some (HDQL_ERR_EMPTY_SET, qs', key', c')"
    "ok c'" using run_step [of ok "Some d" key0 gs0 key "pi_bound it" t "[]" c] by (auto simp: shows_tuple_def)
  then show ?case using Nil(1) by (subst yield_loop.simps) (simp add: shows_tuple_def Let_def)
next
  case (Cons t' ts)
  have s: "pi_owner it = Some d" "fq (pi_filterQuery it)" "pi_toLogic it = toLogic" "length gs0 = arity"
    using Cons.prems(1) by (simp_all add: shows_tuple_def)
  obtain qs' key' c1 where a: "hdql_query_product_advance (pi_bound it) key (Some d) c = Some (HDQL_ERR_CODE_OK, qs', key', c1)"
    "ok c1" "product_run ok (Some d) key0 gs0 key' qs' t' ts"
    using run_step [of ok "Some d" key0 gs0 key "pi_bound it" t "t' # ts" c] Cons.prems by (auto simp: shows_tuple_def)
  let ?it = "it\<lparr>pi_bound := qs'\<rparr>"
  have it: "shows_tuple key0 gs0 ?it key' t' ts" using a(3) s by (simp add: shows_tuple_def)
  have v: "values_set qs'" using run_values [OF a(3)] by blast
  show ?case
  proof (cases "pi_filterQuery it")
    case None
    then have "yield_loop cells as_bool it key c = Some (Some d, ?it, key', c1)"
      by (subst yield_loop.simps) (simp add: s(1) a(1) v err_codes Let_def)
    moreover have "pass t' = Some True" using s(2) none None by (simp add: pass_def)
    ultimately show ?thesis using it a(2) by simp
  next
    case (Some q)
    obtain it2 c2 where f: "filter_result cells as_bool ?it q key' c1 = Some (pass t', it2, key', c2)"
      "shows_tuple key0 gs0 it2 key' t' ts" "ok c2" using shows_filter [OF it _ a(2), of q] Some by auto
    have o2: "pi_owner it2 = Some d" using f(2) by (simp add: shows_tuple_def)
    show ?thesis
    proof (cases "pass t' = Some True")
      case True
      then have "yield_loop cells as_bool it key c = Some (Some d, it2, key', c2)"
        using Some by (subst yield_loop.simps) (simp add: s(1) a(1) v f(1) o2 err_codes Let_def)
      with True f show ?thesis by simp
    next
      case False
      then have "yield_loop cells as_bool it key c = yield_loop cells as_bool it2 key' c2"
        using Some by (subst yield_loop.simps) (simp add: s(1) a(1) v f(1) o2 err_codes Let_def)
      with False Cons.IH [OF f(2,3)] show ?thesis by simp
    qed
  qed
qed

lemma reset_loop_correct:
  assumes "shows_tuple key0 gs0 it key t ts" "ok c"
    "\<forall>t' \<in> set (takeWhile (\<lambda>t. pass t \<noteq> Some True) (t # ts)). pass t' \<noteq> None"
  shows "\<exists>r it' key' c'. reset_loop cells as_bool it key c = Some (r, it', key', c') \<and> ok c' \<and>
    (case dropWhile (\<lambda>t. pass t \<noteq> Some True) (t # ts) of
       [] \<Rightarrow> r = None
     | t' # ts' \<Rightarrow> r = Some d \<and> shows_tuple key0 gs0 it' key' t' ts')"
  using assms
proof (induction ts arbitrary: it key t c rule: length_induct)
  case (1 ts it key t c)
  have s: "pi_owner it = Some d" "fq (pi_filterQuery it)" using "1.prems"(1) by (simp_all add: shows_tuple_def)
  show ?case
  proof (cases "pi_filterQuery it")
    case None
    then have "reset_loop cells as_bool it key c = Some (Some d, it, key, c)"
      by (subst reset_loop.simps) (simp add: s(1))
    moreover have "pass t = Some True" using s(2) none None by (simp add: pass_def)
    ultimately show ?thesis using "1.prems" by simp
  next
    case (Some q)
    obtain it2 c2 where f: "filter_result cells as_bool it q key c = Some (pass t, it2, key, c2)"
      "shows_tuple key0 gs0 it2 key t ts" "ok c2" using shows_filter [OF "1.prems"(1) Some "1.prems"(2)] by auto
    have o2: "pi_owner it2 = Some d" using f(2) by (simp add: shows_tuple_def)
    obtain b where b: "pass t = Some b" using "1.prems"(3) by (cases "pass t") auto
    show ?thesis
    proof (cases b)
      case True
      then have "reset_loop cells as_bool it key c = Some (Some d, it2, key, c2)"
        using Some b by (subst reset_loop.simps) (simp add: f(1) o2)
      with True b f show ?thesis by simp
    next
      case False
      note step = run_step [of ok "Some d" key0 gs0 key "pi_bound it2" t ts c2]
      have run: "product_run ok (Some d) key0 gs0 key (pi_bound it2) t ts" "fq (pi_filterQuery it2)" "pi_toLogic it2 = toLogic"
          "length gs0 = arity"
        using f(2) by (simp_all add: shows_tuple_def)
      show ?thesis
      proof (cases ts)
        case Nil
        then obtain qs' key' c' where a: "hdql_query_product_advance (pi_bound it2) key (Some d) c2 = Some (HDQL_ERR_EMPTY_SET, qs', key', c')"
          "ok c'" using step run(1) f(3) by auto
        have "reset_loop cells as_bool it key c = Some (None, it2\<lparr>pi_bound := qs', pi_owner := None\<rparr>, key', c')"
          using Some b False by (subst reset_loop.simps) (simp add: f(1) o2 a(1) Let_def)
        with a(2) b False Nil show ?thesis by simp
      next
        case (Cons t' ts')
        then obtain qs' key' c' where a: "hdql_query_product_advance (pi_bound it2) key (Some d) c2 = Some (HDQL_ERR_CODE_OK, qs', key', c')"
          "ok c'" "product_run ok (Some d) key0 gs0 key' qs' t' ts'" using step run(1) f(3) by auto
        let ?it = "it2\<lparr>pi_bound := qs'\<rparr>"
        have "reset_loop cells as_bool it key c = reset_loop cells as_bool ?it key' c'"
          using Some b False by (subst reset_loop.simps) (simp add: f(1) o2 a(1) err_codes Let_def)
        moreover have "shows_tuple key0 gs0 ?it key' t' ts'" using a(3) run o2 by (simp add: shows_tuple_def)
        ultimately show ?thesis
          using "1.IH" [rule_format, of ts' ?it key' t' c'] a(2) "1.prems"(3) b False Cons by simp
      qed
    qed
  qed
qed

abbreviation passed :: "('d \<times> 'e list) list list \<Rightarrow> ('d \<times> 'e list) list list" where
  "passed ts \<equiv> filter (\<lambda>t. pass t = Some True) ts"

lemma passed_dropWhile:
  "passed ts = (case dropWhile (\<lambda>t. pass t \<noteq> Some True) ts of [] \<Rightarrow> [] | t # ts' \<Rightarrow> t # passed ts')"
  by (induction ts) auto

lemma yields_all_correct:
  assumes cast: "\<And>i. as_pi (mk_pi i) = Some i"
  shows "shows_tuple key0 gs0 it key t ts \<Longrightarrow> ok c \<Longrightarrow>
    yields_all mk_pi as_pi cells as_bool (Some d) (Some (mk_pi it)) a key c acc =
      Some (acc @ map (\<lambda>t. (d, tuple_seen key0 gs0 t)) (t # passed ts))"
proof (induction ts arbitrary: it key t c acc rule: length_induct)
  case (1 ts it key t c acc)
  have seen: "(map snd (pi_bound it), key) = tuple_seen key0 gs0 t"
    using "1.prems"(1) run_seen unfolding shows_tuple_def by blast
  obtain r it' key' c' where y: "yield_loop cells as_bool it key c = Some (r, it', key', c')" "ok c'"
    "case dropWhile (\<lambda>t. pass t \<noteq> Some True) ts of [] \<Rightarrow> r = None
     | t' # ts' \<Rightarrow> r = Some d \<and> shows_tuple key0 gs0 it' key' t' ts'"
    using yield_loop_correct [OF "1.prems"] by blast
  have step: "yields_all mk_pi as_pi cells as_bool (Some d) (Some (mk_pi it)) a key c acc =
      yields_all mk_pi as_pi cells as_bool r (Some (mk_pi it')) a key' c' (acc @ [(d, tuple_seen key0 gs0 t)])"
    by (subst yields_all.simps) (simp add: cast cartesian_product_yield_def y(1) seen)
  show ?case
  proof (cases "dropWhile (\<lambda>t. pass t \<noteq> Some True) ts")
    case Nil
    have "r = None" "passed ts = []" using y(3) passed_dropWhile [of ts] unfolding Nil by (simp_all only: list.case)
    then show ?thesis unfolding step by (subst yields_all.simps) simp
  next
    case (Cons t' ts')
    have "length (t' # ts') \<le> length ts" unfolding Cons [symmetric] by (rule length_dropWhile_le)
    then have "length ts' < length ts" by simp
    moreover have "r = Some d" "shows_tuple key0 gs0 it' key' t' ts'" using y(3) Cons by simp_all
    moreover have "passed ts = t' # passed ts'" using passed_dropWhile [of ts] Cons by simp
    ultimately show ?thesis unfolding step using "1.IH" y(2) by simp
  qed
qed

lemma bound_tuples_correct:
  assumes cast: "\<And>i. as_pi (mk_pi i) = Some i"
    and prod: "product_is (digit_idle ok) key (pi_bound it) gs" "gs \<noteq> []" "ok c" "owner_ok (Some d) gs"
    and it: "fq (pi_filterQuery it)" "pi_toLogic it = toLogic" "length gs = arity"
    and nonnull: "\<forall>t \<in> set (takeWhile (\<lambda>t. pass t \<noteq> Some True) (product_lists (map (dg_outs (Some d)) gs))). pass t \<noteq> None"
  shows "bound_tuples mk_pi as_pi cells as_bool it (Some d) a key c =
    Some (map (\<lambda>t. (d, tuple_seen key gs t)) (passed (product_lists (map (dg_outs (Some d)) gs))))"
proof -
  obtain rc qs' key' c' where r: "hdql_query_product_reset (pi_bound it) key (Some d) c = Some (rc, qs', key', c')" "ok c'"
    "case product_lists (map (dg_outs (Some d)) gs) of [] \<Rightarrow> rc = HDQL_ERR_EMPTY_SET
     | t' # ts' \<Rightarrow> rc = HDQL_ERR_CODE_OK \<and> product_run ok (Some d) key gs key' qs' t' ts'"
    using run_start [OF prod] by blast
  show ?thesis
  proof (cases "product_lists (map (dg_outs (Some d)) gs)")
    case Nil
    with r show ?thesis
      by (simp add: bound_tuples_def cartesian_product_reset_def cast Let_def yields_all.simps [of _ _ _ _ None])
  next
    case (Cons t ts)
    then have rc: "rc = HDQL_ERR_CODE_OK" "product_run ok (Some d) key gs key' qs' t ts" using r(3) by simp_all
    let ?it = "it\<lparr>pi_bound := qs', pi_owner := Some d\<rparr>"
    have sh: "shows_tuple key gs ?it key' t ts" using rc(2) it by (simp add: shows_tuple_def)
    have v: "values_set qs'" using run_values [OF rc(2)] by blast
    obtain r2 it2 key2 c2 where l: "reset_loop cells as_bool ?it key' c' = Some (r2, it2, key2, c2)" "ok c2"
      "case dropWhile (\<lambda>t. pass t \<noteq> Some True) (t # ts) of [] \<Rightarrow> r2 = None
       | t' # ts' \<Rightarrow> r2 = Some d \<and> shows_tuple key gs it2 key2 t' ts'"
      using reset_loop_correct [OF sh r(2) nonnull [unfolded Cons]] by blast
    have call: "bound_tuples mk_pi as_pi cells as_bool it (Some d) a key c =
        yields_all mk_pi as_pi cells as_bool r2 (Some (mk_pi it2)) a key2 c2 []"
      by (simp add: bound_tuples_def cartesian_product_reset_def cast r(1) rc(1) v l(1) err_codes Let_def)
    show ?thesis
    proof (cases "dropWhile (\<lambda>t. pass t \<noteq> Some True) (t # ts)")
      case Nil
      have "r2 = None" "passed (t # ts) = []"
        using l(3) passed_dropWhile [of "t # ts"] unfolding Nil by (simp_all only: list.case)
      then show ?thesis unfolding call Cons by (subst yields_all.simps) simp
    next
      case Cons2: (Cons t' ts')
      have n: "r2 = Some d" "shows_tuple key gs it2 key2 t' ts'" "passed (t # ts) = t' # passed ts'"
        using l(3) passed_dropWhile [of "t # ts"] unfolding Cons2 by (simp_all only: list.case)
      have "yields_all mk_pi as_pi cells as_bool (Some d) (Some (mk_pi it2)) a key2 c2 [] =
          Some ([] @ map (\<lambda>t. (d, tuple_seen key gs t)) (t' # passed ts'))"
        by (rule yields_all_correct [where as_pi = as_pi and mk_pi = mk_pi, OF cast n(2) l(2)])
      then show ?thesis unfolding call Cons n(1,3) by simp
    qed
  qed
qed

text \<open>When the filter has no result for the tuple shown, the loop of the reset never returns.\<close>

lemma reset_loop_stuck:
  assumes "shows_tuple key0 gs0 it key t ts" "ok c" "pass t = None"
  shows "reset_loop cells as_bool it key c = None"
proof -
  have "reset_loop cells' as_bool' it key c = Some res \<Longrightarrow>
      \<not> (cells' = cells \<and> as_bool' = as_bool \<and> shows_tuple key0 gs0 it key t ts \<and> ok c \<and> pass t = None \<and>
        pi_filterQuery it \<noteq> None)" for cells' as_bool' res it key c
  proof (induction rule: reset_loop.raw_induct [rotated, consumes 1, case_names step])
    case (step loop cells' as_bool' it key c res)
    show ?case
    proof (rule notI, elim conjE)
      assume a: "cells' = cells" "as_bool' = as_bool" "shows_tuple key0 gs0 it key t ts" "ok c" "pass t = None"
        "pi_filterQuery it \<noteq> None"
      then obtain q where q: "pi_filterQuery it = Some q" by auto
      obtain it' c' where f: "filter_result cells as_bool it q key c = Some (pass t, it', key, c')"
        "shows_tuple key0 gs0 it' key t ts" "ok c'" "pi_filterQuery it' \<noteq> None"
        using shows_filter [OF a(3) q a(4)] by auto
      then have "loop cells as_bool it' key c' = Some res" using step(2) by (simp add: q a(1,2,5))
      from step(1) [OF this] f a(5) show False by blast
    qed
  qed
  moreover have "pi_filterQuery it \<noteq> None"
  proof
    assume n: "pi_filterQuery it = None"
    have "fq (pi_filterQuery it)" using assms(1) by (simp add: shows_tuple_def)
    with none [of "map (Some \<circ> fst) t"] n assms(3) show False by (simp add: pass_def)
  qed
  ultimately show ?thesis using assms by (cases "reset_loop cells as_bool it key c") auto
qed

text \<open>So the reset does not return when the filter has no result for a tuple before the first that passes.\<close>

lemma reset_loop_diverges:
  assumes "shows_tuple key0 gs0 it key t ts" "ok c"
    "\<exists>t' \<in> set (takeWhile (\<lambda>t. pass t \<noteq> Some True) (t # ts)). pass t' = None"
  shows "reset_loop cells as_bool it key c = None"
  using assms
proof (induction ts arbitrary: it key t c)
  case Nil
  then have "pass t = None" by (auto split: if_splits)
  then show ?case using reset_loop_stuck Nil.prems(1,2) by blast
next
  case (Cons t' ts)
  show ?case
  proof (cases "pass t")
    case None
    then show ?thesis using reset_loop_stuck Cons.prems(1,2) by blast
  next
    case (Some b)
    then have b: "pass t = Some False" using Cons.prems(3) by auto
    have "fq (pi_filterQuery it)" using Cons.prems(1) by (simp add: shows_tuple_def)
    then obtain q where q: "pi_filterQuery it = Some q"
      using none [of "map (Some \<circ> fst) t"] b by (cases "pi_filterQuery it") (auto simp: pass_def)
    obtain it2 c2 where f: "filter_result cells as_bool it q key c = Some (pass t, it2, key, c2)"
      "shows_tuple key0 gs0 it2 key t (t' # ts)" "ok c2"
      using shows_filter [OF Cons.prems(1) q Cons.prems(2)] by auto
    have o2: "pi_owner it2 = Some d" using f(2) by (simp add: shows_tuple_def)
    obtain qs' key' c' where a: "hdql_query_product_advance (pi_bound it2) key (Some d) c2 =
        Some (HDQL_ERR_CODE_OK, qs', key', c')" "ok c'" "product_run ok (Some d) key0 gs0 key' qs' t' ts"
      using run_step [of ok "Some d" key0 gs0 key "pi_bound it2" t "t' # ts" c2] f(2,3)
      by (auto simp: shows_tuple_def)
    let ?it = "it2\<lparr>pi_bound := qs'\<rparr>"
    have "reset_loop cells as_bool it key c = reset_loop cells as_bool ?it key' c'"
      using q b by (subst reset_loop.simps) (simp add: f(1) o2 a(1) err_codes Let_def)
    moreover have "shows_tuple key0 gs0 ?it key' t' ts" using a(3) f(2) by (simp add: shows_tuple_def)
    ultimately show ?thesis using Cons.IH [OF _ a(2)] Cons.prems(3) b by auto
  qed
qed

lemma bound_reset_stuck:
  assumes cast: "\<And>i. as_pi (mk_pi i) = Some i"
    and prod: "product_is (digit_idle ok) key (pi_bound it) gs" "gs \<noteq> []" "ok c" "owner_ok (Some d) gs"
    and it: "fq (pi_filterQuery it)" "pi_toLogic it = toLogic" "length gs = arity"
    and null: "\<exists>t \<in> set (takeWhile (\<lambda>t. pass t \<noteq> Some True) (product_lists (map (dg_outs (Some d)) gs))). pass t = None"
  shows "cartesian_product_reset mk_pi as_pi cells as_bool (Some (mk_pi it)) (Some d) a sel key c = None"
proof -
  obtain rc qs' key' c' where r: "hdql_query_product_reset (pi_bound it) key (Some d) c = Some (rc, qs', key', c')" "ok c'"
    "case product_lists (map (dg_outs (Some d)) gs) of [] \<Rightarrow> rc = HDQL_ERR_EMPTY_SET
     | t' # ts' \<Rightarrow> rc = HDQL_ERR_CODE_OK \<and> product_run ok (Some d) key gs key' qs' t' ts'"
    using run_start [OF prod] by blast
  obtain t ts where p: "product_lists (map (dg_outs (Some d)) gs) = t # ts"
    using null by (cases "product_lists (map (dg_outs (Some d)) gs)") auto
  have t: "rc = HDQL_ERR_CODE_OK" "product_run ok (Some d) key gs key' qs' t ts"
    using r(3) unfolding p by simp_all
  let ?it = "it\<lparr>pi_bound := qs', pi_owner := Some d\<rparr>"
  have "shows_tuple key gs ?it key' t ts" using t(2) it by (simp add: shows_tuple_def)
  from reset_loop_diverges [OF this r(2) null [unfolded p]]
  have "reset_loop cells as_bool ?it key' c' = None" .
  then show ?thesis by (simp add: cartesian_product_reset_def cast r(1) t(1) err_codes Let_def)
qed

end

section \<open>Filters of the model\<close>

text \<open>No filter: every tuple passes.\<close>

interpretation unfiltered: tuple_filter cells as_bool None "\<lambda>q. q = None" ok d "\<lambda>_. Some True" arity
  for cells as_bool ok d arity
  by unfold_locales auto

text \<open>A query of one scalar attribute that leaves state and key alone, reset with any key.\<close>

lemma opens_list:
  assumes "opens key"
  obtains kz where "(case key of None \<Rightarrow> Some None
       | Some k \<Rightarrow> do { c_assert (hdql_key_is_list k); map_option Some (hdql__key_get_list_bgn k) }) = Some kz"
    "key_with key kz = key"
proof -
  obtain k kns where ks: "keys_are key (k # kns)" using assms by (auto simp: opens_def neq_Nil_conv)
  obtain kz where kz: "(case key of None \<Rightarrow> Some None
       | Some k \<Rightarrow> do { c_assert (hdql_key_is_list k); map_option Some (hdql__key_get_list_bgn k) }) = Some kz"
    "kz_is kz [] k kns" by (rule keys_are_open [OF ks]) (rule that)
  have "key_with key kz = key"
  proof (cases key)
    case None
    then show ?thesis using kz(1) by (simp add: key_with_def)
  next
    case (Some k0)
    then have "kz \<noteq> None" using kz(1) by (auto split: option.splits simp: c_assert_def)
    with Some have "key = None \<longleftrightarrow> kz = None" by simp
    from keys_are_close(1) [OF ks kz(2) this] show ?thesis by (simp add: put_keys_self [OF ks])
  qed
  with kz(1) that show thesis by blast
qed

lemma single_reset:
  assumes "opens key" "\<And>k. hdql__query_reset q d k c = Some (r, q', k, c)"
  shows "hdql_query_reset [q] d key c = Some (r, [q'], key, c)"
proof -
  obtain kz where kz: "(case key of None \<Rightarrow> Some None
       | Some k \<Rightarrow> do { c_assert (hdql_key_is_list k); map_option Some (hdql__key_get_list_bgn k) }) = Some kz"
    "key_with key kz = key" by (rule opens_list [OF assms(1)]) (rule that)
  have "kz_put (kz_cur kz) kz = kz" by (cases kz) (auto simp: kz_put_def kz_cur_def)
  then have "rd_loop [] q [] kz d c = Some (r, [], q', [], kz, c)"
    by (subst rd_loop.simps) (simp add: assms(2))
  then show ?thesis
    by (simp add: hdql_query_reset_def kz hdql__query_reset_descendant_def chain_of_def)
qed

text \<open>The filter is one of the bound attributes: its cell is where the values are.\<close>

definition put_cell ::
  "('d BoundValueDefinitionData \<Rightarrow> 'a) \<Rightarrow> nat \<Rightarrow> 'd option list \<Rightarrow> ('d, 's, 'a, 'v) hdql_Query list \<Rightarrow> ('d, 's, 'a, 'v) hdql_Query list"
where
  "put_cell mk_bv n vs qs = map (\<lambda>q. q\<lparr>q_ad := (q_ad q)\<lparr>qa_definitionData := mk_bv \<lparr>bv_value = Some (vs ! n)\<rparr>\<rparr>\<rparr>) qs"

definition bound_filter :: "('a \<Rightarrow> 'd BoundValueDefinitionData option) \<Rightarrow> ('d, 's, 'a, 'v) hdql_Query list option \<Rightarrow> bool" where
  "bound_filter as_bv fq \<longleftrightarrow> (\<exists>q. fq = Some [q] \<and> qa_interface (q_ad q) = IfScalar (hdql_gBoundQueryIFace as_bv))"

lemma by_cell:
  assumes cast: "\<And>b. as_bv (mk_bv b) = Some b" and conv: "\<And>f x. toLogic = Some f \<Longrightarrow> fst (f x) = 0" and n: "n < arity"
  shows "tuple_filter (put_cell mk_bv n) as_bool toLogic (bound_filter as_bv) ok d
    (\<lambda>vs. map_option (as_logic toLogic as_bool) (vs ! n)) arity"
proof (unfold_locales, goal_cases)
  case (1 qs c vs key)
  then obtain q v where q: "qs = [q]" "qa_interface (q_ad q) = IfScalar (hdql_gBoundQueryIFace as_bv)" "vs ! n = Some v"
    using n by (auto simp: bound_filter_def) (metis nth_mem option.exhaust)
  let ?q = "hd (put_cell mk_bv n vs [q])"
  have "hdql__query_reset ?q (Some d) k c = Some (Some v, ?q\<lparr>q_owner := Some d\<rparr>, k, c)" for k
    using q by (simp add: put_cell_def hdql__query_reset_def hdql_gBoundQueryIFace_def bound_query_scalar_interface_reset_def
        cast q_update_def Let_def)
  from single_reset [OF 1(5) this] show ?case
    using q 1(2) by (auto simp: put_cell_def bound_filter_def)
next
  case (2 f x)
  then show ?case by (rule conv)
next
  case (3 vs)
  then show ?case by (simp add: bound_filter_def)
qed

interpretation cell: tuple_filter "put_cell (\<lambda>b. b) n" as_bool None "bound_filter Some" ok d
    "\<lambda>vs. map_option (as_logic None as_bool) (vs ! n)" "Suc (n + m)" for n m as_bool ok d
  by (rule by_cell) simp_all

text \<open>The filter is a member of a compound behind a pointer of the owner, which is null.\<close>

definition null_filter :: "('d \<Rightarrow> 'd option) \<Rightarrow> ('d, 's, 'a, 'v) hdql_Query list option \<Rightarrow> bool" where
  "null_filter m fq \<longleftrightarrow>
     (\<exists>q n. fq = Some [q, n] \<and> qa_interface (q_ad q) = IfScalar (indirect_iface m))"

lemma pair_reset_null:
  assumes "opens key" "\<And>k. hdql__query_reset q d k c = Some (None, q', k, c)"
  shows "hdql_query_reset [q, n] d key c = Some (None, [q', n], key, c)"
proof -
  obtain kz where kz: "(case key of None \<Rightarrow> Some None
       | Some k \<Rightarrow> do { c_assert (hdql_key_is_list k); map_option Some (hdql__key_get_list_bgn k) }) = Some kz"
    "key_with key kz = key" by (rule opens_list [OF assms(1)]) (rule that)
  have "kz_put (kz_cur kz) kz = kz" by (cases kz) (auto simp: kz_put_def kz_cur_def)
  then have "rd_loop [] q [n] kz d c = Some (None, [], q', [n], kz, c)"
    by (subst rd_loop.simps) (simp add: assms(2))
  then show ?thesis
    by (simp add: hdql_query_reset_def kz hdql__query_reset_descendant_def chain_of_def)
qed

lemma by_null_pointer:
  assumes "m d = None" "\<And>f x. toLogic = Some f \<Longrightarrow> fst (f x) = 0"
  shows "tuple_filter (\<lambda>vs q. q) as_bool toLogic (null_filter m) ok d (\<lambda>_. None) arity"
proof (unfold_locales, goal_cases)
  case (1 qs c vs key)
  then obtain q n where q: "qs = [q, n]" "qa_interface (q_ad q) = IfScalar (indirect_iface m)"
    by (auto simp: null_filter_def)
  have "hdql__query_reset q (Some d) k c = Some (None, q\<lparr>q_owner := Some d\<rparr>, k, c)" for k
    using q assms(1) by (simp add: hdql__query_reset_def indirect_iface_def indirect_reset_def q_update_def Let_def)
  from pair_reset_null [OF 1(5) this] show ?case using q 1(2) by (auto simp: null_filter_def)
next
  case (2 f x)
  then show ?case by (rule assms(2))
next
  case (3 vs)
  then show ?case by (simp add: null_filter_def)
qed

interpretation null_pointer: tuple_filter "\<lambda>vs q. q" as_bool None "null_filter (\<lambda>_. None)" ok d "\<lambda>_. None" arity
  for as_bool ok d arity
  by (rule by_null_pointer) simp_all

section \<open>The properties\<close>

text \<open>
  C9: The collection of a bound compound without a filter is the product of its bound queries: it
  yields its owner once for every tuple, in lexicographic order, each time with the tuple's values
  in the cells and its keys in the key.
\<close>

theorem bound_compound_product:
  assumes "\<And>i. as_pi (mk_pi i) = Some i" "product_is (digit_idle ok) key (pi_bound it) gs" "gs \<noteq> []" "ok c"
    and "owner_ok (Some d) gs" "pi_filterQuery it = None" "pi_toLogic it = None"
  shows "bound_tuples mk_pi as_pi cells as_bool it (Some d) a key c =
    Some (map (\<lambda>t. (d, tuple_seen key gs t)) (product_lists (map (dg_outs (Some d)) gs)))"
proof -
  have T: "tuple_filter cells as_bool None (\<lambda>q. q = None) ok d (\<lambda>_. Some True) (length gs)" by unfold_locales auto
  show ?thesis
    using tuple_filter.bound_tuples_correct [where as_pi = as_pi and mk_pi = mk_pi and a = a, OF T assms(1-7)] by (simp add: tuple_filter.pass_def [OF T])
qed

text \<open>The product of the numbers with themselves, with or without a filter; the cells hold nothing yet.\<close>

type_synonym sample_data = "nat BoundValueDefinitionData"

definition sample_iterator ::
  "(nat, nat cpp_iterator, sample_data, bytes) hdql_Query list option \<Rightarrow> (nat, nat cpp_iterator, sample_data, bytes) QueryProdIterator"
where
  "sample_iterator fq = \<lparr>pi_addr = 1, pi_filterQuery = fq, pi_toLogic = None, pi_queriesAddr = 2, pi_valuesAddr = 3,
     pi_bound = sample_product \<lparr>bv_value = None\<rparr>, pi_owner = None\<rparr>"

definition sample_filter ::
  "(nat, nat cpp_iterator, sample_data, bytes) hdql_ScalarAttrInterface \<Rightarrow> (nat, nat cpp_iterator, sample_data, bytes) hdql_Query" where
  "sample_filter iface = \<lparr>q_addr = 5, q_owner = None,
     q_ad = \<lparr>qa_addr = 6, qa_interface = IfScalar iface, qa_definitionData = \<lparr>bv_value = None\<rparr>, qa_isFwdQuery = False,
       qa_isTransient = False, qa_transient_dtr = None\<rparr>,
     q_ownsSubject = False, q_state = None, q_selectionArgs = None, q_label = None\<rparr>"

lemma sample_run:
  "product_is (digit_idle no_oom) (Some sample_product_key) (pi_bound (sample_iterator fq)) [sample_digit False, sample_digit True]"
  "owner_ok (Some 4) [sample_digit False, sample_digit True]" "no_oom ctx_roomy"
  by (simp_all add: sample_iterator_def sample_product_is owner_ok_def ctx_roomy_def no_oom_def)

lemma bound_compound_product_witness:
  "map_option (map (\<lambda>(x, vs, _). (x, vs))) (bound_tuples (\<lambda>i. i) Some (\<lambda>vs q. q) (\<lambda>x. x \<noteq> 0) (sample_iterator None) (Some 4) () (Some sample_product_key) ctx_roomy) =
   Some [(4, [Some 40, Some 40]), (4, [Some 40, Some 41]), (4, [Some 40, Some 42]),
         (4, [Some 41, Some 40]), (4, [Some 41, Some 41]), (4, [Some 41, Some 42]),
         (4, [Some 42, Some 40]), (4, [Some 42, Some 41]), (4, [Some 42, Some 42])]"
  by (subst bound_compound_product [OF _ sample_run(1) _ sample_run(3,2)])
    (simp_all add: sample_outs tuple_seen_def sample_iterator_def)

text \<open>
  What a filter is asked to do: evaluated on the owner \<open>d\<close> while the cells hold \<open>n\<close> values, it
  returns, leaves the key of the product alone and stays a filter; \<open>passes\<close> is the logic value of its
  result. The queries a filter may be in are those in \<open>F\<close>.
\<close>

definition filter_law ::
  "('d option list \<Rightarrow> ('d, 's, 'a, 'v) hdql_Query list \<Rightarrow> ('d, 's, 'a, 'v) hdql_Query list) \<Rightarrow> ('d \<Rightarrow> bool) \<Rightarrow>
   ('d \<Rightarrow> int \<times> bool) option \<Rightarrow> (('d, 's, 'a, 'v) hdql_Query list \<Rightarrow> bool) \<Rightarrow> (hdql_Context \<Rightarrow> bool) \<Rightarrow> 'd \<Rightarrow>
   ('d option list \<Rightarrow> bool option) \<Rightarrow> nat \<Rightarrow> bool"
where
  "filter_law cells as_bool toLogic F ok d passes n \<longleftrightarrow>
     (\<forall>q c vs key. F q \<longrightarrow> ok c \<longrightarrow> None \<notin> set vs \<longrightarrow> length vs = n \<longrightarrow> opens key \<longrightarrow>
       (\<exists>r q' c'. hdql_query_reset (cells vs q) (Some d) key c = Some (r, q', key, c') \<and> F q' \<and> ok c' \<and>
          passes vs = map_option (as_logic toLogic as_bool) r)) \<and>
     (\<forall>f x. toLogic = Some f \<longrightarrow> fst (f x) = 0)"

lemma filter_law_tuple:
  assumes "filter_law cells as_bool toLogic F ok d passes n"
  shows "tuple_filter cells as_bool toLogic (\<lambda>fq. \<exists>q. fq = Some q \<and> F q) ok d passes n"
proof (unfold_locales, goal_cases)
  case (1 q c vs key)
  then have "F q" "None \<notin> set vs" by auto
  then show ?case using assms 1(2,4,5) unfolding filter_law_def by simp
qed (use assms in \<open>auto simp: filter_law_def\<close>)

lemma by_cell_law:
  assumes "\<And>b. as_bv (mk_bv b) = Some b" "\<And>f x. toLogic = Some f \<Longrightarrow> fst (f x) = 0" "i < n"
  shows "filter_law (put_cell mk_bv i) as_bool toLogic (\<lambda>q. bound_filter as_bv (Some q)) ok d
    (\<lambda>vs. map_option (as_logic toLogic as_bool) (vs ! i)) n"
proof -
  have T: "tuple_filter (put_cell mk_bv i) as_bool toLogic (bound_filter as_bv) ok d
      (\<lambda>vs. map_option (as_logic toLogic as_bool) (vs ! i)) n"
    by (rule by_cell) fact+
  show ?thesis using tuple_filter.law [OF T] assms(2) unfolding filter_law_def by (metis (no_types, lifting))
qed

lemma by_null_pointer_law:
  assumes "m d = None" "\<And>f x. toLogic = Some f \<Longrightarrow> fst (f x) = 0"
  shows "filter_law (\<lambda>vs q. q) as_bool toLogic (\<lambda>q. null_filter m (Some q)) ok d (\<lambda>_. None) n"
proof -
  have T: "tuple_filter (\<lambda>vs q. q) as_bool toLogic (null_filter m) ok d (\<lambda>_. None) n"
    by (rule by_null_pointer) fact+
  show ?thesis using tuple_filter.law [OF T] assms(2) unfolding filter_law_def by (metis (no_types, lifting))
qed

text \<open>The values of the bound attributes in a tuple.\<close>

definition tuple_values :: "('d \<times> 'e list) list \<Rightarrow> 'd option list" where
  "tuple_values t = map (Some \<circ> fst) t"

text \<open>
  C10: Filtered by any query that leaves the key of the product alone and whose conversions to a
  logic value succeed, the collection yields its owner for exactly the tuples of the product whose
  filter value is true, in order, with their values and keys. For tuples after the first that passes
  the filter may have no result: such tuples are passed over. Before it, it has one.
\<close>

theorem bound_compound_filtered:
  assumes "\<And>i. as_pi (mk_pi i) = Some i" "product_is (digit_idle ok) key (pi_bound it) gs" "gs \<noteq> []" "ok c"
    and "owner_ok (Some d) gs" "pi_filterQuery it = Some f" "F f"
    and "filter_law cells as_bool (pi_toLogic it) F ok d passes (length gs)"
    and "\<forall>t \<in> set (takeWhile (\<lambda>t. passes (tuple_values t) \<noteq> Some True) (product_lists (map (dg_outs (Some d)) gs))).
      passes (tuple_values t) \<noteq> None"
  shows "bound_tuples mk_pi as_pi cells as_bool it (Some d) a key c =
    Some (map (\<lambda>t. (d, tuple_seen key gs t)) (filter (\<lambda>t. passes (tuple_values t) = Some True)
      (product_lists (map (dg_outs (Some d)) gs))))"
proof -
  note T = filter_law_tuple [OF assms(8)]
  have fq: "\<exists>q. pi_filterQuery it = Some q \<and> F q" using assms(6,7) by blast
  show ?thesis
    using tuple_filter.bound_tuples_correct [where as_pi = as_pi and mk_pi = mk_pi and a = a,
        OF T assms(1-5) fq refl refl] assms(9)
    unfolding tuple_filter.pass_def [OF T] tuple_values_def by blast
qed

lemma bound_compound_filtered_witness:
  "map_option (map (\<lambda>(x, vs, _). (x, vs))) (bound_tuples (\<lambda>i. i) Some (put_cell (\<lambda>b. b) 1) (\<lambda>x. x \<noteq> 41)
      (sample_iterator (Some [sample_filter (hdql_gBoundQueryIFace Some)])) (Some 4) () (Some sample_product_key) ctx_roomy) =
   Some [(4, [Some 40, Some 40]), (4, [Some 40, Some 42]), (4, [Some 41, Some 40]), (4, [Some 41, Some 42]),
         (4, [Some 42, Some 40]), (4, [Some 42, Some 42])]"
  by (subst bound_compound_filtered [OF _ sample_run(1) _ sample_run(3,2) _ _
        by_cell_law [where as_bv = Some and mk_bv = "\<lambda>b. b"]])
    (auto simp: sample_outs tuple_seen_def sample_iterator_def bound_filter_def sample_filter_def as_logic_def
      tuple_values_def)

text \<open>
  C36: When the filter of a bound compound gives null for a tuple before any tuple has passed, the
  reset of the collection does not return: it evaluates the filter for ever, without advancing.
\<close>

theorem bound_reset_diverges:
  assumes "\<And>i. as_pi (mk_pi i) = Some i" "product_is (digit_idle ok) key (pi_bound it) gs" "gs \<noteq> []" "ok c"
    and "owner_ok (Some d) gs" "pi_filterQuery it = Some f" "F f"
    and "filter_law cells as_bool (pi_toLogic it) F ok d passes (length gs)"
    and "\<exists>t \<in> set (takeWhile (\<lambda>t. passes (tuple_values t) \<noteq> Some True) (product_lists (map (dg_outs (Some d)) gs))).
      passes (tuple_values t) = None"
  shows "cartesian_product_reset mk_pi as_pi cells as_bool (Some (mk_pi it)) (Some d) a sel key c = None"
proof -
  note T = filter_law_tuple [OF assms(8)]
  have fq: "\<exists>q. pi_filterQuery it = Some q \<and> F q" using assms(6,7) by blast
  show ?thesis
    using tuple_filter.bound_reset_stuck [where as_pi = as_pi and mk_pi = mk_pi and a = a and sel = sel,
        OF T assms(1-5) fq refl refl] assms(9)
    unfolding tuple_filter.pass_def [OF T] tuple_values_def by blast
qed

text \<open>A filter of an atomic type: the member of the compound a null pointer of the owner should point to.\<close>

lemma bound_reset_diverges_witness:
  "cartesian_product_reset (\<lambda>i. i) Some (\<lambda>vs q. q) (\<lambda>x. x \<noteq> 0)
     (Some (sample_iterator (Some [sample_filter (indirect_iface (\<lambda>_. None)), sample_filter (member_iface (\<lambda>x. x))])))
     (Some 4) () None (Some sample_product_key) ctx_roomy = None"
  by (rule bound_reset_diverges [where mk_pi = "\<lambda>i. i", OF _ sample_run(1) _ sample_run(3,2) _ _
        by_null_pointer_law [where m = "\<lambda>_. None"]])
    (auto simp: sample_outs sample_iterator_def null_filter_def sample_filter_def)

end
