(* ===== verification/FwdQuery.thy ===== *)
theory FwdQuery
  imports Results
begin

text \<open>
  Forwarding queries, \<open>src/ifaces/fwd-query-as-scalar.c\<close> and \<open>src/ifaces/fwd-query-as-collection.c\<close>:
  an attribute that stands for a whole chain. The definition data is the pointer to the chain;
  \<open>as_query\<close> and \<open>put_query\<close> read and write what is behind it. The iterator is the same pointer, \<open>self\<close>.
\<close>

section \<open>The interfaces\<close>

definition fwd_query_scalar_interface_reset ::
  "('b \<Rightarrow> ('d, 's, 'a, 'v) hdql_Query list option) \<Rightarrow> (('d, 's, 'a, 'v) hdql_Query list \<Rightarrow> 'b \<Rightarrow> 'b) \<Rightarrow>
   'd option \<Rightarrow> 't option \<Rightarrow> 'b \<Rightarrow> 'v hdql_Key option \<Rightarrow> hdql_Context \<Rightarrow>
   ('d option \<times> 't option \<times> 'b \<times> 'v hdql_Key option \<times> hdql_Context) option"
where
  "fwd_query_scalar_interface_reset as_query put_query newOwner dd defData key c = do {
     q \<leftarrow> as_query defData;
     (r, q, key, c) \<leftarrow> hdql_query_reset q newOwner key c;
     Some (r, dd, put_query q defData, key, c) }"

definition hdql_gScalarFwdQueryIFace ::
  "('b \<Rightarrow> ('d, 's, 'a, 'v) hdql_Query list option) \<Rightarrow> (('d, 's, 'a, 'v) hdql_Query list \<Rightarrow> 'b \<Rightarrow> 'b) \<Rightarrow>
   ('d, 't, 'b, 'v) hdql_ScalarAttrInterface"
where
  "hdql_gScalarFwdQueryIFace as_query put_query = \<lparr>si_new_dyn_data = None,
     si_reset = fwd_query_scalar_interface_reset as_query put_query, si_destroy_dyn_data = None\<rparr>"

definition fwd_query_collection_new_iterator ::
  "('b \<Rightarrow> ('d, 's, 'a, 'v) hdql_Query list option) \<Rightarrow> 't \<Rightarrow> 'd option \<Rightarrow> 'b \<Rightarrow> hdql_Context \<Rightarrow> ('t option \<times> 'b \<times> hdql_Context) option" where
  "fwd_query_collection_new_iterator as_query self owner defData c = do {
     c_assert (as_query defData \<noteq> None);
     Some (Some self, defData, c) }"

definition fwd_query_collection_reset_iterator ::
  "('b \<Rightarrow> ('d, 's, 'a, 'v) hdql_Query list option) \<Rightarrow> (('d, 's, 'a, 'v) hdql_Query list \<Rightarrow> 'b \<Rightarrow> 'b) \<Rightarrow> 't \<Rightarrow>
   't option \<Rightarrow> 'd option \<Rightarrow> 'b \<Rightarrow> addr option \<Rightarrow> 'v hdql_Key option \<Rightarrow> hdql_Context \<Rightarrow>
   ('d option \<times> 't option \<times> 'b \<times> 'v hdql_Key option \<times> hdql_Context) option"
where
  "fwd_query_collection_reset_iterator as_query put_query self itr newOwner defData sel key c = do {
     c_assert (itr = Some self);
     q \<leftarrow> as_query defData;
     (r, q, key, c) \<leftarrow> hdql_query_reset q newOwner key c;
     Some (r, itr, put_query q defData, key, c) }"

definition fwd_query_collection_yield ::
  "('b \<Rightarrow> ('d, 's, 'a, 'v) hdql_Query list option) \<Rightarrow> (('d, 's, 'a, 'v) hdql_Query list \<Rightarrow> 'b \<Rightarrow> 'b) \<Rightarrow> 't \<Rightarrow>
   't option \<Rightarrow> 'b \<Rightarrow> 'v hdql_Key option \<Rightarrow> hdql_Context \<Rightarrow>
   ('d option \<times> 't option \<times> 'b \<times> 'v hdql_Key option \<times> hdql_Context) option"
where
  "fwd_query_collection_yield as_query put_query self itr defData key c = do {
     c_assert (itr = Some self);
     q \<leftarrow> as_query defData;
     (r, q, key, c) \<leftarrow> hdql_query_get q key c;
     Some (r, itr, put_query q defData, key, c) }"

definition fwd_query_collection_interface_destroy :: "'t option \<Rightarrow> 'b \<Rightarrow> hdql_Context \<Rightarrow> ('b \<times> hdql_Context) option" where
  "fwd_query_collection_interface_destroy itr defData c = Some (defData, c)"

definition hdql_gCollectionFwdQueryIFace ::
  "('b \<Rightarrow> ('d, 's, 'a, 'v) hdql_Query list option) \<Rightarrow> (('d, 's, 'a, 'v) hdql_Query list \<Rightarrow> 'b \<Rightarrow> 'b) \<Rightarrow> 't \<Rightarrow>
   ('d, 't, 'b, 'v) hdql_CollectionAttrInterface"
where
  "hdql_gCollectionFwdQueryIFace as_query put_query self = \<lparr>
     ci_new_iterator = fwd_query_collection_new_iterator as_query self,
     ci_yield = fwd_query_collection_yield as_query put_query self,
     ci_reset_iterator = fwd_query_collection_reset_iterator as_query put_query self,
     ci_destroy_iterator = fwd_query_collection_interface_destroy,
     ci_free_selection = None \<rparr>"

section \<open>A chain seen as one level\<close>

type_synonym ('d, 's, 'a, 'v) tlevel = "('d, 's, 'a, 'v, 'v tag, unit hdql_Key) qlevel"

text \<open>The levels of the chain with the keys a list key has for them.\<close>

fun key_items :: "'v hdql_Key \<Rightarrow> 'v hdql_Key list" where
  "key_items (Key c ty t (PlKeys a ks) l) = ks"
| "key_items _ = []"

definition klevels :: "('d, 's, 'a, 'v) tlevel list \<Rightarrow> 'v hdql_Key option \<Rightarrow> ('d, 's, 'a, 'v, 'v tag, unit hdql_Key) klevel list" where
  "klevels Ls k = (case k of None \<Rightarrow> map (\<lambda>L. (L, None)) Ls | Some k \<Rightarrow> zip Ls (map Some (key_items k)))"

fun items_fit :: "('d, 's, 'a, 'v) tlevel list \<Rightarrow> 'v hdql_Key list \<Rightarrow> bool" where
  "items_fit [] [] \<longleftrightarrow> True"
| "items_fit (L # Ls) (k # ks) \<longleftrightarrow> lv_keyok L k \<and> (Ls \<noteq> [] \<longrightarrow> \<not> k_isTerminal k) \<and> items_fit Ls ks"
| "items_fit _ _ \<longleftrightarrow> False"

fun list_fits :: "('d, 's, 'a, 'v) tlevel list \<Rightarrow> 'v hdql_Key \<Rightarrow> bool" where
  "list_fits Ls (Key c ty t (PlKeys a ks) l) \<longleftrightarrow> ty = KEY_PL_TYPE_LIST \<and> items_fit Ls ks"
| "list_fits Ls _ \<longleftrightarrow> False"

text \<open>An output of the chain fills the items of the key.\<close>

fun fill_items :: "('d, 's, 'a, 'v) tlevel list \<Rightarrow> 'v tag list \<Rightarrow> 'v hdql_Key list \<Rightarrow> 'v hdql_Key list option" where
  "fill_items [] [] [] = Some []"
| "fill_items (L # Ls) (e # es) (k # ks) = map_option ((#) (lv_kf L e k)) (fill_items Ls es ks)"
| "fill_items _ _ _ = None"

definition path_fill :: "('d, 's, 'a, 'v) tlevel list \<Rightarrow> 'v tag \<Rightarrow> 'v hdql_Key \<Rightarrow> 'v hdql_Key" where
  "path_fill Ls e k = (case (e, k_pl k) of
     (TPath es, PlKeys a ks) \<Rightarrow> (case fill_items Ls es ks of
        Some ks' \<Rightarrow> k_set_pl (PlKeys a ks') k
      | None \<Rightarrow> key_fill undefined k)
   | _ \<Rightarrow> key_fill undefined k)"

definition path_elems :: "('d \<times> 'v tag list) list \<Rightarrow> ('d \<times> 'v tag) list" where
  "path_elems outs = map (\<lambda>(y, es). (y, TPath es)) outs"

definition chain_elems :: "('d, 's, 'a, 'v) tlevel list \<Rightarrow> 'd option \<Rightarrow> ('d \<times> 'v tag list) list" where
  "chain_elems Ls d = chain_outs (map (\<lambda>L. (L, None)) Ls) d"

lemma lpaths_levels: "map fst ls = map fst ls' \<Longrightarrow> lpaths ls y = lpaths ls' y"
proof (induction ls arbitrary: ls' y)
  case (Cons l ls)
  then obtain l' ls1 where e: "ls' = l' # ls1" "fst l = fst l'" "map fst ls = map fst ls1" by (cases ls') auto
  from Cons.IH [OF e(3)] have "lpaths ls = lpaths ls1" by (rule ext)
  then show ?case by (simp add: e lpaths.simps(2))
qed simp

lemma chain_outs_levels: "map fst ls = Ls \<Longrightarrow> chain_outs ls d = chain_elems Ls d"
proof -
  assume m: "map fst ls = Ls"
  show ?thesis
  proof (cases ls)
    case Nil
    with m show ?thesis by (simp add: chain_elems_def chain_outs_def)
  next
    case (Cons l ls')
    have "lpaths ls' = lpaths (map (\<lambda>L. (L, None)) (tl Ls))"
      using m Cons by (intro ext lpaths_levels) (auto simp: o_def)
    with m Cons show ?thesis by (auto simp: chain_elems_def chain_outs_def expand_def)
  qed
qed

text \<open>Keys of the same shape.\<close>

lemma erased_Key: "erased (Key c ty t pl l) = Key c ty t
    (case pl of PlNull \<Rightarrow> PlNull | PlDatum a v \<Rightarrow> PlDatum a () | PlKeys a ks \<Rightarrow> PlKeys a (map erased ks)) l"
  by (auto simp: erased_def split: key_payload.splits)

lemma fill_items_shape:
  assumes "\<forall>L \<in> set Ls. lv_shape L = erased" "\<forall>L \<in> set Ls. query_level L ok"
  shows "fill_items Ls es ks = Some ks' \<Longrightarrow> map erased ks' = map erased ks"
  using assms
proof (induction Ls es ks arbitrary: ks' rule: fill_items.induct)
  case (2 L Ls e es k ks)
  then have "erased (lv_kf L e k) = erased k" using query_level.kf_shape [of L ok e k] by simp
  with 2 show ?case by auto
qed auto

lemma fill_items_cong:
  assumes "\<forall>L \<in> set Ls. lv_shape L = erased" "\<forall>L \<in> set Ls. query_level L ok"
  shows "map erased ks1 = map erased ks2 \<Longrightarrow> fill_items Ls es ks1 = fill_items Ls es ks2"
  using assms
proof (induction Ls es ks1 arbitrary: ks2 rule: fill_items.induct)
  case (2 L Ls e es k ks)
  then obtain k2 ks2' where e: "ks2 = k2 # ks2'" "erased k = erased k2" "map erased ks = map erased ks2'" by auto
  then have "lv_kf L e k = lv_kf L e k2" using 2(3,4) query_level.kf_cong [of L ok k k2 e] by simp
  with e 2 show ?case by simp
qed (auto simp: Cons_eq_map_conv)

lemma items_fit_cong:
  assumes "\<forall>L \<in> set Ls. lv_shape L = erased" "\<forall>L \<in> set Ls. query_level L ok"
  shows "map erased ks1 = map erased ks2 \<Longrightarrow> items_fit Ls ks1 = items_fit Ls ks2"
  using assms
proof (induction Ls ks1 arbitrary: ks2 rule: items_fit.induct)
  case (2 L Ls k ks)
  then obtain k2 ks2' where e: "ks2 = k2 # ks2'" "erased k = erased k2" "map erased ks = map erased ks2'" by auto
  then have "lv_keyok L k = lv_keyok L k2" using 2(3,4) query_level.shape_ok [of L ok k k2] by simp
  with e 2 show ?case using erased_terminal [OF e(2)] by simp
qed (auto simp: Cons_eq_map_conv)

lemma path_fill_shape:
  assumes "\<forall>L \<in> set Ls. lv_shape L = erased" "\<forall>L \<in> set Ls. query_level L ok"
  shows "erased (path_fill Ls e k) = erased k"
proof (cases k)
  case (Key c ty t pl l)
  show ?thesis
  proof (cases "\<exists>es a ks ks'. e = TPath es \<and> pl = PlKeys a ks \<and> fill_items Ls es ks = Some ks'")
    case True
    then show ?thesis
      using fill_items_shape [OF assms] by (auto simp: path_fill_def Key erased_Key)
  next
    case False
    then have "path_fill Ls e k = key_fill undefined k"
      by (cases e; cases pl) (auto simp: path_fill_def Key split: option.split)
    then show ?thesis by simp
  qed
qed

lemma path_fill_cong:
  assumes "\<forall>L \<in> set Ls. lv_shape L = erased" "\<forall>L \<in> set Ls. query_level L ok" "erased k1 = erased k2"
  shows "path_fill Ls e k1 = path_fill Ls e k2"
proof -
  have fill: "key_fill undefined k1 = key_fill undefined k2" by (rule key_fill_cong [OF assms(3)])
  show ?thesis
  proof (cases k1; cases k2)
    fix c1 ty1 t1 pl1 l1 c2 ty2 t2 pl2 l2
    assume k: "k1 = Key c1 ty1 t1 pl1 l1" "k2 = Key c2 ty2 t2 pl2 l2"
    have same: "c1 = c2" "ty1 = ty2" "t1 = t2" "l1 = l2" using assms(3) by (simp_all add: k erased_Key)
    show ?thesis
    proof (cases "\<exists>a ks. pl1 = PlKeys a ks")
      case True
      then obtain a ks where 1: "pl1 = PlKeys a ks" by blast
      then obtain ks2 where 2: "pl2 = PlKeys a ks2" "map erased ks = map erased ks2"
        using assms(3) by (cases pl2) (auto simp: k erased_Key)
      show ?thesis
        using fill fill_items_cong [OF assms(1,2) 2(2)] by (cases e) (auto simp: path_fill_def k 1 2 same split: option.split)
    next
      case False
      moreover from this have "\<nexists>a ks. pl2 = PlKeys a ks" using assms(3) by (cases pl1; cases pl2) (auto simp: k erased_Key)
      ultimately show ?thesis
        using fill by (cases e; cases pl1; cases pl2) (auto simp: path_fill_def k)
    qed
  qed
qed

lemma list_fits_cong:
  assumes "\<forall>L \<in> set Ls. lv_shape L = erased" "\<forall>L \<in> set Ls. query_level L ok" "erased k1 = erased k2"
  shows "list_fits Ls k1 = list_fits Ls k2"
proof (cases k1; cases k2)
  fix c1 ty1 t1 pl1 l1 c2 ty2 t2 pl2 l2
  assume k: "k1 = Key c1 ty1 t1 pl1 l1" "k2 = Key c2 ty2 t2 pl2 l2"
  show ?thesis
  proof (cases "\<exists>a ks. pl1 = PlKeys a ks")
    case True
    then obtain a ks where 1: "pl1 = PlKeys a ks" by blast
    then obtain ks2 where 2: "pl2 = PlKeys a ks2" "map erased ks = map erased ks2" "ty1 = ty2"
      using assms(3) by (cases pl2) (auto simp: k erased_Key)
    show ?thesis using items_fit_cong [OF assms(1,2) 2(2)] by (simp add: k 1 2)
  next
    case False
    moreover from this have "\<nexists>a ks. pl2 = PlKeys a ks" using assms(3) by (cases pl1; cases pl2) (auto simp: k erased_Key)
    ultimately show ?thesis by (cases pl1; cases pl2) (auto simp: k)
  qed
qed

section \<open>What the chain does with its list key\<close>

text \<open>Every output has a tag per level.\<close>

lemma lpaths_length: "(w, es) \<in> set (lpaths ls y) \<Longrightarrow> length es = length ls"
  by (induction ls arbitrary: w es y) (auto simp: lpaths.simps(2))

lemma expand_length: "(w, es) \<in> set (expand ls xs) \<Longrightarrow> length es = Suc (length ls)"
  by (auto simp: expand_def dest: lpaths_length)

lemma chain_outs_length: "(w, es) \<in> set (chain_outs ls d) \<Longrightarrow> length es = length ls"
  by (cases ls) (auto simp: chain_outs_def dest: expand_length)

lemma pend_up_length: "(w, es) \<in> set (pend_up fs ls) \<Longrightarrow> length es = length fs + length ls"
  by (induction fs ls rule: pend_up.induct)
    (auto simp: prefixed_def upath_def dest: expand_length)

lemma chain_pending_length:
  assumes "chain_pending ok ls qs ks outs" "(w, es) \<in> set outs"
  shows "length es = length ls"
proof -
  obtain us l e rem where "ulevels us @ [l] = ls" "pend_up ((l, e, rem) # us) [] = outs"
    using assms(1) unfolding chain_pending_def by blast
  with assms(2) pend_up_length [of w es "(l, e, rem) # us" "[]"] show ?thesis by (auto simp: ulevels_def)
qed

text \<open>The keys of a path, made of the keys as they stand.\<close>

lemma ekey_same: "klevel_ok ok l \<Longrightarrow> kshape l k \<Longrightarrow> ekey l e = map_option (lv_kf (fst l) e) k"
  using query_level.kf_cong [of "fst l" ok "the (snd l)" "the k" e]
  by (cases k; cases "snd l") (simp_all add: kshape_def klevel_ok_def ekey_def)

lemma suf_path_keys:
  "suf_ok ok R qs ks ls \<Longrightarrow> path_keys ls es = map2 (\<lambda>(L, k) e. map_option (lv_kf L e) k) (zip (map fst ls) ks) es"
proof (induction ok R qs ks ls arbitrary: es rule: suf_ok.induct)
  case (2 ok R n ns k ks l ls)
  then have "ekey l e = map_option (lv_kf (fst l) e) k" for e using ekey_same [of ok l k e] by simp
  then show ?case using 2 by (cases es) (simp_all add: path_keys_def)
qed (simp_all add: path_keys_def)

lemma fill_path:
  "length Ls = length ks \<Longrightarrow> length es = length Ls \<Longrightarrow>
   \<exists>ks'. fill_items Ls es ks = Some ks' \<and>
     map2 (\<lambda>(L, k) e. map_option (lv_kf L e) k) (zip Ls (map Some ks)) es = map Some ks'"
  by (induction Ls es ks rule: fill_items.induct) auto

lemma put_path:
  assumes "keys_are k ks" "length ks = length Ls" "length es = length Ls"
  shows "put_keys k (map2 (\<lambda>(L, k) e. map_option (lv_kf L e) k) (zip Ls ks) es) = map_option (path_fill Ls (TPath es)) k"
proof (cases k)
  case (Some k0)
  then obtain a kl where k0: "k_pl k0 = PlKeys a kl" "ks = map Some kl" using assms(1) by (auto simp: keys_are_def)
  obtain kl' where "fill_items Ls es kl = Some kl'"
    "map2 (\<lambda>(L, k) e. map_option (lv_kf L e) k) (zip Ls (map Some kl)) es = map Some kl'"
    using fill_path [of Ls kl es] assms(2,3) k0(2) by auto
  with Some k0 show ?thesis by (simp add: put_keys_def path_fill_def o_def)
qed (simp add: put_keys_def)

text \<open>The list key keeps its shape.\<close>

lemma put_keys_shape:
  assumes "keys_are k ks" "map (map_option erased) ks' = map (map_option erased) ks"
  shows "map_option erased (put_keys k ks') = map_option erased k"
proof (cases k)
  case (Some k0)
  then obtain a kl where k0: "k_pl k0 = PlKeys a kl" "ks = map Some kl" using assms(1) by (auto simp: keys_are_def)
  have "map (map_option erased) ks' = map (Some \<circ> erased) kl" using assms(2) k0(2) by simp
  then have "map (\<lambda>x. erased (the x)) ks' = map erased kl"
  proof (induction kl arbitrary: ks')
    case (Cons a kl)
    then show ?case by (cases ks') auto
  qed simp
  then show ?thesis using Some k0(1) by (cases k0) (simp add: put_keys_def erased_Key o_def)
qed (simp add: put_keys_def)

lemma suf_shapes:
  "suf_ok ok R qs ks ls \<Longrightarrow> \<forall>l \<in> set ls. lv_shape (fst l) = erased \<Longrightarrow>
   map (map_option erased) ks = map (map_option erased \<circ> snd) ls"
  by (induction ok R qs ks ls rule: suf_ok.induct) (auto simp: kshape_def)

lemma keys_are_unique: "keys_are k ks \<Longrightarrow> keys_are k ks' \<Longrightarrow> length ks = length ks' \<Longrightarrow> ks = ks'"
  by (cases k) (auto simp: keys_are_def intro!: nth_equalityI, metis nth_mem)

section \<open>The level of a forwarding query\<close>

text \<open>A chain whose queries may be reset, whatever the keys; one with outputs to come; and one that is done.\<close>

definition chain_ready :: "('d, 's, 'a, 'v) tlevel list \<Rightarrow> ('d, 's, 'a, 'v) hdql_Query list \<Rightarrow> bool" where
  "chain_ready Ls qs \<longleftrightarrow> qs \<noteq> [] \<and> list_all2 lv_valid Ls qs"

definition chain_at ::
  "(hdql_Context \<Rightarrow> bool) \<Rightarrow> ('d, 's, 'a, 'v) tlevel list \<Rightarrow> ('d, 's, 'a, 'v) hdql_Query list \<Rightarrow> 'v hdql_Key option \<Rightarrow>
   ('d \<times> 'v tag list) list \<Rightarrow> bool"
where
  "chain_at ok Ls qs k outs \<longleftrightarrow> (\<exists>ls ks. map fst ls = Ls \<and> chain_pending ok ls qs ks outs \<and> keys_are k ks)"

definition chain_over ::
  "(hdql_Context \<Rightarrow> bool) \<Rightarrow> ('d, 's, 'a, 'v) tlevel list \<Rightarrow> ('d, 's, 'a, 'v) hdql_Query list \<Rightarrow> 'v hdql_Key option \<Rightarrow> bool"
where
  "chain_over ok Ls qs k \<longleftrightarrow> (\<exists>ls ks. map fst ls = Ls \<and> chain_done ok ls qs ks \<and> keys_are k ks)"

lemma suf_valid:
  "suf_ok ok R qs ks ls \<Longrightarrow> (\<And>L q k. R L q k \<Longrightarrow> lv_valid L q) \<Longrightarrow> list_all2 lv_valid (map fst ls) qs"
  by (induction ok R qs ks ls rule: suf_ok.induct) auto

lemma valid_ready: "chain_valid ok ls qs ks \<Longrightarrow> map fst ls = Ls \<Longrightarrow> chain_ready Ls qs"
  using suf_valid [of ok resettable qs ks ls] by (auto simp: chain_valid_def chain_ready_def resettable_def)

text \<open>Opening a chain with the keys it is given.\<close>

lemma items_fit_length: "items_fit Ls ks \<Longrightarrow> length Ls = length ks"
  by (induction Ls ks rule: items_fit.induct) auto

lemma list_fits_items:
  assumes "list_fits Ls k"
  obtains a ks where "k_pl k = PlKeys a ks" "key_items k = ks" "items_fit Ls ks" "hdql_key_is_list k"
  using assms by (cases k rule: key_items.cases) (auto simp: hdql_key_is_list_def)

lemma klevels_levels: "k = None \<or> (\<exists>k0. k = Some k0 \<and> list_fits Ls k0) \<Longrightarrow> map fst (klevels Ls k) = Ls"
  by (auto simp: klevels_def o_def elim!: list_fits_items dest: items_fit_length)

text \<open>The chain behind the attribute: every level keeps its contract, and the pointer leads to the chain.\<close>

locale forwarded_chain =
  fixes as_query :: "'b \<Rightarrow> ('d, 's, 'a, 'v) hdql_Query list option"
    and put_query :: "('d, 's, 'a, 'v) hdql_Query list \<Rightarrow> 'b \<Rightarrow> 'b"
    and ok :: "hdql_Context \<Rightarrow> bool" and Ls :: "('d, 's, 'a, 'v) tlevel list"
  assumes as_put: "as_query b \<noteq> None \<Longrightarrow> as_query (put_query qs b) = Some qs"
    and nonempty: "Ls \<noteq> []"
    and levels: "\<forall>L \<in> set Ls. query_level L ok"
    and shapes: "\<forall>L \<in> set Ls. lv_shape L = erased"
begin

lemma opened_items:
  "list_all2 lv_valid Ls' qs \<Longrightarrow> items_fit Ls' ks \<Longrightarrow> set Ls' \<subseteq> set Ls \<Longrightarrow>
   suf_ok ok resettable qs (map Some ks) (zip Ls' (map Some ks))"
proof (induction Ls' ks arbitrary: qs rule: items_fit.induct)
  case (2 L Ls' k ks)
  then obtain q qs' where q: "qs = q # qs'" "lv_valid L q" "list_all2 lv_valid Ls' qs'"
    by (auto simp: list_all2_Cons1)
  have "zip Ls' (map Some ks) \<noteq> [] \<longrightarrow> nonterm (L, Some k)"
    using 2(3) by (auto simp: nonterm_def)
  with 2 q levels show ?case by (auto simp: klevel_ok_def key_fits_def resettable_def kshape_def)
qed auto

lemma opened_null:
  "list_all2 lv_valid Ls' qs \<Longrightarrow> set Ls' \<subseteq> set Ls \<Longrightarrow>
   suf_ok ok resettable qs (map (\<lambda>_. None) Ls') (map (\<lambda>L. (L, None)) Ls')"
proof (induction Ls' arbitrary: qs)
  case (Cons L Ls')
  then obtain q qs' where "qs = q # qs'" "lv_valid L q" "list_all2 lv_valid Ls' qs'"
    by (auto simp: list_all2_Cons1)
  with Cons levels show ?case by (auto simp: klevel_ok_def key_fits_def resettable_def kshape_def nonterm_def)
qed simp

lemma open_chain:
  assumes "chain_ready Ls qs" "\<forall>k0. k = Some k0 \<longrightarrow> list_fits Ls k0"
  obtains ls ks where "map fst ls = Ls" "chain_valid ok ls qs ks" "keys_are k ks"
proof (cases k)
  case None
  show thesis
    by (rule that [of "map (\<lambda>L. (L, None)) Ls" "map (\<lambda>_. None) Ls"])
      (use assms(1) None opened_null in \<open>auto simp: o_def chain_valid_def chain_ready_def keys_are_def\<close>)
next
  case (Some k0)
  with assms(2) have "list_fits Ls k0" by simp
  then obtain a kl where k0: "k_pl k0 = PlKeys a kl" "items_fit Ls kl" "hdql_key_is_list k0"
    by (elim list_fits_items)
  show thesis
    by (rule that [of "zip Ls (map Some kl)" "map Some kl"])
      (use assms(1) Some k0 opened_items items_fit_length [OF k0(2)] in
        \<open>auto simp: o_def chain_valid_def chain_ready_def keys_are_def\<close>)
qed

text \<open>Both calls, with the chain seen through its list key.\<close>

lemma reset_chain:
  assumes "chain_ready Ls qs" "\<forall>k0. k = Some k0 \<longrightarrow> list_fits Ls k0" "ok c" "d = None \<longrightarrow> lv_null (hd Ls)"
  shows "\<exists>r qs' k' c'. hdql_query_reset qs d k c = Some (r, qs', k', c') \<and> ok c' \<and> chain_ready Ls qs' \<and>
    (case chain_elems Ls d of
       [] \<Rightarrow> r = None \<and> map_option erased k' = map_option erased k \<and> (chain_over ok Ls qs k \<longrightarrow> chain_over ok Ls qs' k')
     | (y, es) # outs \<Rightarrow> r = Some y \<and> k' = map_option (path_fill Ls (TPath es)) k \<and> chain_at ok Ls qs' k' outs)"
proof -
  obtain ls ks where o: "map fst ls = Ls" "chain_valid ok ls qs ks" "keys_are k ks"
    by (rule open_chain [OF assms(1,2)])
  have null: "d = None \<longrightarrow> lv_null (fst (hd ls))" using assms(4) o(1) nonempty by (cases ls) auto
  obtain r qs' k' c' ks' where call: "hdql_query_reset qs d k c = Some (r, qs', k', c')" "ok c'"
    "k' = put_keys k ks'" "keys_are k' ks'"
    "case chain_elems Ls d of
       [] \<Rightarrow> r = None \<and> chain_valid ok ls qs' ks'
     | (y, es) # outs \<Rightarrow> r = Some y \<and> ks' = path_keys ls es \<and> chain_pending ok ls qs' ks' outs"
    using chain_reset [OF o(2,3) assms(3) null] unfolding chain_outs_levels [OF o(1)] by blast
  show ?thesis
  proof (cases "chain_elems Ls d")
    case Nil
    have "map_option erased k' = map_option erased k"
    proof -
      have "map (map_option erased) ks' = map (map_option erased) ks"
        using suf_shapes [of ok resettable _ _ ls] shapes o(1,2) call(5) Nil
        by (auto simp: chain_valid_def)
      then show ?thesis unfolding call(3) by (rule put_keys_shape [OF o(3)])
    qed
    moreover have "chain_over ok Ls qs k \<longrightarrow> chain_over ok Ls qs' k'"
    proof
      assume "chain_over ok Ls qs k"
      then obtain ls0 ks0 where o0: "map fst ls0 = Ls" "chain_done ok ls0 qs ks0" "keys_are k ks0"
        unfolding chain_over_def by blast
      have null: "d = None \<longrightarrow> lv_null (fst (hd ls0))" using assms(4) o0(1) nonempty by (cases ls0) auto
      show "chain_over ok Ls qs' k'"
        using chain_reset_done [OF o0(2,3) assms(3) null] call(1) Nil o0(1)
        unfolding chain_outs_levels [OF o0(1)] chain_over_def by auto
    qed
    ultimately show ?thesis
      using call Nil valid_ready [of ok ls qs' ks'] o(1) by simp
  next
    case (Cons o1 outs)
    obtain y es where o1: "o1 = (y, es)" by (cases o1)
    have p: "ks' = path_keys ls es" "chain_pending ok ls qs' ks' outs" "r = Some y" using call(5) unfolding Cons o1 by auto
    have len: "length es = length Ls"
      using chain_outs_length [of y es ls d] o(1) Cons o1 unfolding chain_outs_levels [OF o(1)] by auto
    have "k' = map_option (path_fill Ls (TPath es)) k"
      using o(2) put_path [OF o(3) _ len] suf_ok_length [of ok resettable qs ks ls] o(1)
      unfolding call(3) p(1) chain_valid_def by (auto simp: suf_path_keys)
    moreover have "chain_at ok Ls qs' k' outs" using p(2) call(4) o(1) unfolding chain_at_def by blast
    ultimately show ?thesis
      using call(1,2) p(3) Cons o1 valid_ready [OF chain_pending_valid [OF p(2)] o(1)] by simp
  qed
qed

lemma get_chain:
  assumes "chain_at ok Ls qs k outs" "ok c"
  shows "\<exists>r qs' k' c'. hdql_query_get qs k c = Some (r, qs', k', c') \<and> ok c' \<and> chain_ready Ls qs' \<and>
    (case outs of
       [] \<Rightarrow> r = None \<and> map_option erased k' = map_option erased k \<and> chain_over ok Ls qs' k'
     | (y, es) # outs' \<Rightarrow> r = Some y \<and> k' = map_option (path_fill Ls (TPath es)) k \<and> chain_at ok Ls qs' k' outs')"
proof -
  obtain ls ks where o: "map fst ls = Ls" "chain_pending ok ls qs ks outs" "keys_are k ks"
    using assms(1) unfolding chain_at_def by blast
  have valid: "suf_ok ok resettable qs ks ls" using chain_pending_valid [OF o(2)] by (simp add: chain_valid_def)
  obtain r qs' k' c' ks' where call: "hdql_query_get qs k c = Some (r, qs', k', c')" "ok c'"
    "k' = put_keys k ks'" "keys_are k' ks'"
    "case outs of
       [] \<Rightarrow> r = None \<and> chain_done ok ls qs' ks'
     | (y, es) # outs' \<Rightarrow> r = Some y \<and> ks' = path_keys ls es \<and> chain_pending ok ls qs' ks' outs'"
    using chain_get_done [OF o(2,3) assms(2)] by blast
  show ?thesis
  proof (cases outs)
    case Nil
    have d: "chain_done ok ls qs' ks'" "r = None" using call(5) Nil by auto
    have "map (map_option erased) ks' = map (map_option erased) ks"
      using suf_shapes [OF valid] suf_shapes [of ok depleted qs' ks' ls] shapes o(1) d(1)
      by (auto simp: chain_done_def)
    then have "map_option erased k' = map_option erased k" unfolding call(3) by (rule put_keys_shape [OF o(3)])
    moreover have "chain_over ok Ls qs' k'" using d(1) call(4) o(1) unfolding chain_over_def by blast
    ultimately show ?thesis
      using call(1,2) Nil d valid_ready [OF chain_pending_valid [OF chain_done_pending [OF d(1)]] o(1)] by simp
  next
    case (Cons o1 outs')
    obtain y es where o1: "o1 = (y, es)" by (cases o1)
    have p: "ks' = path_keys ls es" "chain_pending ok ls qs' ks' outs'" "r = Some y" using call(5) unfolding Cons o1 by auto
    have len: "length es = length Ls" using chain_pending_length [OF o(2), of y es] o(1) Cons o1 by auto
    have "k' = map_option (path_fill Ls (TPath es)) k"
      using suf_path_keys [OF valid] put_path [OF o(3) _ len] suf_ok_length [OF valid] o(1)
      unfolding call(3) p(1) by auto
    moreover have "chain_at ok Ls qs' k' outs'" using p(2) call(4) o(1) unfolding chain_at_def by blast
    ultimately show ?thesis
      using call(1,2) p(3) Cons o1 valid_ready [OF chain_pending_valid [OF p(2)] o(1)] by simp
  qed
qed

end

section \<open>The interfaces are levels\<close>

text \<open>
  The collection interface: its elements are the outputs of the chain, each with the keys of its
  path; it is done when the chain is. The scalar interface stands for a fully scalar chain.
\<close>

definition fwd_level ::
  "('b \<Rightarrow> ('d, 's, 'a, 'v) hdql_Query list option) \<Rightarrow> (('d, 's, 'a, 'v) hdql_Query list \<Rightarrow> 'b \<Rightarrow> 'b) \<Rightarrow> 't \<Rightarrow>
   (hdql_Context \<Rightarrow> bool) \<Rightarrow> ('d, 's, 'a, 'v) tlevel list \<Rightarrow> ('d, 't, 'b, 'v) tlevel"
where
  "fwd_level as_query put_query self ok Ls = (let
     here = (\<lambda>q P. qa_interface (q_ad q) = IfCollection (hdql_gCollectionFwdQueryIFace as_query put_query self) \<and>
       (\<exists>qs. as_query (qa_definitionData (q_ad q)) = Some qs \<and> P qs))
   in \<lparr>
     lv_valid = (\<lambda>q. q_state q \<in> {None, Some self} \<and> here q (chain_ready Ls)),
     lv_pending = (\<lambda>q k xs. q_state q = Some self \<and>
       here q (\<lambda>qs. chain_ready Ls qs \<and> (\<exists>outs. chain_at ok Ls qs k outs \<and> xs = path_elems outs))),
     lv_done = (\<lambda>q k. q_state q = Some self \<and> here q (\<lambda>qs. chain_ready Ls qs \<and> chain_over ok Ls qs k)),
     lv_elems = (\<lambda>d. path_elems (chain_elems Ls d)),
     lv_kf = path_fill Ls,
     lv_shape = erased,
     lv_keyok = list_fits Ls,
     lv_null = lv_null (hd Ls) \<rparr>)"

definition fwd_scalar_level ::
  "('b \<Rightarrow> ('d, 's, 'a, 'v) hdql_Query list option) \<Rightarrow> (('d, 's, 'a, 'v) hdql_Query list \<Rightarrow> 'b \<Rightarrow> 'b) \<Rightarrow>
   ('d, 's, 'a, 'v) tlevel list \<Rightarrow> ('d, 't, 'b, 'v) tlevel"
where
  "fwd_scalar_level as_query put_query Ls = (let
     here = (\<lambda>q. qa_interface (q_ad q) = IfScalar (hdql_gScalarFwdQueryIFace as_query put_query) \<and>
       (\<exists>qs. as_query (qa_definitionData (q_ad q)) = Some qs \<and> chain_ready Ls qs))
   in \<lparr>
     lv_valid = here,
     lv_pending = (\<lambda>q k xs. here q \<and> xs = []),
     lv_done = (\<lambda>q k. here q),
     lv_elems = (\<lambda>d. path_elems (chain_elems Ls d)),
     lv_kf = path_fill Ls,
     lv_shape = erased,
     lv_keyok = list_fits Ls,
     lv_null = lv_null (hd Ls) \<rparr>)"

lemmas fwd_defs = hdql_gCollectionFwdQueryIFace_def hdql_gScalarFwdQueryIFace_def
  fwd_query_collection_new_iterator_def fwd_query_collection_reset_iterator_def fwd_query_collection_yield_def
  fwd_query_scalar_interface_reset_def q_update_def

lemma chain_over_at: "chain_over ok Ls qs k \<Longrightarrow> chain_at ok Ls qs k []"
  unfolding chain_over_def chain_at_def using chain_done_pending by blast

lemma path_elems_simps [simp]:
  "path_elems [] = []"
  "path_elems ((y, es) # outs) = (y, TPath es) # path_elems outs"
  "path_elems outs = [] \<longleftrightarrow> outs = []"
  by (simp_all add: path_elems_def)

sublocale forwarded_chain \<subseteq> coll: query_level "fwd_level as_query put_query self ok Ls" ok
proof (unfold_locales, goal_cases)
  case (1 q k c d)
  let ?L = "fwd_level as_query put_query self ok Ls" and ?a = "qa_definitionData (q_ad q)"
  obtain qs where q: "qa_interface (q_ad q) = IfCollection (hdql_gCollectionFwdQueryIFace as_query put_query self)"
    "q_state q \<in> {None, Some self}" "as_query ?a = Some qs" "chain_ready Ls qs"
    using 1(1) by (auto simp: fwd_level_def Let_def)
  have k: "\<forall>k0. k = Some k0 \<longrightarrow> list_fits Ls k0" and d: "d = None \<longrightarrow> lv_null (hd Ls)"
    using 1(2,4) by (simp_all add: key_fits_def fwd_level_def Let_def)
  obtain r qs' k' c' where r: "hdql_query_reset qs d k c = Some (r, qs', k', c')" "ok c'" "chain_ready Ls qs'"
    "case chain_elems Ls d of
       [] \<Rightarrow> r = None \<and> map_option erased k' = map_option erased k \<and> (chain_over ok Ls qs k \<longrightarrow> chain_over ok Ls qs' k')
     | (y, es) # outs \<Rightarrow> r = Some y \<and> k' = map_option (path_fill Ls (TPath es)) k \<and> chain_at ok Ls qs' k' outs"
    using reset_chain [OF q(4) k 1(3) d] by blast
  let ?q = "q_update (q\<lparr>q_owner := d\<rparr>) (Some self) (put_query qs' ?a)"
  have call: "hdql__query_reset q d k c = Some (r, ?q, k', c')"
    using q r(1) by (auto simp: hdql__query_reset_def fwd_defs Let_def)
  show ?case
  proof (intro exI conjI)
    show "hdql__query_reset q d k c = Some (head_datum (lv_elems ?L d), ?q, k', c')"
      using call r(4) by (cases "chain_elems Ls d") (auto simp: fwd_level_def Let_def)
    show "after_reset ?L q k (lv_elems ?L d) ?q k'"
      using q r(3,4) as_put by (cases "chain_elems Ls d") (auto simp: fwd_level_def Let_def q_update_def)
    show "key_after ?L (lv_elems ?L d) k k'"
      using r(4) by (cases "chain_elems Ls d") (auto simp: fwd_level_def Let_def key_after_def)
    show "ok c'" by (rule r(2))
  qed
next
  case (2 q k xs c)
  let ?L = "fwd_level as_query put_query self ok Ls" and ?a = "qa_definitionData (q_ad q)"
  obtain qs outs where q: "qa_interface (q_ad q) = IfCollection (hdql_gCollectionFwdQueryIFace as_query put_query self)"
    "q_state q = Some self" "as_query ?a = Some qs" "chain_at ok Ls qs k outs" "xs = path_elems outs"
    using 2(1) by (auto simp: fwd_level_def Let_def)
  obtain r qs' k' c' where r: "hdql_query_get qs k c = Some (r, qs', k', c')" "ok c'" "chain_ready Ls qs'"
    "case outs of
       [] \<Rightarrow> r = None \<and> map_option erased k' = map_option erased k \<and> chain_over ok Ls qs' k'
     | (y, es) # outs' \<Rightarrow> r = Some y \<and> k' = map_option (path_fill Ls (TPath es)) k \<and> chain_at ok Ls qs' k' outs'"
    using get_chain [OF q(4) 2(3)] by blast
  let ?q = "q_update q (Some self) (put_query qs' ?a)"
  have call: "hdql__query_yield q k c = Some (r, ?q, k', c')"
    using q r(1) by (auto simp: hdql__query_yield_def fwd_defs)
  show ?case
  proof (intro exI conjI)
    show "hdql__query_yield q k c = Some (head_datum xs, ?q, k', c')"
      using call r(4) q(5) by (cases outs) auto
    show "after_yield ?L xs ?q k'"
      using q r(3,4) as_put by (cases outs) (auto simp: fwd_level_def Let_def q_update_def)
    show "key_after ?L xs k k'"
      using r(4) q(5) by (cases outs) (auto simp: fwd_level_def Let_def key_after_def)
    show "ok c'" by (rule r(2))
  qed
next
  case 3
  then show ?case using chain_over_at by (fastforce simp: fwd_level_def Let_def)
next
  case 5
  then show ?case using path_fill_shape [OF shapes levels] by (simp add: fwd_level_def Let_def)
next
  case (6 k1 k2 e)
  then have "erased k1 = erased k2" by (simp add: fwd_level_def Let_def)
  from path_fill_cong [OF shapes levels this] show ?case by (simp add: fwd_level_def Let_def)
next
  case (7 k1 k2)
  then have "erased k1 = erased k2" by (simp add: fwd_level_def Let_def)
  then show ?case by (rule erased_terminal)
next
  case (8 k1 k2)
  then have "erased k1 = erased k2" by (simp add: fwd_level_def Let_def)
  from list_fits_cong [OF shapes levels this] show ?case by (simp add: fwd_level_def Let_def)
qed (auto simp: fwd_level_def Let_def)

context forwarded_chain
begin

lemma coll_level: "query_level (fwd_level as_query put_query self ok Ls) ok"
  by (rule coll.query_level_axioms)

end

locale forwarded_scalar = forwarded_chain +
  assumes single: "\<forall>L \<in> set Ls. \<forall>d. length (lv_elems L d) \<le> 1"
begin

lemma single_paths: "set (map fst ls) \<subseteq> set Ls \<Longrightarrow> length (lpaths ls y) \<le> 1"
proof (induction ls arbitrary: y)
  case (Cons l ls)
  from Cons.prems single have "length (lv_elems (fst l) (Some y)) \<le> 1" by auto
  then consider "lv_elems (fst l) (Some y) = []" | x e where "lv_elems (fst l) (Some y) = [(x, e)]"
    by (cases "lv_elems (fst l) (Some y)" rule: remdups_adj.cases) auto
  then show ?case using Cons by cases (auto simp: lpaths.simps(2))
qed simp

lemma single_output: "chain_elems Ls d = [] \<or> (\<exists>y es. chain_elems Ls d = [(y, es)])"
proof -
  obtain L Ls' where L: "Ls = L # Ls'" using nonempty by (cases Ls) auto
  let ?ls = "map (\<lambda>L. (L, None)) Ls'"
  have tails: "length (lpaths ?ls y) \<le> 1" for y by (rule single_paths) (auto simp: L)
  have "length (lv_elems L d) \<le> 1" using single by (simp add: L)
  then have "length (chain_elems Ls d) \<le> 1"
  proof (cases "lv_elems L d")
    case (Cons x xs)
    then show ?thesis
      using \<open>length (lv_elems L d) \<le> 1\<close> tails [of "fst x"]
      by (cases x) (simp add: chain_elems_def chain_outs_def L expand_def)
  qed (simp add: chain_elems_def chain_outs_def L)
  then show ?thesis by (cases "chain_elems Ls d") auto
qed

end

sublocale forwarded_scalar \<subseteq> scal: query_level "fwd_scalar_level as_query put_query Ls" ok
proof (unfold_locales, goal_cases)
  case (1 q k c d)
  let ?L = "fwd_scalar_level as_query put_query Ls" and ?a = "qa_definitionData (q_ad q)"
  obtain qs where q: "qa_interface (q_ad q) = IfScalar (hdql_gScalarFwdQueryIFace as_query put_query)"
    "as_query ?a = Some qs" "chain_ready Ls qs"
    using 1(1) by (auto simp: fwd_scalar_level_def Let_def)
  have k: "\<forall>k0. k = Some k0 \<longrightarrow> list_fits Ls k0" and d: "d = None \<longrightarrow> lv_null (hd Ls)"
    using 1(2,4) by (simp_all add: key_fits_def fwd_scalar_level_def Let_def)
  obtain r qs' k' c' where r: "hdql_query_reset qs d k c = Some (r, qs', k', c')" "ok c'" "chain_ready Ls qs'"
    "case chain_elems Ls d of
       [] \<Rightarrow> r = None \<and> map_option erased k' = map_option erased k \<and> (chain_over ok Ls qs k \<longrightarrow> chain_over ok Ls qs' k')
     | (y, es) # outs \<Rightarrow> r = Some y \<and> k' = map_option (path_fill Ls (TPath es)) k \<and> chain_at ok Ls qs' k' outs"
    using reset_chain [OF q(3) k 1(3) d] by blast
  let ?q = "q_update (q\<lparr>q_owner := d\<rparr>) (q_state q) (put_query qs' ?a)"
  have call: "hdql__query_reset q d k c = Some (r, ?q, k', c')"
    using q r(1) by (auto simp: hdql__query_reset_def fwd_defs Let_def)
  show ?case
  proof (intro exI conjI)
    show "hdql__query_reset q d k c = Some (head_datum (lv_elems ?L d), ?q, k', c')"
      using call r(4) by (cases "chain_elems Ls d") (auto simp: fwd_scalar_level_def Let_def)
    show "after_reset ?L q k (lv_elems ?L d) ?q k'"
      using q r(3,4) as_put single_output [of d] by (auto simp: fwd_scalar_level_def Let_def q_update_def)
    show "key_after ?L (lv_elems ?L d) k k'"
      using r(4) by (cases "chain_elems Ls d") (auto simp: fwd_scalar_level_def Let_def key_after_def)
    show "ok c'" by (rule r(2))
  qed
next
  case (2 q k xs c)
  then show ?case by (auto simp: fwd_scalar_level_def Let_def hdql__query_yield_def key_after_def)
next
  case 5
  then show ?case using path_fill_shape [OF shapes levels] by (simp add: fwd_scalar_level_def Let_def)
next
  case (6 k1 k2 e)
  then have "erased k1 = erased k2" by (simp add: fwd_scalar_level_def Let_def)
  from path_fill_cong [OF shapes levels this] show ?case by (simp add: fwd_scalar_level_def Let_def)
next
  case (7 k1 k2)
  then have "erased k1 = erased k2" by (simp add: fwd_scalar_level_def Let_def)
  then show ?case by (rule erased_terminal)
next
  case (8 k1 k2)
  then have "erased k1 = erased k2" by (simp add: fwd_scalar_level_def Let_def)
  from list_fits_cong [OF shapes levels this] show ?case by (simp add: fwd_scalar_level_def Let_def)
qed (auto simp: fwd_scalar_level_def Let_def)

lemma level_shapes:
  "lv_shape (container_level iface mk_it contents P good sel) = erased"
  "lv_shape (scalar_level si vq f null) = erased"
  by (simp_all add: container_level_def scalar_level_def Let_def)

text \<open>The definition data of a forwarding attribute is the pointer to its chain: through a container, and to a member.\<close>

interpretation fwd_stl: forwarded_chain "\<lambda>b. b" "\<lambda>qs _. Some qs" no_oom
    "[container_level (stl_iface (\<lambda>i. i) Some (\<lambda>d. map (\<lambda>(x, v). (Some x, v)) (members d))) (\<lambda>i. i)
        (\<lambda>d. map (\<lambda>(x, v). (Some x, v)) (members d)) (\<lambda>_ _. True) (\<lambda>_. True) None]" for members
  by unfold_locales (simp_all only: list.set ball_simps level_shapes stl.lev.query_level_axioms, simp_all)

interpretation fwd_member: forwarded_scalar "\<lambda>b. b" "\<lambda>qs _. Some qs" "\<lambda>_. True"
    "[scalar_level (member_iface m) (\<lambda>_. True) (map_option m) False]" for m
  by unfold_locales
    (simp_all only: list.set ball_simps level_shapes member.lev.query_level_axioms,
     simp_all add: scalar_level_def split: option.split)

section \<open>A forwarding query shows its chain\<close>

lemma forwarded_outs: "chain_outs [(L, k)] d = map (\<lambda>(x, e). (x, [e])) (lv_elems L d)"
  by (simp add: chain_outs_def expand_def concat_singletons)

lemma chain_records:
  assumes F: "forwarded_chain as_query put_query ok Ls"
    and "chain_ready Ls qs" "list_fits Ls k" "ok c" "d = None \<longrightarrow> lv_null (hd Ls)"
  shows "query_records qs d (Some k) c = Some (map (\<lambda>(x, es). (x, Some (path_fill Ls (TPath es) k))) (chain_elems Ls d))"
proof -
  obtain ls ks where o: "map fst ls = Ls" "chain_valid ok ls qs ks" "keys_are (Some k) ks"
    using forwarded_chain.open_chain [OF F assms(2), of "Some k"] assms(3) by blast
  have null: "d = None \<longrightarrow> lv_null (fst (hd ls))" using assms(5) o(1) forwarded_chain.nonempty [OF F] by (cases ls) auto
  have "seen ls (Some k) (y, es) = (y, Some (path_fill Ls (TPath es) k))" if "(y, es) \<in> set (chain_outs ls d)" for y es
  proof -
    have suf: "suf_ok ok resettable qs ks ls" using o(2) by (simp add: chain_valid_def)
    have len: "length es = length Ls" using chain_outs_length [OF that] o(1) by auto
    have "length ks = length Ls" using suf_ok_length [OF suf] o(1) by auto
    from put_path [OF o(3) this len] show ?thesis by (simp add: suf_path_keys [OF suf] o(1))
  qed
  then have "map (seen ls (Some k)) (chain_outs ls d) =
      map (\<lambda>(x, es). (x, Some (path_fill Ls (TPath es) k))) (chain_outs ls d)"
    by (intro map_cong refl) auto
  with query_records_chain [OF o(2,3) assms(4) null] show ?thesis by (simp only: chain_outs_levels [OF o(1)])
qed

lemma level_records:
  assumes L: "query_level L ok" "lv_valid L q" "lv_elems L = (\<lambda>d. map (\<lambda>(x, es). (h d x, TPath es)) (chain_elems Ls d))"
      "lv_kf L = path_fill Ls" "lv_keyok L = list_fits Ls"
    and k: "list_fits Ls k" and c: "ok c" and d: "d = None \<longrightarrow> lv_null L"
  shows "query_records [q] d (Some (list_key [k])) c =
    Some (map (\<lambda>(x, es). (h d x, Some (list_key [path_fill Ls (TPath es) k]))) (chain_elems Ls d))"
proof -
  have "chain_valid ok [(L, Some k)] [q] [Some k]"
    using L k by (simp add: chain_valid_def klevel_ok_def key_fits_def resettable_def kshape_def)
  then have "query_records [q] d (Some (list_key [k])) c =
      Some (map (seen [(L, Some k)] (Some (list_key [k]))) (chain_outs [(L, Some k)] d))"
    by (rule query_records_chain [where ok = ok]) (use c d list_key_facts(1) [of "[k]"] in simp_all)
  then show ?thesis
    by (simp add: forwarded_outs L(3,4) list_key_facts path_keys_def ekey_def o_def split_beta)
qed


text \<open>
  C4: A query on an attribute that forwards to a chain (as a collection) is handled as the records
  of the chain itself, in the same order, each with the chain's list key as its one key.
\<close>

theorem forwarded_records:
  assumes "forwarded_chain as_query put_query ok Ls" "chain_ready Ls qs" "list_fits Ls k" "ok c"
    and "d = None \<longrightarrow> lv_null (hd Ls)"
    and "qa_interface (q_ad q) = IfCollection (hdql_gCollectionFwdQueryIFace as_query put_query self)"
      "q_state q = None" "as_query (qa_definitionData (q_ad q)) = Some qs"
  shows "query_records [q] d (Some (list_key [k])) c =
    map_option (map (\<lambda>(x, k). (x, Some (list_key [the k])))) (query_records qs d (Some k) c)"
proof -
  let ?L = "fwd_level as_query put_query self ok Ls"
  have "query_level ?L ok" by (rule forwarded_chain.coll_level [OF assms(1)])
  moreover have "lv_valid ?L q" using assms(2,6-8) by (simp add: fwd_level_def)
  ultimately have "query_records [q] d (Some (list_key [k])) c =
      Some (map (\<lambda>(x, es). (x, Some (list_key [path_fill Ls (TPath es) k]))) (chain_elems Ls d))"
    by (rule level_records [where h = "\<lambda>_ x. x"]) (use assms(3-5) in \<open>simp_all add: fwd_level_def path_elems_def Let_def\<close>)
  then show ?thesis
    by (simp add: chain_records [OF assms(1-5)] o_def split_beta)
qed


definition sample_fwd_query ::
  "(nat, nat cpp_iterator, unit, bytes) hdql_Query list \<Rightarrow>
   (nat, unit, (nat, nat cpp_iterator, unit, bytes) hdql_Query list option, bytes) hdql_Query" where
  "sample_fwd_query qs = \<lparr>q_addr = 1, q_owner = None,
     q_ad = \<lparr>qa_addr = 2, qa_interface = IfCollection (hdql_gCollectionFwdQueryIFace (\<lambda>b. b) (\<lambda>qs _. Some qs) ()),
       qa_definitionData = Some qs, qa_isFwdQuery = True, qa_isTransient = False, qa_transient_dtr = None\<rparr>,
     q_ownsSubject = False, q_state = None, q_selectionArgs = None, q_label = None\<rparr>"

lemma forwarded_records_witness:
  "map_option (map fst) (query_records [sample_fwd_query [sample_query () stl_sample, sample_query () stl_sample]]
      (Some 4) (Some (list_key [list_key [sample_key False, sample_key True]])) ctx_roomy) =
   Some [400, 401, 402, 410, 411, 412, 420, 421, 422]"
proof -
  let ?L = "container_level stl_sample (\<lambda>i. i) sample_contents (\<lambda>_ _. True) (\<lambda>_. True) None"
  let ?k = "list_key [sample_key False, sample_key True]" and ?qs = "[sample_query () stl_sample, sample_query () stl_sample]"
  have I: "container_interface stl_sample (\<lambda>i. i) sample_contents (\<lambda>_ _. True) (\<lambda>_. True) None"
    by (rule stl_container) (simp_all add: sample_nonnull)
  have "query_level ?L no_oom"
    using container_interface.klevel [OF I, of "sample_key True"] by (simp add: klevel_ok_def sample_key_def key_types)
  then have F: "forwarded_chain (\<lambda>b. b) (\<lambda>qs _. Some qs) no_oom [?L, ?L]"
    by unfold_locales (simp_all add: level_shapes)
  have "lv_valid ?L (sample_query () stl_sample)" by (simp add: container_level_def sample_query_def)
  then have ready: "chain_ready [?L, ?L] ?qs" by (simp add: chain_ready_def)
  have fits: "list_fits [?L, ?L] ?k"
    by (simp add: list_key_def sample_key_def container_level_def key_types)
  have c: "no_oom ctx_roomy" by (simp add: ctx_roomy_def no_oom_def)
  show ?thesis
    by (subst forwarded_records [OF F ready fits c, where self = "()"])
      (simp_all add: sample_fwd_query_def chain_records [OF F ready fits c] chain_elems_def chain_outs_def
        expand_def lpaths.simps elements_def sample_contents_def upto_3)
qed

end
