(* ===== verification/Dictionaries.thy ===== *)
theory Dictionaries
  imports Compound
begin

text \<open>
  The dictionaries of a context that fall back on those of its parent: named constants
  (\<open>src/value.cc\<close>), functions (\<open>src/function.cc\<close>) and custom data (\<open>src/context.cc\<close>), and the law
  they share with the attributes of a virtual compound.
\<close>

section \<open>Tables that inherit from a parent\<close>

locale inherited =
  fixes own :: "'t \<Rightarrow> 'k \<Rightarrow> 'v option" and parent :: "'t \<Rightarrow> 't option" and get :: "'t \<Rightarrow> 'k \<Rightarrow> 'v option"
  assumes get_own: "own t k = Some v \<Longrightarrow> get t k = Some v"
    and get_root: "own t k = None \<Longrightarrow> parent t = None \<Longrightarrow> get t k = None"
    and get_parent: "own t k = None \<Longrightarrow> parent t = Some p \<Longrightarrow> get t k = get p k"
    and grounded: "wf {(p, t). parent t = Some p}"
begin

text \<open>The value is found in the nearest table that has the key.\<close>

inductive nearest :: "'t \<Rightarrow> 'k \<Rightarrow> 'v \<Rightarrow> bool" where
  here: "own t k = Some v \<Longrightarrow> nearest t k v"
| up: "own t k = None \<Longrightarrow> parent t = Some p \<Longrightarrow> nearest p k v \<Longrightarrow> nearest t k v"

lemma get_nearest: "get t k = Some v \<longleftrightarrow> nearest t k v"
proof
  show "nearest t k v \<Longrightarrow> get t k = Some v"
    by (induction rule: nearest.induct) (simp_all add: get_own get_parent)
  show "get t k = Some v \<Longrightarrow> nearest t k v"
    using grounded
  proof (induction t rule: wf_induct_rule)
    case (less t)
    show ?case
    proof (cases "own t k")
      case None
      with less.prems get_root obtain p where p: "parent t = Some p" by (cases "parent t") auto
      with None less show ?thesis by (auto simp: get_parent intro: nearest.up)
    next
      case (Some w)
      with less.prems get_own [OF Some] show ?thesis by (auto intro: here)
    qed
  qed
qed

text \<open>A new entry of its own is all that changes; an erased one lets the parent's show again.\<close>

lemma get_define:
  assumes "parent t' = parent t" "own t' = (own t)(k \<mapsto> v)"
  shows "get t' = (get t)(k \<mapsto> v)"
proof
  fix j
  show "get t' j = ((get t)(k \<mapsto> v)) j"
  proof (cases "own t' j")
    case None
    then have "own t j = None" "j \<noteq> k" using assms(2) by (auto split: if_splits)
    with None assms(1) show ?thesis
      using get_root get_parent by (cases "parent t") simp_all
  next
    case (Some w)
    then show ?thesis using assms(2) get_own [OF Some] get_own [of t j w] by (auto split: if_splits)
  qed
qed

lemma get_erase:
  assumes "parent t' = parent t" "own t' = (own t)(k := None)"
  shows "get t' = (get t)(k := Option.bind (parent t) (\<lambda>p. get p k))"
proof
  fix j
  show "get t' j = ((get t)(k := Option.bind (parent t) (\<lambda>p. get p k))) j"
  proof (cases "own t' j")
    case None
    then have t: "get t' j = Option.bind (parent t) (\<lambda>p. get p j)"
      using assms(1) get_root get_parent by (cases "parent t") simp_all
    show ?thesis
    proof (cases "j = k")
      case True
      then show ?thesis using t by simp
    next
      case False
      with None assms(2) have "own t j = None" by simp
      then have "get t j = Option.bind (parent t) (\<lambda>p. get p j)"
        using get_root get_parent by (cases "parent t") simp_all
      with False t show ?thesis by simp
    qed
  next
    case (Some w)
    then show ?thesis using assms(2) get_own [OF Some] get_own [of t j w] by (auto split: if_splits)
  qed
qed

end

text \<open>A parent inside the value is smaller than the value.\<close>

lemma parent_wf: "(\<And>p t. par t = Some p \<Longrightarrow> size p < size t) \<Longrightarrow> wf {(p, t). par t = Some p}"
  by (rule wf_subset [OF wf_measure [of size]]) auto

section \<open>Attributes of compounds\<close>

interpretation attrs: inherited "\<lambda>cp. map_of (cp_attrs cp)" cp_parent hdql_compound_get_attr
proof
  show "wf {(p, t). cp_parent t = Some p}"
  proof (rule parent_wf)
    show "size p < size t" if "cp_parent t = Some p" for p t :: hdql_Compound
      using that by (cases t) auto
  qed
  show "map_of (cp_attrs t) k = Some v \<Longrightarrow> hdql_compound_get_attr t k = Some v" for t k v by (cases t) simp
  show "map_of (cp_attrs t) k = None \<Longrightarrow> cp_parent t = None \<Longrightarrow> hdql_compound_get_attr t k = None" for t k by (cases t) simp
  show "map_of (cp_attrs t) k = None \<Longrightarrow> cp_parent t = Some p \<Longrightarrow>
      hdql_compound_get_attr t k = hdql_compound_get_attr p k" for t k p by (cases t) simp
qed

section \<open>Constants\<close>

datatype hdql_ExternValueType = hdql_kExternValUndefined | hdql_kExternValIntType | hdql_kExternValFltType

text \<open>The type and the eight bytes of the union.\<close>

datatype ConstValItem = ConstValItem (cv_type: hdql_ExternValueType) (cv_value: u64)

datatype hdql_Constants = Constants (cs_parent: "hdql_Constants option") (cs_values: "(string \<times> ConstValItem) list")

text \<open>Equality of doubles on their bits: no NaN is equal to anything, the two zeros are equal.\<close>

definition flt_mag :: "u64 \<Rightarrow> u64" where
  "flt_mag w = w AND 0x7FFFFFFFFFFFFFFF"

definition flt_nan :: "u64 \<Rightarrow> bool" where
  "flt_nan w \<longleftrightarrow> flt_mag w > 0x7FF0000000000000"

definition flt_eq :: "u64 \<Rightarrow> u64 \<Rightarrow> bool" where
  "flt_eq a b \<longleftrightarrow> \<not> flt_nan a \<and> \<not> flt_nan b \<and> (a = b \<or> flt_mag a = 0 \<and> flt_mag b = 0)"

definition const_define ::
  "(u64 \<Rightarrow> u64 \<Rightarrow> bool) \<Rightarrow> hdql_Constants \<Rightarrow> string option \<Rightarrow> ConstValItem \<Rightarrow> hdql_Err_t \<times> hdql_Constants" where
  "const_define eq consts name item = (case name of
     None \<Rightarrow> (HDQL_ERR_BAD_ARGUMENT, consts)
   | Some n \<Rightarrow>
       if n = [] then (HDQL_ERR_BAD_ARGUMENT, consts)
       else (case map_of (cs_values consts) n of
           None \<Rightarrow> (HDQL_ERR_CODE_OK, Constants (cs_parent consts) ((n, item) # cs_values consts))
         | Some old \<Rightarrow>
             if eq (cv_value old) (cv_value item) then (HDQL_ERR_CODE_OK, consts)
             else (HDQL_ERR_NAME_COLLISION, consts)))"

definition hdql_constants_define_float ::
  "hdql_Constants \<Rightarrow> string option \<Rightarrow> u64 \<Rightarrow> hdql_Err_t \<times> hdql_Constants" where
  "hdql_constants_define_float consts name v = const_define flt_eq consts name (ConstValItem hdql_kExternValFltType v)"

definition hdql_constants_define_int ::
  "hdql_Constants \<Rightarrow> string option \<Rightarrow> u64 \<Rightarrow> hdql_Err_t \<times> hdql_Constants" where
  "hdql_constants_define_int consts name v = const_define (=) consts name (ConstValItem hdql_kExternValIntType v)"

text \<open>The type and, where \<open>*destPtr\<close> is set, the value it points to.\<close>

fun hdql_constants_get_value :: "hdql_Constants \<Rightarrow> string option \<Rightarrow> hdql_ExternValueType \<times> u64 option" where
  "hdql_constants_get_value (Constants parent values) name =
     (if name = None \<or> name = Some [] then (hdql_kExternValUndefined, None)
      else case map_of values (the name) of
        None \<Rightarrow> (case parent of
            Some p \<Rightarrow> hdql_constants_get_value p name
          | None \<Rightarrow> (hdql_kExternValUndefined, None))
      | Some item \<Rightarrow> (cv_type item, Some (cv_value item)))"

definition hdql_constants_create :: "hdql_Constants option \<Rightarrow> hdql_Constants" where
  "hdql_constants_create parent = Constants parent []"

text \<open>The bits of \<open>M_PI\<close> and \<open>M_E\<close>.\<close>

definition hdql_constants_define_standard_math :: "hdql_Constants \<Rightarrow> hdql_Err_t \<times> hdql_Constants" where
  "hdql_constants_define_standard_math consts =
     (let (rc, consts) = hdql_constants_define_float consts (Some ''pi'') 0x400921FB54442D18 in
      if rc \<noteq> HDQL_ERR_CODE_OK then (rc, consts)
      else hdql_constants_define_float consts (Some ''e'') 0x4005BF0A8B145769)"

definition const_get :: "hdql_Constants \<Rightarrow> string \<Rightarrow> ConstValItem option" where
  "const_get consts n = (case hdql_constants_get_value consts (Some n) of
     (ty, Some v) \<Rightarrow> Some (ConstValItem ty v) | (_, None) \<Rightarrow> None)"

interpretation cv: inherited "\<lambda>t n. if n = [] then None else map_of (cs_values t) n" cs_parent const_get
proof
  show "wf {(p, t). cs_parent t = Some p}"
  proof (rule parent_wf)
    show "size p < size t" if "cs_parent t = Some p" for p t using that by (cases t) auto
  qed
  show "(if k = [] then None else map_of (cs_values t) k) = None \<Longrightarrow> cs_parent t = Some p \<Longrightarrow> const_get t k = const_get p k"
    for t k p by (cases t; cases p) (auto simp: const_get_def split: if_splits)
  show "(if k = [] then None else map_of (cs_values t) k) = Some v \<Longrightarrow> const_get t k = Some v" for t k v
    by (cases t) (auto simp: const_get_def split: if_splits)
  show "(if k = [] then None else map_of (cs_values t) k) = None \<Longrightarrow> cs_parent t = None \<Longrightarrow> const_get t k = None" for t k
    by (cases t) (auto simp: const_get_def split: if_splits)
qed

text \<open>A definition of a new name is found; a known name is left alone, whatever its type.\<close>

lemma const_define_spec:
  assumes "const_define eq consts (Some n) item = (rc, consts')" "n \<noteq> []"
  shows "rc = HDQL_ERR_CODE_OK \<and> map_of (cs_values consts) n = None \<and> const_get consts' = (const_get consts)(n \<mapsto> item) \<or>
    consts' = consts \<and> (\<exists>old. const_get consts n = Some old \<and>
      rc = (if eq (cv_value old) (cv_value item) then HDQL_ERR_CODE_OK else HDQL_ERR_NAME_COLLISION))"
proof (cases "map_of (cs_values consts) n")
  case None
  with assms have c: "rc = HDQL_ERR_CODE_OK" "consts' = Constants (cs_parent consts) ((n, item) # cs_values consts)"
    by (auto simp: const_define_def)
  have "const_get consts' = (const_get consts)(n \<mapsto> item)"
    by (rule cv.get_define) (use assms(2) c in \<open>auto simp: fun_eq_iff\<close>)
  with None c show ?thesis by simp
next
  case (Some old)
  with assms have "const_get consts n = Some old" by (simp add: cv.get_own)
  with Some assms show ?thesis by (auto simp: const_define_def split: if_splits)
qed

section \<open>Custom data of a context\<close>

datatype custom_data = CustomData (cd_parent: "custom_data option") (cd_data: "(string \<times> addr option) list")

definition hdql_context_custom_data_add :: "custom_data \<Rightarrow> string \<Rightarrow> addr option \<Rightarrow> int \<times> custom_data" where
  "hdql_context_custom_data_add cd name ptr = (case map_of (cd_data cd) name of
     Some _ \<Rightarrow> (-1, cd)
   | None \<Rightarrow> (0, CustomData (cd_parent cd) ((name, ptr) # cd_data cd)))"

fun hdql_context_custom_data_get :: "custom_data \<Rightarrow> string \<Rightarrow> addr option" where
  "hdql_context_custom_data_get (CustomData parent data) name = (case map_of data name of
     None \<Rightarrow> (case parent of Some p \<Rightarrow> hdql_context_custom_data_get p name | None \<Rightarrow> None)
   | Some ptr \<Rightarrow> ptr)"

definition hdql_context_custom_data_erase :: "custom_data \<Rightarrow> string \<Rightarrow> int \<times> custom_data" where
  "hdql_context_custom_data_erase cd name = (case map_of (cd_data cd) name of
     None \<Rightarrow> (-1, cd)
   | Some _ \<Rightarrow> (0, CustomData (cd_parent cd) (filter (\<lambda>(n, p). n \<noteq> name) (cd_data cd))))"

lemma custom_data_add_get:
  assumes "hdql_context_custom_data_add cd name ptr = (rc, cd')"
  shows "hdql_context_custom_data_get cd' = (hdql_context_custom_data_get cd)
      (name := if rc = 0 then ptr else hdql_context_custom_data_get cd name)"
    and "rc = 0 \<or> rc = - 1" "rc = - 1 \<Longrightarrow> cd' = cd"
  using assms by (cases cd; auto simp: hdql_context_custom_data_add_def fun_eq_iff split: option.splits)+

lemma custom_data_erase_get:
  assumes "hdql_context_custom_data_erase cd name = (0, cd')"
  shows "hdql_context_custom_data_get cd' = (hdql_context_custom_data_get cd)
      (name := Option.bind (cd_parent cd) (\<lambda>p. hdql_context_custom_data_get p name))"
proof -
  have m: "map_of (filter (\<lambda>(n, p). n \<noteq> name) xs) = (map_of xs)(name := None)" for xs :: "(string \<times> addr option) list"
    by (induction xs) (auto simp: fun_eq_iff)
  show ?thesis
    using assms by (cases cd) (auto simp: hdql_context_custom_data_erase_def fun_eq_iff m split: option.splits)
qed

section \<open>Functions\<close>

text \<open>
  A definition is a constructor that is given the argument queries and the context: it returns an
  attribute definition or null. The definitions of a name are tried in the order the multimap keeps
  them, the list's. \<open>resolve\<close> is called again on the same dictionary where the parent is meant.
\<close>

type_synonym ('q, 'r) constructor = "'q \<Rightarrow> hdql_Context \<Rightarrow> ('r option \<times> hdql_Context) option"

datatype ('q, 'r) hdql_Functions = Functions
  (fn_parent: "('q, 'r) hdql_Functions option") (fn_defs: "(string \<times> ('q, 'r) constructor) list")

definition hdql_functions_define ::
  "('q, 'r) hdql_Functions \<Rightarrow> string option \<Rightarrow> ('q, 'r) constructor option \<Rightarrow> int \<times> ('q, 'r) hdql_Functions" where
  "hdql_functions_define fs name fdef = (case name of
     None \<Rightarrow> (-1, fs)
   | Some n \<Rightarrow>
       if n = [] then (-1, fs)
       else (case fdef of
           None \<Rightarrow> (-2, fs)
         | Some f \<Rightarrow> (0, Functions (fn_parent fs) (fn_defs fs @ [(n, f)]))))"

fun try_all :: "('q, 'r) constructor list \<Rightarrow> 'q \<Rightarrow> hdql_Context \<Rightarrow> (hdql_Err_t \<times> 'r option \<times> hdql_Context) option" where
  "try_all [] args c = Some (HDQL_ERR_FUNC_CANT_INSTANTIATE, None, c)"
| "try_all (f # fs) args c = do {
     (r, c) \<leftarrow> f args c;
     if r \<noteq> None then Some (HDQL_ERR_CODE_OK, r, c) else try_all fs args c }"

partial_function (option) hdql_functions_resolve ::
  "('q, 'r) hdql_Functions \<Rightarrow> string \<Rightarrow> 'q \<Rightarrow> hdql_Context \<Rightarrow> (hdql_Err_t \<times> 'r option \<times> hdql_Context) option"
where
  "hdql_functions_resolve fs name args c =
     (let defs = map snd (filter (\<lambda>(n, f). n = name) (fn_defs fs)) in
      if defs = [] then
        (if fn_parent fs = None then Some (HDQL_ERR_FUNC_UNKNOWN, None, c)
         else hdql_functions_resolve fs name args c)
      else try_all defs args c)"

definition hdql_functions_create :: "('q, 'r) hdql_Functions option \<Rightarrow> ('q, 'r) hdql_Functions" where
  "hdql_functions_create parent = Functions parent []"

text \<open>Looking up an unknown name from a dictionary with a parent never returns.\<close>

lemma resolve_diverges:
  assumes "filter (\<lambda>(n, f). n = name) (fn_defs fs) = []" "fn_parent fs \<noteq> None"
  shows "hdql_functions_resolve fs name args c = None"
proof -
  have "hdql_functions_resolve fs name args c = Some r \<Longrightarrow>
      fs = fs0 \<and> name = name0 \<longrightarrow> filter (\<lambda>(n, f). n = name0) (fn_defs fs0) = [] \<longrightarrow> fn_parent fs0 \<noteq> None \<longrightarrow> False"
    for r fs0 name0
  proof (induction rule: hdql_functions_resolve.raw_induct [rotated, consumes 1, case_names step])
    case (step resolve fs name args c r)
    show ?case
    proof (intro impI, elim conjE)
      assume fs: "fs = fs0" "name = name0" and none: "filter (\<lambda>(n, f). n = name0) (fn_defs fs0) = []" "fn_parent fs0 \<noteq> None"
      from step.hyps have "resolve fs name args c = Some r" unfolding fs Let_def none(1) using none(2) by simp
      from step.IH [OF this] fs none show False by blast
    qed
  qed
  with assms show ?thesis by (cases "hdql_functions_resolve fs name args c") auto
qed

text \<open>The first constructor that makes an attribute definition gives the result.\<close>

lemma try_all_first:
  "try_all fs args c = Some (rc, r, c') \<Longrightarrow>
   rc = HDQL_ERR_CODE_OK \<and> r \<noteq> None \<or> rc = HDQL_ERR_FUNC_CANT_INSTANTIATE \<and> r = None"
  by (induction fs arbitrary: c) (auto split: if_splits)

lemma try_all_returns:
  "(\<And>f c. f \<in> set fs \<Longrightarrow> f args c \<noteq> None) \<Longrightarrow> try_all fs args c \<noteq> None"
proof (induction fs arbitrary: c)
  case (Cons f fs)
  from Cons.prems [of f c] obtain r c1 where "f args c = Some (r, c1)" by auto
  with Cons show ?case by simp
qed simp

section \<open>The properties\<close>

text \<open>The constructors defined under a name, and all of some declining, one after the other: what they leave of the context.\<close>

definition ctors_of :: "('q, 'r) hdql_Functions \<Rightarrow> string \<Rightarrow> ('q, 'r) constructor list" where
  "ctors_of fs name = map snd (filter (\<lambda>(n, f). n = name) (fn_defs fs))"

fun declined :: "('q, 'r) constructor list \<Rightarrow> 'q \<Rightarrow> hdql_Context \<Rightarrow> hdql_Context option" where
  "declined [] args c = Some c"
| "declined (f # fs) args c = (case f args c of Some (None, c) \<Rightarrow> declined fs args c | _ \<Rightarrow> None)"

lemma try_all_iff:
  "try_all fs args c = Some (rc, r, c') \<longleftrightarrow>
     (\<exists>failed f rest c1. fs = failed @ f # rest \<and> declined failed args c = Some c1 \<and> f args c1 = Some (r, c') \<and>
        r \<noteq> None \<and> rc = HDQL_ERR_CODE_OK) \<or>
     declined fs args c = Some c' \<and> r = None \<and> rc = HDQL_ERR_FUNC_CANT_INSTANTIATE"
proof (induction fs arbitrary: c)
  case (Cons g fs)
  have split: "(\<exists>failed f rest c1. g # fs = failed @ f # rest \<and> declined failed args c = Some c1 \<and> P f c1) \<longleftrightarrow>
      P g c \<or> (\<exists>c0. g args c = Some (None, c0) \<and>
        (\<exists>failed f rest c1. fs = failed @ f # rest \<and> declined failed args c0 = Some c1 \<and> P f c1))" for P
  proof (intro iffI; elim exE conjE disjE)
    fix failed f rest c1
    assume "g # fs = failed @ f # rest" "declined failed args c = Some c1" "P f c1"
    then show "P g c \<or> (\<exists>c0. g args c = Some (None, c0) \<and>
        (\<exists>failed f rest c1. fs = failed @ f # rest \<and> declined failed args c0 = Some c1 \<and> P f c1))"
      by (cases failed) (auto split: option.split_asm prod.split_asm)
  next
    assume "P g c"
    then show "\<exists>failed f rest c1. g # fs = failed @ f # rest \<and> declined failed args c = Some c1 \<and> P f c1"
      by (intro exI [of _ "[]"]) simp
  next
    fix c0 failed f rest c1
    assume "g args c = Some (None, c0)" "fs = failed @ f # rest" "declined failed args c0 = Some c1" "P f c1"
    then show "\<exists>failed f rest c1. g # fs = failed @ f # rest \<and> declined failed args c = Some c1 \<and> P f c1"
      by (intro exI [of _ "g # failed"] exI [of _ f] exI [of _ rest] exI [of _ c1]) simp
  qed
  show ?case
  proof (cases "g args c")
    case None
    then show ?thesis unfolding split by simp
  next
    case (Some x)
    obtain r0 c0 where x: "x = (r0, c0)" by (cases x)
    show ?thesis unfolding split using Some x Cons.IH [of c0] by (cases r0) auto
  qed
qed auto

text \<open>
  C21: Resolving a name runs the constructors defined under it one after the other, each in the context the
  one before left, up to the first that makes an attribute, whose result it returns: no constructor after it
  is run. When all decline, that is reported. An unknown name is reported as such by a dictionary without a
  parent; from one with a parent the call does not return. There is no other way for it to return.
\<close>

theorem functions_resolve_spec:
  "hdql_functions_resolve fs name args c = Some (rc, r, c') \<longleftrightarrow>
     (\<exists>failed f rest c1. ctors_of fs name = failed @ f # rest \<and> declined failed args c = Some c1 \<and> f args c1 = Some (r, c') \<and>
        r \<noteq> None \<and> rc = HDQL_ERR_CODE_OK) \<or>
     (ctors_of fs name \<noteq> [] \<and> declined (ctors_of fs name) args c = Some c' \<and> r = None \<and> rc = HDQL_ERR_FUNC_CANT_INSTANTIATE) \<or>
     (ctors_of fs name = [] \<and> fn_parent fs = None \<and> r = None \<and> c' = c \<and> rc = HDQL_ERR_FUNC_UNKNOWN)"
proof (cases "ctors_of fs name")
  case Nil
  then have none: "filter (\<lambda>(n, f). n = name) (fn_defs fs) = []" by (simp add: ctors_of_def)
  show ?thesis
  proof (cases "fn_parent fs")
    case None
    with none Nil show ?thesis by (subst hdql_functions_resolve.simps) (auto simp: Let_def)
  next
    case (Some p)
    with none Nil resolve_diverges [OF none] show ?thesis by simp
  qed
next
  case (Cons f fs')
  then have "hdql_functions_resolve fs name args c = try_all (ctors_of fs name) args c"
    by (subst hdql_functions_resolve.simps) (auto simp: Let_def ctors_of_def)
  then show ?thesis using try_all_iff [of "ctors_of fs name" args c rc r c'] Cons by auto
qed

text \<open>The second of three constructors makes the attribute, in the context where the first left an error.\<close>

lemma functions_resolve_spec_witness:
  "hdql_functions_resolve (Functions None [(''f'', \<lambda>x c. Some (None, hdql_context_err_push HDQL_ERR_BAD_ARGUMENT c)),
       (''g'', \<lambda>x c. None), (''f'', \<lambda>x c. Some (Some (x + 1), c)), (''f'', \<lambda>x c. None)]) ''f'' (7 :: nat) ctx_sample =
     Some (HDQL_ERR_CODE_OK, Some 8, hdql_context_err_push HDQL_ERR_BAD_ARGUMENT ctx_sample)"
  unfolding functions_resolve_spec
  by (intro disjI1 exI [of _ "[\<lambda>x c. Some (None, hdql_context_err_push HDQL_ERR_BAD_ARGUMENT c)]"])
    (auto simp: ctors_of_def)

text \<open>
  A constant defined under a new name is what that name gives from then on, in the table and in
  those derived from it, and no other name changes. A name the table already has keeps its value
  and type; the call succeeds if the eight bytes of the values are equal, whatever their types.
\<close>

theorem constants_define_int_spec:
  assumes "n \<noteq> []" "hdql_constants_define_int t (Some n) v = (rc, t')"
  shows "rc = HDQL_ERR_CODE_OK \<and> map_of (cs_values t) n = None \<and>
      const_get t' = (const_get t)(n \<mapsto> ConstValItem hdql_kExternValIntType v) \<or>
    t' = t \<and> (\<exists>old. const_get t n = Some old \<and>
      rc = (if cv_value old = v then HDQL_ERR_CODE_OK else HDQL_ERR_NAME_COLLISION))"
  using const_define_spec [OF assms(2) [unfolded hdql_constants_define_int_def] assms(1)] by simp

text \<open>The integer with the bits of pi may be defined under the name of the constant, which stays a float.\<close>

lemma constants_define_int_spec_witness:
  "const_get (snd (hdql_constants_define_standard_math (hdql_constants_create None))) ''pi'' =
     Some (ConstValItem hdql_kExternValFltType 0x400921FB54442D18) \<and>
   hdql_constants_define_int (snd (hdql_constants_define_standard_math (hdql_constants_create None))) (Some ''pi'') 0x400921FB54442D18 =
     (HDQL_ERR_CODE_OK, snd (hdql_constants_define_standard_math (hdql_constants_create None)))"
proof -
  let ?t = "snd (hdql_constants_define_standard_math (hdql_constants_create None))"
  have t: "?t = Constants None [(''e'', ConstValItem hdql_kExternValFltType 0x4005BF0A8B145769),
      (''pi'', ConstValItem hdql_kExternValFltType 0x400921FB54442D18)]"
    by (simp add: hdql_constants_define_standard_math_def hdql_constants_create_def hdql_constants_define_float_def
        const_define_def)
  obtain rc t' where d: "hdql_constants_define_int ?t (Some ''pi'') 0x400921FB54442D18 = (rc, t')"
    by (cases "hdql_constants_define_int ?t (Some ''pi'') 0x400921FB54442D18")
  have get: "const_get ?t ''pi'' = Some (ConstValItem hdql_kExternValFltType 0x400921FB54442D18)"
    unfolding t by (simp add: const_get_def)
  have "t' = ?t \<and> rc = HDQL_ERR_CODE_OK"
    using constants_define_int_spec [OF _ d] get by (auto simp: t)
  with d get show ?thesis by simp
qed

end
