(* ===== verification/Search.thy ===== *)
theory Search
  imports Prelude
begin

text \<open>
  \<open>qsort\<close> and \<open>bsearch\<close> of the C library, on an array of records compared by a key. \<open>qsort\<close> is a sort
  that keeps the order of equal keys, \<open>bsearch\<close> halves the range \<open>[l, u)\<close>.
\<close>

definition c_qsort :: "('r \<Rightarrow> 'k::linorder) \<Rightarrow> 'r list \<Rightarrow> 'r list" where
  "c_qsort key xs = sort_key key xs"

function bsearch_in :: "('r \<Rightarrow> 'k::linorder) \<Rightarrow> 'k \<Rightarrow> 'r list \<Rightarrow> nat \<Rightarrow> nat \<Rightarrow> 'r option" where
  "bsearch_in key k xs l u =
     (if l < u then
        let i = (l + u) div 2; r = xs ! i in
        if k < key r then bsearch_in key k xs l i
        else if key r < k then bsearch_in key k xs (Suc i) u
        else Some r
      else None)"
  by pat_completeness auto
termination by (relation "measure (\<lambda>(key, k, xs, l, u). u - l)") auto

declare bsearch_in.simps [simp del]

definition c_bsearch :: "('r \<Rightarrow> 'k::linorder) \<Rightarrow> 'k \<Rightarrow> 'r list \<Rightarrow> 'r option" where
  "c_bsearch key k xs = bsearch_in key k xs 0 (length xs)"

lemma bsearch_in_found:
  "bsearch_in key k xs l u = Some r \<Longrightarrow> u \<le> length xs \<Longrightarrow> r \<in> set xs \<and> key r = k"
proof (induction key k xs l u rule: bsearch_in.induct)
  case (1 key k xs l u)
  show ?case
    using 1 by (subst (asm) (3) bsearch_in.simps) (auto simp: Let_def split: if_splits)
qed

lemma bsearch_in_none:
  "bsearch_in key k xs l u = None \<Longrightarrow> sorted (map key xs) \<Longrightarrow> u \<le> length xs \<Longrightarrow> l \<le> j \<Longrightarrow> j < u \<Longrightarrow>
   key (xs ! j) \<noteq> k"
proof (induction key k xs l u arbitrary: j rule: bsearch_in.induct)
  case (1 key k xs l u)
  let ?i = "(l + u) div 2"
  have lu: "l < u" "?i < u" "l \<le> ?i" using 1(6,7) by auto
  have mono: "a \<le> b \<Longrightarrow> b < length xs \<Longrightarrow> key (xs ! a) \<le> key (xs ! b)" for a b
    using sorted_nth_mono [OF 1(4), of a b] by simp
  consider (below) "k < key (xs ! ?i)" "bsearch_in key k xs l ?i = None"
    | (above) "key (xs ! ?i) < k" "bsearch_in key k xs (Suc ?i) u = None"
    using 1(3) lu(1) by (subst (asm) bsearch_in.simps) (auto simp: Let_def split: if_splits)
  then show ?case
  proof cases
    case below
    show ?thesis
    proof (cases "j < ?i")
      case True
      show ?thesis
        by (rule 1(1) [OF lu(1) refl refl below(1,2) 1(4) _ 1(6) True]) (use 1(5) lu in simp)
    next
      case False
      then show ?thesis using mono [of ?i j] 1(5,7) below(1) by auto
    qed
  next
    case above
    show ?thesis
    proof (cases "?i < j")
      case True
      show ?thesis
        by (rule 1(2) [OF lu(1) refl refl _ above(1,2) 1(4,5) _ 1(7)]) (use above(1) True in auto)
    next
      case False
      then show ?thesis using mono [of j ?i] 1(5) lu(2) above(1) by auto
    qed
  qed
qed

text \<open>On a sorted array a record with the key is found if there is one.\<close>

lemma c_bsearch_spec:
  assumes "sorted (map key xs)"
  shows "case c_bsearch key k xs of None \<Rightarrow> \<forall>r \<in> set xs. key r \<noteq> k | Some r \<Rightarrow> r \<in> set xs \<and> key r = k"
proof (cases "c_bsearch key k xs")
  case None
  then have "bsearch_in key k xs 0 (length xs) = None" by (simp add: c_bsearch_def)
  from bsearch_in_none [OF this assms] have "\<forall>j < length xs. key (xs ! j) \<noteq> k" by simp
  then have "\<forall>r \<in> set xs. key r \<noteq> k" by (metis in_set_conv_nth)
  with None show ?thesis by simp
next
  case (Some r)
  then show ?thesis using bsearch_in_found [of key k xs 0 "length xs" r] by (simp add: c_bsearch_def)
qed

text \<open>Sorted first, with each key once, the array is the map of its records.\<close>

lemma c_bsearch_qsort:
  assumes "distinct (map key xs)"
  shows "c_bsearch key k (c_qsort key xs) = map_of (map (\<lambda>r. (key r, r)) xs) k"
proof (cases "c_bsearch key k (c_qsort key xs)")
  case None
  moreover have "sorted (map key (c_qsort key xs))" by (simp add: c_qsort_def)
  ultimately have "k \<notin> key ` set xs"
    using c_bsearch_spec [of key "c_qsort key xs" k] by (auto simp: c_qsort_def)
  then have "map_of (map (\<lambda>r. (key r, r)) xs) k = None" by (auto simp: map_of_eq_None_iff)
  with None show ?thesis by simp
next
  case (Some r)
  moreover have "sorted (map key (c_qsort key xs))" by (simp add: c_qsort_def)
  ultimately have r: "r \<in> set xs" "key r = k"
    using c_bsearch_spec [of key "c_qsort key xs" k] by (auto simp: c_qsort_def)
  have "map_of (map (\<lambda>r. (key r, r)) xs) k = Some r"
    using assms r by (intro map_of_is_SomeI) (auto simp: o_def)
  with Some show ?thesis by simp
qed

lemma c_qsort_facts [simp]:
  "set (c_qsort key xs) = set xs" "length (c_qsort key xs) = length xs" "sorted (map key (c_qsort key xs))"
  "c_qsort key (c_qsort key xs) = c_qsort key xs"
  by (simp_all add: c_qsort_def sort_key_id_if_sorted)

end
