(* ===== verification/ValueTypes.thy ===== *)
theory ValueTypes
  imports Context Search
begin

text \<open>
  The table of value types (\<open>struct hdql_ValueTypes\<close>, \<open>src/value.cc\<close>): names, codes and interfaces,
  by tiers. Each derived table has a tier of its own, which the high bits of its codes carry; with
  it the table of arithmetic promotions (\<open>src/type-promotion-table.c\<close>), rebuilt when the types have
  changed. A table keeps the accessors of an interface (\<open>ti_ops\<close>) without using them. It sees its
  parent's types as they are at the time of a call. C++ exceptions are calls that do not return.
\<close>

section \<open>Codes\<close>

type_synonym tcode = u16

definition HDQL_VALUE_TYPEDEF_CODE_BITSIZE :: nat where "HDQL_VALUE_TYPEDEF_CODE_BITSIZE = 13"
definition HDQL_TIER_BITSIZE :: nat where "HDQL_TIER_BITSIZE = 4"
definition gMaxTypeID :: tcode where "gMaxTypeID = push_bit HDQL_VALUE_TYPEDEF_CODE_BITSIZE 1 - 1"
definition gMaxTypeIDInTier :: tcode where
  "gMaxTypeIDInTier = push_bit (HDQL_VALUE_TYPEDEF_CODE_BITSIZE - HDQL_TIER_BITSIZE) 1 - 1"
definition gTierMask :: tcode where "gTierMask = gMaxTypeID AND NOT gMaxTypeIDInTier"

definition get_tier_number :: "tcode \<Rightarrow> u8" where
  "get_tier_number code = ucast (drop_bit (HDQL_VALUE_TYPEDEF_CODE_BITSIZE - HDQL_TIER_BITSIZE) (code AND gTierMask))"

lemmas code_consts = HDQL_VALUE_TYPEDEF_CODE_BITSIZE_def HDQL_TIER_BITSIZE_def gMaxTypeID_def gMaxTypeIDInTier_def
  gTierMask_def

lemma code_values: "gMaxTypeID = 8191" "gMaxTypeIDInTier = 511" "gTierMask = 7680"
  by (simp_all add: code_consts push_bit_eq_mult)

lemma get_tier_div: "unat (get_tier_number code) = unat code div 512 mod 16"
proof -
  have "drop_bit 9 (7680::tcode) = mask 4" by code_simp
  then have "drop_bit 9 (code AND 7680) = drop_bit 9 code AND mask 4" by (simp only: drop_bit_and)
  moreover have "unat (drop_bit 9 code AND mask 4) = unat code div 512 mod 16"
    by (simp add: unat_and_mask unat_drop_bit)
  ultimately show ?thesis
    by (simp add: get_tier_number_def code_values code_consts unsigned_ucast_eq take_bit_eq_mod)
qed

section \<open>Data\<close>

record 'i type_interface =
  ti_name :: "string option"
  ti_size :: nat
  ti_init :: "(addr option \<Rightarrow> nat \<Rightarrow> hdql_Context \<Rightarrow> (int \<times> hdql_Context) option) option"
  ti_destroy :: "(addr option \<Rightarrow> nat \<Rightarrow> hdql_Context \<Rightarrow> (int \<times> hdql_Context) option) option"
  ti_ops :: 'i

text \<open>
  A record of promotions: the two codes in bit fields of 13 bits, the second in the next 16-bit
  unit, seen as one number; the result.
\<close>

record ArithTypePromotionRecord =
  pr_numeric :: u32
  pr_r :: "13 word"

record hdql_ArithTypePromotionTable =
  pt_nEntres :: "nat option"
  pt_records :: "ArithTypePromotionRecord list"

datatype 'i types_table = Types
  (vt_codeByName: "(string \<times> tcode) list") (vt_itemByCode: "(tcode \<times> 'i type_interface) list")
  (vt_tier: u8) (vt_parent: "'i types_table option")
  (vt_promotions: "hdql_ArithTypePromotionTable option") (vt_promotionsValid: bool)

definition types_new :: "'i types_table option \<Rightarrow> hdql_ArithTypePromotionTable option \<Rightarrow> 'i types_table option" where
  "types_new parent promotions =
     (let tier = (case parent of Some p \<Rightarrow> vt_tier p + 1 | None \<Rightarrow> 1) in
      if push_bit 10 (unat tier) > unat gMaxTypeID then None
      else Some (Types [] [] tier parent promotions False))"

section \<open>Definitions and look-up\<close>

definition type_code :: "u8 \<Rightarrow> nat \<Rightarrow> tcode" where
  "type_code tier n = of_nat n OR push_bit (HDQL_VALUE_TYPEDEF_CODE_BITSIZE - HDQL_TIER_BITSIZE) (ucast tier)"

definition vt_invalidate :: "'i types_table \<Rightarrow> 'i types_table" where
  "vt_invalidate vt = Types (vt_codeByName vt) (vt_itemByCode vt) (vt_tier vt) (vt_parent vt) (vt_promotions vt) False"

definition vt_put :: "(string \<times> tcode) list \<Rightarrow> (tcode \<times> 'i type_interface) list \<Rightarrow> 'i types_table \<Rightarrow> 'i types_table" where
  "vt_put names items vt = Types names items (vt_tier vt) (vt_parent vt) (vt_promotions vt) (vt_promotionsValid vt)"

definition hdql_types_define :: "'i types_table \<Rightarrow> 'i type_interface \<Rightarrow> int \<times> 'i types_table" where
  "hdql_types_define vt0 iface = (let vt = vt_invalidate vt0 in
     case ti_name iface of
       None \<Rightarrow> (-1, vt)
     | Some name \<Rightarrow>
         if name = [] then (-1, vt)
         else (let nItems = length (vt_itemByCode vt) in
           if nItems \<ge> unat gMaxTypeIDInTier then (-2, vt)
           else (let tCode = type_code (vt_tier vt) nItems in
             if map_of (vt_codeByName vt) name \<noteq> None then (-3, vt)
             else if map_of (vt_itemByCode vt) tCode \<noteq> None then (-4, vt)
             else (0, vt_put ((name, tCode) # vt_codeByName vt) ((tCode, iface) # vt_itemByCode vt) vt))))"

fun get_by_code :: "'i types_table \<Rightarrow> tcode \<Rightarrow> 'i type_interface option option" where
  "get_by_code (Types names items tier parent promo valid) code = do {
     c_assert (code \<noteq> 0);
     let tierNo = get_tier_number code;
     if tierNo = tier then Some (map_of items code)
     else if tierNo > tier then None
     else (case parent of None \<Rightarrow> None | Some p \<Rightarrow> get_by_code p code) }"

fun get_code_by_name :: "'i types_table \<Rightarrow> string \<Rightarrow> tcode" where
  "get_code_by_name (Types names items tier parent promo valid) name = (case map_of names name of
     None \<Rightarrow> (case parent of None \<Rightarrow> 0 | Some p \<Rightarrow> get_code_by_name p name)
   | Some code \<Rightarrow> code)"

fun get_by_name :: "'i types_table \<Rightarrow> string \<Rightarrow> 'i type_interface option option" where
  "get_by_name (Types names items tier parent promo valid) name = (case map_of names name of
     None \<Rightarrow> (case parent of None \<Rightarrow> Some None | Some p \<Rightarrow> get_by_name p name)
   | Some code \<Rightarrow> do {
       c_assert (get_tier_number code = tier);
       i \<leftarrow> map_of items code;
       Some (Some i) })"

definition hdql_types_get_type :: "'i types_table \<Rightarrow> tcode \<Rightarrow> 'i type_interface option option" where
  "hdql_types_get_type vt tc = get_by_code vt tc"

definition hdql_types_get_type_code :: "'i types_table \<Rightarrow> string \<Rightarrow> tcode" where
  "hdql_types_get_type_code vt name = get_code_by_name vt name"

definition hdql_types_get_type_by_name :: "'i types_table \<Rightarrow> string \<Rightarrow> 'i type_interface option option" where
  "hdql_types_get_type_by_name vt name = get_by_name vt name"

text \<open>
  An alias of a type of the table's own: \<open>ir.second == tgtCode\<close> compares the code with the flag of
  the insertion, which is false there.
\<close>

definition define_alias :: "'i types_table \<Rightarrow> tcode \<Rightarrow> string \<Rightarrow> (int \<times> 'i types_table) option" where
  "define_alias vt0 tgtCode alias = (let vt = vt_invalidate vt0; tierNo = get_tier_number tgtCode in do {
     c_assert (tgtCode \<noteq> 0);
     c_assert (tierNo \<noteq> 0);
     if tierNo > vt_tier vt then Some (-1, vt)
     else if tierNo < vt_tier vt then do {
       p \<leftarrow> vt_parent vt;
       vti \<leftarrow> get_by_code p tgtCode;
       if vti = None then Some (-2, vt)
       else (case map_of (vt_codeByName vt) alias of
           None \<Rightarrow> Some (HDQL_ERR_CODE_OK, vt_put ((alias, tgtCode) # vt_codeByName vt) (vt_itemByCode vt) vt)
         | Some code \<Rightarrow> Some (if code \<noteq> tgtCode then -3 else 1, vt)) }
     else if map_of (vt_itemByCode vt) tgtCode = None then Some (-2, vt)
     else (case map_of (vt_codeByName vt) alias of
         Some code \<Rightarrow> Some (if (0 :: tcode) = tgtCode then 1 else -3, vt)
       | None \<Rightarrow> Some (HDQL_ERR_CODE_OK, vt_put ((alias, tgtCode) # vt_codeByName vt) (vt_itemByCode vt) vt)) })"

definition hdql_types_alias :: "'i types_table \<Rightarrow> string \<Rightarrow> tcode \<Rightarrow> (int \<times> 'i types_table) option" where
  "hdql_types_alias vt alias code = define_alias vt code alias"

section \<open>A well-formed table\<close>

text \<open>
  The codes of a table are those of its tier, in the order the types were defined; a name leads to
  a type of the table or, through an alias, of a table above.
\<close>

fun types_wf :: "'i types_table \<Rightarrow> bool" where
  "types_wf (Types names items tier parent promo valid) \<longleftrightarrow>
     tier = (case parent of None \<Rightarrow> 1 | Some p \<Rightarrow> vt_tier p + 1) \<and> 1 \<le> unat tier \<and> unat tier \<le> 7 \<and>
     length items \<le> 511 \<and> map fst items = rev (map (type_code tier) [0..<length items]) \<and>
     distinct (map fst names) \<and>
     (\<forall>(n, c) \<in> set names. c \<in> fst ` set items \<or>
        0 < get_tier_number c \<and> get_tier_number c < tier \<and> (\<exists>p i. parent = Some p \<and> get_by_code p c = Some (Some i))) \<and>
     (case parent of None \<Rightarrow> True | Some p \<Rightarrow> types_wf p)"

lemma unat_type_code: "n < 512 \<Longrightarrow> unat t < 16 \<Longrightarrow> unat (type_code t n) = 512 * unat t + n"
proof -
  assume n: "n < 512" and t: "unat t < 16"
  have "unat (push_bit 9 (ucast t :: tcode)) = 512 * unat t"
  proof -
    have "unat (ucast t :: tcode) = unat t" using t by (simp add: unsigned_ucast_eq take_bit_eq_mod)
    then show ?thesis using t by (simp only: unsigned_push_bit_eq) (simp add: push_bit_eq_mult take_bit_eq_mod)
  qed
  moreover have "unat (of_nat n :: tcode) = n" using n by (simp add: unat_of_nat)
  ultimately have "unat (type_code t n) = n OR push_bit 9 (unat t)"
    by (simp add: type_code_def code_consts unsigned_or_eq push_bit_eq_mult mult.commute)
  also have "\<dots> = n + push_bit 9 (unat t)"
  proof -
    have "n = take_bit 9 n" using n by (simp add: take_bit_nat_eq_self)
    moreover have "take_bit 9 n AND push_bit 9 (unat t) = 0" by (rule bit_eqI) (simp add: bit_simps)
    ultimately show ?thesis by (metis disjunctive_add_eq_or)
  qed
  finally show ?thesis by (simp add: push_bit_eq_mult)
qed

lemma type_code_facts:
  assumes "n < 512" "1 \<le> unat t" "unat t < 16"
  shows "get_tier_number (type_code t n) = t" "type_code t n \<noteq> 0" "unat (type_code t n) < 8192"
proof -
  have u: "unat (type_code t n) = 512 * unat t + n" using assms by (simp add: unat_type_code)
  have "unat (get_tier_number (type_code t n)) = unat t" using assms by (simp add: get_tier_div u)
  then show "get_tier_number (type_code t n) = t" by (simp add: word_unat_eq_iff)
  show "type_code t n \<noteq> 0" using u assms by auto
  show "unat (type_code t n) < 8192" using u assms by simp
qed

lemma type_code_inj: "n < 512 \<Longrightarrow> m < 512 \<Longrightarrow> unat t < 16 \<Longrightarrow> type_code t n = type_code t m \<Longrightarrow> n = m"
  by (metis unat_type_code add_left_cancel)

lemma vt_invalidate_simps [simp]:
  "vt_codeByName (vt_invalidate vt) = vt_codeByName vt" "vt_itemByCode (vt_invalidate vt) = vt_itemByCode vt"
  "vt_tier (vt_invalidate vt) = vt_tier vt" "vt_parent (vt_invalidate vt) = vt_parent vt"
  "types_wf (vt_invalidate vt) = types_wf vt"
  "get_by_code (vt_invalidate vt) = get_by_code vt" "get_code_by_name (vt_invalidate vt) = get_code_by_name vt"
  "get_by_name (vt_invalidate vt) = get_by_name vt"
  by (cases vt; auto simp: vt_invalidate_def fun_eq_iff)+

lemma vt_put_simps [simp]:
  "vt_codeByName (vt_put ns its vt) = ns" "vt_itemByCode (vt_put ns its vt) = its"
  "vt_tier (vt_put ns its vt) = vt_tier vt" "vt_parent (vt_put ns its vt) = vt_parent vt"
  by (simp_all add: vt_put_def)

text \<open>The next code of a table is not in use.\<close>

lemma next_code_fresh:
  assumes "types_wf vt" "length (vt_itemByCode vt) < 512"
  shows "type_code (vt_tier vt) (length (vt_itemByCode vt)) \<notin> fst ` set (vt_itemByCode vt)"
proof
  assume "type_code (vt_tier vt) (length (vt_itemByCode vt)) \<in> fst ` set (vt_itemByCode vt)"
  moreover have "fst ` set (vt_itemByCode vt) = type_code (vt_tier vt) ` {0..<length (vt_itemByCode vt)}"
  proof -
    have "map fst (vt_itemByCode vt) = rev (map (type_code (vt_tier vt)) [0..<length (vt_itemByCode vt)])"
      using assms(1) by (cases vt) (simp only: types_wf.simps types_table.sel)
    from arg_cong [OF this, of set] show ?thesis by simp
  qed
  ultimately obtain n where "n < length (vt_itemByCode vt)"
    "type_code (vt_tier vt) (length (vt_itemByCode vt)) = type_code (vt_tier vt) n" by auto
  moreover have "unat (vt_tier vt) < 16" using assms(1) by (cases vt) simp
  ultimately show False using type_code_inj [of "length (vt_itemByCode vt)" n "vt_tier vt"] assms(2) by simp
qed

lemma define_ok:
  fixes vt :: "'i types_table" and iface :: "'i type_interface"
  assumes wf: "types_wf vt" and n: "length (vt_itemByCode vt) < 511" and name: "map_of (vt_codeByName vt) name = None"
  defines "code \<equiv> type_code (vt_tier vt) (length (vt_itemByCode vt))"
  defines "vt' \<equiv> vt_put ((name, code) # vt_codeByName vt) ((code, iface) # vt_itemByCode vt) vt"
  shows "types_wf vt'" and "get_code_by_name vt' = (get_code_by_name vt)(name := code)"
    and "get_by_code vt' = (get_by_code vt)(code := Some (Some iface))" and "get_by_code vt code = Some None"
    and "get_tier_number code = vt_tier vt" "code \<noteq> 0" "unat code < 8192"
proof -
  obtain ns its t p pr v where vt: "vt = Types ns its t p pr v" by (cases vt)
  have t: "1 \<le> unat t" "unat t < 16" using wf by (auto simp: vt)
  have code: "get_tier_number code = t" "code \<noteq> 0" "unat code < 8192" "code = type_code t (length its)"
    using type_code_facts [of "length its" t] t n by (auto simp: code_def vt)
  have fresh: "code \<notin> fst ` set its" using next_code_fresh [OF wf] n by (simp add: vt code_def)
  then have none: "map_of its code = None" by (simp add: map_of_eq_None_iff)
  have vt': "vt' = Types ((name, code) # ns) ((code, iface) # its) t p pr v"
    by (simp add: vt'_def vt vt_put_def)
  show "types_wf vt'"
    using wf n name by (auto simp: vt' vt code(4) map_of_eq_None_iff)
  show "get_code_by_name vt' = (get_code_by_name vt)(name := code)"
    by (auto simp: vt' vt fun_eq_iff)
  show "get_by_code vt' = (get_by_code vt)(code := Some (Some iface))"
  proof
    fix c
    show "get_by_code vt' c = ((get_by_code vt)(code := Some (Some iface))) c"
      using code(1,2) by (cases "c = 0") (auto simp: vt' vt Let_def)
  qed
  show "get_by_code vt code = Some None" using code(1,2) none by (simp add: vt)
  show "get_tier_number code = vt_tier vt" "code \<noteq> 0" "unat code < 8192" using code by (simp_all add: vt)
qed

text \<open>
  C22: Defining a type in a well-formed table is refused without a name or with an empty one (-1), in a
  full tier (-2), and with a name or alias the table itself has (-3): the cached promotions become
  invalid and nothing else changes. Otherwise it succeeds with 0 and gives the type a code of the table's
  tier that no type of the table or those above has; under this code its interface is found, under its
  name the code, and every other look-up is as before. The table stays well-formed.
\<close>

theorem types_define_spec:
  assumes "types_wf vt" "hdql_types_define vt iface = (rc, vt')"
  shows "types_wf vt' \<and>
    (let refused = (\<lambda>code. rc = code \<and> vt' = vt_invalidate vt \<and>
       get_code_by_name vt' = get_code_by_name vt \<and> get_by_code vt' = get_by_code vt) in
     if ti_name iface \<in> {None, Some []} then refused (- 1)
     else if length (vt_itemByCode vt) \<ge> 511 then refused (- 2)
     else if the (ti_name iface) \<in> fst ` set (vt_codeByName vt) then refused (- 3)
     else rc = 0 \<and> (\<exists>code. get_by_code vt code = Some None \<and>
       get_tier_number code = vt_tier vt \<and> code \<noteq> 0 \<and> unat code < 2 ^ HDQL_VALUE_TYPEDEF_CODE_BITSIZE \<and>
       get_code_by_name vt' = (get_code_by_name vt)(the (ti_name iface) := code) \<and>
       get_by_code vt' = (get_by_code vt)(code := Some (Some iface))))"
proof -
  consider (unnamed) "ti_name iface \<in> {None, Some []}"
    | (full) name where "ti_name iface = Some name" "name \<noteq> []" "length (vt_itemByCode vt) \<ge> 511"
    | (used) name c where "ti_name iface = Some name" "name \<noteq> []" "length (vt_itemByCode vt) < 511"
        "map_of (vt_codeByName vt) name = Some c"
    | (fresh) name where "ti_name iface = Some name" "name \<noteq> []" "length (vt_itemByCode vt) < 511"
        "map_of (vt_codeByName vt) name = None"
    by (cases "ti_name iface"; force simp: not_le)
  then show ?thesis
  proof cases
    case unnamed
    with assms show ?thesis by (auto simp: hdql_types_define_def Let_def)
  next
    case full
    with assms show ?thesis by (auto simp: hdql_types_define_def Let_def code_values)
  next
    case (used name c)
    then have "name \<in> fst ` set (vt_codeByName vt)" by (force dest: map_of_SomeD)
    with used assms show ?thesis by (auto simp: hdql_types_define_def Let_def code_values)
  next
    case (fresh name)
    let ?vt = "vt_invalidate vt"
    have wf: "types_wf ?vt" "length (vt_itemByCode ?vt) < 511" "map_of (vt_codeByName ?vt) name = None"
      using assms(1) fresh by simp_all
    note ok = define_ok(1,3) [OF wf, of iface, unfolded vt_invalidate_simps]
      define_ok(2) [OF wf, of iface, unfolded vt_invalidate_simps] define_ok(4-7) [OF wf, unfolded vt_invalidate_simps]
    have "map_of (vt_itemByCode vt) (type_code (vt_tier vt) (length (vt_itemByCode vt))) = None"
      using next_code_fresh [OF assms(1)] fresh(3) by (simp add: map_of_eq_None_iff)
    then have "rc = 0 \<and> vt' = vt_put ((name, type_code (vt_tier vt) (length (vt_itemByCode vt))) # vt_codeByName vt)
        ((type_code (vt_tier vt) (length (vt_itemByCode vt)), iface) # vt_itemByCode vt) (vt_invalidate vt)"
      using assms(2) fresh by (auto simp: hdql_types_define_def Let_def code_values)
    moreover have "name \<notin> fst ` set (vt_codeByName vt)" using fresh(4) by (simp add: map_of_eq_None_iff)
    ultimately show ?thesis using ok fresh(1-3) by (auto simp: code_consts Let_def)
  qed
qed

text \<open>A first type defined in the table of a root context.\<close>

lemma types_define_spec_witness:
  "let t = \<lparr>ti_name = Some ''hit'', ti_size = 8, ti_init = None, ti_destroy = None, ti_ops = ()\<rparr>;
       (rc, vt) = hdql_types_define (Types [] [] 1 None None False) t
   in rc = 0 \<and> types_wf vt \<and> get_code_by_name vt ''hit'' = 512 \<and> fst (hdql_types_define vt t) = - 3"
proof -
  let ?vt = "Types [] [] 1 None None False :: unit types_table"
    and ?t = "\<lparr>ti_name = Some ''hit'', ti_size = 8, ti_init = None, ti_destroy = None, ti_ops = ()\<rparr>"
  obtain rc vt where d: "hdql_types_define ?vt ?t = (rc, vt)" by (cases "hdql_types_define ?vt ?t")
  have "types_wf ?vt" by simp
  note spec = types_define_spec [OF this d]
  from d have vt: "rc = 0" "get_code_by_name vt ''hit'' = 512" "vt_codeByName vt = [(''hit'', 512)]" "length (vt_itemByCode vt) = 1"
    by (auto simp: hdql_types_define_def vt_invalidate_def vt_put_def type_code_def code_consts Let_def push_bit_eq_mult)
  obtain rc' vt' where d': "hdql_types_define vt ?t = (rc', vt')" by (cases "hdql_types_define vt ?t")
  have "rc' = - 3" using types_define_spec [OF conjunct1 [OF spec] d'] vt by simp
  then show ?thesis using spec vt by (simp add: d d')
qed

section \<open>Values of a type\<close>

definition hdql_create_value :: "'i types_table option \<Rightarrow> tcode \<Rightarrow> hdql_Context \<Rightarrow> (addr option \<times> hdql_Context) option" where
  "hdql_create_value vtx tc c = do {
     vt \<leftarrow> vtx;
     vti \<leftarrow> get_by_code vt tc;
     i \<leftarrow> vti;
     c_assert (ti_size i > 0);
     let (r, c) = ctx_alloc c;
     (case ti_init i of
        None \<Rightarrow> Some (r, c)
      | Some init \<Rightarrow> do {
          (rc, c) \<leftarrow> init r (ti_size i) c;
          if rc \<noteq> 0 then do { c \<leftarrow> ctx_free r c; Some (None, c) } else Some (r, c) }) }"

definition hdql_destroy_value :: "'i types_table option \<Rightarrow> tcode \<Rightarrow> addr option \<Rightarrow> hdql_Context \<Rightarrow> (int \<times> hdql_Context) option" where
  "hdql_destroy_value vtx tc r c = (case vtx of
     None \<Rightarrow> Some (-1, c)
   | Some vt \<Rightarrow> do {
       vti \<leftarrow> get_by_code vt tc;
       (case vti of
          None \<Rightarrow> Some (-2, c)
        | Some i \<Rightarrow>
            if ti_size i = 0 then Some (-3, c)
            else do {
              (rc, c) \<leftarrow> (case ti_destroy i of None \<Rightarrow> Some (0, c) | Some destroy \<Rightarrow> destroy r (ti_size i) c);
              if rc \<noteq> 0 then Some (-4, c)
              else do { c \<leftarrow> ctx_free r c; Some (0, c) } }) })"

text \<open>A value of a plain type is one block, which destroying it gives back.\<close>

lemma create_destroy_value:
  assumes "get_by_code vt tc = Some (Some i)" "ti_size i > 0" "ti_init i = None" "ti_destroy i = None" "ctx_wf c"
  shows "\<exists>r c1. hdql_create_value (Some vt) tc c = Some (r, c1) \<and> ctx_wf c1 \<and>
    (\<exists>c2. hdql_destroy_value (Some vt) tc r c1 = Some (0, c2) \<and> ctx_wf c2 \<and> ctx_live c2 = ctx_live c)"
proof -
  obtain r c1 where a: "ctx_alloc c = (r, c1)" by (cases "ctx_alloc c")
  have wf: "ctx_wf c1" by (rule cx.alloc_inv [of c 1]) (use a assms(5) in simp_all)
  show ?thesis
  proof (cases r)
    case None
    have "ctx_live c1 = ctx_live c" by (rule cx.alloc_null [of c 1]) (use a None assms(5) in simp_all)
    with None a wf assms show ?thesis by (simp add: hdql_create_value_def hdql_destroy_value_def)
  next
    case (Some p)
    have "p \<notin> ctx_live c \<and> insert p (ctx_live c) \<subseteq> ctx_live c1"
      by (rule cx.alloc_fresh [of c 1]) (use a Some assms(5) in simp_all)
    moreover have "ctx_live c1 = insert p (ctx_live c)"
      by (rule cx.alloc_exact [of c 1]) (use a Some assms(5) in simp_all)
    ultimately have p: "p \<notin> ctx_live c" "ctx_live c1 = insert p (ctx_live c)" by simp_all
    obtain c2 where "ctx_free (Some p) c1 = Some c2" "ctx_wf c2" "ctx_live c2 = ctx_live c1 - {p}"
      using cx.free_live [OF wf, of p] p(2) by auto
    with p a wf assms Some show ?thesis by (simp add: hdql_create_value_def hdql_destroy_value_def)
  qed
qed

section \<open>The standard types\<close>

definition std_types :: "(string \<times> nat) list" where
  "std_types = [(''bool'', 1), (''int8_t'', 1), (''uint8_t'', 1), (''int16_t'', 2), (''uint16_t'', 2), (''int32_t'', 4),
     (''uint32_t'', 4), (''int64_t'', 8), (''uint64_t'', 8), (''float'', 4), (''double'', 8)]"

definition std_aliases :: "(string \<times> string) list" where
  "std_aliases = [(''uint8_t'', ''unsigned char''), (''int8_t'', ''char''), (''int8_t'', ''signed char''),
     (''uint16_t'', ''unsigned short''), (''int16_t'', ''short''), (''uint32_t'', ''unsigned int''),
     (''int32_t'', ''int''), (''uint64_t'', ''unsigned long''), (''uint64_t'', ''size_t''), (''int64_t'', ''long''),
     (''int64_t'', ''hdql_Int_t''), (''double'', ''hdql_Flt_t''), (''bool'', ''hdql_Bool_t'')]"

fun add_std_types :: "(string \<Rightarrow> 'i) \<Rightarrow> (string \<times> nat) list \<Rightarrow> int \<Rightarrow> 'i types_table \<Rightarrow> int \<times> int \<times> 'i types_table" where
  "add_std_types ops [] nItem vt = (0, nItem, vt)"
| "add_std_types ops ((nm, sz) # tys) nItem vt = (let nItem = nItem + 1;
     (rc, vt) = hdql_types_define vt
       \<lparr>ti_name = Some nm, ti_size = sz, ti_init = None, ti_destroy = None, ti_ops = ops nm\<rparr> in
     if rc \<noteq> HDQL_ERR_CODE_OK then (- nItem, nItem, vt) else add_std_types ops tys nItem vt)"

text \<open>The return code of the aliasing is made 0 or 1 and then tested for being negative: no failure is reported.\<close>

fun add_aliases :: "(string \<times> string) list \<Rightarrow> int \<Rightarrow> 'i types_table \<Rightarrow> (int \<times> int \<times> 'i types_table) option" where
  "add_aliases [] nItem vt = Some (0, nItem, vt)"
| "add_aliases ((ty, alias) # as) nItem vt = (let nItem = nItem + 1; tc = hdql_types_get_type_code vt ty in do {
     c_assert (tc \<noteq> 0);
     (arc, vt) \<leftarrow> hdql_types_alias vt alias tc;
     let rc = (if arc \<ge> 0 then 0 else 1 :: int);
     if rc < HDQL_ERR_CODE_OK then Some (- nItem, nItem, vt) else add_aliases as nItem vt })"

text \<open>\<open>str\<close> is the interface of strings, most of which is left unset.\<close>

definition hdql_value_types_table_add_std_types ::
  "(string \<Rightarrow> 'i) \<Rightarrow> 'i type_interface \<Rightarrow> 'i types_table \<Rightarrow> (int \<times> 'i types_table) option" where
  "hdql_value_types_table_add_std_types ops str vt =
     (let (rc, nItem, vt) = add_std_types ops std_types 0 vt in
      if rc \<noteq> 0 then Some (rc, vt)
      else do {
        (rc, nItem, vt) \<leftarrow> add_aliases std_aliases nItem vt;
        if rc \<noteq> 0 then Some (rc, vt)
        else do {
          let nItem = nItem + 1;
          let (rc, vt) = hdql_types_define vt (str\<lparr>ti_name := Some ''string''\<rparr>);
          if rc < HDQL_ERR_CODE_OK then Some (- nItem, vt) else Some (HDQL_ERR_CODE_OK, vt) } })"

section \<open>Promotion of arithmetic types\<close>

definition HDQL_PROMOTION_TABLE_MAX_ENTRIES :: nat where "HDQL_PROMOTION_TABLE_MAX_ENTRIES = 64"

definition hdql_M_for_each_arith_types_pair :: "(string \<times> string \<times> string) list" where
  "hdql_M_for_each_arith_types_pair = [
     (''int8_t'', ''uint8_t'', ''int16_t''), (''int8_t'', ''int16_t'', ''int16_t''), (''int8_t'', ''uint16_t'', ''int32_t''),
     (''int8_t'', ''int32_t'', ''int32_t''), (''int8_t'', ''uint32_t'', ''int64_t''), (''int8_t'', ''int64_t'', ''int64_t''),
     (''int8_t'', ''uint64_t'', ''uint64_t''), (''int8_t'', ''float'', ''float''), (''int8_t'', ''double'', ''double''),
     (''uint8_t'', ''int16_t'', ''int16_t''), (''uint8_t'', ''uint16_t'', ''uint16_t''), (''uint8_t'', ''int32_t'', ''int32_t''),
     (''uint8_t'', ''uint32_t'', ''uint32_t''), (''uint8_t'', ''int64_t'', ''int64_t''), (''uint8_t'', ''uint64_t'', ''uint64_t''),
     (''uint8_t'', ''float'', ''float''), (''uint8_t'', ''double'', ''double''), (''int16_t'', ''uint16_t'', ''int32_t''),
     (''int16_t'', ''int32_t'', ''int32_t''), (''int16_t'', ''uint32_t'', ''int64_t''), (''int16_t'', ''int64_t'', ''int64_t''),
     (''int16_t'', ''uint64_t'', ''uint64_t''), (''int16_t'', ''float'', ''float''), (''int16_t'', ''double'', ''double''),
     (''uint16_t'', ''int32_t'', ''int32_t''), (''uint16_t'', ''uint32_t'', ''uint32_t''), (''uint16_t'', ''int64_t'', ''int64_t''),
     (''uint16_t'', ''uint64_t'', ''uint64_t''), (''uint16_t'', ''float'', ''float''), (''uint16_t'', ''double'', ''double''),
     (''int32_t'', ''uint32_t'', ''int64_t''), (''int32_t'', ''int64_t'', ''int64_t''), (''int32_t'', ''uint64_t'', ''uint64_t''),
     (''int32_t'', ''float'', ''float''), (''int32_t'', ''double'', ''double''), (''uint32_t'', ''int64_t'', ''int64_t''),
     (''uint32_t'', ''uint64_t'', ''uint64_t''), (''uint32_t'', ''float'', ''float''), (''uint32_t'', ''double'', ''double''),
     (''int64_t'', ''uint64_t'', ''uint64_t''), (''int64_t'', ''float'', ''float''), (''int64_t'', ''double'', ''double''),
     (''uint64_t'', ''float'', ''float''), (''uint64_t'', ''double'', ''double''), (''float'', ''double'', ''double'')]"

text \<open>The key of a pair, the smaller code first.\<close>

definition pair_numeric :: "tcode \<Rightarrow> tcode \<Rightarrow> u32" where
  "pair_numeric a b = (let (x, y) = (if a < b then (a, b) else (b, a)) in
     ucast (ucast x :: 13 word) OR push_bit 16 (ucast (ucast y :: 13 word)))"

fun add_entries ::
  "'i types_table \<Rightarrow> (string \<times> string \<times> string) list \<Rightarrow> ArithTypePromotionRecord list \<Rightarrow> bool \<times> ArithTypePromotionRecord list" where
  "add_entries vt [] recs = (True, recs)"
| "add_entries vt ((A, B, R) # ps) recs = (let a = hdql_types_get_type_code vt A; b = hdql_types_get_type_code vt B;
     r = hdql_types_get_type_code vt R in
     if a \<noteq> 0 \<and> b \<noteq> 0 \<and> r \<noteq> 0 then
       (if length recs \<ge> HDQL_PROMOTION_TABLE_MAX_ENTRIES then (False, recs)
        else add_entries vt ps (recs @ [\<lparr>pr_numeric = pair_numeric a b, pr_r = ucast r\<rparr>]))
     else add_entries vt ps recs)"

definition hdql_arith_type_promotion_rebuild ::
  "'i types_table \<Rightarrow> hdql_ArithTypePromotionTable \<Rightarrow> hdql_Err_t \<times> hdql_ArithTypePromotionTable" where
  "hdql_arith_type_promotion_rebuild vt t = (let (fits, recs) = add_entries vt hdql_M_for_each_arith_types_pair [] in
     if \<not> fits then (HDQL_ERR_MEMORY, t\<lparr>pt_records := recs\<rparr>)
     else if recs = [] then (HDQL_ERR_EMPTY_SET, t\<lparr>pt_nEntres := Some 0\<rparr>)
     else (HDQL_ERR_CODE_OK, \<lparr>pt_nEntres = Some (length recs), pt_records = c_qsort pr_numeric recs\<rparr>))"

definition hdql_arith_type_promote :: "hdql_ArithTypePromotionTable \<Rightarrow> tcode \<Rightarrow> tcode \<Rightarrow> tcode option" where
  "hdql_arith_type_promote t a b =
     (if a = 0 \<or> b = 0 then Some 0
      else do {
        n \<leftarrow> pt_nEntres t;
        if n = 0 then Some 0
        else (case c_bsearch pr_numeric (pair_numeric a b) (take n (pt_records t)) of
            None \<Rightarrow> Some 0
          | Some rec \<Rightarrow> Some (ucast (pr_r rec))) })"

text \<open>The table of a types table is rebuilt before use if types were defined since.\<close>

definition numeric_types_promotion_table :: "'i types_table \<Rightarrow> (hdql_ArithTypePromotionTable \<times> 'i types_table) option" where
  "numeric_types_promotion_table vt = (case vt_promotions vt of
     None \<Rightarrow> None
   | Some t \<Rightarrow>
       if vt_promotionsValid vt then Some (t, vt)
       else (let (rc, t) = hdql_arith_type_promotion_rebuild vt t in
         Some (t, Types (vt_codeByName vt) (vt_itemByCode vt) (vt_tier vt) (vt_parent vt) (Some t) True)))"

definition hdql_types_numeric_promote :: "'i types_table \<Rightarrow> tcode \<Rightarrow> tcode \<Rightarrow> (tcode \<times> 'i types_table) option" where
  "hdql_types_numeric_promote vt a b = do {
     (t, vt) \<leftarrow> numeric_types_promotion_table vt;
     r \<leftarrow> hdql_arith_type_promote t a b;
     Some (r, vt) }"

text \<open>The numeric key tells unordered pairs of codes of at most 13 bits apart.\<close>

definition code_ok :: "tcode \<Rightarrow> bool" where
  "code_ok c \<longleftrightarrow> c \<noteq> 0 \<and> unat c < 8192"

lemma field_value: "unat c < 8192 \<Longrightarrow> unat (ucast (ucast (c :: tcode) :: 13 word) :: u32) = unat c"
proof -
  assume "unat c < 8192"
  then have "take_bit LENGTH(32) (take_bit LENGTH(13) (unat c)) = unat c"
    using take_bit_nat_eq_self [of "unat c" 13] take_bit_nat_eq_self [of "unat c" 32] by simp
  then show ?thesis by (simp only: unsigned_ucast_eq [where 'a = nat])
qed

lemma field_back: "unat (c :: tcode) < 8192 \<Longrightarrow> ucast (ucast c :: 13 word) = c"
proof -
  assume "unat c < 8192"
  then have "take_bit LENGTH(16) (take_bit LENGTH(13) (unat c)) = unat c"
    using take_bit_nat_eq_self [of "unat c" 13] take_bit_nat_eq_self [of "unat c" 16] by simp
  then show ?thesis by (simp only: word_unat_eq_iff unsigned_ucast_eq [where 'a = nat])
qed

lemma split_fields: "m < (65536::nat) \<Longrightarrow> m' < 65536 \<Longrightarrow> m + 65536 * M = m' + 65536 * M' \<Longrightarrow> m = m' \<and> M = M'"
proof -
  assume m: "m < (65536::nat)" "m' < 65536" and e: "m + 65536 * M = m' + 65536 * M'"
  have "(m + 65536 * M) div 65536 = M" "(m' + 65536 * M') div 65536 = M'" using m by simp_all
  with e have "M = M'" by (simp only:)
  with e show ?thesis by simp
qed

lemma unat_pair:
  assumes "unat x < 8192" "unat y < 8192"
  shows "unat (ucast (ucast (x :: tcode) :: 13 word) OR push_bit 16 (ucast (ucast (y :: tcode) :: 13 word)) :: u32) =
    unat x + 65536 * unat y"
proof -
  have "unat (push_bit 16 (ucast (ucast y :: 13 word)) :: u32) = push_bit 16 (unat y)"
    using assms(2) by (simp only: unsigned_push_bit_eq field_value)
      (simp add: push_bit_eq_mult take_bit_eq_mod)
  then have "unat (ucast (ucast x :: 13 word) OR push_bit 16 (ucast (ucast y :: 13 word)) :: u32) =
      unat x OR push_bit 16 (unat y)"
    by (simp only: unsigned_or_eq field_value [OF assms(1)])
  also have "\<dots> = unat x + push_bit 16 (unat y)"
  proof -
    have "unat x = take_bit 16 (unat x)" using assms(1) by (simp add: take_bit_nat_eq_self)
    moreover have "take_bit 16 (unat x) AND push_bit 16 (unat y) = 0" by (rule bit_eqI) (simp add: bit_simps)
    ultimately show ?thesis by (metis disjunctive_add_eq_or)
  qed
  finally show ?thesis by (simp add: push_bit_eq_mult)
qed

lemma pair_numeric_value:
  "unat a < 8192 \<Longrightarrow> unat b < 8192 \<Longrightarrow>
   unat (pair_numeric a b) = min (unat a) (unat b) + 65536 * max (unat a) (unat b)"
  by (auto simp: pair_numeric_def Let_def unat_pair word_less_nat_alt)

lemma pair_numeric_commute: "pair_numeric a b = pair_numeric b a"
  by (auto simp: pair_numeric_def Let_def)

lemma pair_numeric_inj:
  assumes "unat a < 8192" "unat b < 8192" "unat a' < 8192" "unat b' < 8192"
  shows "pair_numeric a b = pair_numeric a' b' \<longleftrightarrow> {a, b} = {a', b'}"
proof
  assume "pair_numeric a b = pair_numeric a' b'"
  then have "min (unat a) (unat b) + 65536 * max (unat a) (unat b) =
      min (unat a') (unat b') + 65536 * max (unat a') (unat b')"
    using pair_numeric_value [OF assms(1,2)] pair_numeric_value [OF assms(3,4)] by simp
  moreover have "min (unat a) (unat b) < 65536" "min (unat a') (unat b') < 65536" using assms by auto
  ultimately have "min (unat a) (unat b) = min (unat a') (unat b') \<and> max (unat a) (unat b) = max (unat a') (unat b')"
    by (intro split_fields)
  then have "unat a = unat a' \<and> unat b = unat b' \<or> unat a = unat b' \<and> unat b = unat a'"
    by (cases "unat a \<le> unat b"; cases "unat a' \<le> unat b'") (simp_all add: min_def max_def)
  then show "{a, b} = {a', b'}" by (auto simp: word_unat_eq_iff)
next
  assume "{a, b} = {a', b'}"
  then show "pair_numeric a b = pair_numeric a' b'" using pair_numeric_commute by (auto simp: doubleton_eq_iff)
qed

text \<open>The names of the table of promotions, and the table of a well-formed context.\<close>

definition arith_names :: "string list" where
  "arith_names = [''int8_t'', ''uint8_t'', ''int16_t'', ''uint16_t'', ''int32_t'', ''uint32_t'', ''int64_t'', ''uint64_t'',
     ''float'', ''double'']"

definition arith_types :: "'i types_table \<Rightarrow> bool" where
  "arith_types vt \<longleftrightarrow> (\<forall>n \<in> set arith_names. code_ok (get_code_by_name vt n)) \<and>
     distinct (map (get_code_by_name vt) arith_names)"

text \<open>The type C's usual conversions give for two different arithmetic types.\<close>

definition promoted :: "'i types_table \<Rightarrow> tcode \<Rightarrow> tcode \<Rightarrow> tcode option" where
  "promoted vt a b = map_option (\<lambda>(A, B, R). get_code_by_name vt R)
     (find (\<lambda>(A, B, R). {get_code_by_name vt A, get_code_by_name vt B} = {a, b}) hdql_M_for_each_arith_types_pair)"

lemma pairs_named: "(A, B, R) \<in> set hdql_M_for_each_arith_types_pair \<Longrightarrow>
    A \<in> set arith_names \<and> B \<in> set arith_names \<and> R \<in> set arith_names"
  unfolding hdql_M_for_each_arith_types_pair_def arith_names_def by auto

text \<open>Every pair of different names is in the table once.\<close>

lemma pairs_distinct: "distinct (map (\<lambda>(A, B, R). {A, B}) hdql_M_for_each_arith_types_pair)"
  by code_simp

definition entry :: "'i types_table \<Rightarrow> string \<times> string \<times> string \<Rightarrow> ArithTypePromotionRecord" where
  "entry vt = (\<lambda>(A, B, R). \<lparr>pr_numeric = pair_numeric (get_code_by_name vt A) (get_code_by_name vt B),
     pr_r = ucast (get_code_by_name vt R)\<rparr>)"

lemma add_entries_all:
  assumes "\<And>A B R. (A, B, R) \<in> set ps \<Longrightarrow> get_code_by_name vt A \<noteq> 0 \<and> get_code_by_name vt B \<noteq> 0 \<and> get_code_by_name vt R \<noteq> 0"
    and "length recs + length ps \<le> 64"
  shows "add_entries vt ps recs = (True, recs @ map (entry vt) ps)"
  using assms
proof (induction ps arbitrary: recs)
  case (Cons p ps)
  obtain A B R where p: "p = (A, B, R)" by (cases p)
  from Cons.prems(1) [of A B R] p have "get_code_by_name vt A \<noteq> 0" "get_code_by_name vt B \<noteq> 0" "get_code_by_name vt R \<noteq> 0" by auto
  then have "add_entries vt (p # ps) recs = add_entries vt ps (recs @ [entry vt p])"
    using Cons.prems(2)
    by (simp add: p Let_def hdql_types_get_type_code_def HDQL_PROMOTION_TABLE_MAX_ENTRIES_def entry_def)
  also have "\<dots> = (True, (recs @ [entry vt p]) @ map (entry vt) ps)"
    by (rule Cons.IH) (use Cons.prems in auto)
  finally show ?case by simp
qed simp

lemma find_map_of:
  assumes "\<And>x. x \<in> set xs \<Longrightarrow> f x = k \<longleftrightarrow> P x"
  shows "map_of (map (\<lambda>x. (f x, g x)) xs) k = map_option g (find P xs)"
  using assms by (induction xs) auto

lemma entries_distinct:
  assumes "arith_types vt"
  shows "distinct (map pr_numeric (map (entry vt) hdql_M_for_each_arith_types_pair))"
proof -
  let ?c = "get_code_by_name vt"
  have ok: "n \<in> set arith_names \<Longrightarrow> unat (?c n) < 8192" for n
    using assms by (auto simp: arith_types_def code_ok_def)
  have inj: "inj_on ?c (set arith_names)" using assms by (simp add: arith_types_def distinct_map)
  have "inj_on (\<lambda>x. pr_numeric (entry vt x)) (set hdql_M_for_each_arith_types_pair)"
  proof (rule inj_onI)
    fix x y
    assume x: "x \<in> set hdql_M_for_each_arith_types_pair" and y: "y \<in> set hdql_M_for_each_arith_types_pair"
      and e: "pr_numeric (entry vt x) = pr_numeric (entry vt y)"
    obtain A B R A' B' R' where xy: "x = (A, B, R)" "y = (A', B', R')" by (cases x; cases y)
    have n: "A \<in> set arith_names" "B \<in> set arith_names" "A' \<in> set arith_names" "B' \<in> set arith_names"
      using pairs_named x y by (auto simp: xy)
    have "{?c A, ?c B} = {?c A', ?c B'}"
      using e pair_numeric_inj [OF ok [OF n(1)] ok [OF n(2)] ok [OF n(3)] ok [OF n(4)]] by (simp add: entry_def xy)
    then have "?c ` {A, B} = ?c ` {A', B'}" by simp
    then have "{A, B} = {A', B'}"
      using inj_on_image_eq_iff [OF inj, of "{A, B}" "{A', B'}"] n by simp
    then have "(\<lambda>(A, B, R). {A, B}) x = (\<lambda>(A, B, R). {A, B}) y" by (simp add: xy)
    then show "x = y" using pairs_distinct x y by (meson distinct_map inj_onD)
  qed
  moreover have "distinct hdql_M_for_each_arith_types_pair" using pairs_distinct by (simp add: distinct_map)
  ultimately show ?thesis by (simp add: distinct_map o_def)
qed

lemma rebuild_entries:
  assumes "arith_types vt"
  shows "hdql_arith_type_promotion_rebuild vt t = (HDQL_ERR_CODE_OK,
    \<lparr>pt_nEntres = Some (length hdql_M_for_each_arith_types_pair),
     pt_records = c_qsort pr_numeric (map (entry vt) hdql_M_for_each_arith_types_pair)\<rparr>)"
proof -
  have len: "length hdql_M_for_each_arith_types_pair = 45" by (simp add: hdql_M_for_each_arith_types_pair_def)
  have "add_entries vt hdql_M_for_each_arith_types_pair [] = (True, [] @ map (entry vt) hdql_M_for_each_arith_types_pair)"
    using assms pairs_named by (intro add_entries_all) (auto simp: arith_types_def code_ok_def len)
  moreover have "hdql_M_for_each_arith_types_pair \<noteq> []" using len by auto
  ultimately show ?thesis by (simp add: hdql_arith_type_promotion_rebuild_def)
qed

lemma cached_table:
  "vt_promotions vt = Some t \<Longrightarrow> vt_promotionsValid vt \<Longrightarrow> numeric_types_promotion_table vt =
     Some (t, Types (vt_codeByName vt) (vt_itemByCode vt) (vt_tier vt) (vt_parent vt) (Some t) True)"
  by (cases vt) (simp add: numeric_types_promotion_table_def)

text \<open>The cached promotions are the ones of the table's names and codes.\<close>

definition promotions_current :: "'i types_table \<Rightarrow> bool" where
  "promotions_current vt \<longleftrightarrow> vt_promotions vt = Some
     \<lparr>pt_nEntres = Some (length hdql_M_for_each_arith_types_pair),
      pt_records = c_qsort pr_numeric (map (entry vt) hdql_M_for_each_arith_types_pair)\<rparr>"

text \<open>
  C23: In a table that knows the arithmetic types under ten different codes, the promotion of two codes is
  the type the list of pairs of types names for them, in either order; two codes that are not two different
  arithmetic types (the same type twice included) have none. This holds of the first promotion, which makes
  the cached table, and of every later one, which finds it, as long as it is the one for the names and codes
  the table has: the call leaves such a cache, and everything else as it was.
\<close>

theorem numeric_promote_spec:
  assumes "arith_types vt" "vt_promotions vt \<noteq> None" "vt_promotionsValid vt \<Longrightarrow> promotions_current vt" "code_ok a" "code_ok b"
  shows "\<exists>vt'. hdql_types_numeric_promote vt a b = Some (case promoted vt a b of None \<Rightarrow> 0 | Some r \<Rightarrow> r, vt') \<and>
    vt_promotionsValid vt' \<and> promotions_current vt' \<and>
    vt_codeByName vt' = vt_codeByName vt \<and> vt_itemByCode vt' = vt_itemByCode vt \<and> vt_tier vt' = vt_tier vt \<and>
    vt_parent vt' = vt_parent vt"
proof -
  let ?c = "get_code_by_name vt" and ?ps = hdql_M_for_each_arith_types_pair
  let ?recs = "map (entry vt) ?ps"
  let ?vt = "Types (vt_codeByName vt) (vt_itemByCode vt) (vt_tier vt) (vt_parent vt)
    (Some \<lparr>pt_nEntres = Some (length ?ps), pt_records = c_qsort pr_numeric ?recs\<rparr>) True"
  have ab: "unat a < 8192" "unat b < 8192" "a \<noteq> 0" "b \<noteq> 0" using assms(4,5) by (auto simp: code_ok_def)
  have key: "pr_numeric (entry vt p) = pair_numeric a b \<longleftrightarrow> (case p of (A, B, R) \<Rightarrow> {?c A, ?c B} = {a, b})"
    if "p \<in> set ?ps" for p
  proof -
    obtain A B R where p: "p = (A, B, R)" by (cases p)
    have "unat (?c A) < 8192" "unat (?c B) < 8192"
      using pairs_named that assms(1) by (auto simp: p arith_types_def code_ok_def)
    then show ?thesis using pair_numeric_inj [OF _ _ ab(1,2)] by (simp add: p entry_def)
  qed
  have "c_bsearch pr_numeric (pair_numeric a b) (c_qsort pr_numeric ?recs) =
      map_of (map (\<lambda>r. (pr_numeric r, r)) ?recs) (pair_numeric a b)"
    by (rule c_bsearch_qsort [OF entries_distinct [OF assms(1)]])
  also have "\<dots> = map_of (map (\<lambda>p. (pr_numeric (entry vt p), entry vt p)) ?ps) (pair_numeric a b)"
    by (simp only: map_map o_def)
  also have "\<dots> = map_option (entry vt) (find (\<lambda>(A, B, R). {?c A, ?c B} = {a, b}) ?ps)"
    by (rule find_map_of) (rule key)
  finally have search: "c_bsearch pr_numeric (pair_numeric a b) (c_qsort pr_numeric ?recs) =
      map_option (entry vt) (find (\<lambda>(A, B, R). {?c A, ?c B} = {a, b}) ?ps)" .
  have len: "length ?ps = 45" by (simp add: hdql_M_for_each_arith_types_pair_def)
  have widen: "ucast (pr_r (entry vt p)) = (case p of (A, B, R) \<Rightarrow> ?c R)"
    if "find (\<lambda>(A, B, R). {?c A, ?c B} = {a, b}) ?ps = Some p" for p
  proof -
    obtain A B R where p: "p = (A, B, R)" by (cases p)
    have "p \<in> set ?ps" using that unfolding find_Some_iff by (metis nth_mem)
    then have "unat (?c R) < 8192" using pairs_named assms(1) by (auto simp: p arith_types_def code_ok_def)
    then show ?thesis by (simp add: entry_def p field_back)
  qed
  have table: "numeric_types_promotion_table vt =
      Some (\<lparr>pt_nEntres = Some (length ?ps), pt_records = c_qsort pr_numeric ?recs\<rparr>, ?vt)"
  proof (cases "vt_promotionsValid vt")
    case True
    then have "vt_promotions vt = Some \<lparr>pt_nEntres = Some (length ?ps), pt_records = c_qsort pr_numeric ?recs\<rparr>"
      using assms(3) by (simp add: promotions_current_def)
    then show ?thesis by (rule cached_table) (rule True)
  next
    case False
    with assms(2) show ?thesis
      by (auto simp: numeric_types_promotion_table_def rebuild_entries [OF assms(1)])
  qed
  have "hdql_types_numeric_promote vt a b = Some (case promoted vt a b of None \<Rightarrow> 0 | Some r \<Rightarrow> r, ?vt)"
    using ab(3,4) search widen
    by (auto simp: hdql_types_numeric_promote_def table hdql_arith_type_promote_def len promoted_def split: option.split)
  moreover have "get_code_by_name ?vt = ?c" by (cases vt) (auto simp: fun_eq_iff)
  then have "entry ?vt = entry vt" by (auto simp: fun_eq_iff entry_def)
  ultimately show ?thesis by (intro exI [of _ ?vt]) (simp add: promotions_current_def)
qed

text \<open>The table of a root context with the standard types.\<close>

definition std_table :: "unit types_table" where
  "std_table = snd (the (hdql_value_types_table_add_std_types (\<lambda>_. ())
     \<lparr>ti_name = None, ti_size = 0, ti_init = None, ti_destroy = None, ti_ops = ()\<rparr>
     (Types [] [] 1 None (Some \<lparr>pt_nEntres = None, pt_records = []\<rparr>) False)))"

lemma std_table_codes:
  "map (get_code_by_name std_table) arith_names = [513, 514, 515, 516, 517, 518, 519, 520, 521, 522]"
  "vt_promotions std_table = Some \<lparr>pt_nEntres = None, pt_records = []\<rparr>" "\<not> vt_promotionsValid std_table"
  by code_simp+

lemma numeric_promote_spec_witness:
  "map_option fst (hdql_types_numeric_promote std_table (get_code_by_name std_table ''int8_t'') (get_code_by_name std_table ''uint32_t'')) =
     Some (get_code_by_name std_table ''int64_t'') \<and>
   map_option fst (hdql_types_numeric_promote std_table (get_code_by_name std_table ''uint32_t'') (get_code_by_name std_table ''int8_t'')) =
     Some (get_code_by_name std_table ''int64_t'') \<and>
   map_option fst (hdql_types_numeric_promote std_table (get_code_by_name std_table ''int8_t'') (get_code_by_name std_table ''int8_t'')) = Some 0"
proof -
  have codes: "get_code_by_name std_table ''int8_t'' = 513" "get_code_by_name std_table ''uint32_t'' = 518"
    "get_code_by_name std_table ''int64_t'' = 519"
    using std_table_codes(1) by (simp_all add: arith_names_def)
  have arith: "arith_types std_table"
    using std_table_codes(1) unfolding arith_types_def code_ok_def
    by (simp add: arith_names_def)
  have ok: "code_ok 513" "code_ok 518" by (simp_all add: code_ok_def)
  have p: "promoted std_table 513 518 = Some 519" "promoted std_table 518 513 = Some 519" "promoted std_table 513 513 = None"
    by code_simp+
  have stale: "vt_promotions std_table \<noteq> None" using std_table_codes(2) by simp
  have promote: "map_option fst (hdql_types_numeric_promote std_table a b) =
      Some (case promoted std_table a b of None \<Rightarrow> 0 | Some r \<Rightarrow> r)" if "code_ok a" "code_ok b" for a b
    using numeric_promote_spec [of std_table a b, OF arith stale _ that] std_table_codes(3) by auto
  show ?thesis
    unfolding codes using promote [OF ok(1,2)] promote [OF ok(2,1)] promote [OF ok(1,1)] by (auto simp: p)
qed

end
