(* ===== verification/Arguments.thy ===== *)
theory Arguments
  imports FwdQuery
begin

text \<open>
  Queries given as arguments (of functions, operations and filters): they are evaluated on the
  owner without a key. What such a client relies on is the locale \<open>query_arg\<close>: a reset, then a
  \<open>get\<close> at a time, give the outputs of the argument one by one and then null, whenever the
  argument is reset again. Query chains provide it (\<open>chain_arg\<close>).
\<close>

section \<open>The contract\<close>

record ('q, 'd) argument =
  ag_valid :: "'q list \<Rightarrow> bool"
  ag_pending :: "'q list \<Rightarrow> 'd list \<Rightarrow> bool"
  ag_outs :: "'d option \<Rightarrow> 'd list"
  ag_null :: bool

definition first :: "'d list \<Rightarrow> 'd option" where
  "first xs = (case xs of [] \<Rightarrow> None | x # _ \<Rightarrow> Some x)"

lemma first_simps [simp]: "first [] = None" "first (x # xs) = Some x"
  by (simp_all add: first_def)

lemma first_None [simp]: "first xs = None \<longleftrightarrow> xs = []"
  by (cases xs) simp_all

text \<open>Folding a step that may not return.\<close>

fun ofold :: "('x \<Rightarrow> 'st \<Rightarrow> 'st option) \<Rightarrow> 'x list \<Rightarrow> 'st \<Rightarrow> 'st option" where
  "ofold f [] s = Some s"
| "ofold f (x # xs) s = do { s \<leftarrow> f x s; ofold f xs s }"

lemma ofold_append: "ofold f (xs @ ys) s = do { s \<leftarrow> ofold f xs s; ofold f ys s }"
  by (induction f xs s rule: ofold.induct) (auto split: bind_splits)

lemma ofold_total: "ofold (\<lambda>x s. Some (f x s)) xs s = Some (fold f xs s)"
  by (induction xs arbitrary: s) auto

locale query_arg =
  fixes A :: "(('d, 's, 'a, 'v) hdql_Query, 'd) argument" and ok :: "hdql_Context \<Rightarrow> bool"
  assumes reset_gives: "ag_valid A qs \<Longrightarrow> ok c \<Longrightarrow> d = None \<longrightarrow> ag_null A \<Longrightarrow>
      \<exists>qs' c'. hdql_query_reset qs d None c = Some (first (ag_outs A d), qs', None, c') \<and> ok c' \<and>
        (if ag_outs A d = [] then ag_valid A qs' else ag_pending A qs' (tl (ag_outs A d)))"
    and get_gives: "ag_pending A qs xs \<Longrightarrow> ok c \<Longrightarrow>
      \<exists>qs' c'. hdql_query_get qs None c = Some (first xs, qs', None, c') \<and> ok c' \<and> ag_pending A qs' (tl xs)"
    and pending_valid: "ag_pending A qs xs \<Longrightarrow> ag_valid A qs"
begin

text \<open>A reset alone, for clients that take the first output only.\<close>

lemma reset_first:
  assumes "ag_valid A qs" "ok c" "d = None \<longrightarrow> ag_null A"
  obtains qs' c' where "hdql_query_reset qs d None c = Some (first (ag_outs A d), qs', None, c')" "ok c'" "ag_valid A qs'"
  using reset_gives [OF assms] pending_valid by (auto split: if_splits)

end

section \<open>Draining an argument\<close>

text \<open>\<open>r\<close> is the datum the last call gave; the step is done on it before the next is asked for.\<close>

partial_function (option) drain ::
  "('d \<Rightarrow> 'st \<Rightarrow> 'st option) \<Rightarrow> 'd option \<Rightarrow> ('d, 's, 'a, 'v) hdql_Query list \<Rightarrow> 'st \<Rightarrow> hdql_Context \<Rightarrow>
   ('st \<times> ('d, 's, 'a, 'v) hdql_Query list \<times> hdql_Context) option"
where
  "drain f r qs s c = (case r of
     None \<Rightarrow> Some (s, qs, c)
   | Some x \<Rightarrow> do {
       s \<leftarrow> f x s;
       (r, qs, _, c) \<leftarrow> hdql_query_get qs None c;
       drain f r qs s c })"

lemma drain_None [simp]: "drain f None qs s c = Some (s, qs, c)"
  by (simp add: drain.simps)

context query_arg
begin

text \<open>Draining folds the step over the outputs and ends, with the argument fit for another reset.\<close>

lemma drain_outs:
  assumes "if xs = [] then ag_valid A qs else ag_pending A qs (tl xs)" "ok c" "ofold f xs s = Some s'"
  shows "\<exists>qs' c'. drain f (first xs) qs s c = Some (s', qs', c') \<and> ok c' \<and> ag_valid A qs'"
  using assms
proof (induction xs arbitrary: qs s c)
  case (Cons x xs)
  then obtain s1 where s1: "f x s = Some s1" "ofold f xs s1 = Some s'" by (auto split: bind_splits)
  from get_gives [of qs xs c] Cons.prems obtain qs1 c1 where
    g: "hdql_query_get qs None c = Some (first xs, qs1, None, c1)" "ok c1" "ag_pending A qs1 (tl xs)" by auto
  have "if xs = [] then ag_valid A qs1 else ag_pending A qs1 (tl xs)" using g(3) pending_valid by simp
  from Cons.IH [OF this g(2) s1(2)] show ?case using s1(1) g(1) by (subst drain.simps) simp
qed simp

end

section \<open>Chains are arguments\<close>

definition keyless :: "('d, 's, 'a, 'v, 'e, 'h) qlevel list \<Rightarrow> ('d, 's, 'a, 'v, 'e, 'h) klevel list" where
  "keyless Ls = map (\<lambda>L. (L, None)) Ls"

definition no_keys :: "('d, 's, 'a, 'v, 'e, 'h) qlevel list \<Rightarrow> 'v hdql_Key option list" where
  "no_keys Ls = map (\<lambda>L. None) Ls"

definition chain_arg ::
  "(hdql_Context \<Rightarrow> bool) \<Rightarrow> ('d, 's, 'a, 'v, 'e, 'h) qlevel list \<Rightarrow> (('d, 's, 'a, 'v) hdql_Query, 'd) argument" where
  "chain_arg ok Ls = \<lparr>
     ag_valid = (\<lambda>qs. chain_valid ok (keyless Ls) qs (no_keys Ls)),
     ag_pending = (\<lambda>qs xs. \<exists>outs. map fst outs = xs \<and> chain_pending ok (keyless Ls) qs (no_keys Ls) outs),
     ag_outs = (\<lambda>d. map fst (chain_outs (keyless Ls) d)),
     ag_null = lv_null (hd Ls) \<rparr>"

lemma no_keys_are: "keys_are None (no_keys Ls)"
  by (simp add: keys_are_def no_keys_def)

lemma no_keys_unique: "keys_are None ks \<Longrightarrow> length ks = length Ls \<Longrightarrow> ks = no_keys Ls"
  by (rule keys_are_unique [OF _ no_keys_are]) (simp_all add: no_keys_def)

lemma no_keys_path: "length es = length Ls \<Longrightarrow> path_keys (keyless Ls) es = no_keys Ls"
proof (induction Ls arbitrary: es)
  case (Cons L Ls)
  then show ?case by (cases es) (auto simp: path_keys_def keyless_def no_keys_def ekey_def)
qed (simp add: path_keys_def keyless_def no_keys_def)

lemma keyless_simps [simp]: "length (keyless Ls) = length Ls" "keyless Ls = [] \<longleftrightarrow> Ls = []"
  by (simp_all add: keyless_def)

lemma chain_valid_length: "chain_valid ok ls qs ks \<Longrightarrow> length ks = length ls"
  unfolding chain_valid_def using suf_ok_length by blast

interpretation chain: query_arg "chain_arg ok Ls" ok for ok Ls
proof
  fix qs c and d :: "'a option"
  let ?ls = "keyless Ls" and ?A = "chain_arg ok Ls"
  assume v: "ag_valid ?A qs" and c: "ok c" and d: "d = None \<longrightarrow> ag_null ?A"
  have valid: "chain_valid ok ?ls qs (no_keys Ls)" using v by (simp add: chain_arg_def)
  have "Ls \<noteq> []" using valid chain_valid_length [OF valid] by (auto simp: chain_valid_def no_keys_def keyless_def neq_Nil_conv elim: suf_ok.elims)
  then have null: "d = None \<longrightarrow> lv_null (fst (hd ?ls))" using d by (cases Ls) (auto simp: chain_arg_def keyless_def)
  obtain r qs' key' c' ks' where r: "hdql_query_reset qs d None c = Some (r, qs', key', c')" "ok c'"
    "key' = put_keys None ks'" "keys_are key' ks'"
    "case chain_outs ?ls d of
       [] \<Rightarrow> r = None \<and> chain_valid ok ?ls qs' ks'
     | (y, es) # outs \<Rightarrow> r = Some y \<and> ks' = path_keys ?ls es \<and> chain_pending ok ?ls qs' ks' outs"
    using chain_reset [OF valid no_keys_are c null] by blast
  have key: "key' = None" using r(3) by simp
  have "r = first (ag_outs ?A d) \<and>
      (if ag_outs ?A d = [] then ag_valid ?A qs' else ag_pending ?A qs' (tl (ag_outs ?A d)))"
  proof (cases "chain_outs ?ls d")
    case Nil
    then have "chain_valid ok ?ls qs' ks'" "r = None" using r(5) by simp_all
    moreover have "ks' = no_keys Ls"
      by (rule no_keys_unique) (use r(4) key chain_valid_length [OF calculation(1)] in simp_all)
    ultimately show ?thesis using Nil by (simp add: chain_arg_def)
  next
    case (Cons o1 outs)
    obtain y es where o1: "o1 = (y, es)" by (cases o1)
    have "length es = length ?ls" by (rule chain_outs_length [of y es ?ls d]) (simp add: Cons o1)
    then have "ks' = no_keys Ls" using r(5) Cons o1 no_keys_path by simp
    then show ?thesis using r(5) Cons o1 by (auto simp: chain_arg_def)
  qed
  with r(1,2) key show "\<exists>qs' c'. hdql_query_reset qs d None c = Some (first (ag_outs ?A d), qs', None, c') \<and> ok c' \<and>
      (if ag_outs ?A d = [] then ag_valid ?A qs' else ag_pending ?A qs' (tl (ag_outs ?A d)))" by auto
next
  fix qs c and xs :: "'a list"
  let ?ls = "keyless Ls" and ?A = "chain_arg ok Ls"
  assume "ag_pending ?A qs xs" and c: "ok c"
  then obtain outs where outs: "map fst outs = xs" "chain_pending ok ?ls qs (no_keys Ls) outs"
    by (auto simp: chain_arg_def)
  obtain r qs' key' c' ks' where r: "hdql_query_get qs None c = Some (r, qs', key', c')" "ok c'"
    "key' = put_keys None ks'" "keys_are key' ks'"
    "case outs of
       [] \<Rightarrow> r = None \<and> chain_pending ok ?ls qs' ks' []
     | (y, es) # outs' \<Rightarrow> r = Some y \<and> ks' = path_keys ?ls es \<and> chain_pending ok ?ls qs' ks' outs'"
    using chain_get [OF outs(2) no_keys_are c] by blast
  have key: "key' = None" using r(3) by simp
  have "\<exists>outs'. map fst outs' = tl xs \<and> chain_pending ok ?ls qs' ks' outs'" and r': "r = first xs"
    using r(5) outs(1) by (auto split: list.splits)
  then obtain outs' where p: "map fst outs' = tl xs" "chain_pending ok ?ls qs' ks' outs'" by blast
  have "ks' = no_keys Ls"
    by (rule no_keys_unique) (use r(4) key chain_valid_length [OF chain_pending_valid [OF p(2)]] in simp_all)
  then show "\<exists>qs' c'. hdql_query_get qs None c = Some (first xs, qs', None, c') \<and> ok c' \<and> ag_pending ?A qs' (tl xs)"
    using r(1,2) key p r' by (auto simp: chain_arg_def)
next
  fix qs and xs :: "'a list"
  assume "ag_pending (chain_arg ok Ls) qs xs"
  then show "ag_valid (chain_arg ok Ls) qs"
    by (auto simp: chain_arg_def dest: chain_pending_valid)
qed

section \<open>Attributes that aggregate\<close>

text \<open>
  What operations, filters and the functions of whole arguments have in common: a scalar attribute
  with a state of its own whose reset gives the value \<open>val\<close> of the owner (or null) and leaves state
  and definition data fit for another one. \<open>keyed\<close> says whether it may be given a key, which it leaves alone.
\<close>

locale aggregate =
  fixes iface :: "('d, 's, 'a, 'v) hdql_ScalarAttrInterface" and dd_ok :: "'a \<Rightarrow> bool" and st_ok :: "'s \<Rightarrow> bool"
    and val :: "'d option \<Rightarrow> 'd option" and ok :: "hdql_Context \<Rightarrow> bool" and null keyed :: bool
  assumes new: "dd_ok dd \<Longrightarrow> ok c \<Longrightarrow>
      \<exists>new st c'. si_new_dyn_data iface = Some new \<and> new d dd c = Some (Some st, dd, c') \<and> st_ok st \<and> ok c'"
    and reset: "dd_ok dd \<Longrightarrow> st_ok st \<Longrightarrow> ok c \<Longrightarrow> d = None \<longrightarrow> null \<Longrightarrow> key = None \<or> keyed \<Longrightarrow>
      \<exists>st' dd' c'. si_reset iface d (Some st) dd key c = Some (val d, Some st', dd', key, c') \<and>
        dd_ok dd' \<and> st_ok st' \<and> ok c'"

definition aggregate_level ::
  "('d, 's, 'a, 'v) hdql_ScalarAttrInterface \<Rightarrow> ('a \<Rightarrow> bool) \<Rightarrow> ('s \<Rightarrow> bool) \<Rightarrow> ('d option \<Rightarrow> 'd option) \<Rightarrow> bool \<Rightarrow> bool \<Rightarrow>
   ('d, 's, 'a, 'v) tlevel"
where
  "aggregate_level iface dd_ok st_ok val null keyed = (let
     here = (\<lambda>q. qa_interface (q_ad q) = IfScalar iface \<and> dd_ok (qa_definitionData (q_ad q)) \<and>
       (\<forall>st. q_state q = Some st \<longrightarrow> st_ok st))
   in \<lparr>
     lv_valid = here,
     lv_pending = (\<lambda>q k xs. here q \<and> xs = []),
     lv_done = (\<lambda>q k. here q),
     lv_elems = (\<lambda>d. case val d of None \<Rightarrow> [] | Some x \<Rightarrow> [(x, TNone)]),
     lv_kf = (\<lambda>_. key_fill undefined),
     lv_shape = erased,
     lv_keyok = (\<lambda>k. keyed \<and> set_hdql_Key k = {}),
     lv_null = null \<rparr>)"

sublocale aggregate \<subseteq> lev: pending_level "aggregate_level iface dd_ok st_ok val null keyed" ok
proof (unfold_locales, goal_cases)
  case (1 q k c d)
  let ?L = "aggregate_level iface dd_ok st_ok val null keyed" and ?dd = "qa_definitionData (q_ad q)"
  have q: "qa_interface (q_ad q) = IfScalar iface" "dd_ok ?dd" "\<forall>st. q_state q = Some st \<longrightarrow> st_ok st" and d: "d = None \<longrightarrow> null"
    using 1 by (auto simp: aggregate_level_def Let_def key_fits_def)
  have k: "k = None \<or> keyed" "map_option (key_fill undefined) k = k"
    using 1(2) by (cases k; simp add: aggregate_level_def Let_def key_fits_def key_fill_dataless)+
  obtain new st c1 where st: "si_new_dyn_data iface = Some new"
    "(if q_state q = None then new d ?dd c else Some (q_state q, ?dd, c)) = Some (Some st, ?dd, c1)" "st_ok st" "ok c1"
    using new [OF q(2) 1(3), of d] q(3) 1(3) by (cases "q_state q") auto
  obtain st' dd' c' where r: "si_reset iface d (Some st) ?dd k c1 = Some (val d, Some st', dd', k, c')"
    "dd_ok dd'" "st_ok st'" "ok c'"
    using reset [OF q(2) st(3,4) d k(1)] by blast
  have "hdql__query_reset q d k c = Some (val d, q_update (q\<lparr>q_owner := d\<rparr>) (Some st') dd', k, c')"
    using q(1) st(1,2) r(1) by (cases "q_state q") (auto simp: hdql__query_reset_def Let_def q_update_def)
  then show ?case
    using q(1) r(2-4) k(2) by (intro exI conjI) (assumption | auto simp: aggregate_level_def Let_def q_update_def key_after_def split: option.split)+
next
  case (2 q k xs c)
  then show ?case by (auto simp: aggregate_level_def Let_def hdql__query_yield_def key_after_def)
qed (simp_all add: aggregate_level_def Let_def, (erule key_fill_cong erased_terminal)+, drule erased_set, simp)

context aggregate
begin

lemma agg_level: "query_level (aggregate_level iface dd_ok st_ok val null keyed) ok"
  by (rule lev.query_level_axioms)

text \<open>Reset after reset, the query gives the value of the owner.\<close>

lemma agg_reset:
  assumes "lv_valid (aggregate_level iface dd_ok st_ok val null keyed) q" "ok c" "d = None \<longrightarrow> null"
  shows "\<exists>q' c'. hdql__query_reset q d None c = Some (val d, q', None, c') \<and>
    lv_valid (aggregate_level iface dd_ok st_ok val null keyed) q' \<and> ok c'"
proof -
  let ?L = "aggregate_level iface dd_ok st_ok val null keyed"
  have null: "d = None \<longrightarrow> lv_null ?L" and fits: "key_fits ?L None" using assms(3) by (simp_all add: aggregate_level_def Let_def key_fits_def)
  obtain q' k' c' where r: "hdql__query_reset q d None c = Some (head_datum (lv_elems ?L d), q', k', c')"
    "lv_pending ?L q' k' (tl (lv_elems ?L d))" "key_after ?L (lv_elems ?L d) None k'" "ok c'"
    using lev.reset_pending [OF assms(1) fits assms(2) null] by blast
  have "head_datum (lv_elems ?L d) = val d" by (simp add: aggregate_level_def Let_def split: option.split)
  moreover have "k' = None" using r(3) by (simp add: key_after_def split: list.splits)
  ultimately show ?thesis using r lev.pending_valid [OF r(2)] by simp
qed

end

text \<open>A query on such an attribute has one record, or none.\<close>

lemma aggregate_records:
  assumes "aggregate iface dd_ok st_ok val ok null keyed"
    and "qa_interface (q_ad q) = IfScalar iface" "dd_ok (qa_definitionData (q_ad q))" "q_state q = None"
    and "ok c" "d = None \<longrightarrow> null"
  shows "query_records [q] d None c = Some (case val d of None \<Rightarrow> [] | Some x \<Rightarrow> [(x, None)])"
proof -
  let ?L = "aggregate_level iface dd_ok st_ok val null keyed"
  have "query_level ?L ok" by (rule aggregate.agg_level [OF assms(1)])
  moreover have "lv_valid ?L q" using assms(2-4) by (simp add: aggregate_level_def Let_def)
  ultimately have "chain_valid ok [(?L, None)] [q] [None]"
    by (simp add: chain_valid_def klevel_ok_def key_fits_def resettable_def kshape_def)
  then have "query_records [q] d None c = Some (map (seen [(?L, None)] None) (chain_outs [(?L, None)] d))"
    by (rule query_records_chain [where ok = ok])
      (use assms(5,6) in \<open>simp_all add: keys_are_def aggregate_level_def Let_def\<close>)
  then show ?thesis
    by (simp add: forwarded_outs aggregate_level_def Let_def split: option.split)
qed

end
