(* ===== verification/CInt.thy ===== *)
theory CInt
  imports Prelude "HOL-Library.Signed_Division"
begin

text \<open>
  Integer arithmetic of C on the LP64 targets, as the operations and monoids of the library use it.
  A value of an integer type is the \<open>int\<close> it stands for; operands are promoted and converted to
  their common type, the operation is done there. Unsigned types wrap around; an overflow of a
  signed one, a division by zero and a shift out of range are undefined (\<open>None\<close>). A conversion to
  a signed type that can not represent the value wraps around, as the compilers define it.
\<close>

section \<open>The integer types\<close>

datatype c_type = CBool | CI8 | CUI8 | CI16 | CUI16 | CI32 | CUI32 | CI64 | CUI64

fun c_width :: "c_type \<Rightarrow> nat" where
  "c_width CBool = 1"
| "c_width CI8 = 8" | "c_width CUI8 = 8"
| "c_width CI16 = 16" | "c_width CUI16 = 16"
| "c_width CI32 = 32" | "c_width CUI32 = 32"
| "c_width CI64 = 64" | "c_width CUI64 = 64"

fun c_signed :: "c_type \<Rightarrow> bool" where
  "c_signed CI8 = True" | "c_signed CI16 = True" | "c_signed CI32 = True" | "c_signed CI64 = True"
| "c_signed _ = False"

definition c_min :: "c_type \<Rightarrow> int" where
  "c_min t = (if c_signed t then - (2 ^ (c_width t - 1)) else 0)"

definition c_max :: "c_type \<Rightarrow> int" where
  "c_max t = (if c_signed t then 2 ^ (c_width t - 1) - 1 else 2 ^ c_width t - 1)"

definition in_range :: "c_type \<Rightarrow> int \<Rightarrow> bool" where
  "in_range t z \<longleftrightarrow> c_min t \<le> z \<and> z \<le> c_max t"

text \<open>Conversion of a value to a type; to \<open>bool\<close> it is the test for zero.\<close>

definition c_conv :: "c_type \<Rightarrow> int \<Rightarrow> int" where
  "c_conv t z = (if t = CBool then of_bool (z \<noteq> 0)
     else if c_signed t then (z + 2 ^ (c_width t - 1)) mod 2 ^ c_width t - 2 ^ (c_width t - 1)
     else z mod 2 ^ c_width t)"

lemma c_width_pos [simp]: "0 < c_width t"
  by (cases t) simp_all

lemma half_width: "c_signed t \<Longrightarrow> (2::int) ^ c_width t = 2 * 2 ^ (c_width t - 1)"
  by (cases t) simp_all

lemma c_conv_in_range: "in_range t (c_conv t z)"
proof (cases "c_signed t")
  case True
  let ?h = "(2::int) ^ (c_width t - 1)"
  have "0 \<le> (z + ?h) mod (2 * ?h)" "(z + ?h) mod (2 * ?h) < 2 * ?h" by simp_all
  with True show ?thesis
    by (auto simp: in_range_def c_min_def c_max_def c_conv_def half_width)
next
  case False
  then show ?thesis by (cases t) (auto simp: in_range_def c_min_def c_max_def c_conv_def)
qed

lemma c_conv_id: "in_range t z \<Longrightarrow> c_conv t z = z"
proof -
  assume z: "in_range t z"
  show ?thesis
  proof (cases "c_signed t")
    case True
    let ?h = "(2::int) ^ (c_width t - 1)"
    have "0 \<le> z + ?h" "z + ?h < 2 * ?h"
      using z True by (auto simp: in_range_def c_min_def c_max_def)
    then have "(z + ?h) mod (2 * ?h) = z + ?h" by simp
    with True show ?thesis by (auto simp: c_conv_def half_width)
  next
    case False
    then show ?thesis using z by (cases t) (auto simp: in_range_def c_min_def c_max_def c_conv_def)
  qed
qed

text \<open>What a conversion loses is a multiple of the modulus.\<close>

lemma c_conv_mod: "t \<noteq> CBool \<Longrightarrow> c_conv t z mod 2 ^ c_width t = z mod 2 ^ c_width t"
  by (auto simp: c_conv_def mod_diff_left_eq)

lemma c_conv_cong: "t \<noteq> CBool \<Longrightarrow> y mod 2 ^ c_width t = z mod 2 ^ c_width t \<Longrightarrow> c_conv t y = c_conv t z"
  by (auto simp: c_conv_def intro: mod_add_cong)

section \<open>Promotion and the common type\<close>

definition c_promote :: "c_type \<Rightarrow> c_type" where
  "c_promote t = (if c_width t < 32 then CI32 else t)"

text \<open>The usual arithmetic conversions: the wider type, of two as wide the unsigned one.\<close>

definition c_usual :: "c_type \<Rightarrow> c_type \<Rightarrow> c_type" where
  "c_usual t u = (let t = c_promote t; u = c_promote u in
     if c_width t < c_width u then u
     else if c_width u < c_width t then t
     else if c_signed t then u else t)"

text \<open>The value of an arithmetic expression of a type.\<close>

definition c_eval :: "c_type \<Rightarrow> int \<Rightarrow> int option" where
  "c_eval t z = (if \<not> c_signed t then Some (z mod 2 ^ c_width t)
     else if in_range t z then Some z else None)"

definition c_arith :: "(int \<Rightarrow> int \<Rightarrow> int) \<Rightarrow> c_type \<Rightarrow> c_type \<Rightarrow> int \<Rightarrow> int \<Rightarrow> int option" where
  "c_arith f t u a b = (let w = c_usual t u in c_eval w (f (c_conv w a) (c_conv w b)))"

definition c_add :: "c_type \<Rightarrow> c_type \<Rightarrow> int \<Rightarrow> int \<Rightarrow> int option" where "c_add = c_arith (+)"
definition c_sub :: "c_type \<Rightarrow> c_type \<Rightarrow> int \<Rightarrow> int \<Rightarrow> int option" where "c_sub = c_arith (-)"
definition c_mul :: "c_type \<Rightarrow> c_type \<Rightarrow> int \<Rightarrow> int \<Rightarrow> int option" where "c_mul = c_arith (*)"
definition c_band :: "c_type \<Rightarrow> c_type \<Rightarrow> int \<Rightarrow> int \<Rightarrow> int option" where "c_band = c_arith (AND)"
definition c_bor :: "c_type \<Rightarrow> c_type \<Rightarrow> int \<Rightarrow> int \<Rightarrow> int option" where "c_bor = c_arith (OR)"
definition c_bxor :: "c_type \<Rightarrow> c_type \<Rightarrow> int \<Rightarrow> int \<Rightarrow> int option" where "c_bxor = c_arith (XOR)"

definition c_div :: "c_type \<Rightarrow> c_type \<Rightarrow> int \<Rightarrow> int \<Rightarrow> int option" where
  "c_div t u a b = (let w = c_usual t u in
     if c_conv w b = 0 then None else c_eval w (c_conv w a sdiv c_conv w b))"

text \<open>The remainder is undefined where the quotient is.\<close>

definition c_mod :: "c_type \<Rightarrow> c_type \<Rightarrow> int \<Rightarrow> int \<Rightarrow> int option" where
  "c_mod t u a b = (let w = c_usual t u in do {
     _ \<leftarrow> c_div t u a b; c_eval w (c_conv w a smod c_conv w b) })"

text \<open>
  Shifts: the type is that of the promoted left operand; a left shift of a negative value is
  undefined, of another the result must fit the unsigned type (C++17).
\<close>

definition c_shl :: "c_type \<Rightarrow> c_type \<Rightarrow> int \<Rightarrow> int \<Rightarrow> int option" where
  "c_shl t u a b = (let w = c_promote t in
     if b < 0 \<or> b \<ge> int (c_width w) then None
     else if \<not> c_signed w then Some (a * 2 ^ nat b mod 2 ^ c_width w)
     else if a < 0 \<or> a * 2 ^ nat b \<ge> 2 ^ c_width w then None
     else Some (c_conv w (a * 2 ^ nat b)))"

definition c_shr :: "c_type \<Rightarrow> c_type \<Rightarrow> int \<Rightarrow> int \<Rightarrow> int option" where
  "c_shr t u a b = (let w = c_promote t in
     if b < 0 \<or> b \<ge> int (c_width w) then None else Some (a div 2 ^ nat b))"

definition c_compare :: "(int \<Rightarrow> int \<Rightarrow> bool) \<Rightarrow> c_type \<Rightarrow> c_type \<Rightarrow> int \<Rightarrow> int \<Rightarrow> bool" where
  "c_compare r t u a b = (let w = c_usual t u in r (c_conv w a) (c_conv w b))"

text \<open>A compound assignment \<open>x op= y\<close> to a variable of type \<open>t\<close>.\<close>

definition c_assign :: "c_type \<Rightarrow> int option \<Rightarrow> int option" where
  "c_assign t e = map_option (c_conv t) e"

section \<open>What the conversions preserve\<close>

text \<open>The common type holds the operands, except a signed one when it is unsigned.\<close>

lemma c_usual_holds:
  assumes "in_range t a" "c_signed t \<longrightarrow> c_signed (c_usual t u)"
  shows "in_range (c_usual t u) a" and "in_range (c_usual u t) a"
  using assms by (cases t; cases u; simp add: in_range_def c_min_def c_max_def c_usual_def c_promote_def Let_def)+

lemma c_usual_commute: "c_usual t u = c_usual u t"
  by (cases t; cases u) (simp_all add: c_usual_def c_promote_def Let_def)

lemma c_usual_not_bool [simp]: "c_usual t u \<noteq> CBool"
  by (cases t; cases u) (simp_all add: c_usual_def c_promote_def Let_def)

lemma c_usual_signed: "c_signed (c_usual t u) \<Longrightarrow> in_range t a \<Longrightarrow> in_range u b \<Longrightarrow>
    c_conv (c_usual t u) a = a \<and> c_conv (c_usual t u) b = b"
  using c_usual_holds [of t a u] c_usual_holds [of u b t] by (simp add: c_conv_id c_usual_commute [of u t])

lemma c_conv_unsigned: "\<not> c_signed t \<Longrightarrow> t \<noteq> CBool \<Longrightarrow> c_conv t a = a mod 2 ^ c_width t"
  by (simp add: c_conv_def)

text \<open>
  Sums, differences and products of values of their types: exact in a signed common type, if at
  all; modulo the power of its width in an unsigned one.
\<close>

definition mod_compatible :: "(int \<Rightarrow> int \<Rightarrow> int) \<Rightarrow> bool" where
  "mod_compatible f \<longleftrightarrow> (\<forall>a b m. f (a mod m) (b mod m) mod m = f a b mod m)"

lemma mod_compatible_ops [simp]: "mod_compatible (+)" "mod_compatible (-)" "mod_compatible (*)"
  by (simp_all add: mod_compatible_def mod_simps)

lemma c_arith_value:
  assumes "mod_compatible f" "in_range t a" "in_range u b"
  shows "c_arith f t u a b = c_eval (c_usual t u) (f a b)"
proof (cases "c_signed (c_usual t u)")
  case True
  then show ?thesis using c_usual_signed [OF _ assms(2,3)] by (simp add: c_arith_def Let_def)
next
  case False
  then show ?thesis using assms(1)
    by (simp add: c_arith_def Let_def c_eval_def c_conv_unsigned mod_compatible_def)
qed

end
