(* ===== verification/ValueText.thy ===== *)
theory ValueText
  imports CInt
begin

text \<open>
  Values of the integer types as text and as the generic values of the interpreter (\<open>StrTraits\<close> and
  \<open>StdArithInterface\<close> in \<open>src/value.cc\<close>). Of the C library, \<open>snprintf\<close> with \<open>%ld\<close>, \<open>%lu\<close> and \<open>%zu\<close> and
  \<open>strtol\<close> with the base 0 in the C locale are written out. Text is the bytes before the terminator.
\<close>

section \<open>Printing\<close>

fun decimal :: "nat \<Rightarrow> bytes" where
  "decimal n = (if n < 10 then [48 + of_nat n] else decimal (n div 10) @ [48 + of_nat (n mod 10)])"

declare decimal.simps [simp del]

definition print_long :: "int \<Rightarrow> bytes" where
  "print_long z = (if z < 0 then 45 # decimal (nat (- z)) else decimal (nat z))"

text \<open>The code and what is in the buffer, cut to its size.\<close>

definition StrTraits_to_string :: "c_type \<Rightarrow> int \<Rightarrow> nat \<Rightarrow> (int \<times> bytes) option" where
  "StrTraits_to_string t v bufSize = do {
     c_assert (bufSize > 1);
     let s = (if t = CUI64 then decimal (nat v) else print_long (c_conv CI64 v));
     Some (if length s \<ge> bufSize then -1 else 0, take (bufSize - 1) s) }"

section \<open>Parsing\<close>

definition c_isspace :: "8 word \<Rightarrow> bool" where
  "c_isspace b \<longleftrightarrow> b = 32 \<or> (9 \<le> b \<and> b \<le> 13)"

definition digit_value :: "8 word \<Rightarrow> nat" where
  "digit_value b = (if 48 \<le> b \<and> b \<le> 57 then unat (b - 48)
     else if 97 \<le> b \<and> b \<le> 122 then unat (b - 87)
     else if 65 \<le> b \<and> b \<le> 90 then unat (b - 55)
     else 36)"

definition digits_value :: "nat \<Rightarrow> bytes \<Rightarrow> nat" where
  "digits_value base = foldl (\<lambda>a b. a * base + digit_value b) 0"

text \<open>The base of a number by its prefix: \<open>0x\<close> before a hexadecimal digit, or \<open>0\<close>.\<close>

definition number_base :: "bytes \<Rightarrow> nat \<times> bytes" where
  "number_base s = (case s of
     a # x # d # r \<Rightarrow> if a = 48 \<and> (x = 120 \<or> x = 88) \<and> digit_value d < 16 then (16, d # r) else if a = 48 then (8, s) else (10, s)
   | a # r \<Rightarrow> if a = 48 then (8, s) else (10, s)
   | [] \<Rightarrow> (10, s))"

text \<open>\<open>strtol\<close>: the value, limited to the type, and the rest of the text, all of it when there is no number.\<close>

definition strtol :: "bytes \<Rightarrow> int \<times> bytes" where
  "strtol s = (let
       s1 = dropWhile c_isspace s;
       (neg, s2) = (case s1 of b # r \<Rightarrow> if b = 45 then (True, r) else if b = 43 then (False, r) else (False, s1) | [] \<Rightarrow> (False, s1));
       (base, s3) = number_base s2;
       ds = takeWhile (\<lambda>b. digit_value b < base) s3;
       z = (if neg then - int (digits_value base ds) else int (digits_value base ds))
     in if ds = [] then (0, s) else (max (c_min CI64) (min (c_max CI64) z), drop (length ds) s3))"

text \<open>The code and the value, which an error leaves alone.\<close>

definition StrTraits_from_string :: "c_type \<Rightarrow> int \<Rightarrow> bytes \<Rightarrow> int \<times> int" where
  "StrTraits_from_string t v strexpr = (let (l, rest) = strtol strexpr in
     if rest \<noteq> [] then (-1, v)
     else if t = CUI64 then (if l < 0 then (-2, v) else (0, c_conv CUI64 (c_conv CI64 l)))
     else if l < c_min t then (-2, v)
     else if l > c_max t then (-3, v)
     else (0, c_conv t l))"

section \<open>The generic values\<close>

definition StdArith_get_as_bool :: "int \<Rightarrow> int" where
  "StdArith_get_as_bool v = (if v \<noteq> 0 then 1 else 0)"

definition StdArith_set_as_bool :: "c_type \<Rightarrow> int \<Rightarrow> int" where
  "StdArith_set_as_bool t newVal = c_conv t newVal"

definition StdArith_get_as_int :: "int \<Rightarrow> int" where
  "StdArith_get_as_int v = c_conv CI64 v"

definition StdArith_set_as_int :: "c_type \<Rightarrow> int \<Rightarrow> int" where
  "StdArith_set_as_int t newVal = c_conv t newVal"

section \<open>Digits\<close>

lemma decimal_digit:
  assumes "d < 10"
  shows "digit_value (48 + of_nat d) = d" "(48 + of_nat d :: 8 word) \<noteq> 45" "(48 + of_nat d :: 8 word) \<noteq> 43"
    "\<not> c_isspace (48 + of_nat d)" "(48 + of_nat d = (48 :: 8 word)) = (d = 0)"
proof -
  have "list_all (\<lambda>d. digit_value (48 + of_nat d) = d \<and> (48 + of_nat d :: 8 word) \<noteq> 45 \<and> (48 + of_nat d :: 8 word) \<noteq> 43 \<and>
      \<not> c_isspace (48 + of_nat d) \<and> (48 + of_nat d = (48 :: 8 word)) = (d = 0)) [0..<10]" by code_simp
  then show "digit_value (48 + of_nat d) = d" "(48 + of_nat d :: 8 word) \<noteq> 45" "(48 + of_nat d :: 8 word) \<noteq> 43"
    "\<not> c_isspace (48 + of_nat d)" "(48 + of_nat d = (48 :: 8 word)) = (d = 0)"
    using assms by (simp_all add: list_all_iff)
qed

lemma decimal_digits: "b \<in> set (decimal n) \<Longrightarrow> \<exists>d < 10. b = 48 + of_nat d"
proof (induction n rule: decimal.induct)
  case (1 n)
  have "b = 48 + of_nat (n mod 10) \<or> (\<not> n < 10 \<and> b \<in> set (decimal (n div 10)))"
    using "1.prems" by (subst (asm) decimal.simps) (auto split: if_splits)
  then show ?case using "1.IH" by (auto intro: exI [of _ "n mod 10"])
qed

lemma decimal_nonempty [simp]: "decimal n \<noteq> []"
  by (subst decimal.simps) simp

lemma decimal_value: "digits_value 10 (decimal n) = n"
proof (induction n rule: decimal.induct)
  case (1 n)
  then show ?case
    by (subst decimal.simps) (auto simp: digits_value_def decimal_digit)
qed

lemma decimal_head: "\<exists>d r. decimal n = (48 + of_nat d) # r \<and> d < 10 \<and> (d = 0 \<longrightarrow> n = 0 \<and> r = [])"
proof (induction n rule: decimal.induct)
  case (1 n)
  show ?case
  proof (cases "n < 10")
    case True
    then have "decimal n = [48 + of_nat n]" by (subst decimal.simps) simp
    with True show ?thesis by auto
  next
    case False
    then obtain d r where d: "decimal (n div 10) = (48 + of_nat d) # r" "d < 10" "d = 0 \<longrightarrow> n div 10 = 0 \<and> r = []" using 1 by blast
    then have "d \<noteq> 0" using False by auto
    moreover have "decimal n = (48 + of_nat d) # r @ [48 + of_nat (n mod 10)]" using False d by (subst decimal.simps) simp
    ultimately show ?thesis using d(2) by blast
  qed
qed

lemma decimal_base: "\<exists>base. number_base (decimal n) = (base, decimal n) \<and> (base = 10 \<or> base = 8 \<and> n = 0 \<and> decimal n = [48])"
proof -
  obtain d r where d: "decimal n = (48 + of_nat d) # r" "d < 10" "d = 0 \<longrightarrow> n = 0 \<and> r = []" using decimal_head by blast
  then show ?thesis using decimal_digit(5) [OF d(2)] by (cases r; cases "d = 0") (auto simp: number_base_def split: list.split)
qed

text \<open>Reading a numeral back.\<close>

lemma strtol_digits: "strtol (decimal n) = (min (c_max CI64) (int n), [])"
  and strtol_minus: "strtol (45 # decimal n) = (max (c_min CI64) (- int n), [])"
proof -
  obtain base where b: "number_base (decimal n) = (base, decimal n)" "base = 10 \<or> base = 8 \<and> n = 0 \<and> decimal n = [48]"
    using decimal_base by blast
  have all: "takeWhile (\<lambda>b. digit_value b < base) (decimal n) = decimal n" "digits_value base (decimal n) = n"
  proof -
    have "digit_value b < base" if "b \<in> set (decimal n)" for b
      using b(2)
    proof
      assume "base = 10"
      then show ?thesis using decimal_digits [OF that] decimal_digit(1) by fastforce
    next
      assume "base = 8 \<and> n = 0 \<and> decimal n = [48]"
      then have "b = 48" "base = 8" using that by auto
      then show ?thesis by (simp add: digit_value_def)
    qed
    then show "takeWhile (\<lambda>b. digit_value b < base) (decimal n) = decimal n" by (simp add: takeWhile_eq_all_conv)
    show "digits_value base (decimal n) = n" using b(2) decimal_value [of n] by (auto simp: digits_value_def digit_value_def)
  qed
  obtain d r where d: "decimal n = (48 + of_nat d) # r" "d < 10" using decimal_head by blast
  have m: "c_min CI64 \<le> 0" "0 \<le> c_max CI64" "- c_max CI64 = c_min CI64 + 1" by (simp_all add: c_min_def c_max_def)
  have "strtol (decimal n) = (max (c_min CI64) (min (c_max CI64) (int n)), [])"
    using all b(1) d decimal_digit(2-4) [OF d(2)] by (simp add: strtol_def)
  then show "strtol (decimal n) = (min (c_max CI64) (int n), [])" using m by simp
  have "strtol (45 # decimal n) = (max (c_min CI64) (min (c_max CI64) (- int n)), [])"
    using all b(1) by (simp add: strtol_def c_isspace_def Let_def del: takeWhile_eq_all_conv)
  then show "strtol (45 # decimal n) = (max (c_min CI64) (- int n), [])" using m by simp
qed

lemma strtol_long: "strtol (print_long z) = (max (c_min CI64) (min (c_max CI64) z), [])"
proof (cases "z < 0")
  case True
  then have "min (c_max CI64) z = z" by (simp add: c_max_def)
  then show ?thesis using True strtol_minus [of "nat (- z)"] by (simp add: print_long_def)
next
  case False
  have "c_min CI64 \<le> min (c_max CI64) z" using False by (simp add: c_max_def c_min_def)
  then show ?thesis using False strtol_digits [of "nat z"] by (simp add: print_long_def)
qed

section \<open>The properties\<close>

text \<open>
  C33: The decimal numeral of any integer is read into a value of a type exactly if the type has it, and
  reported as too small or too large otherwise with the value left alone; only for the 64-bit types is
  a number beyond the limits of \<open>long\<close> taken for the limit, without a report.
\<close>

theorem from_string_numeral:
  "StrTraits_from_string t v (print_long z) =
     (if t = CUI64 then (if z < 0 then (-2, v) else (0, min (c_max CI64) z))
      else if t = CI64 then (0, max (c_min CI64) (min (c_max CI64) z))
      else if z < c_min t then (-2, v)
      else if z > c_max t then (-3, v)
      else (0, z))"
proof -
  let ?l = "max (c_min CI64) (min (c_max CI64) z)"
  have lim: "c_min CI64 = - (2 ^ 63)" "c_max CI64 = 2 ^ 63 - 1" "c_max CUI64 = 2 ^ 64 - 1" "c_min CUI64 = 0"
    by (simp_all add: c_min_def c_max_def)
  have l: "c_conv CI64 ?l = ?l" by (rule c_conv_id) (simp add: in_range_def lim)
  consider (unsigned) "t = CUI64" | (signed) "t = CI64" | (narrow) "t \<noteq> CUI64" "t \<noteq> CI64" by blast
  then show ?thesis
  proof cases
    case unsigned
    show ?thesis
    proof (cases "z < 0")
      case True
      then have "?l < 0" by (simp add: lim)
      then show ?thesis using unsigned True by (simp add: StrTraits_from_string_def strtol_long)
    next
      case False
      then have "?l = min (c_max CI64) z" by (simp add: lim)
      moreover have "c_conv CUI64 (min (c_max CI64) z) = min (c_max CI64) z" by (rule c_conv_id) (use False in \<open>simp add: in_range_def lim\<close>)
      moreover have "\<not> min (c_max CI64) z < 0" using False by (simp add: lim)
      ultimately show ?thesis using unsigned False l by (simp add: StrTraits_from_string_def strtol_long)
    qed
  next
    case signed
    have "\<not> ?l < c_min CI64" "\<not> ?l > c_max CI64" by (simp_all add: lim)
    then show ?thesis using signed l by (simp add: StrTraits_from_string_def strtol_long)
  next
    case narrow
    then have "c_min CI64 < c_min t" "c_max t < c_max CI64" "c_min t \<le> c_max CI64" "c_min CI64 \<le> c_max t"
      by (cases t; simp add: c_min_def c_max_def)+
    then have "?l < c_min t \<longleftrightarrow> z < c_min t" "c_max t < ?l \<longleftrightarrow> c_max t < z" "\<not> z < c_min t \<Longrightarrow> \<not> z > c_max t \<Longrightarrow> ?l = z" by linarith+
    then show ?thesis using narrow c_conv_id [of t z]
      by (simp add: StrTraits_from_string_def strtol_long in_range_def)
  qed
qed

text \<open>
  C32: What is printed of a value of an integer type, in a buffer it fits in, is read back as the value;
  for unsigned 64-bit values above the largest \<open>long\<close> as that instead.
\<close>

theorem text_roundtrip:
  assumes "in_range t v" "StrTraits_to_string t v bufSize = Some (0, s)"
  shows "StrTraits_from_string t v' s = (0, min (c_max CI64) v)"
proof -
  have bounds: "c_min t \<le> v" "v \<le> c_max t" using assms(1) by (simp_all add: in_range_def)
  show ?thesis
  proof (cases "t = CUI64")
    case True
    then have v: "0 \<le> v" using bounds(1) by (simp add: c_min_def)
    then have "s = print_long v" using assms(2) True by (auto simp: StrTraits_to_string_def Let_def print_long_def split: if_splits)
    then show ?thesis using from_string_numeral [of t v' v] True v by simp
  next
    case False
    then have "c_min CI64 \<le> c_min t" "c_max t \<le> c_max CI64" by (cases t; simp add: c_min_def c_max_def)+
    with bounds have long: "c_min CI64 \<le> v" "v \<le> c_max CI64" by linarith+
    then have "c_conv CI64 v = v" by (intro c_conv_id) (simp add: in_range_def)
    then have "s = print_long v" using assms(2) False by (auto simp: StrTraits_to_string_def Let_def split: if_splits)
    then show ?thesis using from_string_numeral [of t v' v] False bounds long by simp
  qed
qed

lemma text_roundtrip_witness:
  "StrTraits_to_string CI16 (- 32768) 32 = Some (0, [45, 51, 50, 55, 54, 56]) \<and>
   StrTraits_from_string CI16 7 [45, 51, 50, 55, 54, 56] = (0, - 32768)"
proof -
  have "StrTraits_to_string CI16 (- 32768) 32 = Some (0, [45, 51, 50, 55, 54, 56])"
    by (simp add: StrTraits_to_string_def print_long_def c_conv_def decimal.simps)
  moreover have "in_range CI16 (- 32768)" by (simp add: in_range_def c_min_def c_max_def)
  ultimately show ?thesis using text_roundtrip [of CI16 "- 32768" 32] by (simp add: c_max_def)
qed

end
