(* ===== verification/Operations.thy ===== *)
theory Operations
  imports CInt Dictionaries ValueTypes
begin

text \<open>
  Arithmetic operations (\<open>src/operations.cc\<close>): the functions instantiated from the macros and
  templates for the integer types and \<open>bool\<close>, the table of operations by operand types with its
  look-up through the parents, and its standard contents. A datum of an integer type is its value;
  a pointer is an option. The functions of the floating-point types are not modelled: what the
  table registers is a parameter (\<open>impl\<close>), given by operation and names of types.
\<close>

section \<open>The operations on integer types\<close>

datatype hdql_OperationCode_t = hdql_kOpUndefined | hdql_kOpSum | hdql_kOpMinus | hdql_kOpProduct | hdql_kOpDivide
  | hdql_kOpModulo | hdql_kOpRBShift | hdql_kOpLBShift | hdql_kOpBAnd | hdql_kOpBXOr | hdql_kOpBOr
  | hdql_kOpLOr | hdql_kOpLAnd | hdql_kOpLXOr | hdql_kOpLT | hdql_kOpLTE | hdql_kOpGT | hdql_kOpGTE | hdql_kOpEq | hdql_kOpNEq
  | hdql_kUOpNot | hdql_kUOpBNot | hdql_kUOpMinus

fun c_type_name :: "c_type \<Rightarrow> string" where
  "c_type_name CI8 = ''int8_t''" | "c_type_name CUI8 = ''uint8_t''"
| "c_type_name CI16 = ''int16_t''" | "c_type_name CUI16 = ''uint16_t''"
| "c_type_name CI32 = ''int32_t''" | "c_type_name CUI32 = ''uint32_t''"
| "c_type_name CI64 = ''int64_t''" | "c_type_name CUI64 = ''uint64_t''"
| "c_type_name CBool = ''hdql_Bool_t''"

definition integer_types :: "c_type list" where
  "integer_types = [CI8, CUI8, CI16, CUI16, CI32, CUI32, CI64, CUI64]"

definition c_type_named :: "string \<Rightarrow> c_type option" where
  "c_type_named n = find (\<lambda>t. c_type_name t = n) (CBool # integer_types)"

text \<open>The type of a result by the names of the operands' types.\<close>

definition traits :: "string \<Rightarrow> string \<Rightarrow> string option" where
  "traits t1 t2 = (if t1 = t2 then Some t1
     else map_option (\<lambda>(A, B, R). R)
       (find (\<lambda>(A, B, R). A = t1 \<and> B = t2 \<or> A = t2 \<and> B = t1) hdql_M_for_each_arith_types_pair))"

definition ArithmeticOpTraits :: "c_type \<Rightarrow> c_type \<Rightarrow> c_type option" where
  "ArithmeticOpTraits t1 t2 = do { n \<leftarrow> traits (c_type_name t1) (c_type_name t2); c_type_named n }"

type_synonym 'd op_callback = "'d option \<Rightarrow> 'd option \<Rightarrow> 'd option \<Rightarrow> (int \<times> 'd) option"

type_synonym int_op = "c_type \<Rightarrow> c_type \<Rightarrow> int \<Rightarrow> int \<Rightarrow> int option"

definition implement_arith_op :: "int_op \<Rightarrow> c_type \<Rightarrow> c_type \<Rightarrow> int op_callback" where
  "implement_arith_op f t1 t2 pa pb pr = do {
     a \<leftarrow> pa; b \<leftarrow> pb; c_assert (pr \<noteq> None);
     rt \<leftarrow> ArithmeticOpTraits t1 t2;
     v \<leftarrow> f t1 t2 a b;
     Some (0, c_conv rt v) }"

definition implement_logic_op :: "(bool \<Rightarrow> bool \<Rightarrow> bool) \<Rightarrow> c_type \<Rightarrow> c_type \<Rightarrow> int op_callback" where
  "implement_logic_op f t1 t2 pa pb pr = do {
     a \<leftarrow> pa; b \<leftarrow> pb; c_assert (pr \<noteq> None);
     Some (0, of_bool (f (a \<noteq> 0) (b \<noteq> 0))) }"

definition implement_comparison_op :: "(int \<Rightarrow> int \<Rightarrow> bool) \<Rightarrow> c_type \<Rightarrow> c_type \<Rightarrow> int op_callback" where
  "implement_comparison_op f t1 t2 pa pb pr = do {
     a \<leftarrow> pa; b \<leftarrow> pb; _ \<leftarrow> pr;
     Some (0, of_bool (c_compare f t1 t2 a b)) }"

definition implement_integer_arithmetic_op :: "int_op \<Rightarrow> c_type \<Rightarrow> c_type \<Rightarrow> int op_callback" where
  "implement_integer_arithmetic_op f t1 t2 pa pb pr = do {
     a \<leftarrow> pa; b \<leftarrow> pb; _ \<leftarrow> pr;
     v \<leftarrow> f t1 t2 a b;
     Some (0, c_conv CI64 v) }"

text \<open>The result type of the unary minus is the operand's if that is signed, \<open>hdql_Int_t\<close> otherwise.\<close>

definition UnaryMinusSpec_Result :: "c_type \<Rightarrow> c_type" where
  "UnaryMinusSpec_Result t = (if c_signed t then t else CI64)"

definition UnaryMinusSpec_op :: "c_type \<Rightarrow> int op_callback" where
  "UnaryMinusSpec_op t pa unused pr = do {
     c_assert (unused = None);
     a \<leftarrow> pa; _ \<leftarrow> pr;
     v \<leftarrow> (if c_signed t then c_eval (c_promote t) (- a) else c_eval CI64 (- c_conv CI64 a));
     Some (0, c_conv (UnaryMinusSpec_Result t) v) }"

text \<open>The complement of the promoted operand.\<close>

definition c_bnot :: "c_type \<Rightarrow> int \<Rightarrow> int" where
  "c_bnot t a = c_conv (c_promote t) (NOT a)"

definition T_unary_b_not :: "c_type \<Rightarrow> int op_callback" where
  "T_unary_b_not t pa unused pr = do {
     c_assert (unused = None);
     a \<leftarrow> pa; _ \<leftarrow> pr;
     Some (0, c_conv t (c_bnot t a)) }"

definition T_unary_l_not :: "c_type \<Rightarrow> int op_callback" where
  "T_unary_l_not t pa unused pr = do {
     c_assert (unused = None);
     a \<leftarrow> pa; _ \<leftarrow> pr;
     Some (0, of_bool (a = 0)) }"

text \<open>The function of an operation for operands of integer types.\<close>

definition int_impl :: "hdql_OperationCode_t \<Rightarrow> c_type \<Rightarrow> c_type \<Rightarrow> int op_callback option" where
  "int_impl op t1 t2 = (case op of
     hdql_kOpSum \<Rightarrow> Some (implement_arith_op c_add t1 t2)
   | hdql_kOpMinus \<Rightarrow> Some (implement_arith_op c_sub t1 t2)
   | hdql_kOpProduct \<Rightarrow> Some (implement_arith_op c_mul t1 t2)
   | hdql_kOpDivide \<Rightarrow> Some (implement_arith_op c_div t1 t2)
   | hdql_kOpModulo \<Rightarrow> Some (implement_integer_arithmetic_op c_mod t1 t2)
   | hdql_kOpRBShift \<Rightarrow> Some (implement_integer_arithmetic_op c_shr t1 t2)
   | hdql_kOpLBShift \<Rightarrow> Some (implement_integer_arithmetic_op c_shl t1 t2)
   | hdql_kOpBAnd \<Rightarrow> Some (implement_integer_arithmetic_op c_band t1 t2)
   | hdql_kOpBXOr \<Rightarrow> Some (implement_integer_arithmetic_op c_bxor t1 t2)
   | hdql_kOpBOr \<Rightarrow> Some (implement_integer_arithmetic_op c_bor t1 t2)
   | hdql_kOpLOr \<Rightarrow> Some (implement_logic_op (\<or>) t1 t2)
   | hdql_kOpLAnd \<Rightarrow> Some (implement_logic_op (\<and>) t1 t2)
   | hdql_kOpLXOr \<Rightarrow> Some (implement_logic_op (\<noteq>) t1 t2)
   | hdql_kOpLT \<Rightarrow> Some (implement_comparison_op (<) t1 t2)
   | hdql_kOpLTE \<Rightarrow> Some (implement_comparison_op (\<le>) t1 t2)
   | hdql_kOpGT \<Rightarrow> Some (implement_comparison_op (>) t1 t2)
   | hdql_kOpGTE \<Rightarrow> Some (implement_comparison_op (\<ge>) t1 t2)
   | hdql_kOpEq \<Rightarrow> Some (implement_comparison_op (=) t1 t2)
   | hdql_kOpNEq \<Rightarrow> Some (implement_comparison_op (\<noteq>) t1 t2)
   | hdql_kUOpNot \<Rightarrow> Some (T_unary_l_not t1)
   | hdql_kUOpBNot \<Rightarrow> Some (T_unary_b_not t1)
   | hdql_kUOpMinus \<Rightarrow> Some (UnaryMinusSpec_op t1)
   | hdql_kOpUndefined \<Rightarrow> None)"

section \<open>What the results are\<close>

text \<open>
  C25: Sums, differences and products of integers of two types. In a signed common type the result is
  the exact one, and an overflow is undefined; in an unsigned one it is the exact result modulo the
  width of the common type. What is stored is that value converted to the type of the result.
\<close>

theorem arith_op_spec:
  assumes "in_range t1 a" "in_range t2 b" "ArithmeticOpTraits t1 t2 = Some rt"
    and "(f, g) \<in> {(c_add, (+)), (c_sub, (-)), (c_mul, (*))}"
  shows "implement_arith_op f t1 t2 (Some a) (Some b) (Some r) =
    (if \<not> c_signed (c_usual t1 t2) then Some (0, c_conv rt (g a b mod 2 ^ c_width (c_usual t1 t2)))
     else if in_range (c_usual t1 t2) (g a b) then Some (0, c_conv rt (g a b)) else None)"
proof -
  have "f t1 t2 a b = c_eval (c_usual t1 t2) (g a b)"
    using assms(4) c_arith_value [OF _ assms(1,2)] by (auto simp: c_add_def c_sub_def c_mul_def)
  then show ?thesis using assms(3) by (simp add: implement_arith_op_def c_eval_def)
qed

text \<open>
  The type of the sum of an \<open>int32_t\<close> and a \<open>uint32_t\<close> is \<open>int64_t\<close>, but it is computed modulo
  \<open>2 ^ 32\<close>; sums of two \<open>int8_t\<close> wrap around.
\<close>

lemma arith_op_spec_witness:
  "implement_arith_op c_add CI32 CUI32 (Some (- 1)) (Some 0) (Some 0) = Some (0, 4294967295) \<and>
   implement_arith_op c_add CI8 CUI8 (Some (- 1)) (Some 0) (Some 0) = Some (0, - 1) \<and>
   implement_arith_op c_mul CI32 CI32 (Some 65536) (Some 65536) (Some 0) = None"
proof -
  have t: "ArithmeticOpTraits CI32 CUI32 = Some CI64" "ArithmeticOpTraits CI8 CUI8 = Some CI16"
    "ArithmeticOpTraits CI32 CI32 = Some CI32" by code_simp+
  show ?thesis
    using arith_op_spec [of CI32 "- 1" CUI32 0, OF _ _ t(1), of c_add "(+)" 0]
      arith_op_spec [of CI8 "- 1" CUI8 0, OF _ _ t(2), of c_add "(+)" 0]
      arith_op_spec [of CI32 65536 CI32 65536, OF _ _ t(3), of c_mul "(*)" 0]
    by (simp add: in_range_def c_min_def c_max_def c_usual_def c_promote_def Let_def c_conv_def)
qed

section \<open>The table of operations\<close>

record 'd hdql_OperationEvaluator =
  oe_returnType :: tcode
  oe_op :: "'d op_callback"

type_synonym OpKey = "tcode \<times> tcode \<times> hdql_OperationCode_t"

datatype 'd hdql_Operations = Operations
  (os_parent: "'d hdql_Operations option") (os_ops: "(OpKey \<times> 'd hdql_OperationEvaluator) list")

definition emplace_op :: "'d hdql_Operations \<Rightarrow> OpKey \<Rightarrow> 'd hdql_OperationEvaluator \<Rightarrow> bool \<times> 'd hdql_Operations" where
  "emplace_op ops key ev = (case map_of (os_ops ops) key of
     Some _ \<Rightarrow> (False, ops)
   | None \<Rightarrow> (True, Operations (os_parent ops) ((key, ev) # os_ops ops)))"

definition hdql_op_define ::
  "'d hdql_Operations \<Rightarrow> tcode \<Rightarrow> hdql_OperationCode_t \<Rightarrow> tcode \<Rightarrow> 'd hdql_OperationEvaluator \<Rightarrow> int \<times> 'd hdql_Operations" where
  "hdql_op_define ops t1 opCode t2 evaluator = (let (inserted, ops) = emplace_op ops (t1, t2, opCode) evaluator in
     if \<not> inserted then (-1, ops) else (0, ops))"

fun hdql_op_get ::
  "'d hdql_Operations \<Rightarrow> tcode \<Rightarrow> hdql_OperationCode_t \<Rightarrow> tcode \<Rightarrow> 'd hdql_OperationEvaluator option" where
  "hdql_op_get (Operations parent own) t1 opCode t2 = (case map_of own (t1, t2, opCode) of
     Some ev \<Rightarrow> Some ev
   | None \<Rightarrow> (case parent of Some p \<Rightarrow> hdql_op_get p t1 opCode t2 | None \<Rightarrow> None))"

definition hdql_operations_create :: "'d hdql_Operations option \<Rightarrow> 'd hdql_Operations" where
  "hdql_operations_create parent = Operations parent []"

definition op_at :: "'d hdql_Operations \<Rightarrow> OpKey \<Rightarrow> 'd hdql_OperationEvaluator option" where
  "op_at ops = (\<lambda>(t1, t2, opCode). hdql_op_get ops t1 opCode t2)"

interpretation ops: inherited "\<lambda>t. map_of (os_ops t)" os_parent op_at
proof
  show "wf {(p, t). os_parent t = Some p}"
  proof (rule parent_wf)
    show "size p < size t" if "os_parent t = Some p" for p t :: "'b hdql_Operations"
      using that by (cases t) auto
  qed
  show "map_of (os_ops t) k = Some v \<Longrightarrow> op_at t k = Some v" for t k and v :: "'b hdql_OperationEvaluator"
    by (cases t; cases k) (simp add: op_at_def)
  show "map_of (os_ops t) k = None \<Longrightarrow> os_parent t = None \<Longrightarrow> op_at t k = None" for k and t :: "'b hdql_Operations"
    by (cases t; cases k) (simp add: op_at_def)
  show "map_of (os_ops t) k = None \<Longrightarrow> os_parent t = Some p \<Longrightarrow> op_at t k = op_at p k" for k and t p :: "'b hdql_Operations"
    by (cases t; cases k) (simp add: op_at_def)
qed

lemma op_define_get:
  assumes "hdql_op_define ops t1 opCode t2 ev = (rc, ops')"
  shows "rc = 0 \<and> op_at ops' = (op_at ops)((t1, t2, opCode) \<mapsto> ev) \<or>
    rc = - 1 \<and> ops' = ops \<and> op_at ops (t1, t2, opCode) \<noteq> None"
proof (cases "map_of (os_ops ops) (t1, t2, opCode)")
  case None
  with assms have "rc = 0" "ops' = Operations (os_parent ops) (((t1, t2, opCode), ev) # os_ops ops)"
    by (auto simp: hdql_op_define_def emplace_op_def)
  moreover from this(2) have "op_at ops' = (op_at ops)((t1, t2, opCode) \<mapsto> ev)"
    by (intro ops.get_define) auto
  ultimately show ?thesis by simp
next
  case (Some old)
  with assms show ?thesis using ops.get_own [OF Some] by (auto simp: hdql_op_define_def emplace_op_def)
qed

section \<open>The standard operations\<close>

definition integer_names :: "string list" where
  "integer_names = [''int8_t'', ''uint8_t'', ''int16_t'', ''uint16_t'', ''int32_t'', ''uint32_t'', ''int64_t'', ''uint64_t'']"

definition numerical_names :: "string list" where "numerical_names = integer_names @ [''float'', ''double'']"

definition atomic_names :: "string list" where "atomic_names = numerical_names @ [''hdql_Bool_t'']"

definition binary_arith_ops :: "hdql_OperationCode_t list" where
  "binary_arith_ops = [hdql_kOpSum, hdql_kOpMinus, hdql_kOpProduct, hdql_kOpDivide]"
definition binary_logic_ops :: "hdql_OperationCode_t list" where
  "binary_logic_ops = [hdql_kOpLOr, hdql_kOpLAnd, hdql_kOpLXOr]"
definition binary_comparison_ops :: "hdql_OperationCode_t list" where
  "binary_comparison_ops = [hdql_kOpGT, hdql_kOpGTE, hdql_kOpLT, hdql_kOpLTE, hdql_kOpEq, hdql_kOpNEq]"
definition integer_arithmetics_ops :: "hdql_OperationCode_t list" where
  "integer_arithmetics_ops = [hdql_kOpModulo, hdql_kOpRBShift, hdql_kOpLBShift, hdql_kOpBAnd, hdql_kOpBXOr, hdql_kOpBOr]"

text \<open>An entry: the operation, the names of the operands' types (one for a unary operation) and of the result's.\<close>

type_synonym op_entry = "hdql_OperationCode_t \<times> string \<times> string option \<times> string"

definition binary_entries :: "hdql_OperationCode_t list \<Rightarrow> string list \<Rightarrow> (string \<Rightarrow> string \<Rightarrow> string) \<Rightarrow> op_entry list" where
  "binary_entries cs ns rt = concat (map (\<lambda>t1. concat (map (\<lambda>t2. map (\<lambda>op. (op, t1, Some t2, rt t1 t2)) cs) ns)) ns)"

definition unary_entries :: "hdql_OperationCode_t \<Rightarrow> string list \<Rightarrow> (string \<Rightarrow> string) \<Rightarrow> op_entry list" where
  "unary_entries op ns rt = map (\<lambda>t. (op, t, None, rt t)) ns"

definition unary_minus_result :: "string \<Rightarrow> string" where
  "unary_minus_result t = (if t \<in> {''uint8_t'', ''uint16_t'', ''uint32_t'', ''uint64_t''} then ''int64_t'' else t)"

definition std_entries :: "op_entry list" where
  "std_entries = binary_entries binary_arith_ops numerical_names (\<lambda>t1 t2. the (traits t1 t2))
     @ binary_entries binary_logic_ops atomic_names (\<lambda>_ _. ''hdql_Bool_t'')
     @ binary_entries binary_comparison_ops atomic_names (\<lambda>_ _. ''hdql_Bool_t'')
     @ binary_entries integer_arithmetics_ops integer_names (\<lambda>_ _. ''int64_t'')
     @ unary_entries hdql_kUOpMinus numerical_names unary_minus_result
     @ unary_entries hdql_kUOpBNot integer_names (\<lambda>t. t)
     @ unary_entries hdql_kUOpNot atomic_names (\<lambda>_. ''hdql_Bool_t'')"

definition entry_key :: "(string \<Rightarrow> tcode) \<Rightarrow> op_entry \<Rightarrow> OpKey" where
  "entry_key tc = (\<lambda>(op, t1, t2, r). (tc t1, case t2 of None \<Rightarrow> 0 | Some n \<Rightarrow> tc n, op))"

definition entry_op ::
  "(hdql_OperationCode_t \<Rightarrow> string \<Rightarrow> string option \<Rightarrow> 'd op_callback) \<Rightarrow> (string \<Rightarrow> tcode) \<Rightarrow> op_entry \<Rightarrow> 'd hdql_OperationEvaluator" where
  "entry_op impl tc = (\<lambda>(op, t1, t2, r). \<lparr>oe_returnType = tc r, oe_op = impl op t1 t2\<rparr>)"

text \<open>The insertions, each asserted to be one.\<close>

fun impose ::
  "(hdql_OperationCode_t \<Rightarrow> string \<Rightarrow> string option \<Rightarrow> 'd op_callback) \<Rightarrow> (string \<Rightarrow> tcode) \<Rightarrow> op_entry list \<Rightarrow>
   'd hdql_Operations \<Rightarrow> 'd hdql_Operations option"
where
  "impose impl tc [] ops = Some ops"
| "impose impl tc (e # es) ops = (let (inserted, ops) = emplace_op ops (entry_key tc e) (entry_op impl tc e) in do {
     c_assert inserted;
     impose impl tc es ops })"

definition hdql_op_define_std_arith ::
  "(hdql_OperationCode_t \<Rightarrow> string \<Rightarrow> string option \<Rightarrow> 'd op_callback) \<Rightarrow> 'd hdql_Operations \<Rightarrow> 'i types_table \<Rightarrow>
   (int \<times> 'd hdql_Operations) option"
where
  "hdql_op_define_std_arith impl operations types = (let tc = hdql_types_get_type_code types in do {
     c_assert (\<forall>n \<in> set atomic_names. tc n \<noteq> 0);
     ops \<leftarrow> impose impl tc std_entries operations;
     Some (0, ops) })"

lemma impose_all:
  assumes "distinct (map (entry_key tc) es)" "\<forall>e \<in> set es. map_of (os_ops ops) (entry_key tc e) = None"
  shows "\<exists>ops'. impose impl tc es ops = Some ops' \<and>
    op_at ops' = op_at ops ++ map_of (map (\<lambda>e. (entry_key tc e, entry_op impl tc e)) es)"
  using assms
proof (induction es arbitrary: ops)
  case (Cons e es)
  let ?ops = "Operations (os_parent ops) ((entry_key tc e, entry_op impl tc e) # os_ops ops)"
  have new: "emplace_op ops (entry_key tc e) (entry_op impl tc e) = (True, ?ops)"
    using Cons.prems(2) by (simp add: emplace_op_def)
  have at: "op_at ?ops = (op_at ops)(entry_key tc e \<mapsto> entry_op impl tc e)"
    by (rule ops.get_define) auto
  have "\<forall>x \<in> set es. map_of (os_ops ?ops) (entry_key tc x) = None"
  proof
    fix x assume x: "x \<in> set es"
    then have "entry_key tc x \<noteq> entry_key tc e" using Cons.prems(1) imageI [of x "set es" "entry_key tc"] by (metis distinct.simps(2) list.set_map list.simps(9))
    with x Cons.prems(2) show "map_of (os_ops ?ops) (entry_key tc x) = None" by simp
  qed
  with Cons.IH [of ?ops] Cons.prems(1) obtain ops' where ops': "impose impl tc es ?ops = Some ops'"
    "op_at ops' = op_at ?ops ++ map_of (map (\<lambda>e. (entry_key tc e, entry_op impl tc e)) es)" by auto
  have "entry_key tc e \<notin> dom (map_of (map (\<lambda>e. (entry_key tc e, entry_op impl tc e)) es))"
    using Cons.prems(1) by (auto simp: dom_map_of_conv_image_fst image_image)
  then have "op_at ops' = op_at ops ++ map_of (map (\<lambda>e. (entry_key tc e, entry_op impl tc e)) (e # es))"
    unfolding ops'(2) at list.map map_of.simps fst_conv snd_conv map_add_upd by (rule map_add_upd_left)
  moreover have "impose impl tc (e # es) ops = Some ops'" using ops'(1) new by simp
  ultimately show ?case by blast
qed simp

text \<open>The keys of the standard operations are different where the codes of the types are.\<close>

lemma binary_entries_product:
  "binary_entries cs ns rt = map (\<lambda>(t1, t2, op). (op, t1, Some t2, rt t1 t2)) (List.product ns (List.product ns cs))"
  by (simp add: binary_entries_def product_concat_map map_concat o_def)

text \<open>A list of keys without repetitions, of the operations \<open>S\<close>.\<close>

definition keyed :: "hdql_OperationCode_t set \<Rightarrow> OpKey list \<Rightarrow> bool" where
  "keyed S ks \<longleftrightarrow> distinct ks \<and> (\<forall>(t1, t2, op) \<in> set ks. op \<in> S)"

lemma keyed_append: "keyed S xs \<Longrightarrow> keyed T ys \<Longrightarrow> S \<inter> T = {} \<Longrightarrow> keyed (S \<union> T) (xs @ ys)"
  by (fastforce simp: keyed_def)

lemma binary_keyed:
  assumes "distinct cs" "distinct ns" "inj_on tc (set ns)"
  shows "keyed (set cs) (map (entry_key tc) (binary_entries cs ns rt))"
proof -
  have "inj_on (\<lambda>(t1, t2, op). (tc t1, tc t2, op)) (set ns \<times> set ns \<times> set cs)"
    using assms(3) by (auto simp: inj_on_def)
  moreover have "map (entry_key tc) (binary_entries cs ns rt) =
      map (\<lambda>(t1, t2, op). (tc t1, tc t2, op)) (List.product ns (List.product ns cs))"
    by (simp add: binary_entries_product entry_key_def split_beta)
  ultimately show ?thesis using assms(1,2) by (auto simp: keyed_def distinct_map distinct_product)
qed

lemma unary_keyed:
  "distinct ns \<Longrightarrow> inj_on tc (set ns) \<Longrightarrow> keyed {op} (map (entry_key tc) (unary_entries op ns rt))"
  by (auto simp: keyed_def unary_entries_def entry_key_def distinct_map inj_on_def)

lemma names_distinct [simp]: "distinct integer_names" "distinct numerical_names" "distinct atomic_names"
  by code_simp+

lemma names_subset: "set integer_names \<subseteq> set atomic_names" "set numerical_names \<subseteq> set atomic_names"
  by (auto simp: numerical_names_def atomic_names_def)

lemmas op_lists = binary_arith_ops_def binary_logic_ops_def binary_comparison_ops_def integer_arithmetics_ops_def

lemma std_keys_distinct:
  assumes "inj_on tc (set atomic_names)"
  shows "distinct (map (entry_key tc) std_entries)"
proof -
  have i: "inj_on tc (set integer_names)" "inj_on tc (set numerical_names)"
    using assms names_subset by (blast intro: inj_on_subset)+
  have "\<exists>S. keyed S (map (entry_key tc) std_entries)"
    unfolding std_entries_def map_append
    by (rule exI, (rule keyed_append binary_keyed unary_keyed | simp add: i assms op_lists)+)
  then show ?thesis by (auto simp: keyed_def)
qed

text \<open>
  C24: Where the arithmetic types and \<open>hdql_Bool_t\<close> have codes of their own, the standard operations are
  defined in an empty table: afterwards the look-up of an operation for types it exists for gives the
  function of these types with the code of its result's type, in either order of definition;
  everything else is looked up in the parent as before.
\<close>

theorem std_arith_spec:
  assumes "distinct (map (get_code_by_name types) atomic_names)" "0 \<notin> set (map (get_code_by_name types) atomic_names)"
    and "os_ops operations = []"
  shows "\<exists>ops'. hdql_op_define_std_arith impl operations types = Some (0, ops') \<and>
    (\<forall>t1 op t2. (\<forall>e \<in> set std_entries. entry_key (get_code_by_name types) e = (t1, t2, op) \<longrightarrow>
         hdql_op_get ops' t1 op t2 = Some (entry_op impl (get_code_by_name types) e)) \<and>
       ((t1, t2, op) \<notin> entry_key (get_code_by_name types) ` set std_entries \<longrightarrow>
         hdql_op_get ops' t1 op t2 = hdql_op_get operations t1 op t2))"
proof -
  let ?tc = "get_code_by_name types"
  let ?add = "map (\<lambda>e. (entry_key ?tc e, entry_op impl ?tc e)) std_entries"
  have "inj_on ?tc (set atomic_names)" using assms(1) by (simp add: distinct_map)
  then have d: "distinct (map (entry_key ?tc) std_entries)" by (rule std_keys_distinct)
  then obtain ops' where ops': "impose impl ?tc std_entries operations = Some ops'" "op_at ops' = op_at operations ++ map_of ?add"
    using impose_all [of ?tc std_entries operations impl] assms(3) by auto
  have at: "hdql_op_get ops' t1 op t2 = (op_at operations ++ map_of ?add) (t1, t2, op)" for t1 op t2
    using fun_cong [OF ops'(2), of "(t1, t2, op)"] by (simp add: op_at_def)
  have "map_of ?add (entry_key ?tc e) = Some (entry_op impl ?tc e)" if "e \<in> set std_entries" for e
    by (rule map_of_is_SomeI) (use d that in \<open>simp_all add: o_def\<close>)
  moreover have "map_of ?add k = None" if "k \<notin> entry_key ?tc ` set std_entries" for k
    using that by (auto simp: map_of_eq_None_iff)
  ultimately have "(\<forall>e \<in> set std_entries. entry_key ?tc e = (t1, t2, op) \<longrightarrow>
         hdql_op_get ops' t1 op t2 = Some (entry_op impl ?tc e)) \<and>
       ((t1, t2, op) \<notin> entry_key ?tc ` set std_entries \<longrightarrow>
         hdql_op_get ops' t1 op t2 = hdql_op_get operations t1 op t2)" for t1 op t2
    unfolding at map_add_def by (intro conjI ballI impI) (force, simp add: op_at_def)
  moreover have "hdql_op_define_std_arith impl operations types = Some (0, ops')"
  proof -
    have "hdql_types_get_type_code types = ?tc" by (rule ext) (simp add: hdql_types_get_type_code_def)
    then show ?thesis using ops'(1) assms(2) by (auto simp: hdql_op_define_std_arith_def Let_def)
  qed
  ultimately show ?thesis by blast
qed

text \<open>In the table of the standard types, the sum of an \<open>int32_t\<close> and a \<open>uint32_t\<close> has the type \<open>int64_t\<close>.\<close>

definition names_impl :: "hdql_OperationCode_t \<Rightarrow> string \<Rightarrow> string option \<Rightarrow> int op_callback" where
  "names_impl op t1 t2 = (\<lambda>a b r. do {
     u1 \<leftarrow> c_type_named t1;
     u2 \<leftarrow> (case t2 of None \<Rightarrow> Some u1 | Some n \<Rightarrow> c_type_named n);
     f \<leftarrow> int_impl op u1 u2;
     f a b r })"

lemma std_arith_spec_witness:
  "\<exists>ops. hdql_op_define_std_arith names_impl (hdql_operations_create None) std_table = Some (0, ops) \<and>
     (\<exists>ev. hdql_op_get ops 517 hdql_kOpSum 518 = Some ev \<and> oe_returnType ev = 519 \<and>
       oe_op ev (Some (- 1)) (Some 0) (Some 0) = Some (0, 4294967295))"
proof -
  let ?tc = "get_code_by_name std_table"
  have codes: "map ?tc atomic_names = [513, 514, 515, 516, 517, 518, 519, 520, 521, 522, 512]"
    by code_simp
  let ?e = "(hdql_kOpSum, ''int32_t'', Some ''uint32_t'', ''int64_t'')"
  have "traits ''int32_t'' ''uint32_t'' = Some ''int64_t''" by code_simp
  then have "?e \<in> set (binary_entries binary_arith_ops numerical_names (\<lambda>t1 t2. the (traits t1 t2)))"
    unfolding binary_entries_product set_map
    by (intro image_eqI [of _ _ "(''int32_t'', ''uint32_t'', hdql_kOpSum)"])
      (simp_all add: numerical_names_def integer_names_def binary_arith_ops_def)
  then have e: "?e \<in> set std_entries" by (simp add: std_entries_def)
  have k: "entry_key ?tc ?e = (517, 518, hdql_kOpSum)" by code_simp
  have op: "names_impl hdql_kOpSum ''int32_t'' (Some ''uint32_t'') (Some (- 1)) (Some 0) (Some 0) = Some (0, 4294967295)"
    by code_simp
  have rt: "?tc ''int64_t'' = 519" by code_simp
  have "distinct (map ?tc atomic_names)" "0 \<notin> set (map ?tc atomic_names)" "os_ops (hdql_operations_create None) = []"
    unfolding codes by (simp_all add: hdql_operations_create_def)
  from std_arith_spec [OF this, of names_impl] e k obtain ops where "hdql_op_define_std_arith names_impl (hdql_operations_create None) std_table = Some (0, ops)"
    "hdql_op_get ops 517 hdql_kOpSum 518 = Some (entry_op names_impl ?tc ?e)" by blast
  then show ?thesis using op rt by (simp add: entry_op_def)
qed

end
