(* ===== verification/Converters.thy ===== *)
theory Converters
  imports Context Search ValueTypes CInt
begin

text \<open>
  Type converters (\<open>src/converters.c\<close>): an array of records keyed by the source and the target type,
  searched by halving after it was sorted on demand; the parent is asked only when the own array
  is empty. A look-up may sort the arrays on its way: it returns the table too. A converter is
  opaque, compared as a pointer.
\<close>

section \<open>Data\<close>

definition HDQL_CONVERTERS_REALLOC_INCREMENT :: nat where "HDQL_CONVERTERS_REALLOC_INCREMENT = 16"

text \<open>The two 16-bit codes seen as one number, \<open>from\<close> in the lower half.\<close>

definition conv_key :: "tcode \<Rightarrow> tcode \<Rightarrow> u32" where
  "conv_key frm to = ucast frm OR push_bit 16 (ucast to)"

type_synonym 'f TypeConverterRecord = "u32 \<times> 'f"

datatype 'f hdql_Converters = Converters
  (cn_addr: addr) (cn_nAvailable: nat) (cn_sorted: bool) (cn_block: "addr option")
  (cn_records: "'f TypeConverterRecord list") (cn_parent: "'f hdql_Converters option")

definition hdql_converters_create ::
  "'f hdql_Converters option \<Rightarrow> hdql_Context \<Rightarrow> 'f hdql_Converters option \<times> hdql_Context" where
  "hdql_converters_create parent c = (let (p, c) = ctx_alloc c in
     (map_option (\<lambda>a. Converters a 0 False None [] parent) p, c))"

fun hdql_converters_get ::
  "'f hdql_Converters \<Rightarrow> tcode \<Rightarrow> tcode \<Rightarrow> ('f option \<times> 'f hdql_Converters) option" where
  "hdql_converters_get (Converters a av so b recs parent) to frm =
     (if recs = [] then (case parent of
         None \<Rightarrow> Some (None, Converters a av so b recs parent)
       | Some p \<Rightarrow> do { (r, p) \<leftarrow> hdql_converters_get p to frm; Some (r, Converters a av so b recs (Some p)) })
      else do {
        c_assert (so \<or> b \<noteq> None);
        let recs = (if so then recs else c_qsort fst recs);
        Some (map_option snd (c_bsearch fst (conv_key frm to) recs), Converters a av True b recs parent) })"

text \<open>More room for records: a new array, the old one copied and released.\<close>

definition extend_records :: "'f hdql_Converters \<Rightarrow> hdql_Context \<Rightarrow> (bool \<times> 'f hdql_Converters \<times> hdql_Context) option" where
  "extend_records cnvs c = (let (newC, c) = ctx_alloc c in
     if newC = None then Some (False, cnvs, c)
     else do {
       c \<leftarrow> (if cn_records cnvs \<noteq> [] then ctx_free (cn_block cnvs) c else Some c);
       Some (True, Converters (cn_addr cnvs) (cn_nAvailable cnvs + HDQL_CONVERTERS_REALLOC_INCREMENT) (cn_sorted cnvs)
         newC (cn_records cnvs) (cn_parent cnvs), c) })"

definition hdql_converters_add ::
  "'f hdql_Converters \<Rightarrow> tcode \<Rightarrow> tcode \<Rightarrow> 'f \<Rightarrow> hdql_Context \<Rightarrow> (hdql_Err_t \<times> 'f hdql_Converters \<times> hdql_Context) option"
where
  "hdql_converters_add cnvs to frm cnvf c = do {
     c_assert (to \<noteq> 0);
     c_assert (frm \<noteq> 0);
     let k = conv_key frm to;
     case find (\<lambda>r. fst r = k) (cn_records cnvs) of
       Some r \<Rightarrow> Some (if snd r = cnvf then HDQL_ERR_CODE_OK else HDQL_ERR_NAME_COLLISION, cnvs, c)
     | None \<Rightarrow> do {
         (pc, cnvs) \<leftarrow> hdql_converters_get cnvs to frm;
         if pc \<noteq> None then Some (HDQL_ERR_NAME_COLLISION, cnvs, c)
         else do {
           (fits, cnvs, c) \<leftarrow> (if length (cn_records cnvs) + 1 \<ge> cn_nAvailable cnvs then extend_records cnvs c
                              else Some (True, cnvs, c));
           if \<not> fits then Some (HDQL_ERR_MEMORY, cnvs, c)
           else do {
             c_assert (length (cn_records cnvs) + 1 < cn_nAvailable cnvs);
             c_assert (cn_block cnvs \<noteq> None);
             Some (HDQL_ERR_CODE_OK, Converters (cn_addr cnvs) (cn_nAvailable cnvs) False (cn_block cnvs)
               (cn_records cnvs @ [(k, cnvf)]) (cn_parent cnvs), c) } } } }"

definition hdql_converters_destroy :: "'f hdql_Converters option \<Rightarrow> hdql_Context \<Rightarrow> hdql_Context option" where
  "hdql_converters_destroy cnvs c = (case cnvs of None \<Rightarrow> Some c
     | Some cnvs \<Rightarrow> do {
         c \<leftarrow> (if cn_block cnvs \<noteq> None then ctx_free (cn_block cnvs) c else Some c);
         ctx_free (Some (cn_addr cnvs)) c })"

section \<open>What a table converts\<close>

text \<open>
  Each key once, sorted when the flag says so, and room for one record more than there are. The
  map of a table is that of its own records, or its parent's if it has none.
\<close>

fun cn_wf :: "'f hdql_Converters \<Rightarrow> bool" where
  "cn_wf (Converters a av so b recs parent) \<longleftrightarrow>
     distinct (map fst recs) \<and> (so \<longrightarrow> sorted (map fst recs)) \<and> (recs = [] \<and> av = 0 \<and> b = None \<or> recs \<noteq> [] \<and> length recs < av \<and> b \<noteq> None) \<and>
     (case parent of None \<Rightarrow> True | Some p \<Rightarrow> cn_wf p)"

fun conversions :: "'f hdql_Converters \<Rightarrow> u32 \<Rightarrow> 'f option" where
  "conversions (Converters a av so b recs parent) =
     (if recs = [] then (case parent of None \<Rightarrow> Map.empty | Some p \<Rightarrow> conversions p) else map_of recs)"

lemma conv_key_inj: "conv_key a b = conv_key a' b' \<longleftrightarrow> a = a' \<and> b = b'"
proof
  have low: "take_bit 16 (conv_key x y) = (ucast x :: u32)" for x y :: tcode
    by (rule bit_word_eqI) (auto simp: conv_key_def bit_simps dest: bit_imp_le_length)
  have high: "drop_bit 16 (conv_key x y) = (ucast y :: u32)" for x y :: tcode
    by (rule bit_word_eqI) (auto simp: conv_key_def bit_simps dest: bit_imp_le_length)
  assume e: "conv_key a b = conv_key a' b'"
  have "(ucast a :: u32) = ucast a'" "(ucast b :: u32) = ucast b'"
    using low [of a b] low [of a' b'] high [of a b] high [of a' b'] e by simp_all
  then have "(ucast (ucast a :: u32) :: u16) = ucast (ucast a' :: u32)" "(ucast (ucast b :: u32) :: u16) = ucast (ucast b' :: u32)"
    by simp_all
  moreover have "(ucast (ucast x :: u32) :: u16) = x" for x
    by (rule bit_word_eqI) (auto simp: bit_simps dest: bit_imp_le_length)
  ultimately show "a = a' \<and> b = b'" by simp
qed simp

lemma find_None_map: "find (\<lambda>r. fst r = k) xs = None \<longleftrightarrow> k \<notin> fst ` set xs"
  by (force simp: find_None_iff)

lemma find_Some_map: "distinct (map fst xs) \<Longrightarrow> find (\<lambda>r. fst r = k) xs = Some r \<Longrightarrow> map_of xs k = Some (snd r) \<and> fst r = k"
  by (induction xs) (auto split: if_splits)

text \<open>A look-up finds what the table converts, and leaves that as it is.\<close>

lemma search_records:
  assumes "distinct (map fst recs)"
  shows "map_option snd (c_bsearch fst k (c_qsort fst recs)) = map_of recs k"
proof -
  have "map_option snd (map_of (map (\<lambda>r. (fst r, r)) recs) k) = map_of recs k" by (induction recs) auto
  then show ?thesis by (simp add: c_bsearch_qsort [OF assms])
qed

lemma converters_get_spec:
  "cn_wf cnvs \<Longrightarrow> \<exists>cnvs'. hdql_converters_get cnvs to frm = Some (conversions cnvs (conv_key frm to), cnvs') \<and>
     cn_wf cnvs' \<and> conversions cnvs' = conversions cnvs \<and> (cn_records cnvs' = [] \<longleftrightarrow> cn_records cnvs = []) \<and>
     fst ` set (cn_records cnvs') = fst ` set (cn_records cnvs) \<and> length (cn_records cnvs') = length (cn_records cnvs) \<and>
     cn_addr cnvs' = cn_addr cnvs \<and> cn_block cnvs' = cn_block cnvs \<and> cn_nAvailable cnvs' = cn_nAvailable cnvs"
proof (induction cnvs to frm rule: hdql_converters_get.induct)
  case (1 a av so b recs parent to frm)
  show ?case
  proof (cases "recs = []")
    case True
    show ?thesis
    proof (cases parent)
      case None
      then show ?thesis using True 1(2) by simp
    next
      case (Some p)
      with 1(1) [OF True Some] 1(2) True show ?thesis by auto
    qed
  next
    case False
    let ?s = "if so then recs else c_qsort fst recs"
    have wf: "distinct (map fst recs)" "so \<longrightarrow> sorted (map fst recs)" "b \<noteq> None" using 1(2) False by auto
    have s: "?s = c_qsort fst recs" using wf(2) by (auto simp: c_qsort_def sort_key_id_if_sorted)
    have d: "distinct (map fst (c_qsort fst recs))"
      using wf(1) by (simp add: c_qsort_def distinct_map)
    have m: "map_of (c_qsort fst recs) = map_of recs"
      by (rule map_of_inject_set [THEN iffD2]) (use wf(1) d in simp_all)
    show ?thesis
      using False wf 1(2) d m search_records [OF wf(1)] by (auto simp: s Let_def)
  qed
qed

text \<open>The blocks of a table, its parents' apart.\<close>

definition cn_own :: "'f hdql_Converters \<Rightarrow> addr set" where
  "cn_own cnvs = insert (cn_addr cnvs) (set_option (cn_block cnvs))"

definition cn_live :: "'f hdql_Converters \<Rightarrow> hdql_Context \<Rightarrow> bool" where
  "cn_live cnvs c \<longleftrightarrow> ctx_wf c \<and> cn_own cnvs \<subseteq> ctx_live c \<and> cn_block cnvs \<noteq> Some (cn_addr cnvs)"

lemma extend_records_spec:
  assumes "cn_wf cnvs" "cn_live cnvs c"
  shows "\<exists>fits cnvs' c'. extend_records cnvs c = Some (fits, cnvs', c') \<and> cx.moved c (cn_own cnvs) (cn_own cnvs') c' \<and>
    cn_records cnvs' = cn_records cnvs \<and> cn_parent cnvs' = cn_parent cnvs \<and> cn_live cnvs' c' \<and>
    (if fits then cn_nAvailable cnvs' = cn_nAvailable cnvs + 16 \<and> cn_block cnvs' \<noteq> None else cnvs' = cnvs)"
proof -
  obtain p c1 where a: "ctx_alloc c = (p, c1)" by fastforce
  have live: "ctx_wf c" "cn_own cnvs \<subseteq> ctx_live c" "cn_block cnvs \<noteq> Some (cn_addr cnvs)"
    using assms(2) by (simp_all add: cn_live_def)
  have wf1: "ctx_wf c1" using heap_malloc_wf [OF _ ctx_alloc_heap [OF a]] live(1) by (simp add: ctx_wf_def)
  show ?thesis
  proof (cases p)
    case None
    then have "ctx_live c1 = ctx_live c" using heap_malloc_null ctx_alloc_heap a by (simp add: ctx_live_def)
    then show ?thesis using None a wf1 live by (auto simp: extend_records_def cx.moved_def cn_live_def)
  next
    case (Some b)
    then have l1: "b \<notin> ctx_live c" "ctx_live c1 = insert b (ctx_live c)"
      using heap_malloc_fresh [OF _ ctx_alloc_heap] a live(1) by (auto simp: ctx_live_def ctx_wf_def)
    have blk: "cn_records cnvs = [] \<longleftrightarrow> cn_block cnvs = None" using assms(1) by (cases cnvs) auto
    show ?thesis
    proof (cases "cn_block cnvs")
      case None
      then show ?thesis using Some a l1 wf1 live blk
        by (auto simp: extend_records_def cx.moved_def cn_own_def cn_live_def HDQL_CONVERTERS_REALLOC_INCREMENT_def)
    next
      case (Some b0)
      then have "b0 \<in> ctx_live c1" using live l1 by (auto simp: cn_own_def)
      from cx.free_live [OF wf1 this] obtain c2 where c2: "ctx_free (Some b0) c1 = Some c2" "ctx_wf c2"
        "ctx_live c2 = ctx_live c1 - {b0}" by auto
      have "b0 \<noteq> b" using live(2) l1(1) Some by (auto simp: cn_own_def)
      then show ?thesis using Some \<open>p = Some b\<close> a l1 c2 live blk
        by (auto simp: extend_records_def cx.moved_def cn_own_def cn_live_def HDQL_CONVERTERS_REALLOC_INCREMENT_def)
    qed
  qed
qed

text \<open>
  A converter is added unless the table already converts these types, by the same function (no
  error, unless it is the parent's) or by another (a collision): afterwards it is found and the
  other conversions of the table are as before. The first converter of a table without any hides
  all those of its parents. A failed allocation changes nothing. Nothing leaks.
\<close>

theorem converters_add_spec:
  assumes "cn_wf cnvs" "to \<noteq> 0" "frm \<noteq> 0" "cn_live cnvs c"
  shows "\<exists>rc cnvs' c'. hdql_converters_add cnvs to frm f c = Some (rc, cnvs', c') \<and>
    cn_wf cnvs' \<and> cn_live cnvs' c' \<and> cx.moved c (cn_own cnvs) (cn_own cnvs') c' \<and>
    (case conversions cnvs (conv_key frm to) of
       Some g \<Rightarrow> conversions cnvs' = conversions cnvs \<and>
         rc = (if cn_records cnvs \<noteq> [] \<and> g = f then HDQL_ERR_CODE_OK else HDQL_ERR_NAME_COLLISION)
     | None \<Rightarrow> rc = HDQL_ERR_MEMORY \<and> conversions cnvs' = conversions cnvs \<or>
         rc = HDQL_ERR_CODE_OK \<and> conversions cnvs' =
           (if cn_records cnvs = [] then Map.empty else conversions cnvs)(conv_key frm to \<mapsto> f))"
proof -
  let ?k = "conv_key frm to"
  have live: "ctx_wf c" "cn_own cnvs \<subseteq> ctx_live c" using assms(4) by (simp_all add: cn_live_def)
  have same: "cx.moved c (cn_own cnvs) (cn_own cnvs) c" using live by (rule cx.moved_refl)
  obtain a av so b recs parent where cn: "cnvs = Converters a av so b recs parent" by (cases cnvs)
  have d: "distinct (map fst recs)" using assms(1) cn by simp
  show ?thesis
  proof (cases "find (\<lambda>r. fst r = ?k) recs")
    case (Some r)
    then have r: "map_of recs ?k = Some (snd r)" "recs \<noteq> []" using find_Some_map [OF d Some] by auto
    then show ?thesis using assms same Some by (auto simp: hdql_converters_add_def cn)
  next
    case None
    then have new: "?k \<notin> fst ` set recs" by (simp add: find_None_map)
    obtain cnvs1 where g: "hdql_converters_get cnvs to frm = Some (conversions cnvs ?k, cnvs1)" "cn_wf cnvs1"
      "conversions cnvs1 = conversions cnvs" "cn_records cnvs1 = [] \<longleftrightarrow> recs = []"
      "fst ` set (cn_records cnvs1) = fst ` set recs" "cn_own cnvs1 = cn_own cnvs" "cn_live cnvs1 c"
      using converters_get_spec [OF assms(1), of to frm] assms(4) by (auto simp: cn cn_own_def cn_live_def)
    show ?thesis
    proof (cases "conversions cnvs ?k")
      case (Some h)
      moreover have "map_of recs ?k = None" using new by (simp add: map_of_eq_None_iff)
      ultimately have "recs = []" by (auto simp: cn split: if_splits)
      with Some show ?thesis using assms(2-4) None g same by (auto simp: hdql_converters_add_def cn)
    next
      case absent: None
      obtain fits cnvs2 c2 where e: "(if length (cn_records cnvs1) + 1 \<ge> cn_nAvailable cnvs1 then extend_records cnvs1 c
          else Some (True, cnvs1, c)) = Some (fits, cnvs2, c2)" "cx.moved c (cn_own cnvs) (cn_own cnvs2) c2"
        "cn_records cnvs2 = cn_records cnvs1" "cn_parent cnvs2 = cn_parent cnvs1"
        "cn_live cnvs2 c2"
        "if fits then length (cn_records cnvs1) + 1 < cn_nAvailable cnvs2 \<and> cn_block cnvs2 \<noteq> None else cnvs2 = cnvs1"
      proof (cases "length (cn_records cnvs1) + 1 \<ge> cn_nAvailable cnvs1")
        case True
        have "length (cn_records cnvs1) \<le> cn_nAvailable cnvs1" using g(2) by (cases cnvs1) auto
        obtain fits cnvs' c' where x: "extend_records cnvs1 c = Some (fits, cnvs', c')"
          "cx.moved c (cn_own cnvs) (cn_own cnvs') c'" "cn_records cnvs' = cn_records cnvs1" "cn_parent cnvs' = cn_parent cnvs1"
          "cn_live cnvs' c'" "if fits then cn_nAvailable cnvs' = cn_nAvailable cnvs1 + 16 \<and> cn_block cnvs' \<noteq> None else cnvs' = cnvs1"
          using extend_records_spec [OF g(2,7)] unfolding g(6) by blast
        have "if fits then length (cn_records cnvs1) + 1 < cn_nAvailable cnvs' \<and> cn_block cnvs' \<noteq> None else cnvs' = cnvs1"
          using x(6) \<open>length (cn_records cnvs1) \<le> cn_nAvailable cnvs1\<close> by (simp split: if_splits)
        then show thesis using that [of fits cnvs' c'] True x by simp
      next
        case False
        then have "cn_block cnvs1 \<noteq> None" using g(2) by (cases cnvs1) auto
        with False same g(7) show thesis by (intro that [of True cnvs1 c]) (simp_all add: g(6))
      qed
      show ?thesis
      proof (cases fits)
        case False
        with e(6) have "hdql_converters_add cnvs to frm f c = Some (HDQL_ERR_MEMORY, cnvs1, c2)"
          using assms(2,3) None absent g(1) e(1) by (simp add: hdql_converters_add_def cn)
        then show ?thesis using g(2,3) e(2,5,6) False absent by simp
      next
        case True
        let ?new = "Converters (cn_addr cnvs2) (cn_nAvailable cnvs2) False (cn_block cnvs2)
            (cn_records cnvs2 @ [(?k, f)]) (cn_parent cnvs2)"
        have "hdql_converters_add cnvs to frm f c = Some (HDQL_ERR_CODE_OK, ?new, c2)"
          using assms(2,3) None absent g(1) e(1,3,6) True by (simp add: hdql_converters_add_def cn)
        moreover have "cn_wf ?new"
          using g(2,5) e(3,4,6) True new by (cases cnvs1) auto
        moreover have "conversions ?new = (if recs = [] then Map.empty else conversions cnvs)(?k \<mapsto> f)"
        proof -
          have "map_of (cn_records cnvs1) ?k = None" using new g(5) by (simp add: map_of_eq_None_iff)
          then have "map_of (cn_records cnvs1 @ [(?k, f)]) = (map_of (cn_records cnvs1))(?k \<mapsto> f)"
            by (simp add: fun_eq_iff map_add_def split: option.split)
          moreover have "map_of (cn_records cnvs1) = (if recs = [] then Map.empty else conversions cnvs)"
            using g(3,4) by (cases cnvs1) auto
          ultimately show ?thesis using e(3) by simp
        qed
        moreover have "cn_own ?new = cn_own cnvs2" by (simp add: cn_own_def)
        moreover have "cn_live ?new c2" using e(5) by (simp add: cn_live_def cn_own_def)
        ultimately show ?thesis using e(2) absent by (auto simp: cn)
      qed
    qed
  qed
qed

text \<open>A child whose first converter hides the parent's.\<close>

definition sample_parent :: "string hdql_Converters" where
  "sample_parent = Converters 0 16 False (Some 1) [(conv_key 517 513, ''i8 to i32'')] None"

definition sample_child :: "string hdql_Converters" where
  "sample_child = Converters 2 0 False None [] (Some sample_parent)"

definition sample_context :: hdql_Context where
  "sample_context = \<lparr>cx_heap = \<lparr>hp_next = 3, hp_live = {0, 1, 2}, hp_oom = \<lambda>_. False\<rparr>, cx_errors = [], cx_types = None\<rparr>"

lemma converters_add_spec_witness:
  "conversions sample_child (conv_key 517 513) = Some ''i8 to i32'' \<and>
   (\<exists>rc cnvs' c'. hdql_converters_add sample_child 519 517 ''i32 to i64'' sample_context = Some (rc, cnvs', c') \<and>
      cn_wf cnvs' \<and> rc = HDQL_ERR_CODE_OK \<and> conversions cnvs' (conv_key 517 513) = None)"
proof -
  have "map_option fst (hdql_converters_add sample_child 519 517 ''i32 to i64'' sample_context) = Some HDQL_ERR_CODE_OK"
    by code_simp
  moreover have "HDQL_ERR_CODE_OK \<noteq> HDQL_ERR_MEMORY" by (simp add: err_codes)
  moreover have k: "conv_key 517 519 \<noteq> conv_key 517 513" by (simp add: conv_key_inj)
  moreover have "cn_wf sample_child" "cn_live sample_child sample_context"
    by (auto simp: sample_child_def sample_parent_def sample_context_def cn_live_def cn_own_def ctx_wf_def heap_wf_def ctx_live_def)
  moreover have "conversions sample_child (conv_key 517 513) = Some ''i8 to i32''"
    "conversions sample_child (conv_key 517 519) = None" "cn_records sample_child = []"
    using k by (simp_all add: sample_child_def sample_parent_def)
  ultimately show ?thesis
    using converters_add_spec [of sample_child 519 517 sample_context "''i32 to i64''"] k by auto
qed

section \<open>The standard converters\<close>

text \<open>
  \<open>Converter<T1, T2>::convert\<close> for integer types is the conversion of C; the converters of the other
  types are a parameter (\<open>impl\<close>), by the names of the types.
\<close>

definition Converter_convert :: "c_type \<Rightarrow> int \<Rightarrow> int \<times> int" where
  "Converter_convert t1 src = (c_conv t1 src, 0)"

definition cpp_numerical_names :: "string list" where
  "cpp_numerical_names = [''signed char'', ''unsigned char'', ''short'', ''unsigned short'', ''int'', ''unsigned int'',
     ''long'', ''unsigned long'', ''float'', ''double'']"

text \<open>To (\<open>T1\<close>) and from (\<open>T2\<close>); the codes of a conversion to a string are not tested before they are used.\<close>

definition Converter_add ::
  "(string \<Rightarrow> string \<Rightarrow> 'f) \<Rightarrow> 'i types_table \<Rightarrow> string \<times> string \<Rightarrow> 'f hdql_Converters \<Rightarrow> hdql_Context \<Rightarrow>
   (hdql_Err_t \<times> 'f hdql_Converters \<times> hdql_Context) option"
where
  "Converter_add impl vts ts cnvs c = (let (t1, t2) = ts in
     if t1 = t2 then Some (0, cnvs, c)
     else (let toVTC = hdql_types_get_type_code vts t1; fromVTC = hdql_types_get_type_code vts t2 in
       if t1 \<noteq> ''string'' \<and> (toVTC = 0 \<or> fromVTC = 0) then None
       else hdql_converters_add cnvs toVTC fromVTC (impl t1 t2) c))"

fun add_converters ::
  "(string \<Rightarrow> string \<Rightarrow> 'f) \<Rightarrow> 'i types_table \<Rightarrow> (string \<times> string) list \<Rightarrow> 'f hdql_Converters \<Rightarrow> hdql_Context \<Rightarrow>
   ('f hdql_Converters \<times> hdql_Context) option"
where
  "add_converters impl vts [] cnvs c = Some (cnvs, c)"
| "add_converters impl vts (p # ps) cnvs c = do {
     (rc, cnvs, c) \<leftarrow> Converter_add impl vts p cnvs c;
     add_converters impl vts ps cnvs c }"

definition hdql_converters_add_std ::
  "(string \<Rightarrow> string \<Rightarrow> 'f) \<Rightarrow> 'f hdql_Converters \<Rightarrow> 'i types_table \<Rightarrow> hdql_Context \<Rightarrow> ('f hdql_Converters \<times> hdql_Context) option"
where
  "hdql_converters_add_std impl cnvs vts c = add_converters impl vts
     (List.product cpp_numerical_names cpp_numerical_names @ map (\<lambda>t. (''bool'', t)) cpp_numerical_names
      @ map (\<lambda>t. (''string'', t)) (cpp_numerical_names @ [''bool''])) cnvs c"

text \<open>Where the types are known, all are added, as far as the memory lasts.\<close>

lemma add_converters_all:
  assumes "cn_wf cnvs" "cn_live cnvs c"
    and "\<forall>(t1, t2) \<in> set ps. get_code_by_name vts t1 \<noteq> 0 \<and> get_code_by_name vts t2 \<noteq> 0"
  shows "\<exists>cnvs' c'. add_converters impl vts ps cnvs c = Some (cnvs', c') \<and> cn_wf cnvs' \<and> cn_live cnvs' c' \<and>
    cx.moved c (cn_own cnvs) (cn_own cnvs') c'"
  using assms
proof (induction ps arbitrary: cnvs c)
  case Nil
  then show ?case by (auto simp: cn_live_def intro: cx.moved_refl)
next
  case (Cons p ps)
  obtain t1 t2 where p: "p = (t1, t2)" by (cases p)
  have known: "get_code_by_name vts t1 \<noteq> 0" "get_code_by_name vts t2 \<noteq> 0" using Cons.prems(3) by (auto simp: p)
  have "\<exists>rc cnvs1 c1. Converter_add impl vts p cnvs c = Some (rc, cnvs1, c1) \<and> cn_wf cnvs1 \<and> cn_live cnvs1 c1 \<and>
      cx.moved c (cn_own cnvs) (cn_own cnvs1) c1"
  proof (cases "t1 = t2")
    case True
    then show ?thesis using Cons.prems(1,2) by (auto simp: Converter_add_def p cn_live_def intro: cx.moved_refl)
  next
    case False
    then show ?thesis
      using converters_add_spec [OF Cons.prems(1) known Cons.prems(2), of "impl t1 t2"] known
      by (auto simp: Converter_add_def p hdql_types_get_type_code_def Let_def)
  qed
  then obtain rc cnvs1 c1 where 1: "Converter_add impl vts p cnvs c = Some (rc, cnvs1, c1)" "cn_wf cnvs1" "cn_live cnvs1 c1"
    "cx.moved c (cn_own cnvs) (cn_own cnvs1) c1" by blast
  from Cons.IH [OF 1(2,3)] Cons.prems(3) obtain cnvs2 c2 where
    "add_converters impl vts ps cnvs1 c1 = Some (cnvs2, c2)" "cn_wf cnvs2" "cn_live cnvs2 c2"
    "cx.moved c1 (cn_own cnvs1) (cn_own cnvs2) c2" by auto
  with 1 show ?case using cx.moved_trans by (auto simp: p)
qed

text \<open>Destruction releases the two blocks of the table.\<close>

lemma converters_destroy_exact:
  assumes "cn_live cnvs c"
  shows "\<exists>c'. hdql_converters_destroy (Some cnvs) c = Some c' \<and> cx.moved c (cn_own cnvs) {} c'"
proof -
  let ?ps = "(case cn_block cnvs of None \<Rightarrow> [] | Some b \<Rightarrow> [b]) @ [cn_addr cnvs]"
  have live: "ctx_wf c" "cn_own cnvs \<subseteq> ctx_live c" "cn_block cnvs \<noteq> Some (cn_addr cnvs)"
    using assms by (simp_all add: cn_live_def)
  have s: "set ?ps = cn_own cnvs" "distinct ?ps" using live(3) by (auto simp: cn_own_def split: option.split)
  have "hdql_converters_destroy (Some cnvs) c = cx.free_list ?ps c"
    by (auto simp: hdql_converters_destroy_def split: option.split bind_splits)
  moreover have "\<exists>c'. cx.free_list ?ps c = Some c' \<and> cx.moved c (cn_own cnvs) (cn_own cnvs - set ?ps) c'"
    by (rule cx.moved_free_list [OF live(1,2) s(2)]) (simp only: s(1) order_refl)
  ultimately show ?thesis unfolding s(1) Diff_cancel by simp
qed

end
