(* ===== verification/ArithOps.thy ===== *)
theory ArithOps
  imports Arguments Operations
begin

text \<open>
  Attributes computed by an operation: of scalar arguments (\<open>src/ifaces/arith-op-as-scalar.c\<close>) and of a
  collection with at most one scalar beside it (\<open>src/ifaces/arith-op-as-collection.c\<close>). The result is a
  value the state owns, overwritten at each call: its block and what is in it. What
  \<open>hdql_query_is_fully_scalar\<close> says of the arguments is kept beside them. \<open>types\<close> is the table of
  value types of the context, \<open>mem\<close> what a new value holds.
\<close>

record ('d, 'q) hdql_ArithOpDefData =
  ao_arg0 :: "'q list"
  ao_arg1 :: "'q list option"
  ao_scalar0 :: bool
  ao_scalar1 :: bool
  ao_evaluator :: "'d hdql_OperationEvaluator"

type_synonym ('d, 's, 'a, 'v) arith_data = "('d, ('d, 's, 'a, 'v) hdql_Query) hdql_ArithOpDefData"

section \<open>Scalar operations\<close>

record 'd ArithOpScalarState =
  as_addr :: addr
  as_result :: "(addr \<times> 'd) option"

definition new_value ::
  "'i types_table option \<Rightarrow> (addr \<Rightarrow> 'd) \<Rightarrow> tcode \<Rightarrow> hdql_Context \<Rightarrow> ((addr \<times> 'd) option \<times> hdql_Context) option" where
  "new_value types mem tc c = do {
     (r, c) \<leftarrow> hdql_create_value types tc c;
     Some (map_option (\<lambda>b. (b, mem b)) r, c) }"

definition arith_op_scalar_interface_instantiate ::
  "'i types_table option \<Rightarrow> (addr \<Rightarrow> 'd) \<Rightarrow> 'd option \<Rightarrow> ('d, 's, 'a, 'v) arith_data \<Rightarrow> hdql_Context \<Rightarrow>
   ('d ArithOpScalarState option \<times> ('d, 's, 'a, 'v) arith_data \<times> hdql_Context) option"
where
  "arith_op_scalar_interface_instantiate types mem ownerDatum defData c = do {
     let (p, c) = ctx_alloc c;
     a \<leftarrow> p;
     (r, c) \<leftarrow> new_value types mem (oe_returnType (ao_evaluator defData)) c;
     Some (Some \<lparr>as_addr = a, as_result = r\<rparr>, defData, c) }"

text \<open>The reset of an argument that may be absent.\<close>

definition reset_arg ::
  "('d, 's, 'a, 'v) hdql_Query list option \<Rightarrow> 'd option \<Rightarrow> hdql_Context \<Rightarrow>
   ('d option \<times> ('d, 's, 'a, 'v) hdql_Query list option \<times> hdql_Context) option"
where
  "reset_arg arg owner c = (case arg of
     None \<Rightarrow> Some (None, None, c)
   | Some qs \<Rightarrow> do { (r, qs, _, c) \<leftarrow> hdql_query_reset qs owner None c; Some (r, Some qs, c) })"

text \<open>Both arguments are reset twice; an error of the operation is reported, the result returned all the same.\<close>

definition arith_op_scalar_interface_reset ::
  "'d option \<Rightarrow> 'd ArithOpScalarState option \<Rightarrow> ('d, 's, 'a, 'v) arith_data \<Rightarrow> 'w hdql_Key option \<Rightarrow> hdql_Context \<Rightarrow>
   ('d option \<times> 'd ArithOpScalarState option \<times> ('d, 's, 'a, 'v) arith_data \<times> 'w hdql_Key option \<times> hdql_Context) option"
where
  "arith_op_scalar_interface_reset newOwner st defData key c = do {
     state \<leftarrow> st;
     (_, q0, _, c) \<leftarrow> hdql_query_reset (ao_arg0 defData) newOwner None c;
     (_, q1, c) \<leftarrow> reset_arg (ao_arg1 defData) newOwner c;
     (a, q0, _, c) \<leftarrow> hdql_query_reset q0 newOwner None c;
     (b, q1, c) \<leftarrow> reset_arg q1 newOwner c;
     (rc, v) \<leftarrow> oe_op (ao_evaluator defData) a b (map_option snd (as_result state));
     let c = (if rc \<noteq> 0 then hdql_context_err_push HDQL_ERR_ARITH_OPERATION c else c);
     let state = state\<lparr>as_result := map_option (\<lambda>(p, _). (p, v)) (as_result state)\<rparr>;
     Some (map_option snd (as_result state), Some state, defData\<lparr>ao_arg0 := q0, ao_arg1 := q1\<rparr>, key, c) }"

definition free_value ::
  "'i types_table option \<Rightarrow> tcode \<Rightarrow> (addr \<times> 'd) option \<Rightarrow> hdql_Context \<Rightarrow> hdql_Context option" where
  "free_value types tc r c = (case r of
     None \<Rightarrow> Some c
   | Some (p, _) \<Rightarrow> do { (rc, c) \<leftarrow> hdql_destroy_value types tc (Some p) c; Some c })"

definition arith_op_scalar_interface_destroy ::
  "'i types_table option \<Rightarrow> 'd ArithOpScalarState option \<Rightarrow> ('d, 's, 'a, 'v) arith_data \<Rightarrow> hdql_Context \<Rightarrow>
   (('d, 's, 'a, 'v) arith_data \<times> hdql_Context) option"
where
  "arith_op_scalar_interface_destroy types st defData c = (case st of
     None \<Rightarrow> Some (defData, c)
   | Some state \<Rightarrow> do {
       c \<leftarrow> free_value types (oe_returnType (ao_evaluator defData)) (as_result state) c;
       c \<leftarrow> ctx_free (Some (as_addr state)) c;
       Some (defData, c) })"

definition hdql_gScalarArithOpIFace ::
  "'i types_table option \<Rightarrow> (addr \<Rightarrow> 'd) \<Rightarrow> ('d, 'd ArithOpScalarState, ('d, 's, 'a, 'v) arith_data, 'w) hdql_ScalarAttrInterface"
where
  "hdql_gScalarArithOpIFace types mem = \<lparr>
     si_new_dyn_data = Some (arith_op_scalar_interface_instantiate types mem),
     si_reset = arith_op_scalar_interface_reset,
     si_destroy_dyn_data = Some (arith_op_scalar_interface_destroy types) \<rparr>"

section \<open>Operations on a collection\<close>

text \<open>\<open>collectionNArg\<close> is a bit: whether the collection is the second argument.\<close>

record 'd ArithOpCollectionState =
  ac_addr :: addr
  ac_collectionNArg :: bool
  ac_scalarDatum :: "'d option"
  ac_cResult :: "(addr \<times> 'd) option"

definition arith_op_new_iterator ::
  "'i types_table option \<Rightarrow> (addr \<Rightarrow> 'd) \<Rightarrow> 'd option \<Rightarrow> ('d, 's, 'a, 'v) arith_data \<Rightarrow> hdql_Context \<Rightarrow>
   ('d ArithOpCollectionState option \<times> ('d, 's, 'a, 'v) arith_data \<times> hdql_Context) option"
where
  "arith_op_new_iterator types mem owner defData c = do {
     let (p, c) = ctx_alloc c;
     a \<leftarrow> p;
     (r, c) \<leftarrow> new_value types mem (oe_returnType (ao_evaluator defData)) c;
     let aIsFullyScalar = ao_scalar0 defData;
     c_assert (\<not> aIsFullyScalar \<and> ao_arg1 defData = None \<or>
       ao_arg1 defData \<noteq> None \<and> aIsFullyScalar \<noteq> ao_scalar1 defData);
     Some (Some \<lparr>ac_addr = a, ac_collectionNArg = aIsFullyScalar, ac_scalarDatum = None, ac_cResult = r\<rparr>, defData, c) }"

text \<open>The collection among the arguments, and the other argument.\<close>

definition coll_arg :: "('d, 's, 'a, 'v) arith_data \<Rightarrow> bool \<Rightarrow> ('d, 's, 'a, 'v) hdql_Query list option" where
  "coll_arg dd n = (if n then ao_arg1 dd else Some (ao_arg0 dd))"

definition other_arg :: "('d, 's, 'a, 'v) arith_data \<Rightarrow> bool \<Rightarrow> ('d, 's, 'a, 'v) hdql_Query list option" where
  "other_arg dd n = (if n then Some (ao_arg0 dd) else ao_arg1 dd)"

definition put_args ::
  "('d, 's, 'a, 'v) hdql_Query list \<Rightarrow> ('d, 's, 'a, 'v) hdql_Query list option \<Rightarrow> bool \<Rightarrow> ('d, 's, 'a, 'v) arith_data \<Rightarrow>
   ('d, 's, 'a, 'v) arith_data"
where
  "put_args qc qo n dd = (if n then dd\<lparr>ao_arg0 := (case qo of Some q \<Rightarrow> q | None \<Rightarrow> ao_arg0 dd), ao_arg1 := Some qc\<rparr>
     else dd\<lparr>ao_arg0 := qc, ao_arg1 := qo\<rparr>)"


definition eval_op ::
  "('d, 's, 'a, 'v) arith_data \<Rightarrow> 'd ArithOpCollectionState \<Rightarrow> 'd option \<Rightarrow> 'd ArithOpCollectionState option" where
  "eval_op dd state cr = do {
     (rc, v) \<leftarrow> (if ac_collectionNArg state
        then oe_op (ao_evaluator dd) (ac_scalarDatum state) cr (map_option snd (ac_cResult state))
        else oe_op (ao_evaluator dd) cr (ac_scalarDatum state) (map_option snd (ac_cResult state)));
     Some (state\<lparr>ac_cResult := map_option (\<lambda>(p, _). (p, v)) (ac_cResult state)\<rparr>) }"

text \<open>The reset evaluates the operation whether the collection gave a datum or not.\<close>

definition arith_op_collection_iterator_reset ::
  "'d ArithOpCollectionState option \<Rightarrow> 'd option \<Rightarrow> ('d, 's, 'a, 'v) arith_data \<Rightarrow> addr option \<Rightarrow> 'v hdql_Key option \<Rightarrow>
   hdql_Context \<Rightarrow>
   ('d option \<times> 'd ArithOpCollectionState option \<times> ('d, 's, 'a, 'v) arith_data \<times> 'v hdql_Key option \<times> hdql_Context) option"
where
  "arith_op_collection_iterator_reset it newOwner defData sel key c = do {
     state \<leftarrow> it;
     let n = ac_collectionNArg state;
     qc \<leftarrow> coll_arg defData n;
     (cr, qc, key, c) \<leftarrow> hdql_query_reset qc newOwner key c;
     (s, qo, c) \<leftarrow> (if ao_arg1 defData \<noteq> None then reset_arg (other_arg defData n) newOwner c
                   else Some (None, other_arg defData n, c));
     let state = state\<lparr>ac_scalarDatum := s\<rparr>;
     state \<leftarrow> eval_op defData state cr;
     Some (map_option snd (ac_cResult state), Some state, put_args qc qo n defData, key, c) }"

definition arith_op_collection_yield ::
  "'d ArithOpCollectionState option \<Rightarrow> ('d, 's, 'a, 'v) arith_data \<Rightarrow> 'v hdql_Key option \<Rightarrow> hdql_Context \<Rightarrow>
   ('d option \<times> 'd ArithOpCollectionState option \<times> ('d, 's, 'a, 'v) arith_data \<times> 'v hdql_Key option \<times> hdql_Context) option"
where
  "arith_op_collection_yield it defData key c = do {
     state \<leftarrow> it;
     let n = ac_collectionNArg state;
     qc \<leftarrow> coll_arg defData n;
     (cr, qc, key, c) \<leftarrow> hdql_query_get qc key c;
     let defData = put_args qc (other_arg defData n) n defData;
     if cr = None then Some (None, Some state, defData, key, c)
     else do {
       state \<leftarrow> eval_op defData state cr;
       Some (map_option snd (ac_cResult state), Some state, defData, key, c) } }"

definition arith_op_collection_destroy_iterator ::
  "'i types_table option \<Rightarrow> 'd ArithOpCollectionState option \<Rightarrow> ('d, 's, 'a, 'v) arith_data \<Rightarrow> hdql_Context \<Rightarrow>
   (('d, 's, 'a, 'v) arith_data \<times> hdql_Context) option"
where
  "arith_op_collection_destroy_iterator types it defData c = (case it of
     None \<Rightarrow> Some (defData, c)
   | Some state \<Rightarrow> do {
       c \<leftarrow> free_value types (oe_returnType (ao_evaluator defData)) (ac_cResult state) c;
       c \<leftarrow> ctx_free (Some (ac_addr state)) c;
       Some (defData, c) })"

definition hdql_gCollectionArithOpIFace ::
  "'i types_table option \<Rightarrow> (addr \<Rightarrow> 'd) \<Rightarrow>
   ('d, 'd ArithOpCollectionState, ('d, 's, 'a, 'v) arith_data, 'v) hdql_CollectionAttrInterface"
where
  "hdql_gCollectionArithOpIFace types mem = \<lparr>
     ci_new_iterator = arith_op_new_iterator types mem,
     ci_yield = arith_op_collection_yield,
     ci_reset_iterator = arith_op_collection_iterator_reset,
     ci_destroy_iterator = arith_op_collection_destroy_iterator types,
     ci_free_selection = None \<rparr>"

section \<open>The key of an operation on a collection\<close>

text \<open>The static side: the key is that of the argument that is a collection, the first if it is one.\<close>

definition hdql_reserve_arith_op_collection_key ::
  "bytes hdql_Key \<Rightarrow> q_link list \<Rightarrow> q_link list option \<Rightarrow> hdql_Context \<Rightarrow> (hdql_Err_t \<times> bytes hdql_Key \<times> hdql_Context) option"
where
  "hdql_reserve_arith_op_collection_key key arg0 arg1 c = do {
     aIsFullyScalar \<leftarrow> hdql_query_is_fully_scalar arg0;
     (rc, key, c) \<leftarrow> (if \<not> aIsFullyScalar then hdql_key_reserve_for_query arg0 key c
       else do { b \<leftarrow> arg1; hdql_key_reserve_for_query b key c });
     if rc \<noteq> HDQL_ERR_CODE_OK
     then Some (HDQL_ERR_INTERFACE_ERROR, key, hdql_context_err_push HDQL_ERR_INTERFACE_ERROR c)
     else Some (HDQL_ERR_CODE_OK, key, c) }"

lemma reserve_op_key:
  assumes "hdql_query_is_fully_scalar arg0 = Some s" "(if s then arg1 else Some arg0) = Some qs"
    and "hdql_key_reserve_for_query qs key c = Some (HDQL_ERR_CODE_OK, key', c')"
  shows "hdql_reserve_arith_op_collection_key key arg0 arg1 c = Some (HDQL_ERR_CODE_OK, key', c')"
proof -
  have "(if \<not> s then hdql_key_reserve_for_query arg0 key c
      else do { b \<leftarrow> arg1; hdql_key_reserve_for_query b key c }) = Some (HDQL_ERR_CODE_OK, key', c')"
    using assms(2,3) by (cases s) (simp_all del: hdql_key_reserve_for_query.simps)
  then show ?thesis
    unfolding hdql_reserve_arith_op_collection_key_def assms(1) bind.bind_lunit by (simp only:) simp
qed

section \<open>The scalar operation is a level\<close>

text \<open>
  The contract both interfaces rely on: arguments, memory for the state and the result, and an
  operation that succeeds on what the arguments give.
\<close>

locale operation_memory =
  fixes types :: "'i types_table option" and ev :: "'d hdql_OperationEvaluator" and ok :: "hdql_Context \<Rightarrow> bool"
  assumes alloc: "ok c \<Longrightarrow> \<exists>a c'. ctx_alloc c = (Some a, c') \<and> ok c'"
    and new: "ok c \<Longrightarrow> \<exists>a c'. hdql_create_value types (oe_returnType ev) c = Some (Some a, c') \<and> ok c'"
    and reported: "ok c \<Longrightarrow> ok (hdql_context_err_push e c)"
begin

lemma state_new:
  assumes "ok c"
  obtains a c1 b c2 where "ctx_alloc c = (Some a, c1)" "new_value types mem (oe_returnType ev) c1 = Some (Some (b, mem b), c2)" "ok c2"
proof -
  obtain a c1 where a: "ctx_alloc c = (Some a, c1)" "ok c1" using alloc [OF assms] by blast
  moreover obtain b c2 where "hdql_create_value types (oe_returnType ev) c1 = Some (Some b, c2)" "ok c2"
    using new [OF a(2)] by blast
  ultimately show thesis using that by (simp add: new_value_def)
qed

end

locale arith_scalar = operation_memory types ev ok
  for types :: "'i types_table option" and ev :: "'d hdql_OperationEvaluator" and ok +
  fixes A0 A1 :: "(('d, 's, 'a, 'v) hdql_Query, 'd) argument" and binary :: bool and f :: "'d \<Rightarrow> 'd option \<Rightarrow> 'd"
  assumes arg0: "query_arg A0 ok" and arg1: "query_arg A1 ok"
    and op: "s = None \<longleftrightarrow> \<not> binary \<Longrightarrow> \<exists>rc. oe_op ev (Some x) s (Some r) = Some (rc, f x s)"
    and given0: "d = None \<longrightarrow> ag_null A0 \<Longrightarrow> ag_outs A0 d \<noteq> []"
    and given1: "binary \<Longrightarrow> d = None \<longrightarrow> ag_null A1 \<Longrightarrow> ag_outs A1 d \<noteq> []"

definition arith_scalar_dd ::
  "'d hdql_OperationEvaluator \<Rightarrow> (('d, 's, 'a, 'v) hdql_Query, 'd) argument \<Rightarrow> (('d, 's, 'a, 'v) hdql_Query, 'd) argument \<Rightarrow> bool \<Rightarrow>
   ('d, 's, 'a, 'v) arith_data \<Rightarrow> bool"
where
  "arith_scalar_dd ev A0 A1 binary dd \<longleftrightarrow> ao_evaluator dd = ev \<and> ag_valid A0 (ao_arg0 dd) \<and>
     (if binary then \<exists>qs. ao_arg1 dd = Some qs \<and> ag_valid A1 qs else ao_arg1 dd = None)"

definition arith_scalar_val ::
  "(('d, 's, 'a, 'v) hdql_Query, 'd) argument \<Rightarrow> (('d, 's, 'a, 'v) hdql_Query, 'd) argument \<Rightarrow> bool \<Rightarrow>
   ('d \<Rightarrow> 'd option \<Rightarrow> 'd) \<Rightarrow> 'd option \<Rightarrow> 'd option"
where
  "arith_scalar_val A0 A1 binary f d = Some (f (hd (ag_outs A0 d)) (if binary then first (ag_outs A1 d) else None))"

context arith_scalar
begin

text \<open>Two resets of an argument in a row, the first for nothing.\<close>

lemma reset_arg_gives:
  assumes "if binary then \<exists>qs. arg = Some qs \<and> ag_valid A1 qs else arg = None" "ok c" "d = None \<longrightarrow> binary \<longrightarrow> ag_null A1"
  shows "\<exists>arg' c'. reset_arg arg d c = Some (if binary then first (ag_outs A1 d) else None, arg', c') \<and> ok c' \<and>
    (if binary then \<exists>qs. arg' = Some qs \<and> ag_valid A1 qs else arg' = None)"
proof (cases binary)
  case True
  with assms obtain qs where qs: "arg = Some qs" "ag_valid A1 qs" "d = None \<longrightarrow> ag_null A1" by auto
  from query_arg.reset_first [OF arg1 qs(2) assms(2) qs(3)] obtain qs' c' where
    "hdql_query_reset qs d None c = Some (first (ag_outs A1 d), qs', None, c')" "ok c'" "ag_valid A1 qs'" by metis
  with True qs(1) show ?thesis by (simp add: reset_arg_def)
next
  case False
  with assms show ?thesis by (simp add: reset_arg_def)
qed

lemma scalar_reset:
  assumes st: "as_result st \<noteq> None" and dd: "ao_evaluator dd = ev" "ag_valid A0 (ao_arg0 dd)"
      "if binary then \<exists>qs. ao_arg1 dd = Some qs \<and> ag_valid A1 qs else ao_arg1 dd = None"
    and c: "ok c" and null: "d = None \<longrightarrow> ag_null A0 \<and> (binary \<longrightarrow> ag_null A1)"
  shows "\<exists>st' dd' c'. arith_op_scalar_interface_reset d (Some st) dd key c =
      Some (Some (f (hd (ag_outs A0 d)) (if binary then first (ag_outs A1 d) else None)), Some st', dd', key, c') \<and>
    as_result st' \<noteq> None \<and> ao_evaluator dd' = ev \<and> ag_valid A0 (ao_arg0 dd') \<and>
    (if binary then \<exists>qs. ao_arg1 dd' = Some qs \<and> ag_valid A1 qs else ao_arg1 dd' = None) \<and> ok c'"
proof -
  let ?s = "if binary then first (ag_outs A1 d) else None"
  obtain b r where res: "as_result st = Some (b, r)" using st by auto
  have n0: "d = None \<longrightarrow> ag_null A0" and n1: "d = None \<longrightarrow> binary \<longrightarrow> ag_null A1" using null by auto
  obtain q0 c1 where 1: "hdql_query_reset (ao_arg0 dd) d None c = Some (first (ag_outs A0 d), q0, None, c1)" "ok c1" "ag_valid A0 q0"
    using query_arg.reset_first [OF arg0 dd(2) c n0] by metis
  obtain q1 c2 where 2: "reset_arg (ao_arg1 dd) d c1 = Some (?s, q1, c2)" "ok c2"
    "if binary then \<exists>qs. q1 = Some qs \<and> ag_valid A1 qs else q1 = None"
    using reset_arg_gives [OF dd(3) 1(2) n1] by blast
  obtain q0' c3 where 3: "hdql_query_reset q0 d None c2 = Some (first (ag_outs A0 d), q0', None, c3)" "ok c3" "ag_valid A0 q0'"
    using query_arg.reset_first [OF arg0 1(3) 2(2) n0] by metis
  obtain q1' c4 where 4: "reset_arg q1 d c3 = Some (?s, q1', c4)" "ok c4"
    "if binary then \<exists>qs. q1' = Some qs \<and> ag_valid A1 qs else q1' = None"
    using reset_arg_gives [OF 2(3) 3(2) n1] by blast
  have a: "first (ag_outs A0 d) = Some (hd (ag_outs A0 d))" using given0 [OF n0] by (cases "ag_outs A0 d") auto
  have s: "?s = None \<longleftrightarrow> \<not> binary" using given1 [of d] n1 by auto
  obtain rc where "oe_op ev (Some (hd (ag_outs A0 d))) ?s (Some r) = Some (rc, f (hd (ag_outs A0 d)) ?s)"
    using op [OF s] by blast
  then show ?thesis
    using 1 2 3 4 dd(1) reported [OF 4(2)] res by (simp add: arith_op_scalar_interface_reset_def a Let_def)
qed

end

sublocale arith_scalar \<subseteq> agg: aggregate "hdql_gScalarArithOpIFace types mem" "arith_scalar_dd ev A0 A1 binary"
    "\<lambda>st. as_result st \<noteq> None" "arith_scalar_val A0 A1 binary f" ok "ag_null A0 \<and> (binary \<longrightarrow> ag_null A1)" True
proof
  fix dd :: "('d, 's, 'a, 'v) arith_data" and c and d :: "'d option"
  assume dd: "arith_scalar_dd ev A0 A1 binary dd" and c: "ok c"
  show "\<exists>new st c'. si_new_dyn_data (hdql_gScalarArithOpIFace types mem) = Some new \<and> new d dd c = Some (Some st, dd, c') \<and>
      as_result st \<noteq> None \<and> ok c'"
    using dd by (rule_tac state_new [OF c, where mem = mem])
      (simp add: hdql_gScalarArithOpIFace_def arith_op_scalar_interface_instantiate_def arith_scalar_dd_def)
next
  fix dd :: "('d, 's, 'a, 'v) arith_data" and st :: "'d ArithOpScalarState" and c and d :: "'d option" and key
  assume "arith_scalar_dd ev A0 A1 binary dd" "as_result st \<noteq> None" "ok c" "d = None \<longrightarrow> ag_null A0 \<and> (binary \<longrightarrow> ag_null A1)"
  then show "\<exists>st' dd' c'. si_reset (hdql_gScalarArithOpIFace types mem) d (Some st) dd key c =
      Some (arith_scalar_val A0 A1 binary f d, Some st', dd', key, c') \<and>
      arith_scalar_dd ev A0 A1 binary dd' \<and> as_result st' \<noteq> None \<and> ok c'"
    using scalar_reset [of st dd c d key] unfolding arith_scalar_dd_def arith_scalar_val_def hdql_gScalarArithOpIFace_def
    by (simp only: hdql_ScalarAttrInterface.select_convs simp_thms) blast
qed

section \<open>The operation on a collection\<close>

text \<open>
  One owner \<open>d\<close>: the collection, a chain, has data for it (on an empty collection the operation would
  be evaluated on a null pointer), the scalar argument has one, and the operation is defined on them.
  The keys of the collection are those of the result. \<open>n\<close> says which argument is the collection.
\<close>

definition scalar_datum :: "(('d, 's, 'a, 'v) hdql_Query, 'd) argument \<Rightarrow> bool \<Rightarrow> 'd option \<Rightarrow> 'd option" where
  "scalar_datum A binary d = (if binary then first (ag_outs A d) else None)"

definition apply_op :: "'d hdql_OperationEvaluator \<Rightarrow> bool \<Rightarrow> 'd \<Rightarrow> 'd option \<Rightarrow> 'd \<Rightarrow> (int \<times> 'd) option" where
  "apply_op ev n x s r = (if n then oe_op ev s (Some x) (Some r) else oe_op ev (Some x) s (Some r))"

locale arith_collection = operation_memory types ev ok + forwarded_chain Some "\<lambda>qs _. qs" ok Ls
  for types :: "'i types_table option" and ev :: "'d hdql_OperationEvaluator" and ok
    and Ls :: "('d, 's, 'a, 'v) tlevel list" +
  fixes A :: "(('d, 's, 'a, 'v) hdql_Query, 'd) argument" and binary n :: bool and f :: "'d \<Rightarrow> 'd option \<Rightarrow> 'd"
    and d :: "'d option"
  assumes arg: "query_arg A ok" and second: "n \<Longrightarrow> binary"
    and owner: "d = None \<longrightarrow> lv_null (hd Ls) \<and> (binary \<longrightarrow> ag_null A)"
    and some: "chain_elems Ls d \<noteq> []"
    and given: "binary \<Longrightarrow> ag_outs A d \<noteq> []"
    and op: "(x, es) \<in> set (chain_elems Ls d) \<Longrightarrow>
      \<exists>rc. apply_op ev n x (scalar_datum A binary d) r = Some (rc, f x (scalar_datum A binary d))"

text \<open>The definition data: the evaluator, which argument is scalar, the arguments between calls.\<close>

definition arith_data_ok ::
  "'d hdql_OperationEvaluator \<Rightarrow> (('d, 's, 'a, 'v) hdql_Query, 'd) argument \<Rightarrow> bool \<Rightarrow> bool \<Rightarrow> ('d, 's, 'a, 'v) arith_data \<Rightarrow> bool" where
  "arith_data_ok ev A binary n dd \<longleftrightarrow> ao_evaluator dd = ev \<and> ao_scalar0 dd = n \<and> (ao_arg1 dd \<noteq> None) = binary \<and>
     (binary \<longrightarrow> ao_scalar1 dd = (\<not> n) \<and> (\<exists>qs. other_arg dd n = Some qs \<and> ag_valid A qs))"

lemma put_args_ok:
  "arith_data_ok ev A binary n dd \<Longrightarrow> n \<longrightarrow> binary \<Longrightarrow> binary \<Longrightarrow> ag_valid A qo \<Longrightarrow>
     arith_data_ok ev A binary n (put_args qc (Some qo) n dd) \<and> coll_arg (put_args qc (Some qo) n dd) n = Some qc"
  "arith_data_ok ev A binary n dd \<Longrightarrow> n \<longrightarrow> binary \<Longrightarrow> \<not> binary \<Longrightarrow>
     arith_data_ok ev A binary n (put_args qc None n dd) \<and> coll_arg (put_args qc None n dd) n = Some qc"
  "arith_data_ok ev A binary n dd \<Longrightarrow> n \<longrightarrow> binary \<Longrightarrow>
     arith_data_ok ev A binary n (put_args qc (other_arg dd n) n dd) \<and> coll_arg (put_args qc (other_arg dd n) n dd) n = Some qc"
  by (cases n; auto simp: arith_data_ok_def put_args_def coll_arg_def other_arg_def)+

text \<open>A query of one link under a list key with one key: both calls and the records.\<close>

lemma link_reset:
  "hdql__query_reset q d (Some k) c = Some (r, q', Some k', c') \<Longrightarrow>
   hdql_query_reset [q] d (Some (list_key [k])) c = Some (r, [q'], Some (list_key [k']), c')"
  by (simp add: hdql_query_reset_def hdql__query_reset_descendant_def rd_loop.simps list_key_def hdql_key_is_list_def
      hdql__key_get_list_bgn_def kz_cur_def kz_put_def chain_of_def key_with_def keys_of_def)

lemma link_get:
  "hdql__query_yield q (Some k) c = Some (r, q', Some k', c') \<Longrightarrow>
   hdql_query_get [q] (Some (list_key [k])) c = Some (r, [q'], Some (list_key [k']), c')"
  by (cases r) (simp_all add: hdql_query_get_def qg_loop.simps list_key_def
      hdql__key_get_list_bgn_def kz_cur_def kz_put_def chain_of_def key_with_def keys_of_def)

context arith_collection
begin

abbreviation datum :: "'d option" where
  "datum \<equiv> scalar_datum A binary d"

text \<open>A query on the operation between calls, with what is left of the collection.\<close>

definition op_here ::
  "(addr \<Rightarrow> 'd) \<Rightarrow> ('d, 'd ArithOpCollectionState, ('d, 's, 'a, 'v) arith_data, 'v) hdql_Query \<Rightarrow>
   ('d, 's, 'a, 'v) hdql_Query list \<Rightarrow> bool"
where
  "op_here mem q qs \<longleftrightarrow> qa_interface (q_ad q) = IfCollection (hdql_gCollectionArithOpIFace types mem) \<and>
     arith_data_ok ev A binary n (qa_definitionData (q_ad q)) \<and> coll_arg (qa_definitionData (q_ad q)) n = Some qs"

definition op_left ::
  "(addr \<Rightarrow> 'd) \<Rightarrow> ('d, 'd ArithOpCollectionState, ('d, 's, 'a, 'v) arith_data, 'v) hdql_Query \<Rightarrow> 'v hdql_Key option \<Rightarrow>
   ('d \<times> 'v tag list) list \<Rightarrow> bool"
where
  "op_left mem q k outs \<longleftrightarrow> set outs \<subseteq> set (chain_elems Ls d) \<and>
     (\<exists>qs st. op_here mem q qs \<and> chain_at ok Ls qs k outs \<and> q_state q = Some st \<and>
        ac_cResult st \<noteq> None \<and> ac_collectionNArg st = n \<and> ac_scalarDatum st = datum)"

lemma eval_gives:
  assumes "ao_evaluator dd = ev" "ac_collectionNArg st = n" "ac_cResult st \<noteq> None" "ac_scalarDatum st = datum"
    and "(y, es) \<in> set (chain_elems Ls d)"
  shows "\<exists>st'. eval_op dd st (Some y) = Some st' \<and> map_option snd (ac_cResult st') = Some (f y datum) \<and>
    ac_collectionNArg st' = n \<and> ac_cResult st' \<noteq> None \<and> ac_scalarDatum st' = datum"
proof -
  obtain b r where b: "ac_cResult st = Some (b, r)" using assms(3) by auto
  obtain rc where "apply_op ev n y datum r = Some (rc, f y datum)"
    using op [OF assms(5)] by blast
  then show ?thesis using assms(1,2,4) b by (cases n) (simp_all add: eval_op_def apply_op_def)
qed

lemma scalar_gives:
  assumes dd: "arith_data_ok ev A binary n dd" and c: "ok c"
  shows "\<exists>qo c'. (if ao_arg1 dd \<noteq> None then reset_arg (other_arg dd n) d c else Some (None, other_arg dd n, c)) =
      Some (datum, qo, c') \<and> ok c' \<and>
    (\<forall>qc. arith_data_ok ev A binary n (put_args qc qo n dd) \<and> coll_arg (put_args qc qo n dd) n = Some qc)"
proof (cases binary)
  case True
  then obtain qs where qs: "other_arg dd n = Some qs" "ag_valid A qs" "ao_arg1 dd \<noteq> None"
    using dd by (auto simp: arith_data_ok_def)
  have "d = None \<longrightarrow> ag_null A" using owner True by simp
  from query_arg.reset_first [OF arg qs(2) c this] obtain qs' c' where
    "hdql_query_reset qs d None c = Some (first (ag_outs A d), qs', None, c')" "ok c'" "ag_valid A qs'" by metis
  then show ?thesis using True qs put_args_ok(1) [OF dd] by (simp add: reset_arg_def scalar_datum_def)
next
  case False
  then have "ao_arg1 dd = None" "\<not> n" using dd second by (auto simp: arith_data_ok_def)
  then show ?thesis using False c put_args_ok(2) [OF dd] by (simp add: other_arg_def scalar_datum_def)
qed

lemma iterator_gives:
  assumes "arith_data_ok ev A binary n dd" "ok c"
  shows "\<exists>st c'. arith_op_new_iterator types mem d dd c = Some (Some st, dd, c') \<and> ac_cResult st \<noteq> None \<and>
    ac_collectionNArg st = n \<and> ok c'"
proof -
  obtain a c1 b c2 where a: "ctx_alloc c = (Some a, c1)" "new_value types mem (oe_returnType ev) c1 = Some (Some (b, mem b), c2)" "ok c2"
    by (rule state_new [OF assms(2)])
  have "ao_evaluator dd = ev" "ao_scalar0 dd = n" "\<not> n \<and> ao_arg1 dd = None \<or> ao_arg1 dd \<noteq> None \<and> n \<noteq> ao_scalar1 dd"
    using assms(1) second by (auto simp: arith_data_ok_def)
  then show ?thesis using a by (simp add: arith_op_new_iterator_def)
qed

lemma op_reset:
  assumes q: "op_here mem q qs" "q_state q = None" and qs: "chain_ready Ls qs" "list_fits Ls k" "ok c"
    and e: "chain_elems Ls d = (y, es) # outs"
  shows "\<exists>q' c'. hdql__query_reset q d (Some k) c = Some (Some (f y datum), q', Some (path_fill Ls (TPath es) k), c') \<and>
    op_left mem q' (Some (path_fill Ls (TPath es) k)) outs \<and> ok c'"
proof -
  let ?dd = "qa_definitionData (q_ad q)"
  have here: "qa_interface (q_ad q) = IfCollection (hdql_gCollectionArithOpIFace types mem)"
    "arith_data_ok ev A binary n ?dd" "coll_arg ?dd n = Some qs" using q(1) by (simp_all add: op_here_def)
  obtain st c1 where st: "arith_op_new_iterator types mem d ?dd c = Some (Some st, ?dd, c1)" "ac_cResult st \<noteq> None"
    "ac_collectionNArg st = n" "ok c1" using iterator_gives [OF here(2) qs(3)] by blast
  have fits: "\<forall>k0. Some k = Some k0 \<longrightarrow> list_fits Ls k0" and null: "d = None \<longrightarrow> lv_null (hd Ls)" using qs(2) owner by auto
  obtain qs' c2 where r: "hdql_query_reset qs d (Some k) c1 = Some (Some y, qs', Some (path_fill Ls (TPath es) k), c2)" "ok c2"
    "chain_at ok Ls qs' (Some (path_fill Ls (TPath es) k)) outs"
    using reset_chain [OF qs(1) fits st(4) null] by (auto simp: e)
  obtain qo c3 where o: "(if ao_arg1 ?dd \<noteq> None then reset_arg (other_arg ?dd n) d c2 else Some (None, other_arg ?dd n, c2)) =
      Some (datum, qo, c3)" "ok c3"
    "\<forall>qc. arith_data_ok ev A binary n (put_args qc qo n ?dd) \<and> coll_arg (put_args qc qo n ?dd) n = Some qc"
    using scalar_gives [OF here(2) r(2)] by blast
  let ?st = "st\<lparr>ac_scalarDatum := datum\<rparr>"
  obtain st' where v: "eval_op ?dd ?st (Some y) = Some st'" "map_option snd (ac_cResult st') = Some (f y datum)"
    "ac_collectionNArg st' = n" "ac_cResult st' \<noteq> None" "ac_scalarDatum st' = datum"
    using eval_gives [of ?dd ?st y es] here(2) st(2,3) e by (auto simp: arith_data_ok_def)
  let ?q = "q_update (q\<lparr>q_owner := d\<rparr>) (Some st') (put_args qs' qo n ?dd)"
  have "arith_op_collection_iterator_reset (Some st) d ?dd sel (Some k) c1 =
      Some (Some (f y datum), Some st', put_args qs' qo n ?dd, Some (path_fill Ls (TPath es) k), c3)" for sel
    using r(1) o(1) v(1,2) st(3) here(3) unfolding arith_op_collection_iterator_reset_def by simp
  then have "hdql__query_reset q d (Some k) c = Some (Some (f y datum), ?q, Some (path_fill Ls (TPath es) k), c3)"
    using here(1) st(1) q(2) by (simp add: hdql__query_reset_def hdql_gCollectionArithOpIFace_def q_update_def)
  moreover have "op_left mem ?q (Some (path_fill Ls (TPath es) k)) outs"
    using here(1) o(3) v(3-5) r(3) e by (auto simp: op_left_def op_here_def q_update_def)
  ultimately show ?thesis using o(2) by blast
qed

lemma op_yield:
  assumes "op_left mem q (Some k) outs" "ok c"
  shows "\<exists>r q' k' c'. hdql__query_yield q (Some k) c = Some (r, q', Some k', c') \<and> ok c' \<and>
    (case outs of [] \<Rightarrow> r = None
     | (y, es) # outs' \<Rightarrow> r = Some (f y datum) \<and> k' = path_fill Ls (TPath es) k \<and> op_left mem q' (Some k') outs')"
proof -
  let ?dd = "qa_definitionData (q_ad q)"
  obtain qs st where q: "qa_interface (q_ad q) = IfCollection (hdql_gCollectionArithOpIFace types mem)"
    "arith_data_ok ev A binary n ?dd" "coll_arg ?dd n = Some qs" "chain_at ok Ls qs (Some k) outs" "q_state q = Some st"
    "ac_cResult st \<noteq> None" "ac_collectionNArg st = n" "ac_scalarDatum st = datum" "set outs \<subseteq> set (chain_elems Ls d)"
    using assms(1) by (auto simp: op_left_def op_here_def)
  obtain r qs' k0 c' where r: "hdql_query_get qs (Some k) c = Some (r, qs', k0, c')" "ok c'"
    "case outs of
       [] \<Rightarrow> r = None \<and> map_option erased k0 = map_option erased (Some k) \<and> chain_over ok Ls qs' k0
     | (y, es) # outs' \<Rightarrow> r = Some y \<and> k0 = map_option (path_fill Ls (TPath es)) (Some k) \<and> chain_at ok Ls qs' k0 outs'"
    using get_chain [OF q(4) assms(2)] by blast
  let ?dd' = "put_args qs' (other_arg ?dd n) n ?dd"
  have dd': "arith_data_ok ev A binary n ?dd'" "coll_arg ?dd' n = Some qs'" "ao_evaluator ?dd' = ev"
    using put_args_ok(3) [OF q(2), of qs'] second by (auto simp: arith_data_ok_def)
  show ?thesis
  proof (cases outs)
    case Nil
    then obtain k' where "k0 = Some k'" using r(3) by auto
    then have "hdql__query_yield q (Some k) c = Some (None, q_update q (Some st) ?dd', Some k', c')"
      using q(1,3,5,7) r(1,3) Nil by (simp add: hdql__query_yield_def hdql_gCollectionArithOpIFace_def arith_op_collection_yield_def)
    then show ?thesis using Nil r(2) by simp
  next
    case (Cons o1 outs')
    obtain y es where o1: "o1 = (y, es)" by (cases o1)
    have y: "(y, es) \<in> set (chain_elems Ls d)" using q(9) Cons o1 by simp
    obtain st' where v: "eval_op ?dd' st (Some y) = Some st'" "map_option snd (ac_cResult st') = Some (f y datum)"
      "ac_collectionNArg st' = n" "ac_cResult st' \<noteq> None" "ac_scalarDatum st' = datum"
      using eval_gives [OF dd'(3) q(7,6,8) y] by blast
    have at: "k0 = Some (path_fill Ls (TPath es) k)" "chain_at ok Ls qs' k0 outs'" "r = Some y"
      using r(3) unfolding Cons o1 by auto
    let ?q = "q_update q (Some st') ?dd'"
    have "hdql__query_yield q (Some k) c = Some (Some (f y datum), ?q, Some (path_fill Ls (TPath es) k), c')"
      using q(1,3,5,7) r(1) v(1,2) at(1,3)
      by (simp add: hdql__query_yield_def hdql_gCollectionArithOpIFace_def arith_op_collection_yield_def)
    moreover have "op_left mem ?q (Some (path_fill Ls (TPath es) k)) outs'"
      using q(1,9) v(3-5) Cons dd' at(1,2) by (auto simp: op_left_def op_here_def q_update_def)
    ultimately show ?thesis using Cons o1 r(2) by simp
  qed
qed

lemma fill_again: "erased k1 = erased k2 \<Longrightarrow> path_fill Ls e k1 = path_fill Ls e k2"
  by (rule path_fill_cong [OF shapes levels])

lemma fill_shape: "erased (path_fill Ls e k) = erased k"
  by (rule path_fill_shape [OF shapes levels])

end

section \<open>A query on an operation\<close>

lemma op_records_left:
  fixes q :: "('d, 'd ArithOpCollectionState, ('d, 's, 'a, bytes) arith_data, bytes) hdql_Query"
  assumes C: "arith_collection types ev ok Ls A binary n f d"
  shows "arith_collection.op_left types ev ok Ls A binary n d mem q (Some k) outs \<Longrightarrow> ok c \<Longrightarrow> erased k = erased k0 \<Longrightarrow>
    \<exists>q' key' c'. process_records collect (Some x) [q] (Some (list_key [k])) c acc = Some (q', key', c',
      acc @ (x, Some (list_key [k])) # map (\<lambda>(y, es). (f y (scalar_datum A binary d), Some (list_key [path_fill Ls (TPath es) k0]))) outs)"
proof (induction outs arbitrary: q k c x acc)
  case Nil
  obtain q' k' c' where "hdql__query_yield q (Some k) c = Some (None, q', Some k', c')"
    using arith_collection.op_yield [OF C Nil(1,2)] by auto
  from link_get [OF this] show ?case
    by (subst process_records.simps) (simp add: collect_def process_records.simps)
next
  case (Cons o1 outs)
  obtain y es where o1: "o1 = (y, es)" by (cases o1)
  obtain q' c' where y: "hdql__query_yield q (Some k) c =
      Some (Some (f y (scalar_datum A binary d)), q', Some (path_fill Ls (TPath es) k), c')" "ok c'"
    "arith_collection.op_left types ev ok Ls A binary n d mem q' (Some (path_fill Ls (TPath es) k)) outs"
    using arith_collection.op_yield [OF C Cons.prems(1,2)] unfolding o1 by auto
  have fill: "path_fill Ls (TPath es) k = path_fill Ls (TPath es) k0"
    by (rule arith_collection.fill_again [OF C Cons.prems(3)])
  have "erased (path_fill Ls (TPath es) k) = erased k0"
    using arith_collection.fill_shape [OF C] Cons.prems(3) by simp
  from Cons.IH [OF y(3,2) this, of "f y (scalar_datum A binary d)" "acc @ [(x, Some (list_key [k]))]"]
  obtain q2 key2 c2 where "process_records collect (Some (f y (scalar_datum A binary d))) [q']
      (Some (list_key [path_fill Ls (TPath es) k])) c' (acc @ [(x, Some (list_key [k]))]) =
    Some (q2, key2, c2, (acc @ [(x, Some (list_key [k]))]) @ (f y (scalar_datum A binary d), Some (list_key [path_fill Ls (TPath es) k])) #
      map (\<lambda>(y, es). (f y (scalar_datum A binary d), Some (list_key [path_fill Ls (TPath es) k0]))) outs)" by blast
  then show ?case
    by (subst process_records.simps) (simp add: collect_def link_get [OF y(1)] o1 fill)
qed

text \<open>
  C11: Where the collection has data for the owner and the operation is defined on each of them with
  the scalar argument, a query on the operation gives the records of the collection, in its order and
  with its keys, each datum replaced by the operation's result on it and on the scalar argument.
\<close>

theorem operation_records:
  assumes "arith_collection types ev ok Ls A binary n f d" "chain_ready Ls qs" "list_fits Ls k" "ok c"
    and "qa_interface (q_ad q) = IfCollection (hdql_gCollectionArithOpIFace types mem)" "q_state q = None"
      "arith_data_ok ev A binary n (qa_definitionData (q_ad q))" "coll_arg (qa_definitionData (q_ad q)) n = Some qs"
  shows "query_records [q] d (Some (list_key [k])) c =
    map_option (map (\<lambda>(x, k). (f x (scalar_datum A binary d), Some (list_key [the k])))) (query_records qs d (Some k) c)"
proof -
  note C = assms(1)
  have null: "d = None \<longrightarrow> lv_null (hd Ls)" using arith_collection.owner [OF C] by blast
  have F: "forwarded_chain Some (\<lambda>qs _. qs) ok Ls" using C by (simp add: arith_collection_def)
  obtain y es outs where e: "chain_elems Ls d = (y, es) # outs"
    using arith_collection.some [OF C] by (cases "chain_elems Ls d") auto
  have "arith_collection.op_here types ev A binary n mem q qs"
    using assms(5,7,8) by (simp add: arith_collection.op_here_def [OF C])
  from arith_collection.op_reset [OF C this assms(6,2-4) e] obtain q' c' where
    r: "hdql__query_reset q d (Some k) c =
        Some (Some (f y (scalar_datum A binary d)), q', Some (path_fill Ls (TPath es) k), c')" "ok c'"
    "arith_collection.op_left types ev ok Ls A binary n d mem q' (Some (path_fill Ls (TPath es) k)) outs" by blast
  from op_records_left [OF C r(3,2) arith_collection.fill_shape [OF C], of _ "[]"]
  have "query_records [q] d (Some (list_key [k])) c = Some (map (\<lambda>(x, es). (f x (scalar_datum A binary d),
      Some (list_key [path_fill Ls (TPath es) k]))) (chain_elems Ls d))"
    using link_reset [OF r(1)] by (fastforce simp: query_records_def e)
  then show ?thesis
    by (simp add: chain_records [OF F assms(2-4) null] o_def split_beta)
qed

section \<open>Comparisons of integers\<close>

text \<open>The evaluator the standard operations have for a comparison, with the standard table of types.\<close>

definition comparison :: "(int \<Rightarrow> int \<Rightarrow> bool) \<Rightarrow> c_type \<Rightarrow> c_type \<Rightarrow> int hdql_OperationEvaluator" where
  "comparison g t1 t2 = \<lparr>oe_returnType = 512, oe_op = implement_comparison_op g t1 t2\<rparr>"

lemma std_bool:
  "get_code_by_name std_table ''hdql_Bool_t'' = 512"
  "(case get_by_code std_table 512 of Some (Some i) \<Rightarrow> ti_size i = 1 \<and> Option.is_none (ti_init i) \<and> Option.is_none (ti_destroy i) | _ \<Rightarrow> False)"
  by code_simp+

definition std_sized :: "tcode \<Rightarrow> bool" where
  "std_sized tc = (case get_by_code std_table tc of
     Some (Some i) \<Rightarrow> ti_size i > 0 \<and> Option.is_none (ti_init i) \<and> Option.is_none (ti_destroy i) | _ \<Rightarrow> False)"

lemma std_sized_codes: "std_sized 512" "std_sized 517" "std_sized 518" "std_sized 519"
  by code_simp+

lemma std_memory:
  assumes "std_sized (oe_returnType ev)"
  shows "operation_memory (Some std_table) ev no_oom"
proof
  obtain i where i: "get_by_code std_table (oe_returnType ev) = Some (Some i)" "ti_size i > 0" "ti_init i = None"
    using assms by (auto simp: std_sized_def Option.is_none_def split: option.splits)
  fix c assume c: "no_oom c"
  then show "\<exists>a c'. ctx_alloc c = (Some a, c') \<and> no_oom c'" by (rule no_oom_alloc) auto
  from c show "\<exists>a c'. hdql_create_value (Some std_table) (oe_returnType ev) c = Some (Some a, c') \<and> no_oom c'"
    by (rule no_oom_alloc) (use i in \<open>simp add: hdql_create_value_def\<close>)
  show "no_oom (hdql_context_err_push e c)" for e using c by (simp add: no_oom_def)
qed

lemma std_bool_item:
  obtains i where "get_by_code std_table 512 = Some (Some i)" "ti_size i = 1" "ti_init i = None" "ti_destroy i = None"
  using std_bool(2) by (auto split: option.splits simp: Option.is_none_def)

lemma comparison_memory: "operation_memory (Some std_table) (comparison g t1 t2) no_oom"
  by (rule std_memory) (simp add: comparison_def std_sized_codes)

type_synonym int_contents = "int \<Rightarrow> (int \<times> bytes) list"

definition items_level :: "int_contents \<Rightarrow> (int, int cpp_iterator, 'a, bytes) tlevel" where
  "items_level items = container_level (stl_iface (\<lambda>i. i) Some (\<lambda>d. map (\<lambda>(x, v). (Some x, v)) (items d))) (\<lambda>i. i)
     (\<lambda>d. map (\<lambda>(x, v). (Some x, v)) (items d)) (\<lambda>_ _. True) (\<lambda>_. True) None"

definition field_level :: "(int \<Rightarrow> int) \<Rightarrow> (int, int cpp_iterator, 'a, bytes) tlevel" where
  "field_level m = scalar_level (member_iface m) (\<lambda>_. True) (map_option m) False"

lemma int_levels: "query_level (items_level items) no_oom" "query_level (field_level m) ok"
  "lv_shape (items_level items) = erased" "lv_shape (field_level m) = erased"
  "lv_null (items_level items) = False" "lv_null (field_level m) = False"
  unfolding items_level_def field_level_def level_shapes
  by (rule stl.lev.query_level_axioms member.lev.query_level_axioms refl)+
    (simp_all add: container_level_def scalar_level_def Let_def)

lemma field_outs: "ag_outs (chain_arg ok [field_level m]) d = (case d of None \<Rightarrow> [] | Some x \<Rightarrow> [m x])"
  by (simp add: chain_arg_def keyless_def chain_outs_def expand_def field_level_def scalar_level_def split: option.split)

lemma field_null: "ag_null (chain_arg ok [field_level m]) = False"
  by (simp add: chain_arg_def int_levels)

lemma map_each: "map (\<lambda>j. g (xs ! j)) [0..<length xs] = map g xs"
  by (rule nth_equalityI) simp_all

lemma items_elems: "chain_elems [items_level items] (Some d) = map (\<lambda>(x, v). (x, [TKey v])) (items d)"
  using map_each [of "\<lambda>c. (the (fst c), [TKey (snd c)])" "map (\<lambda>(x, v). (Some x, v)) (items d)"]
  by (simp add: chain_elems_def forwarded_outs items_level_def container_level_def elements_def Let_def o_def split_beta del: nth_map)

text \<open>
  Any container, empty or not for other owners, with a member of the owner beside it, and any
  evaluator that is defined on what they hold.
\<close>

lemma int_collection:
  assumes "operation_memory (Some std_table) ev no_oom" "items d \<noteq> []"
    and "\<And>x v r. (x, v) \<in> set (items d) \<Longrightarrow> \<exists>rc. oe_op ev (Some x) (Some (m d)) (Some r) = Some (rc, f x (Some (m d)))"
  shows "arith_collection (Some std_table) ev no_oom [items_level items] (chain_arg no_oom [field_level m]) True False f (Some d)"
proof (intro arith_collection.intro assms(1))
  show "forwarded_chain Some (\<lambda>qs _. qs) no_oom [items_level items]"
    by unfold_locales (simp_all add: int_levels)
  show "arith_collection_axioms ev no_oom [items_level items] (chain_arg no_oom [field_level m]) True False f (Some d)"
    by unfold_locales (use assms(2,3) in \<open>auto simp: chain.query_arg_axioms field_outs int_levels items_elems field_null
      scalar_datum_def apply_op_def\<close>)
qed

text \<open>Comparisons are defined on all integers, sums of unsigned ones too.\<close>

definition unsigned_sum :: "int hdql_OperationEvaluator" where
  "unsigned_sum = \<lparr>oe_returnType = 518, oe_op = implement_arith_op c_add CUI32 CUI32\<rparr>"

definition signed_sum :: "int hdql_OperationEvaluator" where
  "signed_sum = \<lparr>oe_returnType = 517, oe_op = implement_arith_op c_add CI32 CI32\<rparr>"

lemma sum_traits: "ArithmeticOpTraits CUI32 CUI32 = Some CUI32" "ArithmeticOpTraits CI32 CI32 = Some CI32"
  by code_simp+

interpretation sum_each: arith_collection "Some std_table" unsigned_sum no_oom "[items_level (items(d := x0 # xs))]"
    "chain_arg no_oom [field_level m]" True False "\<lambda>x s. (x + the s) mod 2 ^ 32" "Some d"
  for items d x0 xs m
  by (rule int_collection [OF std_memory])
    (auto simp: unsigned_sum_def std_sized_codes implement_arith_op_def sum_traits c_add_def c_arith_def c_eval_def c_usual_def
      c_promote_def c_conv_unsigned mod_simps)

interpretation cmp_each: arith_collection "Some std_table" "comparison g t1 t2" no_oom "[items_level (items(d := x0 # xs))]"
    "chain_arg no_oom [field_level m]" True False "\<lambda>x s. of_bool (c_compare g t1 t2 x (the s))" "Some d"
  for g t1 t2 items d x0 xs m
  by (rule int_collection [OF comparison_memory]) (auto simp: comparison_def implement_comparison_op_def)

interpretation cmp: arith_scalar "Some std_table" "comparison g t1 t2" no_oom "chain_arg no_oom [field_level m0]"
    "chain_arg no_oom [field_level m1]" True "\<lambda>x s. of_bool (c_compare g t1 t2 x (the s))"
  for g t1 t2 m0 m1
  by (intro arith_scalar.intro comparison_memory, unfold_locales)
    (auto simp: chain.query_arg_axioms comparison_def implement_comparison_op_def field_outs field_null split: option.splits)

text \<open>
  A comparison of two members, computed as an attribute: a reset of a query on it gives the truth
  value of the C comparison of what the members hold on the owner, and leaves a query fit for another reset.
\<close>

theorem comparison_attribute:
  fixes q :: "(int, int ArithOpScalarState, (int, int cpp_iterator, 'a, bytes) arith_data, 'w) hdql_Query" and c :: hdql_Context
  assumes "ag_valid (chain_arg no_oom [field_level m0]) (ao_arg0 (qa_definitionData (q_ad q)))"
      "ao_arg1 (qa_definitionData (q_ad q)) = Some qs" "ag_valid (chain_arg no_oom [field_level m1]) qs"
      "ao_evaluator (qa_definitionData (q_ad q)) = comparison g t1 t2"
      "qa_interface (q_ad q) = IfScalar (hdql_gScalarArithOpIFace (Some std_table) mem)" "q_state q = None" "no_oom c"
  shows "\<exists>q' c'. hdql__query_reset q (Some d) None c = Some (Some (of_bool (c_compare g t1 t2 (m0 d) (m1 d))), q', None, c') \<and>
    (\<forall>d'. \<exists>q'' c''. hdql__query_reset q' (Some d') None c' = Some (Some (of_bool (c_compare g t1 t2 (m0 d') (m1 d'))), q'', None, c''))"
proof -
  let ?A0 = "chain_arg no_oom [field_level m0 :: (int, int cpp_iterator, 'a, bytes) tlevel]"
  let ?A1 = "chain_arg no_oom [field_level m1 :: (int, int cpp_iterator, 'a, bytes) tlevel]"
  let ?L = "aggregate_level (hdql_gScalarArithOpIFace (Some std_table) mem) (arith_scalar_dd (comparison g t1 t2) ?A0 ?A1 True)
    (\<lambda>st. as_result st \<noteq> None) (arith_scalar_val ?A0 ?A1 True (\<lambda>x s. of_bool (c_compare g t1 t2 x (the s))))
    (ag_null ?A0 \<and> (True \<longrightarrow> ag_null ?A1)) True :: (int, int ArithOpScalarState, (int, int cpp_iterator, 'a, bytes) arith_data, 'w) tlevel"
  have val: "arith_scalar_val ?A0 ?A1 True (\<lambda>x s. of_bool (c_compare g t1 t2 x (the s))) (Some d) =
      Some (of_bool (c_compare g t1 t2 (m0 d) (m1 d)))" for d
    by (simp add: arith_scalar_val_def field_outs)
  have step: "\<exists>q' c'. hdql__query_reset q (Some d) None c = Some (Some (of_bool (c_compare g t1 t2 (m0 d) (m1 d))), q', None, c') \<and>
      lv_valid ?L q' \<and> no_oom c'" if "lv_valid ?L q" "no_oom c" for q c d
    using cmp.agg.agg_reset [OF that, of "Some d"] by (simp add: val)
  have "lv_valid ?L q" using assms by (simp add: aggregate_level_def arith_scalar_dd_def Let_def)
  from step [OF this assms(7)] obtain q' c' where
    r: "hdql__query_reset q (Some d) None c = Some (Some (of_bool (c_compare g t1 t2 (m0 d) (m1 d))), q', None, c')"
    and q': "lv_valid ?L q'" "no_oom c'" by blast
  have "\<forall>d'. \<exists>q'' c''. hdql__query_reset q' (Some d') None c' = Some (Some (of_bool (c_compare g t1 t2 (m0 d') (m1 d'))), q'', None, c'')"
    using step [OF q'] by blast
  with r show ?thesis by blast
qed

section \<open>Errors and memory\<close>

text \<open>
  An operation on a collection is evaluated on what the collection's reset gives, so with a
  standard binary operation an empty collection ends the program (the assertion on the operand).
\<close>

theorem operation_on_empty:
  assumes "coll_arg dd (ac_collectionNArg st) = Some qs" "hdql_query_reset qs d key c = Some (None, qs', key', c')"
    and "int_impl op t1 t2 = Some f" "oe_op (ao_evaluator dd) = f" "\<not> ac_collectionNArg st \<or> op \<notin> {hdql_kUOpNot, hdql_kUOpBNot, hdql_kUOpMinus}"
  shows "arith_op_collection_iterator_reset (Some st) d dd sel key c = None"
proof -
  have "f None s r = None" "ac_collectionNArg st \<Longrightarrow> f s None r = None" for s r
    using assms(3,5) by (cases op; auto simp: int_impl_def implement_arith_op_def implement_logic_op_def implement_comparison_op_def
      implement_integer_arithmetic_op_def UnaryMinusSpec_op_def T_unary_b_not_def T_unary_l_not_def c_assert_def
      bind_eq_None_conv split: if_splits)+
  then show ?thesis
    using assms(1,2,4) by (auto simp: arith_op_collection_iterator_reset_def eval_op_def Let_def split: bind_splits)
qed

lemma state_exact:
  assumes c: "ctx_wf c" "ctx_alloc c = (Some a, c0)" "new_value (Some vt) mem tc c0 = Some (r, c1)"
    and i: "get_by_code vt tc = Some (Some i)" "ti_size i > 0" "ti_init i = None" "ti_destroy i = None"
  shows "\<exists>c2 c3. free_value (Some vt) tc r c1 = Some c2 \<and> ctx_free (Some a) c2 = Some c3 \<and> ctx_wf c3 \<and> ctx_live c3 = ctx_live c"
proof -
  have wf: "ctx_wf c0" by (rule cx.alloc_inv [of c 1]) (use c in simp_all)
  have fresh: "a \<notin> ctx_live c" using cx.alloc_fresh [of c 1 a c0] c by simp
  have live: "ctx_live c0 = insert a (ctx_live c)" by (rule cx.alloc_exact [of c 1]) (use c in simp_all)
  obtain b c1' c2 where v: "hdql_create_value (Some vt) tc c0 = Some (b, c1')" "ctx_wf c1'"
    "hdql_destroy_value (Some vt) tc b c1' = Some (0, c2)" "ctx_wf c2" "ctx_live c2 = ctx_live c0"
    using create_destroy_value [OF i wf] by blast
  have r: "r = map_option (\<lambda>b. (b, mem b)) b" "c1' = c1" using c(3) v(1) by (auto simp: new_value_def)
  have "free_value (Some vt) tc r c1 = Some (if b = None then c1 else c2)"
    using r v(3) by (cases b) (simp_all add: free_value_def)
  moreover have "ctx_live c1 = ctx_live c0 \<and> ctx_wf c1" if "b = None"
    using v(2,3,5) i r(2) that by (auto simp: hdql_destroy_value_def)
  ultimately obtain c2' where c2': "free_value (Some vt) tc r c1 = Some c2'" "ctx_wf c2'" "ctx_live c2' = ctx_live c0"
    using v(4,5) by (cases "b = None") auto
  moreover obtain c3 where "ctx_free (Some a) c2' = Some c3" "ctx_wf c3" "ctx_live c3 = ctx_live c2' - {a}"
    using cx.free_live [OF c2'(2), of a] c2'(3) live by auto
  ultimately show ?thesis using live fresh by auto
qed

text \<open>
  Destroying the state of an operation, scalar or on a collection, gives back the state and the
  result it owns and nothing else, also when the result could not be allocated.
\<close>

theorem operation_state_exact:
  assumes "ctx_wf c" and i: "get_by_code vt (oe_returnType (ao_evaluator dd)) = Some (Some i)" "ti_size i > 0"
      "ti_init i = None" "ti_destroy i = None"
  shows "(\<forall>st dd1 c1. arith_op_scalar_interface_instantiate (Some vt) mem d dd c = Some (st, dd1, c1) \<longrightarrow>
      (\<exists>c2. arith_op_scalar_interface_destroy (Some vt) st dd1 c1 = Some (dd1, c2) \<and> ctx_wf c2 \<and> ctx_live c2 = ctx_live c)) \<and>
    (\<forall>it dd2 c1. arith_op_new_iterator (Some vt) mem d dd c = Some (it, dd2, c1) \<longrightarrow>
      (\<exists>c2. arith_op_collection_destroy_iterator (Some vt) it dd2 c1 = Some (dd2, c2) \<and> ctx_wf c2 \<and> ctx_live c2 = ctx_live c))"
  using state_exact [OF assms(1) _ _ i]
  by (intro conjI allI impI)
    (fastforce simp: arith_op_scalar_interface_instantiate_def arith_op_scalar_interface_destroy_def arith_op_new_iterator_def
      arith_op_collection_destroy_iterator_def Let_def c_assert_def split: bind_splits prod.splits if_splits)+

section \<open>Samples\<close>

text \<open>The items \<open>d\<close> and \<open>d + 5\<close> of an owner \<open>d\<close>, compared with the member \<open>d + 2\<close>.\<close>

definition int_query :: "(int, int cpp_iterator, unit, bytes) hdql_CollectionAttrInterface \<Rightarrow> (int, int cpp_iterator, unit, bytes) hdql_Query" where
  "int_query iface = \<lparr>q_addr = 1, q_owner = None,
     q_ad = \<lparr>qa_addr = 2, qa_interface = IfCollection iface, qa_definitionData = (), qa_isFwdQuery = False,
       qa_isTransient = False, qa_transient_dtr = None\<rparr>,
     q_ownsSubject = False, q_state = None, q_selectionArgs = None, q_label = None\<rparr>"

definition member_query :: "(int \<Rightarrow> int) \<Rightarrow> (int, int cpp_iterator, unit, bytes) hdql_Query" where
  "member_query m = \<lparr>q_addr = 3, q_owner = None,
     q_ad = \<lparr>qa_addr = 4, qa_interface = IfScalar (member_iface m), qa_definitionData = (), qa_isFwdQuery = False,
       qa_isTransient = False, qa_transient_dtr = None\<rparr>,
     q_ownsSubject = False, q_state = None, q_selectionArgs = None, q_label = None\<rparr>"

definition op_query ::
  "(int, 't, 'b, 'w) ad_interface \<Rightarrow> 'b \<Rightarrow> (int, 't, 'b, 'w) hdql_Query" where
  "op_query iface dd = \<lparr>q_addr = 5, q_owner = None,
     q_ad = \<lparr>qa_addr = 6, qa_interface = iface, qa_definitionData = dd, qa_isFwdQuery = False,
       qa_isTransient = False, qa_transient_dtr = None\<rparr>,
     q_ownsSubject = False, q_state = None, q_selectionArgs = None, q_label = None\<rparr>"

abbreviation two_items :: int_contents where
  "two_items \<equiv> (\<lambda>d. (d, [1]) # [(d + 5, [2])])"

definition items_query :: "(int, int cpp_iterator, unit, bytes) hdql_Query" where
  "items_query = int_query (stl_iface (\<lambda>i. i) Some (\<lambda>d. map (\<lambda>(x, v). (Some x, v)) (two_items d)))"

lemma items_fill: "lv_kf (items_level items) e = key_fill (tag_value e)"
  by (simp add: items_level_def container_level_def Let_def)

lemma items_valid: "lv_valid (items_level two_items) items_query"
  by (simp add: items_level_def container_level_def items_query_def int_query_def Let_def)

lemma field_valid: "ag_valid (chain_arg no_oom [field_level m]) [member_query m]"
proof -
  have "lv_valid (field_level m) (member_query m)"
    by (simp add: field_level_def scalar_level_def member_query_def)
  then show ?thesis
    by (simp add: chain_arg_def keyless_def no_keys_def chain_valid_def klevel_ok_def int_levels key_fits_def resettable_def kshape_def)
qed

definition sample_op ::
  "int hdql_OperationEvaluator \<Rightarrow> (int, int cpp_iterator, unit, bytes) hdql_Query list \<Rightarrow> (int, int cpp_iterator, unit, bytes) arith_data" where
  "sample_op ev qs = \<lparr>ao_arg0 = qs, ao_arg1 = Some [member_query (\<lambda>d. d + 2)], ao_scalar0 = False, ao_scalar1 = True,
     ao_evaluator = ev\<rparr>"

abbreviation less_int32 :: "int hdql_OperationEvaluator" where
  "less_int32 \<equiv> comparison (<) CI32 CI32"

lemma compare_int32: "in_range CI32 a \<Longrightarrow> in_range CI32 b \<Longrightarrow> c_compare g CI32 CI32 a b = g a b"
  by (simp add: c_compare_def c_usual_def c_promote_def c_conv_id)

text \<open>The comparison, and the sum of signed values that do not overflow.\<close>

lemma operation_records_witness:
  "query_records [op_query (IfCollection (hdql_gCollectionArithOpIFace (Some std_table) (\<lambda>_. 0))) (sample_op less_int32 [items_query])]
     (Some 7) (Some (list_key [list_key [sample_key True]])) ctx_roomy =
   Some [(1, Some (list_key [list_key [key_fill [1] (sample_key True)]])), (0, Some (list_key [list_key [key_fill [2] (sample_key True)]]))] \<and>
   query_records [op_query (IfCollection (hdql_gCollectionArithOpIFace (Some std_table) (\<lambda>_. 0))) (sample_op signed_sum [items_query])]
     (Some 7) (Some (list_key [list_key [sample_key True]])) ctx_roomy =
   Some [(16, Some (list_key [list_key [key_fill [1] (sample_key True)]])), (21, Some (list_key [list_key [key_fill [2] (sample_key True)]]))]"
proof -
  let ?k = "list_key [sample_key True]"
  have ready: "chain_ready [items_level two_items] [items_query]" by (simp add: chain_ready_def items_valid)
  have fits: "list_fits [items_level two_items] ?k"
    by (simp add: list_key_def sample_key_def items_level_def container_level_def key_types)
  have c: "no_oom ctx_roomy" by (simp add: ctx_roomy_def no_oom_def)
  have fill: "path_fill [items_level two_items] (TPath [TKey v]) ?k = list_key [key_fill v (sample_key True)]" for v
    by (simp add: path_fill_def list_key_def items_fill)
  have C: "arith_collection (Some std_table) less_int32 no_oom [items_level two_items]
      (chain_arg no_oom [field_level (\<lambda>d. d + 2)]) True False (\<lambda>x s. of_bool (c_compare (<) CI32 CI32 x (the s))) (Some 7)"
    by (rule int_collection [OF comparison_memory]) (simp_all add: comparison_def implement_comparison_op_def)
  have S: "arith_collection (Some std_table) signed_sum no_oom [items_level two_items]
      (chain_arg no_oom [field_level (\<lambda>d. d + 2)]) True False (\<lambda>x s. x + the s) (Some 7)"
    by (rule int_collection [OF std_memory])
      (auto simp: signed_sum_def std_sized_codes implement_arith_op_def sum_traits c_add_def c_arith_def c_eval_def c_usual_def
        c_promote_def c_conv_id in_range_def c_min_def c_max_def)
  have F: "forwarded_chain Some (\<lambda>qs _. qs) no_oom [items_level two_items :: (int, int cpp_iterator, unit, bytes) tlevel]"
    by unfold_locales (simp_all add: int_levels)
  note sample = op_query_def sample_op_def arith_data_ok_def coll_arg_def other_arg_def field_valid field_outs scalar_datum_def
    chain_records [OF F ready fits c] items_elems fill compare_int32 in_range_def c_min_def c_max_def
  show ?thesis
    by (rule conjI; subst operation_records [OF C ready fits c] operation_records [OF S ready fits c]; simp add: sample)
qed

lemma comparison_attribute_witness:
  "map_option fst (hdql__query_reset (op_query (IfScalar (hdql_gScalarArithOpIFace (Some std_table) (\<lambda>_. 0)))
     (sample_op less_int32 [member_query (\<lambda>d. d)])) (Some 7) (None :: bytes hdql_Key option) ctx_roomy) = Some (Some 1)"
proof -
  let ?q = "op_query (IfScalar (hdql_gScalarArithOpIFace (Some std_table) (\<lambda>_. 0))) (sample_op less_int32 [member_query (\<lambda>d. d)])"
  have "no_oom ctx_roomy" by (simp add: ctx_roomy_def no_oom_def)
  then have "\<exists>q' c'. hdql__query_reset ?q (Some 7) (None :: bytes hdql_Key option) ctx_roomy =
      Some (Some (of_bool (c_compare (<) CI32 CI32 7 (7 + 2))), q', None, c') \<and>
    (\<forall>d'. \<exists>q'' c''. hdql__query_reset q' (Some d') None c' =
      Some (Some (of_bool (c_compare (<) CI32 CI32 d' (d' + 2))), q'', None, c''))"
    by (intro comparison_attribute [where ?m0.0 = "\<lambda>d. d" and ?m1.0 = "\<lambda>d. d + 2"
        and qs = "[member_query (\<lambda>d. d + 2)]"])
      (simp_all add: op_query_def sample_op_def field_valid)
  then show ?thesis by (auto simp: compare_int32 in_range_def c_min_def c_max_def)
qed

lemma operation_on_empty_witness:
  "arith_op_collection_iterator_reset (Some \<lparr>ac_addr = 7, ac_collectionNArg = False, ac_scalarDatum = None, ac_cResult = Some (8, 0)\<rparr>)
     (Some 7) (sample_op less_int32 [int_query (stl_iface (\<lambda>i. i) Some (\<lambda>_. []))]) None (None :: bytes hdql_Key option) ctx_roomy = None"
proof -
  let ?L = "items_level (\<lambda>_. []) :: (int, int cpp_iterator, unit, bytes) tlevel"
  let ?qs = "[int_query (stl_iface (\<lambda>i. i) Some (\<lambda>_. []))]"
  have "lv_valid ?L (int_query (stl_iface (\<lambda>i. i) Some (\<lambda>_. [])))"
    by (simp add: items_level_def container_level_def int_query_def Let_def)
  then have v: "ag_valid (chain_arg no_oom [?L]) ?qs"
    by (simp add: chain_arg_def keyless_def no_keys_def chain_valid_def klevel_ok_def int_levels key_fits_def resettable_def kshape_def)
  have c: "no_oom ctx_roomy" by (simp add: ctx_roomy_def no_oom_def)
  have null: "Some 7 = None \<longrightarrow> ag_null (chain_arg no_oom [?L])" by simp
  obtain qs' c' where "hdql_query_reset ?qs (Some 7) None ctx_roomy =
      Some (first (ag_outs (chain_arg no_oom [?L]) (Some 7)), qs', None, c')"
    using chain.reset_gives [OF v c null] by blast
  moreover have "ag_outs (chain_arg no_oom [?L]) (Some 7) = []"
    using items_elems [of "\<lambda>_. []" 7] by (simp add: chain_arg_def keyless_def chain_elems_def)
  ultimately show ?thesis
    by (intro operation_on_empty [where qs = ?qs and op = hdql_kOpLT and ?t1.0 = CI32 and ?t2.0 = CI32])
      (simp_all add: sample_op_def coll_arg_def comparison_def int_impl_def)
qed

lemma operation_state_exact_witness:
  "\<exists>st dd c1 c2. arith_op_new_iterator (Some std_table) (\<lambda>_. 0) (Some 7) (sample_op less_int32 [items_query]) ctx_roomy = Some (st, dd, c1) \<and>
     ctx_live c1 = {9..<16} \<union> {20, 21} \<and>
     arith_op_collection_destroy_iterator (Some std_table) st dd c1 = Some (dd, c2) \<and> ctx_live c2 = {9..<16}"
proof -
  obtain i where i: "get_by_code std_table (oe_returnType (ao_evaluator (sample_op less_int32 [items_query]))) = Some (Some i)"
    "ti_size i > 0" "ti_init i = None" "ti_destroy i = None"
    by (rule std_bool_item) (simp add: sample_op_def comparison_def)
  have "ctx_wf ctx_roomy" by (simp add: ctx_roomy_def ctx_wf_def heap_wf_def)
  note exact = operation_state_exact [OF this i, of "\<lambda>_. 0" "Some 7", THEN conjunct2]
  have "\<exists>st dd c1. arith_op_new_iterator (Some std_table) (\<lambda>_. 0) (Some 7) (sample_op less_int32 [items_query]) ctx_roomy = Some (st, dd, c1) \<and>
      ctx_live c1 = {9..<16} \<union> {20, 21}"
    using i by (auto simp: arith_op_new_iterator_def new_value_def hdql_create_value_def ctx_alloc_malloc heap_malloc_def
        ctx_roomy_def ctx_live_def Let_def sample_op_def comparison_def)
  with exact show ?thesis by (fastforce simp: ctx_live_def ctx_roomy_def)
qed

end
