(* ===== verification/Aggregates.thy ===== *)
theory Aggregates
  imports Arguments ArithOps
begin

text \<open>
  Functions that consume the whole of their argument: \<open>len()\<close> and \<open>empty()\<close>
  (\<open>src/funcs/len.c\<close>).
\<close>

section \<open>The functions\<close>

record 'q LenEmptyFuncDefData_t =
  le_query :: "'q list"

text \<open>The members are not set when the state is made.\<close>

record LenEmptyFuncDynData_t =
  le_addr :: addr
  le_counter :: "u64 option"
  le_isEmpty :: "bool option"

type_synonym ('d, 's, 'a, 'v) len_data = "('d, 's, 'a, 'v) hdql_Query LenEmptyFuncDefData_t"

definition len_empty_new_dyn_data ::
  "'d option \<Rightarrow> 'b \<Rightarrow> hdql_Context \<Rightarrow> (LenEmptyFuncDynData_t option \<times> 'b \<times> hdql_Context) option" where
  "len_empty_new_dyn_data newOwner defData c = (let (p, c) = ctx_alloc c in
     Some (map_option (\<lambda>a. \<lparr>le_addr = a, le_counter = None, le_isEmpty = None\<rparr>) p, defData, c))"

text \<open>What is returned is the address of the member; \<open>of_uint64\<close> and \<open>of_logic\<close> are the data found there.\<close>

definition len_reset ::
  "(u64 \<Rightarrow> 'd) \<Rightarrow> 'd option \<Rightarrow> LenEmptyFuncDynData_t option \<Rightarrow> ('d, 's, 'a, 'v) len_data \<Rightarrow> 'v hdql_Key option \<Rightarrow>
   hdql_Context \<Rightarrow>
   ('d option \<times> LenEmptyFuncDynData_t option \<times> ('d, 's, 'a, 'v) len_data \<times> 'v hdql_Key option \<times> hdql_Context) option"
where
  "len_reset of_uint64 newOwner st defData key c = do {
     dynData \<leftarrow> st;
     (r, qs, key, c) \<leftarrow> hdql_query_reset (le_query defData) newOwner key c;
     (n, qs, c) \<leftarrow> drain (\<lambda>_ n. Some (n + 1)) r qs 0 c;
     Some (Some (of_uint64 n), Some (dynData\<lparr>le_counter := Some n\<rparr>), defData\<lparr>le_query := qs\<rparr>, key, c) }"

definition empty_reset ::
  "(bool \<Rightarrow> 'd) \<Rightarrow> 'd option \<Rightarrow> LenEmptyFuncDynData_t option \<Rightarrow> ('d, 's, 'a, 'v) len_data \<Rightarrow> 'v hdql_Key option \<Rightarrow>
   hdql_Context \<Rightarrow>
   ('d option \<times> LenEmptyFuncDynData_t option \<times> ('d, 's, 'a, 'v) len_data \<times> 'v hdql_Key option \<times> hdql_Context) option"
where
  "empty_reset of_logic newOwner st defData key c = do {
     dynData \<leftarrow> st;
     let dynData = dynData\<lparr>le_counter := Some 0, le_isEmpty := Some True\<rparr>;
     (r, qs, key, c) \<leftarrow> hdql_query_reset (le_query defData) newOwner key c;
     let isEmpty = (r = None);
     Some (Some (of_logic isEmpty), Some (dynData\<lparr>le_isEmpty := Some isEmpty\<rparr>), defData\<lparr>le_query := qs\<rparr>, key, c) }"

definition len_empty_destroy ::
  "LenEmptyFuncDynData_t option \<Rightarrow> 'b \<Rightarrow> hdql_Context \<Rightarrow> ('b \<times> hdql_Context) option" where
  "len_empty_destroy st defData c = (case st of
     None \<Rightarrow> Some (defData, c)
   | Some dynData \<Rightarrow> do { c \<leftarrow> ctx_free (Some (le_addr dynData)) c; Some (defData, c) })"

definition len_iface ::
  "(u64 \<Rightarrow> 'd) \<Rightarrow> ('d, LenEmptyFuncDynData_t, ('d, 's, 'a, 'v) len_data, 'v) hdql_ScalarAttrInterface" where
  "len_iface of_uint64 = \<lparr>si_new_dyn_data = Some len_empty_new_dyn_data, si_reset = len_reset of_uint64,
     si_destroy_dyn_data = Some len_empty_destroy\<rparr>"

definition empty_iface ::
  "(bool \<Rightarrow> 'd) \<Rightarrow> ('d, LenEmptyFuncDynData_t, ('d, 's, 'a, 'v) len_data, 'v) hdql_ScalarAttrInterface" where
  "empty_iface of_logic = \<lparr>si_new_dyn_data = Some len_empty_new_dyn_data, si_reset = empty_reset of_logic,
     si_destroy_dyn_data = Some len_empty_destroy\<rparr>"

text \<open>The static side: the queries the definition data owns, and the constructor.\<close>

definition transient_dtr_len_empty :: "q_link list \<Rightarrow> addr option \<Rightarrow> hdql_Context \<Rightarrow> hdql_Context option" where
  "transient_dtr_len_empty q dd c = (case dd of
     None \<Rightarrow> Some c
   | Some a \<Rightarrow> do { c \<leftarrow> hdql_query_destroy q c; ctx_free (Some a) c })"

definition hdql_func_helper_try_len_empty ::
  "q_link list list \<Rightarrow> char \<Rightarrow> 'i types_table \<Rightarrow> hdql_Context \<Rightarrow> ((string + hdql_AttrDef option) \<times> hdql_Context) option"
where
  "hdql_func_helper_try_len_empty args nm types c = do {
     c_assert (nm = CHR ''e'' \<or> nm = CHR ''l'');
     (case args of
        [] \<Rightarrow> Some (Inl ''empty argument, one expected'', c)
      | q # others \<Rightarrow>
          if others \<noteq> [] then Some (Inl ''multiple arguments, one expected'', c)
          else do {
            scalar \<leftarrow> hdql_query_is_fully_scalar q;
            if scalar then Some (Inl ''scalar argument'', c)
            else do {
              let (p, c) = ctx_alloc c;
              dd \<leftarrow> p;
              let tc = get_code_by_name types (if nm = CHR ''l'' then ''uint64_t'' else ''bool'');
              c_assert (tc \<noteq> 0);
              (r, c) \<leftarrow> hdql_attr_def_create_atomic_scalar (Some \<lparr>at_isReadOnly = True, at_arithTypeCode = ucast tc\<rparr>)
                (Some (ScClient (Some (\<lambda>_ s c. ctx_free s c)), DefDatum dd)) 0 None c;
              Some (Inr (map_option (\<lambda>r. hdql_attr_def_set_transient r (Some (TdClient (transient_dtr_len_empty q)))) r), c) } }) }"

section \<open>Length and emptiness of a chain\<close>

definition len_dd_ok :: "(('d, 's, 'a, 'v) hdql_Query, 'd) argument \<Rightarrow> ('d, 's, 'a, 'v) len_data \<Rightarrow> bool" where
  "len_dd_ok A dd \<longleftrightarrow> ag_valid A (le_query dd)"

lemma count_outs: "ofold (\<lambda>_ n. Some (n + 1)) xs (n :: u64) = Some (n + of_nat (length xs))"
  by (induction xs arbitrary: n) (auto simp: algebra_simps)

lemma len_empty_new:
  assumes "no_oom c"
  shows "\<exists>st c'. len_empty_new_dyn_data d dd c = Some (Some st, dd, c') \<and> no_oom c'"
  by (rule no_oom_alloc [OF assms]) (simp add: len_empty_new_dyn_data_def)

interpretation chain_len: aggregate "len_iface of_uint64" "len_dd_ok (chain_arg no_oom Ls)" "\<lambda>_. True"
    "\<lambda>d. Some (of_uint64 (of_nat (length (chain_outs (keyless Ls) d))))" no_oom "lv_null (hd Ls)" False
  for of_uint64 Ls
proof
  fix dd :: "('a, 'b, 'c, 'd) len_data" and st d c and key :: "'d hdql_Key option"
  let ?A = "chain_arg no_oom Ls"
  have len: "length (ag_outs ?A d) = length (chain_outs (keyless Ls) d)" "ag_null ?A = lv_null (hd Ls)"
    by (simp_all add: chain_arg_def)
  assume "len_dd_ok ?A dd" "no_oom c" "d = None \<longrightarrow> lv_null (hd Ls)" and key: "key = None \<or> False"
  then obtain qs1 c1 where r: "hdql_query_reset (le_query dd) d None c = Some (first (ag_outs ?A d), qs1, None, c1)" "no_oom c1"
    "if ag_outs ?A d = [] then ag_valid ?A qs1 else ag_pending ?A qs1 (tl (ag_outs ?A d))"
    using chain.reset_gives [of no_oom Ls "le_query dd" c d] len(2) by (auto simp: len_dd_ok_def)
  from chain.drain_outs [OF r(3,2) count_outs [of _ 0]] obtain qs2 c2 where
    "drain (\<lambda>_ n. Some (n + 1)) (first (ag_outs ?A d)) qs1 0 c1 = Some (of_nat (length (ag_outs ?A d)) :: u64, qs2, c2)"
    "no_oom c2" "ag_valid ?A qs2" by auto
  with r(1) show "\<exists>st' dd' c'. si_reset (len_iface of_uint64) d (Some st) dd key c =
      Some (Some (of_uint64 (of_nat (length (chain_outs (keyless Ls) d)))), Some st', dd', key, c') \<and>
      len_dd_ok ?A dd' \<and> True \<and> no_oom c'"
    using key by (simp add: len_iface_def len_reset_def len_dd_ok_def len(1))
qed (simp add: len_iface_def, erule len_empty_new)

interpretation chain_empty: aggregate "empty_iface of_logic" "len_dd_ok (chain_arg no_oom Ls)" "\<lambda>_. True"
    "\<lambda>d. Some (of_logic (chain_outs (keyless Ls) d = []))" no_oom "lv_null (hd Ls)" False
  for of_logic Ls
proof
  fix dd :: "('a, 'b, 'c, 'd) len_data" and st d c and key :: "'d hdql_Key option"
  let ?A = "chain_arg no_oom Ls"
  have outs: "ag_outs ?A d = [] \<longleftrightarrow> chain_outs (keyless Ls) d = []" "ag_null ?A = lv_null (hd Ls)"
    by (simp_all add: chain_arg_def)
  assume "len_dd_ok ?A dd" and c: "no_oom c" and "d = None \<longrightarrow> lv_null (hd Ls)" and key: "key = None \<or> False"
  then have v: "ag_valid ?A (le_query dd)" and null: "d = None \<longrightarrow> ag_null ?A" using outs(2) by (simp_all add: len_dd_ok_def)
  from chain.reset_first [OF v c null] obtain qs1 c1 where "hdql_query_reset (le_query dd) d None c = Some (first (ag_outs ?A d), qs1, None, c1)" "no_oom c1"
    "ag_valid ?A qs1"
    by metis
  then show "\<exists>st' dd' c'. si_reset (empty_iface of_logic) d (Some st) dd key c =
      Some (Some (of_logic (chain_outs (keyless Ls) d = [])), Some st', dd', key, c') \<and>
      len_dd_ok ?A dd' \<and> True \<and> no_oom c'"
    using key by (simp add: empty_iface_def empty_reset_def len_dd_ok_def outs(1) Let_def)
qed (simp add: empty_iface_def, erule len_empty_new)

text \<open>
  C27: A query on \<open>len()\<close> of a chain has one record, the number of data the chain enumerates modulo
  \<open>2 ^ 64\<close>, and a query on \<open>empty()\<close> one, whether there are none.
\<close>

theorem len_empty_records:
  assumes "chain_valid no_oom (keyless Ls) qs (no_keys Ls)" "no_oom c" "d = None \<longrightarrow> lv_null (hd Ls)"
    and "qa_interface (q_ad q) = IfScalar (len_iface of_uint64)" "le_query (qa_definitionData (q_ad q)) = qs" "q_state q = None"
    and "qa_interface (q_ad p) = IfScalar (empty_iface of_logic)" "le_query (qa_definitionData (q_ad p)) = qs" "q_state p = None"
  shows "query_records [q] d None c = Some [(of_uint64 (of_nat (length (chain_outs (keyless Ls) d))), None)] \<and>
    query_records [p] d None c = Some [(of_logic (chain_outs (keyless Ls) d = []), None)]"
proof -
  have "len_dd_ok (chain_arg no_oom Ls) (qa_definitionData (q_ad q))" "len_dd_ok (chain_arg no_oom Ls) (qa_definitionData (q_ad p))"
    using assms(1,5,8) by (simp_all add: len_dd_ok_def chain_arg_def)
  with aggregate_records [OF chain_len.aggregate_axioms assms(4) _ assms(6,2,3)]
    aggregate_records [OF chain_empty.aggregate_axioms assms(7) _ assms(9,2,3)]
  show ?thesis by simp
qed

section \<open>The constructor\<close>

text \<open>
  \<open>len()\<close> and \<open>empty()\<close> take one argument that is not fully scalar, and refuse any other number or
  kind with the memory untouched. The definition they make is a transient scalar of the type
  \<open>uint64_t\<close> or \<open>bool\<close> that owns the argument: destroying it frees the definition, its data and the
  blocks of the argument, and nothing else.
\<close>

theorem try_len_empty_spec:
  assumes "nm \<in> {CHR ''e'', CHR ''l''}" "get_code_by_name types (if nm = CHR ''l'' then ''uint64_t'' else ''bool'') = tc" "tc \<noteq> 0"
    and "ctx_wf c" "no_oom c" "q_ok q" "distinct (q_blocks q)" "set (q_blocks q) \<subseteq> ctx_live c"
    and "hdql_query_is_fully_scalar q = Some scalar"
  shows "(\<exists>e. hdql_func_helper_try_len_empty [] nm types c = Some (Inl e, c)) \<and>
    (\<exists>e. hdql_func_helper_try_len_empty (q # q2 # qs) nm types c = Some (Inl e, c)) \<and>
    (if scalar then \<exists>e. hdql_func_helper_try_len_empty [q] nm types c = Some (Inl e, c)
     else \<exists>ad c1 c2. hdql_func_helper_try_len_empty [q] nm types c = Some (Inr (Some ad), c1) \<and>
       hdql_attr_def_is_scalar ad \<and> hdql_attr_def_get_atomic_value_type_code ad = Some (ucast tc) \<and>
       hdql_attr_def_destroy ad c1 = Some c2 \<and> ctx_wf c2 \<and> ctx_live c2 = ctx_live c - set (q_blocks q))"
proof -
  obtain dd c0 where d: "ctx_alloc c = (Some dd, c0)" "no_oom c0" using no_oom_alloc [OF assms(5)] by blast
  obtain a c1 where a: "ctx_alloc c0 = (Some a, c1)" using no_oom_alloc [OF d(2)] by blast
  have c0: "ctx_wf c0" "dd \<notin> ctx_live c" "ctx_live c0 = insert dd (ctx_live c)"
    using cx.alloc_inv [of c 1] cx.alloc_fresh [of c 1 dd c0] cx.alloc_exact [of c 1] d(1) assms(4) by simp_all
  have c1: "ctx_wf c1" "a \<notin> ctx_live c0" "ctx_live c1 = insert a (ctx_live c0)"
    using cx.alloc_inv [of c0 1] cx.alloc_fresh [of c0 1 a c1] cx.alloc_exact [of c0 1] a c0(1) by simp_all
  let ?ad = "AttrDef a True False False 0 True 0 (AdScalar (ScClient (Some (\<lambda>_ s c. ctx_free s c)))) (DefDatum dd) None
    (TiAtomic \<lparr>at_isReadOnly = True, at_arithTypeCode = ucast tc\<rparr>) (Some (TdClient (transient_dtr_len_empty q)))"
  have make: "hdql_func_helper_try_len_empty [q] nm types c = Some (Inr (Some ?ad), c1)" if "\<not> scalar"
    using that assms(1-3,9) d(1) a by (auto simp: hdql_func_helper_try_len_empty_def hdql_attr_def_create_atomic_scalar_def Let_def)
  have "hdql_attr_def_destroy ?ad c1 = cx.free_list (q_blocks q @ [dd, a]) c1"
    by (simp add: transient_dtr_len_empty_def destroy_is_free_list(2) [OF assms(6)] cx.free_list_append)
  moreover have "distinct (q_blocks q @ [dd, a])" "set (q_blocks q @ [dd, a]) \<subseteq> ctx_live c1"
    using assms(7,8) c0(2,3) c1(2,3) by auto
  ultimately obtain c2 where c2: "hdql_attr_def_destroy ?ad c1 = Some c2" "ctx_wf c2"
    "ctx_live c2 = ctx_live c1 - set (q_blocks q @ [dd, a])"
    using cx.moved_free_list [OF c1(1) _ _ subset_refl, of "q_blocks q @ [dd, a]"] by (auto simp: cx.moved_def)
  moreover have "ctx_live c2 = ctx_live c - set (q_blocks q)" using c2(3) c0(2,3) c1(2,3) by auto
  moreover have "hdql_attr_def_get_atomic_value_type_code ?ad = Some (ucast tc)" "hdql_attr_def_is_scalar ?ad"
    by (simp_all add: hdql_attr_def_get_atomic_value_type_code_def hdql_attr_def_is_scalar_def)
  moreover have "hdql_func_helper_try_len_empty [q] nm types c = Some (Inl ''scalar argument'', c)" if scalar
    using that assms(1,9) by (auto simp: hdql_func_helper_try_len_empty_def)
  moreover have "hdql_func_helper_try_len_empty [] nm types c = Some (Inl ''empty argument, one expected'', c)"
    "hdql_func_helper_try_len_empty (q # q2 # qs) nm types c = Some (Inl ''multiple arguments, one expected'', c)"
    using assms(1) by (auto simp: hdql_func_helper_try_len_empty_def)
  ultimately show ?thesis using make by (cases scalar) auto
qed

section \<open>Samples\<close>

definition len_query :: "(int, LenEmptyFuncDynData_t, (int, int cpp_iterator, unit, bytes) len_data, bytes) hdql_Query" where
  "len_query = op_query (IfScalar (len_iface uint)) \<lparr>le_query = [items_query]\<rparr>"

definition empty_query :: "(int, LenEmptyFuncDynData_t, (int, int cpp_iterator, unit, bytes) len_data, bytes) hdql_Query" where
  "empty_query = op_query (IfScalar (empty_iface of_bool)) \<lparr>le_query = [items_query]\<rparr>"

lemma items_chain:
  "chain_valid no_oom (keyless [items_level two_items]) [items_query] (no_keys [items_level two_items])"
  by (simp add: keyless_def no_keys_def chain_valid_def klevel_ok_def int_levels key_fits_def resettable_def kshape_def items_valid)

lemma len_empty_records_witness:
  "query_records [len_query] (Some 7) None ctx_roomy = Some [(2, None)] \<and>
   query_records [empty_query] (Some 7) None ctx_roomy = Some [(0, None)]"
proof -
  let ?Ls = "[items_level two_items] :: (int, int cpp_iterator, unit, bytes) tlevel list"
  have outs: "chain_outs (keyless ?Ls) (Some 7) = [(7, [TKey [1]]), (12, [TKey [2]])]"
    using items_elems [of two_items 7] by (simp add: chain_elems_def keyless_def)
  have "query_records [len_query] (Some 7) None ctx_roomy = Some [(uint (of_nat (length (chain_outs (keyless ?Ls) (Some 7))) :: u64), None)] \<and>
      query_records [empty_query] (Some 7) None ctx_roomy = Some [(of_bool (chain_outs (keyless ?Ls) (Some 7) = []), None)]"
    by (rule len_empty_records [OF items_chain]) (simp_all add: ctx_roomy_def no_oom_def len_query_def empty_query_def op_query_def)
  then show ?thesis by (simp add: outs)
qed

lemma std_uint64: "get_code_by_name std_table ''uint64_t'' = 520"
  using std_table_codes(1) by (simp add: arith_names_def)

lemma try_len_empty_spec_witness:
  "\<exists>ad c1 c2. hdql_func_helper_try_len_empty [q_sample] CHR ''l'' std_table ctx_roomy = Some (Inr (Some ad), c1) \<and>
     hdql_attr_def_get_atomic_value_type_code ad = Some 520 \<and>
     hdql_attr_def_destroy ad c1 = Some c2 \<and> ctx_live c2 = {15}"
proof -
  have blocks: "q_blocks q_sample = [10, 14, 13, 12, 11, 9]" by (simp add: q_samples state_blocks_def)
  have ok: "q_ok q_sample" by (simp add: q_samples state_ok_def frees_object_def)
  have "hdql_query_is_fully_scalar q_sample = Some False" by (simp add: q_samples)
  moreover have "ctx_wf ctx_roomy" "no_oom ctx_roomy" "ctx_live ctx_roomy = {9..<16}"
    by (simp_all add: ctx_roomy_def ctx_wf_def heap_wf_def no_oom_def ctx_live_def)
  ultimately have "\<exists>ad c1 c2. hdql_func_helper_try_len_empty [q_sample] CHR ''l'' std_table ctx_roomy = Some (Inr (Some ad), c1) \<and>
      hdql_attr_def_is_scalar ad \<and> hdql_attr_def_get_atomic_value_type_code ad = Some (ucast (520 :: tcode)) \<and>
      hdql_attr_def_destroy ad c1 = Some c2 \<and> ctx_wf c2 \<and> ctx_live c2 = ctx_live ctx_roomy - set (q_blocks q_sample)"
    using try_len_empty_spec [OF _ _ _ _ _ ok, of "CHR ''l''" std_table 520 ctx_roomy False]
    by (simp add: std_uint64 blocks)
  then show ?thesis by (force simp: blocks ctx_roomy_def ctx_live_def)
qed

end
