(* ===== verification/Filters.thy ===== *)
theory Filters
  imports Aggregates Converters
begin

text \<open>
  The filter of a virtual compound (\<open>src/ifaces/filtered-v-compound.c\<close>): an attribute that gives its
  owner if the filter query, evaluated on it and converted to a logic value, is true. The definition
  data is the query; what its links are is kept beside it. \<open>types\<close> and \<open>cnvs\<close> are the tables of
  types and of converters of the context (whose look-up may sort the table, which changes none);
  \<open>convert\<close> runs a converter, \<open>as_logic\<close> reads a logic value.
\<close>

record ('d, 's, 'a, 'v) filter_data =
  fv_query :: "('d, 's, 'a, 'v) hdql_Query list"
  fv_links :: "q_link list"

record ('i, 'f) FilteredVCompoundState =
  fs_addr :: addr
  fs_vi :: "'i type_interface option"
  fs_logicResult :: "bool option"
  fs_toLogicConverter :: "'f option"

definition filtered_compound_scalar_interface_instantiate ::
  "'i types_table \<Rightarrow> 'f hdql_Converters \<Rightarrow> 'd option \<Rightarrow> ('d, 's, 'a, 'v) filter_data \<Rightarrow> hdql_Context \<Rightarrow>
   (('i, 'f) FilteredVCompoundState option \<times> ('d, 's, 'a, 'v) filter_data \<times> hdql_Context) option"
where
  "filtered_compound_scalar_interface_instantiate types cnvs ownerDatum defData c = do {
     let (p, c) = ctx_alloc c;
     a \<leftarrow> p;
     ad \<leftarrow> hdql_query_top_attr (fv_links defData);
     c_assert (hdql_attr_def_is_atomic ad);
     c_assert (hdql_attr_def_is_scalar ad);
     tc \<leftarrow> hdql_attr_def_get_atomic_value_type_code ad;
     let valueTCode = ucast tc;
     vi \<leftarrow> hdql_types_get_type types valueTCode;
     let logicCode = hdql_types_get_type_code types ''hdql_Bool_t'';
     c_assert (logicCode \<noteq> 0);
     let state = \<lparr>fs_addr = a, fs_vi = vi, fs_logicResult = None, fs_toLogicConverter = None\<rparr>;
     if logicCode \<noteq> valueTCode then do {
       (cv, _) \<leftarrow> hdql_converters_get cnvs logicCode valueTCode;
       if cv = None then do {
         _ \<leftarrow> vi;
         let c = hdql_context_err_push HDQL_ERR_CONVERSION c;
         c \<leftarrow> ctx_free (Some a) c;
         Some (None, defData, c) }
       else Some (Some (state\<lparr>fs_toLogicConverter := cv\<rparr>), defData, c) }
     else Some (Some state, defData, c) }"

definition filter_logic :: "('f \<Rightarrow> 'd \<Rightarrow> int \<times> 'd) \<Rightarrow> ('d \<Rightarrow> bool) \<Rightarrow> 'f option \<Rightarrow> 'd \<Rightarrow> bool option" where
  "filter_logic convert as_logic toLogicConverter r = (case toLogicConverter of
     None \<Rightarrow> Some (as_logic r)
   | Some f \<Rightarrow> (let (rc, l) = convert f r in do { c_assert (rc = 0); Some (as_logic l) }))"

definition filtered_compound_scalar_interface_reset ::
  "('f \<Rightarrow> 'd \<Rightarrow> int \<times> 'd) \<Rightarrow> ('d \<Rightarrow> bool) \<Rightarrow> 'd option \<Rightarrow> ('i, 'f) FilteredVCompoundState option \<Rightarrow>
   ('d, 's, 'a, 'v) filter_data \<Rightarrow> 'w hdql_Key option \<Rightarrow> hdql_Context \<Rightarrow>
   ('d option \<times> ('i, 'f) FilteredVCompoundState option \<times> ('d, 's, 'a, 'v) filter_data \<times> 'w hdql_Key option \<times> hdql_Context) option"
where
  "filtered_compound_scalar_interface_reset convert as_logic newOwner st defData key c = do {
     s \<leftarrow> st;
     (r, qs, _, c) \<leftarrow> hdql_query_reset (fv_query defData) newOwner None c;
     let defData = defData\<lparr>fv_query := qs\<rparr>;
     case r of
       None \<Rightarrow> Some (None, Some s, defData, key, c)
     | Some r \<Rightarrow> do {
         logic \<leftarrow> filter_logic convert as_logic (fs_toLogicConverter s) r;
         Some (if logic then newOwner else None, Some (s\<lparr>fs_logicResult := Some logic\<rparr>), defData, key, c) } }"

definition filtered_compound_scalar_interface_destroy ::
  "('i, 'f) FilteredVCompoundState option \<Rightarrow> 'b \<Rightarrow> hdql_Context \<Rightarrow> ('b \<times> hdql_Context) option" where
  "filtered_compound_scalar_interface_destroy st defData c = do {
     c \<leftarrow> ctx_free (map_option fs_addr st) c; Some (defData, c) }"

definition hdql_gFilteredCompoundIFace ::
  "'i types_table \<Rightarrow> 'f hdql_Converters \<Rightarrow> ('f \<Rightarrow> 'd \<Rightarrow> int \<times> 'd) \<Rightarrow> ('d \<Rightarrow> bool) \<Rightarrow>
   ('d, ('i, 'f) FilteredVCompoundState, ('d, 's, 'a, 'v) filter_data, 'w) hdql_ScalarAttrInterface"
where
  "hdql_gFilteredCompoundIFace types cnvs convert as_logic = \<lparr>
     si_new_dyn_data = Some (filtered_compound_scalar_interface_instantiate types cnvs),
     si_reset = filtered_compound_scalar_interface_reset convert as_logic,
     si_destroy_dyn_data = Some filtered_compound_scalar_interface_destroy\<rparr>"

section \<open>What a filter lets pass\<close>

text \<open>
  The conversion that is found when the state is made: none is needed for a logic value, otherwise
  it is that of the table.
\<close>

definition filter_type :: "'i types_table \<Rightarrow> q_link list \<Rightarrow> tcode \<Rightarrow> 'i type_interface \<Rightarrow> bool" where
  "filter_type types links tc vi \<longleftrightarrow> (\<exists>ad. hdql_query_top_attr links = Some ad \<and> hdql_attr_def_is_atomic ad \<and>
     hdql_attr_def_is_scalar ad \<and> map_option ucast (hdql_attr_def_get_atomic_value_type_code ad) = Some tc) \<and>
     hdql_types_get_type types tc = Some (Some vi) \<and> hdql_types_get_type_code types ''hdql_Bool_t'' \<noteq> 0"

definition filter_conversion :: "'i types_table \<Rightarrow> 'f hdql_Converters \<Rightarrow> tcode \<Rightarrow> 'f option option" where
  "filter_conversion types cnvs tc = (let logicCode = hdql_types_get_type_code types ''hdql_Bool_t'' in
     if logicCode = tc then Some None
     else do { (cv, _) \<leftarrow> hdql_converters_get cnvs logicCode tc; f \<leftarrow> cv; Some (Some f) })"

lemma instantiate_converts:
  assumes "filter_type types (fv_links dd) tc vi" "filter_conversion types cnvs tc = Some conv" "no_oom c"
  shows "\<exists>st c'. filtered_compound_scalar_interface_instantiate types cnvs d dd c = Some (Some st, dd, c') \<and>
    fs_toLogicConverter st = conv \<and> no_oom c'"
proof -
  let ?logic = "hdql_types_get_type_code types ''hdql_Bool_t''"
  obtain a c' where a: "ctx_alloc c = (Some a, c')" "no_oom c'" using no_oom_alloc [OF assms(3)] by blast
  obtain ad z where ad: "hdql_query_top_attr (fv_links dd) = Some ad" "hdql_attr_def_is_atomic ad" "hdql_attr_def_is_scalar ad"
    "hdql_attr_def_get_atomic_value_type_code ad = Some z" "ucast z = tc" "hdql_types_get_type types tc = Some (Some vi)" "?logic \<noteq> 0"
    using assms(1) by (auto simp: filter_type_def)
  show ?thesis
  proof (cases "?logic = tc")
    case True
    then show ?thesis using a ad assms(2) by (simp add: filtered_compound_scalar_interface_instantiate_def filter_conversion_def Let_def)
  next
    case False
    then obtain f t where f: "hdql_converters_get cnvs ?logic tc = Some (Some f, t)" "conv = Some f"
      using assms(2) by (auto simp: filter_conversion_def Let_def split: bind_splits)
    then show ?thesis using a ad False by (simp add: filtered_compound_scalar_interface_instantiate_def Let_def)
  qed
qed

text \<open>The truth of a datum that the filter query gives.\<close>

definition filter_true :: "('f \<Rightarrow> 'd \<Rightarrow> int \<times> 'd) \<Rightarrow> ('d \<Rightarrow> bool) \<Rightarrow> 'f option \<Rightarrow> 'd \<Rightarrow> bool" where
  "filter_true convert as_logic conv x = as_logic (case conv of None \<Rightarrow> x | Some f \<Rightarrow> snd (convert f x))"

locale filtered = query_arg A no_oom
  for A :: "(('d, 's, 'a, 'v) hdql_Query, 'd) argument" +
  fixes types :: "'i types_table" and cnvs :: "'f hdql_Converters" and convert :: "'f \<Rightarrow> 'd \<Rightarrow> int \<times> 'd"
    and as_logic :: "'d \<Rightarrow> bool" and links :: "q_link list" and tc vi and conv :: "'f option"
  assumes typed: "filter_type types links tc vi" and found: "filter_conversion types cnvs tc = Some conv"
    and converts: "conv = Some f \<Longrightarrow> fst (convert f x) = 0"

sublocale filtered \<subseteq> agg: aggregate "hdql_gFilteredCompoundIFace types cnvs convert as_logic"
    "\<lambda>dd. fv_links dd = links \<and> ag_valid A (fv_query dd)" "\<lambda>st. fs_toLogicConverter st = conv"
    "\<lambda>d. case ag_outs A d of [] \<Rightarrow> None | x # _ \<Rightarrow> if filter_true convert as_logic conv x then d else None"
    no_oom "ag_null A" True
proof
  fix dd :: "('d, 's, 'a, 'v) filter_data" and c and d :: "'d option"
  assume "fv_links dd = links \<and> ag_valid A (fv_query dd)" and c: "no_oom c"
  with typed found instantiate_converts [of types dd tc vi cnvs conv c d]
  show "\<exists>new st c'. si_new_dyn_data (hdql_gFilteredCompoundIFace types cnvs convert as_logic) = Some new \<and>
      new d dd c = Some (Some st, dd, c') \<and> fs_toLogicConverter st = conv \<and> no_oom c'"
    by (simp add: hdql_gFilteredCompoundIFace_def)
next
  fix dd :: "('d, 's, 'a, 'v) filter_data" and st :: "('i, 'f) FilteredVCompoundState" and c and d :: "'d option" and key
  assume dd: "fv_links dd = links \<and> ag_valid A (fv_query dd)" and st: "fs_toLogicConverter st = conv"
    and c: "no_oom c" and null: "d = None \<longrightarrow> ag_null A"
  from reset_first [OF dd [THEN conjunct2] c null] obtain qs' c' where
    r: "hdql_query_reset (fv_query dd) d None c = Some (first (ag_outs A d), qs', None, c')" "no_oom c'" "ag_valid A qs'" by metis
  have logic: "filter_logic convert as_logic conv x = Some (filter_true convert as_logic conv x)" for x
    using converts by (cases conv) (auto simp: filter_true_def filter_logic_def split_beta)
  show "\<exists>st' dd' c'. si_reset (hdql_gFilteredCompoundIFace types cnvs convert as_logic) d (Some st) dd key c =
      Some (case ag_outs A d of [] \<Rightarrow> None | x # _ \<Rightarrow> if filter_true convert as_logic conv x then d else None, Some st', dd', key, c') \<and>
      (fv_links dd' = links \<and> ag_valid A (fv_query dd')) \<and> fs_toLogicConverter st' = conv \<and> no_oom c'"
    using r dd st by (cases "ag_outs A d")
      (simp_all add: hdql_gFilteredCompoundIFace_def filtered_compound_scalar_interface_reset_def logic Let_def)
qed

context filtered
begin

lemma filter_aggregate:
  "aggregate (hdql_gFilteredCompoundIFace types cnvs convert as_logic) (\<lambda>dd. fv_links dd = links \<and> ag_valid A (fv_query dd))
     (\<lambda>st. fs_toLogicConverter st = conv)
     (\<lambda>d. case ag_outs A d of [] \<Rightarrow> None | x # _ \<Rightarrow> if filter_true convert as_logic conv x then d else None) no_oom (ag_null A) True"
  by (rule agg.aggregate_axioms)

end

text \<open>A filter query of the type \<open>bool\<close> in a context with the standard types needs no converter.\<close>

definition bool_type :: "unit type_interface" where
  "bool_type = the (the (get_by_code std_table 512))"

lemma bool_type_found: "get_by_code std_table 512 = Some (Some bool_type)"
  by (rule std_bool_item) (simp add: bool_type_def)

definition atomic_link :: "hdql_ValueTypeCode_t \<Rightarrow> q_link" where
  "atomic_link tc = QLink 14 (AttrDef 15 True False False 0 False 0 (AdScalar (ScClient None)) DefNull None
     (TiAtomic \<lparr>at_isReadOnly = False, at_arithTypeCode = tc\<rparr>) None) False None None None"

lemma atomic_link_type:
  assumes "get_by_code types (ucast tc) = Some (Some vi)" "get_code_by_name types ''hdql_Bool_t'' \<noteq> 0"
  shows "filter_type types [atomic_link tc] (ucast tc) vi"
  using assms by (simp add: filter_type_def atomic_link_def hdql_types_get_type_def hdql_types_get_type_code_def
      hdql_attr_def_is_atomic_def hdql_attr_def_is_scalar_def hdql_attr_def_get_atomic_value_type_code_def)

interpretation bool_filter: filtered "chain_arg no_oom Ls" std_table cnvs convert as_logic "[atomic_link 512]" 512 bool_type None
  for Ls cnvs convert as_logic
proof -
  have "filter_type std_table [atomic_link 512] (ucast (512 :: 13 word)) bool_type"
    by (rule atomic_link_type) (simp_all add: bool_type_found std_bool(1))
  moreover have "filter_conversion std_table cnvs 512 = Some None"
    by (simp add: filter_conversion_def hdql_types_get_type_code_def std_bool(1))
  ultimately show "filtered (chain_arg no_oom Ls) std_table cnvs convert [atomic_link 512] 512 bool_type None"
    by (intro filtered.intro filtered_axioms.intro chain.query_arg_axioms) simp_all
qed

section \<open>The properties\<close>

text \<open>
  C26: A query on a filter has its owner as the one record if the first datum of the filter query,
  converted if its type is not the logic one, is true, and none if it is false or there is none.
\<close>

theorem filter_records:
  assumes "filter_type types links tc vi" "filter_conversion types cnvs tc = Some conv"
    and "\<forall>f x. conv = Some f \<longrightarrow> fst (convert f x) = 0"
    and "chain_valid no_oom (keyless Ls) qs (no_keys Ls)" "no_oom c" "d = None \<longrightarrow> lv_null (hd Ls)"
    and "qa_interface (q_ad q) = IfScalar (hdql_gFilteredCompoundIFace types cnvs convert as_logic)" "q_state q = None"
      "qa_definitionData (q_ad q) = \<lparr>fv_query = qs, fv_links = links\<rparr>"
  shows "query_records [q] d None c = Some (case (chain_outs (keyless Ls) d, d) of
      ((x, _) # _, Some owner) \<Rightarrow> if filter_true convert as_logic conv x then [(owner, None)] else []
    | _ \<Rightarrow> [])"
proof -
  have F: "filtered (chain_arg no_oom Ls) types cnvs convert links tc vi conv"
    by (intro filtered.intro filtered_axioms.intro chain.query_arg_axioms) (use assms(1-3) in auto)
  have outs: "ag_outs (chain_arg no_oom Ls) d = map fst (chain_outs (keyless Ls) d)" "ag_null (chain_arg no_oom Ls) = lv_null (hd Ls)"
    "ag_valid (chain_arg no_oom Ls) qs"
    using assms(4) by (simp_all add: chain_arg_def)
  from aggregate_records [OF filtered.filter_aggregate [OF F, of as_logic] assms(7) _ assms(8,5)]
  have "query_records [q] d None c = Some (case (case ag_outs (chain_arg no_oom Ls) d of [] \<Rightarrow> None
      | x # _ \<Rightarrow> if filter_true convert as_logic conv x then d else None) of None \<Rightarrow> [] | Some x \<Rightarrow> [(x, None)])"
    using assms(6,9) outs(2,3) by simp
  then show ?thesis unfolding outs(1) by (auto split: list.splits option.splits prod.splits)
qed

text \<open>
  A filter query whose type has no converter to the logic type lets nothing pass, and reports it:
  the errors of the conversion and of the interface are pushed, and the state that was made is given back.
\<close>

theorem filter_inconvertible:
  assumes "filter_type types links tc vi" "tc \<noteq> hdql_types_get_type_code types ''hdql_Bool_t''"
    and "hdql_converters_get cnvs (hdql_types_get_type_code types ''hdql_Bool_t'') tc = Some (None, cnvs')"
    and "qa_interface (q_ad q) = IfScalar (hdql_gFilteredCompoundIFace types cnvs convert as_logic)" "q_state q = None"
      "fv_links (qa_definitionData (q_ad q)) = links" "ctx_wf c" "no_oom c"
  shows "\<exists>q' c'. hdql__query_reset q d k c = Some (None, q', k, c') \<and> q_state q' = None \<and> ctx_live c' = ctx_live c \<and>
    cx_errors c' = cx_errors c @ [HDQL_ERR_CONVERSION, HDQL_ERR_INTERFACE_ERROR]"
proof -
  let ?dd = "qa_definitionData (q_ad q)"
  obtain a c1 where a: "ctx_alloc c = (Some a, c1)" "no_oom c1" using no_oom_alloc [OF assms(8)] by blast
  have c1: "ctx_wf c1" "a \<notin> ctx_live c" "ctx_live c1 = insert a (ctx_live c)" "cx_errors c1 = cx_errors c"
    using cx.alloc_inv [of c 1] cx.alloc_fresh [of c 1 a c1] cx.alloc_exact [of c 1] a(1) assms(7) by (auto simp: ctx_alloc_malloc)
  let ?c2 = "hdql_context_err_push HDQL_ERR_CONVERSION c1"
  obtain c3 where c3: "ctx_free (Some a) ?c2 = Some c3" "ctx_live c3 = ctx_live ?c2 - {a}"
    using cx.free_live [of ?c2 a] c1 by auto
  have e: "cx_errors c3 = cx_errors c @ [HDQL_ERR_CONVERSION]" using c3(1) c1(4) by (auto simp: ctx_free_def split: bind_splits)
  obtain ad z where ad: "hdql_query_top_attr links = Some ad" "hdql_attr_def_is_atomic ad" "hdql_attr_def_is_scalar ad"
    "hdql_attr_def_get_atomic_value_type_code ad = Some z" "ucast z = tc" "hdql_types_get_type types tc = Some (Some vi)"
    "hdql_types_get_type_code types ''hdql_Bool_t'' \<noteq> 0"
    using assms(1) by (auto simp: filter_type_def)
  have "filtered_compound_scalar_interface_instantiate types cnvs d ?dd c = Some (None, ?dd, c3)"
    using a ad assms(2,3,6) c3(1) by (simp add: filtered_compound_scalar_interface_instantiate_def Let_def)
  then have "hdql__query_reset q d k c =
      Some (None, q_update (q\<lparr>q_owner := d\<rparr>) None ?dd, k, hdql_context_err_push HDQL_ERR_INTERFACE_ERROR c3)"
    using assms(4,5) by (simp add: hdql__query_reset_def hdql_gFilteredCompoundIFace_def Let_def)
  moreover have "ctx_live c3 = ctx_live c" using c3(2) c1(2,3) by auto
  ultimately show ?thesis using e by (simp add: q_update_def)
qed

section \<open>Samples\<close>

definition logic_converters :: "unit hdql_Converters" where
  "logic_converters = Converters 8 16 True (Some 9) [(conv_key 517 512, ())] None"

abbreviation to_logic :: "unit \<Rightarrow> int \<Rightarrow> int \<times> int" where
  "to_logic \<equiv> (\<lambda>_ x. (0, of_bool (x \<noteq> 0)))"

definition filter_query ::
  "hdql_ValueTypeCode_t \<Rightarrow> (int, (unit, unit) FilteredVCompoundState, (int, int cpp_iterator, unit, bytes) filter_data, bytes) hdql_Query" where
  "filter_query tc = op_query (IfScalar (hdql_gFilteredCompoundIFace std_table logic_converters to_logic (\<lambda>x. x \<noteq> 0)))
     \<lparr>fv_query = [items_query], fv_links = [atomic_link tc]\<rparr>"

lemma std_items: "(\<exists>vi. get_by_code std_table 517 = Some (Some vi)) \<and> (\<exists>vi. get_by_code std_table 521 = Some (Some vi))"
proof -
  have "(case get_by_code std_table 517 of Some (Some _) \<Rightarrow> True | _ \<Rightarrow> False) \<and> (case get_by_code std_table 521 of Some (Some _) \<Rightarrow> True | _ \<Rightarrow> False)"
    by code_simp
  then show ?thesis by (auto split: option.splits)
qed

lemma logic_lookup:
  "hdql_converters_get logic_converters 512 517 = Some (Some (), logic_converters)"
  "hdql_converters_get logic_converters 512 521 = Some (None, logic_converters)"
  by code_simp+

lemma filter_records_witness:
  "query_records [filter_query 517] (Some 7) None ctx_roomy = Some [(7, None)] \<and>
   query_records [filter_query 517] (Some 0) None ctx_roomy = Some []"
proof -
  let ?Ls = "[items_level two_items] :: (int, int cpp_iterator, unit, bytes) tlevel list"
  obtain vi where "get_by_code std_table 517 = Some (Some vi)" using std_items by blast
  then have t: "filter_type std_table [atomic_link 517] 517 vi" using atomic_link_type [of std_table 517 vi] by (simp add: std_bool(1))
  have conv: "filter_conversion std_table logic_converters 517 = Some (Some ())"
    by (simp add: filter_conversion_def hdql_types_get_type_code_def std_bool(1) logic_lookup)
  have "query_records [filter_query 517] (Some w) None ctx_roomy = Some (case (chain_outs (keyless ?Ls) (Some w), Some w) of
      ((x, _) # _, Some owner) \<Rightarrow> if filter_true to_logic (\<lambda>x. x \<noteq> 0) (Some ()) x then [(owner, None)] else []
    | _ \<Rightarrow> [])" for w
    by (rule filter_records [OF t conv _ items_chain]) (simp_all add: ctx_roomy_def no_oom_def filter_query_def op_query_def)
  moreover have "chain_outs (keyless ?Ls) (Some w) = [(w, [TKey [1]]), (w + 5, [TKey [2]])]" for w
    using items_elems [of two_items w] by (simp add: chain_elems_def keyless_def)
  ultimately show ?thesis by (simp add: filter_true_def)
qed

lemma filter_inconvertible_witness:
  "\<exists>q' c'. hdql__query_reset (filter_query 521) (Some 7) None ctx_roomy = Some (None, q', None, c') \<and>
     ctx_live c' = {9..<16} \<and> cx_errors c' = [HDQL_ERR_CONVERSION, HDQL_ERR_INTERFACE_ERROR]"
proof -
  obtain vi where "get_by_code std_table 521 = Some (Some vi)" using std_items by blast
  then have t: "filter_type std_table [atomic_link 521] 521 vi" using atomic_link_type [of std_table 521 vi] by (simp add: std_bool(1))
  have "\<exists>q' c'. hdql__query_reset (filter_query 521) (Some 7) None ctx_roomy = Some (None, q', None, c') \<and> q_state q' = None \<and>
      ctx_live c' = ctx_live ctx_roomy \<and> cx_errors c' = cx_errors ctx_roomy @ [HDQL_ERR_CONVERSION, HDQL_ERR_INTERFACE_ERROR]"
    by (rule filter_inconvertible [OF t])
      (simp_all add: hdql_types_get_type_code_def std_bool(1) logic_lookup filter_query_def op_query_def,
       simp_all add: ctx_roomy_def ctx_wf_def heap_wf_def no_oom_def)
  then show ?thesis by (auto simp: ctx_roomy_def ctx_live_def)
qed

end
