(* ===== verification/MonoidOps.thy ===== *)
theory MonoidOps
  imports Aggregates
begin

text \<open>
  The monoids of \<open>src/funcs/monoids.c\<close> on the integer and logic types: neutral elements,
  operations, and the mean, whose state is a count and a sum. The definitions for \<open>float\<close> and
  \<open>double\<close>, and for the arbitrary element, are parameters.
\<close>

section \<open>Definitions of monoids\<close>

text \<open>
  What a definition consists of. \<open>'m\<close> is what the result's block holds. The retrieval may write to
  the block; that the type code and the context it is given are not used is left out.
\<close>

record ('d, 'm) MonoidDefinition =
  md_set_neutral :: "'m \<Rightarrow> 'm"
  md_operation :: "'m \<Rightarrow> 'd \<Rightarrow> (int \<times> 'm) option"
  md_alloc_result :: "tcode \<Rightarrow> hdql_Context \<Rightarrow> ((addr \<times> 'm) option \<times> hdql_Context) option"
  md_retrieve :: "'m \<Rightarrow> ('d \<times> 'm) option"

datatype result_block = ResValue int | ResMean u64 int int

type_synonym int_monoid = "(int, result_block) MonoidDefinition"

definition INT_MAX :: int where "INT_MAX = 2147483647"

text \<open>An operation on a result that is a value: what it becomes, and the return code.\<close>

definition on_value :: "(int \<Rightarrow> int \<Rightarrow> int option) \<Rightarrow> (int \<Rightarrow> int) \<Rightarrow> result_block \<Rightarrow> int \<Rightarrow> (int \<times> result_block) option" where
  "on_value f rc m v = (case m of
     ResValue r \<Rightarrow> map_option (\<lambda>x. (rc x, ResValue x)) (f r v)
   | ResMean _ _ _ \<Rightarrow> None)"

section \<open>The operations\<close>

definition sum_set_neutral :: "result_block \<Rightarrow> result_block" where "sum_set_neutral d = ResValue 0"

definition sum_operation :: "c_type \<Rightarrow> result_block \<Rightarrow> int \<Rightarrow> (int \<times> result_block) option" where
  "sum_operation t = on_value (\<lambda>r v. c_assign t (c_add t t r v)) (\<lambda>_. 0)"

definition prod_set_neutral :: "result_block \<Rightarrow> result_block" where "prod_set_neutral d = ResValue 1"

definition prod_operation :: "c_type \<Rightarrow> result_block \<Rightarrow> int \<Rightarrow> (int \<times> result_block) option" where
  "prod_operation t = on_value (\<lambda>r v. c_assign t (c_mul t t r v)) (\<lambda>_. 0)"

definition min_set_neutral :: "c_type \<Rightarrow> result_block \<Rightarrow> result_block" where "min_set_neutral t d = ResValue (c_max t)"

definition min_operation :: "c_type \<Rightarrow> result_block \<Rightarrow> int \<Rightarrow> (int \<times> result_block) option" where
  "min_operation t = on_value (\<lambda>r v. Some (if c_compare (>) t t r v then v else r)) (\<lambda>_. 0)"

definition max_set_neutral :: "c_type \<Rightarrow> result_block \<Rightarrow> result_block" where "max_set_neutral t d = ResValue (c_min t)"

definition max_operation :: "c_type \<Rightarrow> result_block \<Rightarrow> int \<Rightarrow> (int \<times> result_block) option" where
  "max_operation t = on_value (\<lambda>r v. Some (if c_compare (<) t t r v then v else r)) (\<lambda>_. 0)"

definition bAND_set_neutral :: "c_type \<Rightarrow> result_block \<Rightarrow> result_block" where
  "bAND_set_neutral t d = ResValue (c_conv t (c_bnot t 0))"

definition bAND_operation :: "c_type \<Rightarrow> result_block \<Rightarrow> int \<Rightarrow> (int \<times> result_block) option" where
  "bAND_operation t = on_value (\<lambda>r v. c_assign t (c_band t t r v)) (\<lambda>x. if x \<noteq> 0 then 0 else INT_MAX)"

definition bOR_set_neutral :: "c_type \<Rightarrow> result_block \<Rightarrow> result_block" where "bOR_set_neutral t d = ResValue (c_conv t 0)"

text \<open>A semicolon after the test makes both branches return 0.\<close>

definition bOR_operation :: "c_type \<Rightarrow> result_block \<Rightarrow> int \<Rightarrow> (int \<times> result_block) option" where
  "bOR_operation t = on_value (\<lambda>r v. c_assign t (c_bor t t r v)) (\<lambda>_. 0)"

definition bXOR_set_neutral :: "c_type \<Rightarrow> result_block \<Rightarrow> result_block" where "bXOR_set_neutral t d = ResValue (c_conv t 0)"

definition bXOR_operation :: "c_type \<Rightarrow> result_block \<Rightarrow> int \<Rightarrow> (int \<times> result_block) option" where
  "bXOR_operation t = on_value (\<lambda>r v. c_assign t (c_bxor t t r v)) (\<lambda>_. 0)"

definition all_set_neutral :: "result_block \<Rightarrow> result_block" where "all_set_neutral d = ResValue 1"

definition all_operation :: "result_block \<Rightarrow> int \<Rightarrow> (int \<times> result_block) option" where
  "all_operation = on_value (\<lambda>r v. c_assign CBool (c_band CBool CBool r v)) (\<lambda>x. if x \<noteq> 0 then 0 else INT_MAX)"

definition any_set_neutral :: "result_block \<Rightarrow> result_block" where "any_set_neutral d = ResValue 0"

definition any_operation :: "result_block \<Rightarrow> int \<Rightarrow> (int \<times> result_block) option" where
  "any_operation = on_value (\<lambda>r v. c_assign CBool (c_bor CBool CBool r v)) (\<lambda>x. if x = 0 then 0 else INT_MAX)"

definition count_set_neutral :: "result_block \<Rightarrow> result_block" where "count_set_neutral d = ResValue 0"

definition count_operation :: "result_block \<Rightarrow> int \<Rightarrow> (int \<times> result_block) option" where
  "count_operation = on_value (\<lambda>r v. if v \<noteq> 0 then c_assign CI64 (c_add CI64 CI32 r 1) else Some r) (\<lambda>_. 0)"

definition mean_set_neutral :: "result_block \<Rightarrow> result_block" where "mean_set_neutral d = ResMean 0 0 0"

definition mean_operation :: "c_type \<Rightarrow> result_block \<Rightarrow> int \<Rightarrow> (int \<times> result_block) option" where
  "mean_operation t d x = (case d of
     ResMean c s v \<Rightarrow> do { s \<leftarrow> c_assign t (c_add t t s x); Some (0, ResMean (c + 1) s v) }
   | ResValue _ \<Rightarrow> None)"

definition mean_retrieve_result :: "c_type \<Rightarrow> result_block \<Rightarrow> (int \<times> result_block) option" where
  "mean_retrieve_result t d = (case d of
     ResMean c s v \<Rightarrow>
       if c = 0 then Some (0, ResMean c s 0)
       else do { v \<leftarrow> c_assign t (c_div t t s (c_conv t (uint c))); Some (v, ResMean c s v) }
   | ResValue _ \<Rightarrow> None)"

definition trivial_retrive_result :: "result_block \<Rightarrow> (int \<times> result_block) option" where
  "trivial_retrive_result d = (case d of ResValue r \<Rightarrow> Some (r, ResValue r) | ResMean _ _ _ \<Rightarrow> None)"

text \<open>The block of a result, with what memory happens to hold.\<close>

definition create_result ::
  "'i types_table option \<Rightarrow> (addr \<Rightarrow> int) \<Rightarrow> tcode \<Rightarrow> hdql_Context \<Rightarrow> ((addr \<times> result_block) option \<times> hdql_Context) option"
where
  "create_result types mem tc c = do {
     (r, c) \<leftarrow> hdql_create_value types tc c;
     Some (map_option (\<lambda>a. (a, ResValue (mem a))) r, c) }"

definition mean_instantiate :: "(addr \<Rightarrow> int) \<Rightarrow> tcode \<Rightarrow> hdql_Context \<Rightarrow> ((addr \<times> result_block) option \<times> hdql_Context) option" where
  "mean_instantiate mem tc c = (let (p, c) = ctx_alloc c in
     Some (map_option (\<lambda>a. (a, ResMean (of_int (mem a)) (mem a) (mem a))) p, c))"

section \<open>Folds of the operations\<close>

text \<open>The result of an operation applied to one value after another.\<close>

definition monoid_fold :: "('m \<Rightarrow> 'd \<Rightarrow> (int \<times> 'm) option) \<Rightarrow> 'd list \<Rightarrow> 'm \<Rightarrow> 'm option" where
  "monoid_fold f = ofold (\<lambda>v m. map_option snd (f m v))"

lemma monoid_fold_simps [simp]:
  "monoid_fold f [] m = Some m"
  "monoid_fold f (v # vs) m = do { (_, m) \<leftarrow> f m v; monoid_fold f vs m }"
  by (auto simp: monoid_fold_def split: bind_splits)

lemma monoid_fold_append: "monoid_fold f (us @ vs) m = do { m \<leftarrow> monoid_fold f us m; monoid_fold f vs m }"
  by (simp add: monoid_fold_def ofold_append)

lemma monoid_fold_ConsE:
  assumes "monoid_fold f (v # vs) m = Some m'"
  obtains rc m1 where "f m v = Some (rc, m1)" "monoid_fold f vs m1 = Some m'"
  using assms by (cases "f m v") auto

lemma monoid_fold_appendE:
  assumes "monoid_fold f (us @ vs) m = Some m'"
  obtains m1 where "monoid_fold f us m = Some m1" "monoid_fold f vs m1 = Some m'"
  using assms by (cases "monoid_fold f us m") (auto simp: monoid_fold_append)

lemma on_value_step: "f r v = Some x \<Longrightarrow> on_value f rc (ResValue r) v = Some (rc x, ResValue x)"
  by (simp add: on_value_def)

text \<open>A value that stays an invariant of what was folded.\<close>

lemma monoid_fold_value:
  assumes "\<And>r v. I r \<Longrightarrow> P v \<Longrightarrow> f r v = Some (g r v) \<and> I (g r v)" "I r" "\<forall>v \<in> set vs. P v"
  shows "monoid_fold (on_value f rc) vs (ResValue r) = Some (ResValue (foldl g r vs))"
  using assms(2,3) by (induction vs arbitrary: r) (simp_all add: on_value_step assms(1))

section \<open>Sums\<close>

lemma c_usual_same: "c_usual t t = c_promote t"
  by (cases t) (simp_all add: c_usual_def c_promote_def Let_def)

text \<open>A sum of narrow values is computed exactly and cut, one of wide signed ones must fit.\<close>

definition sum_fits :: "c_type \<Rightarrow> int \<Rightarrow> bool" where
  "sum_fits t z \<longleftrightarrow> (c_signed t \<and> 32 \<le> c_width t \<longrightarrow> in_range t z)"

lemma sum_step:
  assumes "t \<noteq> CBool" "in_range t r" "in_range t v"
  shows "c_assign t (c_add t t r v) = (if sum_fits t (r + v) then Some (c_conv t (r + v)) else None)"
proof -
  have "c_add t t r v = c_eval (c_promote t) (r + v)"
    using assms(2,3) by (simp add: c_add_def c_arith_value c_usual_same)
  moreover have "c_conv t (r + v) = c_conv t ((r + v) mod 2 ^ c_width t)"
    using assms(1) by (intro c_conv_cong) simp_all
  ultimately show ?thesis
    using assms by (cases t) (auto simp: c_assign_def c_eval_def c_promote_def sum_fits_def in_range_def c_min_def c_max_def)
qed

lemma c_conv_add: "t \<noteq> CBool \<Longrightarrow> c_conv t (c_conv t x + y) = c_conv t (x + y)"
  by (rule c_conv_cong, simp) (metis c_conv_mod mod_add_left_eq)

lemma sum_fold:
  assumes "t \<noteq> CBool" "\<forall>v \<in> set vs. in_range t v"
  shows "monoid_fold (sum_operation t) vs (sum_set_neutral d) =
    (if \<forall>n \<le> length vs. sum_fits t (sum_list (take n vs)) then Some (ResValue (c_conv t (sum_list vs))) else None)"
  using assms(2)
proof (induction vs rule: rev_induct)
  case Nil
  show ?case using assms(1) by (cases t) (simp_all add: sum_set_neutral_def sum_fits_def in_range_def c_min_def c_max_def c_conv_def)
next
  case (snoc v vs)
  let ?fits = "\<lambda>vs. \<forall>n \<le> length vs. sum_fits t (sum_list (take n vs))"
  have split: "?fits (vs @ [v]) \<longleftrightarrow> ?fits vs \<and> sum_fits t (sum_list vs + v)"
    by (auto simp: le_Suc_eq)
  have same: "sum_fits t (c_conv t (sum_list vs) + v) \<longleftrightarrow> sum_fits t (sum_list vs + v)" if "?fits vs"
  proof -
    have "sum_fits t (sum_list vs)" using spec [OF that, of "length vs"] by simp
    then show ?thesis by (auto simp: sum_fits_def c_conv_id)
  qed
  have IH: "monoid_fold (sum_operation t) vs (sum_set_neutral d) =
      (if ?fits vs then Some (ResValue (c_conv t (sum_list vs))) else None)"
    using snoc by simp
  have v: "in_range t v" using snoc.prems by simp
  have step: "monoid_fold (sum_operation t) [v] (ResValue (c_conv t (sum_list vs))) =
      (if sum_fits t (sum_list vs + v) then Some (ResValue (c_conv t (sum_list vs + v))) else None)" if "?fits vs"
    using sum_step [OF assms(1) c_conv_in_range v, of "sum_list vs"] same [OF that] c_conv_add [OF assms(1), of "sum_list vs" v]
    by (simp add: sum_operation_def on_value_def)
  have sum: "sum_list (vs @ [v]) = sum_list vs + v" by simp
  show ?case
  proof (cases "?fits vs")
    case True
    have "(?fits vs \<and> sum_fits t (sum_list vs + v)) = sum_fits t (sum_list vs + v)" using True by blast
    then show ?thesis unfolding monoid_fold_append IH split sum if_P [OF True] bind.bind_lunit step [OF True] by simp
  next
    case False
    have "\<not> (?fits vs \<and> sum_fits t (sum_list vs + v))" using False by blast
    then show ?thesis unfolding monoid_fold_append IH split sum if_not_P [OF False] by simp
  qed
qed

text \<open>
  The sum of integers of a type as the monoid computes it: for unsigned and for narrow types the
  exact sum converted to the type; for \<open>int32_t\<close> and \<open>int64_t\<close> the exact sum if every partial sum
  fits, otherwise undefined.
\<close>

theorem sum_monoid_spec:
  assumes "t \<noteq> CBool" "\<forall>v \<in> set vs. in_range t v"
  shows "monoid_fold (sum_operation t) vs (sum_set_neutral d) =
    (if \<forall>n \<le> length vs. sum_fits t (sum_list (take n vs)) then Some (ResValue (c_conv t (sum_list vs))) else None)"
  by (rule sum_fold [OF assms])

lemma sum_monoid_spec_witness:
  "monoid_fold (sum_operation CUI8) [200, 100, 7] (sum_set_neutral (ResValue 5)) = Some (ResValue 51) \<and>
   monoid_fold (sum_operation CI32) [2147483647, 1, - 5] (sum_set_neutral (ResValue 5)) = None"
proof -
  have "\<not> (\<forall>n \<le> length [2147483647, 1, - 5 :: int]. sum_fits CI32 (sum_list (take n [2147483647, 1, - 5])))"
    by (auto simp: sum_fits_def in_range_def c_min_def c_max_def intro!: exI [of _ 2])
  then show ?thesis
    using sum_monoid_spec [of CUI8 "[200, 100, 7]" "ResValue 5"] sum_monoid_spec [of CI32 "[2147483647, 1, - 5]" "ResValue 5"]
    by (simp add: in_range_def c_min_def c_max_def sum_fits_def c_conv_def)
qed

section \<open>Least and greatest, logic and counting\<close>

lemma promote_holds: "in_range t a \<Longrightarrow> in_range (c_promote t) a"
  by (cases t) (simp_all add: in_range_def c_min_def c_max_def c_promote_def)

lemma c_compare_same: "in_range t a \<Longrightarrow> in_range t b \<Longrightarrow> c_compare R t t a b = R a b"
  by (simp add: c_compare_def c_usual_same c_conv_id promote_holds)

lemma c_limits_in_range: "in_range t (c_max t)" "in_range t (c_min t)"
  by (cases t; simp add: in_range_def c_min_def c_max_def)+

lemma foldl_Min: "foldl min m vs = Min (insert m (set (vs :: int list)))"
proof (induction vs arbitrary: m)
  case (Cons v vs)
  then show ?case by (cases "set vs = {}") (auto simp: min.assoc)
qed simp

lemma foldl_Max: "foldl max m vs = Max (insert m (set (vs :: int list)))"
proof (induction vs arbitrary: m)
  case (Cons v vs)
  then show ?case by (cases "set vs = {}") (auto simp: max.assoc)
qed simp

lemma min_monoid:
  assumes "\<forall>v \<in> set vs. in_range t v" "vs \<noteq> []"
  shows "monoid_fold (min_operation t) vs (min_set_neutral t d) = Some (ResValue (Min (set vs)))"
proof -
  have "monoid_fold (min_operation t) vs (min_set_neutral t d) = Some (ResValue (foldl min (c_max t) vs))"
    unfolding min_operation_def min_set_neutral_def
    by (rule monoid_fold_value [where I = "in_range t" and P = "in_range t"])
      (use assms(1) in \<open>auto simp: c_compare_same c_limits_in_range min_def\<close>)
  moreover have "foldl min (c_max t) vs = Min (set vs)"
    using assms by (auto simp: foldl_Min in_range_def intro!: min_absorb2 order_trans [OF Min_le [of _ "hd vs"]])
  ultimately show ?thesis by simp
qed

lemma max_monoid:
  assumes "\<forall>v \<in> set vs. in_range t v" "vs \<noteq> []"
  shows "monoid_fold (max_operation t) vs (max_set_neutral t d) = Some (ResValue (Max (set vs)))"
proof -
  have "monoid_fold (max_operation t) vs (max_set_neutral t d) = Some (ResValue (foldl max (c_min t) vs))"
    unfolding max_operation_def max_set_neutral_def
    by (rule monoid_fold_value [where I = "in_range t" and P = "in_range t"])
      (use assms(1) in \<open>auto simp: c_compare_same c_limits_in_range max_def\<close>)
  moreover have "foldl max (c_min t) vs = Max (set vs)"
    using assms by (auto simp: foldl_Max in_range_def intro!: max_absorb2 order_trans [OF _ Max_ge [of _ "hd vs"]])
  ultimately show ?thesis by simp
qed

lemma bool_values: "in_range CBool v \<longleftrightarrow> v = 0 \<or> v = 1"
  by (auto simp: in_range_def c_min_def c_max_def)

lemma bool_steps:
  assumes "in_range CBool r" "in_range CBool v"
  shows "c_assign CBool (c_band CBool CBool r v) = Some (of_bool (r \<noteq> 0 \<and> v \<noteq> 0))"
    and "c_assign CBool (c_bor CBool CBool r v) = Some (of_bool (r \<noteq> 0 \<or> v \<noteq> 0))"
  using assms unfolding bool_values
  by (auto simp: c_assign_def c_band_def c_bor_def c_arith_def c_usual_def c_promote_def c_eval_def c_conv_def in_range_def
      c_min_def c_max_def Let_def)

lemma bool_convolution:
  assumes "\<forall>v \<in> set vs. in_range CBool v"
  shows "monoid_fold all_operation vs (all_set_neutral d) = Some (ResValue (of_bool (\<forall>v \<in> set vs. v \<noteq> 0)))"
    and "monoid_fold any_operation vs (any_set_neutral d) = Some (ResValue (of_bool (\<exists>v \<in> set vs. v \<noteq> 0)))"
proof -
  have fold: "foldl (\<lambda>r v. of_bool (r \<noteq> 0 \<and> v \<noteq> 0)) r vs = (of_bool (r \<noteq> 0 \<and> (\<forall>v \<in> set vs. v \<noteq> 0)) :: int)" if "r = 0 \<or> r = 1" for r
    using that by (induction vs arbitrary: r) auto
  have fold': "foldl (\<lambda>r v. of_bool (r \<noteq> 0 \<or> v \<noteq> 0)) r vs = (of_bool (r \<noteq> 0 \<or> (\<exists>v \<in> set vs. v \<noteq> 0)) :: int)" if "r = 0 \<or> r = 1" for r
    using that by (induction vs arbitrary: r) auto
  have "monoid_fold all_operation vs (ResValue 1) = Some (ResValue (foldl (\<lambda>r v. of_bool (r \<noteq> 0 \<and> v \<noteq> 0)) 1 vs))"
    unfolding all_operation_def
    by (rule monoid_fold_value [where I = "in_range CBool" and P = "in_range CBool"])
      (use assms in \<open>auto simp: bool_steps bool_values\<close>)
  with fold [of 1] show "monoid_fold all_operation vs (all_set_neutral d) = Some (ResValue (of_bool (\<forall>v \<in> set vs. v \<noteq> 0)))"
    by (simp add: all_set_neutral_def)
  have "monoid_fold any_operation vs (ResValue 0) = Some (ResValue (foldl (\<lambda>r v. of_bool (r \<noteq> 0 \<or> v \<noteq> 0)) 0 vs))"
    unfolding any_operation_def
    by (rule monoid_fold_value [where I = "in_range CBool" and P = "in_range CBool"])
      (use assms in \<open>auto simp: bool_steps bool_values\<close>)
  with fold' [of 0] show "monoid_fold any_operation vs (any_set_neutral d) = Some (ResValue (of_bool (\<exists>v \<in> set vs. v \<noteq> 0)))"
    by (simp add: any_set_neutral_def)
qed

lemma count_monoid:
  assumes "int (length vs) < 2 ^ 63"
  shows "monoid_fold count_operation vs (count_set_neutral d) = Some (ResValue (int (length (filter (\<lambda>v. v \<noteq> 0) vs))))"
  using assms
proof (induction vs rule: rev_induct)
  case (snoc v vs)
  let ?n = "int (length (filter (\<lambda>v. v \<noteq> 0) vs))"
  have "?n \<le> int (length vs)" by simp
  moreover have "int (length vs) < 2 ^ 63 - 1" using snoc.prems by simp
  ultimately have "?n < 2 ^ 63 - 1" by linarith
  then have "c_assign CI64 (c_add CI64 CI32 ?n 1) = Some (?n + 1)"
    by (simp add: c_assign_def c_add_def c_arith_def c_usual_def c_promote_def c_eval_def c_conv_def in_range_def c_min_def
        c_max_def Let_def)
  then show ?case using snoc by (simp add: monoid_fold_append count_operation_def on_value_def)
qed (simp add: count_set_neutral_def)

text \<open>
  The other convolutions. \<open>min\<close> and \<open>max\<close> of at least one value are the least and the greatest,
  \<open>all\<close> and \<open>any\<close> of logic values say whether none is false and whether one is true, \<open>count\<close> is the
  number of the true ones; the return codes by which some would cut the loop short change nothing.
\<close>

theorem convolutions_spec:
  assumes "\<forall>v \<in> set vs. in_range t v" "vs \<noteq> []" "\<forall>b \<in> set bs. in_range CBool b" "int (length bs) < 2 ^ 63"
  shows "monoid_fold (min_operation t) vs (min_set_neutral t d) = Some (ResValue (Min (set vs))) \<and>
    monoid_fold (max_operation t) vs (max_set_neutral t d) = Some (ResValue (Max (set vs))) \<and>
    monoid_fold all_operation bs (all_set_neutral d) = Some (ResValue (of_bool (\<forall>b \<in> set bs. b \<noteq> 0))) \<and>
    monoid_fold any_operation bs (any_set_neutral d) = Some (ResValue (of_bool (\<exists>b \<in> set bs. b \<noteq> 0))) \<and>
    monoid_fold count_operation bs (count_set_neutral d) = Some (ResValue (int (length (filter (\<lambda>b. b \<noteq> 0) bs))))"
  using min_monoid [OF assms(1,2)] max_monoid [OF assms(1,2)] bool_convolution [OF assms(3)] count_monoid [OF assms(4)] by blast

lemma convolutions_spec_witness:
  "monoid_fold (min_operation CI8) [5, - 7, 100] (min_set_neutral CI8 (ResValue 0)) = Some (ResValue (- 7)) \<and>
   monoid_fold count_operation [1, 0, 1] (count_set_neutral (ResValue 0)) = Some (ResValue 2)"
  using convolutions_spec [of "[5, - 7, 100]" CI8 "[1, 0, 1]" "ResValue 0"]
  by (simp add: in_range_def c_min_def c_max_def)

section \<open>Bits\<close>

unbundle bit_operations_syntax

lemma in_range_bits:
  assumes "t \<noteq> CBool"
  shows "in_range t x \<longleftrightarrow> (if c_signed t then signed_take_bit (c_width t - 1) x = x else take_bit (c_width t) x = x)"
  using assms by (auto simp: in_range_def c_min_def c_max_def signed_take_bit_int_eq_self_iff take_bit_int_eq_self_iff)

lemma bits_in_range:
  assumes "t \<noteq> CBool" "in_range t x" "in_range t y"
  shows "in_range t (x AND y)" "in_range t (x OR y)" "in_range t (x XOR y)"
proof -
  have "signed_take_bit n (x AND y) = signed_take_bit n x AND signed_take_bit n y"
    "signed_take_bit n (x OR y) = signed_take_bit n x OR signed_take_bit n y"
    "signed_take_bit n (x XOR y) = signed_take_bit n x XOR signed_take_bit n y" for n
    by (rule bit_eqI, simp add: bit_simps)+
  then show "in_range t (x AND y)" "in_range t (x OR y)" "in_range t (x XOR y)"
    using assms(2,3) unfolding in_range_bits [OF assms(1)] by (simp_all split: if_splits)
qed

lemma bits_step:
  assumes "t \<noteq> CBool" "in_range t r" "in_range t v"
  shows "c_assign t (c_band t t r v) = Some (r AND v)" "c_assign t (c_bor t t r v) = Some (r OR v)"
    "c_assign t (c_bxor t t r v) = Some (r XOR v)"
proof -
  have w: "c_promote t \<noteq> CBool" by (cases t) (simp_all add: c_promote_def)
  have holds: "c_conv (c_promote t) x = x" "c_eval (c_promote t) x = Some x" if "in_range t x" for x
    using promote_holds [OF that] w
    by (auto simp: c_conv_id c_eval_def in_range_def c_min_def c_max_def)
  show "c_assign t (c_band t t r v) = Some (r AND v)" "c_assign t (c_bor t t r v) = Some (r OR v)"
    "c_assign t (c_bxor t t r v) = Some (r XOR v)"
    using assms bits_in_range [OF assms] holds
    by (simp_all add: c_assign_def c_band_def c_bor_def c_bxor_def c_arith_def c_usual_same Let_def c_conv_id)
qed

lemma all_ones: "t \<noteq> CBool \<Longrightarrow> c_conv t (c_bnot t 0) = c_conv t (- 1)"
  by (cases t) (simp_all add: c_bnot_def c_promote_def c_conv_def)

text \<open>
  The bitwise convolutions of integers of a type are those of the integers themselves, started
  from the type's all ones or from zero, also for signed types.
\<close>

theorem bitwise_monoids_spec:
  assumes "t \<noteq> CBool" "\<forall>v \<in> set vs. in_range t v"
  shows "monoid_fold (bAND_operation t) vs (bAND_set_neutral t d) = Some (ResValue (foldl (AND) (c_conv t (- 1)) vs)) \<and>
    monoid_fold (bOR_operation t) vs (bOR_set_neutral t d) = Some (ResValue (foldl (OR) 0 vs)) \<and>
    monoid_fold (bXOR_operation t) vs (bXOR_set_neutral t d) = Some (ResValue (foldl (XOR) 0 vs))"
proof -
  have zero: "c_conv t 0 = 0" by (cases t) (simp_all add: c_conv_def)
  have zero_ok: "in_range t 0" using c_conv_in_range [of t 0] by (simp add: zero)
  note folded = monoid_fold_value [where I = "in_range t" and P = "in_range t"]
  have "monoid_fold (bAND_operation t) vs (ResValue (c_conv t (- 1))) = Some (ResValue (foldl (AND) (c_conv t (- 1)) vs))"
    unfolding bAND_operation_def
    by (rule folded) (use assms bits_step [OF assms(1)] bits_in_range [OF assms(1)] c_conv_in_range in auto)
  moreover have "monoid_fold (bOR_operation t) vs (ResValue 0) = Some (ResValue (foldl (OR) 0 vs))"
    unfolding bOR_operation_def
    by (rule folded) (use assms bits_step [OF assms(1)] bits_in_range [OF assms(1)] zero_ok in auto)
  moreover have "monoid_fold (bXOR_operation t) vs (ResValue 0) = Some (ResValue (foldl (XOR) 0 vs))"
    unfolding bXOR_operation_def
    by (rule folded) (use assms bits_step [OF assms(1)] bits_in_range [OF assms(1)] zero_ok in auto)
  ultimately show ?thesis
    by (simp add: bAND_set_neutral_def bOR_set_neutral_def bXOR_set_neutral_def zero all_ones [OF assms(1)])
qed

lemma bitwise_monoids_spec_witness:
  "monoid_fold (bAND_operation CUI8) [252, 63] (bAND_set_neutral CUI8 (ResValue 0)) = Some (ResValue 60) \<and>
   monoid_fold (bXOR_operation CI16) [- 1, 255] (bXOR_set_neutral CI16 (ResValue 0)) = Some (ResValue (- 256))"
  using bitwise_monoids_spec [of CUI8 "[252, 63]" "ResValue 0"] bitwise_monoids_spec [of CI16 "[- 1, 255]" "ResValue 0"]
  by (simp add: in_range_def c_min_def c_max_def c_conv_def)

section \<open>The mean\<close>

lemma sum_value: "sum_operation t (ResValue r) v = map_option (\<lambda>x. (0, ResValue x)) (c_assign t (c_add t t r v))"
  by (simp add: sum_operation_def on_value_def)

lemma mean_fold:
  "monoid_fold (sum_operation t) vs (ResValue s) = Some (ResValue s') \<Longrightarrow>
   monoid_fold (mean_operation t) vs (ResMean c s v) = Some (ResMean (c + of_nat (length vs)) s' v)"
proof (induction vs arbitrary: c s)
  case (Cons x vs)
  then obtain s1 where "c_assign t (c_add t t s x) = Some s1" "monoid_fold (sum_operation t) vs (ResValue s1) = Some (ResValue s')"
    by (auto simp: sum_value split: bind_splits)
  with Cons.IH [of s1 "c + 1"] show ?case by (simp add: mean_operation_def algebra_simps)
qed simp

lemma sdiv_in_range:
  assumes "in_range t s" "0 < n"
  shows "in_range t (s sdiv n)"
proof (cases "0 \<le> s")
  case True
  then have "s sdiv n = s div n" using assms(2) by (cases "s = 0") (simp_all add: signed_divide_int_def sgn_if)
  moreover have "0 \<le> s div n" "s div n \<le> s"
    using True assms(2) zdiv_mono2 [of s 1 n] by (simp_all add: pos_imp_zdiv_nonneg_iff)
  moreover have "c_min t \<le> 0" by (simp add: c_min_def)
  ultimately show ?thesis using assms(1) by (simp add: in_range_def)
next
  case False
  then have "s sdiv n = - ((- s) div n)" using assms(2) by (simp add: signed_divide_int_def sgn_if)
  moreover have "0 \<le> (- s) div n" "(- s) div n \<le> - s"
    using False assms(2) zdiv_mono2 [of "- s" 1 n] by (simp_all add: pos_imp_zdiv_nonneg_iff)
  moreover have "0 \<le> c_max t" by (simp add: c_max_def)
  ultimately show ?thesis using assms(1) by (simp add: in_range_def)
qed

lemma c_eval_holds: "t \<noteq> CBool \<Longrightarrow> in_range t x \<Longrightarrow> c_eval (c_promote t) x = Some x"
  using promote_holds [of t x] by (auto simp: c_eval_def in_range_def c_min_def c_max_def)

text \<open>
  C35: The state of \<open>mean()\<close> over integers of a type whose partial sums fit. The result it gives is the sum
  (as the type holds it) divided by their number and rounded towards zero, as long as the number is at
  most the greatest value of the type. The number is converted to the type before the division, so the
  mean of more values is divided by what is left of it (a negative number for 130 values of eight
  bits), and the division is undefined when it is a multiple of the type's modulus. Of no values the
  state gives 0, which the attribute of \<open>mean()\<close> never asks for: it has no result when an argument has no data.
\<close>

theorem mean_monoid_spec:
  assumes "t \<noteq> CBool" "\<forall>v \<in> set vs. in_range t v" "\<forall>n \<le> length vs. sum_fits t (sum_list (take n vs))"
    and "length vs < 2 ^ 64"
  shows "\<exists>m. monoid_fold (mean_operation t) vs (mean_set_neutral d) = Some m \<and>
    (vs = [] \<longrightarrow> map_option fst (mean_retrieve_result t m) = Some 0) \<and>
    (vs \<noteq> [] \<and> int (length vs) \<le> c_max t \<longrightarrow>
       map_option fst (mean_retrieve_result t m) = Some (c_conv t (sum_list vs) sdiv int (length vs))) \<and>
    (vs \<noteq> [] \<and> c_conv t (int (length vs)) \<noteq> 0 \<and> in_range t (c_conv t (sum_list vs) sdiv c_conv t (int (length vs))) \<longrightarrow>
       map_option fst (mean_retrieve_result t m) = Some (c_conv t (sum_list vs) sdiv c_conv t (int (length vs)))) \<and>
    (vs \<noteq> [] \<and> int (length vs) mod 2 ^ c_width t = 0 \<longrightarrow> mean_retrieve_result t m = None)"
proof -
  let ?s = "c_conv t (sum_list vs)" and ?n = "int (length vs)"
  have fold: "monoid_fold (sum_operation t) vs (ResValue 0) = Some (ResValue ?s)"
    using sum_fold [OF assms(1,2), of undefined] assms(3) by (simp add: sum_set_neutral_def)
  have m: "monoid_fold (mean_operation t) vs (mean_set_neutral d) = Some (ResMean (of_nat (length vs)) ?s 0)"
    using mean_fold [OF fold, of 0 0] by (simp add: mean_set_neutral_def)
  have n: "uint (of_nat (length vs) :: u64) = ?n" using assms(4) by (simp add: uint_nat unat_of_nat)
  then have n0: "(of_nat (length vs) :: u64) = 0 \<longleftrightarrow> vs = []" by (metis length_0_conv of_nat_0 of_nat_eq_0_iff uint_0_iff)
  have div: "c_div t t ?s ?n = Some (?s sdiv ?n)" "c_conv t ?n = ?n" if "vs \<noteq> []" "?n \<le> c_max t"
  proof -
    have pos: "0 < ?n" using that(1) by simp
    moreover have "c_min t \<le> 0" by (simp add: c_min_def)
    ultimately have r: "in_range t ?n" using that(2) by (simp add: in_range_def)
    then show "c_conv t ?n = ?n" by (rule c_conv_id)
    show "c_div t t ?s ?n = Some (?s sdiv ?n)"
      using pos promote_holds [OF r] promote_holds [OF c_conv_in_range [of t "sum_list vs"]]
        c_eval_holds [OF assms(1) sdiv_in_range [OF c_conv_in_range pos]]
      by (simp add: c_div_def c_usual_same Let_def c_conv_id)
  qed
  have zero: "c_conv t ?n = 0" if "?n mod 2 ^ c_width t = 0"
  proof -
    have "c_conv t ?n = c_conv t 0" by (rule c_conv_cong [OF assms(1)]) (use that in simp)
    also have "\<dots> = 0" by (cases t) (simp_all add: c_conv_def)
    finally show ?thesis .
  qed
  have "mean_retrieve_result t (ResMean (of_nat (length vs)) ?s 0) = None" if "vs \<noteq> []" "?n mod 2 ^ c_width t = 0"
  proof -
    have "c_conv (c_promote t) 0 = 0" by (cases t) (simp_all add: c_conv_def c_promote_def)
    then show ?thesis using that zero n n0 by (simp add: mean_retrieve_result_def c_div_def c_usual_same c_assign_def Let_def)
  qed
  moreover have "map_option fst (mean_retrieve_result t (ResMean (of_nat (length vs)) ?s 0)) = Some (?s sdiv ?n)"
    if "vs \<noteq> []" "?n \<le> c_max t"
  proof -
    have "in_range t (?s sdiv ?n)" by (rule sdiv_in_range [OF c_conv_in_range]) (use that(1) in simp)
    then show ?thesis using div [OF that] that(1) n n0 by (simp add: mean_retrieve_result_def c_assign_def c_conv_id)
  qed
  moreover have "map_option fst (mean_retrieve_result t (ResMean (of_nat (length vs)) ?s 0)) = Some (?s sdiv c_conv t ?n)"
    if "vs \<noteq> []" "c_conv t ?n \<noteq> 0" "in_range t (?s sdiv c_conv t ?n)"
  proof -
    have "c_div t t ?s (c_conv t ?n) = Some (?s sdiv c_conv t ?n)"
      using that(2) c_eval_holds [OF assms(1) that(3)] promote_holds [OF c_conv_in_range [of t "sum_list vs"]]
        promote_holds [OF c_conv_in_range [of t ?n]]
      by (simp add: c_div_def c_usual_same Let_def c_conv_id)
    then show ?thesis using that n n0 by (simp add: mean_retrieve_result_def c_assign_def c_conv_id)
  qed
  ultimately show ?thesis using m by (auto simp: mean_retrieve_result_def)
qed

lemma mean_monoid_spec_witness:
  "(\<exists>m. monoid_fold (mean_operation CI8) [3, - 10] (mean_set_neutral (ResValue 0)) = Some m \<and>
     map_option fst (mean_retrieve_result CI8 m) = Some (- 3)) \<and>
   (\<exists>m. monoid_fold (mean_operation CI8) (126 # replicate 129 0) (mean_set_neutral (ResValue 0)) = Some m \<and>
     map_option fst (mean_retrieve_result CI8 m) = Some (- 1))"
proof -
  let ?vs = "126 # replicate 129 (0::int)"
  have "\<forall>n \<le> length [3, - 10 :: int]. sum_fits CI8 (sum_list (take n [3, - 10]))" by (simp add: sum_fits_def)
  then have "\<exists>m. monoid_fold (mean_operation CI8) [3, - 10] (mean_set_neutral (ResValue 0)) = Some m \<and>
      map_option fst (mean_retrieve_result CI8 m) = Some (- 3)"
    using mean_monoid_spec [of CI8 "[3, - 10]" "ResValue 0"]
    by (auto simp: in_range_def c_min_def c_max_def c_conv_def signed_divide_int_def)
  moreover have "\<forall>n \<le> length ?vs. sum_fits CI8 (sum_list (take n ?vs))" by (simp add: sum_fits_def)
  then have "\<exists>m. monoid_fold (mean_operation CI8) ?vs (mean_set_neutral (ResValue 0)) = Some m \<and>
      map_option fst (mean_retrieve_result CI8 m) = Some (- 1)"
    using mean_monoid_spec [of CI8 ?vs "ResValue 0"]
    by (auto simp: in_range_def c_min_def c_max_def c_conv_def signed_divide_int_def sum_list_replicate)
  ultimately show ?thesis by blast
qed

end
