(* ===== verification/Monoids.thy ===== *)
theory Monoids
  imports MonoidOps Filters
begin

text \<open>
  The common life of the monoid functions (\<open>src/funcs/monoids.c\<close>): the state with its converted
  values, the convolution over the arguments, the inference of the result's type and the
  constructor that \<open>hdql_functions_add_monoids\<close> registers. Texts of failures are left out.
\<close>

section \<open>Definition data and state\<close>

text \<open>
  \<open>'q\<close> is a query; on the dynamic side what its links are is kept beside it. The definition of the
  monoid holds the callbacks that make and read the result. (The count of queries is the length of
  the list; in the code it has 31 bits.)
\<close>

record ('d, 'm, 'q, 'f) SMADefData_t =
  sd_rTypeCode :: tcode
  sd_queries :: "'q list"
  sd_converters :: "'f option list"
  sd_resultDefinedForEmptySet :: bool
  sd_monoidDef :: "('d, 'm) MonoidDefinition"

type_synonym ('d, 's, 'a, 'v) linked_query = "('d, 's, 'a, 'v) hdql_Query list \<times> q_link list"

type_synonym ('d, 'm, 's, 'a, 'v, 'f) monoid_data = "('d, 'm, ('d, 's, 'a, 'v) linked_query, 'f) SMADefData_t"

record ('d, 'm) SMADynamicData_t =
  sy_addr :: addr
  sy_array :: addr
  sy_convertedValues :: "(addr \<times> 'd) option list"
  sy_result :: "addr \<times> 'm"

text \<open>A destination for each argument whose type is not the result's.\<close>

fun alloc_destinations ::
  "'i types_table option \<Rightarrow> (addr \<Rightarrow> 'd) \<Rightarrow> tcode \<Rightarrow> (q_link list \<times> 'f option) list \<Rightarrow> hdql_Context \<Rightarrow>
   ((addr \<times> 'd) option list \<times> hdql_Context) option"
where
  "alloc_destinations types mem tc [] c = Some ([], c)"
| "alloc_destinations types mem tc ((q, cv) # qs) c = do {
     top \<leftarrow> hdql_query_top_attr q;
     qAD \<leftarrow> hdql_attr_def_top_attr top;
     atf \<leftarrow> hdql_attr_def_atomic_type_info qAD;
     (v, c) \<leftarrow> (if ucast (at_arithTypeCode atf) = tc
       then do { c_assert (Option.is_none cv); Some (None, c) }
       else do { (v, c) \<leftarrow> new_value types mem tc c; c_assert (\<not> Option.is_none v); Some (v, c) });
     (vs, c) \<leftarrow> alloc_destinations types mem tc qs c;
     Some (v # vs, c) }"

definition monoid_new_dyn_data ::
  "'i types_table option \<Rightarrow> (addr \<Rightarrow> 'd) \<Rightarrow> 'd option \<Rightarrow> ('d, 'm, 's, 'a, 'v, 'f) monoid_data \<Rightarrow> hdql_Context \<Rightarrow>
   (('d, 'm) SMADynamicData_t option \<times> ('d, 'm, 's, 'a, 'v, 'f) monoid_data \<times> hdql_Context) option"
where
  "monoid_new_dyn_data types mem newOwner defData c = do {
     let (p, c) = ctx_alloc c;
     a \<leftarrow> p;
     let (p, c) = ctx_alloc c;
     b \<leftarrow> p;
     (vs, c) \<leftarrow> alloc_destinations types mem (sd_rTypeCode defData) (zip (map snd (sd_queries defData)) (sd_converters defData)) c;
     (r, c) \<leftarrow> md_alloc_result (sd_monoidDef defData) (sd_rTypeCode defData) c;
     r \<leftarrow> r;
     Some (Some \<lparr>sy_addr = a, sy_array = b, sy_convertedValues = vs, sy_result = r\<rparr>, defData, c) }"

section \<open>The convolution\<close>

text \<open>
  The operation on a datum of an argument, converted if need be. What the converter and the
  operation return is ignored. An argument is the query, its converter and the destination.
\<close>

definition monoid_apply ::
  "('f \<Rightarrow> 'd \<Rightarrow> int \<times> 'd) \<Rightarrow> ('d, 'm) MonoidDefinition \<Rightarrow> 'f option \<Rightarrow> 'd \<Rightarrow> (addr \<times> 'd) option \<times> 'm \<Rightarrow>
   ((addr \<times> 'd) option \<times> 'm) option"
where
  "monoid_apply convert md cv x vm = (case (vm, cv) of
     ((v, m), None) \<Rightarrow> do { (_, m) \<leftarrow> md_operation md m x; Some (v, m) }
   | ((v, m), Some f) \<Rightarrow> do {
       (p, _) \<leftarrow> v;
       let (_, y) = convert f x;
       (_, m) \<leftarrow> md_operation md m y;
       Some (Some (p, y), m) })"

type_synonym ('d, 's, 'a, 'v, 'f) monoid_arg =
  "('d, 's, 'a, 'v) hdql_Query list \<times> 'f option \<times> (addr \<times> 'd) option"

text \<open>The first loop: each query is reset and gives its first datum; the first that gives none ends it.\<close>

fun monoid_resets ::
  "('f \<Rightarrow> 'd \<Rightarrow> int \<times> 'd) \<Rightarrow> ('d, 'm) MonoidDefinition \<Rightarrow> 'd option \<Rightarrow> ('d, 's, 'a, 'v, 'f) monoid_arg list \<Rightarrow>
   'v hdql_Key option \<Rightarrow> 'm \<Rightarrow> hdql_Context \<Rightarrow>
   (bool \<times> ('d, 's, 'a, 'v, 'f) monoid_arg list \<times> 'v hdql_Key option \<times> 'm \<times> hdql_Context) option"
where
  "monoid_resets convert md newOwner [] key m c = Some (True, [], key, m, c)"
| "monoid_resets convert md newOwner ((qs, cv, v) # args) key m c = do {
     (r, qs, key, c) \<leftarrow> hdql_query_reset qs newOwner key c;
     (case r of
        None \<Rightarrow> Some (False, (qs, cv, v) # args, key, m, c)
      | Some x \<Rightarrow> do {
          (v, m) \<leftarrow> monoid_apply convert md cv x (v, m);
          (complete, args, key, m, c) \<leftarrow> monoid_resets convert md newOwner args key m c;
          Some (complete, (qs, cv, v) # args, key, m, c) }) }"

text \<open>The second loop: each query is asked for what it has left.\<close>

fun monoid_gets ::
  "('f \<Rightarrow> 'd \<Rightarrow> int \<times> 'd) \<Rightarrow> ('d, 'm) MonoidDefinition \<Rightarrow> ('d, 's, 'a, 'v, 'f) monoid_arg list \<Rightarrow> 'm \<Rightarrow> hdql_Context \<Rightarrow>
   (('d, 's, 'a, 'v, 'f) monoid_arg list \<times> 'm \<times> hdql_Context) option"
where
  "monoid_gets convert md [] m c = Some ([], m, c)"
| "monoid_gets convert md ((qs, cv, v) # args) m c = do {
     (r, qs, _, c) \<leftarrow> hdql_query_get qs None c;
     ((v, m), qs, c) \<leftarrow> drain (monoid_apply convert md cv) r qs (v, m) c;
     (args, m, c) \<leftarrow> monoid_gets convert md args m c;
     Some ((qs, cv, v) # args, m, c) }"

text \<open>The arguments as the definition data and the state hold them.\<close>

definition monoid_args ::
  "('d, 'm, 's, 'a, 'v, 'f) monoid_data \<Rightarrow> ('d, 'm) SMADynamicData_t \<Rightarrow> ('d, 's, 'a, 'v, 'f) monoid_arg list" where
  "monoid_args dd st = zip (map fst (sd_queries dd)) (zip (sd_converters dd) (sy_convertedValues st))"

definition put_queries ::
  "('d, 's, 'a, 'v, 'f) monoid_arg list \<Rightarrow> ('d, 'm, 's, 'a, 'v, 'f) monoid_data \<Rightarrow> ('d, 'm, 's, 'a, 'v, 'f) monoid_data" where
  "put_queries args dd = dd\<lparr>sd_queries := zip (map fst args) (map snd (sd_queries dd))\<rparr>"

definition put_values ::
  "('d, 's, 'a, 'v, 'f) monoid_arg list \<Rightarrow> 'm \<Rightarrow> ('d, 'm) SMADynamicData_t \<Rightarrow> ('d, 'm) SMADynamicData_t" where
  "put_values args m st = st\<lparr>sy_convertedValues := map (snd \<circ> snd) args, sy_result := (fst (sy_result st), m)\<rparr>"

definition monoid_reset ::
  "('f \<Rightarrow> 'd \<Rightarrow> int \<times> 'd) \<Rightarrow> 'd option \<Rightarrow> ('d, 'm) SMADynamicData_t option \<Rightarrow> ('d, 'm, 's, 'a, 'v, 'f) monoid_data \<Rightarrow>
   'v hdql_Key option \<Rightarrow> hdql_Context \<Rightarrow>
   ('d option \<times> ('d, 'm) SMADynamicData_t option \<times> ('d, 'm, 's, 'a, 'v, 'f) monoid_data \<times> 'v hdql_Key option \<times> hdql_Context) option"
where
  "monoid_reset convert newOwner st defData key c = do {
     dynData \<leftarrow> st;
     let md = sd_monoidDef defData;
     let m = md_set_neutral md (snd (sy_result dynData));
     (complete, args, key, m, c) \<leftarrow> monoid_resets convert md newOwner (monoid_args defData dynData) key m c;
     if \<not> complete \<and> \<not> sd_resultDefinedForEmptySet defData
     then Some (None, Some (put_values args m dynData), put_queries args defData, key, c)
     else do {
       (args, m, c) \<leftarrow> (if complete then monoid_gets convert md args m c else Some (args, m, c));
       (r, m) \<leftarrow> md_retrieve md m;
       Some (Some r, Some (put_values args m dynData), put_queries args defData, key, c) } }"

text \<open>Releasing the destinations that are there.\<close>

fun free_destinations :: "(addr \<times> 'd) option list \<Rightarrow> hdql_Context \<Rightarrow> hdql_Context option" where
  "free_destinations [] c = Some c"
| "free_destinations (None # vs) c = free_destinations vs c"
| "free_destinations (Some (p, _) # vs) c = do { c \<leftarrow> ctx_free (Some p) c; free_destinations vs c }"

definition monoid_destroy ::
  "('d, 'm) SMADynamicData_t option \<Rightarrow> 'b \<Rightarrow> hdql_Context \<Rightarrow> ('b \<times> hdql_Context) option" where
  "monoid_destroy st defData c = (case st of
     None \<Rightarrow> Some (defData, c)
   | Some dynData \<Rightarrow> do {
       c \<leftarrow> free_destinations (sy_convertedValues dynData) c;
       c \<leftarrow> ctx_free (Some (sy_array dynData)) c;
       c \<leftarrow> ctx_free (Some (fst (sy_result dynData))) c;
       c \<leftarrow> ctx_free (Some (sy_addr dynData)) c;
       Some (defData, c) })"

definition monoid_iface ::
  "'i types_table option \<Rightarrow> (addr \<Rightarrow> 'd) \<Rightarrow> ('f \<Rightarrow> 'd \<Rightarrow> int \<times> 'd) \<Rightarrow>
   ('d, ('d, 'm) SMADynamicData_t, ('d, 'm, 's, 'a, 'v, 'f) monoid_data, 'v) hdql_ScalarAttrInterface"
where
  "monoid_iface types mem convert = \<lparr>si_new_dyn_data = Some (monoid_new_dyn_data types mem),
     si_reset = monoid_reset convert, si_destroy_dyn_data = Some monoid_destroy\<rparr>"

section \<open>What a convolution runs over\<close>

text \<open>
  An argument in the abstract: its outputs, and the converter. What the monoid is given are the
  first data of the arguments up to the first that has none, then, if all had one, what is left of
  each in turn.
\<close>

type_synonym ('d, 's, 'a, 'v, 'f) abstract_arg = "(('d, 's, 'a, 'v) hdql_Query, 'd) argument \<times> 'f option"

definition converted :: "('f \<Rightarrow> 'd \<Rightarrow> int \<times> 'd) \<Rightarrow> 'f option \<Rightarrow> 'd \<Rightarrow> 'd" where
  "converted convert cv x = (case cv of None \<Rightarrow> x | Some f \<Rightarrow> snd (convert f x))"

definition arg_data :: "('f \<Rightarrow> 'd \<Rightarrow> int \<times> 'd) \<Rightarrow> 'd option \<Rightarrow> ('d, 's, 'a, 'v, 'f) abstract_arg \<Rightarrow> 'd list" where
  "arg_data convert d A = map (converted convert (snd A)) (ag_outs (fst A) d)"

definition monoid_inputs :: "'d list list \<Rightarrow> 'd list" where
  "monoid_inputs xss = map hd (takeWhile (\<lambda>xs. xs \<noteq> []) xss) @ (if [] \<in> set xss then [] else concat (map tl xss))"

text \<open>A converter has a destination.\<close>

definition dest_ok :: "'f option \<Rightarrow> 'p option \<Rightarrow> bool" where
  "dest_ok cv v \<longleftrightarrow> (cv \<noteq> None \<longrightarrow> v \<noteq> None)"

text \<open>An argument between calls, and one that has \<open>xs\<close> left.\<close>

definition arg_ready :: "('d, 's, 'a, 'v, 'f) abstract_arg \<Rightarrow> ('d, 's, 'a, 'v, 'f) monoid_arg \<Rightarrow> bool" where
  "arg_ready A a \<longleftrightarrow> (case a of (qs, cv, v) \<Rightarrow> ag_valid (fst A) qs \<and> cv = snd A \<and> dest_ok cv v)"

lemma arg_ready_simp [simp]:
  "arg_ready A (qs, cv, v) \<longleftrightarrow> ag_valid (fst A) qs \<and> cv = snd A \<and> dest_ok cv v"
  by (simp add: arg_ready_def)

definition arg_left ::
  "('f \<Rightarrow> 'd \<Rightarrow> int \<times> 'd) \<Rightarrow> ('d, 's, 'a, 'v, 'f) abstract_arg \<times> 'd list \<Rightarrow> ('d, 's, 'a, 'v, 'f) monoid_arg \<Rightarrow> bool" where
  "arg_left convert A a \<longleftrightarrow> (case a of (qs, cv, v) \<Rightarrow>
     \<exists>xs. ag_pending (fst (fst A)) qs xs \<and> snd A = map (converted convert cv) xs \<and> cv = snd (fst A) \<and> dest_ok cv v)"

lemma apply_step:
  assumes "md_operation md m (converted convert cv x) = Some (rc, m')" "dest_ok cv v"
  shows "\<exists>v'. monoid_apply convert md cv x (v, m) = Some (v', m') \<and> dest_ok cv v'"
  using assms by (cases cv; cases v) (auto simp: monoid_apply_def converted_def dest_ok_def split: prod.splits)

lemma apply_fold:
  assumes "monoid_fold (md_operation md) (map (converted convert cv) xs) m = Some m'" "dest_ok cv v"
  shows "\<exists>v'. ofold (monoid_apply convert md cv) xs (v, m) = Some (v', m') \<and> dest_ok cv v'"
  using assms
proof (induction xs arbitrary: v m)
  case (Cons x xs)
  from Cons.prems(1) [unfolded list.map] obtain rc m1 where m1: "md_operation md m (converted convert cv x) = Some (rc, m1)"
    "monoid_fold (md_operation md) (map (converted convert cv) xs) m1 = Some m'"
    by (rule monoid_fold_ConsE)
  obtain v1 where v1: "monoid_apply convert md cv x (v, m) = Some (v1, m1)" "dest_ok cv v1"
    using apply_step [OF m1(1) Cons.prems(2)] by blast
  from Cons.IH [OF m1(2) v1(2)] v1(1) show ?case by auto
qed simp

lemma resets_gives:
  assumes args: "list_all2 arg_ready As args" "\<forall>A \<in> set As. query_arg (fst A) ok" "\<forall>A \<in> set As. d = None \<longrightarrow> ag_null (fst A)"
    and c: "ok c"
    and fold: "monoid_fold (md_operation md) (map hd (takeWhile (\<lambda>xs. xs \<noteq> []) (map (arg_data convert d) As))) m = Some m'"
  shows "\<exists>args' c'. monoid_resets convert md d args None m c = Some ([] \<notin> set (map (arg_data convert d) As), args', None, m', c') \<and>
    ok c' \<and> list_all2 arg_ready As args' \<and>
    ([] \<notin> set (map (arg_data convert d) As) \<longrightarrow> list_all2 (arg_left convert) (zip As (map (tl \<circ> arg_data convert d) As)) args')"
  using args c fold
proof (induction As args arbitrary: m c rule: list_all2_induct)
  case (Cons A As a args)
  obtain qs cv v where a: "a = (qs, cv, v)" by (cases a)
  have A: "query_arg (fst A) ok" "ag_valid (fst A) qs" "cv = snd A" "dest_ok cv v" "d = None \<longrightarrow> ag_null (fst A)"
    using Cons.prems(1,2) Cons.hyps(1) by (auto simp: a)
  note fold = Cons.prems(4)
  from query_arg.reset_gives [OF A(1,2) Cons.prems(3) A(5)] obtain qs1 c1 where
    r: "hdql_query_reset qs d None c = Some (first (ag_outs (fst A) d), qs1, None, c1)" "ok c1"
    "if ag_outs (fst A) d = [] then ag_valid (fst A) qs1 else ag_pending (fst A) qs1 (tl (ag_outs (fst A) d))" by blast
  show ?case
  proof (cases "ag_outs (fst A) d")
    case Nil
    then have "arg_data convert d A = []" by (simp add: arg_data_def)
    moreover have "m' = m" using Cons.prems(4) calculation by simp
    ultimately show ?thesis using r Nil A(3,4) Cons.hyps(2) by (simp add: a)
  next
    case (Cons x xs)
    then have data: "arg_data convert d A = converted convert cv x # map (converted convert cv) xs" by (simp add: arg_data_def A(3))
    have "monoid_fold (md_operation md) (converted convert cv x # map hd (takeWhile (\<lambda>xs. xs \<noteq> []) (map (arg_data convert d) As))) m = Some m'"
      using fold by (simp add: data del: monoid_fold_simps)
    then obtain rc m1 where m1: "md_operation md m (converted convert cv x) = Some (rc, m1)"
      "monoid_fold (md_operation md) (map hd (takeWhile (\<lambda>xs. xs \<noteq> []) (map (arg_data convert d) As))) m1 = Some m'"
      by (rule monoid_fold_ConsE)
    obtain v1 where v1: "monoid_apply convert md cv x (v, m) = Some (v1, m1)" "dest_ok cv v1"
      using apply_step [OF m1(1) A(4)] by blast
    obtain args' c2 where IH: "monoid_resets convert md d args None m1 c1 =
        Some ([] \<notin> set (map (arg_data convert d) As), args', None, m', c2)" "ok c2" "list_all2 arg_ready As args'"
      "[] \<notin> set (map (arg_data convert d) As) \<longrightarrow> list_all2 (arg_left convert) (zip As (map (tl \<circ> arg_data convert d) As)) args'"
    proof -
      have "\<forall>A \<in> set As. query_arg (fst A) ok" "\<forall>A \<in> set As. d = None \<longrightarrow> ag_null (fst A)" using Cons.prems(1,2) by simp_all
      from Cons.IH [OF this r(2) m1(2)] show thesis using that by blast
    qed
    have p: "ag_pending (fst A) qs1 xs" using r(3) Cons by simp
    have "arg_ready A (qs1, cv, v1)" using v1(2) A(3) query_arg.pending_valid [OF A(1) p] by simp
    moreover have "arg_left convert (A, tl (arg_data convert d A)) (qs1, cv, v1)"
      using v1(2) A(3) p data by (auto simp: arg_left_def)
    ultimately show ?thesis using r(1) Cons v1 IH data A(3) by (auto simp: a comp_def)
  qed
qed simp

lemma gets_gives:
  assumes "list_all2 (arg_left convert) AXs args" "\<forall>AX \<in> set AXs. query_arg (fst (fst AX)) ok" "ok c"
    and "monoid_fold (md_operation md) (concat (map snd AXs)) m = Some m'"
  shows "\<exists>args' c'. monoid_gets convert md args m c = Some (args', m', c') \<and> ok c' \<and> list_all2 arg_ready (map fst AXs) args'"
  using assms
proof (induction AXs args arbitrary: m c rule: list_all2_induct)
  case (Cons AX AXs a args)
  obtain qs cv v xs where a: "a = (qs, cv, v)" and A: "ag_pending (fst (fst AX)) qs xs" "snd AX = map (converted convert cv) xs"
    "cv = snd (fst AX)" "dest_ok cv v"
    using Cons.hyps(1) by (cases a) (auto simp: arg_left_def)
  have Q: "query_arg (fst (fst AX)) ok" using Cons.prems(1) by simp
  have "monoid_fold (md_operation md) (map (converted convert cv) xs @ concat (map snd AXs)) m = Some m'"
    using Cons.prems(3) A(2) by simp
  then obtain m1 where m1: "monoid_fold (md_operation md) (map (converted convert cv) xs) m = Some m1"
    "monoid_fold (md_operation md) (concat (map snd AXs)) m1 = Some m'"
    by (rule monoid_fold_appendE)
  obtain v1 where v1: "ofold (monoid_apply convert md cv) xs (v, m) = Some (v1, m1)" "dest_ok cv v1"
    using apply_fold [OF m1(1) A(4)] by blast
  from query_arg.get_gives [OF Q A(1) Cons.prems(2)] obtain qs1 c1 where
    g: "hdql_query_get qs None c = Some (first xs, qs1, None, c1)" "ok c1" "ag_pending (fst (fst AX)) qs1 (tl xs)" by blast
  have "if xs = [] then ag_valid (fst (fst AX)) qs1 else ag_pending (fst (fst AX)) qs1 (tl xs)"
    using g(3) query_arg.pending_valid [OF Q] by simp
  from query_arg.drain_outs [OF Q this g(2) v1(1)] obtain qs2 c2 where
    d: "drain (monoid_apply convert md cv) (first xs) qs1 (v, m) c1 = Some ((v1, m1), qs2, c2)" "ok c2" "ag_valid (fst (fst AX)) qs2"
    by blast
  from Cons.IH [OF _ d(2) m1(2)] Cons.prems(1) obtain args' c3 where
    "monoid_gets convert md args m1 c2 = Some (args', m', c3)" "ok c3" "list_all2 arg_ready (map fst AXs) args'" by auto
  then show ?case using g(1) d(1,3) v1(2) A(3) by (simp add: a)
qed simp

section \<open>The reset of a monoid\<close>

definition monoid_dd_ok ::
  "('d, 's, 'a, 'v, 'f) abstract_arg list \<Rightarrow> q_link list list \<Rightarrow> tcode \<Rightarrow> bool \<Rightarrow> ('d, 'm) MonoidDefinition \<Rightarrow>
   ('d, 'm, 's, 'a, 'v, 'f) monoid_data \<Rightarrow> bool"
where
  "monoid_dd_ok As links tc empty_defined md dd \<longleftrightarrow>
     sd_monoidDef dd = md \<and> sd_rTypeCode dd = tc \<and> sd_resultDefinedForEmptySet dd = empty_defined \<and>
     sd_converters dd = map snd As \<and> map snd (sd_queries dd) = links \<and>
     list_all2 (\<lambda>A q. ag_valid (fst A) (fst q)) As (sd_queries dd)"

definition monoid_st_ok :: "('d, 's, 'a, 'v, 'f) abstract_arg list \<Rightarrow> ('d, 'm) SMADynamicData_t \<Rightarrow> bool" where
  "monoid_st_ok As st \<longleftrightarrow> list_all2 (\<lambda>A v. dest_ok (snd A) v) As (sy_convertedValues st)"

lemma monoid_args_ready:
  assumes "monoid_dd_ok As links tc e md dd" "monoid_st_ok As st"
  shows "list_all2 arg_ready As (monoid_args dd st)"
  using assms unfolding monoid_dd_ok_def monoid_st_ok_def monoid_args_def
  by (auto simp: list_all2_conv_all_nth)

lemma arg_ready_parts:
  "arg_ready A a \<longleftrightarrow> ag_valid (fst A) (fst a) \<and> fst (snd a) = snd A \<and> dest_ok (snd A) (snd (snd a))"
  by (cases a) auto

lemma put_ready:
  assumes "monoid_dd_ok As links tc e md dd" "list_all2 arg_ready As args"
  shows "monoid_dd_ok As links tc e md (put_queries args dd)" "monoid_st_ok As (put_values args m st)"
proof -
  have "length As = length (sd_queries dd)" using assms(1) unfolding monoid_dd_ok_def by (blast dest: list_all2_lengthD)
  moreover have "length As = length args" using assms(2) by (rule list_all2_lengthD)
  ultimately have len: "length args = length (sd_queries dd)" by simp
  show "monoid_dd_ok As links tc e md (put_queries args dd)"
    using assms len unfolding monoid_dd_ok_def put_queries_def
    by (auto simp: list_all2_conv_all_nth arg_ready_parts)
  show "monoid_st_ok As (put_values args m st)"
    using assms(2) unfolding monoid_st_ok_def put_values_def
    by (auto simp: list_all2_conv_all_nth arg_ready_parts)
qed

lemma monoid_reset_gives:
  assumes dd: "monoid_dd_ok As links tc e md dd" and st: "monoid_st_ok As st"
    and A: "\<forall>A \<in> set As. query_arg (fst A) ok" "\<forall>A \<in> set As. d = None \<longrightarrow> ag_null (fst A)" and c: "ok c"
    and neutral: "\<And>m. md_set_neutral md m = m0"
    and fold: "monoid_fold (md_operation md) (monoid_inputs (map (arg_data convert d) As)) m0 = Some m1"
    and r: "md_retrieve md m1 = Some (x, m2)"
  shows "\<exists>st' dd' c'. monoid_reset convert d (Some st) dd None c =
      Some (if [] \<in> set (map (arg_data convert d) As) \<and> \<not> e then None else Some x, Some st', dd', None, c') \<and>
    monoid_dd_ok As links tc e md dd' \<and> monoid_st_ok As st' \<and> ok c'"
proof -
  let ?xss = "map (arg_data convert d) As"
  have sd: "sd_monoidDef dd = md" "sd_resultDefinedForEmptySet dd = e" using dd by (simp_all add: monoid_dd_ok_def)
  obtain m where m: "monoid_fold (md_operation md) (map hd (takeWhile (\<lambda>xs. xs \<noteq> []) ?xss)) m0 = Some m"
    "monoid_fold (md_operation md) (if [] \<in> set ?xss then [] else concat (map tl ?xss)) m = Some m1"
    using fold unfolding monoid_inputs_def by (rule monoid_fold_appendE)
  obtain args c1 where 1: "monoid_resets convert md d (monoid_args dd st) None m0 c = Some ([] \<notin> set ?xss, args, None, m, c1)"
    "ok c1" "list_all2 arg_ready As args"
    "[] \<notin> set ?xss \<longrightarrow> list_all2 (arg_left convert) (zip As (map (tl \<circ> arg_data convert d) As)) args"
    using resets_gives [OF monoid_args_ready [OF dd st] A c m(1)] by blast
  show ?thesis
  proof (cases "[] \<in> set ?xss")
    case True
    then have "m = m1" using m(2) by simp
    then show ?thesis
      using True 1 r put_ready [OF dd 1(3)] unfolding monoid_reset_def Let_def sd neutral bind.bind_lunit
      by (cases e) (simp_all add: sd neutral)
  next
    case False
    let ?AXs = "zip As (map (tl \<circ> arg_data convert d) As)"
    have "concat (map snd ?AXs) = concat (map tl ?xss)" by (simp add: comp_def)
    then have "monoid_fold (md_operation md) (concat (map snd ?AXs)) m = Some m1" using m(2) False by simp
    moreover have "\<forall>AX \<in> set ?AXs. query_arg (fst (fst AX)) ok" using A(1) set_zip_leftD by fastforce
    ultimately obtain args' c2 where 2: "monoid_gets convert md args m c1 = Some (args', m1, c2)" "ok c2"
      "list_all2 arg_ready (map fst ?AXs) args'"
      using gets_gives [of convert ?AXs args ok c1 md m m1] 1(2,4) False by blast
    have "list_all2 arg_ready As args'" using 2(3) by simp
    then show ?thesis
      using False 1(1) 2(1,2) r put_ready [OF dd] by (simp add: monoid_reset_def Let_def sd neutral)
  qed
qed

section \<open>The state of a monoid\<close>

text \<open>The type of an argument, and what it takes to make values of a type.\<close>

definition arg_type :: "q_link list \<Rightarrow> tcode option" where
  "arg_type q = do {
     top \<leftarrow> hdql_query_top_attr q;
     qAD \<leftarrow> hdql_attr_def_top_attr top;
     atf \<leftarrow> hdql_attr_def_atomic_type_info qAD;
     Some (ucast (at_arithTypeCode atf)) }"

lemma destination_step:
  assumes "arg_type q = Some t"
  shows "alloc_destinations types mem tc ((q, cv) # qs) c = do {
     (v, c) \<leftarrow> (if t = tc then do { c_assert (Option.is_none cv); Some (None, c) }
       else do { (v, c) \<leftarrow> new_value types mem tc c; c_assert (\<not> Option.is_none v); Some (v, c) });
     (vs, c) \<leftarrow> alloc_destinations types mem tc qs c;
     Some (v # vs, c) }"
proof -
  obtain top qAD atf where "hdql_query_top_attr q = Some top" "hdql_attr_def_top_attr top = Some qAD"
    "hdql_attr_def_atomic_type_info qAD = Some atf" "t = ucast (at_arithTypeCode atf)"
    using assms unfolding arg_type_def bind_eq_Some_conv by blast
  then show ?thesis by simp
qed

definition creates :: "'i types_table option \<Rightarrow> tcode \<Rightarrow> bool" where
  "creates types tc \<longleftrightarrow> (\<forall>c. no_oom c \<longrightarrow> (\<exists>a c'. hdql_create_value types tc c = Some (Some a, c') \<and> no_oom c'))"

lemma creates_plain:
  assumes "get_by_code vt tc = Some (Some i)" "ti_size i > 0" "ti_init i = None"
  shows "creates (Some vt) tc"
  unfolding creates_def
proof (intro allI impI)
  fix c assume "no_oom c"
  then obtain a c' where "ctx_alloc c = (Some a, c')" "no_oom c'" by (rule no_oom_alloc)
  with assms show "\<exists>a c'. hdql_create_value (Some vt) tc c = Some (Some a, c') \<and> no_oom c'"
    by (simp add: hdql_create_value_def)
qed

definition arg_typed :: "tcode \<Rightarrow> q_link list \<times> 'f option \<Rightarrow> bool" where
  "arg_typed tc a \<longleftrightarrow> (\<exists>t. arg_type (fst a) = Some t \<and> (t = tc \<longrightarrow> snd a = None))"

lemma destinations_made:
  assumes "creates types tc" "\<forall>a \<in> set qs. arg_typed tc a" "no_oom c"
  shows "\<exists>vs c'. alloc_destinations types mem tc qs c = Some (vs, c') \<and> list_all2 (\<lambda>a v. dest_ok (snd a) v) qs vs \<and> no_oom c'"
  using assms(2,3)
proof (induction qs arbitrary: c)
  case (Cons a qs)
  obtain q cv where a: "a = (q, cv)" by (cases a)
  obtain t where t: "arg_type q = Some t" "t = tc \<longrightarrow> cv = None" using Cons.prems(1) by (auto simp: arg_typed_def a)
  obtain v c1 where v: "(if t = tc then do { c_assert (Option.is_none cv); Some (None, c) }
       else do { (v, c) \<leftarrow> new_value types mem tc c; c_assert (\<not> Option.is_none v); Some (v, c) }) = Some (v, c1)"
    "dest_ok cv v" "no_oom c1"
  proof (cases "t = tc")
    case True
    then show thesis using that [of None c] t(2) Cons.prems(2) by (simp add: dest_ok_def)
  next
    case False
    obtain b c1 where "hdql_create_value types tc c = Some (Some b, c1)" "no_oom c1"
      using assms(1) Cons.prems(2) unfolding creates_def by blast
    then show thesis using that [of "Some (b, mem b)" c1] False by (simp add: new_value_def dest_ok_def)
  qed
  from Cons.IH [OF _ v(3)] Cons.prems(1) obtain vs c2 where
    "alloc_destinations types mem tc qs c1 = Some (vs, c2)" "list_all2 (\<lambda>a v. dest_ok (snd a) v) qs vs" "no_oom c2" by auto
  then show ?case unfolding a destination_step [OF t(1)] v(1) using v(2) by simp
qed simp

text \<open>
  The contract: arguments whose data are converted where their type is not the result's, memory,
  and an operation that is defined on what the arguments give.
\<close>

locale monoid_convolution =
  fixes types :: "'i types_table option" and mem :: "addr \<Rightarrow> 'd" and convert :: "'f \<Rightarrow> 'd \<Rightarrow> int \<times> 'd"
    and As :: "('d, 's, 'a, 'v, 'f) abstract_arg list" and links :: "q_link list list" and tc :: tcode and empty_defined :: bool
    and md :: "('d, 'm) MonoidDefinition" and m0 :: 'm and null :: bool
  assumes args: "\<forall>A \<in> set As. query_arg (fst A) no_oom" and null: "null \<Longrightarrow> \<forall>A \<in> set As. ag_null (fst A)"
    and typed: "length links = length As" "\<forall>a \<in> set (zip links (map snd As)). arg_typed tc a"
    and memory: "creates types tc"
    and result: "no_oom c \<Longrightarrow> \<exists>r c'. md_alloc_result md tc c = Some (Some r, c') \<and> no_oom c'"
    and neutral: "md_set_neutral md m = m0"
    and computes: "d = None \<longrightarrow> null \<Longrightarrow> \<exists>m1 x m2.
      monoid_fold (md_operation md) (monoid_inputs (map (arg_data convert d) As)) m0 = Some m1 \<and> md_retrieve md m1 = Some (x, m2)"

definition monoid_val ::
  "('f \<Rightarrow> 'd \<Rightarrow> int \<times> 'd) \<Rightarrow> ('d, 's, 'a, 'v, 'f) abstract_arg list \<Rightarrow> bool \<Rightarrow> ('d, 'm) MonoidDefinition \<Rightarrow> 'm \<Rightarrow> 'd option \<Rightarrow> 'd option"
where
  "monoid_val convert As empty_defined md m0 d = (let xss = map (arg_data convert d) As in
     if [] \<in> set xss \<and> \<not> empty_defined then None
     else do { m \<leftarrow> monoid_fold (md_operation md) (monoid_inputs xss) m0; map_option fst (md_retrieve md m) })"

sublocale monoid_convolution \<subseteq> agg: aggregate "monoid_iface types mem convert" "monoid_dd_ok As links tc empty_defined md"
    "monoid_st_ok As" "monoid_val convert As empty_defined md m0" no_oom null False
proof
  fix dd :: "('d, 'm, 's, 'a, 'v, 'f) monoid_data" and c and d :: "'d option"
  assume dd: "monoid_dd_ok As links tc empty_defined md dd" and c: "no_oom c"
  obtain a c1 where a: "ctx_alloc c = (Some a, c1)" "no_oom c1" using no_oom_alloc [OF c] by blast
  obtain b c2 where b: "ctx_alloc c1 = (Some b, c2)" "no_oom c2" using no_oom_alloc [OF a(2)] by blast
  have sd: "sd_converters dd = map snd As" "map snd (sd_queries dd) = links" "sd_rTypeCode dd = tc" "sd_monoidDef dd = md"
    using dd by (simp_all add: monoid_dd_ok_def)
  obtain vs c3 where vs: "alloc_destinations types mem tc (zip links (map snd As)) c2 = Some (vs, c3)"
    "list_all2 (\<lambda>a v. dest_ok (snd a) v) (zip links (map snd As)) vs" "no_oom c3"
    using destinations_made [OF memory typed(2) b(2)] by blast
  obtain r c4 where r: "md_alloc_result md tc c3 = Some (Some r, c4)" "no_oom c4" using result [OF vs(3)] by blast
  have "monoid_st_ok As \<lparr>sy_addr = a, sy_array = b, sy_convertedValues = vs, sy_result = r\<rparr>"
    using vs(2) typed(1) by (auto simp: monoid_st_ok_def list_all2_conv_all_nth)
  moreover have "monoid_new_dyn_data types mem d dd c =
      Some (Some \<lparr>sy_addr = a, sy_array = b, sy_convertedValues = vs, sy_result = r\<rparr>, dd, c4)"
    by (simp add: monoid_new_dyn_data_def Let_def a b vs(1) r(1) sd)
  ultimately show "\<exists>new st c'. si_new_dyn_data (monoid_iface types mem convert) = Some new \<and>
      new d dd c = Some (Some st, dd, c') \<and> monoid_st_ok As st \<and> no_oom c'"
    using r(2) unfolding monoid_iface_def by auto
next
  fix dd :: "('d, 'm, 's, 'a, 'v, 'f) monoid_data" and st :: "('d, 'm) SMADynamicData_t" and c and d :: "'d option"
    and key :: "'v hdql_Key option"
  assume dd: "monoid_dd_ok As links tc empty_defined md dd" and st: "monoid_st_ok As st" and c: "no_oom c"
    and d: "d = None \<longrightarrow> null" and key: "key = None \<or> False"
  obtain m1 x m2 where m: "monoid_fold (md_operation md) (monoid_inputs (map (arg_data convert d) As)) m0 = Some m1"
    "md_retrieve md m1 = Some (x, m2)"
    using computes [OF d] by blast
  have "\<forall>A \<in> set As. d = None \<longrightarrow> ag_null (fst A)" using d null by blast
  from monoid_reset_gives [OF dd st args this c neutral m]
  show "\<exists>st' dd' c'. si_reset (monoid_iface types mem convert) d (Some st) dd key c =
      Some (monoid_val convert As empty_defined md m0 d, Some st', dd', key, c') \<and>
      monoid_dd_ok As links tc empty_defined md dd' \<and> monoid_st_ok As st' \<and> no_oom c'"
    using key m by (auto simp: monoid_iface_def monoid_val_def Let_def)
qed

context monoid_convolution
begin

lemma monoid_aggregate:
  "aggregate (monoid_iface types mem convert) (monoid_dd_ok As links tc empty_defined md)
    (monoid_st_ok As) (monoid_val convert As empty_defined md m0) no_oom null False"
  by (rule agg.aggregate_axioms)

end

section \<open>Sums and least values of chains\<close>

text \<open>The records of \<open>sum()\<close> and \<open>min()\<close> for an integer type.\<close>

definition sum_monoid :: "'i types_table option \<Rightarrow> (addr \<Rightarrow> int) \<Rightarrow> c_type \<Rightarrow> int_monoid" where
  "sum_monoid types mem t = \<lparr>md_set_neutral = sum_set_neutral, md_operation = sum_operation t,
     md_alloc_result = create_result types mem, md_retrieve = trivial_retrive_result\<rparr>"

definition min_monoid_def :: "'i types_table option \<Rightarrow> (addr \<Rightarrow> int) \<Rightarrow> c_type \<Rightarrow> int_monoid" where
  "min_monoid_def types mem t = \<lparr>md_set_neutral = min_set_neutral t, md_operation = min_operation t,
     md_alloc_result = create_result types mem, md_retrieve = trivial_retrive_result\<rparr>"

definition chain_args ::
  "(int, 's, 'a, 'v, 'e, 'h) qlevel list list \<Rightarrow> (int, 's, 'a, 'v, 'f) abstract_arg list" where
  "chain_args Lss = map (\<lambda>Ls. (chain_arg no_oom Ls, None)) Lss"

lemma chain_args_simps:
  "\<forall>A \<in> set (chain_args Lss). query_arg (fst A) no_oom"
  "map snd (chain_args Lss) = replicate (length Lss) None"
  "map (arg_data convert d) (chain_args Lss) = map (\<lambda>Ls. map fst (chain_outs (keyless Ls) d)) Lss"
proof -
  show "\<forall>A \<in> set (chain_args Lss). query_arg (fst A) no_oom"
    by (auto simp: chain_args_def chain.query_arg_axioms)
qed (simp_all add: chain_args_def arg_data_def converted_def chain_arg_def comp_def map_replicate_const)

lemma result_created:
  assumes "creates types tc" "no_oom c"
  shows "\<exists>r c'. create_result types mem tc c = Some (Some r, c') \<and> no_oom c'"
  using assms unfolding creates_def create_result_def by fastforce

lemma chain_typed: "arg_type q = Some t \<Longrightarrow> arg_typed tc (q, None)"
  by (simp add: arg_typed_def)

lemma min_folds:
  "\<exists>x. monoid_fold (min_operation t) vs (ResValue r) = Some (ResValue x)"
proof (induction vs arbitrary: r)
  case (Cons v vs)
  then show ?case by (auto simp: min_operation_def on_value_def)
qed simp

lemma chain_args_null: "(\<forall>A \<in> set (chain_args Lss). ag_null (fst A)) \<longleftrightarrow> (\<forall>Ls \<in> set Lss. lv_null (hd Ls))"
  by (auto simp: chain_args_def chain_arg_def)

lemma uint32_type: "arg_type [atomic_link 518] = Some 518"
  by (simp add: arg_type_def atomic_link_def hdql_attr_def_atomic_type_info_def)

lemma std_uint32: "\<exists>i. get_by_code std_table 518 = Some (Some i) \<and> 0 < ti_size i \<and> ti_init i = None"
proof -
  have "(case get_by_code std_table 518 of Some (Some i) \<Rightarrow> 0 < ti_size i \<and> Option.is_none (ti_init i) | _ \<Rightarrow> False)"
    by code_simp
  then show ?thesis by (auto split: option.splits simp: Option.is_none_def)
qed

lemma std_creates: "creates (Some std_table) 518"
  using std_uint32 creates_plain by blast

text \<open>The least value of chains of \<open>uint32_t\<close> is always defined.\<close>

interpretation least: monoid_convolution "Some std_table" mem convert "chain_args Lss" "replicate (length Lss) [atomic_link 518]" 518 False
    "min_monoid_def (Some std_table) mem CUI32" "ResValue (c_max CUI32)" "\<forall>Ls \<in> set Lss. lv_null (hd Ls)"
  for mem convert Lss
proof
  fix c d assume c: "no_oom c"
  show "\<exists>r c'. md_alloc_result (min_monoid_def (Some std_table) mem CUI32) 518 c = Some (Some r, c') \<and> no_oom c'"
    using result_created [OF std_creates c] by (simp add: min_monoid_def_def)
next
  fix d
  let ?md = "min_monoid_def (Some std_table) mem CUI32" and ?xs = "monoid_inputs (map (arg_data convert d) (chain_args Lss))"
  obtain x where "monoid_fold (min_operation CUI32) ?xs (ResValue (c_max CUI32)) = Some (ResValue x)" using min_folds by blast
  then show "\<exists>m1 x m2. monoid_fold (md_operation ?md) ?xs (ResValue (c_max CUI32)) = Some m1 \<and> md_retrieve ?md m1 = Some (x, m2)"
    by (auto simp: min_monoid_def_def trivial_retrive_result_def)
qed (simp_all add: chain_args_simps(1,2) chain_args_null std_creates chain_typed [OF uint32_type] min_monoid_def_def min_set_neutral_def,
     simp add: chain_args_def)

lemma inputs_among: "set (monoid_inputs xss) \<subseteq> set (concat xss)"
proof
  fix v assume "v \<in> set (monoid_inputs xss)"
  then consider xs where "xs \<in> set (takeWhile (\<lambda>xs. xs \<noteq> []) xss)" "v = hd xs" | xs where "xs \<in> set xss" "v \<in> set (tl xs)"
    by (auto simp: monoid_inputs_def split: if_splits)
  then show "v \<in> set (concat xss)"
  proof cases
    case (1 xs)
    then have "xs \<in> set xss" "v \<in> set xs" by (auto dest: set_takeWhileD)
    then show ?thesis by auto
  next
    case (2 xs)
    moreover have "set (tl xs) \<subseteq> set xs" by (cases xs) auto
    ultimately have "v \<in> set xs" by blast
    then show ?thesis using 2(1) by auto
  qed
qed

lemma inputs_sum: "[] \<notin> set xss \<Longrightarrow> sum_list (monoid_inputs xss) = sum_list (concat xss :: int list)"
proof -
  assume xss: "[] \<notin> set xss"
  then have "\<forall>xs \<in> set xss. xs \<noteq> []" by auto
  then have all: "takeWhile (\<lambda>xs. xs \<noteq> []) xss = xss" by simp
  have "sum_list (map hd xss) + sum_list (concat (map tl xss)) = sum_list (concat xss)"
    using xss
  proof (induction xss)
    case (Cons xs xss)
    then show ?case by (cases xs) (auto simp: algebra_simps)
  qed simp
  then show ?thesis unfolding monoid_inputs_def all using xss by simp
qed

text \<open>
  C6: A query on \<open>sum()\<close> of chains of an unsigned or narrow type has one record, the sum of all their
  data as the type holds it. If one chain has no data there is no record, unless the result is defined
  for empty sets: then only the first data of the chains before it are summed.
\<close>

theorem sum_records:
  fixes Lss :: "(int, 's, 'a, bytes, 'e, 'h) qlevel list list" and convert :: "'f \<Rightarrow> int \<Rightarrow> int \<times> int"
  assumes "t \<noteq> CBool" "\<not> c_signed t \<or> c_width t < 32"
    and "get_by_code vt tc = Some (Some i)" "0 < ti_size i" "ti_init i = None"
    and "list_all2 (\<lambda>Ls q. chain_valid no_oom (keyless Ls) (fst q) (no_keys Ls) \<and> arg_type (snd q) = Some tc) Lss qs"
    and "\<forall>d. \<forall>Ls \<in> set Lss. \<forall>x \<in> set (chain_outs (keyless Ls) d). in_range t (fst x)"
    and "qa_interface (q_ad q) = IfScalar (monoid_iface (Some vt) mem convert)" "q_state q = None"
      "qa_definitionData (q_ad q) = \<lparr>sd_rTypeCode = tc, sd_queries = qs, sd_converters = replicate (length qs) None,
         sd_resultDefinedForEmptySet = e, sd_monoidDef = sum_monoid (Some vt) mem t\<rparr>"
    and "no_oom c" "d = None \<longrightarrow> (\<forall>Ls \<in> set Lss. lv_null (hd Ls))"
  shows "query_records [q] d None c = Some (let xss = map (\<lambda>Ls. map fst (chain_outs (keyless Ls) d)) Lss in
    if [] \<notin> set xss then [(c_conv t (sum_list (concat xss)), None)]
    else if e then [(c_conv t (sum_list (monoid_inputs xss)), None)] else [])"
proof -
  let ?As = "chain_args Lss :: (int, 's, 'a, bytes, 'f) abstract_arg list" and ?links = "map snd qs" and ?md = "sum_monoid (Some vt) mem t"
  let ?xss = "\<lambda>d. map (\<lambda>Ls. map fst (chain_outs (keyless Ls) d)) Lss" and ?null = "\<forall>Ls \<in> set Lss. lv_null (hd Ls)"
  have len: "length Lss = length qs" using assms(6) by (rule list_all2_lengthD)
  have memory: "creates (Some vt) tc" by (rule creates_plain [OF assms(3-5)])
  have fold: "monoid_fold (sum_operation t) (monoid_inputs (?xss d)) (ResValue 0) =
      Some (ResValue (c_conv t (sum_list (monoid_inputs (?xss d)))))" for d
  proof -
    have "\<forall>v \<in> set (monoid_inputs (?xss d)). in_range t v" using inputs_among [of "?xss d"] assms(7) by fastforce
    then show ?thesis using sum_fold [OF assms(1), of _ undefined] assms(2) by (auto simp: sum_set_neutral_def sum_fits_def)
  qed
  have M: "monoid_convolution (Some vt) convert ?As ?links tc ?md (ResValue 0) ?null"
  proof
    show "\<forall>a \<in> set (zip ?links (map snd ?As)). arg_typed tc a"
      using assms(6) len by (auto simp: chain_args_simps(2) set_zip list_all2_conv_all_nth intro!: chain_typed)
    show "\<exists>r c'. md_alloc_result ?md tc c = Some (Some r, c') \<and> no_oom c'" if "no_oom c" for c
      using result_created [OF memory that] by (simp add: sum_monoid_def)
  qed (simp_all add: chain_args_simps(1,3) chain_args_null memory sum_monoid_def fold trivial_retrive_result_def
      sum_set_neutral_def, simp add: chain_args_def len)
  have "monoid_dd_ok ?As ?links tc e ?md (qa_definitionData (q_ad q))"
  proof -
    have "list_all2 (\<lambda>A q. ag_valid (fst A) (fst q)) ?As qs"
      using assms(6) by (auto simp: list_all2_conv_all_nth chain_args_def chain_arg_def)
    then show ?thesis using len by (simp add: assms(10) monoid_dd_ok_def chain_args_simps(2))
  qed
  moreover have "aggregate (monoid_iface (Some vt) mem convert) (monoid_dd_ok ?As ?links tc e ?md) (monoid_st_ok ?As)
      (monoid_val convert ?As e ?md (ResValue 0)) no_oom ?null False"
    by (rule monoid_convolution.monoid_aggregate [OF M])
  ultimately have "query_records [q] d None c =
      Some (case monoid_val convert ?As e ?md (ResValue 0) d of None \<Rightarrow> [] | Some x \<Rightarrow> [(x, None)])"
    using aggregate_records assms(8,9,11,12) by blast
  then show ?thesis
    using inputs_sum [of "?xss d"] fold [of d]
    by (simp add: monoid_val_def Let_def chain_args_simps(3) sum_monoid_def trivial_retrive_result_def)
qed

section \<open>Samples\<close>

abbreviation fixed_items :: int_contents where
  "fixed_items \<equiv> (\<lambda>d. [(7, [1]), (4294967295, [2])])"

definition fixed_query :: "(int, int cpp_iterator, unit, bytes) hdql_Query" where
  "fixed_query = int_query (stl_iface (\<lambda>i. i) Some (\<lambda>d. map (\<lambda>(x, v). (Some x, v)) (fixed_items d)))"

abbreviation no_items :: int_contents where
  "no_items \<equiv> (\<lambda>d. [])"

definition void_query :: "(int, int cpp_iterator, unit, bytes) hdql_Query" where
  "void_query = int_query (stl_iface (\<lambda>i. i) Some (\<lambda>d. map (\<lambda>(x, v). (Some x, v)) (no_items d)))"

definition sum_query ::
  "(int, int cpp_iterator, unit, bytes) hdql_Query list \<Rightarrow>
   (int, (int, result_block) SMADynamicData_t, (int, result_block, int cpp_iterator, unit, bytes, unit) monoid_data, bytes) hdql_Query"
where
  "sum_query qs = op_query (IfScalar (monoid_iface (Some std_table) (\<lambda>_. 0) (\<lambda>_ x. (0, x))))
     \<lparr>sd_rTypeCode = 518, sd_queries = map (\<lambda>q. ([q], [atomic_link 518])) qs, sd_converters = replicate (length qs) None,
      sd_resultDefinedForEmptySet = True, sd_monoidDef = sum_monoid (Some std_table) (\<lambda>_. 0) CUI32\<rparr>"

lemma constant_outs:
  "map fst (chain_outs (keyless [items_level (\<lambda>_. xs) :: (int, int cpp_iterator, unit, bytes) tlevel]) d) = (case d of None \<Rightarrow> [] | Some _ \<Rightarrow> map fst xs)"
proof (cases d)
  case None
  then show ?thesis by (simp add: keyless_def forwarded_outs items_level_def container_level_def Let_def)
next
  case (Some x)
  have "chain_elems [items_level (\<lambda>_. xs) :: (int, int cpp_iterator, unit, bytes) tlevel] (Some x) = map (\<lambda>(x, v). (x, [TKey v])) xs"
    by (rule items_elems)
  then show ?thesis using Some by (simp add: chain_elems_def keyless_def comp_def split_beta)
qed

lemma fixed_valid: "lv_valid (items_level fixed_items) fixed_query" "lv_valid (items_level no_items) void_query"
  by (simp_all add: items_level_def container_level_def fixed_query_def void_query_def int_query_def Let_def)

lemma items_chain_valid:
  "lv_valid (items_level items) q \<Longrightarrow> chain_valid no_oom (keyless [items_level items]) [q] (no_keys [items_level items])"
  by (simp add: keyless_def no_keys_def chain_valid_def klevel_ok_def int_levels key_fits_def resettable_def kshape_def)

lemma sum_records_witness:
  "query_records [sum_query [fixed_query, fixed_query]] (Some 1) None ctx_roomy = Some [(12, None)] \<and>
   query_records [sum_query [fixed_query, void_query]] (Some 1) None ctx_roomy = Some [(7, None)]"
proof -
  obtain i where i: "get_by_code std_table 518 = Some (Some i)" "0 < ti_size i" "ti_init i = None" using std_uint32 by blast
  let ?F = "items_level fixed_items :: (int, int cpp_iterator, unit, bytes) tlevel"
    and ?V = "items_level no_items :: (int, int cpp_iterator, unit, bytes) tlevel"
  have outs: "map fst (chain_outs (keyless [?F]) d) = (case d of None \<Rightarrow> [] | Some _ \<Rightarrow> [7, 4294967295])"
    "map fst (chain_outs (keyless [?V]) d) = []" for d
    by (simp_all add: constant_outs split: option.split)
  have range: "\<forall>d. \<forall>x \<in> set (chain_outs (keyless [L]) d). in_range CUI32 (fst x)" if "L = ?F \<or> L = ?V" for L
  proof -
    have "in_range CUI32 v" if "v \<in> set (map fst (chain_outs (keyless [L]) d))" for v d
      using that \<open>L = ?F \<or> L = ?V\<close> by (auto simp: outs in_range_def c_min_def c_max_def simp del: set_map split: option.splits)
    then show ?thesis by (metis image_eqI list.set_map)
  qed
  note range = range [of ?F, OF disjI1, OF refl] range [of ?V, OF disjI2, OF refl]
  note sums = sum_records [where convert = "\<lambda>_ x. (0, x)" and mem = "\<lambda>_. 0" and e = True and d = "Some 1", OF _ _ i]
  have "query_records [sum_query [fixed_query, fixed_query]] (Some 1) None ctx_roomy =
      Some (let xss = map (\<lambda>Ls. map fst (chain_outs (keyless Ls) (Some 1))) [[?F], [?F]] in
        if [] \<notin> set xss then [(c_conv CUI32 (sum_list (concat xss)), None)]
        else if True then [(c_conv CUI32 (sum_list (monoid_inputs xss)), None)] else [])"
    by (rule sums [of CUI32 _ "map (\<lambda>q. ([q], [atomic_link 518])) [fixed_query, fixed_query]"])
      (simp_all add: range uint32_type items_chain_valid fixed_valid sum_query_def op_query_def ctx_roomy_def no_oom_def)
  moreover have "query_records [sum_query [fixed_query, void_query]] (Some 1) None ctx_roomy =
      Some (let xss = map (\<lambda>Ls. map fst (chain_outs (keyless Ls) (Some 1))) [[?F], [?V]] in
        if [] \<notin> set xss then [(c_conv CUI32 (sum_list (concat xss)), None)]
        else if True then [(c_conv CUI32 (sum_list (monoid_inputs xss)), None)] else [])"
    by (rule sums [of CUI32 _ "map (\<lambda>q. ([q], [atomic_link 518])) [fixed_query, void_query]"])
      (simp_all add: range uint32_type items_chain_valid fixed_valid sum_query_def op_query_def ctx_roomy_def no_oom_def)
  ultimately show ?thesis by (simp add: outs monoid_inputs_def c_conv_def)
qed

end
