(* ===== verification/MonoidFuncs.thy ===== *)
theory MonoidFuncs
  imports Monoids Dictionaries
begin

text \<open>
  The static side of the monoid functions (\<open>src/funcs/monoids.c\<close>): the inference of the result's
  type, the constructor \<open>hdql_func_helper__try_monoid\<close>, the tables of monoids and their
  registration. The texts of failures are left out, what making them dereferences is not.
\<close>

section \<open>Inference of the result's type\<close>

text \<open>
  What the inference gives: its return code, the type code and the table of types, whose promotions
  may have been rebuilt. The three functions for numbers have the same loop but for the types they
  refuse and the codes they return.
\<close>

type_synonym 'i inferred = "int \<times> tcode \<times> 'i types_table"

definition named :: "'i types_table \<Rightarrow> tcode \<Rightarrow> unit option" where
  "named types tc = do { vi \<leftarrow> hdql_types_get_type types tc; c_assert (\<not> Option.is_none vi) }"

fun infer_loop ::
  "(tcode \<Rightarrow> bool) \<Rightarrow> int \<Rightarrow> int \<Rightarrow> q_link list list \<Rightarrow> nat \<Rightarrow> bool \<Rightarrow> tcode \<Rightarrow> 'i types_table \<Rightarrow> 'i inferred option"
where
  "infer_loop refused refusal failure [] nArgs allIsStaticConst rTypeCode types = do {
     c_assert (rTypeCode \<noteq> 0);
     Some (if allIsStaticConst then -1 else int nArgs, rTypeCode, types) }"
| "infer_loop refused refusal failure (q # qs) nArgs allIsStaticConst rTypeCode types = do {
     top \<leftarrow> hdql_query_top_attr q;
     qAD \<leftarrow> hdql_attr_def_top_attr top;
     if \<not> hdql_attr_def_is_atomic qAD then Some (-2, rTypeCode, types)
     else do {
       let allIsStaticConst = (allIsStaticConst \<and> hdql_attr_def_is_static_const_value qAD);
       atf \<leftarrow> hdql_attr_def_atomic_type_info qAD;
       let tc = ucast (at_arithTypeCode atf);
       c_assert (tc \<noteq> 0);
       if refused tc then Some (refusal, rTypeCode, types)
       else if rTypeCode = 0 then infer_loop refused refusal failure qs (nArgs + 1) allIsStaticConst tc types
       else if rTypeCode = tc then infer_loop refused refusal failure qs (nArgs + 1) allIsStaticConst rTypeCode types
       else do {
         (newRtypeCode, types) \<leftarrow> hdql_types_numeric_promote types rTypeCode tc;
         if newRtypeCode = 0 then do {
           named types rTypeCode;
           named types tc;
           Some (failure, rTypeCode, types) }
         else infer_loop refused refusal failure qs (nArgs + 1) allIsStaticConst newRtypeCode types } } }"

definition infer_atomic_type :: "q_link list list \<Rightarrow> 'i types_table \<Rightarrow> tcode \<Rightarrow> 'i inferred option" where
  "infer_atomic_type args types rTypeCode = infer_loop (\<lambda>_. False) 0 (-3) args 0 True rTypeCode types"

definition infer_simple_arithmetic_type :: "q_link list list \<Rightarrow> 'i types_table \<Rightarrow> tcode \<Rightarrow> 'i inferred option" where
  "infer_simple_arithmetic_type args types rTypeCode = (let logicTC = hdql_types_get_type_code types ''bool'' in
     infer_loop (\<lambda>tc. logicTC = tc) (-4) (-3) args 0 True rTypeCode types)"

definition infer_integer_only_type :: "q_link list list \<Rightarrow> 'i types_table \<Rightarrow> tcode \<Rightarrow> 'i inferred option" where
  "infer_integer_only_type args types rTypeCode = (let
       floatTC = hdql_types_get_type_code types ''float'';
       doubleTC = hdql_types_get_type_code types ''double'';
       refused = (\<lambda>tc. (0 \<noteq> floatTC \<and> tc = floatTC) \<or> (0 \<noteq> doubleTC \<and> tc = doubleTC))
     in do {
       (rc, rTypeCode, types) \<leftarrow> infer_loop refused (-3) (-4) args 0 True rTypeCode types;
       c_assert (rc < -1 \<or> (floatTC = 0 \<or> rTypeCode \<noteq> floatTC) \<or> (doubleTC = 0 \<or> rTypeCode \<noteq> doubleTC));
       Some (rc, rTypeCode, types) })"

fun check_atomic :: "q_link list list \<Rightarrow> nat \<Rightarrow> bool \<Rightarrow> tcode \<Rightarrow> int option" where
  "check_atomic [] nArgs allIsStaticConst rTypeCode = do {
     c_assert (rTypeCode \<noteq> 0);
     Some (if allIsStaticConst then -1 else int nArgs) }"
| "check_atomic (q # qs) nArgs allIsStaticConst rTypeCode = do {
     top \<leftarrow> hdql_query_top_attr q;
     qAD \<leftarrow> hdql_attr_def_top_attr top;
     if \<not> hdql_attr_def_is_atomic qAD then Some (-2)
     else check_atomic qs (nArgs + 1) (allIsStaticConst \<and> hdql_attr_def_is_static_const_value qAD) rTypeCode }"

definition infer_check_atomic_type_to_logic :: "q_link list list \<Rightarrow> 'i types_table \<Rightarrow> tcode \<Rightarrow> 'i inferred option" where
  "infer_check_atomic_type_to_logic args types rTypeCode =
     (if hdql_types_get_type_code types ''bool'' = 0 then Some (-2, rTypeCode, types)
      else do { rc \<leftarrow> check_atomic args 0 True rTypeCode; Some (rc, rTypeCode, types) })"

definition infer_check_atomic_type_to_logic_as_logic :: "q_link list list \<Rightarrow> 'i types_table \<Rightarrow> tcode \<Rightarrow> 'i inferred option" where
  "infer_check_atomic_type_to_logic_as_logic args types _ = (let rTypeCode = hdql_types_get_type_code types ''bool'' in
     if rTypeCode = 0 then Some (-10, rTypeCode, types)
     else infer_check_atomic_type_to_logic args types rTypeCode)"

section \<open>The constructor\<close>

record ('i, 'd, 'm) MonoidRecords_t =
  mr_records :: "(string \<times> ('d, 'm) MonoidDefinition) list"
  mr_infer_result_type :: "q_link list list \<Rightarrow> 'i types_table \<Rightarrow> tcode \<Rightarrow> 'i inferred option"
  mr_overrideRType :: "string option"
  mr_resultDefinedForEmptySet :: bool

text \<open>The properly typed definition; the first record may stand for any type.\<close>

definition find_record :: "'i types_table \<Rightarrow> (string \<times> ('d, 'm) MonoidDefinition) list \<Rightarrow> tcode \<Rightarrow> ('d, 'm) MonoidDefinition option" where
  "find_record types recs rTypeCode = (case recs of
     (CHR ''*'' # _, md) # _ \<Rightarrow> Some md
   | _ \<Rightarrow> map_option snd (List.find (\<lambda>(n, _). hdql_types_get_type_code types n = rTypeCode) recs))"

text \<open>The converters of the arguments, none where the type is the result's; null when one is missing.\<close>

fun find_converters ::
  "'i types_table \<Rightarrow> tcode \<Rightarrow> q_link list list \<Rightarrow> 'f hdql_Converters \<Rightarrow> ('f option list option \<times> 'f hdql_Converters) option"
where
  "find_converters types rTypeCode [] cnvs = Some (Some [], cnvs)"
| "find_converters types rTypeCode (q # qs) cnvs = do {
     top \<leftarrow> hdql_query_top_attr q;
     qAD \<leftarrow> hdql_attr_def_top_attr top;
     atf \<leftarrow> hdql_attr_def_atomic_type_info qAD;
     let tc = ucast (at_arithTypeCode atf);
     if tc = rTypeCode then do {
       (fs, cnvs) \<leftarrow> find_converters types rTypeCode qs cnvs;
       Some (map_option (\<lambda>fs. None # fs) fs, cnvs) }
     else do {
       (f, cnvs) \<leftarrow> hdql_converters_get cnvs rTypeCode tc;
       case f of
         None \<Rightarrow> do { named types tc; named types rTypeCode; Some (None, cnvs) }
       | Some f \<Rightarrow> do {
           (fs, cnvs) \<leftarrow> find_converters types rTypeCode qs cnvs;
           Some (map_option (\<lambda>fs. Some f # fs) fs, cnvs) } } }"

text \<open>The overridden type of the result, if it is known.\<close>

definition result_code :: "'i types_table \<Rightarrow> tcode \<Rightarrow> string option \<Rightarrow> tcode option" where
  "result_code types rTypeCode override = (case override of
     None \<Rightarrow> Some rTypeCode
   | Some n \<Rightarrow> (let tc = hdql_types_get_type_code types n in if tc = 0 then None else Some tc))"

text \<open>The queries are destroyed, then the arrays and the definition data; \<open>arrays\<close> are the addresses of the two.\<close>

fun destroy_all :: "q_link list list \<Rightarrow> hdql_Context \<Rightarrow> hdql_Context option" where
  "destroy_all [] c = Some c"
| "destroy_all (q # qs) c = do { c \<leftarrow> hdql_query_destroy q c; destroy_all qs c }"

definition transient_dtr_simple_monoid_arith ::
  "q_link list list \<Rightarrow> addr \<times> addr \<Rightarrow> addr option \<Rightarrow> hdql_Context \<Rightarrow> hdql_Context option" where
  "transient_dtr_simple_monoid_arith qs arrays dd c = do {
     c_assert (dd \<noteq> None);
     c \<leftarrow> destroy_all qs c;
     c \<leftarrow> ctx_free (Some (snd arrays)) c;
     c \<leftarrow> ctx_free (Some (fst arrays)) c;
     ctx_free dd c }"

text \<open>
  From the assignment of the queries on. The definition of the attribute is returned with the contents
  of its definition data; \<open>destroy\<close> is \<open>monoid_destroy\<close> on the address of a state.
\<close>

definition on_fail_cleanup :: "addr \<Rightarrow> addr \<times> addr \<Rightarrow> hdql_Context \<Rightarrow> ('r option \<times> hdql_Context) option" where
  "on_fail_cleanup dd arrays c = do {
     c \<leftarrow> ctx_free (Some (snd arrays)) c;
     c \<leftarrow> ctx_free (Some (fst arrays)) c;
     c \<leftarrow> ctx_free (Some dd) c;
     Some (None, c) }"

definition monoid_assign ::
  "('i, 'd, 'm) MonoidRecords_t \<Rightarrow> destroy_callback \<Rightarrow> ('d, 'm) MonoidDefinition \<Rightarrow> addr \<Rightarrow> addr \<times> addr \<Rightarrow> q_link list list \<Rightarrow>
   'i types_table \<Rightarrow> 'f hdql_Converters \<Rightarrow> tcode \<Rightarrow> hdql_Context \<Rightarrow>
   ((hdql_AttrDef \<times> ('d, 'm, q_link list, 'f) SMADefData_t) option \<times> hdql_Context) option"
where
  "monoid_assign recs destroy md dd arrays args types cnvs rTypeCode c = do {
     (fs, cnvs) \<leftarrow> find_converters types rTypeCode args cnvs;
     case fs of
       None \<Rightarrow> on_fail_cleanup dd arrays c
     | Some fs \<Rightarrow> (case result_code types rTypeCode (mr_overrideRType recs) of
         None \<Rightarrow> on_fail_cleanup dd arrays c
       | Some tc \<Rightarrow> do {
           (r, c) \<leftarrow> hdql_attr_def_create_atomic_scalar (Some \<lparr>at_isReadOnly = True, at_arithTypeCode = ucast tc\<rparr>)
             (Some (ScClient (Some destroy), DefDatum dd)) 0 None c;
           case r of
             None \<Rightarrow> on_fail_cleanup dd arrays c
           | Some ad \<Rightarrow> Some (Some
               (hdql_attr_def_set_transient ad (Some (TdClient (transient_dtr_simple_monoid_arith args arrays))),
                \<lparr>sd_rTypeCode = tc, sd_queries = args, sd_converters = fs,
                 sd_resultDefinedForEmptySet = mr_resultDefinedForEmptySet recs, sd_monoidDef = md\<rparr>), c) }) }"

text \<open>\<open>args\<close> is null or the arguments.\<close>

definition hdql_func_helper_try_monoid ::
  "('i, 'd, 'm) MonoidRecords_t \<Rightarrow> destroy_callback \<Rightarrow> q_link list list option \<Rightarrow> 'i types_table \<Rightarrow> 'f hdql_Converters \<Rightarrow> hdql_Context \<Rightarrow>
   ((hdql_AttrDef \<times> ('d, 'm, q_link list, 'f) SMADefData_t) option \<times> hdql_Context) option"
where
  "hdql_func_helper_try_monoid recs destroy args types cnvs c = (case args of
     None \<Rightarrow> Some (None, c)
   | Some args \<Rightarrow> do {
       (rc, rTypeCode, types) \<leftarrow> mr_infer_result_type recs args types 0;
       if rc \<le> -1 then Some (None, c)
       else (case find_record types (mr_records recs) rTypeCode of
         None \<Rightarrow> do { _ \<leftarrow> hdql_types_get_type types rTypeCode; Some (None, c) }
       | Some md \<Rightarrow> do {
           c_assert (0 < rc);
           let (p, c) = ctx_alloc c;
           dd \<leftarrow> p;
           let (p, c) = ctx_alloc c;
           queries \<leftarrow> p;
           let (p, c) = ctx_alloc c;
           converters \<leftarrow> p;
           monoid_assign recs destroy md dd (queries, converters) args types cnvs rTypeCode c }) })"

section \<open>The types of arguments and result\<close>

text \<open>The converter of an argument fits the type of the result.\<close>

definition conversion_fits :: "tcode \<Rightarrow> q_link list \<Rightarrow> 'f option \<Rightarrow> bool" where
  "conversion_fits tc q cv \<longleftrightarrow> (\<exists>t. arg_type q = Some t \<and> (cv = None \<longleftrightarrow> t = tc))"

lemma arg_type_parts:
  "hdql_query_top_attr q = Some tp \<Longrightarrow> hdql_attr_def_top_attr tp = Some qAD \<Longrightarrow>
   hdql_attr_def_atomic_type_info qAD = Some atf \<Longrightarrow> arg_type q = Some (ucast (at_arithTypeCode atf))"
  by (simp add: arg_type_def)

lemma find_converters_ConsE:
  assumes "find_converters types tc (q # qs) cnvs = Some (Some fs, cnvs')"
  obtains f fs' cnvs1 where "fs = f # fs'" "conversion_fits tc q f" "find_converters types tc qs cnvs1 = Some (Some fs', cnvs')"
proof -
  obtain tp qAD atf where t: "hdql_query_top_attr q = Some tp" "hdql_attr_def_top_attr tp = Some qAD"
    "hdql_attr_def_atomic_type_info qAD = Some atf"
    using assms by (auto split: bind_splits)
  show thesis
  proof (cases "(ucast (at_arithTypeCode atf) :: tcode) = tc")
    case True
    then obtain fs' where "find_converters types tc qs cnvs = Some (Some fs', cnvs')" "fs = None # fs'"
      using assms t by (auto split: bind_splits)
    then show thesis using that [of None fs' cnvs] True arg_type_parts [OF t] by (simp add: conversion_fits_def)
  next
    case False
    then obtain f fs' cnvs1 where "find_converters types tc qs cnvs1 = Some (Some fs', cnvs')" "fs = Some f # fs'"
      using assms t by (auto simp: Let_def split: bind_splits option.splits)
    then show thesis using that [of "Some f" fs' cnvs1] False arg_type_parts [OF t] by (simp add: conversion_fits_def)
  qed
qed

lemma find_converters_fit:
  "find_converters types tc qs cnvs = Some (Some fs, cnvs') \<Longrightarrow> list_all2 (conversion_fits tc) qs fs"
proof (induction qs arbitrary: cnvs fs)
  case (Cons q qs)
  then show ?case by (elim find_converters_ConsE) simp
qed simp

text \<open>What a constructor that succeeds has gone through.\<close>

lemma assign_cases:
  assumes "monoid_assign recs destroy md dd arrays args types cnvs rt c = Some (r, c')"
  obtains (fails) c0 where "r = None" "cx_heap c0 = cx_heap c"
      "on_fail_cleanup dd arrays c0 = Some (r, c')"
  | (made) fs cnvs' tc a where "find_converters types rt args cnvs = Some (Some fs, cnvs')"
      "result_code types rt (mr_overrideRType recs) = Some tc" "ctx_alloc c = (Some a, c')"
      "r = Some (AttrDef a True False False 0 True 0 (AdScalar (ScClient (Some destroy))) (DefDatum dd) None
           (TiAtomic \<lparr>at_isReadOnly = True, at_arithTypeCode = ucast tc\<rparr>) (Some (TdClient (transient_dtr_simple_monoid_arith args arrays))),
         \<lparr>sd_rTypeCode = tc, sd_queries = args, sd_converters = fs,
          sd_resultDefinedForEmptySet = mr_resultDefinedForEmptySet recs, sd_monoidDef = md\<rparr>)"
proof -
  have fail: thesis if "on_fail_cleanup dd arrays c = Some (r, c')"
  proof -
    have "r = None" using that by (auto simp: on_fail_cleanup_def)
    then show thesis using that fails [of c] by simp
  qed
  obtain fs cnvs' where fs: "find_converters types rt args cnvs = Some (fs, cnvs')"
    using assms by (cases "find_converters types rt args cnvs") (auto simp: monoid_assign_def)
  note d = assms [unfolded monoid_assign_def fs bind.bind_lunit prod.case]
  show thesis
  proof (cases fs)
    case None
    then show thesis using d fail by simp
  next
    case fs1: (Some fs1)
    show thesis
    proof (cases "result_code types rt (mr_overrideRType recs)")
      case None
      then show thesis using d fs1 fail by simp
    next
      case (Some tc)
      obtain p c1 where a: "ctx_alloc c = (p, c1)" by (cases "ctx_alloc c")
      obtain a1 where "p = Some a1"
        using d fs1 Some a by (cases p) (auto simp: hdql_attr_def_create_atomic_scalar_def)
      then show thesis
        using d fs fs1 Some a made [of fs1 cnvs' tc a1] by (auto simp: hdql_attr_def_create_atomic_scalar_def)
    qed
  qed
qed

lemma try_monoid_assigned:
  assumes "hdql_func_helper_try_monoid recs destroy args0 types cnvs c = Some (r, c')"
  obtains (refused) "r = None" "c' = c"
  | (assigned) args rc rt types1 md dd c1 qs c2 cs c3 where "args0 = Some args"
      "mr_infer_result_type recs args types 0 = Some (rc, rt, types1)" "0 < rc"
      "find_record types1 (mr_records recs) rt = Some md"
      "ctx_alloc c = (Some dd, c1)" "ctx_alloc c1 = (Some qs, c2)" "ctx_alloc c2 = (Some cs, c3)"
      "monoid_assign recs destroy md dd (qs, cs) args types1 cnvs rt c3 = Some (r, c')"
proof (cases args0)
  case None
  then show thesis using assms refused by (simp add: hdql_func_helper_try_monoid_def)
next
  case (Some args)
  obtain rc rt types1 where infer: "mr_infer_result_type recs args types 0 = Some (rc, rt, types1)"
    using assms Some by (cases "mr_infer_result_type recs args types 0") (auto simp: hdql_func_helper_try_monoid_def)
  note d = assms [unfolded hdql_func_helper_try_monoid_def Some option.case infer bind.bind_lunit prod.case]
  show thesis
  proof (cases "rc \<le> -1")
    case True
    then show thesis using d refused by simp
  next
    case False
    note d = d [unfolded if_not_P [OF False]]
    show thesis
    proof (cases "find_record types1 (mr_records recs) rt")
      case None
      then show thesis using d refused by (auto split: bind_splits)
    next
      case (Some md)
      obtain p1 c1 where 1: "ctx_alloc c = (p1, c1)" by (cases "ctx_alloc c")
      obtain p2 c2 where 2: "ctx_alloc c1 = (p2, c2)" by (cases "ctx_alloc c1")
      obtain p3 c3 where 3: "ctx_alloc c2 = (p3, c3)" by (cases "ctx_alloc c2")
      have "0 < rc" using d Some by (cases "0 < rc") auto
      moreover obtain dd qs cs where "p1 = Some dd" "p2 = Some qs" "p3 = Some cs"
        "monoid_assign recs destroy md dd (qs, cs) args types1 cnvs rt c3 = Some (r, c')"
        using d Some 1 2 3 by (cases p1; cases p2; cases p3) (auto split: bind_splits)
      ultimately show thesis using assigned [OF \<open>args0 = Some args\<close> infer _ Some] 1 2 3 by blast
    qed
  qed
qed

text \<open>
  C18: What a monoid function without an overridden type makes is well typed: its argument queries are
  the arguments, exactly those whose type is not the result's have a converter, the attribute is a
  scalar of the result's type, and every evaluation of it can make its destinations.
\<close>

theorem monoid_constructor_typed:
  assumes "hdql_func_helper_try_monoid recs destroy (Some args) types cnvs c = Some (Some (ad, dd), c')"
    and "mr_overrideRType recs = None"
  shows "sd_queries dd = args \<and> list_all2 (conversion_fits (sd_rTypeCode dd)) args (sd_converters dd) \<and>
    hdql_attr_def_is_scalar ad \<and> hdql_attr_def_get_atomic_value_type_code ad = Some (ucast (sd_rTypeCode dd)) \<and>
    (\<forall>vt mem c0. creates vt (sd_rTypeCode dd) \<and> no_oom c0 \<longrightarrow>
      alloc_destinations vt mem (sd_rTypeCode dd) (zip args (sd_converters dd)) c0 \<noteq> None)"
  using assms(1)
proof (cases rule: try_monoid_assigned)
  case (assigned args1 rc rt types1 md p c1 qs c2 cs c3)
  from assigned(8) show ?thesis
  proof (cases rule: assign_cases)
    case (made fs cnvs' tc a)
    have args: "args1 = args" using assigned(1) by simp
    have tc: "tc = rt" using made(2) assms(2) by (simp add: result_code_def)
    have fit: "list_all2 (conversion_fits tc) args fs" using find_converters_fit [OF made(1)] tc args by simp
    have "alloc_destinations vt mem tc (zip args fs) c0 \<noteq> None" if "creates vt tc" "no_oom c0" for vt mem c0
    proof -
      have "\<forall>a \<in> set (zip args fs). arg_typed tc a"
        using fit by (auto simp: list_all2_conv_all_nth set_zip conversion_fits_def arg_typed_def)
      from destinations_made [OF that(1) this that(2), of mem] show ?thesis by auto
    qed
    then have "\<forall>vt mem c0. creates vt tc \<and> no_oom c0 \<longrightarrow> alloc_destinations vt mem tc (zip args fs) c0 \<noteq> None" by blast
    then show ?thesis using made(4) fit args
      by (simp del: not_None_eq add: hdql_attr_def_is_scalar_def hdql_attr_def_get_atomic_value_type_code_def)
  qed simp
qed simp

section \<open>Memory\<close>

lemma block_made:
  assumes "ctx_wf c" "ctx_alloc c = (Some x, c1)"
  shows "ctx_wf c1" "x \<notin> ctx_live c" "ctx_live c1 = insert x (ctx_live c)"
  using cx.alloc_inv [of c 1] cx.alloc_fresh [of c 1 x c1] cx.alloc_exact [of c 1] assms by simp_all

text \<open>Three blocks one after another.\<close>

lemma three_blocks:
  assumes "ctx_wf c" "ctx_alloc c = (Some x, c1)" "ctx_alloc c1 = (Some y, c2)" "ctx_alloc c2 = (Some z, c3)"
  shows "ctx_wf c3" "ctx_live c3 = {x, y, z} \<union> ctx_live c" "distinct [x, y, z]" "{x, y, z} \<inter> ctx_live c = {}"
proof -
  note 1 = block_made [OF assms(1,2)]
  note 2 = block_made [OF 1(1) assms(3)]
  note 3 = block_made [OF 2(1) assms(4)]
  show "ctx_wf c3" by (rule 3(1))
  have live: "ctx_live c3 = insert z (insert y (insert x (ctx_live c)))" by (simp add: 1(3) 2(3) 3(3))
  then show "ctx_live c3 = {x, y, z} \<union> ctx_live c" by (simp add: insert_commute)
  show "distinct [x, y, z]" "{x, y, z} \<inter> ctx_live c = {}"
    using 1(2) 2(2) 3(2) by (simp_all add: 1(3) 2(3))
qed

lemma cleanup_frees: "on_fail_cleanup dd arrays c = map_option (Pair None) (cx.free_list [snd arrays, fst arrays, dd] c)"
  by (simp add: on_fail_cleanup_def) (auto split: bind_splits)

lemma destroy_all_frees:
  "\<forall>q \<in> set qs. q_ok q \<Longrightarrow> destroy_all qs c = cx.free_list (concat (map q_blocks qs)) c"
proof (induction qs arbitrary: c)
  case (Cons q qs)
  then have "destroy_all qs = cx.free_list (concat (map q_blocks qs))" by (intro ext) simp
  then show ?case using Cons.prems by (simp add: cx.free_list_append destroy_is_free_list(2))
qed simp

lemma freed:
  assumes "ctx_wf c" "distinct ps" "set ps \<subseteq> ctx_live c"
  obtains c' where "cx.free_list ps c = Some c'" "ctx_wf c'" "ctx_live c' = ctx_live c - set ps"
  using cx.moved_free_list [OF assms(1) _ assms(2) subset_refl] assms(3) by (auto simp: cx.moved_def)

text \<open>
  C19: When a monoid function can not be made of its arguments, memory is as it was. When it is made,
  destroying it frees its own blocks and those of the arguments, and nothing else.
\<close>

theorem monoid_constructor_memory:
  assumes "hdql_func_helper_try_monoid recs destroy (Some args) types cnvs c = Some (r, c')"
    and "ctx_wf c" "\<forall>q \<in> set args. q_ok q" "distinct (concat (map q_blocks args))" "set (concat (map q_blocks args)) \<subseteq> ctx_live c"
  shows "case r of
      None \<Rightarrow> ctx_live c' = ctx_live c \<and> ctx_wf c'
    | Some (ad, dd) \<Rightarrow> ctx_live c \<subseteq> ctx_live c' \<and> (\<exists>c2. hdql_attr_def_destroy ad c' = Some c2 \<and> ctx_wf c2 \<and>
        ctx_live c2 = ctx_live c - set (concat (map q_blocks args)))"
  using assms(1)
proof (cases rule: try_monoid_assigned)
  case refused
  then show ?thesis using assms(2) by simp
next
  case (assigned args1 rc rt types1 md dd c1 qs c2 cs c3)
  note blocks = three_blocks [OF assms(2) assigned(5-7)]
  let ?args = "concat (map q_blocks args)"
  have args: "args1 = args" using assigned(1) by simp
  from assigned(8) show ?thesis
  proof (cases rule: assign_cases)
    case (fails c0)
    have c0: "ctx_wf c0" "ctx_live c0 = ctx_live c3" using fails(2) blocks(1) by (simp_all add: ctx_wf_def ctx_live_def)
    obtain c4 where c4: "cx.free_list [cs, qs, dd] c0 = Some c4" "ctx_wf c4" "ctx_live c4 = ctx_live c0 - set [cs, qs, dd]"
      by (rule freed [OF c0(1), of "[cs, qs, dd]"]) (use blocks(2,3) c0(2) in auto)
    have "c' = c4" using fails(3) [unfolded cleanup_frees fst_conv snd_conv c4(1)] by simp
    moreover have "ctx_live c3 - set [cs, qs, dd] = ctx_live c" using blocks(2,4) by auto
    ultimately show ?thesis using fails(1) c0(2) c4(2,3) by simp
  next
    case (made fs cnvs' tc a)
    note a = block_made [OF blocks(1) made(3)]
    let ?ps = "?args @ [cs, qs, dd, a]"
    have fresh: "{cs, qs, dd, a} \<inter> set ?args = {}" using assms(5) blocks(2,4) a(2) by blast
    have "distinct [cs, qs, dd, a]" using blocks(2,3) a(2) by auto
    then have "distinct ?ps" using assms(4) fresh by (simp only: distinct_append) auto
    moreover have "set ?ps \<subseteq> ctx_live c'" using assms(5) blocks(2) a(3) by auto
    ultimately obtain c4 where c4: "cx.free_list ?ps c' = Some c4" "ctx_wf c4" "ctx_live c4 = ctx_live c' - set ?ps"
      by (rule freed [OF a(1)])
    have four: "cx.free_list [cs, qs, dd, a] u = do {
        c \<leftarrow> ctx_free (Some cs) u; c \<leftarrow> ctx_free (Some qs) c; c \<leftarrow> ctx_free (Some dd) c; ctx_free (Some a) c }" for u
      by (auto split: bind_splits)
    have "hdql_attr_def_destroy (fst (the r)) c' = cx.free_list ?ps c'"
      using made(4) args
      by (simp add: transient_dtr_simple_monoid_arith_def destroy_all_frees [OF assms(3)] cx.free_list_append four del: cx.free_list.simps)
    moreover have "ctx_live c' - set ?ps = ctx_live c - set ?args" using blocks(2,4) a(2,3) by auto
    ultimately show ?thesis using made(4) c4 a(3) blocks(2) by (auto split: prod.split)
  qed
qed

section \<open>The tables of monoids\<close>

text \<open>A monoid whose result is a value of the type.\<close>

definition value_monoid ::
  "'i types_table option \<Rightarrow> (addr \<Rightarrow> int) \<Rightarrow> (result_block \<Rightarrow> result_block) \<Rightarrow> (result_block \<Rightarrow> int \<Rightarrow> (int \<times> result_block) option) \<Rightarrow> int_monoid"
where
  "value_monoid types mem neutral operation = \<lparr>md_set_neutral = neutral, md_operation = operation,
     md_alloc_result = create_result types mem, md_retrieve = trivial_retrive_result\<rparr>"

definition mean_monoid :: "(addr \<Rightarrow> int) \<Rightarrow> c_type \<Rightarrow> int_monoid" where
  "mean_monoid mem t = \<lparr>md_set_neutral = mean_set_neutral, md_operation = mean_operation t,
     md_alloc_result = mean_instantiate mem, md_retrieve = mean_retrieve_result t\<rparr>"

definition M_for_each_integer_type :: "(string \<times> c_type) list" where
  "M_for_each_integer_type = [(''int8_t'', CI8), (''uint8_t'', CUI8), (''int16_t'', CI16), (''uint16_t'', CUI16),
     (''int32_t'', CI32), (''uint32_t'', CUI32), (''int64_t'', CI64), (''uint64_t'', CUI64)]"

definition M_for_each_fp_type :: "string list" where "M_for_each_fp_type = [''float'', ''double'']"

text \<open>Records for the integer types, and for the floating ones.\<close>

definition int_records :: "(c_type \<Rightarrow> int_monoid) \<Rightarrow> (string \<times> int_monoid) list" where
  "int_records md = map (\<lambda>(n, t). (n, md t)) M_for_each_integer_type"

definition fp_records :: "(string \<Rightarrow> int_monoid) \<Rightarrow> (string \<times> int_monoid) list" where
  "fp_records md = map (\<lambda>n. (n, md n)) M_for_each_fp_type"

type_synonym 'i int_records_t = "('i, int, result_block) MonoidRecords_t"

definition arith_records ::
  "(c_type \<Rightarrow> int_monoid) \<Rightarrow> (string \<Rightarrow> int_monoid) \<Rightarrow> 'i int_records_t" where
  "arith_records ints fps = \<lparr>mr_records = int_records ints @ fp_records fps, mr_infer_result_type = infer_simple_arithmetic_type,
     mr_overrideRType = None, mr_resultDefinedForEmptySet = False\<rparr>"

definition bitwise_records :: "(c_type \<Rightarrow> int_monoid) \<Rightarrow> 'i int_records_t" where
  "bitwise_records ints = \<lparr>mr_records = int_records ints, mr_infer_result_type = infer_integer_only_type,
     mr_overrideRType = None, mr_resultDefinedForEmptySet = False\<rparr>"

definition logic_records :: "int_monoid \<Rightarrow> string option \<Rightarrow> bool \<Rightarrow> 'i int_records_t" where
  "logic_records md override empty_defined = \<lparr>mr_records = [(''*'', md)], mr_infer_result_type = infer_check_atomic_type_to_logic_as_logic,
     mr_overrideRType = override, mr_resultDefinedForEmptySet = empty_defined\<rparr>"

definition arb_records :: "(string \<Rightarrow> int_monoid) \<Rightarrow> 'i int_records_t" where
  "arb_records arb = \<lparr>mr_records = map (\<lambda>n. (n, arb n)) (''bool'' # map fst M_for_each_integer_type @ M_for_each_fp_type),
     mr_infer_result_type = infer_atomic_type, mr_overrideRType = None, mr_resultDefinedForEmptySet = False\<rparr>"

text \<open>
  The functions in the order they are registered. \<open>fp f n\<close> is the monoid of the function \<open>f\<close> for the
  floating type \<open>n\<close>, \<open>arb n\<close> the arbitrary element of the type \<open>n\<close>.
\<close>

definition monoid_functions ::
  "'i types_table option \<Rightarrow> (addr \<Rightarrow> int) \<Rightarrow> (string \<Rightarrow> string \<Rightarrow> int_monoid) \<Rightarrow> (string \<Rightarrow> int_monoid) \<Rightarrow> (string \<times> 'i int_records_t) list"
where
  "monoid_functions types mem fp arb = [
     (''sum'', arith_records (\<lambda>t. value_monoid types mem sum_set_neutral (sum_operation t)) (fp ''sum'')),
     (''prod'', arith_records (\<lambda>t. value_monoid types mem prod_set_neutral (prod_operation t)) (fp ''prod'')),
     (''min'', arith_records (\<lambda>t. value_monoid types mem (min_set_neutral t) (min_operation t)) (fp ''min'')),
     (''max'', arith_records (\<lambda>t. value_monoid types mem (max_set_neutral t) (max_operation t)) (fp ''max'')),
     (''bAND'', bitwise_records (\<lambda>t. value_monoid types mem (bAND_set_neutral t) (bAND_operation t))),
     (''bOR'', bitwise_records (\<lambda>t. value_monoid types mem (bOR_set_neutral t) (bOR_operation t))),
     (''bXOR'', bitwise_records (\<lambda>t. value_monoid types mem (bXOR_set_neutral t) (bXOR_operation t))),
     (''all'', logic_records (value_monoid types mem all_set_neutral all_operation) None False),
     (''any'', logic_records (value_monoid types mem any_set_neutral any_operation) None False),
     (''count'', logic_records (value_monoid types mem count_set_neutral count_operation) (Some ''uint64_t'') True),
     (''mean'', arith_records (mean_monoid mem) (fp ''mean'')),
     (''narb'', arb_records arb)]"

section \<open>Registration\<close>

text \<open>
  The constructors in a dictionary: the tables of types and of converters are the context's; what a
  constructor caches in them (rebuilt promotions, sorted records) is not kept. The contents of the
  definition data are dropped.
\<close>

definition monoid_constructor ::
  "'i types_table \<Rightarrow> 'f hdql_Converters \<Rightarrow> destroy_callback \<Rightarrow> 'i int_records_t \<Rightarrow> (q_link list list option, hdql_AttrDef) constructor" where
  "monoid_constructor types cnvs destroy recs args c = do {
     (r, c) \<leftarrow> hdql_func_helper_try_monoid recs destroy args types cnvs c;
     Some (map_option fst r, c) }"

definition len_constructor :: "'i types_table \<Rightarrow> char \<Rightarrow> (q_link list list option, hdql_AttrDef) constructor" where
  "len_constructor types nm args c = do {
     (r, c) \<leftarrow> hdql_func_helper_try_len_empty (case args of None \<Rightarrow> [] | Some qs \<Rightarrow> qs) nm types c;
     Some (case r of Inl _ \<Rightarrow> None | Inr r \<Rightarrow> r, c) }"

fun define_all :: "(string \<times> ('q, 'r) constructor) list \<Rightarrow> ('q, 'r) hdql_Functions \<Rightarrow> int \<times> ('q, 'r) hdql_Functions" where
  "define_all [] fs = (0, fs)"
| "define_all ((n, f) # ds) fs = (let (rc, fs) = hdql_functions_define fs (Some n) (Some f) in
     if rc \<noteq> 0 then (rc, fs) else define_all ds fs)"

definition whole_functions ::
  "'i types_table \<Rightarrow> 'f hdql_Converters \<Rightarrow> destroy_callback \<Rightarrow> (addr \<Rightarrow> int) \<Rightarrow> (string \<Rightarrow> string \<Rightarrow> int_monoid) \<Rightarrow>
   (string \<Rightarrow> int_monoid) \<Rightarrow> (string \<times> (q_link list list option, hdql_AttrDef) constructor) list"
where
  "whole_functions types cnvs destroy mem fp arb =
     map (\<lambda>(n, recs). (n, monoid_constructor types cnvs destroy recs)) (monoid_functions (Some types) mem fp arb) @
     [(''len'', len_constructor types CHR ''l''), (''empty'', len_constructor types CHR ''e'')]"

definition hdql_functions_add_monoids ::
  "'i types_table \<Rightarrow> 'f hdql_Converters \<Rightarrow> destroy_callback \<Rightarrow> (addr \<Rightarrow> int) \<Rightarrow> (string \<Rightarrow> string \<Rightarrow> int_monoid) \<Rightarrow>
   (string \<Rightarrow> int_monoid) \<Rightarrow> (q_link list list option, hdql_AttrDef) hdql_Functions \<Rightarrow>
   int \<times> (q_link list list option, hdql_AttrDef) hdql_Functions"
where
  "hdql_functions_add_monoids types cnvs destroy mem fp arb = define_all (whole_functions types cnvs destroy mem fp arb)"

lemma define_all_appends:
  "\<forall>(n, f) \<in> set ds. n \<noteq> [] \<Longrightarrow> define_all ds fs = (0, Functions (fn_parent fs) (fn_defs fs @ ds))"
  by (induction ds arbitrary: fs) (auto simp: hdql_functions_define_def)

lemma whole_names:
  "map fst (whole_functions types cnvs destroy mem fp arb) =
     [''sum'', ''prod'', ''min'', ''max'', ''bAND'', ''bOR'', ''bXOR'', ''all'', ''any'', ''count'', ''mean'', ''narb'', ''len'', ''empty'']"
  by (simp add: whole_functions_def monoid_functions_def)

lemma filter_distinct:
  "distinct (map fst ds) \<Longrightarrow> (n, f) \<in> set ds \<Longrightarrow> filter (\<lambda>(m, g). m = n) ds = [(n, f)]"
  by (induction ds) (auto simp: image_iff filter_empty_conv)

text \<open>
  C20: Registered in an empty dictionary, each of the fourteen functions is found under its name (\<open>prod\<close>, not the
  \<open>product\<close> of the header) and applied to the arguments: the result is what it makes, or the report that it can not be made of
  them. No other name is known.
\<close>

theorem add_monoids_resolve:
  "\<exists>fs. hdql_functions_add_monoids types cnvs destroy mem fp arb (hdql_functions_create None) = (0, fs) \<and>
     (\<forall>(n, f) \<in> set (whole_functions types cnvs destroy mem fp arb). hdql_functions_resolve fs n args c =
        do { (r, c) \<leftarrow> f args c;
             Some (if r = None then HDQL_ERR_FUNC_CANT_INSTANTIATE else HDQL_ERR_CODE_OK, r, c) }) \<and>
     (\<forall>n. n \<notin> {''sum'', ''prod'', ''min'', ''max'', ''bAND'', ''bOR'', ''bXOR'', ''all'', ''any'', ''count'', ''mean'',
        ''narb'', ''len'', ''empty''} \<longrightarrow> hdql_functions_resolve fs n args c = Some (HDQL_ERR_FUNC_UNKNOWN, None, c))"
proof -
  let ?ds = "whole_functions types cnvs destroy mem fp arb" and ?fs = "Functions None (whole_functions types cnvs destroy mem fp arb)"
  have "\<forall>n \<in> set (map fst ?ds). n \<noteq> []" unfolding whole_names by simp
  then have "\<forall>(n, f) \<in> set ?ds. n \<noteq> []" by auto
  from define_all_appends [OF this, of "hdql_functions_create None"]
  have add: "hdql_functions_add_monoids types cnvs destroy mem fp arb (hdql_functions_create None) = (0, ?fs)"
    by (simp add: hdql_functions_add_monoids_def hdql_functions_create_def)
  have "distinct (map fst ?ds)" unfolding whole_names by simp
  then have found: "hdql_functions_resolve ?fs n args c =
      do { (r, c) \<leftarrow> f args c; Some (if r = None then HDQL_ERR_FUNC_CANT_INSTANTIATE else HDQL_ERR_CODE_OK, r, c) }"
    if "(n, f) \<in> set ?ds" for n f
    using filter_distinct [OF _ that] by (subst hdql_functions_resolve.simps) (auto split: bind_splits)
  have "hdql_functions_resolve ?fs n args c = Some (HDQL_ERR_FUNC_UNKNOWN, None, c)" if "n \<notin> set (map fst ?ds)" for n
  proof -
    have "filter (\<lambda>(m, g). m = n) ?ds = []" using that by (force simp: filter_empty_conv)
    then show ?thesis by (subst hdql_functions_resolve.simps) simp
  qed
  then have "\<forall>n. n \<notin> set (map fst ?ds) \<longrightarrow> hdql_functions_resolve ?fs n args c = Some (HDQL_ERR_FUNC_UNKNOWN, None, c)" by blast
  with add found show ?thesis unfolding whole_names by (intro exI [of _ ?fs]) auto
qed

section \<open>An overridden result type\<close>

lemma destinations_plain:
  "alloc_destinations types mem tc qs c = Some r \<Longrightarrow> \<forall>(q, cv) \<in> set qs. arg_type q = Some tc \<longrightarrow> cv = None"
proof (induction qs arbitrary: c r)
  case (Cons a qs)
  obtain q cv where a: "a = (q, cv)" by (cases a)
  show ?case
  proof (cases "arg_type q")
    case None
    then show ?thesis using Cons a by (auto simp: Let_def split: bind_splits dest: arg_type_parts)
  next
    case (Some t)
    obtain c1 r1 where "alloc_destinations types mem tc qs c1 = Some r1" "t = tc \<longrightarrow> cv = None"
      using Cons.prems unfolding a destination_step [OF Some]
      by (cases "t = tc") (auto simp: Option.is_none_def split: bind_splits)
    from Cons.IH [OF this(1)] this(2) show ?thesis using Some by (simp add: a)
  qed
qed simp

lemma logic_inferred:
  "infer_check_atomic_type_to_logic_as_logic args types 0 = Some (rc, rt, types1) \<Longrightarrow>
   rt = hdql_types_get_type_code types ''bool'' \<and> types1 = types"
  by (auto simp: infer_check_atomic_type_to_logic_as_logic_def infer_check_atomic_type_to_logic_def Let_def split: if_splits bind_splits)

text \<open>
  C37: A function of logic values whose result type is overridden, as \<open>count()\<close> has it, accepts an
  argument of the overriding type and sets up its conversion to the logic type, but no evaluation of it
  can start: making its state fails an assertion.
\<close>

theorem overridden_type_aborts:
  assumes "hdql_func_helper_try_monoid (logic_records md (Some n) e) destroy (Some args) types cnvs c = Some (Some (ad, dd), c')"
    and "hdql_types_get_type_code types n \<noteq> hdql_types_get_type_code types ''bool''"
    and "q \<in> set args" "arg_type q = Some (hdql_types_get_type_code types n)"
    and "map snd (sd_queries ddd) = args" "sd_converters ddd = sd_converters dd" "sd_rTypeCode ddd = sd_rTypeCode dd"
  shows "monoid_new_dyn_data vt mem d ddd c0 = None"
  using assms(1)
proof (cases rule: try_monoid_assigned)
  case (assigned args1 rc rt types1 md p c1 qs c2 cs c3)
  from assigned(8) show ?thesis
  proof (cases rule: assign_cases)
    case (made fs cnvs' tc a)
    have args: "args1 = args" using assigned(1) by simp
    have types: "rt = hdql_types_get_type_code types ''bool''" "types1 = types"
      using logic_inferred [of args1 types rc rt types1] assigned(2) by (simp_all add: logic_records_def)
    have tc: "tc = hdql_types_get_type_code types n"
      using made(2) types(2) by (auto simp: result_code_def logic_records_def Let_def split: if_splits)
    have fit: "list_all2 (conversion_fits rt) args fs" using find_converters_fit [OF made(1)] args by simp
    obtain i where i: "i < length args" "args ! i = q" using assms(3) by (auto simp: in_set_conv_nth)
    then have "fs ! i \<noteq> None" using fit assms(2,4) types by (auto simp: list_all2_conv_all_nth conversion_fits_def)
    moreover have "(q, fs ! i) \<in> set (zip args fs)" using i fit by (auto simp: set_zip list_all2_conv_all_nth)
    ultimately have "alloc_destinations vt mem tc (zip args fs) c4 = None" for c4
      using destinations_plain [of vt mem tc "zip args fs" c4] assms(4) tc
      by (cases "alloc_destinations vt mem tc (zip args fs) c4") auto
    then show ?thesis using made(4) assms(5-7)
      by (auto simp: monoid_new_dyn_data_def Let_def split: prod.splits option.splits bind_splits)
  qed simp
qed simp

section \<open>Samples\<close>

definition count_converters :: "unit hdql_Converters" where
  "count_converters = Converters 8 16 True (Some 9) [(conv_key 520 512, ())] None"

lemma std_logic: "get_code_by_name std_table ''bool'' = 512"
  by code_simp

lemma std_codes:
  "hdql_types_get_type_code std_table ''bool'' = 512" "hdql_types_get_type_code std_table ''int8_t'' = 513"
  "hdql_types_get_type_code std_table ''uint8_t'' = 514" "hdql_types_get_type_code std_table ''int16_t'' = 515"
  "hdql_types_get_type_code std_table ''uint16_t'' = 516" "hdql_types_get_type_code std_table ''int32_t'' = 517"
  "hdql_types_get_type_code std_table ''uint32_t'' = 518" "hdql_types_get_type_code std_table ''uint64_t'' = 520"
  using std_table_codes(1) by (simp_all add: hdql_types_get_type_code_def arith_names_def std_logic)

lemma count_lookup: "hdql_converters_get count_converters 512 520 = Some (Some (), count_converters)"
  by code_simp

text \<open>\<open>sum\<close> of one \<open>uint32_t\<close> and \<open>count\<close> of one \<open>uint64_t\<close>.\<close>

definition sum_records_sample :: "unit int_records_t" where
  "sum_records_sample = arith_records (\<lambda>t. value_monoid (Some std_table) (\<lambda>_. 0) sum_set_neutral (sum_operation t)) (\<lambda>_. undefined)"

definition count_records_sample :: "unit int_records_t" where
  "count_records_sample = logic_records (value_monoid (Some std_table) (\<lambda>_. 0) count_set_neutral count_operation) (Some ''uint64_t'') True"

lemma link_parts:
  "hdql_query_top_attr [atomic_link tc] = Some (ql_ad (atomic_link tc))"
  "hdql_attr_def_top_attr (ql_ad (atomic_link tc)) = Some (ql_ad (atomic_link tc))"
  "hdql_attr_def_is_atomic (ql_ad (atomic_link tc))" "\<not> hdql_attr_def_is_static_const_value (ql_ad (atomic_link tc))"
  "hdql_attr_def_atomic_type_info (ql_ad (atomic_link tc)) = Some \<lparr>at_isReadOnly = False, at_arithTypeCode = tc\<rparr>"
  by (simp_all add: atomic_link_def hdql_attr_def_atomic_type_info_def hdql_attr_def_is_atomic_def hdql_attr_def_is_static_const_value_def)

lemma try_monoid_makes:
  assumes "mr_infer_result_type recs args types 0 = Some (rc, rt, types1)" "0 < rc" "find_record types1 (mr_records recs) rt = Some md"
    and "find_converters types1 rt args cnvs = Some (Some fs, cnvs')" "result_code types1 rt (mr_overrideRType recs) = Some tc" "no_oom c"
  shows "\<exists>ad dd c'. hdql_func_helper_try_monoid recs destroy (Some args) types cnvs c = Some (Some (ad, dd), c') \<and>
    sd_rTypeCode dd = tc \<and> sd_queries dd = args \<and> sd_converters dd = fs"
proof -
  obtain p1 c1 where 1: "ctx_alloc c = (Some p1, c1)" "no_oom c1" using no_oom_alloc [OF assms(6)] by blast
  obtain p2 c2 where 2: "ctx_alloc c1 = (Some p2, c2)" "no_oom c2" using no_oom_alloc [OF 1(2)] by blast
  obtain p3 c3 where 3: "ctx_alloc c2 = (Some p3, c3)" "no_oom c3" using no_oom_alloc [OF 2(2)] by blast
  obtain p4 c4 where 4: "ctx_alloc c3 = (Some p4, c4)" using no_oom_alloc [OF 3(2)] by blast
  have "\<exists>ad dd c'. monoid_assign recs destroy md p1 (p2, p3) args types1 cnvs rt c3 = Some (Some (ad, dd), c') \<and>
    sd_rTypeCode dd = tc \<and> sd_queries dd = args \<and> sd_converters dd = fs"
    using 4 by (simp add: monoid_assign_def assms(4,5) hdql_attr_def_create_atomic_scalar_def)
  then show ?thesis using assms(2)
    by (simp add: hdql_func_helper_try_monoid_def assms(1,3) 1(1) 2(1) 3(1))
qed

lemma roomy: "no_oom ctx_roomy" "ctx_wf ctx_roomy" "ctx_live ctx_roomy = {9..<16}"
  by (simp_all add: ctx_roomy_def ctx_wf_def heap_wf_def no_oom_def ctx_live_def)

lemma sum_made:
  "\<exists>ad dd c'. hdql_func_helper_try_monoid sum_records_sample (\<lambda>_ s c. ctx_free s c) (Some [[atomic_link 518]]) std_table logic_converters ctx_roomy =
     Some (Some (ad, dd), c') \<and> sd_rTypeCode dd = 518 \<and> sd_queries dd = [[atomic_link 518]] \<and> sd_converters dd = [None]"
proof (rule try_monoid_makes)
  show "mr_infer_result_type sum_records_sample [[atomic_link 518]] std_table 0 = Some (1, 518, std_table)"
    by (simp add: sum_records_sample_def arith_records_def infer_simple_arithmetic_type_def link_parts std_codes)
  show "find_record std_table (mr_records sum_records_sample) 518 =
      Some (value_monoid (Some std_table) (\<lambda>_. 0) sum_set_neutral (sum_operation CUI32))"
    by (simp add: find_record_def sum_records_sample_def arith_records_def int_records_def M_for_each_integer_type_def std_codes)
qed (simp_all add: link_parts result_code_def sum_records_sample_def arith_records_def roomy)

lemma count_made:
  "\<exists>ad dd c'. hdql_func_helper_try_monoid count_records_sample (\<lambda>_ s c. ctx_free s c) (Some [[atomic_link 520]]) std_table count_converters ctx_roomy =
     Some (Some (ad, dd), c') \<and> sd_rTypeCode dd = 520 \<and> sd_queries dd = [[atomic_link 520]] \<and> sd_converters dd = [Some ()]"
proof (rule try_monoid_makes)
  show "mr_infer_result_type count_records_sample [[atomic_link 520]] std_table 0 = Some (1, 512, std_table)"
    by (simp add: count_records_sample_def logic_records_def infer_check_atomic_type_to_logic_as_logic_def
        infer_check_atomic_type_to_logic_def link_parts std_codes Let_def)
  show "find_record std_table (mr_records count_records_sample) 512 =
      Some (value_monoid (Some std_table) (\<lambda>_. 0) count_set_neutral count_operation)"
    by (simp add: find_record_def count_records_sample_def logic_records_def)
qed (simp_all add: link_parts result_code_def count_records_sample_def logic_records_def roomy count_lookup std_codes)

lemma monoid_constructor_typed_witness:
  "\<exists>ad dd c'. hdql_func_helper_try_monoid sum_records_sample (\<lambda>_ s c. ctx_free s c) (Some [[atomic_link 518]]) std_table logic_converters ctx_roomy =
     Some (Some (ad, dd), c') \<and> hdql_attr_def_is_scalar ad \<and> hdql_attr_def_get_atomic_value_type_code ad = Some 518 \<and>
     alloc_destinations (Some std_table) (\<lambda>_. 0 :: int) 518 [([atomic_link 518], None :: unit option)] ctx_roomy \<noteq> None"
proof -
  obtain ad dd c' where made: "hdql_func_helper_try_monoid sum_records_sample (\<lambda>_ s c. ctx_free s c) (Some [[atomic_link 518]]) std_table
      logic_converters ctx_roomy = Some (Some (ad, dd), c')" "sd_rTypeCode dd = 518" "sd_converters dd = [None]"
    using sum_made by blast
  have "mr_overrideRType sum_records_sample = None" by (simp add: sum_records_sample_def arith_records_def)
  from monoid_constructor_typed [OF made(1) this]
  have "hdql_attr_def_is_scalar ad \<and> hdql_attr_def_get_atomic_value_type_code ad = Some (ucast (518 :: tcode)) \<and>
      (\<forall>vt (mem :: addr \<Rightarrow> int) c0. creates vt 518 \<and> no_oom c0 \<longrightarrow>
        alloc_destinations vt mem 518 (zip [[atomic_link 518]] [None :: unit option]) c0 \<noteq> None)"
    unfolding made(2,3) by blast
  moreover have "ucast (518 :: tcode) = (518 :: hdql_ValueTypeCode_t)" by simp
  ultimately have "hdql_attr_def_is_scalar ad \<and> hdql_attr_def_get_atomic_value_type_code ad = Some 518 \<and>
    alloc_destinations (Some std_table) (\<lambda>_. 0 :: int) 518 (zip [[atomic_link 518]] [None :: unit option]) ctx_roomy \<noteq> None"
    using std_creates roomy(1) by metis
  then show ?thesis using made(1) unfolding zip_Cons_Cons zip_Nil by blast
qed

lemma monoid_constructor_memory_witness:
  "\<exists>ad dd c' c2. hdql_func_helper_try_monoid sum_records_sample (\<lambda>_ s c. ctx_free s c) (Some [[atomic_link 518]]) std_table logic_converters ctx_roomy =
     Some (Some (ad, dd), c') \<and> hdql_attr_def_destroy ad c' = Some c2 \<and> ctx_live c2 = {9..<14} \<union> {15}"
proof -
  obtain ad dd c' where made: "hdql_func_helper_try_monoid sum_records_sample (\<lambda>_ s c. ctx_free s c) (Some [[atomic_link 518]]) std_table
      logic_converters ctx_roomy = Some (Some (ad, dd), c')"
    using sum_made by blast
  have blocks: "q_blocks [atomic_link 518] = [14]" "\<forall>q \<in> set [[atomic_link 518]]. q_ok q"
    by (simp_all add: atomic_link_def state_blocks_def state_ok_def)
  from monoid_constructor_memory [OF made roomy(2) blocks(2)]
  obtain c2 where "hdql_attr_def_destroy ad c' = Some c2" "ctx_live c2 = {9..<16} - {14}"
    by (auto simp: blocks(1) roomy(3))
  then show ?thesis using made by force
qed

definition count_data_sample ::
  "(int, result_block, q_link list, unit) SMADefData_t \<Rightarrow> (int, result_block, int cpp_iterator, unit, bytes, unit) monoid_data" where
  "count_data_sample dd = \<lparr>sd_rTypeCode = sd_rTypeCode dd, sd_queries = map (\<lambda>q. ([items_query], q)) (sd_queries dd),
     sd_converters = sd_converters dd, sd_resultDefinedForEmptySet = sd_resultDefinedForEmptySet dd, sd_monoidDef = sd_monoidDef dd\<rparr>"

lemma overridden_type_aborts_witness:
  "\<exists>ad dd c'. hdql_func_helper_try_monoid count_records_sample (\<lambda>_ s c. ctx_free s c) (Some [[atomic_link 520]]) std_table count_converters ctx_roomy =
     Some (Some (ad, dd), c') \<and>
     monoid_new_dyn_data (Some std_table) (\<lambda>_. 0) None (count_data_sample dd) ctx_roomy = None"
proof -
  obtain ad dd c' where made: "hdql_func_helper_try_monoid count_records_sample (\<lambda>_ s c. ctx_free s c) (Some [[atomic_link 520]]) std_table
      count_converters ctx_roomy = Some (Some (ad, dd), c')" "sd_queries dd = [[atomic_link 520]]"
    using count_made by blast
  have t: "arg_type [atomic_link 520] = Some (hdql_types_get_type_code std_table ''uint64_t'')"
    by (simp add: arg_type_def link_parts std_codes)
  from overridden_type_aborts [OF made(1) [unfolded count_records_sample_def] _ _ t, of "count_data_sample dd"] made
  show ?thesis by (force simp: std_codes count_data_sample_def)
qed

lemma add_monoids_resolve_witness:
  "\<exists>fs. hdql_functions_add_monoids std_table logic_converters (\<lambda>_ s c. ctx_free s c) (\<lambda>_. 0) (\<lambda>_ _. undefined) (\<lambda>_. undefined)
       (hdql_functions_create None) = (0, fs) \<and>
     hdql_functions_resolve fs ''len'' None ctx_roomy = Some (HDQL_ERR_FUNC_CANT_INSTANTIATE, None, ctx_roomy) \<and>
     hdql_functions_resolve fs ''arb'' None ctx_roomy = Some (HDQL_ERR_FUNC_UNKNOWN, None, ctx_roomy)"
proof -
  let ?ds = "whole_functions std_table logic_converters (\<lambda>_ s c. ctx_free s c) (\<lambda>_. 0) (\<lambda>_ _. undefined) (\<lambda>_. undefined)"
  obtain fs where fs: "hdql_functions_add_monoids std_table logic_converters (\<lambda>_ s c. ctx_free s c) (\<lambda>_. 0) (\<lambda>_ _. undefined) (\<lambda>_. undefined)
       (hdql_functions_create None) = (0, fs)"
    "\<forall>(n, f) \<in> set ?ds. hdql_functions_resolve fs n None ctx_roomy =
        do { (r, c) \<leftarrow> f None ctx_roomy; Some (if r = None then HDQL_ERR_FUNC_CANT_INSTANTIATE else HDQL_ERR_CODE_OK, r, c) }"
    "hdql_functions_resolve fs ''arb'' None ctx_roomy = Some (HDQL_ERR_FUNC_UNKNOWN, None, ctx_roomy)"
    using add_monoids_resolve [of std_table logic_converters "\<lambda>_ s c. ctx_free s c" "\<lambda>_. 0" "\<lambda>_ _. undefined" "\<lambda>_. undefined" None ctx_roomy]
    by (elim exE conjE) (drule spec [of _ "''arb''"], simp)
  have "(''len'', len_constructor std_table CHR ''l'') \<in> set ?ds" by (simp add: whole_functions_def)
  with fs(2) have "hdql_functions_resolve fs ''len'' None ctx_roomy = Some (HDQL_ERR_FUNC_CANT_INSTANTIATE, None, ctx_roomy)"
    by (auto simp: len_constructor_def hdql_func_helper_try_len_empty_def)
  with fs show ?thesis by blast
qed

end
