(* ===== verification/CsvHandler.thy ===== *)
theory CsvHandler
  imports Results Compound ValueTypes ValueText
begin

text \<open>
  The handler that prints query results as delimiter-separated values
  (\<open>src/helpers/query-results-handler-csv.c\<close>): the tree of attribute handlers it builds for the type
  of the result, the line of column names and the lines of the records.
\<close>

section \<open>State\<close>

text \<open>The formatting; a string may be null.\<close>

record hdql_DSVFormatting =
  valueDelimiter :: "bytes option"
  recordDelimiter :: "bytes option"
  attrDelimiter :: "bytes option"
  collectionLengthMarker :: "bytes option"
  anonymousColumnName :: "bytes option"
  nullToken :: "bytes option"
  unlabeledKeyColumnFormat :: "bytes option"

text \<open>
  A handler of an attribute. The payload is a union: cleared, the callback that makes a text of a
  value, or the tier of the handlers of a compound, an array at an address.
\<close>

datatype csv_value_handler = CollectionEntry | ScalarCompoundEntry | ScalarAtomicEntry | ScalarAtomicValueEntry

datatype 'd hdql_CSVAttrHandler = CSVAttrHandler (ah_addr: addr) (ah_name: "bytes option") (ah_ad: hdql_AttrDef)
    (ah_value_handler: "csv_value_handler option") (ah_payload: "'d csv_payload")
and 'd csv_payload = PlZero | PlString "'d \<Rightarrow> bytes" | PlTier "addr option" "'d hdql_CSVAttrHandler list"

text \<open>
  What handling changes: the dynamic data of the handlers, by the address of the handler, the
  definition data of the attributes, by the address of the definition, the context, the stream and
  the number of columns printed. The interface of a definition, \<open>ifc\<close>, is a parameter.
\<close>

record ('s, 'a) csv_world =
  cw_dynamicData :: "addr \<Rightarrow> 's option"
  cw_defs :: "addr \<Rightarrow> 'a"
  cw_ctx :: hdql_Context
  cw_dest :: bytes
  cw_nColumnsPrinted :: nat

text \<open>
  The keys the handler was given: the key, the views of it (a view is the path to it) and the types of
  their data, an array at an address. Before that they are not initialised. The strings of the formatting are copies; their
  memory is not tracked here.
\<close>

record 'i csv_keys =
  flatKeyAddr :: addr
  flatKey :: "bytes hdql_Key"
  flatKeyViews :: "nat list list"
  flatKeyIFaces :: "'i type_interface option list"

record ('d, 'i) hdql_CSVHandler =
  csv_addr :: addr
  csv_fmt :: hdql_DSVFormatting
  csv_rootObjectHandler :: "'d hdql_CSVAttrHandler option"
  csv_flatKeys :: "'i csv_keys option"

definition fputs :: "bytes option \<Rightarrow> ('s, 'a) csv_world \<Rightarrow> ('s, 'a) csv_world option" where
  "fputs s w = do { s \<leftarrow> s; Some (w\<lparr>cw_dest := cw_dest w @ s\<rparr>) }"

definition csv_print_column :: "hdql_DSVFormatting \<Rightarrow> bytes option \<Rightarrow> ('s, 'a) csv_world \<Rightarrow> ('s, 'a) csv_world option" where
  "csv_print_column fmt columnString w = do {
     w \<leftarrow> (if cw_nColumnsPrinted w \<noteq> 0 then fputs (valueDelimiter fmt) w else Some w);
     w \<leftarrow> fputs columnString w;
     Some (w\<lparr>cw_nColumnsPrinted := cw_nColumnsPrinted w + 1\<rparr>) }"

section \<open>The tree of handlers\<close>

text \<open>An array that grows by one is allocated anew.\<close>

definition push_back_handler ::
  "addr option \<times> 'd hdql_CSVAttrHandler list \<Rightarrow> 'd hdql_CSVAttrHandler \<Rightarrow> hdql_Context \<Rightarrow>
   (hdql_Err_t \<times> (addr option \<times> 'd hdql_CSVAttrHandler list) \<times> hdql_Context) option"
where
  "push_back_handler t h c = (case t of
     (Some old, hs) \<Rightarrow> do {
       c_assert (hs \<noteq> []);
       let (p, c) = ctx_alloc c;
       if p = None then Some (HDQL_ERR_MEMORY, t, c)
       else do {
         c \<leftarrow> ctx_free (Some old) c;
         Some (HDQL_ERR_CODE_OK, (p, hs @ [h]), c) } }
   | (None, hs) \<Rightarrow> do {
       c_assert (hs = []);
       let (p, c) = ctx_alloc c;
       if p = None then Some (HDQL_ERR_MEMORY, t, c)
       else Some (HDQL_ERR_CODE_OK, (p, [h]), c) })"

text \<open>
  The expansion of a compound into handlers, and the choice of the handler of an attribute, which
  expands compounds in turn. \<open>compounds\<close> is the compound behind a pointer, \<open>as_string\<close> the callback of a
  type. What pushing returns is not used.
\<close>

partial_function (option) expand_names ::
  "(addr \<Rightarrow> hdql_Compound option) \<Rightarrow> 'i types_table \<Rightarrow> ('i type_interface \<Rightarrow> ('d \<Rightarrow> bytes) option) \<Rightarrow>
   hdql_Compound \<Rightarrow> bytes list \<Rightarrow> addr option \<times> 'd hdql_CSVAttrHandler list \<Rightarrow> hdql_Context \<Rightarrow>
   ((addr option \<times> 'd hdql_CSVAttrHandler list) \<times> hdql_Context) option"
where
  "expand_names compounds types as_string cp names t c = (case names of
     [] \<Rightarrow> Some (t, c)
   | name # names \<Rightarrow>
       Option.bind (hdql_compound_get_attr cp name) (\<lambda>ad.
       case ctx_alloc c of
         (None, c) \<Rightarrow> None
       | (Some ah, c) \<Rightarrow>
           Option.bind (hdql_attr_def_top_attr ad) (\<lambda>topAD.
           Option.bind
             (if hdql_attr_def_is_collection topAD then Some (CollectionEntry, PlZero, c)
              else if hdql_attr_def_is_atomic topAD then
                Option.bind (hdql_attr_def_get_atomic_value_type_code topAD) (\<lambda>tc.
                Option.bind (hdql_types_get_type types (ucast tc)) (\<lambda>vi.
                Option.bind vi (\<lambda>vi.
                Option.bind (as_string vi) (\<lambda>f. Some (ScalarAtomicEntry, PlString f, c)))))
              else
                Option.bind (c_assert (hdql_attr_def_is_compound topAD)) (\<lambda>_.
                Option.bind (hdql_attr_def_compound_type_info ad) (\<lambda>p.
                Option.bind p (\<lambda>p.
                Option.bind (compounds p) (\<lambda>sub.
                Option.bind (expand_names compounds types as_string sub (hdql_compound_get_attr_names_recursive sub) (None, []) c)
                  (\<lambda>((arr, hs), c). Some (ScalarCompoundEntry, PlTier arr hs, c)))))))
             (\<lambda>(vh, pl, c).
               Option.bind (push_back_handler t (CSVAttrHandler ah (if name = [] then None else Some name) ad (Some vh) pl) c)
                 (\<lambda>(_, t, c). expand_names compounds types as_string cp names t c)))))"

definition expand_scalar_compound_to_columns ::
  "(addr \<Rightarrow> hdql_Compound option) \<Rightarrow> 'i types_table \<Rightarrow> ('i type_interface \<Rightarrow> ('d \<Rightarrow> bytes) option) \<Rightarrow>
   hdql_AttrDef \<Rightarrow> hdql_Context \<Rightarrow> ((addr option \<times> 'd hdql_CSVAttrHandler list) \<times> hdql_Context) option"
where
  "expand_scalar_compound_to_columns compounds types as_string ad c = do {
     p \<leftarrow> hdql_attr_def_compound_type_info ad;
     p \<leftarrow> p;
     cp \<leftarrow> compounds p;
     expand_names compounds types as_string cp (hdql_compound_get_attr_names_recursive cp) (None, []) c }"

text \<open>The handler of the whole result. At the root a collection is what the query runs through.\<close>

definition csv_root_handler ::
  "(addr \<Rightarrow> hdql_Compound option) \<Rightarrow> 'i types_table \<Rightarrow> ('i type_interface \<Rightarrow> ('d \<Rightarrow> bytes) option) \<Rightarrow> addr \<Rightarrow>
   hdql_AttrDef \<Rightarrow> hdql_Context \<Rightarrow> ('d hdql_CSVAttrHandler \<times> hdql_Context) option"
where
  "csv_root_handler compounds types as_string root ad c =
     (if hdql_attr_def_is_atomic ad then do {
        tc \<leftarrow> hdql_attr_def_get_atomic_value_type_code ad;
        vi \<leftarrow> hdql_types_get_type types (ucast tc);
        vi \<leftarrow> vi;
        if hdql_attr_def_is_scalar ad then do {
          f \<leftarrow> as_string vi;
          Some (CSVAttrHandler root None ad (Some ScalarAtomicEntry) (PlString f), c) }
        else do {
          c_assert (hdql_attr_def_is_collection ad);
          Some (CSVAttrHandler root None ad (Some ScalarAtomicValueEntry)
            (case as_string vi of None \<Rightarrow> PlZero | Some f \<Rightarrow> PlString f), c) } }
      else do {
        c_assert (hdql_attr_def_is_compound ad);
        ((arr, hs), c) \<leftarrow> expand_scalar_compound_to_columns compounds types as_string ad c;
        Some (CSVAttrHandler root None ad (Some ScalarCompoundEntry) (PlTier arr hs), c) })"

text \<open>The root handler is a part of the handler; \<open>root\<close> is its address.\<close>

definition csv_handler_set_result_type ::
  "(addr \<Rightarrow> hdql_Compound option) \<Rightarrow> 'i types_table \<Rightarrow> ('i type_interface \<Rightarrow> ('d \<Rightarrow> bytes) option) \<Rightarrow> addr \<Rightarrow>
   hdql_AttrDef \<Rightarrow> ('d, 'i) hdql_CSVHandler \<Rightarrow> ('s, 'a) csv_world \<Rightarrow>
   (int \<times> ('d, 'i) hdql_CSVHandler \<times> ('s, 'a) csv_world) option"
where
  "csv_handler_set_result_type compounds types as_string root ad csv w = do {
     c_assert (Option.is_none (csv_rootObjectHandler csv));
     (h, c) \<leftarrow> csv_root_handler compounds types as_string root ad (cw_ctx w);
     Some (0, csv\<lparr>csv_rootObjectHandler := Some h\<rparr>, w\<lparr>cw_ctx := c\<rparr>) }"

section \<open>The line of column names\<close>

text \<open>
  The prefix of the names in a compound. The buffer has no room for the terminator, so the last byte
  of the text is cut; a buffer of no bytes is left unset.
\<close>

definition next_prefix :: "bytes option \<Rightarrow> bytes \<Rightarrow> bytes \<Rightarrow> bytes option" where
  "next_prefix prefix name delim = (let
       len = length name + length delim + (case prefix of None \<Rightarrow> 0 | Some p \<Rightarrow> length p + length delim);
       text = (case prefix of None \<Rightarrow> [] | Some p \<Rightarrow> p @ delim) @ name @ delim
     in if len = 0 then None else Some (take (len - 1) text))"

definition fput_prefixed ::
  "hdql_DSVFormatting \<Rightarrow> bytes option \<Rightarrow> bytes option \<Rightarrow> ('s, 'a) csv_world \<Rightarrow> ('s, 'a) csv_world option" where
  "fput_prefixed fmt prefix name w = do {
     w \<leftarrow> (if prefix \<noteq> None \<and> attrDelimiter fmt \<noteq> None
          then do { w \<leftarrow> fputs prefix w; fputs (attrDelimiter fmt) w } else Some w);
     fputs (case name of None \<Rightarrow> anonymousColumnName fmt | Some n \<Rightarrow> Some n) w }"

fun print_columns_list ::
  "hdql_DSVFormatting \<Rightarrow> bytes option \<Rightarrow> 'd hdql_CSVAttrHandler list \<Rightarrow> ('s, 'a) csv_world \<Rightarrow> ('s, 'a) csv_world option"
and print_column ::
  "hdql_DSVFormatting \<Rightarrow> bytes option \<Rightarrow> 'd hdql_CSVAttrHandler \<Rightarrow> ('s, 'a) csv_world \<Rightarrow> ('s, 'a) csv_world option"
where
  "print_columns_list fmt prefix [] w = Some w"
| "print_columns_list fmt prefix (h # hs) w = do { w \<leftarrow> print_column fmt prefix h w; print_columns_list fmt prefix hs w }"
| "print_column fmt prefix (CSVAttrHandler a name ad vh pl) w = do {
     topAD \<leftarrow> hdql_attr_def_top_attr ad;
     if hdql_attr_def_is_collection topAD then do {
       w \<leftarrow> (if cw_nColumnsPrinted w \<noteq> 0 then fputs (valueDelimiter fmt) w else Some w);
       w \<leftarrow> fputs (collectionLengthMarker fmt) w;
       w \<leftarrow> fput_prefixed fmt prefix name w;
       Some (w\<lparr>cw_nColumnsPrinted := cw_nColumnsPrinted w + 1\<rparr>) }
     else if hdql_attr_def_is_atomic topAD then do {
       w \<leftarrow> (if cw_nColumnsPrinted w \<noteq> 0 then fputs (valueDelimiter fmt) w else Some w);
       w \<leftarrow> fput_prefixed fmt prefix name w;
       Some (w\<lparr>cw_nColumnsPrinted := cw_nColumnsPrinted w + 1\<rparr>) }
     else do {
       c_assert (hdql_attr_def_is_compound topAD);
       nextPrefix \<leftarrow> (case attrDelimiter fmt of
           None \<Rightarrow> Some None
         | Some delim \<Rightarrow> do {
             n \<leftarrow> (case name of None \<Rightarrow> anonymousColumnName fmt | Some n \<Rightarrow> Some n);
             p \<leftarrow> next_prefix prefix n delim;
             Some (Some p) });
       case pl of
         PlTier arr hs \<Rightarrow> print_columns_list fmt nextPrefix hs w
       | PlZero \<Rightarrow> Some w
       | PlString _ \<Rightarrow> None } }"

section \<open>The handler\<close>

text \<open>\<open>hdql_query_results_handler_csv_init\<close>: one allocation, which is not checked.\<close>

definition hdql_query_results_handler_csv_init ::
  "hdql_DSVFormatting \<Rightarrow> hdql_Context \<Rightarrow> (('d, 'i) hdql_CSVHandler \<times> hdql_Context) option" where
  "hdql_query_results_handler_csv_init fmt c = (let (p, c) = ctx_alloc c in do {
     a \<leftarrow> p;
     Some (\<lparr>csv_addr = a, csv_fmt = fmt, csv_rootObjectHandler = None, csv_flatKeys = None\<rparr>, c) })"

fun key_ifaces :: "'i types_table \<Rightarrow> bytes hdql_Key \<Rightarrow> nat list option list \<Rightarrow> (nat list list \<times> 'i type_interface option list) option" where
  "key_ifaces types key [] = Some ([], [])"
| "key_ifaces types key (v # vs) = do {
     v \<leftarrow> v;
     k \<leftarrow> key_at key v;
     c_assert (hdql_key_is_datum k);
     tc \<leftarrow> hdql_key_datum_get_type_code k;
     vi \<leftarrow> hdql_types_get_type types (ucast tc);
     (ps, vis) \<leftarrow> key_ifaces types key vs;
     Some (v # ps, vi # vis) }"

text \<open>The array of views is null when there are no keys.\<close>

definition csv_handler_handle_keys ::
  "'i types_table \<Rightarrow> bytes hdql_Key \<Rightarrow> nat list option list \<Rightarrow> nat \<Rightarrow> ('d, 'i) hdql_CSVHandler \<Rightarrow> ('s, 'a) csv_world \<Rightarrow>
   (int \<times> ('d, 'i) hdql_CSVHandler \<times> ('s, 'a) csv_world) option"
where
  "csv_handler_handle_keys types key view n csv w = do {
     c_assert (view \<noteq> []);
     let (p, c) = ctx_alloc (cw_ctx w);
     fi \<leftarrow> p;
     (ps, vis) \<leftarrow> key_ifaces types key (take n view);
     Some (0, csv\<lparr>csv_flatKeys := Some \<lparr>flatKeyAddr = fi, flatKey = key, flatKeyViews = ps, flatKeyIFaces = vis\<rparr>\<rparr>, w\<lparr>cw_ctx := c\<rparr>) }"

text \<open>\<open>format_key\<close> is \<open>snprintf\<close> of the client's format into the buffer.\<close>

fun print_key_names ::
  "hdql_DSVFormatting \<Rightarrow> (bytes \<Rightarrow> nat \<Rightarrow> bytes) \<Rightarrow> bytes hdql_Key \<Rightarrow> nat \<Rightarrow> nat list list \<Rightarrow> ('s, 'a) csv_world \<Rightarrow> ('s, 'a) csv_world option"
where
  "print_key_names fmt format_key key n [] w = Some w"
| "print_key_names fmt format_key key n (v # vs) w = do {
     k \<leftarrow> key_at key v;
     w \<leftarrow> (if cw_nColumnsPrinted w \<noteq> 0 then fputs (valueDelimiter fmt) w else Some w);
     w \<leftarrow> (if hdql_key_is_labeled k then fputs (hdql_key_get_label k) w
          else do { f \<leftarrow> unlabeledKeyColumnFormat fmt; fputs (Some (format_key f n)) w });
     print_key_names fmt format_key key (n + 1) vs (w\<lparr>cw_nColumnsPrinted := cw_nColumnsPrinted w + 1\<rparr>) }"

definition csv_handler_finalize_schema ::
  "(bytes \<Rightarrow> nat \<Rightarrow> bytes) \<Rightarrow> ('d, 'i) hdql_CSVHandler \<Rightarrow> ('s, 'a) csv_world \<Rightarrow> ('s, 'a) csv_world option"
where
  "csv_handler_finalize_schema format_key csv w = do {
     let w = w\<lparr>cw_nColumnsPrinted := 0\<rparr>;
     ks \<leftarrow> csv_flatKeys csv;
     w \<leftarrow> print_key_names (csv_fmt csv) format_key (flatKey ks) 0 (flatKeyViews ks) w;
     root \<leftarrow> csv_rootObjectHandler csv;
     w \<leftarrow> (if hdql_attr_def_is_compound (ah_ad root)
          then (case ah_payload root of
              PlTier arr hs \<Rightarrow> print_columns_list (csv_fmt csv) None hs w
            | PlZero \<Rightarrow> Some w
            | PlString _ \<Rightarrow> None)
          else do {
            w \<leftarrow> (if cw_nColumnsPrinted w \<noteq> 0 then fputs (valueDelimiter (csv_fmt csv)) w else Some w);
            fputs (anonymousColumnName (csv_fmt csv)) w });
     fputs (recordDelimiter (csv_fmt csv)) w }"

section \<open>The lines of the records\<close>

definition csv_scalar_iface ::
  "(addr \<Rightarrow> ('d, 's, 'a, bytes) ad_interface) \<Rightarrow> hdql_AttrDef \<Rightarrow> ('d, 's, 'a, bytes) hdql_ScalarAttrInterface option" where
  "csv_scalar_iface ifc ad = do {
     _ \<leftarrow> hdql_attr_def_scalar_iface ad;
     case ifc (ad_addr ad) of IfScalar i \<Rightarrow> Some i | IfCollection _ \<Rightarrow> None }"

definition csv_collection_iface ::
  "(addr \<Rightarrow> ('d, 's, 'a, bytes) ad_interface) \<Rightarrow> hdql_AttrDef \<Rightarrow> ('d, 's, 'a, bytes) hdql_CollectionAttrInterface option" where
  "csv_collection_iface ifc ad = do {
     _ \<leftarrow> hdql_attr_def_collection_iface ad;
     case ifc (ad_addr ad) of IfCollection i \<Rightarrow> Some i | IfScalar _ \<Rightarrow> None }"

definition csv_update :: "addr \<Rightarrow> addr \<Rightarrow> 's option \<Rightarrow> 'a \<Rightarrow> hdql_Context \<Rightarrow> ('s, 'a) csv_world \<Rightarrow> ('s, 'a) csv_world" where
  "csv_update h ad s a c w = w\<lparr>cw_dynamicData := (cw_dynamicData w)(h := s), cw_defs := (cw_defs w)(ad := a), cw_ctx := c\<rparr>"

text \<open>The number of items, counted to the first null datum; it is a \<open>size_t\<close>, printed by \<open>%zu\<close>.\<close>

partial_function (option) count_items ::
  "('d, 's, 'a, bytes) hdql_CollectionAttrInterface \<Rightarrow> 'd option \<Rightarrow> size_t \<Rightarrow> 's option \<Rightarrow> 'a \<Rightarrow> hdql_Context \<Rightarrow>
   (size_t \<times> 's option \<times> 'a \<times> hdql_Context) option"
where
  "count_items ci check n s a c = (case check of
     None \<Rightarrow> Some (n, s, a, c)
   | Some _ \<Rightarrow> Option.bind (ci_yield ci s a None c) (\<lambda>(check, s, a, _, c). count_items ci check (n + 1) s a c))"

definition handle_collection_as_csv_entry ::
  "(addr \<Rightarrow> ('d, 's, 'a, bytes) ad_interface) \<Rightarrow> hdql_DSVFormatting \<Rightarrow> 'd option \<Rightarrow> addr \<Rightarrow> hdql_AttrDef \<Rightarrow>
   ('s, 'a) csv_world \<Rightarrow> ('s, 'a) csv_world option"
where
  "handle_collection_as_csv_entry ifc fmt owner h ad w = do {
     c_assert (hdql_attr_def_is_collection ad);
     c_assert (\<not> hdql_attr_def_is_scalar ad);
     ci \<leftarrow> csv_collection_iface ifc ad;
     let s = cw_dynamicData w h;
     if s = None then csv_print_column fmt (Some (decimal 0)) w
     else do {
       (r, s, a, _, c) \<leftarrow> ci_reset_iterator ci s owner (cw_defs w (ad_addr ad)) None None (cw_ctx w);
       (n, s, a, c) \<leftarrow> count_items ci r 0 s a c;
       csv_print_column fmt (Some (decimal (unat n))) (csv_update h (ad_addr ad) s a c w) } }"

definition get_scalar_data ::
  "(addr \<Rightarrow> ('d, 's, 'a, bytes) ad_interface) \<Rightarrow> 'd option \<Rightarrow> addr \<Rightarrow> hdql_AttrDef \<Rightarrow> ('s, 'a) csv_world \<Rightarrow>
   ('d option \<times> ('s, 'a) csv_world) option"
where
  "get_scalar_data ifc owner h ad w = do {
     si \<leftarrow> csv_scalar_iface ifc ad;
     (r, s, a, _, c) \<leftarrow> si_reset si owner (cw_dynamicData w h) (cw_defs w (ad_addr ad)) None (cw_ctx w);
     Some (r, csv_update h (ad_addr ad) s a c w) }"

definition handle_scalar_atomic_as_csv_entry ::
  "(addr \<Rightarrow> ('d, 's, 'a, bytes) ad_interface) \<Rightarrow> hdql_DSVFormatting \<Rightarrow> 'd option \<Rightarrow> addr \<Rightarrow> hdql_AttrDef \<Rightarrow>
   'd csv_payload \<Rightarrow> ('s, 'a) csv_world \<Rightarrow> ('s, 'a) csv_world option"
where
  "handle_scalar_atomic_as_csv_entry ifc fmt owner h ad pl w = do {
     c_assert (\<not> hdql_attr_def_is_collection ad);
     c_assert (hdql_attr_def_is_scalar ad);
     c_assert (\<not> hdql_attr_def_is_compound ad);
     (r, w) \<leftarrow> get_scalar_data ifc owner h ad w;
     case r of
       Some r \<Rightarrow> (case pl of PlString f \<Rightarrow> csv_print_column fmt (Some (f r)) w | _ \<Rightarrow> None)
     | None \<Rightarrow> csv_print_column fmt (nullToken fmt) w }"

definition handle_scalar_atomic_value_as_csv_entry ::
  "hdql_DSVFormatting \<Rightarrow> 'd option \<Rightarrow> 'd csv_payload \<Rightarrow> ('s, 'a) csv_world \<Rightarrow> ('s, 'a) csv_world option"
where
  "handle_scalar_atomic_value_as_csv_entry fmt d pl w = do {
     d \<leftarrow> d;
     case pl of PlString f \<Rightarrow> csv_print_column fmt (Some (f d)) w | _ \<Rightarrow> None }"

text \<open>The dynamic data of a tier's handlers, where there is none yet.\<close>

definition reset_dynamic_state ::
  "(addr \<Rightarrow> ('d, 's, 'a, bytes) ad_interface) \<Rightarrow> 'd option \<Rightarrow> 'd hdql_CSVAttrHandler \<Rightarrow> ('s, 'a) csv_world \<Rightarrow> ('s, 'a) csv_world option"
where
  "reset_dynamic_state ifc d ah w = do {
     topAD \<leftarrow> hdql_attr_def_top_attr (ah_ad ah);
     let s = cw_dynamicData w (ah_addr ah);
     let a = ad_addr (ah_ad ah);
     if hdql_attr_def_is_collection topAD then do {
       ci \<leftarrow> csv_collection_iface ifc (ah_ad ah);
       if s \<noteq> None then Some w
       else do {
         (s, df, c) \<leftarrow> ci_new_iterator ci d (cw_defs w a) (cw_ctx w);
         Some (csv_update (ah_addr ah) a s df c w) } }
     else do {
       c_assert (hdql_attr_def_is_scalar topAD);
       si \<leftarrow> csv_scalar_iface ifc (ah_ad ah);
       case si_new_dyn_data si of
         None \<Rightarrow> Some w
       | Some new_data \<Rightarrow>
           if s \<noteq> None then Some w
           else do {
             (s, df, c) \<leftarrow> new_data d (cw_defs w a) (cw_ctx w);
             c_assert (s \<noteq> None);
             Some (csv_update (ah_addr ah) a s df c w) } } }"

fun reset_dynamic_states ::
  "(addr \<Rightarrow> ('d, 's, 'a, bytes) ad_interface) \<Rightarrow> 'd option \<Rightarrow> 'd hdql_CSVAttrHandler list \<Rightarrow> ('s, 'a) csv_world \<Rightarrow> ('s, 'a) csv_world option"
where
  "reset_dynamic_states ifc d [] w = Some w"
| "reset_dynamic_states ifc d (h # hs) w = do { w \<leftarrow> reset_dynamic_state ifc d h w; reset_dynamic_states ifc d hs w }"

fun handle_values ::
  "(addr \<Rightarrow> ('d, 's, 'a, bytes) ad_interface) \<Rightarrow> hdql_DSVFormatting \<Rightarrow> 'd option \<Rightarrow> 'd hdql_CSVAttrHandler list \<Rightarrow>
   ('s, 'a) csv_world \<Rightarrow> ('s, 'a) csv_world option"
and value_handler ::
  "(addr \<Rightarrow> ('d, 's, 'a, bytes) ad_interface) \<Rightarrow> hdql_DSVFormatting \<Rightarrow> 'd option \<Rightarrow> 'd hdql_CSVAttrHandler \<Rightarrow>
   ('s, 'a) csv_world \<Rightarrow> ('s, 'a) csv_world option"
where
  "handle_values ifc fmt d [] w = Some w"
| "handle_values ifc fmt d (h # hs) w = do { w \<leftarrow> value_handler ifc fmt d h w; handle_values ifc fmt d hs w }"
| "value_handler ifc fmt d (CSVAttrHandler a name ad vh pl) w = (case vh of
     None \<Rightarrow> None
   | Some CollectionEntry \<Rightarrow> handle_collection_as_csv_entry ifc fmt d a ad w
   | Some ScalarAtomicEntry \<Rightarrow> handle_scalar_atomic_as_csv_entry ifc fmt d a ad pl w
   | Some ScalarAtomicValueEntry \<Rightarrow> handle_scalar_atomic_value_as_csv_entry fmt d pl w
   | Some ScalarCompoundEntry \<Rightarrow> do {
       c_assert (\<not> hdql_attr_def_is_collection ad);
       c_assert (hdql_attr_def_is_scalar ad);
       c_assert (hdql_attr_def_is_compound ad);
       c_assert (\<not> hdql_attr_def_is_static_const_value ad);
       c_assert (\<not> hdql_attr_def_is_static_external_value ad);
       c_assert (\<not> hdql_attr_def_is_atomic ad);
       (r, w) \<leftarrow> get_scalar_data ifc d a ad w;
       case pl of
         PlTier arr hs \<Rightarrow> do { w \<leftarrow> reset_dynamic_states ifc r hs w; handle_values ifc fmt r hs w }
       | PlZero \<Rightarrow> Some w
       | PlString _ \<Rightarrow> None })"

text \<open>\<open>key_as_string\<close> is the callback of a type, on the data of a key.\<close>

fun print_keys ::
  "('i type_interface \<Rightarrow> (bytes option \<Rightarrow> bytes) option) \<Rightarrow> hdql_DSVFormatting \<Rightarrow> bytes hdql_Key \<Rightarrow> nat list list \<Rightarrow>
   'i type_interface option list \<Rightarrow> ('s, 'a) csv_world \<Rightarrow> ('s, 'a) csv_world option"
where
  "print_keys key_as_string fmt key (v # vs) (vi # vis) w = do {
     w \<leftarrow> (case Option.bind vi key_as_string of
         Some f \<Rightarrow> do {
           k \<leftarrow> key_at key v;
           d \<leftarrow> hdql_key_datum_get k;
           csv_print_column fmt (Some (f (map_option snd d))) w }
       | None \<Rightarrow> csv_print_column fmt (nullToken fmt) w);
     print_keys key_as_string fmt key vs vis w }"
| "print_keys key_as_string fmt key [] _ w = Some w"
| "print_keys key_as_string fmt key (v # vs) [] w = None"

definition csv_results_handler_handle_record ::
  "(addr \<Rightarrow> ('d, 's, 'a, bytes) ad_interface) \<Rightarrow> ('i type_interface \<Rightarrow> (bytes option \<Rightarrow> bytes) option) \<Rightarrow>
   ('d, 'i) hdql_CSVHandler \<Rightarrow> 'd option \<Rightarrow> bytes hdql_Key \<Rightarrow> ('s, 'a) csv_world \<Rightarrow> (int \<times> ('s, 'a) csv_world) option"
where
  "csv_results_handler_handle_record ifc key_as_string csv d key w = do {
     let w = w\<lparr>cw_nColumnsPrinted := 0\<rparr>;
     ks \<leftarrow> csv_flatKeys csv;
     w \<leftarrow> print_keys key_as_string (csv_fmt csv) key (flatKeyViews ks) (flatKeyIFaces ks) w;
     root \<leftarrow> csv_rootObjectHandler csv;
     w \<leftarrow> (if hdql_attr_def_is_compound (ah_ad root)
          then (case ah_payload root of
              PlTier arr hs \<Rightarrow> do { w \<leftarrow> reset_dynamic_states ifc d hs w; handle_values ifc (csv_fmt csv) d hs w }
            | PlZero \<Rightarrow> Some w
            | PlString _ \<Rightarrow> None)
          else do { c_assert (hdql_attr_def_is_atomic (ah_ad root)); value_handler ifc (csv_fmt csv) d root w });
     w \<leftarrow> fputs (recordDelimiter (csv_fmt csv)) w;
     Some (0, w) }"

section \<open>Tearing down\<close>

text \<open>The dynamic data of a compound are not destroyed, only those of its attributes.\<close>

fun free_handlers ::
  "(addr \<Rightarrow> ('d, 's, 'a, bytes) ad_interface) \<Rightarrow> 'd hdql_CSVAttrHandler list \<Rightarrow> ('s, 'a) csv_world \<Rightarrow> ('s, 'a) csv_world option"
and free_attr_handler ::
  "(addr \<Rightarrow> ('d, 's, 'a, bytes) ad_interface) \<Rightarrow> 'd hdql_CSVAttrHandler \<Rightarrow> ('s, 'a) csv_world \<Rightarrow> ('s, 'a) csv_world option"
where
  "free_handlers ifc [] w = Some w"
| "free_handlers ifc (h # hs) w = do {
     w \<leftarrow> free_attr_handler ifc h w;
     c \<leftarrow> ctx_free (Some (ah_addr h)) (cw_ctx w);
     free_handlers ifc hs (w\<lparr>cw_ctx := c\<rparr>) }"
| "free_attr_handler ifc (CSVAttrHandler x name ad vh pl) w = do {
     topAD \<leftarrow> hdql_attr_def_top_attr ad;
     let s = cw_dynamicData w x;
     let a = ad_addr ad;
     if hdql_attr_def_is_collection topAD then do {
       ci \<leftarrow> csv_collection_iface ifc ad;
       if s = None then Some w
       else do {
         (df, c) \<leftarrow> ci_destroy_iterator ci s (cw_defs w a) (cw_ctx w);
         Some (csv_update x a s df c w) } }
     else if hdql_attr_def_is_atomic topAD then do {
       si \<leftarrow> csv_scalar_iface ifc ad;
       case si_destroy_dyn_data si of
         None \<Rightarrow> Some w
       | Some destroy \<Rightarrow>
           if s = None then Some w
           else do {
             (df, c) \<leftarrow> destroy s (cw_defs w a) (cw_ctx w);
             Some (csv_update x a s df c w) } }
     else do {
       c_assert (hdql_attr_def_is_compound topAD);
       case pl of
         PlTier arr hs \<Rightarrow> do {
           w \<leftarrow> free_handlers ifc hs w;
           if arr = None then do { c_assert (hs = []); Some w }
           else do { c \<leftarrow> ctx_free arr (cw_ctx w); Some (w\<lparr>cw_ctx := c\<rparr>) } }
       | PlZero \<Rightarrow> Some w
       | PlString _ \<Rightarrow> None } }"

definition hdql_query_results_handler_csv_cleanup ::
  "(addr \<Rightarrow> ('d, 's, 'a, bytes) ad_interface) \<Rightarrow> ('d, 'i) hdql_CSVHandler \<Rightarrow> ('s, 'a) csv_world \<Rightarrow> ('s, 'a) csv_world option"
where
  "hdql_query_results_handler_csv_cleanup ifc csv w = do {
     root \<leftarrow> csv_rootObjectHandler csv;
     w \<leftarrow> (if hdql_attr_def_is_compound (ah_ad root)
          then (case ah_payload root of
              PlTier arr hs \<Rightarrow> do {
                w \<leftarrow> free_handlers ifc hs w;
                if arr = None then do { c_assert (hs = []); Some w }
                else do { c \<leftarrow> ctx_free arr (cw_ctx w); Some (w\<lparr>cw_ctx := c\<rparr>) } }
            | PlZero \<Rightarrow> Some w
            | PlString _ \<Rightarrow> None)
          else free_attr_handler ifc root w);
     ks \<leftarrow> csv_flatKeys csv;
     c \<leftarrow> ctx_free (Some (flatKeyAddr ks)) (cw_ctx w);
     c \<leftarrow> ctx_free (Some (csv_addr csv)) c;
     Some (w\<lparr>cw_ctx := c\<rparr>) }"

end
