(* ===== verification/CsvLines.thy ===== *)
theory CsvLines
  imports CsvHandler
begin

text \<open>
  What the separated-values handler prints: the column names are the paths to the attributes, a record
  has a value for each of them. What the handler relies on of the attributes' interfaces is a locale,
  interpreted on the interfaces of a C++ client.
\<close>

section \<open>Lines\<close>

fun csv_text :: "bytes \<Rightarrow> nat \<Rightarrow> bytes list \<Rightarrow> bytes" where
  "csv_text delim n [] = []"
| "csv_text delim n (col # cols) = (if n \<noteq> 0 then delim else []) @ col @ csv_text delim (Suc n) cols"

definition csv_put :: "bytes \<Rightarrow> bytes list \<Rightarrow> ('s, 'a) csv_world \<Rightarrow> ('s, 'a) csv_world" where
  "csv_put delim cols w = w\<lparr>cw_dest := cw_dest w @ csv_text delim (cw_nColumnsPrinted w) cols,
     cw_nColumnsPrinted := cw_nColumnsPrinted w + length cols\<rparr>"

lemma csv_text_append: "csv_text delim n (xs @ ys) = csv_text delim n xs @ csv_text delim (n + length xs) ys"
  by (induction xs arbitrary: n) simp_all

lemma csv_put_nil [simp]: "csv_put delim [] w = w"
  by (simp add: csv_put_def)

lemma csv_put_append: "csv_put delim ys (csv_put delim xs w) = csv_put delim (xs @ ys) w"
  by (simp add: csv_put_def csv_text_append add.assoc)

lemma csv_put_simps [simp]:
  "cw_dynamicData (csv_put delim cols w) = cw_dynamicData w" "cw_defs (csv_put delim cols w) = cw_defs w"
  "cw_ctx (csv_put delim cols w) = cw_ctx w"
  "cw_dest (csv_put delim cols w) = cw_dest w @ csv_text delim (cw_nColumnsPrinted w) cols"
  "cw_nColumnsPrinted (csv_put delim cols w) = cw_nColumnsPrinted w + length cols"
  by (simp_all add: csv_put_def)

definition csv_format :: "bytes \<Rightarrow> bytes \<Rightarrow> 8 word \<Rightarrow> bytes \<Rightarrow> bytes \<Rightarrow> bytes \<Rightarrow> bytes \<Rightarrow> hdql_DSVFormatting" where
  "csv_format vd rd ad marker anon nl key = \<lparr>valueDelimiter = Some vd, recordDelimiter = Some rd, attrDelimiter = Some [ad],
     collectionLengthMarker = Some marker, anonymousColumnName = Some anon, nullToken = Some nl, unlabeledKeyColumnFormat = Some key\<rparr>"

lemma csv_format_simps [simp]:
  "valueDelimiter (csv_format vd rd ad marker anon nl key) = Some vd"
  "recordDelimiter (csv_format vd rd ad marker anon nl key) = Some rd"
  "attrDelimiter (csv_format vd rd ad marker anon nl key) = Some [ad]"
  "collectionLengthMarker (csv_format vd rd ad marker anon nl key) = Some marker"
  "anonymousColumnName (csv_format vd rd ad marker anon nl key) = Some anon"
  "nullToken (csv_format vd rd ad marker anon nl key) = Some nl"
  "unlabeledKeyColumnFormat (csv_format vd rd ad marker anon nl key) = Some key"
  by (simp_all add: csv_format_def)

lemma print_column_put: "valueDelimiter fmt = Some vd \<Longrightarrow> csv_print_column fmt (Some s) w = Some (csv_put vd [s] w)"
  by (simp add: csv_print_column_def fputs_def csv_put_def)

section \<open>The tree of handlers\<close>

text \<open>An attribute whose interface is the one its flags announce, and of the kind of what it forwards to.\<close>

definition csv_attr_ok :: "hdql_AttrDef \<Rightarrow> bool" where
  "csv_attr_ok ad \<longleftrightarrow> iface_matches (ad_interface ad) (ad_isCollection ad) \<and>
     (\<forall>tp. hdql_attr_def_top_attr ad = Some tp \<longrightarrow> ad_isCollection tp = ad_isCollection ad)"

text \<open>The handler of an attribute fits the attribute.\<close>

fun csv_typed :: "'d hdql_CSVAttrHandler \<Rightarrow> bool" where
  "csv_typed (CSVAttrHandler x name ad vh pl) \<longleftrightarrow> csv_attr_ok ad \<and> (case hdql_attr_def_top_attr ad of
     None \<Rightarrow> False
   | Some tp \<Rightarrow>
       (case vh of
          Some CollectionEntry \<Rightarrow> hdql_attr_def_is_collection tp
        | Some ScalarAtomicEntry \<Rightarrow> \<not> hdql_attr_def_is_collection tp \<and> hdql_attr_def_is_atomic tp \<and>
            (case pl of PlString _ \<Rightarrow> True | _ \<Rightarrow> False)
        | Some ScalarCompoundEntry \<Rightarrow> \<not> hdql_attr_def_is_collection tp \<and> hdql_attr_def_is_compound ad \<and>
            (case pl of PlTier arr hs \<Rightarrow> list_all csv_typed hs | _ \<Rightarrow> False)
        | _ \<Rightarrow> False))"

lemma top_attr_direct: "\<not> ad_isFwdQuery ad \<Longrightarrow> hdql_attr_def_top_attr ad = Some ad"
  by (cases ad) simp

lemma compound_direct: "hdql_attr_def_is_compound ad \<Longrightarrow>
  hdql_attr_def_top_attr ad = Some ad \<and> \<not> hdql_attr_def_is_atomic ad \<and>
  \<not> hdql_attr_def_is_static_const_value ad \<and> \<not> hdql_attr_def_is_static_external_value ad"
  by (auto simp: hdql_attr_def_is_compound_def hdql_attr_def_is_atomic_def top_attr_direct
    hdql_attr_def_is_static_const_value_def hdql_attr_def_is_static_external_value_def split: if_splits)

text \<open>A definition of no atomic type is no compound if it forwards.\<close>

lemma top_no_forward: "hdql_attr_def_top_attr ad = Some tp \<Longrightarrow> \<not> ad_isFwdQuery tp"
  and query_top_no_forward: "hdql_query_top_attr qs = Some tp \<Longrightarrow> \<not> ad_isFwdQuery tp"
  by (induction ad and qs rule: hdql_attr_def_top_attr_hdql_query_top_attr.induct)
    (auto split: if_splits bind_splits def_data.splits simp: c_assert_def)

lemma attr_compound_type: "hdql_attr_def_compound_type_info ad = Some p \<Longrightarrow> hdql_attr_def_is_compound ad"
  by (simp add: hdql_attr_def_compound_type_info_def hdql_attr_def_is_compound_def)

lemma push_back_handlers: "push_back_handler t h c = Some (e, t', c') \<Longrightarrow> snd t' = snd t \<or> snd t' = snd t @ [h]"
  by (auto simp: push_back_handler_def Let_def split: option.splits prod.splits if_splits)

text \<open>Expanding attributes that are well formed gives handlers that fit them.\<close>

definition csv_compounds_ok :: "(addr \<Rightarrow> hdql_Compound option) \<Rightarrow> bool" where
  "csv_compounds_ok compounds \<longleftrightarrow>
     (\<forall>p cp name ad. compounds p = Some cp \<longrightarrow> hdql_compound_get_attr cp name = Some ad \<longrightarrow> csv_attr_ok ad)"

text \<open>The choice of the handler of an attribute, as a step of the expansion.\<close>

definition chosen_handler where
  "chosen_handler rec compounds types as_string ad topAD c1 =
     (if hdql_attr_def_is_collection topAD then Some (CollectionEntry, PlZero, c1)
      else if hdql_attr_def_is_atomic topAD then
        Option.bind (hdql_attr_def_get_atomic_value_type_code topAD) (\<lambda>tc.
        Option.bind (hdql_types_get_type types (ucast tc)) (\<lambda>vi.
        Option.bind vi (\<lambda>vi.
        Option.bind (as_string vi) (\<lambda>f. Some (ScalarAtomicEntry, PlString f, c1)))))
      else
        Option.bind (c_assert (hdql_attr_def_is_compound topAD)) (\<lambda>_.
        Option.bind (hdql_attr_def_compound_type_info ad) (\<lambda>p.
        Option.bind p (\<lambda>p.
        Option.bind (compounds p) (\<lambda>sub.
        Option.bind (rec compounds types as_string sub (hdql_compound_get_attr_names_recursive sub) (None, []) c1)
          (\<lambda>((arr, hs), c). Some (ScalarCompoundEntry, PlTier arr hs, c)))))))"

lemma expand_names_typed:
  "expand_names compounds types as_string cp names t c = Some r \<Longrightarrow> csv_compounds_ok compounds \<Longrightarrow>
    (\<And>name ad. hdql_compound_get_attr cp name = Some ad \<Longrightarrow> csv_attr_ok ad) \<Longrightarrow> list_all csv_typed (snd t) \<Longrightarrow>
    list_all csv_typed (snd (fst r))"
proof (induction compounds types as_string cp names t c r rule: expand_names.raw_induct [rotated, consumes 1, case_names step])
  case (step rec compounds types as_string cp names t c r)
  show ?case
  proof (cases names)
    case Nil
    then show ?thesis using step by auto
  next
    case (Cons name names')
    obtain pa ca where alloc: "ctx_alloc c = (pa, ca)" by (cases "ctx_alloc c")
    with Cons step.hyps obtain ad ah c1 topAD vh pl c2 e t' c3 where at:
      "hdql_compound_get_attr cp name = Some ad" "ctx_alloc c = (Some ah, c1)" "hdql_attr_def_top_attr ad = Some topAD"
      and pl: "chosen_handler rec compounds types as_string ad topAD c1 = Some (vh, pl, c2)"
      and push: "push_back_handler t (CSVAttrHandler ah (if name = [] then None else Some name) ad (Some vh) pl) c2 = Some (e, t', c3)"
      and rest: "rec compounds types as_string cp names' t' c3 = Some r"
      unfolding chosen_handler_def [symmetric] by (auto split: option.splits)
    have ok: "csv_attr_ok ad" by (rule step.prems(2) [OF at(1)])
    have "csv_typed (CSVAttrHandler ah (if name = [] then None else Some name) ad (Some vh) pl)"
    proof (cases "hdql_attr_def_is_collection topAD \<or> hdql_attr_def_is_atomic topAD")
      case True
      then show ?thesis using pl at(3) ok by (auto simp: chosen_handler_def split: if_splits)
    next
      case False
      then obtain p sub arr hs where sub: "hdql_attr_def_compound_type_info ad = Some (Some p)" "compounds p = Some sub"
        "rec compounds types as_string sub (hdql_compound_get_attr_names_recursive sub) (None, []) c1 = Some ((arr, hs), c2)"
        "vh = ScalarCompoundEntry" "pl = PlTier arr hs" using pl by (auto simp: chosen_handler_def)
      have "list_all csv_typed (snd (fst ((arr, hs), c2)))"
        by (rule step.IH [OF sub(3) step.prems(1)]) (use step.prems(1) sub(2) in \<open>auto simp: csv_compounds_ok_def\<close>) 
      then show ?thesis using False at(3) ok sub by (auto simp: attr_compound_type)
    qed
    then have "list_all csv_typed (snd t')" using push_back_handlers [OF push] step.prems(3) by auto
    then show ?thesis using step.IH [OF rest step.prems(1)] step.prems(2) by blast
  qed
qed

lemma expand_typed:
  assumes "expand_scalar_compound_to_columns compounds types as_string ad c = Some ((arr, hs), c')" "csv_compounds_ok compounds"
  shows "list_all csv_typed hs"
proof -
  obtain p cp where "compounds p = Some cp"
    "expand_names compounds types as_string cp (hdql_compound_get_attr_names_recursive cp) (None, []) c = Some ((arr, hs), c')"
    using assms(1) by (auto simp: expand_scalar_compound_to_columns_def)
  note cp = this
  have "list_all csv_typed (snd (fst ((arr, hs), c')))"
    by (rule expand_names_typed [OF cp(2) assms(2)]) (use assms(2) cp(1) in \<open>auto simp: csv_compounds_ok_def\<close>)
  then show ?thesis by simp
qed

section \<open>The column names\<close>

definition path_name :: "8 word \<Rightarrow> bytes option \<Rightarrow> bytes \<Rightarrow> bytes" where
  "path_name delim prefix name = (case prefix of None \<Rightarrow> name | Some p \<Rightarrow> p @ delim # name)"

text \<open>The prefix is the path; cutting the last byte off removes the delimiter written twice.\<close>

lemma next_prefix_path: "next_prefix prefix name [delim] = Some (path_name delim prefix name)"
  by (auto simp: next_prefix_def path_name_def split: option.split)

definition shown_name :: "bytes \<Rightarrow> bytes option \<Rightarrow> bytes" where
  "shown_name anon name = (case name of None \<Rightarrow> anon | Some n \<Rightarrow> n)"

fun csv_names :: "8 word \<Rightarrow> bytes \<Rightarrow> bytes \<Rightarrow> bytes option \<Rightarrow> 'd hdql_CSVAttrHandler \<Rightarrow> bytes list" where
  "csv_names delim marker anon prefix (CSVAttrHandler x name ad vh pl) =
     (let n = path_name delim prefix (shown_name anon name)
      in case vh of
        Some CollectionEntry \<Rightarrow> [marker @ n]
      | Some ScalarCompoundEntry \<Rightarrow> (case pl of PlTier arr hs \<Rightarrow> concat (map (csv_names delim marker anon (Some n)) hs) | _ \<Rightarrow> [])
      | _ \<Rightarrow> [n])"

lemma print_columns_names:
  fixes w w' :: "('s, 'a) csv_world" and hs :: "'d hdql_CSVAttrHandler list" and h :: "'d hdql_CSVAttrHandler"
  shows "fmt = csv_format vd rd delim marker anon nl key \<Longrightarrow> list_all csv_typed hs \<Longrightarrow>
      print_columns_list fmt prefix hs w = Some (csv_put vd (concat (map (csv_names delim marker anon prefix) hs)) w)"
    and "fmt = csv_format vd rd delim marker anon nl key \<Longrightarrow> csv_typed h \<Longrightarrow>
      print_column fmt prefix h w' = Some (csv_put vd (csv_names delim marker anon prefix h) w')"
proof (induction fmt prefix hs w and fmt prefix h w' rule: print_columns_list_print_column.induct)
  case (3 fmt prefix a name ad vh pl w)
  have put: "fput_prefixed fmt prefix name v = Some (v\<lparr>cw_dest := cw_dest v @ path_name delim prefix (shown_name anon name)\<rparr>)"
    for v :: "('s, 'a) csv_world"
    by (auto simp: fput_prefixed_def fputs_def path_name_def shown_name_def "3.prems"(1) split: option.split)
  have sep: "(if cw_nColumnsPrinted w \<noteq> 0 then fputs (valueDelimiter fmt) w else Some w) =
      Some (w\<lparr>cw_dest := cw_dest w @ (if cw_nColumnsPrinted w \<noteq> 0 then vd else [])\<rparr>)"
    by (simp add: fputs_def "3.prems"(1))
  obtain tp where tp: "hdql_attr_def_top_attr ad = Some tp" using "3.prems"(2) by (auto split: option.splits)
  consider (coll) "vh = Some CollectionEntry" "hdql_attr_def_is_collection tp"
    | (atomic) "vh = Some ScalarAtomicEntry" "\<not> hdql_attr_def_is_collection tp" "hdql_attr_def_is_atomic tp"
    | (tier) arr hs where "vh = Some ScalarCompoundEntry" "\<not> hdql_attr_def_is_collection tp" "hdql_attr_def_is_compound ad"
        "pl = PlTier arr hs" "list_all csv_typed hs"
    using "3.prems"(2) tp by (auto split: option.splits csv_value_handler.splits csv_payload.splits)
  then show ?case
  proof cases
    case coll
    then show ?thesis by (simp add: tp sep put) (simp add: fputs_def csv_put_def "3.prems"(1))
  next
    case atomic
    then show ?thesis using sep by (cases "cw_nColumnsPrinted w") (simp_all add: tp put csv_put_def)
  next
    case tier
    have t: "tp = ad" "\<not> hdql_attr_def_is_atomic tp" "hdql_attr_def_is_compound tp"
      using compound_direct [OF tier(3)] tier(3) tp by auto
    have name: "(case name of None \<Rightarrow> anonymousColumnName fmt | Some n \<Rightarrow> Some n) = Some (shown_name anon name)"
      by (simp add: shown_name_def "3.prems"(1) split: option.split)
    have ad: "attrDelimiter fmt = Some [delim]" by (simp add: "3.prems"(1))
    have "print_columns_list fmt (Some (path_name delim prefix (shown_name anon name))) hs w =
        Some (csv_put vd (concat (map (csv_names delim marker anon (Some (path_name delim prefix (shown_name anon name)))) hs)) w)"
      by (rule "3.IH") (use tier t tp ad in \<open>auto simp: next_prefix_path name\<close>, simp_all add: "3.prems")
    then show ?thesis using tier t tp by (simp add: ad name next_prefix_path)
  qed
qed (auto simp: csv_put_append)

section \<open>The records\<close>

text \<open>What an attribute yields of a datum: the datum of a scalar, the number of items of a collection.\<close>

fun csv_values :: "(addr \<Rightarrow> 'd \<Rightarrow> 'd option) \<Rightarrow> (addr \<Rightarrow> 'd \<Rightarrow> nat) \<Rightarrow> bytes \<Rightarrow> 'd \<Rightarrow> 'd hdql_CSVAttrHandler \<Rightarrow> bytes list option" where
  "csv_values val num nl d (CSVAttrHandler x name ad vh pl) = (case vh of
     Some CollectionEntry \<Rightarrow> Some [decimal (num (ad_addr ad) d mod 2 ^ 64)]
   | Some ScalarAtomicEntry \<Rightarrow> (case val (ad_addr ad) d of
       None \<Rightarrow> Some [nl]
     | Some y \<Rightarrow> (case pl of PlString f \<Rightarrow> Some [f y] | _ \<Rightarrow> None))
   | Some ScalarCompoundEntry \<Rightarrow> (case val (ad_addr ad) d of
       None \<Rightarrow> None
     | Some y \<Rightarrow> (case pl of PlTier arr hs \<Rightarrow> map_option concat (those (map (csv_values val num nl y) hs)) | _ \<Rightarrow> None))
   | _ \<Rightarrow> None)"

definition csv_row where
  "csv_row val num nl d hs = map_option concat (those (map (csv_values val num nl d) hs))"

lemma csv_row_Nil [simp]: "csv_row val num nl d [] = Some []"
  by (simp add: csv_row_def)

lemma csv_row_Cons [simp]:
  "csv_row val num nl d (h # hs) = do { r \<leftarrow> csv_values val num nl d h; rs \<leftarrow> csv_row val num nl d hs; Some (r @ rs) }"
  by (cases "those (map (csv_values val num nl d) hs)") (simp_all add: csv_row_def split: option.split)

lemma csv_row_length:
  "(\<And>h vs. h \<in> set hs \<Longrightarrow> csv_values val num nl y h = Some vs \<Longrightarrow> length vs = length (f h)) \<Longrightarrow>
   csv_row val num nl y hs = Some vs \<Longrightarrow> length vs = length (concat (map f hs))"
  by (induction hs arbitrary: vs) auto

lemma csv_values_length:
  "csv_values val num nl d h = Some vs \<Longrightarrow> length vs = length (csv_names delim marker anon prefix h)"
proof (induction val num nl d h arbitrary: prefix vs rule: csv_values.induct)
  case (1 val num nl d x name ad vh pl)
  have tier: "length vs = length (concat (map (csv_names delim marker anon pre) hs))"
    if "vh = Some ScalarCompoundEntry" "val (ad_addr ad) d = Some y" "pl = PlTier arr hs" "csv_row val num nl y hs = Some vs" for y hs arr vs pre
    by (rule csv_row_length [OF _ that(4)]) (use 1 that in auto)
  show ?case using "1.prems" tier
    by (auto simp: Let_def csv_row_def split: option.splits csv_value_handler.splits csv_payload.splits)
qed

text \<open>The columns of the keys, and of the whole result.\<close>

fun csv_key_values ::
  "('i type_interface \<Rightarrow> (bytes option \<Rightarrow> bytes) option) \<Rightarrow> bytes \<Rightarrow> bytes hdql_Key \<Rightarrow> nat list list \<Rightarrow> 'i type_interface option list \<Rightarrow>
   bytes list option"
where
  "csv_key_values key_as_string nl key (v # vs) (vi # vis) = do {
     r \<leftarrow> (case Option.bind vi key_as_string of
         None \<Rightarrow> Some nl
       | Some f \<Rightarrow> do { k \<leftarrow> key_at key v; d \<leftarrow> hdql_key_datum_get k; Some (f (map_option snd d)) });
     rs \<leftarrow> csv_key_values key_as_string nl key vs vis;
     Some (r # rs) }"
| "csv_key_values key_as_string nl key [] _ = Some []"
| "csv_key_values key_as_string nl key (v # vs) [] = None"

definition csv_root_values :: "(addr \<Rightarrow> 'd \<Rightarrow> 'd option) \<Rightarrow> (addr \<Rightarrow> 'd \<Rightarrow> nat) \<Rightarrow> bytes \<Rightarrow> 'd \<Rightarrow> 'd hdql_CSVAttrHandler \<Rightarrow> bytes list option" where
  "csv_root_values val num nl d root =
     (if hdql_attr_def_is_compound (ah_ad root)
      then (case ah_payload root of PlTier arr hs \<Rightarrow> csv_row val num nl d hs | _ \<Rightarrow> None)
      else (case (ah_value_handler root, ah_payload root) of
          (Some ScalarAtomicValueEntry, PlString f) \<Rightarrow> Some [f d]
        | _ \<Rightarrow> csv_values val num nl d root))"

definition csv_root_names :: "8 word \<Rightarrow> bytes \<Rightarrow> bytes \<Rightarrow> 'd hdql_CSVAttrHandler \<Rightarrow> bytes list" where
  "csv_root_names delim marker anon root =
     (if hdql_attr_def_is_compound (ah_ad root)
      then (case ah_payload root of PlTier arr hs \<Rightarrow> concat (map (csv_names delim marker anon None) hs) | _ \<Rightarrow> [])
      else [anon])"

definition csv_line :: "bytes \<Rightarrow> bytes \<Rightarrow> bytes list \<Rightarrow> bytes" where
  "csv_line delim rdelim cols = csv_text delim 0 cols @ rdelim"

definition csv_root_typed :: "'d hdql_CSVAttrHandler \<Rightarrow> bool" where
  "csv_root_typed root \<longleftrightarrow>
     (if hdql_attr_def_is_compound (ah_ad root)
      then (case ah_payload root of PlTier arr hs \<Rightarrow> list_all csv_typed hs | _ \<Rightarrow> False)
      else hdql_attr_def_is_atomic (ah_ad root) \<and>
        (case ah_value_handler root of
           Some ScalarAtomicValueEntry \<Rightarrow> (case ah_payload root of PlString _ \<Rightarrow> True | _ \<Rightarrow> False)
         | Some ScalarAtomicEntry \<Rightarrow> csv_typed root
         | _ \<Rightarrow> False))"

text \<open>
  The contract of the interfaces: with dynamic data of its own kind, a scalar's \<open>reset\<close> gives its datum
  and a collection's \<open>reset_iterator\<close> and \<open>yield\<close> run through its items.
\<close>

locale csv_attributes =
  fixes ifc :: "addr \<Rightarrow> ('d, 's, 'a, bytes) ad_interface"
    and df_ok :: "addr \<Rightarrow> 'a \<Rightarrow> bool" and st_ok :: "addr \<Rightarrow> 's \<Rightarrow> bool" and ok :: "hdql_Context \<Rightarrow> bool"
    and val :: "addr \<Rightarrow> 'd \<Rightarrow> 'd option" and num :: "addr \<Rightarrow> 'd \<Rightarrow> nat"
  assumes new_data: "ifc a = IfScalar si \<Longrightarrow> si_new_dyn_data si = Some new \<Longrightarrow> df_ok a df \<Longrightarrow> ok c \<Longrightarrow>
      \<exists>s df' c'. new (Some d) df c = Some (Some s, df', c') \<and> st_ok a s \<and> df_ok a df' \<and> ok c'"
    and new_iterator: "ifc a = IfCollection ci \<Longrightarrow> df_ok a df \<Longrightarrow> ok c \<Longrightarrow>
      \<exists>s df' c'. ci_new_iterator ci (Some d) df c = Some (Some s, df', c') \<and> st_ok a s \<and> df_ok a df' \<and> ok c'"
    and reset: "ifc a = IfScalar si \<Longrightarrow> df_ok a df \<Longrightarrow> ok c \<Longrightarrow> (s0 = None \<longrightarrow> si_new_dyn_data si = None) \<Longrightarrow>
      (\<And>x. s0 = Some x \<Longrightarrow> st_ok a x) \<Longrightarrow>
      \<exists>s' df' k' c'. si_reset si (Some d) s0 df None c = Some (val a d, s', df', k', c') \<and>
        (s' = None \<longrightarrow> s0 = None) \<and> (\<forall>x. s' = Some x \<longrightarrow> st_ok a x) \<and> df_ok a df' \<and> ok c'"
    and items: "ifc a = IfCollection ci \<Longrightarrow> df_ok a df \<Longrightarrow> ok c \<Longrightarrow> st_ok a s \<Longrightarrow>
      \<exists>r s1 df1 k1 c1 s' df' c'. ci_reset_iterator ci (Some s) (Some d) df None None c = Some (r, s1, df1, k1, c1) \<and>
        count_items ci r 0 s1 df1 c1 = Some (of_nat (num a d), Some s', df', c') \<and> st_ok a s' \<and> df_ok a df' \<and> ok c'"

text \<open>
  Which attribute the dynamic data at an address belong to is \<open>owner\<close>; a handler is placed if its
  dynamic data, and those of its sub-attributes, are its attribute's.
\<close>

fun csv_placed :: "(addr \<Rightarrow> ('d, 's, 'a, bytes) ad_interface) \<Rightarrow> (addr \<Rightarrow> addr) \<Rightarrow> 'd hdql_CSVAttrHandler \<Rightarrow> bool" where
  "csv_placed ifc owner (CSVAttrHandler x name ad vh pl) \<longleftrightarrow> owner x = ad_addr ad \<and>
     (case ifc (ad_addr ad) of IfScalar _ \<Rightarrow> \<not> ad_isCollection ad | IfCollection _ \<Rightarrow> ad_isCollection ad) \<and>
     (case pl of PlTier arr hs \<Rightarrow> list_all (csv_placed ifc owner) hs | _ \<Rightarrow> True)"

text \<open>The dynamic data of the root handler are never made, so a scalar there has to do without.\<close>

definition csv_scalar_reset :: "(addr \<Rightarrow> ('d, 's, 'a, bytes) ad_interface) \<Rightarrow> 'd hdql_CSVAttrHandler \<Rightarrow> bool" where
  "csv_scalar_reset ifc h \<longleftrightarrow> (case ifc (ad_addr (ah_ad h)) of IfScalar si \<Rightarrow> si_new_dyn_data si = None | IfCollection _ \<Rightarrow> False)"

definition csv_root_placed :: "(addr \<Rightarrow> ('d, 's, 'a, bytes) ad_interface) \<Rightarrow> (addr \<Rightarrow> addr) \<Rightarrow> 'd hdql_CSVAttrHandler \<Rightarrow> bool" where
  "csv_root_placed ifc owner root \<longleftrightarrow>
     (if hdql_attr_def_is_compound (ah_ad root)
      then (case ah_payload root of PlTier arr hs \<Rightarrow> list_all (csv_placed ifc owner) hs | _ \<Rightarrow> False)
      else ah_value_handler root = Some ScalarAtomicEntry \<longrightarrow> csv_placed ifc owner root \<and> csv_scalar_reset ifc root)"

definition csv_ready :: "(addr \<Rightarrow> ('d, 's, 'a, bytes) ad_interface) \<Rightarrow> ('s, 'a) csv_world \<Rightarrow> 'd hdql_CSVAttrHandler \<Rightarrow> bool" where
  "csv_ready ifc w h \<longleftrightarrow> cw_dynamicData w (ah_addr h) \<noteq> None \<or>
     (case ifc (ad_addr (ah_ad h)) of IfScalar si \<Rightarrow> si_new_dyn_data si = None | IfCollection _ \<Rightarrow> False)"

definition csv_inv where
  "csv_inv df_ok st_ok ok owner w \<longleftrightarrow> ok (cw_ctx w) \<and> (\<forall>a. df_ok a (cw_defs w a)) \<and>
     (\<forall>x s. cw_dynamicData w x = Some s \<longrightarrow> st_ok (owner x) s)"

text \<open>Dynamic data are not lost.\<close>

definition csv_keeps :: "('s, 'a) csv_world \<Rightarrow> ('s, 'a) csv_world \<Rightarrow> bool" where
  "csv_keeps w w' \<longleftrightarrow> (\<forall>x. cw_dynamicData w x \<noteq> None \<longrightarrow> cw_dynamicData w' x \<noteq> None)"

lemma csv_keeps_refl [simp]: "csv_keeps w w"
  and csv_keeps_trans: "csv_keeps w w' \<Longrightarrow> csv_keeps w' w'' \<Longrightarrow> csv_keeps w w''"
  and csv_ready_keeps: "csv_ready ifc w h \<Longrightarrow> csv_keeps w w' \<Longrightarrow> csv_ready ifc w' h"
  by (auto simp: csv_keeps_def csv_ready_def)

lemma csv_keeps_put [simp]: "csv_keeps w (csv_put delim cols w') = csv_keeps w w'"
  by (simp add: csv_keeps_def)

lemma csv_inv_put [simp]: "csv_inv df_ok st_ok ok owner (csv_put delim cols w) = csv_inv df_ok st_ok ok owner w"
  by (simp add: csv_inv_def)

definition csv_same_text :: "('s, 'a) csv_world \<Rightarrow> ('s, 'a) csv_world \<Rightarrow> bool" where
  "csv_same_text w w' \<longleftrightarrow> cw_dest w' = cw_dest w \<and> cw_nColumnsPrinted w' = cw_nColumnsPrinted w"

lemma csv_same_text_refl [simp]: "csv_same_text w w"
  and csv_same_text_trans: "csv_same_text w w' \<Longrightarrow> csv_same_text w' w'' \<Longrightarrow> csv_same_text w w''"
  and csv_same_text_update [simp]: "csv_same_text w (csv_update x a s df c w)"
  by (auto simp: csv_same_text_def csv_update_def)

text \<open>Columns were printed between two states.\<close>

definition csv_printed :: "bytes \<Rightarrow> bytes list \<Rightarrow> ('s, 'a) csv_world \<Rightarrow> ('s, 'a) csv_world \<Rightarrow> bool" where
  "csv_printed delim cols w w' \<longleftrightarrow> cw_dest w' = cw_dest w @ csv_text delim (cw_nColumnsPrinted w) cols \<and>
     cw_nColumnsPrinted w' = cw_nColumnsPrinted w + length cols"

lemma csv_printed_put: "csv_printed delim cols w (csv_put delim cols w)"
  and csv_same_text_printed: "csv_same_text w w' = csv_printed delim [] w w'"
  and csv_printed_trans: "csv_printed delim xs w w' \<Longrightarrow> csv_printed delim ys w' w'' \<Longrightarrow> csv_printed delim (xs @ ys) w w''"
  by (auto simp: csv_printed_def csv_same_text_def csv_text_append)

lemma csv_printed_Nil [simp]: "csv_printed delim [] w w"
  by (simp add: csv_printed_def)

lemma csv_printed_same_put: "csv_same_text w w' \<Longrightarrow> csv_printed delim cols w (csv_put delim cols w')"
  by (simp add: csv_printed_def csv_same_text_def)

lemma csv_ifaces:
  assumes "csv_typed (CSVAttrHandler x name ad vh pl)" "csv_placed ifc owner (CSVAttrHandler x name ad vh pl)"
  obtains (collection) tp ci where "ad_isCollection ad" "hdql_attr_def_top_attr ad = Some tp" "hdql_attr_def_is_collection tp"
      "ifc (ad_addr ad) = IfCollection ci" "csv_collection_iface ifc ad = Some ci" "vh = Some CollectionEntry"
    | (scalar) tp si where "\<not> ad_isCollection ad" "hdql_attr_def_top_attr ad = Some tp" "\<not> hdql_attr_def_is_collection tp"
      "ifc (ad_addr ad) = IfScalar si" "csv_scalar_iface ifc ad = Some si"
      "vh = Some ScalarAtomicEntry \<or> vh = Some ScalarCompoundEntry"
proof -
  obtain tp where tp: "hdql_attr_def_top_attr ad = Some tp" "ad_isCollection tp = ad_isCollection ad"
    "iface_matches (ad_interface ad) (ad_isCollection ad)"
    using assms(1) by (auto simp: csv_attr_ok_def split: option.splits)
  show thesis
  proof (cases "ad_isCollection ad")
    case True
    then obtain ci where "ifc (ad_addr ad) = IfCollection ci" using assms(2) by (auto split: ad_interface.splits)
    then show thesis using collection True tp assms(1)
      by (cases "ad_interface ad") (auto simp: csv_collection_iface_def hdql_attr_def_collection_iface_def
        hdql_attr_def_is_collection_def split: option.splits csv_value_handler.splits)
  next
    case False
    then obtain si where "ifc (ad_addr ad) = IfScalar si" using assms(2) by (auto split: ad_interface.splits)
    then show thesis using scalar False tp assms(1)
      by (cases "ad_interface ad") (auto simp: csv_scalar_iface_def hdql_attr_def_scalar_iface_def
        hdql_attr_def_is_collection_def split: option.splits csv_value_handler.splits)
  qed
qed

lemma csv_inv_update:
  "csv_inv df_ok st_ok ok owner w \<Longrightarrow> owner x = a \<Longrightarrow> ok c \<Longrightarrow> df_ok a df \<Longrightarrow> (\<And>y. s = Some y \<Longrightarrow> st_ok a y) \<Longrightarrow>
   csv_inv df_ok st_ok ok owner (csv_update x a s df c w)"
  by (auto simp: csv_inv_def csv_update_def)

lemma csv_keeps_update: "(s = None \<longrightarrow> cw_dynamicData w x = None) \<Longrightarrow> csv_keeps w (csv_update x a s df c w)"
  by (auto simp: csv_keeps_def csv_update_def)

context csv_attributes begin

lemma reset_state:
  assumes "csv_inv df_ok st_ok ok owner w" "csv_typed h" "csv_placed ifc owner h"
  shows "\<exists>w'. reset_dynamic_state ifc (Some d) h w = Some w' \<and> csv_inv df_ok st_ok ok owner w' \<and> csv_keeps w w' \<and>
    csv_ready ifc w' h \<and> csv_same_text w w'"
proof -
  obtain x name ad vh pl where h: "h = CSVAttrHandler x name ad vh pl" by (cases h)
  have own: "owner x = ad_addr ad" and inv: "ok (cw_ctx w)" "df_ok (ad_addr ad) (cw_defs w (ad_addr ad))"
    using assms(1,3) by (auto simp: h csv_inv_def)
  show ?thesis
  proof (cases rule: csv_ifaces [OF assms(2,3) [unfolded h]])
    case (1 tp ci)
    from new_iterator [OF 1(4) inv(2,1), of d] obtain s df c where
      new: "ci_new_iterator ci (Some d) (cw_defs w (ad_addr ad)) (cw_ctx w) = Some (Some s, df, c)" "st_ok (ad_addr ad) s" "df_ok (ad_addr ad) df" "ok c"
      by blast
    show ?thesis
    proof (cases "cw_dynamicData w x")
      case None
      let ?w = "csv_update x (ad_addr ad) (Some s) df c w"
      have "reset_dynamic_state ifc (Some d) h w = Some ?w"
        using 1 new(1) None by (simp add: reset_dynamic_state_def h)
      moreover have "csv_inv df_ok st_ok ok owner ?w" by (rule csv_inv_update [OF assms(1) own]) (use new in auto)
      moreover have "csv_ready ifc ?w h" by (simp add: csv_ready_def csv_update_def h)
      ultimately show ?thesis by (auto intro!: csv_keeps_update)
    next
      case (Some y)
      then have "reset_dynamic_state ifc (Some d) h w = Some w" "csv_ready ifc w h"
        using 1 by (simp_all add: reset_dynamic_state_def csv_ready_def h)
      then show ?thesis using assms(1) by auto
    qed
  next
    case (2 tp si)
    have sc: "hdql_attr_def_is_scalar tp" using 2(3) by (simp add: hdql_attr_def_is_scalar_def hdql_attr_def_is_collection_def)
    show ?thesis
    proof (cases "\<exists>new. si_new_dyn_data si = Some new \<and> cw_dynamicData w x = None")
      case True
      then obtain new where none: "si_new_dyn_data si = Some new" "cw_dynamicData w x = None" by blast
      from new_data [OF 2(4) none(1) inv(2,1), of d] obtain s df c where
        new: "new (Some d) (cw_defs w (ad_addr ad)) (cw_ctx w) = Some (Some s, df, c)" "st_ok (ad_addr ad) s" "df_ok (ad_addr ad) df" "ok c"
        by blast
      let ?w = "csv_update x (ad_addr ad) (Some s) df c w"
      have "reset_dynamic_state ifc (Some d) h w = Some ?w"
        using 2 new(1) none sc by (simp add: reset_dynamic_state_def h)
      moreover have "csv_inv df_ok st_ok ok owner ?w" by (rule csv_inv_update [OF assms(1) own]) (use new in auto)
      moreover have "csv_ready ifc ?w h" by (simp add: csv_ready_def csv_update_def h)
      ultimately show ?thesis by (auto intro!: csv_keeps_update)
    next
      case False
      then have "reset_dynamic_state ifc (Some d) h w = Some w" "csv_ready ifc w h"
        using 2 sc by (auto simp: reset_dynamic_state_def csv_ready_def h Let_def split: option.split)
      then show ?thesis using assms(1) by auto
    qed
  qed
qed

lemma reset_states:
  "csv_inv df_ok st_ok ok owner w \<Longrightarrow> list_all csv_typed hs \<Longrightarrow> list_all (csv_placed ifc owner) hs \<Longrightarrow>
   \<exists>w'. reset_dynamic_states ifc (Some d) hs w = Some w' \<and> csv_inv df_ok st_ok ok owner w' \<and> csv_keeps w w' \<and>
    list_all (csv_ready ifc w') hs \<and> csv_same_text w w'"
proof (induction hs arbitrary: w)
  case (Cons h hs)
  obtain w1 where w1: "reset_dynamic_state ifc (Some d) h w = Some w1" "csv_inv df_ok st_ok ok owner w1" "csv_keeps w w1"
    "csv_ready ifc w1 h" "csv_same_text w w1" using reset_state [OF Cons.prems(1)] Cons.prems by fastforce
  obtain w2 where "reset_dynamic_states ifc (Some d) hs w1 = Some w2" "csv_inv df_ok st_ok ok owner w2" "csv_keeps w1 w2"
    "list_all (csv_ready ifc w2) hs" "csv_same_text w1 w2" using Cons.IH [OF w1(2)] Cons.prems by auto
  then show ?case using w1 csv_keeps_trans csv_ready_keeps csv_same_text_trans by (intro exI [of _ w2]) (auto; blast)
qed auto

lemma scalar_data:
  assumes "csv_inv df_ok st_ok ok owner w" "csv_ready ifc w (CSVAttrHandler x name ad vh pl)" "owner x = ad_addr ad"
    "ifc (ad_addr ad) = IfScalar si" "csv_scalar_iface ifc ad = Some si"
  shows "\<exists>w'. get_scalar_data ifc (Some d) x ad w = Some (val (ad_addr ad) d, w') \<and> csv_inv df_ok st_ok ok owner w' \<and>
    csv_keeps w w' \<and> csv_same_text w w'"
proof -
  have inv: "ok (cw_ctx w)" "df_ok (ad_addr ad) (cw_defs w (ad_addr ad))" "\<And>y. cw_dynamicData w x = Some y \<Longrightarrow> st_ok (ad_addr ad) y"
    using assms(1) by (auto simp: csv_inv_def assms(3) [symmetric])
  have "cw_dynamicData w x = None \<longrightarrow> si_new_dyn_data si = None" using assms(2,4) by (auto simp: csv_ready_def)
  from reset [OF assms(4) inv(2,1) this inv(3), of d] obtain s df k c where r:
    "si_reset si (Some d) (cw_dynamicData w x) (cw_defs w (ad_addr ad)) None (cw_ctx w) = Some (val (ad_addr ad) d, s, df, k, c)"
    "s = None \<longrightarrow> cw_dynamicData w x = None" "\<forall>y. s = Some y \<longrightarrow> st_ok (ad_addr ad) y" "df_ok (ad_addr ad) df" "ok c" by blast
  have "csv_inv df_ok st_ok ok owner (csv_update x (ad_addr ad) s df c w)" by (rule csv_inv_update [OF assms(1,3)]) (use r in auto)
  then show ?thesis using r by (auto simp: get_scalar_data_def assms(5) intro!: csv_keeps_update)
qed

lemma collection_count:
  assumes "csv_inv df_ok st_ok ok owner w" "csv_ready ifc w (CSVAttrHandler x name ad vh pl)" "owner x = ad_addr ad"
    "ifc (ad_addr ad) = IfCollection ci" "csv_collection_iface ifc ad = Some ci" "ad_isCollection ad" "valueDelimiter fmt = Some vd"
  shows "\<exists>w'. handle_collection_as_csv_entry ifc fmt (Some d) x ad w =
      Some (csv_put vd [decimal (num (ad_addr ad) d mod 2 ^ 64)] w') \<and> csv_inv df_ok st_ok ok owner w' \<and>
    csv_keeps w w' \<and> csv_same_text w w'"
proof -
  obtain s where s: "cw_dynamicData w x = Some s" using assms(2,4) by (auto simp: csv_ready_def)
  have inv: "ok (cw_ctx w)" "df_ok (ad_addr ad) (cw_defs w (ad_addr ad))" "st_ok (ad_addr ad) s"
    using assms(1) s by (auto simp: csv_inv_def assms(3) [symmetric])
  from items [OF assms(4) inv(2,1,3), of d] obtain r s1 df1 k1 c1 s' df' c' where r:
    "ci_reset_iterator ci (Some s) (Some d) (cw_defs w (ad_addr ad)) None None (cw_ctx w) = Some (r, s1, df1, k1, c1)"
    "count_items ci r 0 s1 df1 c1 = Some (of_nat (num (ad_addr ad) d), Some s', df', c')" "st_ok (ad_addr ad) s'"
    "df_ok (ad_addr ad) df'" "ok c'" by blast
  have "csv_inv df_ok st_ok ok owner (csv_update x (ad_addr ad) (Some s') df' c' w)"
    by (rule csv_inv_update [OF assms(1,3)]) (use r in auto)
  then show ?thesis using r s assms(5-7)
    by (intro exI [of _ "csv_update x (ad_addr ad) (Some s') df' c' w"])
      (auto simp: handle_collection_as_csv_entry_def hdql_attr_def_is_collection_def hdql_attr_def_is_scalar_def
        print_column_put unat_of_nat intro!: csv_keeps_update)
qed

text \<open>Handling the attributes of a datum appends their columns.\<close>

lemma values_row_list:
  assumes "\<And>h w cols. h \<in> set hs \<Longrightarrow> csv_typed h \<Longrightarrow> csv_placed ifc owner h \<Longrightarrow> csv_inv df_ok st_ok ok owner w \<Longrightarrow> csv_ready ifc w h \<Longrightarrow>
      csv_values val num nl d h = Some cols \<Longrightarrow>
      \<exists>w'. value_handler ifc fmt (Some d) h w = Some w' \<and> csv_inv df_ok st_ok ok owner w' \<and> csv_keeps w w' \<and> csv_printed vd cols w w'"
  shows "list_all csv_typed hs \<Longrightarrow> list_all (csv_placed ifc owner) hs \<Longrightarrow> csv_inv df_ok st_ok ok owner w \<Longrightarrow>
      list_all (csv_ready ifc w) hs \<Longrightarrow> csv_row val num nl d hs = Some cols \<Longrightarrow>
      \<exists>w'. handle_values ifc fmt (Some d) hs w = Some w' \<and> csv_inv df_ok st_ok ok owner w' \<and> csv_keeps w w' \<and> csv_printed vd cols w w'"
  using assms
proof (induction hs arbitrary: w cols)
  case (Cons h hs)
  obtain r rs where cols: "csv_values val num nl d h = Some r" "csv_row val num nl d hs = Some rs" "cols = r @ rs"
    using Cons.prems(5) by auto
  obtain w1 where w1: "value_handler ifc fmt (Some d) h w = Some w1" "csv_inv df_ok st_ok ok owner w1" "csv_keeps w w1"
    "csv_printed vd r w w1" using Cons.prems(6) [of h w r] Cons.prems(1-4) cols by auto
  have "list_all (csv_ready ifc w1) hs" using Cons.prems(4) w1(3) by (auto simp: list_all_iff intro: csv_ready_keeps)
  then obtain w2 where "handle_values ifc fmt (Some d) hs w1 = Some w2" "csv_inv df_ok st_ok ok owner w2" "csv_keeps w1 w2"
    "csv_printed vd rs w1 w2" using Cons.IH [OF _ _ w1(2) _ cols(2)] Cons.prems(1,2,6) by (auto 4 3)
  then show ?case using w1 cols(3) csv_keeps_trans csv_printed_trans by (intro exI [of _ w2]) (auto; blast)
qed auto

lemma value_row:
  assumes "fmt = csv_format vd rd delim marker anon nl key"
  shows "csv_typed h \<Longrightarrow> csv_placed ifc owner h \<Longrightarrow>
      csv_inv df_ok st_ok ok owner w \<Longrightarrow> csv_ready ifc w h \<Longrightarrow> csv_values val num nl d h = Some cols \<Longrightarrow>
      \<exists>w'. value_handler ifc fmt (Some d) h w = Some w' \<and> csv_inv df_ok st_ok ok owner w' \<and> csv_keeps w w' \<and> csv_printed vd cols w w'"
proof (induction h arbitrary: d w cols rule: measure_induct_rule [of size])
  case (less h)
  obtain x name ad vh pl where h: "h = CSVAttrHandler x name ad vh pl" by (cases h)
  have own: "owner x = ad_addr ad" using less.prems(2) by (simp add: h)
  have vd: "valueDelimiter fmt = Some vd" "nullToken fmt = Some nl" by (simp_all add: assms)
  show ?case
  proof (cases rule: csv_ifaces [OF less.prems(1,2) [unfolded h]])
    case (1 tp ci)
    have "cols = [decimal (num (ad_addr ad) d mod 2 ^ 64)]" using less.prems(5) 1(6) by (simp add: h)
    then show ?thesis using collection_count [OF less.prems(3,4) [unfolded h] own 1(4,5,1) vd(1), of d] 1(6)
      by (auto simp: h csv_printed_same_put)
  next
    case (2 tp si)
    obtain w1 where w1: "get_scalar_data ifc (Some d) x ad w = Some (val (ad_addr ad) d, w1)" "csv_inv df_ok st_ok ok owner w1"
      "csv_keeps w w1" "csv_printed vd [] w w1"
      using scalar_data [OF less.prems(3,4) [unfolded h] own 2(4,5), of d] by (auto simp: csv_same_text_printed [where delim = vd])
    show ?thesis
    proof (cases "vh = Some ScalarAtomicEntry")
      case True
      then obtain f where f: "pl = PlString f" "hdql_attr_def_is_atomic tp"
        using less.prems(1) 2(2) by (auto simp: h split: csv_payload.splits)
      have flags: "\<not> hdql_attr_def_is_collection ad" "hdql_attr_def_is_scalar ad" "\<not> hdql_attr_def_is_compound ad"
        using 2 f(2) compound_direct [of ad] by (auto simp: hdql_attr_def_is_collection_def hdql_attr_def_is_scalar_def)
      obtain y where "cols = [y]" "value_handler ifc fmt (Some d) h w = Some (csv_put vd [y] w1)"
        using less.prems(5) True f(1) w1(1) flags vd
        by (auto simp: h handle_scalar_atomic_as_csv_entry_def print_column_put split: option.splits)
      then show ?thesis using w1(2-4) csv_printed_trans [OF w1(4) csv_printed_put] by auto
    next
      case False
      then have vh: "vh = Some ScalarCompoundEntry" using 2(6) by simp
      then obtain arr hs where pl: "pl = PlTier arr hs" "list_all csv_typed hs" "hdql_attr_def_is_compound ad"
        using less.prems(1) 2(2) by (auto simp: h split: csv_payload.splits)
      obtain y where y: "val (ad_addr ad) d = Some y" "csv_row val num nl y hs = Some cols"
        using less.prems(5) by (auto simp: h vh pl(1) csv_row_def split: option.splits)
      have flags: "\<not> hdql_attr_def_is_collection ad" "hdql_attr_def_is_scalar ad"
        using 2 by (auto simp: hdql_attr_def_is_collection_def hdql_attr_def_is_scalar_def)
      have placed: "list_all (csv_placed ifc owner) hs" using less.prems(2) by (simp add: h pl(1))
      obtain w2 where w2: "reset_dynamic_states ifc (Some y) hs w1 = Some w2" "csv_inv df_ok st_ok ok owner w2" "csv_keeps w1 w2"
        "list_all (csv_ready ifc w2) hs" "csv_printed vd [] w1 w2"
        using reset_states [OF w1(2) pl(2) placed, of y] by (auto simp: csv_same_text_printed [where delim = vd])
      have "size g < size h" if "g \<in> set hs" for g
        using size_list_estimation' [OF that order_refl, of size] by (simp add: h pl(1))
      note smaller = this
      have "\<exists>w'. handle_values ifc fmt (Some y) hs w2 = Some w' \<and> csv_inv df_ok st_ok ok owner w' \<and> csv_keeps w2 w' \<and> csv_printed vd cols w2 w'"
        by (rule values_row_list [OF _ pl(2) placed w2(2,4) y(2)], rule less.IH [OF smaller])
      then obtain w3 where w3: "handle_values ifc fmt (Some y) hs w2 = Some w3" "csv_inv df_ok st_ok ok owner w3" "csv_keeps w2 w3"
        "csv_printed vd cols w2 w3" by blast
      have "value_handler ifc fmt (Some d) h w = Some w3"
        using w1(1) w2(1) w3(1) compound_direct [OF pl(3)] flags by (simp add: h vh pl(1,3) y(1))
      moreover have "csv_printed vd cols w w3"
        using csv_printed_trans [OF csv_printed_trans [OF w1(4) w2(5)] w3(4)] by simp
      ultimately show ?thesis using w3(2) w1(3) w2(3) w3(3) csv_keeps_trans by blast
    qed
  qed
qed

lemma values_row:
  assumes "fmt = csv_format vd rd delim marker anon nl key" "list_all csv_typed hs" "list_all (csv_placed ifc owner) hs"
    "csv_inv df_ok st_ok ok owner w" "csv_row val num nl d hs = Some cols"
  shows "\<exists>w1 w'. reset_dynamic_states ifc (Some d) hs w = Some w1 \<and> handle_values ifc fmt (Some d) hs w1 = Some w' \<and>
    csv_inv df_ok st_ok ok owner w' \<and> csv_printed vd cols w w'"
proof -
  obtain w1 where w1: "reset_dynamic_states ifc (Some d) hs w = Some w1" "csv_inv df_ok st_ok ok owner w1"
    "list_all (csv_ready ifc w1) hs" "csv_printed vd [] w w1"
    using reset_states [OF assms(4,2,3), of d] by (auto simp: csv_same_text_printed [where delim = vd])
  have "\<exists>w'. handle_values ifc fmt (Some d) hs w1 = Some w' \<and> csv_inv df_ok st_ok ok owner w' \<and> csv_keeps w1 w' \<and> csv_printed vd cols w1 w'"
    by (rule values_row_list [OF _ assms(2,3) w1(2,3) assms(5)], rule value_row [OF assms(1)])
  then obtain w' where w': "handle_values ifc fmt (Some d) hs w1 = Some w'" "csv_inv df_ok st_ok ok owner w'" "csv_printed vd cols w1 w'"
    by blast
  have "csv_printed vd cols w w'" using csv_printed_trans [OF w1(4) w'(3)] by simp
  then show ?thesis using w1(1) w'(1,2) by blast
qed

lemma print_keys_put:
  "fmt = csv_format vd rd delim marker anon nl fk \<Longrightarrow> csv_key_values key_as_string nl key vs vis = Some cols \<Longrightarrow>
   print_keys key_as_string fmt key vs vis w = Some (csv_put vd cols w)"
proof (induction key_as_string nl key vs vis arbitrary: cols w rule: csv_key_values.induct)
  case (1 key_as_string nl key v vs vi vis)
  obtain r rs where cols: "cols = r # rs" "csv_key_values key_as_string nl key vs vis = Some rs"
    "(case Option.bind vi key_as_string of None \<Rightarrow> Some nl
      | Some f \<Rightarrow> do { k \<leftarrow> key_at key v; d \<leftarrow> hdql_key_datum_get k; Some (f (map_option snd d)) }) = Some r"
    using "1.prems"(2) by auto
  have "print_keys key_as_string fmt key vs vis (csv_put vd [r] w) = Some (csv_put vd rs (csv_put vd [r] w))"
    by (rule "1.IH" [OF cols(3) "1.prems"(1) cols(2)])
  then show ?case using cols by (auto simp: "1.prems"(1) print_column_put csv_put_append split: option.splits)
qed auto

text \<open>The line of a record.\<close>

lemma record_line:
  assumes fmt: "csv_fmt csv = csv_format vd rd delim marker anon nl fk" and root: "csv_rootObjectHandler csv = Some root"
    and keys: "csv_flatKeys csv = Some ks" "csv_key_values key_as_string nl key (flatKeyViews ks) (flatKeyIFaces ks) = Some kcols"
    and typed: "csv_root_typed root" "csv_root_placed ifc owner root" and inv: "csv_inv df_ok st_ok ok owner w"
    and cols: "csv_root_values val num nl d root = Some cols"
  shows "\<exists>w'. csv_results_handler_handle_record ifc key_as_string csv (Some d) key w = Some (0, w') \<and>
    csv_inv df_ok st_ok ok owner w' \<and> cw_dest w' = cw_dest w @ csv_line vd rd (kcols @ cols)"
proof -
  let ?w0 = "csv_put vd kcols (w\<lparr>cw_nColumnsPrinted := 0\<rparr>)"
  have w0: "print_keys key_as_string (csv_fmt csv) key (flatKeyViews ks) (flatKeyIFaces ks) (w\<lparr>cw_nColumnsPrinted := 0\<rparr>) = Some ?w0"
    by (rule print_keys_put [OF fmt keys(2)])
  have inv0: "csv_inv df_ok st_ok ok owner ?w0" using inv by (simp add: csv_inv_def)
  have vd: "valueDelimiter (csv_fmt csv) = Some vd" "recordDelimiter (csv_fmt csv) = Some rd" by (simp_all add: fmt)
  let ?body = "if hdql_attr_def_is_compound (ah_ad root)
          then (case ah_payload root of
              PlTier arr hs \<Rightarrow> do { w \<leftarrow> reset_dynamic_states ifc (Some d) hs ?w0; handle_values ifc (csv_fmt csv) (Some d) hs w }
            | PlZero \<Rightarrow> Some ?w0
            | PlString _ \<Rightarrow> None)
          else do { c_assert (hdql_attr_def_is_atomic (ah_ad root)); value_handler ifc (csv_fmt csv) (Some d) root ?w0 }"
  obtain x name ad vh pl where r: "root = CSVAttrHandler x name ad vh pl" by (cases root)
  have "\<exists>w'. ?body = Some w' \<and> csv_inv df_ok st_ok ok owner w' \<and> csv_printed vd cols ?w0 w'"
  proof (cases "hdql_attr_def_is_compound ad")
    case True
    then obtain arr hs where pl: "pl = PlTier arr hs" "list_all csv_typed hs" using typed(1)
      by (auto simp: r csv_root_typed_def split: csv_payload.splits)
    have "list_all (csv_placed ifc owner) hs" "csv_row val num nl d hs = Some cols"
      using typed(2) cols True by (auto simp: r pl(1) csv_root_placed_def csv_root_values_def)
    from values_row [OF fmt pl(2) this(1) inv0 this(2)] show ?thesis using True by (auto simp: r pl(1))
  next
    case False
    then consider (plain) f where "hdql_attr_def_is_atomic ad" "vh = Some ScalarAtomicValueEntry" "pl = PlString f"
      | (attr) "hdql_attr_def_is_atomic ad" "vh = Some ScalarAtomicEntry" "csv_typed root"
      using typed(1) by (auto simp: r csv_root_typed_def simp del: csv_typed.simps
        split: csv_payload.splits option.splits csv_value_handler.splits)
    then show ?thesis
    proof cases
      case plain
      then have "cols = [f d]" using cols False by (simp add: r csv_root_values_def)
      then have "?body = Some (csv_put vd cols ?w0)" using plain False
        by (simp add: r handle_scalar_atomic_value_as_csv_entry_def print_column_put vd)
      then show ?thesis using inv0 by (auto simp: csv_printed_put)
    next
      case attr
      have placed: "csv_placed ifc owner root" and none: "csv_scalar_reset ifc root"
        using typed(2) False attr by (auto simp: r csv_root_placed_def)
      have "csv_values val num nl d root = Some cols" using cols False attr by (simp add: r csv_root_values_def)
      moreover have "csv_ready ifc ?w0 root" using none by (auto simp: csv_ready_def csv_scalar_reset_def)
      ultimately show ?thesis using value_row [OF fmt attr(3) placed inv0] False attr(1) by (auto simp: r)
    qed
  qed
  then obtain w1 where w1: "?body = Some w1" "csv_inv df_ok st_ok ok owner w1" "csv_printed vd cols ?w0 w1" by blast
  have "csv_results_handler_handle_record ifc key_as_string csv (Some d) key w = Some (0, w1\<lparr>cw_dest := cw_dest w1 @ rd\<rparr>)"
    unfolding csv_results_handler_handle_record_def Let_def keys(1) root
    by (simp only: w0 bind.bind_lunit w1(1)) (simp add: fputs_def vd)
  moreover have "csv_inv df_ok st_ok ok owner (w1\<lparr>cw_dest := cw_dest w1 @ rd\<rparr>)" using w1(2) by (simp add: csv_inv_def)
  moreover have "cw_dest w1 @ rd = cw_dest w @ csv_line vd rd (kcols @ cols)"
    using w1(3) by (simp add: csv_printed_def csv_line_def csv_text_append)
  ultimately show ?thesis by auto
qed

end

section \<open>The interfaces of a C++ client\<close>

datatype ('d, 'v) cpp_attr = CppMember "'d \<Rightarrow> 'd" | CppPointer "'d \<Rightarrow> 'd option" | CppContainer "'d \<Rightarrow> ('d \<times> 'v) list"

fun cpp_iface :: "('d, 'v) cpp_attr \<Rightarrow> ('d, 'd cpp_iterator, 'a, 'v) ad_interface" where
  "cpp_iface (CppMember m) = IfScalar (member_iface m)"
| "cpp_iface (CppPointer m) = IfScalar (indirect_iface m)"
| "cpp_iface (CppContainer xs) = IfCollection (stl_iface (\<lambda>i. i) Some (\<lambda>d. map (\<lambda>(x, v). (Some x, v)) (xs d)))"

fun cpp_value :: "('d, 'v) cpp_attr \<Rightarrow> 'd \<Rightarrow> 'd option" where
  "cpp_value (CppMember m) d = Some (m d)"
| "cpp_value (CppPointer m) d = m d"
| "cpp_value (CppContainer xs) d = None"

fun cpp_count :: "('d, 'v) cpp_attr \<Rightarrow> 'd \<Rightarrow> nat" where
  "cpp_count (CppContainer xs) d = length (xs d)"
| "cpp_count _ d = 0"

lemma count_stl:
  fixes it :: "'d cpp_iterator" and n :: size_t
  defines "iface xs \<equiv> stl_iface (\<lambda>i. i) Some (\<lambda>d. map (\<lambda>(x, v). (Some x, v)) (xs d))"
  shows "it_owner it = Some d \<Longrightarrow> it_pos it = Some p \<Longrightarrow> p < length (xs d) \<Longrightarrow>
    \<exists>it'. count_items (iface xs) (Some y) n (Some it) df c = Some (n + of_nat (length (xs d) - p), Some it', df, c)"
proof (induction "length (xs d) - p" arbitrary: p it y n)
  case 0
  then show ?case by simp
next
  case (Suc l)
  show ?case
  proof (cases "Suc p = length (xs d)")
    case True
    then have "length (xs d) - p = 1" by simp
    then show ?thesis using True Suc.prems by (simp add: iface_def count_items.simps stl_iface_def stl_yield_def)
  next
    case False
    then have p: "Suc p < length (xs d)" using Suc.prems by simp
    have "\<exists>it'. count_items (iface xs) (Some (fst (xs d ! Suc p))) (n + 1) (Some (it\<lparr>it_pos := Some (Suc p)\<rparr>)) df c =
        Some (n + 1 + of_nat (length (xs d) - Suc p), Some it', df, c)"
      by (rule Suc.hyps(1)) (use Suc p in auto)
    moreover have "length (xs d) - p = Suc (length (xs d) - Suc p)" using p by simp
    ultimately show ?thesis using Suc.prems p
      by (subst count_items.simps) (simp add: iface_def stl_iface_def stl_yield_def with_key_def split_beta algebra_simps)
  qed
qed

interpretation cpp: csv_attributes "\<lambda>a. cpp_iface (desc a)" "\<lambda>_ _. True" "\<lambda>_ _. True" no_oom "\<lambda>a. cpp_value (desc a)"
    "\<lambda>a. cpp_count (desc a)" for desc :: "addr \<Rightarrow> ('d, bytes) cpp_attr"
proof unfold_locales
  fix a si new and df and c d
  show "cpp_iface (desc a) = IfScalar si \<Longrightarrow> si_new_dyn_data si = Some new \<Longrightarrow> True \<Longrightarrow> no_oom c \<Longrightarrow>
    \<exists>s df' c'. new (Some d) df c = Some (Some s, df', c') \<and> True \<and> True \<and> no_oom c'"
    by (cases "desc a") (auto simp: member_iface_def indirect_iface_def)
next
  fix a ci and df and c d
  show "cpp_iface (desc a) = IfCollection ci \<Longrightarrow> True \<Longrightarrow> no_oom c \<Longrightarrow>
    \<exists>s df' c'. ci_new_iterator ci (Some d) df c = Some (Some s, df', c') \<and> True \<and> True \<and> no_oom c'"
    by (cases "desc a"; rule no_oom_alloc [of c]) (auto simp: stl_iface_def stl_new_iterator_def)
next
  fix a si and df and c d and s0 :: "'d cpp_iterator option"
  show "cpp_iface (desc a) = IfScalar si \<Longrightarrow> True \<Longrightarrow> no_oom c \<Longrightarrow> (s0 = None \<longrightarrow> si_new_dyn_data si = None) \<Longrightarrow> (\<And>x. s0 = Some x \<Longrightarrow> True) \<Longrightarrow>
    \<exists>s' df' k' c'. si_reset si (Some d) s0 df None c = Some (cpp_value (desc a) d, s', df', k', c') \<and>
      (s' = None \<longrightarrow> s0 = None) \<and> (\<forall>x. s' = Some x \<longrightarrow> True) \<and> True \<and> no_oom c'"
    by (cases "desc a") (auto simp: member_iface_def indirect_iface_def member_reset_def indirect_reset_def)
next
  fix a ci and df and c d and s :: "'d cpp_iterator"
  assume ci: "cpp_iface (desc a) = IfCollection ci" and c: "no_oom c"
  then obtain xs where xs: "desc a = CppContainer xs" "ci = stl_iface (\<lambda>i. i) Some (\<lambda>d. map (\<lambda>(x, v). (Some x, v)) (xs d))"
    by (cases "desc a") auto
  show "\<exists>r s1 df1 k1 c1 s' df' c'. ci_reset_iterator ci (Some s) (Some d) df None None c = Some (r, s1, df1, k1, c1) \<and>
    count_items ci r 0 s1 df1 c1 = Some (of_nat (cpp_count (desc a) d), Some s', df', c') \<and> True \<and> True \<and> no_oom c'"
  proof (cases "xs d")
    case Nil
    then show ?thesis using c by (simp add: xs stl_iface_def stl_reset_iterator_def count_items.simps)
  next
    case (Cons x ys)
    let ?it = "s\<lparr>it_owner := Some d, it_pos := Some 0\<rparr>"
    have "ci_reset_iterator ci (Some s) (Some d) df None None c = Some (Some (fst x), Some ?it, df, None, c)"
      using Cons by (simp add: xs(2) stl_iface_def stl_reset_iterator_def with_key_def split_beta)
    moreover obtain it' where "count_items ci (Some (fst x)) 0 (Some ?it) df c = Some (of_nat (length (xs d)), Some it', df, c)"
      using count_stl [of ?it d 0 xs "fst x" 0 df c] Cons by (auto simp: xs(2))
    ultimately show ?thesis using c by (auto simp: xs(1))
  qed
qed

section \<open>The properties\<close>

lemma root_handler_typed:
  assumes "csv_root_handler compounds types as_string x ad c = Some (root, c')" "csv_compounds_ok compounds" "csv_attr_ok ad"
    "ah_payload root \<noteq> PlZero"
  shows "csv_root_typed root"
proof (cases "hdql_attr_def_is_atomic ad")
  case True
  then have "hdql_attr_def_top_attr ad = Some ad" "\<not> hdql_attr_def_is_compound ad"
    using compound_direct [of ad] by (auto simp: hdql_attr_def_is_atomic_def top_attr_direct split: if_splits)
  then show ?thesis using assms(1,3,4) True
    by (auto simp: csv_root_handler_def csv_root_typed_def hdql_attr_def_is_scalar_def hdql_attr_def_is_collection_def
      split: if_splits option.splits)
next
  case False
  then show ?thesis using assms(1) expand_typed [OF _ assms(2)]
    by (auto simp: csv_root_handler_def csv_root_typed_def)
qed

lemma those_snoc: "those (xs @ [x]) = do { rs \<leftarrow> those xs; r \<leftarrow> x; Some (rs @ [r]) }"
proof (induction xs)
  case Nil
  show ?case by (cases x) simp_all
next
  case (Cons y xs)
  then show ?case by (cases y; cases "those xs"; cases x) simp_all
qed

lemma those_in: "those (map f xs) = Some rs \<Longrightarrow> x \<in> set xs \<Longrightarrow> \<exists>r. f x = Some r"
  and those_set: "those (map f xs) = Some rs \<Longrightarrow> r \<in> set rs \<Longrightarrow> \<exists>x. f x = Some r"
  by (induction xs arbitrary: rs) (auto split: option.splits)

text \<open>The names of the keys' columns.\<close>

definition csv_key_name :: "(bytes \<Rightarrow> nat \<Rightarrow> bytes) \<Rightarrow> bytes \<Rightarrow> bytes hdql_Key \<Rightarrow> nat \<Rightarrow> bytes" where
  "csv_key_name format_key fk k n = (case k_label k of Some l \<Rightarrow> l | None \<Rightarrow> format_key fk n)"

fun csv_key_names :: "(bytes \<Rightarrow> nat \<Rightarrow> bytes) \<Rightarrow> bytes \<Rightarrow> bytes hdql_Key \<Rightarrow> nat \<Rightarrow> nat list list \<Rightarrow> bytes list option" where
  "csv_key_names format_key fk key n [] = Some []"
| "csv_key_names format_key fk key n (v # vs) = do {
     k \<leftarrow> key_at key v;
     ns \<leftarrow> csv_key_names format_key fk key (n + 1) vs;
     Some (csv_key_name format_key fk k n # ns) }"

lemma print_key_names_put:
  fixes w :: "('s, 'a) csv_world"
  shows "fmt = csv_format vd rd delim marker anon nl fk \<Longrightarrow> csv_key_names format_key fk key n vs = Some ns \<Longrightarrow>
    print_key_names fmt format_key key n vs w = Some (csv_put vd ns w)"
proof (induction format_key fk key n vs arbitrary: ns w rule: csv_key_names.induct)
  case (2 format_key fk key n v vs)
  obtain k ns' where k: "key_at key v = Some k" "csv_key_names format_key fk key (n + 1) vs = Some ns'"
    "ns = csv_key_name format_key fk k n # ns'" using "2.prems"(2) by auto
  let ?w = "csv_put vd [csv_key_name format_key fk k n] w"
  have "print_key_names fmt format_key key (n + 1) vs ?w = Some (csv_put vd ns' ?w)"
    by (rule "2.IH" [OF k(1) "2.prems"(1) k(2)])
  moreover have "print_key_names fmt format_key key n (v # vs) w = print_key_names fmt format_key key (n + 1) vs ?w"
    by (cases "k_label k") (simp_all add: k(1) "2.prems"(1) fputs_def csv_put_def csv_key_name_def
      hdql_key_is_labeled_def hdql_key_get_label_def)
  ultimately show ?case by (simp add: k(3) csv_put_append)
qed simp

lemma csv_key_names_length: "csv_key_names format_key fk key n vs = Some ns \<Longrightarrow> length ns = length vs"
  by (induction format_key fk key n vs arbitrary: ns rule: csv_key_names.induct) auto

lemma csv_key_values_length: "csv_key_values key_as_string nl key vs vis = Some cols \<Longrightarrow> length cols = length vs"
  by (induction key_as_string nl key vs vis arbitrary: cols rule: csv_key_values.induct) (auto split: option.splits)

lemma csv_root_length:
  assumes "csv_root_typed root" "csv_root_values val num nl d root = Some cols"
  shows "length cols = length (csv_root_names delim marker anon root)"
proof (cases "hdql_attr_def_is_compound (ah_ad root)")
  case True
  then obtain arr hs where "ah_payload root = PlTier arr hs" using assms(1) by (auto simp: csv_root_typed_def split: csv_payload.splits)
  moreover from this have "csv_row val num nl d hs = Some cols" using assms(2) True by (simp add: csv_root_values_def)
  ultimately show ?thesis using True csv_row_length [OF csv_values_length] by (fastforce simp: csv_root_names_def)
next
  case False
  obtain x name ad vh pl where "root = CSVAttrHandler x name ad vh pl" by (cases root)
  then show ?thesis using assms False
    by (auto simp: csv_root_typed_def csv_root_values_def csv_root_names_def simp del: csv_typed.simps
      split: csv_payload.splits option.splits csv_value_handler.splits)
qed

text \<open>
  C28: With an attribute delimiter of one byte (of a longer one a part stays in the names), the first line
  of the output has a column for each key, by its label or its number, and one for
  each attribute of the result: its path from the result, joined by the attribute delimiter, marked if
  it is a collection. The prefix is built with a delimiter too much in a buffer a byte too short, and
  the two cancel out.
\<close>

theorem csv_header_line:
  assumes "csv_fmt csv = csv_format vd rd delim marker anon nl fk"
    and "csv_root_handler compounds types as_string x ad c = Some (root, c')" "csv_rootObjectHandler csv = Some root"
    and "csv_compounds_ok compounds" "csv_attr_ok ad" "ah_payload root \<noteq> PlZero"
    and "csv_flatKeys csv = Some ks" "csv_key_names format_key fk (flatKey ks) 0 (flatKeyViews ks) = Some knames"
  shows "\<exists>w'. csv_handler_finalize_schema format_key csv w = Some w' \<and>
    cw_dest w' = cw_dest w @ csv_line vd rd (knames @ csv_root_names delim marker anon root) \<and> cw_ctx w' = cw_ctx w"
proof -
  let ?w0 = "csv_put vd knames (w\<lparr>cw_nColumnsPrinted := 0\<rparr>)"
  have keys: "print_key_names (csv_fmt csv) format_key (flatKey ks) 0 (flatKeyViews ks) (w\<lparr>cw_nColumnsPrinted := 0\<rparr>) = Some ?w0"
    by (rule print_key_names_put [OF assms(1,8)])
  have typed: "csv_root_typed root" by (rule root_handler_typed [OF assms(2,4-6)])
  show ?thesis
  proof (cases "hdql_attr_def_is_compound (ah_ad root)")
    case True
    then obtain arr hs where hs: "ah_payload root = PlTier arr hs" "list_all csv_typed hs" using typed
      by (auto simp: csv_root_typed_def split: csv_payload.splits)
    have "print_columns_list (csv_fmt csv) None hs ?w0 = Some (csv_put vd (concat (map (csv_names delim marker anon None) hs)) ?w0)"
      by (rule print_columns_names(1) [OF assms(1) hs(2)])
    then show ?thesis using True hs(1) keys
      by (simp add: csv_handler_finalize_schema_def assms(1,3,7) fputs_def csv_root_names_def csv_line_def csv_text_append)
  next
    case False
    then show ?thesis using keys
      by (simp add: csv_handler_finalize_schema_def assms(1,3,7) fputs_def csv_root_names_def csv_line_def csv_text_append)
  qed
qed

text \<open>The columns of a record, its datum and its key.\<close>

definition csv_columns where
  "csv_columns key_as_string desc nl csv r = do {
     root \<leftarrow> csv_rootObjectHandler csv;
     ks \<leftarrow> csv_flatKeys csv;
     key \<leftarrow> snd r;
     kcols \<leftarrow> csv_key_values key_as_string nl key (flatKeyViews ks) (flatKeyIFaces ks);
     cols \<leftarrow> csv_root_values (\<lambda>a. cpp_value (desc a)) (\<lambda>a. cpp_count (desc a)) nl (fst r) root;
     Some (kcols @ cols) }"

text \<open>The callback, as the results handler has it.\<close>

definition csv_callback where
  "csv_callback ifc key_as_string d key u = (case key of
     None \<Rightarrow> None
   | Some k \<Rightarrow> map_option (\<lambda>(rc, w). (rc, (fst u, w))) (csv_results_handler_handle_record ifc key_as_string (fst u) (Some d) k (snd u)))"

text \<open>
  C2: Processing the records of a datum appends a line for each output of the query, in order: the values
  of its key, then those of its attributes, numbers of items for collections; each line has as many
  columns as the line of names.
\<close>

theorem csv_table:
  fixes desc :: "addr \<Rightarrow> ('d, bytes) cpp_attr" and w :: "('d cpp_iterator, 'b) csv_world"
    and csv :: "('d, 'i) hdql_CSVHandler"
    and ws :: "('d, 's, 'a, ('d, 'i) hdql_CSVHandler \<times> ('d cpp_iterator, 'b) csv_world) hdql_QueryResultsWorkspace"
  assumes "chain_valid ok ls (ws_q ws) keys" "keys_are (map_option snd (ws_keys ws)) keys" "ok c"
    and "d = None \<longrightarrow> lv_null (fst (hd ls))"
    and "qr_handle_record (ws_iqr ws) = Some (csv_callback (\<lambda>a. cpp_iface (desc a)) key_as_string)"
    and "qr_userdata (ws_iqr ws) = (csv, w)" "no_oom (cw_ctx w)"
    and "csv_fmt csv = csv_format vd rd delim marker anon nl fk"
    and "csv_root_handler compounds types as_string x ad c0 = Some (root, c1)" "csv_rootObjectHandler csv = Some root"
    and "csv_compounds_ok compounds" "csv_attr_ok ad" "ah_payload root \<noteq> PlZero"
    and "csv_root_placed (\<lambda>a. cpp_iface (desc a) :: ('d, 'd cpp_iterator, 'b, bytes) ad_interface) owner root"
    and "csv_flatKeys csv = Some ks"
    and "those (map (csv_columns key_as_string desc nl csv) (map (seen ls (map_option snd (ws_keys ws))) (chain_outs ls d))) = Some rows"
  shows "\<exists>ws' c' w'. hdql_query_results_process_records_from d ws c = Some (HDQL_ERR_CODE_OK, ws', c') \<and> ok c' \<and>
    qr_userdata (ws_iqr ws') = (csv, w') \<and> cw_dest w' = cw_dest w @ concat (map (csv_line vd rd) rows) \<and>
    (\<forall>row\<in>set rows. length row = length (flatKeyViews ks) + length (csv_root_names delim marker anon root))"
proof -
  let ?ifc = "\<lambda>a. cpp_iface (desc a) :: ('d, 'd cpp_iterator, 'b, bytes) ad_interface"
  let ?outs = "map (seen ls (map_option snd (ws_keys ws))) (chain_outs ls d)"
  let ?cols = "csv_columns key_as_string desc nl csv"
  define I where "I xs u \<longleftrightarrow> (\<exists>w' rs. u = (csv, w') \<and> those (map ?cols xs) = Some rs \<and>
    cw_dest w' = cw_dest w @ concat (map (csv_line vd rd) rs) \<and> csv_inv (\<lambda>_ _. True) (\<lambda>_ _. True) no_oom owner w')"
    for xs and u :: "('d, 'i) hdql_CSVHandler \<times> ('d cpp_iterator, 'b) csv_world"
  have typed: "csv_root_typed root" by (rule root_handler_typed [OF assms(9,11-13)])
  have step: "\<exists>rc u'. csv_callback ?ifc key_as_string y k u = Some (rc, u') \<and> I (xs @ [(y, k)]) u'"
    if "?outs = xs @ (y, k) # ys" "I xs u" for xs y k ys u
  proof -
    note split = that
    obtain w' rs where u: "u = (csv, w')" "those (map ?cols xs) = Some rs" "cw_dest w' = cw_dest w @ concat (map (csv_line vd rd) rs)"
      "csv_inv (\<lambda>_ _. True) (\<lambda>_ _. True) no_oom owner w'" using split(2) by (auto simp: I_def)
    obtain row where row: "?cols (y, k) = Some row" using those_in [OF assms(16), of "(y, k)"] split(1) by auto
    then obtain key kcols cols where cols: "k = Some key" "csv_key_values key_as_string nl key (flatKeyViews ks) (flatKeyIFaces ks) = Some kcols"
      "csv_root_values (\<lambda>a. cpp_value (desc a)) (\<lambda>a. cpp_count (desc a)) nl y root = Some cols" "row = kcols @ cols"
      by (auto simp: csv_columns_def assms(10,15))
    obtain w2 where w2: "csv_results_handler_handle_record ?ifc key_as_string csv (Some y) key w' = Some (0, w2)"
      "csv_inv (\<lambda>_ _. True) (\<lambda>_ _. True) no_oom owner w2" "cw_dest w2 = cw_dest w' @ csv_line vd rd row"
      using cpp.record_line [OF assms(8,10,15) cols(2) typed assms(14) u(4) cols(3)] by (auto simp: cols(4))
    have "those (map ?cols (xs @ [(y, k)])) = Some (rs @ [row])" using u(2) row by (simp add: those_snoc)
    then show ?thesis using w2 by (simp add: csv_callback_def cols(1) u(1) I_def u(3))
  qed
  have start: "I [] (qr_userdata (ws_iqr ws))" using assms(7) by (simp add: I_def assms(6) csv_inv_def)
  have rows: "length row = length (flatKeyViews ks) + length (csv_root_names delim marker anon root)" if "row \<in> set rows" for row
  proof -
    obtain r where "?cols r = Some row" using those_set [OF assms(16) \<open>row \<in> set rows\<close>] by blast
    then show ?thesis using csv_root_length [OF typed] csv_key_values_length by (fastforce simp: csv_columns_def assms(10,15))
  qed
  have "\<exists>ws' c' ks'. hdql_query_results_process_records_from d ws c = Some (HDQL_ERR_CODE_OK, ws', c') \<and> ok c' \<and>
      I ?outs (qr_userdata (ws_iqr ws')) \<and> chain_valid ok ls (ws_q ws') ks' \<and> keys_are (map_option snd (ws_keys ws')) ks' \<and>
      qr_handle_record (ws_iqr ws') = Some (csv_callback ?ifc key_as_string) \<and> map_option fst (ws_keys ws') = map_option fst (ws_keys ws)"
    by (rule process_records_from_inv [OF assms(1-5) step start])
  then show ?thesis using rows assms(16) by (auto simp: I_def simp del: map_map)
qed

text \<open>
  C29: A query for a scalar member prints another value: the query's datum is the member already, and the
  handler of the result takes the member of it again.
\<close>

theorem csv_scalar_result_twice:
  fixes desc :: "addr \<Rightarrow> ('d, bytes) cpp_attr" and w :: "('d cpp_iterator, 'b) csv_world"
  assumes "csv_fmt csv = csv_format vd rd delim marker anon nl fk"
    and "hdql_attr_def_is_atomic ad" "hdql_attr_def_is_scalar ad" "csv_attr_ok ad"
    and "hdql_types_get_type types (ucast (the (hdql_attr_def_get_atomic_value_type_code ad))) = Some (Some vi)" "as_string vi = Some f"
    and "csv_root_handler compounds types as_string x ad c = Some (root, c')" "csv_rootObjectHandler csv = Some root"
    and "desc (ad_addr ad) = CppMember m" "no_oom (cw_ctx w)"
    and "csv_flatKeys csv = Some ks" "csv_key_values key_as_string nl key (flatKeyViews ks) (flatKeyIFaces ks) = Some kcols"
  shows "\<exists>w'. csv_results_handler_handle_record (\<lambda>a. cpp_iface (desc a)) key_as_string csv (Some (m d)) key w = Some (0, w') \<and>
    cw_dest w' = cw_dest w @ csv_line vd rd (kcols @ [f (m (m d))])"
proof -
  have root: "root = CSVAttrHandler x None ad (Some ScalarAtomicEntry) (PlString f)"
    using assms(2,3,5-7) by (auto simp: csv_root_handler_def)
  have flags: "\<not> hdql_attr_def_is_compound ad" "hdql_attr_def_top_attr ad = Some ad" "\<not> hdql_attr_def_is_collection ad" "\<not> ad_isCollection ad"
    using assms(2,3) compound_direct [of ad]
    by (auto simp: hdql_attr_def_is_atomic_def top_attr_direct hdql_attr_def_is_scalar_def hdql_attr_def_is_collection_def split: if_splits)
  have typed: "csv_root_typed root" using flags assms(2,4) by (simp add: root csv_root_typed_def)
  have placed: "csv_root_placed (\<lambda>a. cpp_iface (desc a) :: ('d, 'd cpp_iterator, 'b, bytes) ad_interface) (\<lambda>_. ad_addr ad) root"
    using flags by (simp add: root csv_root_placed_def csv_scalar_reset_def assms(9) member_iface_def)
  have inv: "csv_inv (\<lambda>_ _. True) (\<lambda>_ _. True) no_oom (\<lambda>_. ad_addr ad) w" using assms(10) by (simp add: csv_inv_def)
  have "csv_root_values (\<lambda>a. cpp_value (desc a)) (\<lambda>a. cpp_count (desc a)) nl (m d) root = Some [f (m (m d))]"
    using flags by (simp add: root csv_root_values_def assms(9))
  from cpp.record_line [OF assms(1,8,11,12) typed placed inv this] show ?thesis by blast
qed

section \<open>A sample\<close>

text \<open>A compound with a number, a container and a pointer to another compound.\<close>

definition csv_int_attr :: "addr \<Rightarrow> hdql_AttrDef" where
  "csv_int_attr a = AttrDef a True False False 0 False 0 (AdScalar (ScClient None)) DefNull None
     (TiAtomic \<lparr>at_isReadOnly = False, at_arithTypeCode = 513\<rparr>) None"

definition csv_raw_attr :: hdql_AttrDef where
  "csv_raw_attr = AttrDef 32 True True False 0 False 0 (AdCollection (CoClient (\<lambda>_ s c. ctx_free s c) None)) DefNull None
     (TiAtomic \<lparr>at_isReadOnly = False, at_arithTypeCode = 513\<rparr>) None"

definition csv_sub_attr :: hdql_AttrDef where
  "csv_sub_attr = AttrDef 33 False False False 0 False 0 (AdScalar (ScClient None)) DefNull None (TiCompound 8) None"

definition csv_hits_attr :: hdql_AttrDef where
  "csv_hits_attr = AttrDef 30 False True False 0 False 0 (AdCollection (CoClient (\<lambda>_ s c. ctx_free s c) None)) DefNull None (TiCompound 7) None"

text \<open>The names: \<open>n\<close>, \<open>r\<close>, \<open>p\<close>, and \<open>x\<close> in the second.\<close>

definition csv_compounds :: "addr \<Rightarrow> hdql_Compound option" where
  "csv_compounds = [7 \<mapsto> Compound 7 [72] None [([110], csv_int_attr 31), ([114], csv_raw_attr), ([112], csv_sub_attr)],
     8 \<mapsto> Compound 8 [80] None [([120], csv_int_attr 34)]]"

definition csv_types :: "unit types_table" where
  "csv_types = Types [(''int8_t'', 513)] [(513, \<lparr>ti_name = Some ''int8_t'', ti_size = 1, ti_init = None, ti_destroy = None, ti_ops = ()\<rparr>)]
     1 None None False"

definition csv_desc :: "addr \<Rightarrow> (nat, bytes) cpp_attr" where
  "csv_desc a = (if a = 32 then CppContainer (\<lambda>d. map (\<lambda>i. (i, [])) [0..<d - 40]) else if a = 33 then CppPointer (\<lambda>d. Some (d + 1)) else CppMember (\<lambda>d. 2 * d))"

definition csv_root :: "nat hdql_CSVAttrHandler" where
  "csv_root = CSVAttrHandler 1 None csv_hits_attr (Some ScalarCompoundEntry) (PlTier (Some 27)
     [CSVAttrHandler 20 (Some [110]) (csv_int_attr 31) (Some ScalarAtomicEntry) (PlString decimal),
      CSVAttrHandler 22 (Some [114]) csv_raw_attr (Some CollectionEntry) PlZero,
      CSVAttrHandler 24 (Some [112]) csv_sub_attr (Some ScalarCompoundEntry) (PlTier (Some 26)
        [CSVAttrHandler 25 (Some [120]) (csv_int_attr 34) (Some ScalarAtomicEntry) (PlString decimal)])])"

lemma expand_names_Nil: "expand_names compounds types as_string cp [] t c = Some (t, c)"
  by (simp add: expand_names.simps)

lemma expand_names_step:
  assumes "hdql_compound_get_attr cp name = Some ad" "ctx_alloc c = (Some ah, c1)" "hdql_attr_def_top_attr ad = Some tp"
    and "chosen_handler expand_names compounds types as_string ad tp c1 = Some (vh, pl, c2)"
    and "push_back_handler t (CSVAttrHandler ah (if name = [] then None else Some name) ad (Some vh) pl) c2 = Some (e, t', c3)"
  shows "expand_names compounds types as_string cp (name # names) t c = expand_names compounds types as_string cp names t' c3"
  by (subst expand_names.simps) (simp only: assms list.case prod.case option.case bind.bind_lunit chosen_handler_def [symmetric])

definition csv_heap :: "nat \<Rightarrow> nat set \<Rightarrow> hdql_Context" where
  "csv_heap n live = ctx_roomy\<lparr>cx_heap := \<lparr>hp_next = n, hp_live = live, hp_oom = (\<lambda>_. False)\<rparr>\<rparr>"

lemma csv_heap_alloc: "ctx_alloc (csv_heap n live) = (Some n, csv_heap (Suc n) (insert n live))"
  and csv_heap_free: "a \<in> live \<Longrightarrow> ctx_free (Some a) (csv_heap n live) = Some (csv_heap n (live - {a}))"
  by (simp_all add: csv_heap_def ctx_alloc_malloc heap_malloc_def ctx_free_def hdql_context_free_def heap_free_def)

lemmas csv_samples = csv_hits_attr_def csv_int_attr_def csv_raw_attr_def csv_sub_attr_def
lemmas csv_flags = hdql_attr_def_is_atomic_def hdql_attr_def_is_compound_def hdql_attr_def_is_collection_def hdql_attr_def_is_scalar_def

lemma csv_type_sample: "hdql_types_get_type csv_types 513 =
    Some (Some \<lparr>ti_name = Some ''int8_t'', ti_size = 1, ti_init = None, ti_destroy = None, ti_ops = ()\<rparr>)"
proof -
  have "get_tier_number (513 :: tcode) = 1" by code_simp
  then show ?thesis by (simp add: hdql_types_get_type_def csv_types_def)
qed

lemma expand_int: "chosen_handler expand_names compounds csv_types (\<lambda>_. Some decimal) (csv_int_attr a) (csv_int_attr a) c =
    Some (ScalarAtomicEntry, PlString decimal, c)"
  by (simp add: chosen_handler_def csv_samples csv_flags hdql_attr_def_get_atomic_value_type_code_def csv_type_sample)

lemma push_first: "push_back_handler (None, []) h (csv_heap n live) = Some (HDQL_ERR_CODE_OK, (Some n, [h]), csv_heap (Suc n) (insert n live))"
  by (simp add: push_back_handler_def csv_heap_alloc)

lemma push_more: "hs \<noteq> [] \<Longrightarrow> a \<in> live \<Longrightarrow> push_back_handler (Some a, hs) h (csv_heap n live) =
    Some (HDQL_ERR_CODE_OK, (Some n, hs @ [h]), csv_heap (Suc n) (insert n live - {a}))"
  by (simp add: push_back_handler_def csv_heap_alloc csv_heap_free)

lemma csv_root_sample: "\<exists>c'. csv_root_handler csv_compounds csv_types (\<lambda>_. Some decimal) 1 csv_hits_attr (csv_heap 20 {}) = Some (csv_root, c')"
proof -
  let ?hit = "Compound 7 [72] None [([110], csv_int_attr 31), ([114], csv_raw_attr), ([112], csv_sub_attr)]"
  let ?sub = "Compound 8 [80] None [([120], csv_int_attr 34)]"
  let ?ex = "expand_names csv_compounds csv_types (\<lambda>_. Some decimal)"
  have top: "hdql_attr_def_top_attr (csv_int_attr a) = Some (csv_int_attr a)" "hdql_attr_def_top_attr csv_raw_attr = Some csv_raw_attr"
    "hdql_attr_def_top_attr csv_sub_attr = Some csv_sub_attr" for a by (simp_all add: csv_samples)
  have sub: "?ex ?sub [[120]] (None, []) (csv_heap 25 live) = Some ((Some 26,
      [CSVAttrHandler 25 (Some [120]) (csv_int_attr 34) (Some ScalarAtomicEntry) (PlString decimal)]), csv_heap 27 (insert 26 (insert 25 live)))" for live
    by (subst expand_names_step [OF _ csv_heap_alloc top(1) expand_int push_first]) (simp_all add: expand_names_Nil)
  have raw: "chosen_handler expand_names csv_compounds csv_types (\<lambda>_. Some decimal) csv_raw_attr csv_raw_attr c = Some (CollectionEntry, PlZero :: nat csv_payload, c)" for c
    by (simp add: chosen_handler_def csv_samples csv_flags)
  have ptr: "chosen_handler expand_names csv_compounds csv_types (\<lambda>_. Some decimal) csv_sub_attr csv_sub_attr (csv_heap 25 live) = Some (ScalarCompoundEntry,
      PlTier (Some 26) [CSVAttrHandler 25 (Some [120]) (csv_int_attr 34) (Some ScalarAtomicEntry) (PlString decimal)], csv_heap 27 (insert 26 (insert 25 live)))" for live
    using sub [of live] by (simp add: chosen_handler_def csv_sub_attr_def csv_flags hdql_attr_def_compound_type_info_def csv_compounds_def)
  have "?ex ?hit [[110], [114], [112]] (None, []) (csv_heap 20 {}) = ?ex ?hit [[114], [112]] (Some 21,
      [CSVAttrHandler 20 (Some [110]) (csv_int_attr 31) (Some ScalarAtomicEntry) (PlString decimal)]) (csv_heap 22 {20, 21})"
    by (subst expand_names_step [OF _ csv_heap_alloc top(1) expand_int push_first]) (simp_all add: insert_commute)
  also have "\<dots> = ?ex ?hit [[112]] (Some 23,
      [CSVAttrHandler 20 (Some [110]) (csv_int_attr 31) (Some ScalarAtomicEntry) (PlString decimal),
       CSVAttrHandler 22 (Some [114]) csv_raw_attr (Some CollectionEntry) PlZero]) (csv_heap 24 {20, 22, 23})"
    by (subst expand_names_step [OF _ csv_heap_alloc top(2) raw push_more]) (simp_all add: insert_Diff_if insert_commute)
  also have "\<dots> = Some ((Some 27,
      [CSVAttrHandler 20 (Some [110]) (csv_int_attr 31) (Some ScalarAtomicEntry) (PlString decimal),
       CSVAttrHandler 22 (Some [114]) csv_raw_attr (Some CollectionEntry) PlZero,
       CSVAttrHandler 24 (Some [112]) csv_sub_attr (Some ScalarCompoundEntry) (PlTier (Some 26)
        [CSVAttrHandler 25 (Some [120]) (csv_int_attr 34) (Some ScalarAtomicEntry) (PlString decimal)])]),
      csv_heap 28 {20, 22, 24, 25, 26, 27})"
    by (subst expand_names_step [OF _ csv_heap_alloc [of 24, simplified] top(3) ptr push_more])
      (simp_all add: expand_names_Nil insert_Diff_if insert_commute)
  finally show ?thesis
    by (simp add: csv_root_handler_def csv_hits_attr_def csv_flags expand_scalar_compound_to_columns_def
      hdql_attr_def_compound_type_info_def csv_compounds_def csv_root_def)
qed

definition csv_sample :: "(nat, unit) hdql_CSVHandler" where
  "csv_sample = \<lparr>csv_addr = 2, csv_fmt = csv_format [44] [10] 46 [78] [118] [45] [107], csv_rootObjectHandler = Some csv_root,
     csv_flatKeys = Some \<lparr>flatKeyAddr = 3, flatKey = list_key [sample_key True], flatKeyViews = [[0]],
       flatKeyIFaces = [Some \<lparr>ti_name = None, ti_size = 1, ti_init = None, ti_destroy = None, ti_ops = ()\<rparr>]\<rparr>\<rparr>"

lemma csv_sample_ok: "csv_compounds_ok csv_compounds" "csv_attr_ok csv_hits_attr" "ah_payload csv_root \<noteq> PlZero"
proof -
  have "csv_attr_ok ad" if "ad \<in> {csv_int_attr 31, csv_raw_attr, csv_sub_attr, csv_int_attr 34, csv_hits_attr}" for ad
    using that by (auto simp: csv_attr_ok_def csv_samples)
  then show "csv_compounds_ok csv_compounds" "csv_attr_ok csv_hits_attr"
    by (auto simp: csv_compounds_ok_def csv_compounds_def split: if_splits)
qed (simp add: csv_root_def)

definition csv_start :: "(nat cpp_iterator, unit) csv_world" where
  "csv_start = \<lparr>cw_dynamicData = (\<lambda>_. None), cw_defs = (\<lambda>_. ()), cw_ctx = csv_heap 40 {}, cw_dest = [], cw_nColumnsPrinted = 0\<rparr>"

lemma csv_header_line_witness:
  "map_option cw_dest (csv_handler_finalize_schema (\<lambda>f n. f @ decimal n) csv_sample csv_start) =
     Some [107, 48, 44, 110, 44, 78, 114, 44, 112, 46, 120, 10]"
proof -
  obtain c' where root: "csv_root_handler csv_compounds csv_types (\<lambda>_. Some decimal) 1 csv_hits_attr (csv_heap 20 {}) = Some (csv_root, c')"
    using csv_root_sample by blast
  have names: "csv_key_names (\<lambda>f n. f @ decimal n) [107] (list_key [sample_key True]) 0 [[0]] = Some [[107, 48]]"
    by (simp add: list_key_def csv_key_name_def sample_key_def decimal.simps)
  have fmt: "csv_fmt csv_sample = csv_format [44] [10] 46 [78] [118] [45] [107]" by (simp add: csv_sample_def)
  have "csv_root_names 46 [78] [118] csv_root = [[110], [78, 114], [112, 46, 120]]"
    by (simp add: csv_root_names_def csv_root_def csv_hits_attr_def csv_flags path_name_def shown_name_def)
  then show ?thesis
    using csv_header_line [OF fmt root _ csv_sample_ok, of _ "\<lambda>f n. f @ decimal n" "[[107, 48]]" csv_start] names
    by (auto simp: csv_sample_def csv_line_def csv_start_def)
qed

definition csv_show_key :: "unit type_interface \<Rightarrow> (bytes option \<Rightarrow> bytes) option" where
  "csv_show_key vi = Some (\<lambda>b. map ((+) 48) (case b of None \<Rightarrow> [] | Some x \<Rightarrow> x))"

definition csv_workspace ::
  "(nat, nat cpp_iterator, unit, (nat, unit) hdql_CSVHandler \<times> (nat cpp_iterator, unit) csv_world) hdql_QueryResultsWorkspace" where
  "csv_workspace = \<lparr>ws_addr = 3, ws_q = [sample_query () stl_sample],
     ws_iqr = \<lparr>qr_userdata = (csv_sample, csv_start), qr_handle_result_type = None, qr_handle_keys = None, qr_finalize_schema = None,
       qr_handle_record = Some (csv_callback (\<lambda>a. cpp_iface (csv_desc a)) csv_show_key)\<rparr>,
     ws_keys = Some (4, list_key [sample_key True]), ws_flatKeyViewLength = 1, ws_kv = None\<rparr>"

lemma csv_table_witness:
  "\<exists>ws' c' w'. hdql_query_results_process_records_from (Some 4) csv_workspace ctx_roomy = Some (HDQL_ERR_CODE_OK, ws', c') \<and>
    qr_userdata (ws_iqr ws') = (csv_sample, w') \<and>
    cw_dest w' = concat (map (csv_line [44] [10])
      [[[48], [56, 48], [48], [56, 50]], [[49], [56, 50], [49], [56, 52]], [[50], [56, 52], [50], [56, 54]]])"
proof -
  let ?L = "container_level stl_sample (\<lambda>i. i) sample_contents (\<lambda>_ _. True) (\<lambda>_. True) None"
  let ?ls = "[(?L, Some (sample_key True))]"
  have I: "container_interface stl_sample (\<lambda>i. i) sample_contents (\<lambda>_ _. True) (\<lambda>_. True) None"
    by (rule stl_container) (simp_all add: sample_nonnull)
  have k: "datum_key (sample_key True)" by (simp add: sample_key_def key_types)
  have valid: "chain_valid no_oom ?ls (ws_q csv_workspace) [Some (sample_key True)]"
    using container_interface.klevel [OF I k] container_interface.fresh_query [OF I, of "sample_query () stl_sample"]
    by (simp add: chain_valid_def kshape_def csv_workspace_def sample_query_def)
  have keys: "keys_are (map_option snd (ws_keys csv_workspace)) [Some (sample_key True)]"
    by (simp add: csv_workspace_def list_key_facts(1) [of "[sample_key True]", simplified])
  have c: "no_oom ctx_roomy" by (simp add: ctx_roomy_def no_oom_def)
  have d: "Some 4 = None \<longrightarrow> lv_null (fst (hd ?ls))" by simp
  have ws: "qr_handle_record (ws_iqr csv_workspace) = Some (csv_callback (\<lambda>a. cpp_iface (csv_desc a)) csv_show_key)"
    "qr_userdata (ws_iqr csv_workspace) = (csv_sample, csv_start)" by (simp_all add: csv_workspace_def)
  have room: "no_oom (cw_ctx csv_start)" by (simp add: csv_start_def csv_heap_def no_oom_def)
  have fmt: "csv_fmt csv_sample = csv_format [44] [10] 46 [78] [118] [45] [107]" "csv_rootObjectHandler csv_sample = Some csv_root"
    by (simp_all add: csv_sample_def)
  obtain c' where root: "csv_root_handler csv_compounds csv_types (\<lambda>_. Some decimal) 1 csv_hits_attr (csv_heap 20 {}) = Some (csv_root, c')"
    using csv_root_sample by blast
  let ?owner = "(\<lambda>_. 0)(20 := 31, 22 := 32, 24 := 33, 25 := 34) :: addr \<Rightarrow> addr"
  have placed: "csv_root_placed (\<lambda>a. cpp_iface (csv_desc a) :: (nat, nat cpp_iterator, unit, bytes) ad_interface) ?owner csv_root"
    by (simp add: csv_root_placed_def csv_root_def csv_samples csv_flags csv_desc_def)
  obtain ks where ks: "csv_flatKeys csv_sample = Some ks" "flatKeyViews ks = [[0]]" by (simp add: csv_sample_def)
  have outs: "map (seen ?ls (map_option snd (ws_keys csv_workspace))) (chain_outs ?ls (Some 4)) =
      map (\<lambda>j. (40 + j, Some (list_key [key_fill [of_nat j] (sample_key True)]))) [0, 1, 2]"
    by (simp add: chain_simps elements_def sample_contents_def upto_3 csv_workspace_def list_key_facts)
  have rows: "those (map (csv_columns csv_show_key csv_desc [45] csv_sample)
      (map (seen ?ls (map_option snd (ws_keys csv_workspace))) (chain_outs ?ls (Some 4)))) =
    Some [[[48], [56, 48], [48], [56, 50]], [[49], [56, 50], [49], [56, 52]], [[50], [56, 52], [50], [56, 54]]]"
    unfolding outs by (simp add: csv_columns_def csv_sample_def csv_root_def csv_root_values_def csv_samples csv_flags csv_desc_def
      csv_show_key_def list_key_def sample_key_def key_fill_def hdql_key_datum_get_def key_types decimal.simps)
  from csv_table [where ls = ?ls and delim = 46, OF valid keys c d ws room fmt(1) root fmt(2) csv_sample_ok placed ks(1) rows]
  show ?thesis by (fastforce simp: csv_start_def)
qed

text \<open>The member is twice the owner: of 5 the query yields 10, and 20 is printed.\<close>

lemma csv_scalar_result_twice_witness:
  "\<exists>root c' w'. csv_root_handler csv_compounds csv_types (\<lambda>_. Some decimal) 1 (csv_int_attr 31) (csv_heap 20 {}) = Some (root, c') \<and>
    csv_results_handler_handle_record (\<lambda>a. cpp_iface (csv_desc a)) csv_show_key (csv_sample\<lparr>csv_rootObjectHandler := Some root\<rparr>)
      (Some 10) (list_key [sample_key True]) csv_start = Some (0, w') \<and>
    cw_dest w' = [48, 44, 50, 48, 10]"
proof -
  let ?ad = "csv_int_attr 31"
  let ?root = "CSVAttrHandler 1 None ?ad (Some ScalarAtomicEntry) (PlString decimal)"
  let ?csv = "csv_sample\<lparr>csv_rootObjectHandler := Some ?root\<rparr>"
  have root: "csv_root_handler csv_compounds csv_types (\<lambda>_. Some decimal) 1 ?ad (csv_heap 20 {}) = Some (?root, csv_heap 20 {})"
    by (simp add: csv_root_handler_def csv_samples csv_flags hdql_attr_def_get_atomic_value_type_code_def csv_type_sample)
  have ad: "hdql_attr_def_is_atomic ?ad" "hdql_attr_def_is_scalar ?ad" "csv_attr_ok ?ad"
    by (simp_all add: csv_attr_ok_def csv_samples csv_flags)
  have vi: "hdql_types_get_type csv_types (ucast (the (hdql_attr_def_get_atomic_value_type_code ?ad))) =
      Some (Some \<lparr>ti_name = Some ''int8_t'', ti_size = 1, ti_init = None, ti_destroy = None, ti_ops = ()\<rparr>)"
    by (simp add: csv_samples csv_flags hdql_attr_def_get_atomic_value_type_code_def csv_type_sample)
  have fmt: "csv_fmt ?csv = csv_format [44] [10] 46 [78] [118] [45] [107]" "csv_rootObjectHandler ?csv = Some ?root"
    by (simp_all add: csv_sample_def)
  have shown: "(\<lambda>_. Some decimal) \<lparr>ti_name = Some ''int8_t'', ti_size = 1, ti_init = None, ti_destroy = None, ti_ops = ()\<rparr> = Some decimal"
    by simp
  have desc: "csv_desc (ad_addr ?ad) = CppMember ((*) 2)" by (simp add: csv_desc_def csv_samples)
  have room: "no_oom (cw_ctx csv_start)" by (simp add: csv_start_def csv_heap_def no_oom_def)
  obtain ks where ks: "csv_flatKeys ?csv = Some ks" "flatKeyViews ks = [[0]]" "length (flatKeyIFaces ks) = 1" by (simp add: csv_sample_def)
  then obtain vi' where "flatKeyIFaces ks = [Some vi']" by (auto simp: csv_sample_def)
  then have keys: "csv_key_values csv_show_key [45] (list_key [sample_key True]) (flatKeyViews ks) (flatKeyIFaces ks) = Some [[48]]"
    by (simp add: ks(2) csv_show_key_def list_key_def sample_key_def hdql_key_datum_get_def key_types)
  obtain w' where "csv_results_handler_handle_record (\<lambda>a. cpp_iface (csv_desc a)) csv_show_key ?csv (Some (2 * 5))
      (list_key [sample_key True]) csv_start = Some (0, w')" "cw_dest w' = cw_dest csv_start @ csv_line [44] [10] ([[48]] @ [decimal (2 * (2 * 5))])"
    using csv_scalar_result_twice [where d = "5 :: nat" and desc = csv_desc and as_string = "\<lambda>_ :: unit type_interface. Some decimal" and w = csv_start, OF fmt(1) ad vi shown root fmt(2) desc room ks(1) keys] by auto
  then show ?thesis using root by (fastforce simp: csv_start_def csv_line_def decimal.simps)
qed

end
