(* ===== verification/CppQuery.thy ===== *)
theory CppQuery
  imports Results Compound Converters
begin

text \<open>
  The C++ interface of queries (\<open>include/hdql/helpers/query.hh\<close>, \<open>helpers/query.cc\<close>): a compiled query as an
  object, and the cursors that lock it while they go through its results. A call may throw: it gives an
  exception or a value, and in both cases the objects as it leaves them. Texts made by \<open>snprintf\<close> are
  kept as their formats. Objects are in stores by their address.

  Parameters: \<open>cxa_demangle\<close> of the C++ library, the compiler of expressions \<open>compile\<close>, the compound
  behind a pointer \<open>compound_at\<close>, and what converters do, \<open>convert\<close>.
\<close>

section \<open>Queries\<close>

datatype cpp_exception = RuntimeError string | HDQLError string | NoQueryTarget
  | HDQLExpressionError bytes string
  | HDQLCompileError (ce_expression: bytes) (ce_reason: bytes) (ce_errCode: int)
      (ce_lineStart: int) (ce_lineEnd: int) (ce_charStart: int) (ce_charEnd: int)

type_synonym type_info = string

record ('d, 's, 'a, 'i, 'f) cpp_Query =
  cq_cCursor :: "addr option"
  cq_resultConversionsCache :: "(type_info \<times> 'f option \<times> addr option) list"
  cq_isSet :: bool
  cq_ownContext :: hdql_Context
  cq_types :: "'i types_table"
  cq_conversions :: "'f hdql_Converters"
  cq_rootCompound :: hdql_Compound
  cq_query :: "('d, 's, 'a, bytes) hdql_Query list"
  cq_links :: "q_link list"
  cq_keys :: "(addr \<times> bytes hdql_Key) option"
  cq_topAttrDef :: hdql_AttrDef
  cq_kv :: "addr option"
  cq_compounds :: "type_info \<rightharpoonup> hdql_Compound"
  cq_r :: "'d option"

text \<open>
  The constructor, for an own context \<open>c\<close> with its tables. \<open>compile\<close> gives the query (its chain and its
  links) or null, the text of the error, its code, the first line and column, the last line and column.
  When the constructor throws nothing is released: the context is returned as it is left behind.
\<close>

definition Query_new ::
  "(bytes \<Rightarrow> hdql_Compound \<Rightarrow> hdql_Context \<Rightarrow>
     (('d, 's, 'a, bytes) hdql_Query list \<times> q_link list) option \<times> bytes \<times> (int \<times> int \<times> int \<times> int \<times> int) \<times> hdql_Context) \<Rightarrow>
   'i types_table \<Rightarrow> 'f hdql_Converters \<Rightarrow> bytes \<Rightarrow> hdql_Compound \<Rightarrow> (type_info \<rightharpoonup> hdql_Compound) \<Rightarrow> bool \<Rightarrow> hdql_Context \<Rightarrow>
   ((cpp_exception + ('d, 's, 'a, 'i, 'f) cpp_Query) \<times> hdql_Context) option"
where
  "Query_new compile types cnvs expression rootCompound compounds keysNeeded c =
     (let (q, errBuf, (rc, line1, col1, line2, col2), c) = compile expression rootCompound c in
      if rc \<noteq> HDQL_ERR_CODE_OK then Some (Inl (HDQLCompileError expression errBuf rc line1 line2 col1 col2), c)
      else do {
        (qs, links) \<leftarrow> q;
        ad \<leftarrow> hdql_query_top_attr links;
        let this = \<lparr>cq_cCursor = None, cq_resultConversionsCache = [], cq_isSet = False, cq_ownContext = c,
          cq_types = types, cq_conversions = cnvs, cq_rootCompound = rootCompound, cq_query = qs, cq_links = links,
          cq_keys = None, cq_topAttrDef = ad, cq_kv = None, cq_compounds = compounds, cq_r = None\<rparr>;
        if \<not> keysNeeded then Some (Inr this, c)
        else do {
          (k, c) \<leftarrow> hdql_key_new c;
          (rc, key, c) \<leftarrow> hdql_key_reserve_for_query links (snd k) c;
          if rc \<noteq> HDQL_ERR_CODE_OK
          then Some (Inl (HDQLExpressionError expression ''Failed to reserve keys for HDQL query result; returns code is %d: %s.''), c)
          else do {
            n \<leftarrow> hdql_key_flat_view_size key;
            let (kv, h) = (if n \<noteq> 0 then heap_malloc (cx_heap c) else (None, cx_heap c));
            let c = c\<lparr>cx_heap := h\<rparr>;
            _ \<leftarrow> hdql_key_flat_view_populate key (if kv = None then [] else replicate n None);
            Some (Inr (this\<lparr>cq_ownContext := c, cq_keys := Some (fst k, key), cq_kv := kv\<rparr>), c) } } })"

text \<open>
  The destructor, as far as the memory of the query goes: what \<open>hdql_context_destroy\<close> releases is the
  context's own. The buffers of conversions are given back to the context that is destroyed already,
  which is harmless, as \<open>hdql_context_free\<close> does not look at it.
\<close>

fun free_buffers :: "(type_info \<times> 'f option \<times> addr option) list \<Rightarrow> hdql_Context \<Rightarrow> hdql_Context option" where
  "free_buffers [] c = Some c"
| "free_buffers ((t, f, b) # ps) c = do { c \<leftarrow> ctx_free b c; free_buffers ps c }"

definition Query_delete :: "('d, 's, 'a, 'i, 'f) cpp_Query \<Rightarrow> hdql_Context option" where
  "Query_delete q = do {
     let c = cq_ownContext q;
     c \<leftarrow> (case cq_keys q of None \<Rightarrow> Some c | Some k \<Rightarrow> map_option snd (hdql_key_destroy k c));
     h \<leftarrow> heap_free (cq_kv q) (cx_heap c);
     c \<leftarrow> hdql_query_destroy (cq_links q) (c\<lparr>cx_heap := h\<rparr>);
     free_buffers (cq_resultConversionsCache q) c }"

definition is_atomic :: "('d, 's, 'a, 'i, 'f) cpp_Query \<Rightarrow> bool" where
  "is_atomic q = hdql_attr_def_is_atomic (cq_topAttrDef q)"

definition is_compound :: "('d, 's, 'a, 'i, 'f) cpp_Query \<Rightarrow> bool" where
  "is_compound q = hdql_attr_def_is_compound (cq_topAttrDef q)"

definition is_scalar :: "('d, 's, 'a, 'i, 'f) cpp_Query \<Rightarrow> bool" where
  "is_scalar q = hdql_attr_def_is_scalar (cq_topAttrDef q)"

definition is_collection :: "('d, 's, 'a, 'i, 'f) cpp_Query \<Rightarrow> bool" where
  "is_collection q = hdql_attr_def_is_collection (cq_topAttrDef q)"

definition is_static_const_value :: "('d, 's, 'a, 'i, 'f) cpp_Query \<Rightarrow> bool" where
  "is_static_const_value q = hdql_attr_def_is_static_const_value (cq_topAttrDef q)"

definition is_transient :: "('d, 's, 'a, 'i, 'f) cpp_Query \<Rightarrow> bool" where
  "is_transient q = hdql_attr_def_is_transient (cq_topAttrDef q)"

definition keys_depth :: "('d, 's, 'a, 'i, 'f) cpp_Query \<Rightarrow> nat option" where
  "keys_depth q = hdql_query_depth (cq_links q)"

definition query_keys :: "('d, 's, 'a, 'i, 'f) cpp_Query \<Rightarrow> bytes hdql_Key option" where
  "query_keys q = map_option snd (cq_keys q)"

definition query_attr_def :: "('d, 's, 'a, 'i, 'f) cpp_Query \<Rightarrow> hdql_AttrDef option" where
  "query_attr_def q = hdql_query_top_attr (cq_links q)"

text \<open>The state the cursors drive.\<close>

definition put_key :: "bytes hdql_Key option \<Rightarrow> ('d, 's, 'a, 'i, 'f) cpp_Query \<Rightarrow> ('d, 's, 'a, 'i, 'f) cpp_Query" where
  "put_key key q = q\<lparr>cq_keys := (case cq_keys q of None \<Rightarrow> None | Some (a, k) \<Rightarrow> map_option (Pair a) key)\<rparr>"

definition hdql_context_has_errors :: "hdql_Context \<Rightarrow> bool" where
  "hdql_context_has_errors c \<longleftrightarrow> cx_errors c \<noteq> []"

definition is_available :: "('d, 's, 'a, 'i, 'f) cpp_Query \<Rightarrow> bool" where
  "is_available q \<longleftrightarrow> cq_isSet q \<and> cq_r q \<noteq> None"

definition query_next :: "('d, 's, 'a, 'i, 'f) cpp_Query \<Rightarrow> ((cpp_exception + unit) \<times> ('d, 's, 'a, 'i, 'f) cpp_Query) option" where
  "query_next q = do {
     c_assert (cq_query q \<noteq> []);
     if \<not> cq_isSet q then Some (Inl NoQueryTarget, q)
     else do {
       (r, qs, key, c) \<leftarrow> hdql_query_get (cq_query q) (query_keys q) (cq_ownContext q);
       Some (Inr (), (put_key key q)\<lparr>cq_query := qs, cq_ownContext := c, cq_r := r\<rparr>) } }"

definition get_unsafe :: "('d, 's, 'a, 'i, 'f) cpp_Query \<Rightarrow> 'd option" where
  "get_unsafe q = do { c_assert (is_available q); cq_r q }"

definition reset_subject_instance ::
  "'d \<Rightarrow> ('d, 's, 'a, 'i, 'f) cpp_Query \<Rightarrow> ((cpp_exception + unit) \<times> ('d, 's, 'a, 'i, 'f) cpp_Query) option" where
  "reset_subject_instance item q = do {
     (r, qs, key, c) \<leftarrow> hdql_query_reset (cq_query q) (Some item) (query_keys q) (cq_ownContext q);
     let q = (put_key key q)\<lparr>cq_query := qs, cq_ownContext := c, cq_r := r\<rparr>;
     if hdql_context_has_errors c then Some (Inl (RuntimeError ''hdql_query_reset() failed''), q)
     else Some (Inr (), q\<lparr>cq_isSet := True\<rparr>) }"

definition is_same_as_root_compound_type :: "('d, 's, 'a, 'i, 'f) cpp_Query \<Rightarrow> hdql_Compound \<Rightarrow> bool" where
  "is_same_as_root_compound_type q tgt = hdql_compound_is_same (cq_rootCompound q) tgt"

definition verify_root_compound_type :: "('d, 's, 'a, 'i, 'f) cpp_Query \<Rightarrow> type_info \<Rightarrow> 'd \<Rightarrow> cpp_exception + 'd" where
  "verify_root_compound_type q t rootObject = (case cq_compounds q t of
     None \<Rightarrow> Inl (HDQLError ''Unknown root compound type.'')
   | Some cp \<Rightarrow>
       if is_same_as_root_compound_type q cp then Inr rootObject
       else Inl (HDQLError ''Compound conversion is not yet supported.''))"

section \<open>Conversions of the results\<close>

text \<open>
  \<open>hdql_cxx_demangle\<close> with a buffer of \<open>buflen\<close> bytes: a name that is too long ends in dots, one that is
  too long by its terminator only loses its last character. A memory block is lost with each exception.
\<close>

definition hdql_cxx_demangle :: "(type_info \<Rightarrow> string + int) \<Rightarrow> type_info \<Rightarrow> nat \<Rightarrow> (cpp_exception + string) option" where
  "hdql_cxx_demangle cxa_demangle mangled buflen = do {
     c_assert (buflen > 4);
     case cxa_demangle mangled of
       Inr status \<Rightarrow>
         if status = -1 then Some (Inl (RuntimeError ''Memory allocation error during demangling.''))
         else if status = -2 then Some (Inl (RuntimeError ''Name \"%s\" is not a valid name under C++ ABI mangling rules.''))
         else if status = -3 then Some (Inl (RuntimeError ''__cxa_demangle() got invalid arguments.''))
         else None
     | Inl r \<Rightarrow> Some (Inr (if length r > buflen then take (buflen - 4) r @ ''...'' else take (buflen - 1) r)) }"

text \<open>
  The converter to a type is the entry of the type in the cache, made on the first call; a null pointer
  says that there is nothing to convert. The entry is found by its type. An unknown compound type is not
  reported: \<open>end()\<close> is dereferenced.
\<close>

definition compound_converter ::
  "(addr \<Rightarrow> hdql_Compound option) \<Rightarrow> type_info \<Rightarrow> ('d, 's, 'a, 'i, 'f) cpp_Query \<Rightarrow>
   ((cpp_exception + type_info option) \<times> ('d, 's, 'a, 'i, 'f) cpp_Query) option"
where
  "compound_converter compound_at t q = do {
     a \<leftarrow> hdql_attr_def_compound_type_info (cq_topAttrDef q);
     a \<leftarrow> a;
     src \<leftarrow> compound_at a;
     dst \<leftarrow> cq_compounds q t;
     if hdql_compound_is_virtual src \<noteq> 0 \<or> hdql_compound_is_virtual dst \<noteq> 0
     then Some (Inl (RuntimeError ''Conversion to/from virtual compound type (%s -> %s) is not supported by HDQLang C++ wrapper yet.''), q)
     else if cp_addr src \<noteq> cp_addr dst
     then Some (Inl (RuntimeError ''Conversion between compound types (%s -> %s) is not supported by HDQLang yet.''), q)
     else Some (Inr (Some t), q\<lparr>cq_resultConversionsCache := (t, None, None) # cq_resultConversionsCache q\<rparr>) }"

definition atomic_converter ::
  "(type_info \<Rightarrow> string + int) \<Rightarrow> type_info \<Rightarrow> ('d, 's, 'a, 'i, 'f) cpp_Query \<Rightarrow>
   ((cpp_exception + type_info option) \<times> ('d, 's, 'a, 'i, 'f) cpp_Query) option"
where
  "atomic_converter cxa_demangle t q = do {
     name \<leftarrow> hdql_cxx_demangle cxa_demangle t 64;
     case name of
       Inl e \<Rightarrow> Some (Inl e, q)
     | Inr name \<Rightarrow> do {
         let destTypeCode = hdql_types_get_type_code (cq_types q) name;
         if destTypeCode = 0
         then Some (Inl (RuntimeError ''Atomic type of conversion target \"%s\" is not registered within HDQLang context (%p) in use.''), q)
         else do {
           tc \<leftarrow> hdql_attr_def_get_atomic_value_type_code (cq_topAttrDef q);
           c_assert (tc \<noteq> 0);
           let srcTypeCode = ucast tc;
           if destTypeCode = srcTypeCode then Some (Inr None, q)
           else do {
             (cv, cnvs) \<leftarrow> hdql_converters_get (cq_conversions q) destTypeCode srcTypeCode;
             let q = q\<lparr>cq_conversions := cnvs\<rparr>;
             dest \<leftarrow> hdql_types_get_type (cq_types q) destTypeCode;
             dest \<leftarrow> dest;
             case cv of
               None \<Rightarrow> do {
                 src \<leftarrow> hdql_types_get_type (cq_types q) srcTypeCode;
                 _ \<leftarrow> src;
                 Some (Inl (RuntimeError ''No conversion defined for case %s (%u) -> %s (%u)''), q) }
             | Some f \<Rightarrow>
                 (case ctx_alloc (cq_ownContext q) of
                    (None, c) \<Rightarrow> Some (Inl (RuntimeError
                      ''Context failed to allocate buffer of size %zub for conversion destination of type %s''), q\<lparr>cq_ownContext := c\<rparr>)
                  | (Some b, c) \<Rightarrow> Some (Inr (Some t), q\<lparr>cq_ownContext := c,
                      cq_resultConversionsCache := (t, Some f, Some b) # cq_resultConversionsCache q\<rparr>)) } } } }"

definition get_converter_to ::
  "(addr \<Rightarrow> hdql_Compound option) \<Rightarrow> (type_info \<Rightarrow> string + int) \<Rightarrow> type_info \<Rightarrow> ('d, 's, 'a, 'i, 'f) cpp_Query \<Rightarrow>
   ((cpp_exception + type_info option) \<times> ('d, 's, 'a, 'i, 'f) cpp_Query) option"
where
  "get_converter_to compound_at cxa_demangle t q =
     (if map_of (cq_resultConversionsCache q) t \<noteq> None then Some (Inr (Some t), q)
      else if is_compound q then compound_converter compound_at t q
      else atomic_converter cxa_demangle t q)"

text \<open>
  A call of the converter of an entry: the function and the buffer must be there. What it returns is kept
  beside what the buffer then holds.
\<close>

definition call_converter ::
  "('f \<Rightarrow> 'd \<Rightarrow> int \<times> 'd) \<Rightarrow> (type_info \<times> 'f option \<times> addr option) list \<Rightarrow> type_info \<Rightarrow> 'd option \<Rightarrow> (int \<times> 'd) option"
where
  "call_converter convert cache t r = do {
     (f, b) \<leftarrow> map_of cache t;
     f \<leftarrow> f;
     _ \<leftarrow> b;
     r \<leftarrow> r;
     Some (convert f r) }"

definition get_as ::
  "(addr \<Rightarrow> hdql_Compound option) \<Rightarrow> (type_info \<Rightarrow> string + int) \<Rightarrow> ('f \<Rightarrow> 'd \<Rightarrow> int \<times> 'd) \<Rightarrow> type_info \<Rightarrow>
   ('d, 's, 'a, 'i, 'f) cpp_Query \<Rightarrow> ((cpp_exception + 'd) \<times> ('d, 's, 'a, 'i, 'f) cpp_Query) option"
where
  "get_as compound_at cxa_demangle convert t q = do {
     (cnv, q) \<leftarrow> get_converter_to compound_at cxa_demangle t q;
     case cnv of
       Inl e \<Rightarrow> Some (Inl e, q)
     | Inr None \<Rightarrow> do { r \<leftarrow> cq_r q; Some (Inr r, q) }
     | Inr (Some t) \<Rightarrow> do {
         (rc, v) \<leftarrow> call_converter convert (cq_resultConversionsCache q) t (cq_r q);
         Some (Inr v, q) } }"

section \<open>Names\<close>

text \<open>
  The loop over the names of the attributes ends at a null pointer, which the array does not have: it
  goes on behind the last name.
\<close>

partial_function (option) collect_names_recursive ::
  "(addr \<Rightarrow> hdql_Compound option) \<Rightarrow> byte \<Rightarrow> bytes \<Rightarrow> hdql_Compound \<Rightarrow> bytes list \<Rightarrow> bytes list \<Rightarrow> (cpp_exception + bytes list) option"
where
  "collect_names_recursive compound_at delim prefix cp attrNames result = (case attrNames of
     [] \<Rightarrow> None
   | attrName # attrNames \<Rightarrow>
       if attrName = [] then collect_names_recursive compound_at delim prefix cp attrNames result
       else Option.bind (hdql_compound_get_attr cp attrName) (\<lambda>attr.
         let fullName = (if prefix = [] then attrName else prefix @ delim # attrName) in
         if hdql_attr_def_is_compound attr then
           if delim = 0 then Some (Inl (HDQLError ''Nested compound found in disabled recusion mode.''))
           else Option.bind (hdql_attr_def_compound_type_info attr) (\<lambda>sub. case sub of
               None \<Rightarrow> Some (Inl (HDQLError ''Failed to get nested compound info for: ''))
             | Some a \<Rightarrow> Option.bind (compound_at a) (\<lambda>sub.
                 Option.bind (collect_names_recursive compound_at delim fullName sub (hdql_compound_get_attr_names sub) result)
                   (\<lambda>r. case r of Inl e \<Rightarrow> Some (Inl e)
                      | Inr result \<Rightarrow> collect_names_recursive compound_at delim prefix cp attrNames result)))
         else collect_names_recursive compound_at delim prefix cp attrNames (result @ [fullName])))"

definition query_names ::
  "(addr \<Rightarrow> hdql_Compound option) \<Rightarrow> byte \<Rightarrow> ('d, 's, 'a, 'i, 'f) cpp_Query \<Rightarrow> (cpp_exception + bytes list) option"
where
  "query_names compound_at recurseDelimiter q =
     (if \<not> is_compound q then Some (Inl (HDQLError ''Query result is not of compound type.''))
      else do {
        a \<leftarrow> hdql_attr_def_compound_type_info (cq_topAttrDef q);
        a \<leftarrow> a;
        cp \<leftarrow> compound_at a;
        collect_names_recursive compound_at recurseDelimiter [] cp (hdql_compound_get_attr_names cp) [] })"

fun type_names :: "'i types_table \<Rightarrow> bytes hdql_Key \<Rightarrow> nat list option list \<Rightarrow> string list \<Rightarrow> (cpp_exception + string list) option" where
  "type_names types key [] names = Some (Inr names)"
| "type_names types key (view # kv) names = do {
     p \<leftarrow> view;
     k \<leftarrow> key_at key p;
     tc \<leftarrow> hdql_key_datum_get_type_code k;
     i \<leftarrow> hdql_types_get_type types (ucast tc);
     i \<leftarrow> i;
     case ti_name i of
       None \<Rightarrow> Some (Inl (HDQLError ''Key name retrieval failed (null name returned)''))
     | Some name \<Rightarrow> type_names types key kv (names @ [name]) }"

definition key_type_names :: "('d, 's, 'a, 'i, 'f) cpp_Query \<Rightarrow> (cpp_exception + string list) option" where
  "key_type_names q = (case query_keys q of
     None \<Rightarrow> Some (Inl (HDQLError ''Query does not expose keys (perhaps keysNeeded=false)''))
   | Some key \<Rightarrow> do {
       nKeys \<leftarrow> hdql_key_flat_view_size key;
       (_, kv) \<leftarrow> hdql_key_flat_view_populate key (replicate nKeys None);
       type_names (cq_types q) key kv [] })"

section \<open>Cursors\<close>

text \<open>
  A cursor points to the query it is bound to, a typed one also to an entry of the cache of the query it
  was made by.
\<close>

record cpp_cursor =
  cu_typed :: bool
  cu_qPtr :: "addr option"
  cu_converter :: "(addr \<times> type_info) option"

record ('d, 's, 'a, 'i, 'f) cpp_world =
  w_queries :: "addr \<rightharpoonup> ('d, 's, 'a, 'i, 'f) cpp_Query"
  w_cursors :: "addr \<rightharpoonup> cpp_cursor"

definition put_query :: "addr \<Rightarrow> ('d, 's, 'a, 'i, 'f) cpp_Query \<Rightarrow> ('d, 's, 'a, 'i, 'f) cpp_world \<Rightarrow> ('d, 's, 'a, 'i, 'f) cpp_world" where
  "put_query qa q w = w\<lparr>w_queries := (w_queries w)(qa \<mapsto> q)\<rparr>"

definition put_cursor :: "addr \<Rightarrow> cpp_cursor \<Rightarrow> ('d, 's, 'a, 'i, 'f) cpp_world \<Rightarrow> ('d, 's, 'a, 'i, 'f) cpp_world" where
  "put_cursor ca u w = w\<lparr>w_cursors := (w_cursors w)(ca \<mapsto> u)\<rparr>"

definition drop_cursor :: "addr \<Rightarrow> ('d, 's, 'a, 'i, 'f) cpp_world \<Rightarrow> ('d, 's, 'a, 'i, 'f) cpp_world" where
  "drop_cursor ca w = w\<lparr>w_cursors := (w_cursors w)(ca := None)\<rparr>"

definition lock_by ::
  "addr \<Rightarrow> addr \<Rightarrow> ('d, 's, 'a, 'i, 'f) cpp_world \<Rightarrow> ((cpp_exception + unit) \<times> ('d, 's, 'a, 'i, 'f) cpp_world) option" where
  "lock_by qa ca w = do {
     q \<leftarrow> w_queries w qa;
     if cq_cCursor q \<noteq> None then Some (Inl (RuntimeError ''concurrent lock (TODO: dedicated error class)''), w)
     else Some (Inr (), put_query qa (q\<lparr>cq_cCursor := Some ca\<rparr>) w) }"

definition unlock :: "addr \<Rightarrow> addr \<Rightarrow> ('d, 's, 'a, 'i, 'f) cpp_world \<Rightarrow> ('d, 's, 'a, 'i, 'f) cpp_world option" where
  "unlock qa ca w = do {
     q \<leftarrow> w_queries w qa;
     c_assert (cq_cCursor q \<noteq> None);
     c_assert (cq_cCursor q = Some ca);
     Some (put_query qa (q\<lparr>cq_cCursor := None\<rparr>) w) }"

definition cursor_bind ::
  "addr \<Rightarrow> addr \<Rightarrow> ('d, 's, 'a, 'i, 'f) cpp_world \<Rightarrow> ((cpp_exception + unit) \<times> ('d, 's, 'a, 'i, 'f) cpp_world) option" where
  "cursor_bind qa ca w = do {
     u \<leftarrow> w_cursors w ca;
     c_assert (cu_qPtr u = None);
     (r, w) \<leftarrow> lock_by qa ca w;
     case r of
       Inl e \<Rightarrow> Some (Inl e, w)
     | Inr _ \<Rightarrow> Some (Inr (), put_cursor ca (u\<lparr>cu_qPtr := Some qa\<rparr>) w) }"

definition cursor_unbind :: "addr \<Rightarrow> ('d, 's, 'a, 'i, 'f) cpp_world \<Rightarrow> ('d, 's, 'a, 'i, 'f) cpp_world option" where
  "cursor_unbind ca w = do {
     u \<leftarrow> w_cursors w ca;
     qa \<leftarrow> cu_qPtr u;
     w \<leftarrow> unlock qa ca w;
     Some (put_cursor ca (u\<lparr>cu_qPtr := None\<rparr>) w) }"

definition query_instance :: "addr \<Rightarrow> ('d, 's, 'a, 'i, 'f) cpp_world \<Rightarrow> (addr \<times> ('d, 's, 'a, 'i, 'f) cpp_Query) option" where
  "query_instance ca w = do {
     u \<leftarrow> w_cursors w ca;
     qa \<leftarrow> cu_qPtr u;
     q \<leftarrow> w_queries w qa;
     Some (qa, q) }"

text \<open>A call of a method of the query a cursor is bound to.\<close>

definition on_query ::
  "(('d, 's, 'a, 'i, 'f) cpp_Query \<Rightarrow> ((cpp_exception + 'r) \<times> ('d, 's, 'a, 'i, 'f) cpp_Query) option) \<Rightarrow> addr \<Rightarrow>
   ('d, 's, 'a, 'i, 'f) cpp_world \<Rightarrow> ((cpp_exception + 'r) \<times> ('d, 's, 'a, 'i, 'f) cpp_world) option"
where
  "on_query f ca w = do {
     (qa, q) \<leftarrow> query_instance ca w;
     (r, q) \<leftarrow> f q;
     Some (r, put_query qa q w) }"

definition cursor_reset ::
  "type_info \<Rightarrow> 'd \<Rightarrow> addr \<Rightarrow> ('d, 's, 'a, 'i, 'f) cpp_world \<Rightarrow> ((cpp_exception + unit) \<times> ('d, 's, 'a, 'i, 'f) cpp_world) option" where
  "cursor_reset t rootObject = on_query (\<lambda>q. case verify_root_compound_type q t rootObject of
     Inl e \<Rightarrow> Some (Inl e, q)
   | Inr d \<Rightarrow> reset_subject_instance d q)"

text \<open>
  The generic cursor. \<open>new_cursor\<close> is the part of the base class. An exception in the body of the second
  constructor is thrown after the first one has returned: the destructor runs. One in the first
  constructor leaves no cursor.
\<close>

definition new_cursor :: "bool \<Rightarrow> (addr \<times> type_info) option \<Rightarrow> addr \<Rightarrow> ('d, 's, 'a, 'i, 'f) cpp_world \<Rightarrow> ('d, 's, 'a, 'i, 'f) cpp_world" where
  "new_cursor typed cnv ca w = put_cursor ca \<lparr>cu_typed = typed, cu_qPtr = None, cu_converter = cnv\<rparr> w"

definition GenericQueryCursor_new ::
  "addr \<Rightarrow> addr \<Rightarrow> ('d, 's, 'a, 'i, 'f) cpp_world \<Rightarrow> ((cpp_exception + unit) \<times> ('d, 's, 'a, 'i, 'f) cpp_world) option" where
  "GenericQueryCursor_new qa ca w = do {
     (r, w) \<leftarrow> cursor_bind qa ca (new_cursor False None ca w);
     case r of
       Inl e \<Rightarrow> Some (Inl e, drop_cursor ca w)
     | Inr _ \<Rightarrow> Some (Inr (), w) }"

definition GenericQueryCursor_delete :: "addr \<Rightarrow> ('d, 's, 'a, 'i, 'f) cpp_world \<Rightarrow> ('d, 's, 'a, 'i, 'f) cpp_world option" where
  "GenericQueryCursor_delete ca w = do { w \<leftarrow> cursor_unbind ca w; Some (drop_cursor ca w) }"

definition generic_cursor_on ::
  "type_info \<Rightarrow> 'd \<Rightarrow> addr \<Rightarrow> addr \<Rightarrow> ('d, 's, 'a, 'i, 'f) cpp_world \<Rightarrow>
   ((cpp_exception + unit) \<times> ('d, 's, 'a, 'i, 'f) cpp_world) option"
where
  "generic_cursor_on t rootObject qa ca w = do {
     (r, w) \<leftarrow> GenericQueryCursor_new qa ca w;
     case r of
       Inl e \<Rightarrow> Some (Inl e, w)
     | Inr _ \<Rightarrow> do {
         (r, w) \<leftarrow> cursor_reset t rootObject ca w;
         case r of
           Inl e \<Rightarrow> do { w \<leftarrow> GenericQueryCursor_delete ca w; Some (Inl e, w) }
         | Inr _ \<Rightarrow> Some (Inr (), w) } }"

definition generic_bool :: "addr \<Rightarrow> ('d, 's, 'a, 'i, 'f) cpp_world \<Rightarrow> bool option" where
  "generic_bool ca w = do { (_, q) \<leftarrow> query_instance ca w; Some (is_available q) }"

definition generic_next ::
  "addr \<Rightarrow> ('d, 's, 'a, 'i, 'f) cpp_world \<Rightarrow> ((cpp_exception + unit) \<times> ('d, 's, 'a, 'i, 'f) cpp_world) option" where
  "generic_next = on_query query_next"

definition generic_get :: "addr \<Rightarrow> ('d, 's, 'a, 'i, 'f) cpp_world \<Rightarrow> 'd option" where
  "generic_get ca w = do { (_, q) \<leftarrow> query_instance ca w; get_unsafe q }"

definition generic_get_as ::
  "(addr \<Rightarrow> hdql_Compound option) \<Rightarrow> (type_info \<Rightarrow> string + int) \<Rightarrow> ('f \<Rightarrow> 'd \<Rightarrow> int \<times> 'd) \<Rightarrow> type_info \<Rightarrow> addr \<Rightarrow>
   ('d, 's, 'a, 'i, 'f) cpp_world \<Rightarrow> ((cpp_exception + 'd) \<times> ('d, 's, 'a, 'i, 'f) cpp_world) option"
where
  "generic_get_as compound_at cxa_demangle convert t = on_query (get_as compound_at cxa_demangle convert t)"

text \<open>
  The copy constructor the compiler declares for a generic cursor (that of a typed one is deleted) and the
  assignment it declares for both: what is in the cursor is copied, the lock neither taken nor released.
\<close>

definition GenericQueryCursor_copy ::
  "addr \<Rightarrow> addr \<Rightarrow> ('d, 's, 'a, 'i, 'f) cpp_world \<Rightarrow> ('d, 's, 'a, 'i, 'f) cpp_world option" where
  "GenericQueryCursor_copy ca cb w = do {
     u \<leftarrow> w_cursors w ca;
     Some (put_cursor cb u w) }"

definition cursor_assign ::
  "addr \<Rightarrow> addr \<Rightarrow> ('d, 's, 'a, 'i, 'f) cpp_world \<Rightarrow> ('d, 's, 'a, 'i, 'f) cpp_world option" where
  "cursor_assign ca cb w = do {
     u \<leftarrow> w_cursors w ca;
     v \<leftarrow> w_cursors w cb;
     c_assert (cu_typed u = cu_typed v);
     Some (put_cursor cb u w) }"

text \<open>The typed cursor.\<close>

definition QueryCursor_bind ::
  "addr \<Rightarrow> addr \<Rightarrow> ('d, 's, 'a, 'i, 'f) cpp_world \<Rightarrow> ((cpp_exception + unit) \<times> ('d, 's, 'a, 'i, 'f) cpp_world) option" where
  "QueryCursor_bind qa ca w = cursor_bind qa ca w"

definition QueryCursor_unbind :: "addr \<Rightarrow> ('d, 's, 'a, 'i, 'f) cpp_world \<Rightarrow> ('d, 's, 'a, 'i, 'f) cpp_world option" where
  "QueryCursor_unbind ca w = cursor_unbind ca w"

definition QueryCursor_new ::
  "(addr \<times> type_info) option \<Rightarrow> addr \<Rightarrow> addr \<Rightarrow> ('d, 's, 'a, 'i, 'f) cpp_world \<Rightarrow>
   ((cpp_exception + unit) \<times> ('d, 's, 'a, 'i, 'f) cpp_world) option"
where
  "QueryCursor_new cnv qa ca w = do {
     (r, w) \<leftarrow> QueryCursor_bind qa ca (new_cursor True cnv ca w);
     case r of
       Inl e \<Rightarrow> Some (Inl e, drop_cursor ca w)
     | Inr _ \<Rightarrow> Some (Inr (), w) }"

definition QueryCursor_delete :: "addr \<Rightarrow> ('d, 's, 'a, 'i, 'f) cpp_world \<Rightarrow> ('d, 's, 'a, 'i, 'f) cpp_world option" where
  "QueryCursor_delete ca w = do {
     u \<leftarrow> w_cursors w ca;
     w \<leftarrow> (if cu_qPtr u \<noteq> None then cursor_unbind ca w else Some w);
     Some (drop_cursor ca w) }"

text \<open>
  \<open>cursor\<close>, which is said to leave the query alone, and \<open>cursor_on\<close>: the converter first, then the
  constructor.
\<close>

definition query_cursor ::
  "(addr \<Rightarrow> hdql_Compound option) \<Rightarrow> (type_info \<Rightarrow> string + int) \<Rightarrow> type_info \<Rightarrow> addr \<Rightarrow> addr \<Rightarrow>
   ('d, 's, 'a, 'i, 'f) cpp_world \<Rightarrow> ((cpp_exception + unit) \<times> ('d, 's, 'a, 'i, 'f) cpp_world) option"
where
  "query_cursor compound_at cxa_demangle t qa ca w = do {
     q \<leftarrow> w_queries w qa;
     (cnv, q) \<leftarrow> get_converter_to compound_at cxa_demangle t q;
     let w = put_query qa q w;
     case cnv of
       Inl e \<Rightarrow> Some (Inl e, w)
     | Inr cnv \<Rightarrow> QueryCursor_new (map_option (Pair qa) cnv) qa ca w }"

definition cursor_on ::
  "(addr \<Rightarrow> hdql_Compound option) \<Rightarrow> (type_info \<Rightarrow> string + int) \<Rightarrow> type_info \<Rightarrow> type_info \<Rightarrow> 'd \<Rightarrow> addr \<Rightarrow> addr \<Rightarrow>
   ('d, 's, 'a, 'i, 'f) cpp_world \<Rightarrow> ((cpp_exception + unit) \<times> ('d, 's, 'a, 'i, 'f) cpp_world) option"
where
  "cursor_on compound_at cxa_demangle t rootT rootObject qa ca w = do {
     (r, w) \<leftarrow> query_cursor compound_at cxa_demangle t qa ca w;
     case r of
       Inl e \<Rightarrow> Some (Inl e, w)
     | Inr _ \<Rightarrow> do {
         (r, w) \<leftarrow> cursor_reset rootT rootObject ca w;
         case r of
           Inl e \<Rightarrow> do { w \<leftarrow> QueryCursor_delete ca w; Some (Inl e, w) }
         | Inr _ \<Rightarrow> Some (Inr (), w) } }"

definition cursor_bool :: "addr \<Rightarrow> ('d, 's, 'a, 'i, 'f) cpp_world \<Rightarrow> bool option" where
  "cursor_bool ca w = do {
     u \<leftarrow> w_cursors w ca;
     if cu_qPtr u = None then Some False
     else do { (_, q) \<leftarrow> query_instance ca w; Some (is_available q) } }"

definition cursor_next ::
  "addr \<Rightarrow> ('d, 's, 'a, 'i, 'f) cpp_world \<Rightarrow> ((cpp_exception + unit) \<times> ('d, 's, 'a, 'i, 'f) cpp_world) option" where
  "cursor_next ca w = do {
     u \<leftarrow> w_cursors w ca;
     if cu_qPtr u = None
     then Some (Inl (RuntimeError ''Can't advance statically typed cursor instance because it is not bound to a query.''), w)
     else on_query query_next ca w }"

definition cursor_get ::
  "('f \<Rightarrow> 'd \<Rightarrow> int \<times> 'd) \<Rightarrow> addr \<Rightarrow> ('d, 's, 'a, 'i, 'f) cpp_world \<Rightarrow> (cpp_exception + 'd) option" where
  "cursor_get convert ca w = do {
     u \<leftarrow> w_cursors w ca;
     if cu_qPtr u = None
     then Some (Inl (RuntimeError ''Can't obtain data from statically typed cursor instance because it is not bound to a query.''))
     else do {
       (_, q) \<leftarrow> query_instance ca w;
       case cu_converter u of
         None \<Rightarrow> do { r \<leftarrow> cq_r q; Some (Inr r) }
       | Some (made_by, t) \<Rightarrow> do {
           made \<leftarrow> w_queries w made_by;
           (rc, v) \<leftarrow> call_converter convert (cq_resultConversionsCache made) t (cq_r q);
           if rc \<noteq> 0 then Some (Inl (RuntimeError ''Value conversion failed with error code %d'')) else Some (Inr v) } } }"

section \<open>Locks\<close>

text \<open>What a cursor is bound to is what is locked by it; a generic cursor is always bound.\<close>

definition locked_by :: "('d, 's, 'a, 'i, 'f) cpp_world \<Rightarrow> addr \<Rightarrow> addr option" where
  "locked_by w qa = Option.bind (w_queries w qa) cq_cCursor"

definition bound_to :: "('d, 's, 'a, 'i, 'f) cpp_world \<Rightarrow> addr \<Rightarrow> addr option" where
  "bound_to w ca = Option.bind (w_cursors w ca) cu_qPtr"

definition generics_bound :: "(addr \<rightharpoonup> cpp_cursor) \<Rightarrow> bool" where
  "generics_bound cs \<longleftrightarrow> (\<forall>ca u. cs ca = Some u \<longrightarrow> \<not> cu_typed u \<longrightarrow> cu_qPtr u \<noteq> None)"

definition locks_ok :: "('d, 's, 'a, 'i, 'f) cpp_world \<Rightarrow> bool" where
  "locks_ok w \<longleftrightarrow> (\<forall>qa ca. locked_by w qa = Some ca \<longleftrightarrow> bound_to w ca = Some qa) \<and> generics_bound (w_cursors w)"

lemma put_simps [simp]:
  "w_queries (put_query qa q w) = (w_queries w)(qa \<mapsto> q)" "w_cursors (put_query qa q w) = w_cursors w"
  "w_queries (put_cursor ca u w) = w_queries w" "w_cursors (put_cursor ca u w) = (w_cursors w)(ca \<mapsto> u)"
  "w_queries (drop_cursor ca w) = w_queries w" "w_cursors (drop_cursor ca w) = (w_cursors w)(ca := None)"
  by (simp_all add: put_query_def put_cursor_def drop_cursor_def)

lemma lock_simps [simp]:
  "locked_by (put_query qa q w) = (locked_by w)(qa := cq_cCursor q)" "bound_to (put_query qa q w) = bound_to w"
  "locked_by (put_cursor ca u w) = locked_by w" "bound_to (put_cursor ca u w) = (bound_to w)(ca := cu_qPtr u)"
  "locked_by (drop_cursor ca w) = locked_by w" "bound_to (drop_cursor ca w) = (bound_to w)(ca := None)"
  by (auto simp: locked_by_def bound_to_def)

lemma generics_simps [simp]:
  "cu_typed u \<or> cu_qPtr u \<noteq> None \<Longrightarrow> generics_bound cs \<Longrightarrow> generics_bound (cs(ca \<mapsto> u))"
  "generics_bound cs \<Longrightarrow> generics_bound (cs(ca := None))"
  by (auto simp: generics_bound_def)

text \<open>Calls that leave the lock of the query alone.\<close>

lemma locks_put_query:
  assumes "locks_ok w" "w_queries w qa = Some q" "cq_cCursor q' = cq_cCursor q"
  shows "locks_ok (put_query qa q' w)"
proof -
  have "(locked_by w)(qa := cq_cCursor q') = locked_by w" using assms(2,3) by (auto simp: locked_by_def)
  then show ?thesis using assms(1) by (simp add: locks_ok_def)
qed

lemma put_key_lock [simp]: "cq_cCursor (put_key key q) = cq_cCursor q"
  by (simp add: put_key_def)

lemma next_lock: "query_next q = Some (r, q') \<Longrightarrow> cq_cCursor q' = cq_cCursor q"
  by (auto simp: query_next_def split: bind_splits if_splits)

lemma reset_lock: "reset_subject_instance d q = Some (r, q') \<Longrightarrow> cq_cCursor q' = cq_cCursor q"
  by (auto simp: reset_subject_instance_def Let_def split: bind_splits if_splits)

lemma compound_converter_lock: "compound_converter cat t q = Some (r, q') \<Longrightarrow> cq_cCursor q' = cq_cCursor q"
  by (auto simp: compound_converter_def split: bind_split_asm if_split_asm)

lemma atomic_converter_lock:
  assumes "atomic_converter cxa t q = Some (r, q')"
  shows "cq_cCursor q' = cq_cCursor q"
proof -
  obtain y where y: "hdql_cxx_demangle cxa t 64 = Some y" using assms by (auto simp: atomic_converter_def split: bind_split_asm)
  show ?thesis
    by (cases y) (use assms in \<open>auto simp: atomic_converter_def y Let_def split: bind_split_asm if_split_asm option.split_asm prod.split_asm\<close>)
qed

lemma converter_lock: "get_converter_to cat cxa t q = Some (r, q') \<Longrightarrow> cq_cCursor q' = cq_cCursor q"
  by (auto simp: get_converter_to_def compound_converter_lock atomic_converter_lock split: if_split_asm)

lemma get_as_lock: "get_as cat cxa convert t q = Some (r, q') \<Longrightarrow> cq_cCursor q' = cq_cCursor q"
  by (auto simp: get_as_def converter_lock split: bind_splits sum.splits option.splits)

lemma locks_on_query:
  assumes "on_query f ca w = Some (r, w')" "locks_ok w" "\<And>q r q'. f q = Some (r, q') \<Longrightarrow> cq_cCursor q' = cq_cCursor q"
  shows "locks_ok w'"
  using assms(1,2) by (auto simp: on_query_def query_instance_def split: bind_splits intro!: locks_put_query dest: assms(3))

lemma locks_reset: "cursor_reset t d ca w = Some (r, w') \<Longrightarrow> locks_ok w \<Longrightarrow> locks_ok w'"
  unfolding cursor_reset_def by (erule locks_on_query) (auto split: sum.splits dest: reset_lock)

lemma locks_next: "on_query query_next ca w = Some (r, w') \<Longrightarrow> locks_ok w \<Longrightarrow> locks_ok w'"
  by (erule locks_on_query) (auto dest: next_lock)

lemma locks_get: "generic_get_as cat cxa convert t ca w = Some (r, w') \<Longrightarrow> locks_ok w \<Longrightarrow> locks_ok w'"
  unfolding generic_get_as_def by (erule locks_on_query) (auto dest: get_as_lock)

text \<open>Binding a cursor that is not bound, and releasing one that is.\<close>

lemma cursor_bind_cases:
  assumes "cursor_bind qa ca w = Some (r, w')"
  obtains u q where "w_cursors w ca = Some u" "cu_qPtr u = None" "w_queries w qa = Some q" "cq_cCursor q = None" "r = Inr ()"
      "w' = put_cursor ca (u\<lparr>cu_qPtr := Some qa\<rparr>) (put_query qa (q\<lparr>cq_cCursor := Some ca\<rparr>) w)"
  | (locked) u q e where "w_cursors w ca = Some u" "cu_qPtr u = None" "w_queries w qa = Some q" "cq_cCursor q \<noteq> None"
      "r = Inl e" "w' = w"
  using assms that by (auto simp: cursor_bind_def lock_by_def split: bind_splits if_splits sum.splits)

lemma locks_bind:
  assumes "cursor_bind qa ca w = Some (r, w')" "\<forall>qa ca. locked_by w qa = Some ca \<longleftrightarrow> bound_to w ca = Some qa"
  shows "\<forall>qa ca. locked_by w' qa = Some ca \<longleftrightarrow> bound_to w' ca = Some qa"
  using assms(1)
proof (cases rule: cursor_bind_cases)
  case (1 u q)
  have free: "locked_by w qa = None" "bound_to w ca = None" using 1 by (simp_all add: locked_by_def bound_to_def)
  have "bound_to w ca' \<noteq> Some qa" for ca' using spec [OF spec [OF assms(2), of qa], of ca'] free by simp
  moreover have "locked_by w qa' \<noteq> Some ca" for qa' using spec [OF spec [OF assms(2), of qa'], of ca] free by simp
  ultimately have "bound_to w ca' \<noteq> Some qa" "locked_by w qa' \<noteq> Some ca" for ca' qa' by blast+
  then show ?thesis using assms(2) by (auto simp: 1(6))
qed (use assms(2) in simp)

lemma locks_bind_typed: "cursor_bind qa ca w = Some (r, w') \<Longrightarrow> locks_ok w \<Longrightarrow> locks_ok w'"
  using locks_bind [of qa ca w r w'] by (auto simp: locks_ok_def elim: cursor_bind_cases)

lemma drop_new_cursor: "w_cursors w ca = None \<Longrightarrow> drop_cursor ca (new_cursor typed cnv ca w) = w"
  by (simp add: drop_cursor_def new_cursor_def put_cursor_def fun_upd_idem)

lemma locks_bind_new:
  assumes b: "cursor_bind qa ca (new_cursor typed cnv ca w) = Some (r, w')" and ok: "locks_ok w" and ca: "w_cursors w ca = None"
  shows "case r of Inl e \<Rightarrow> drop_cursor ca w' = w | Inr _ \<Rightarrow> locks_ok w'"
proof -
  let ?w = "new_cursor typed cnv ca w"
  have "bound_to w ca = None" by (simp add: bound_to_def ca)
  then have "\<forall>qa ca. locked_by ?w qa = Some ca \<longleftrightarrow> bound_to ?w ca = Some qa"
    using ok by (auto simp: locks_ok_def new_cursor_def)
  note inv = locks_bind [OF b this]
  from b show ?thesis
  proof (cases rule: cursor_bind_cases)
    case (1 u q)
    then show ?thesis using inv ok by (simp add: locks_ok_def) (simp add: new_cursor_def)
  next
    case (locked u q e)
    then show ?thesis using drop_new_cursor [OF ca] by simp
  qed
qed

lemma locks_new:
  "GenericQueryCursor_new qa ca w = Some (r, w') \<Longrightarrow> locks_ok w \<Longrightarrow> w_cursors w ca = None \<Longrightarrow> locks_ok w'"
  "QueryCursor_new cnv qa ca w = Some (r, w') \<Longrightarrow> locks_ok w \<Longrightarrow> w_cursors w ca = None \<Longrightarrow> locks_ok w'"
proof -
  have new: "locks_ok w'"
    if "do { (r, w) \<leftarrow> cursor_bind qa ca (new_cursor typed cnv ca w); case r of Inl e \<Rightarrow> Some (Inl e, drop_cursor ca w) | Inr _ \<Rightarrow> Some (Inr (), w) } = Some (r, w')"
      "locks_ok w" "w_cursors w ca = None" for typed cnv
  proof -
    note new = that
    obtain r0 w0 where b: "cursor_bind qa ca (new_cursor typed cnv ca w) = Some (r0, w0)"
      using new(1) by (auto simp: bind_eq_Some_conv)
    show ?thesis using locks_bind_new [OF b new(2,3)] new(1,2) by (cases r0) (auto simp: b)
  qed
  show "GenericQueryCursor_new qa ca w = Some (r, w') \<Longrightarrow> locks_ok w \<Longrightarrow> w_cursors w ca = None \<Longrightarrow> locks_ok w'"
    "QueryCursor_new cnv qa ca w = Some (r, w') \<Longrightarrow> locks_ok w \<Longrightarrow> w_cursors w ca = None \<Longrightarrow> locks_ok w'"
    unfolding GenericQueryCursor_new_def QueryCursor_new_def QueryCursor_bind_def by (rule new; assumption)+
qed

lemma locks_unbind:
  assumes u: "cursor_unbind ca w = Some w'" and ok: "locks_ok w"
  shows "locks_ok (drop_cursor ca w')" "w_cursors w ca = Some u \<Longrightarrow> cu_typed u \<Longrightarrow> locks_ok w'"
proof -
  obtain u' qa q where w': "w_cursors w ca = Some u'" "cu_qPtr u' = Some qa" "w_queries w qa = Some q" "cq_cCursor q = Some ca"
    "w' = put_cursor ca (u'\<lparr>cu_qPtr := None\<rparr>) (put_query qa (q\<lparr>cq_cCursor := None\<rparr>) w)"
    using u by (auto simp: cursor_unbind_def unlock_def split: bind_splits if_splits)
  have "locked_by w qa = Some ca" by (simp add: locked_by_def w')
  then have only: "bound_to w ca' = Some qa \<Longrightarrow> ca' = ca" "locked_by w qa' = Some ca \<Longrightarrow> qa' = qa" for ca' qa'
    using ok by (metis locks_ok_def option.inject)+
  then have eq: "\<forall>qa ca. locked_by w' qa = Some ca \<longleftrightarrow> bound_to w' ca = Some qa"
    using ok by (auto simp: locks_ok_def w'(5))
  show "locks_ok (drop_cursor ca w')" using eq ok by (auto simp: locks_ok_def w'(5))
  show "w_cursors w ca = Some u \<Longrightarrow> cu_typed u \<Longrightarrow> locks_ok w'" using eq ok w'(1) by (simp add: locks_ok_def) (simp add: w'(5))
qed

lemma unbind_bound:
  assumes "locks_ok w" "w_cursors w ca = Some u" "cu_qPtr u = Some qa"
  shows "\<exists>w'. cursor_unbind ca w = Some w'"
proof -
  have "bound_to w ca = Some qa" by (simp add: bound_to_def assms)
  then have "locked_by w qa = Some ca" using assms(1) by (simp add: locks_ok_def)
  then show ?thesis by (auto simp: locked_by_def bind_eq_Some_conv cursor_unbind_def unlock_def assms)
qed

lemma locks_delete:
  "GenericQueryCursor_delete ca w = Some w' \<Longrightarrow> locks_ok w \<Longrightarrow> locks_ok w'"
  "QueryCursor_delete ca w = Some w' \<Longrightarrow> locks_ok w \<Longrightarrow> locks_ok w'"
proof -
  show "GenericQueryCursor_delete ca w = Some w' \<Longrightarrow> locks_ok w \<Longrightarrow> locks_ok w'"
    by (auto simp: GenericQueryCursor_delete_def split: bind_splits intro: locks_unbind(1))
  assume d: "QueryCursor_delete ca w = Some w'" and ok: "locks_ok w"
  obtain u where u: "w_cursors w ca = Some u" using d by (auto simp: QueryCursor_delete_def split: bind_splits)
  show "locks_ok w'"
  proof (cases "cu_qPtr u")
    case None
    have "(bound_to w)(ca := None) = bound_to w" using None u by (auto simp: bound_to_def)
    moreover have "w' = drop_cursor ca w" using d u None by (simp add: QueryCursor_delete_def)
    ultimately show ?thesis using ok by (simp add: locks_ok_def)
  next
    case (Some qa)
    then show ?thesis using d u ok by (auto simp: QueryCursor_delete_def split: bind_splits intro: locks_unbind(1))
  qed
qed

text \<open>
  Everything a client can do with queries and cursors but copy or assign a cursor and destroy a query that
  has one: each method, whether it returns or throws, with what the compiler, the context and the converters
  give being anything. A query is destroyed when no cursor is bound to it, a cursor is made where there is none.
\<close>

inductive client_step :: "('d, 's, 'a, 'i, 'f) cpp_world \<Rightarrow> ('d, 's, 'a, 'i, 'f) cpp_world \<Rightarrow> bool" where
  query_new: "w_queries w qa = None \<Longrightarrow> Query_new compile types cnvs expression root compounds keysNeeded c = Some (Inr q, c') \<Longrightarrow>
    client_step w (put_query qa q w)"
| query_delete: "w_queries w qa = Some q \<Longrightarrow> cq_cCursor q = None \<Longrightarrow>
    client_step w (w\<lparr>w_queries := (w_queries w)(qa := None)\<rparr>)"
| generic_on: "w_cursors w ca = None \<Longrightarrow> generic_cursor_on t d qa ca w = Some (r, w') \<Longrightarrow> client_step w w'"
| typed: "w_cursors w ca = None \<Longrightarrow> query_cursor compound_at cxa_demangle t qa ca w = Some (r, w') \<Longrightarrow> client_step w w'"
| typed_on: "w_cursors w ca = None \<Longrightarrow> cursor_on compound_at cxa_demangle t rootT d qa ca w = Some (r, w') \<Longrightarrow> client_step w w'"
| bind_to: "w_cursors w ca = Some u \<Longrightarrow> cu_typed u \<Longrightarrow> QueryCursor_bind qa ca w = Some (r, w') \<Longrightarrow> client_step w w'"
| unbind: "w_cursors w ca = Some u \<Longrightarrow> cu_typed u \<Longrightarrow> QueryCursor_unbind ca w = Some w' \<Longrightarrow> client_step w w'"
| reset: "cursor_reset t d ca w = Some (r, w') \<Longrightarrow> client_step w w'"
| generic_next: "generic_next ca w = Some (r, w') \<Longrightarrow> client_step w w'"
| typed_next: "cursor_next ca w = Some (r, w') \<Longrightarrow> client_step w w'"
| get_as: "generic_get_as compound_at cxa_demangle convert t ca w = Some (r', w') \<Longrightarrow> client_step w w'"
| generic_delete: "w_cursors w ca = Some u \<Longrightarrow> \<not> cu_typed u \<Longrightarrow> GenericQueryCursor_delete ca w = Some w' \<Longrightarrow> client_step w w'"
| typed_delete: "w_cursors w ca = Some u \<Longrightarrow> cu_typed u \<Longrightarrow> QueryCursor_delete ca w = Some w' \<Longrightarrow> client_step w w'"

inductive client_reach :: "('d, 's, 'a, 'i, 'f) cpp_world \<Rightarrow> bool" where
  start: "client_reach \<lparr>w_queries = Map.empty, w_cursors = Map.empty\<rparr>"
| more_calls: "client_reach w \<Longrightarrow> client_step w w' \<Longrightarrow> client_reach w'"

text \<open>Each step keeps the locks.\<close>

lemma new_query_free: "Query_new compile types cnvs e root cps b c = Some (Inr q, c') \<Longrightarrow> cq_cCursor q = None"
  by (auto simp: Query_new_def Let_def split_beta bind_eq_Some_conv split: if_split_asm)

lemma locks_query_cursor:
  assumes "query_cursor cat cxa t qa ca w = Some (r, w')" "locks_ok w" "w_cursors w ca = None"
  shows "locks_ok w'"
proof -
  obtain q cnv q' where q: "w_queries w qa = Some q" "get_converter_to cat cxa t q = Some (cnv, q')"
    using assms(1) by (auto simp: query_cursor_def bind_eq_Some_conv)
  have ok: "locks_ok (put_query qa q' w)" by (rule locks_put_query [OF assms(2) q(1) converter_lock [OF q(2)]])
  show ?thesis
    by (cases cnv) (use assms(1,3) ok in \<open>auto simp: query_cursor_def q intro: locks_new(2)\<close>)
qed

lemma locks_cursor_on:
  assumes "cursor_on cat cxa t rt d qa ca w = Some (r, w')" "locks_ok w" "w_cursors w ca = None"
  shows "locks_ok w'"
proof -
  obtain r1 w1 where w1: "query_cursor cat cxa t qa ca w = Some (r1, w1)" using assms(1) by (auto simp: cursor_on_def bind_eq_Some_conv)
  note ok = locks_query_cursor [OF w1 assms(2,3)]
  show ?thesis
  proof (cases r1)
    case (Inr x)
    then obtain r2 w2 where w2: "cursor_reset rt d ca w1 = Some (r2, w2)" using assms(1) by (auto simp: cursor_on_def w1 bind_eq_Some_conv)
    show ?thesis
      by (cases r2) (use locks_reset [OF w2 ok] assms(1) in \<open>auto simp: cursor_on_def w1 w2 Inr bind_eq_Some_conv intro: locks_delete\<close>)
  qed (use assms(1) ok in \<open>simp add: cursor_on_def w1\<close>)
qed

lemma locks_generic_on:
  assumes "generic_cursor_on t d qa ca w = Some (r, w')" "locks_ok w" "w_cursors w ca = None"
  shows "locks_ok w'"
proof -
  obtain r1 w1 where w1: "GenericQueryCursor_new qa ca w = Some (r1, w1)" using assms(1) by (auto simp: generic_cursor_on_def bind_eq_Some_conv)
  note ok = locks_new(1) [OF w1 assms(2,3)]
  show ?thesis
  proof (cases r1)
    case (Inr x)
    then obtain r2 w2 where w2: "cursor_reset t d ca w1 = Some (r2, w2)" using assms(1) by (auto simp: generic_cursor_on_def w1 bind_eq_Some_conv)
    show ?thesis
      by (cases r2) (use locks_reset [OF w2 ok] assms(1) in \<open>auto simp: generic_cursor_on_def w1 w2 Inr bind_eq_Some_conv intro: locks_delete\<close>)
  qed (use assms(1) ok in \<open>simp add: generic_cursor_on_def w1\<close>)
qed

lemma locks_new_query:
  assumes "locks_ok w" "w_queries w qa = None" "cq_cCursor q = None"
  shows "locks_ok (put_query qa q w)"
proof -
  have "(locked_by w)(qa := None) = locked_by w" using assms(2) by (auto simp: locked_by_def)
  then show ?thesis using assms(1,3) by (simp add: locks_ok_def)
qed

lemma locks_query_delete:
  assumes "locks_ok w" "w_queries w qa = Some q" "cq_cCursor q = None"
  shows "locks_ok (w\<lparr>w_queries := (w_queries w)(qa := None)\<rparr>)"
proof -
  have "locked_by (w\<lparr>w_queries := (w_queries w)(qa := None)\<rparr>) = locked_by w"
    "bound_to (w\<lparr>w_queries := (w_queries w)(qa := None)\<rparr>) = bound_to w"
    using assms(2,3) by (auto simp: locked_by_def bound_to_def)
  then show ?thesis using assms(1) by (simp add: locks_ok_def)
qed

lemma client_step_locks: "client_step w w' \<Longrightarrow> locks_ok w \<Longrightarrow> locks_ok w'"
proof (induction rule: client_step.induct)
  case (typed_next ca w r w')
  then show ?case by (auto simp: cursor_next_def locks_next split: bind_split_asm if_split_asm)
qed (auto simp: QueryCursor_bind_def QueryCursor_unbind_def generic_next_def
    intro: locks_new_query locks_query_delete locks_generic_on locks_query_cursor locks_cursor_on
      locks_bind_typed locks_unbind(2) locks_reset locks_next locks_get locks_delete dest: new_query_free)

lemma client_reach_locks: "client_reach w \<Longrightarrow> locks_ok w"
proof (induction rule: client_reach.induct)
  case start
  show ?case by (simp add: locks_ok_def locked_by_def bound_to_def generics_bound_def)
qed (rule client_step_locks)

end
