(* ===== verification/CppCursors.thy ===== *)
theory CppCursors
  imports CppQuery
begin

text \<open>
  What the cursors of the C++ interface promise: one cursor at a time on a query, the results of the chain in its
  order, values of the type asked for; and what they do not: compound results can not be read, nor named.
\<close>

section \<open>One cursor at a time\<close>

lemma locks_owner: "client_reach w \<Longrightarrow> bound_to w ca = Some qa \<longleftrightarrow> locked_by w qa = Some ca"
  using client_reach_locks [of w] by (auto simp: locks_ok_def)

lemma delete_returns:
  assumes "client_reach w" "w_cursors w ca = Some u"
  shows "\<exists>w'. (if cu_typed u then QueryCursor_delete ca w else GenericQueryCursor_delete ca w) = Some w'"
proof (cases "cu_qPtr u")
  case None
  then have "cu_typed u" using client_reach_locks [OF assms(1)] assms(2) unfolding locks_ok_def generics_bound_def by fastforce
  then show ?thesis using None assms(2) by (simp add: QueryCursor_delete_def)
next
  case (Some qa)
  obtain w' where "cursor_unbind ca w = Some w'" using unbind_bound [OF client_reach_locks [OF assms(1)] assms(2) Some] by blast
  then show ?thesis using assms(2) Some by (simp add: QueryCursor_delete_def GenericQueryCursor_delete_def)
qed

lemma generic_new_returns:
  assumes "w_queries w qa = Some q" "w_cursors w ca = None"
  shows "GenericQueryCursor_new qa ca w = Some (if cq_cCursor q = None
    then (Inr (), put_cursor ca \<lparr>cu_typed = False, cu_qPtr = Some qa, cu_converter = None\<rparr> (put_query qa (q\<lparr>cq_cCursor := Some ca\<rparr>) w))
    else (Inl (RuntimeError ''concurrent lock (TODO: dedicated error class)''), w))"
  using assms by (auto simp: GenericQueryCursor_new_def cursor_bind_def lock_by_def new_cursor_def put_cursor_def put_query_def
    drop_cursor_def fun_upd_idem)

text \<open>The destructor of a cursor, by its type.\<close>

definition cursor_delete :: "addr \<Rightarrow> ('d, 's, 'a, 'i, 'f) cpp_world \<Rightarrow> ('d, 's, 'a, 'i, 'f) cpp_world option" where
  "cursor_delete ca w = do {
     u \<leftarrow> w_cursors w ca;
     if cu_typed u then QueryCursor_delete ca w else GenericQueryCursor_delete ca w }"

lemma cursor_delete_bound:
  "w_cursors w ca = Some u \<Longrightarrow> cu_qPtr u = Some qa \<Longrightarrow> cursor_delete ca w =
    (if Option.bind (w_queries w qa) cq_cCursor \<noteq> Some ca then None
     else map_option (\<lambda>w. drop_cursor ca (put_cursor ca (u\<lparr>cu_qPtr := None\<rparr>) w)) (unlock qa ca w))"
  by (cases "w_queries w qa") (auto simp: cursor_delete_def QueryCursor_delete_def GenericQueryCursor_delete_def cursor_unbind_def
    unlock_def)

text \<open>What a client must not do: two cursors with one pointer, and a query destroyed under its cursor.\<close>

lemma shared_undeletable:
  assumes "client_reach w" "w_cursors w ca = Some u" "cu_qPtr u = Some qa" "ca \<noteq> cb" "w' = put_cursor cb u w"
  shows "cursor_delete cb w' = None" "cursor_delete ca w' = Some w'' \<Longrightarrow> cursor_delete cb w'' = None"
proof -
  have "locked_by w qa = Some ca" using assms(2,3) by (simp add: locks_owner [OF assms(1), symmetric] bound_to_def)
  then obtain q where q: "w_queries w qa = Some q" "cq_cCursor q = Some ca"
    by (auto simp: locked_by_def split: bind_split_asm)
  have b: "w_cursors w' cb = Some u" and a: "w_cursors w' ca = Some u" using assms(2,4,5) by simp_all
  show "cursor_delete cb w' = None"
    using cursor_delete_bound [OF b assms(3)] q assms(4,5) by simp
  show "cursor_delete cb w'' = None" if "cursor_delete ca w' = Some w''"
  proof -
    have w'': "w'' = drop_cursor ca (put_cursor ca (u\<lparr>cu_qPtr := None\<rparr>) (put_query qa (q\<lparr>cq_cCursor := None\<rparr>) w'))"
      using that cursor_delete_bound [OF a assms(3)] q assms(5) by (simp add: unlock_def)
    then have "w_cursors w'' cb = Some u" using b assms(4) by simp
    from cursor_delete_bound [OF this assms(3)] show ?thesis using w'' by simp
  qed
qed

lemma dangling_undeletable:
  "bound_to w ca = Some qa \<Longrightarrow> cursor_delete ca (w\<lparr>w_queries := (w_queries w)(qa := None)\<rparr>) = None"
  by (auto simp: bound_to_def cursor_delete_bound split: bind_split_asm)

text \<open>
  C13: However a client makes, binds, resets, advances and destroys queries and cursors, whatever of it
  throws, if it copies and assigns no cursor and destroys no query with a cursor bound to it: a query has at
  most one cursor bound to it, a cursor can always be destroyed, and a new cursor on a query is refused
  exactly if another one is bound, with nothing changed; otherwise it is bound. And neither condition can go:
  a cursor made by copying or assigning a bound one can be destroyed neither before nor after that one, and a
  cursor can not be destroyed when its query has been.
\<close>

theorem cursor_locks:
  assumes "client_reach w"
  shows "(\<forall>ca ca' qa. bound_to w ca = Some qa \<longrightarrow> bound_to w ca' = Some qa \<longrightarrow> ca = ca') \<and>
    (\<forall>ca u. w_cursors w ca = Some u \<longrightarrow> (\<exists>w'. cursor_delete ca w = Some w')) \<and>
    (\<forall>qa q ca. w_queries w qa = Some q \<longrightarrow> w_cursors w ca = None \<longrightarrow>
      (\<exists>r w'. GenericQueryCursor_new qa ca w = Some (r, w') \<and>
        (if \<exists>ca'. bound_to w ca' = Some qa then (\<exists>e. r = Inl e) \<and> w' = w
         else r = Inr () \<and> bound_to w' = (bound_to w)(ca \<mapsto> qa)))) \<and>
    (\<forall>ca qa cb w'. bound_to w ca = Some qa \<longrightarrow> ca \<noteq> cb \<longrightarrow>
      GenericQueryCursor_copy ca cb w = Some w' \<or> cursor_assign ca cb w = Some w' \<longrightarrow>
      cursor_delete cb w' = None \<and> (\<forall>w''. cursor_delete ca w' = Some w'' \<longrightarrow> cursor_delete cb w'' = None)) \<and>
    (\<forall>ca qa. bound_to w ca = Some qa \<longrightarrow> cursor_delete ca (w\<lparr>w_queries := (w_queries w)(qa := None)\<rparr>) = None)"
proof (intro conjI allI impI)
  show "ca = ca'" if "bound_to w ca = Some qa" "bound_to w ca' = Some qa" for ca ca' qa
    using that by (simp add: locks_owner [OF assms])
  show "\<exists>w'. cursor_delete ca w = Some w'" if "w_cursors w ca = Some u" for ca u
    using delete_returns [OF assms that] that by (simp add: cursor_delete_def)
  show "\<exists>r w'. GenericQueryCursor_new qa ca w = Some (r, w') \<and>
      (if \<exists>ca'. bound_to w ca' = Some qa then (\<exists>e. r = Inl e) \<and> w' = w
       else r = Inr () \<and> bound_to w' = (bound_to w)(ca \<mapsto> qa))"
    if "w_queries w qa = Some q" "w_cursors w ca = None" for qa q ca
    using that by (auto simp: generic_new_returns locks_owner [OF assms] locked_by_def)
  fix ca qa cb w'
  assume b: "bound_to w ca = Some qa" and "ca \<noteq> cb"
    and c: "GenericQueryCursor_copy ca cb w = Some w' \<or> cursor_assign ca cb w = Some w'"
  obtain u where u: "w_cursors w ca = Some u" "cu_qPtr u = Some qa" using b by (auto simp: bound_to_def split: bind_split_asm)
  have "w' = put_cursor cb u w"
    using c u(1) by (auto simp: GenericQueryCursor_copy_def cursor_assign_def split: bind_split_asm)
  note shared = shared_undeletable [OF assms u \<open>ca \<noteq> cb\<close> this]
  show "cursor_delete cb w' = None" by (rule shared(1))
  show "cursor_delete cb w'' = None" if "cursor_delete ca w' = Some w''" for w'' using that by (rule shared(2))
qed (rule dangling_undeletable)

section \<open>The results through a cursor\<close>

text \<open>
  The loop of a client, \<open>for(GenericQueryCursor qc = q.generic_cursor_on(obj); qc; ++qc)\<close>: its body sees the
  datum and the keys. An exception leaves it.
\<close>

partial_function (option) cursor_loop ::
  "('d \<Rightarrow> bytes hdql_Key option \<Rightarrow> 'u \<Rightarrow> 'u) \<Rightarrow> addr \<Rightarrow> ('d, 's, 'a, 'i, 'f) cpp_world \<Rightarrow> 'u \<Rightarrow>
   ('u \<times> ('d, 's, 'a, 'i, 'f) cpp_world) option"
where
  "cursor_loop body ca w u = Option.bind (generic_bool ca w) (\<lambda>b.
     if \<not> b then Some (u, w)
     else Option.bind (query_instance ca w) (\<lambda>(qa, q).
       Option.bind (generic_get ca w) (\<lambda>d.
       Option.bind (generic_next ca w) (\<lambda>(r, w). case r of
         Inl e \<Rightarrow> None
       | Inr _ \<Rightarrow> cursor_loop body ca w (body d (query_keys q) u)))))"

lemma key_with_null: "key_with key kz = None \<longleftrightarrow> key = None"
  by (auto simp: key_with_def split: option.splits key_payload.splits)

lemma get_null: "hdql_query_get qs key c = Some (r, qs', key', c') \<Longrightarrow> key' = None \<longleftrightarrow> key = None"
  by (auto simp: hdql_query_get_def key_with_null split: list.split_asm bind_split_asm)

lemma reset_null: "hdql_query_reset qs d key c = Some (r, qs', key', c') \<Longrightarrow> key' = None \<longleftrightarrow> key = None"
  by (auto simp: hdql_query_reset_def key_with_null split: bind_split_asm)

lemma query_keys_put [simp]: "(key = None \<longleftrightarrow> query_keys q = None) \<Longrightarrow> query_keys (put_key key q) = key"
  by (cases "cq_keys q"; cases key) (auto simp: query_keys_def put_key_def)

lemma put_key_fields [simp]:
  "cq_isSet (put_key key q) = cq_isSet q" "cq_query (put_key key q) = cq_query q"
  "cq_ownContext (put_key key q) = cq_ownContext q" "cq_r (put_key key q) = cq_r q"
  "query_keys (q\<lparr>cq_query := qs, cq_ownContext := c, cq_r := r\<rparr>) = query_keys q"
  by (simp_all add: put_key_def query_keys_def)

text \<open>What a call on the query leaves of it.\<close>

definition query_after ::
  "'d option \<Rightarrow> ('d, 's, 'a, bytes) hdql_Query list \<Rightarrow> bytes hdql_Key option \<Rightarrow> hdql_Context \<Rightarrow>
   ('d, 's, 'a, 'i, 'f) cpp_Query \<Rightarrow> ('d, 's, 'a, 'i, 'f) cpp_Query" where
  "query_after r qs key c q = (put_key key q)\<lparr>cq_query := qs, cq_ownContext := c, cq_r := r\<rparr>"

lemma query_after_fields [simp]:
  "cq_isSet (query_after r qs key c q) = cq_isSet q" "cq_query (query_after r qs key c q) = qs"
  "cq_ownContext (query_after r qs key c q) = c" "cq_r (query_after r qs key c q) = r"
  "cq_cCursor (query_after r qs key c q) = cq_cCursor q"
  "(key = None \<longleftrightarrow> query_keys q = None) \<Longrightarrow> query_keys (query_after r qs key c q) = key"
  by (simp_all add: query_after_def)

lemma query_after_twice:
  "(key = None \<longleftrightarrow> query_keys q = None) \<Longrightarrow> query_after r' qs' key' c' (query_after r qs key c q) = query_after r' qs' key' c' q"
  by (cases "cq_keys q"; cases key) (auto simp: query_after_def put_key_def query_keys_def)

lemma query_after_same: "cq_r q = r \<Longrightarrow> query_after r (cq_query q) (query_keys q) (cq_ownContext q) q = q"
  by (cases q; cases "cq_keys q") (auto simp: query_after_def put_key_def query_keys_def)

lemma instance_put: "query_instance ca w = Some (qa, q) \<Longrightarrow> query_instance ca (put_query qa q' w) = Some (qa, q')"
  by (auto simp: query_instance_def split: bind_split_asm)

lemma instance_same: "query_instance ca w = Some (qa, q) \<Longrightarrow> put_query qa q w = w"
  by (auto simp: query_instance_def put_query_def fun_upd_idem split: bind_split_asm)

lemma put_query_twice: "put_query qa q' (put_query qa q w) = put_query qa q' w"
  by (simp add: put_query_def)

lemma next_get:
  assumes "query_instance ca w = Some (qa, q)" "cq_isSet q"
    "hdql_query_get (cq_query q) (query_keys q) (cq_ownContext q) = Some (r, qs, key, c)"
  shows "generic_next ca w = Some (Inr (), put_query qa (query_after r qs key c q) w)"
proof -
  have "cq_query q \<noteq> []" using assms(3) by (auto simp: hdql_query_get_def)
  then show ?thesis using assms by (simp add: generic_next_def on_query_def query_next_def query_after_def)
qed

text \<open>The loop is that of the results handler of the library.\<close>

lemma cursor_loop_records:
  "process_records handle r qs key c u = Some res \<Longrightarrow> handle = (\<lambda>d k u. Some (0, body d k u)) \<Longrightarrow>
   query_instance ca w = Some (qa, q) \<Longrightarrow> cq_isSet q \<Longrightarrow> cq_r q = r \<Longrightarrow> cq_query q = qs \<Longrightarrow> query_keys q = key \<Longrightarrow>
   cq_ownContext q = c \<Longrightarrow>
   cursor_loop body ca w u = Some (case res of (qs', key', c', u') \<Rightarrow> (u', put_query qa (query_after None qs' key' c' q) w))"
proof (induction handle r qs key c u res arbitrary: w q
    rule: process_records.raw_induct [rotated, consumes 1, case_names step])
  case (step rec handle r qs key c u res)
  note q = step.prems(2-7)
  have bool: "generic_bool ca w = Some (r \<noteq> None)" using q(1-3) by (simp add: generic_bool_def is_available_def)
  show ?case
  proof (cases r)
    case None
    then have "res = (qs, key, c, u)" using step.hyps by simp
    then show ?thesis using bool None q query_after_same [OF q(3)] instance_same [OF q(1)]
      by (subst cursor_loop.simps) simp
  next
    case (Some d)
    then obtain r1 qs1 key1 c1 where g: "hdql_query_get qs key c = Some (r1, qs1, key1, c1)"
      and rest: "rec handle r1 qs1 key1 c1 (body d key u) = Some res"
      using step.hyps by (auto simp: step.prems(1) split: bind_split_asm)
    let ?q1 = "query_after r1 qs1 key1 c1 q"
    have null: "key1 = None \<longleftrightarrow> query_keys q = None" using get_null [OF g] q(5) by simp
    have nxt: "generic_next ca w = Some (Inr (), put_query qa ?q1 w)" using next_get [OF q(1,2)] g q(4-6) by simp
    have "cursor_loop body ca (put_query qa ?q1 w) (body d key u) =
        Some (case res of (qs', key', c', u') \<Rightarrow> (u', put_query qa (query_after None qs' key' c' ?q1) (put_query qa ?q1 w)))"
      by (rule step.IH [OF rest step.prems(1) instance_put [OF q(1)]]) (use q(2) null in simp_all)
    moreover have "generic_get ca w = Some d" using q(1-3) Some by (simp add: generic_get_def get_unsafe_def is_available_def)
    ultimately show ?thesis using bool Some q(1,5) nxt
      by (subst cursor_loop.simps) (simp add: put_query_twice query_after_twice [OF null] split: prod.splits)
  qed
qed

text \<open>Making the cursor, and giving it back.\<close>

lemma put_key_set [simp]:
  "put_key key (q\<lparr>cq_cCursor := x\<rparr>) = (put_key key q)\<lparr>cq_cCursor := x\<rparr>" "query_keys (q\<lparr>cq_cCursor := x\<rparr>) = query_keys q"
  "query_keys (q\<lparr>cq_isSet := b\<rparr>) = query_keys q"
  by (simp_all add: put_key_def query_keys_def)

lemma generic_on_returns:
  assumes w: "w_queries w qa = Some q" "cq_cCursor q = None" "w_cursors w ca = None"
    and root: "cq_compounds q t = Some cp" "hdql_compound_is_same (cq_rootCompound q) cp"
    and reset: "hdql_query_reset (cq_query q) (Some d) (query_keys q) (cq_ownContext q) = Some (r, qs, key, c)"
    and errors: "\<not> hdql_context_has_errors c"
  shows "generic_cursor_on t d qa ca w = Some (Inr (), put_query qa ((query_after r qs key c q)\<lparr>cq_cCursor := Some ca, cq_isSet := True\<rparr>)
    (put_cursor ca \<lparr>cu_typed = False, cu_qPtr = Some qa, cu_converter = None\<rparr> w))"
proof -
  let ?u = "\<lparr>cu_typed = False, cu_qPtr = Some qa, cu_converter = None\<rparr>" and ?q = "q\<lparr>cq_cCursor := Some ca\<rparr>"
  have "GenericQueryCursor_new qa ca w = Some (Inr (), put_cursor ca ?u (put_query qa ?q w))"
    using generic_new_returns [OF w(1,3)] w(2) by simp
  moreover have "verify_root_compound_type ?q t d = Inr d"
    using root by (simp add: verify_root_compound_type_def is_same_as_root_compound_type_def)
  moreover have "reset_subject_instance d ?q = Some (Inr (), (query_after r qs key c q)\<lparr>cq_cCursor := Some ca, cq_isSet := True\<rparr>)"
    using reset errors by (simp add: reset_subject_instance_def query_after_def Let_def)
  ultimately show ?thesis
    by (simp add: generic_cursor_on_def cursor_reset_def on_query_def query_instance_def put_query_def put_cursor_def)
qed

lemma generic_delete_returns:
  assumes "w_cursors w ca = None" "cq_cCursor q = Some ca"
  shows "GenericQueryCursor_delete ca (put_query qa q (put_cursor ca \<lparr>cu_typed = b, cu_qPtr = Some qa, cu_converter = cnv\<rparr> w)) =
    Some (put_query qa (q\<lparr>cq_cCursor := None\<rparr>) w)"
  using assms by (simp add: GenericQueryCursor_delete_def cursor_unbind_def unlock_def)
    (simp add: put_query_def put_cursor_def drop_cursor_def fun_upd_idem)

text \<open>
  C12: The loop over a generic cursor on a free query, for a datum of the root type, sees exactly the outputs of
  the chain for the datum, in order, each with its keys, and ends; the cursor is destroyed, and the query is
  free and ready for the next datum, with all other objects as they were.
\<close>

theorem cursor_records:
  assumes "w_queries w qa = Some q" "cq_cCursor q = None" "w_cursors w ca = None"
    and "cq_compounds q t = Some cp" "hdql_compound_is_same (cq_rootCompound q) cp"
    and "chain_valid ok ls (cq_query q) ks" "keys_are (query_keys q) ks" "ok (cq_ownContext q)"
    and "\<And>r qs key c. hdql_query_reset (cq_query q) (Some d) (query_keys q) (cq_ownContext q) = Some (r, qs, key, c) \<Longrightarrow>
      \<not> hdql_context_has_errors c"
  shows "\<exists>w1 w2 q' ks'. generic_cursor_on t d qa ca w = Some (Inr (), w1) \<and>
    cursor_loop body ca w1 u = Some (handle_all body (map (seen ls (query_keys q)) (chain_outs ls (Some d))) u, w2) \<and>
    GenericQueryCursor_delete ca w2 = Some (put_query qa q' w) \<and> cq_cCursor q' = None \<and>
    chain_valid ok ls (cq_query q') ks' \<and> keys_are (query_keys q') ks' \<and> ok (cq_ownContext q')"
proof -
  let ?handle = "\<lambda>d k u. Some (0 :: int, body d k u)" and ?u = "\<lparr>cu_typed = False, cu_qPtr = Some qa, cu_converter = None\<rparr>"
  let ?outs = "map (seen ls (query_keys q)) (chain_outs ls (Some d))"
  obtain r qs k1 c1 q' key' ks' c' where reset: "hdql_query_reset (cq_query q) (Some d) (query_keys q) (cq_ownContext q) = Some (r, qs, k1, c1)"
    and run: "process_records ?handle r qs k1 c1 u = Some (q', key', c', handle_all body ?outs u)"
    and post: "chain_valid ok ls q' ks'" "keys_are key' ks'" "ok c'" "key' = put_keys (query_keys q) ks'"
    by (rule records_all [where handle = ?handle and f = body and u = u and d = "Some d", OF assms(6-8)]) simp_all
  let ?q1 = "(query_after r qs k1 c1 q)\<lparr>cq_cCursor := Some ca, cq_isSet := True\<rparr>"
  let ?w1 = "put_query qa ?q1 (put_cursor ca ?u w)"
  have null: "k1 = None \<longleftrightarrow> query_keys q = None" "key' = None \<longleftrightarrow> query_keys q = None"
    using reset_null [OF reset] post(4) by simp_all
  have on: "generic_cursor_on t d qa ca w = Some (Inr (), ?w1)"
    by (rule generic_on_returns [OF assms(1-5) reset assms(9) [OF reset]])
  have inst: "query_instance ca ?w1 = Some (qa, ?q1)" by (simp add: query_instance_def)
  let ?q2 = "query_after None q' key' c' ?q1"
  have "cursor_loop body ca ?w1 u = Some (handle_all body ?outs u, put_query qa ?q2 ?w1)"
    using cursor_loop_records [OF run refl inst] null(1) by simp
  moreover have "GenericQueryCursor_delete ca (put_query qa ?q2 ?w1) = Some (put_query qa (?q2\<lparr>cq_cCursor := None\<rparr>) w)"
    unfolding put_query_twice by (rule generic_delete_returns [OF assms(3)]) simp
  moreover have "query_keys (?q2\<lparr>cq_cCursor := None\<rparr>) = key'" using null by simp
  ultimately show ?thesis
    using on post by (rule_tac exI [of _ ?w1], rule_tac exI [of _ "put_query qa ?q2 ?w1"],
      rule_tac exI [of _ "?q2\<lparr>cq_cCursor := None\<rparr>"], rule_tac exI [of _ ks']) simp
qed

text \<open>
  C30: When \<open>generic_cursor_on\<close> throws, be it that the query is locked, that the type of the object is unknown or
  another one than the root's, or that the reset of the query reported an error, no cursor is left and every
  query is locked as before.
\<close>

theorem generic_cursor_throws:
  assumes "generic_cursor_on t d qa ca w = Some (Inl e, w')" "w_cursors w ca = None"
  shows "w_cursors w' = w_cursors w \<and> locked_by w' = locked_by w"
proof -
  obtain q where q: "w_queries w qa = Some q"
    using assms(1) by (cases "w_queries w qa")
      (simp_all add: generic_cursor_on_def GenericQueryCursor_new_def cursor_bind_def lock_by_def new_cursor_def)
  show ?thesis
  proof (cases "cq_cCursor q")
    case (Some x)
    then show ?thesis using assms generic_new_returns [OF q assms(2)] by (simp add: generic_cursor_on_def)
  next
    case None
    let ?u = "\<lparr>cu_typed = False, cu_qPtr = Some qa, cu_converter = None\<rparr>" and ?q = "q\<lparr>cq_cCursor := Some ca\<rparr>"
    obtain r1 w1 where new: "cursor_reset t d ca (put_cursor ca ?u (put_query qa ?q w)) = Some (r1, w1)" "r1 = Inl e"
      "GenericQueryCursor_delete ca w1 = Some w'"
    proof -
      obtain r1 w1 where "cursor_reset t d ca (put_cursor ca ?u (put_query qa ?q w)) = Some (r1, w1)"
        using assms generic_new_returns [OF q assms(2)] None by (auto simp: generic_cursor_on_def bind_eq_Some_conv)
      then show thesis using that assms generic_new_returns [OF q assms(2)] None
        by (cases r1) (auto simp: generic_cursor_on_def bind_eq_Some_conv)
    qed
    obtain q1 where q1: "w1 = put_query qa q1 (put_cursor ca ?u (put_query qa ?q w))"
      "(case verify_root_compound_type ?q t d of Inl e \<Rightarrow> Some (Inl e, ?q) | Inr d \<Rightarrow> reset_subject_instance d ?q) = Some (r1, q1)"
      using new(1) by (auto simp: cursor_reset_def on_query_def query_instance_def split: bind_split_asm)
    have lock: "cq_cCursor q1 = Some ca"
      using q1(2) by (cases "verify_root_compound_type ?q t d") (auto dest: reset_lock)
    have "w1 = put_query qa q1 (put_cursor ca ?u w)" by (simp add: q1(1) put_query_def put_cursor_def)
    then have "w' = put_query qa (q1\<lparr>cq_cCursor := None\<rparr>) w"
      using new(3) generic_delete_returns [OF assms(2) lock] by simp
    moreover have "(locked_by w)(qa := None) = locked_by w" using q None by (auto simp: locked_by_def)
    ultimately show ?thesis by simp
  qed
qed

definition sample_cpp_query :: "(nat, nat cpp_iterator, unit, unit, unit) cpp_Query" where
  "sample_cpp_query = \<lparr>cq_cCursor = None, cq_resultConversionsCache = [], cq_isSet = False, cq_ownContext = ctx_roomy,
     cq_types = std_table, cq_conversions = Converters 8 0 True None [] None, cq_rootCompound = Compound 6 [69] None [],
     cq_query = [sample_query () stl_sample], cq_links = [QLink 14 (AttrDef 15 True True False 0 False 0
       (AdCollection (CoClient (\<lambda>_ _ c. Some c) None)) DefNull None (TiAtomic \<lparr>at_isReadOnly = False, at_arithTypeCode = 512\<rparr>) None)
       False None None None],
     cq_keys = Some (4, list_key [sample_key True]),
     cq_topAttrDef = AttrDef 15 True True False 0 False 0
       (AdCollection (CoClient (\<lambda>_ _ c. Some c) None)) DefNull None (TiAtomic \<lparr>at_isReadOnly = False, at_arithTypeCode = 512\<rparr>) None,
     cq_kv = None, cq_compounds = [''Event'' \<mapsto> Compound 6 [69] None []], cq_r = None\<rparr>"

lemma sample_reset: "map_option (\<lambda>(r, qs, key, c). (r, cx_errors c))
    (hdql_query_reset [sample_query () stl_sample] (Some 4) (Some (list_key [sample_key True])) ctx_roomy) = Some (Some 40, [])"
  by (code_simp, subst rd_loop.simps, code_simp)

definition sample_cpp_world :: "(nat, nat cpp_iterator, unit, unit, unit) cpp_world" where
  "sample_cpp_world = \<lparr>w_queries = [1 \<mapsto> sample_cpp_query], w_cursors = Map.empty\<rparr>"

lemma cursor_records_witness:
  "\<exists>w1 w2 q'. generic_cursor_on ''Event'' 4 1 10 sample_cpp_world = Some (Inr (), w1) \<and>
    cursor_loop (\<lambda>d k u. u @ [d]) 10 w1 [] = Some ([40, 41, 42], w2) \<and>
    GenericQueryCursor_delete 10 w2 = Some (put_query 1 q' sample_cpp_world) \<and> cq_cCursor q' = None"
proof -
  let ?L = "container_level stl_sample (\<lambda>i. i) sample_contents (\<lambda>_ _. True) (\<lambda>_. True) None"
  let ?ls = "[(?L, Some (sample_key True))]" and ?q = sample_cpp_query
  have I: "container_interface stl_sample (\<lambda>i. i) sample_contents (\<lambda>_ _. True) (\<lambda>_. True) None"
    by (rule stl_container) (simp_all add: sample_nonnull)
  have k: "datum_key (sample_key True)" by (simp add: sample_key_def key_types)
  have q: "cq_query ?q = [sample_query () stl_sample]" "query_keys ?q = Some (list_key [sample_key True])" "cq_ownContext ?q = ctx_roomy"
    by (simp_all add: sample_cpp_query_def query_keys_def)
  have valid: "chain_valid no_oom ?ls (cq_query ?q) [Some (sample_key True)]"
    using container_interface.klevel [OF I k] container_interface.fresh_query [OF I, of "sample_query () stl_sample"]
    by (simp add: chain_valid_def kshape_def q sample_query_def)
  have keys: "keys_are (query_keys ?q) [Some (sample_key True)]"
    unfolding q by (simp add: list_key_facts(1) [of "[sample_key True]", simplified])
  have c: "no_oom (cq_ownContext ?q)" unfolding q by (simp add: ctx_roomy_def no_oom_def)
  have errors: "\<not> hdql_context_has_errors c'"
    if "hdql_query_reset (cq_query ?q) (Some 4) (query_keys ?q) (cq_ownContext ?q) = Some (r, qs, key, c')" for r qs key c'
    using sample_reset that unfolding q by (simp add: hdql_context_has_errors_def)
  let ?body = "\<lambda>d (k :: bytes hdql_Key option) u. u @ [d]"
  have w: "w_queries sample_cpp_world 1 = Some ?q" "cq_cCursor ?q = None" "w_cursors sample_cpp_world 10 = None"
    "cq_compounds ?q ''Event'' = Some (Compound 6 [69] None [])"
    "hdql_compound_is_same (cq_rootCompound ?q) (Compound 6 [69] None [])"
    by (simp_all add: sample_cpp_world_def sample_cpp_query_def hdql_compound_is_same_def)
  have "handle_all ?body (map (seen ?ls (query_keys ?q)) (chain_outs ?ls (Some 4))) [] = [40, 41, 42]"
    by (simp add: chain_simps elements_def sample_contents_def upto_3 handle_all_def)
  then show ?thesis
    using cursor_records [where body = ?body and u = "[]" and d = 4, OF w valid keys c errors] by force
qed

text \<open>A client that has made a query and, unless the reset fails, a cursor on it.\<close>

lemma sample_reset_keyless: "map_option (\<lambda>(r, qs, key, c). (r, cx_errors c))
    (hdql_query_reset [sample_query () stl_sample] (Some 4) None ctx_roomy) = Some (Some 40, [])"
  by (code_simp, subst rd_loop.simps, code_simp)

definition sample_made_query :: "(nat, nat cpp_iterator, unit, unit, unit) cpp_Query" where
  "sample_made_query = sample_cpp_query\<lparr>cq_keys := None\<rparr>"

lemma sample_made:
  "Query_new (\<lambda>e root c. (Some ([sample_query () stl_sample], cq_links sample_cpp_query), [], (0, 0, 0, 0, 0), c))
    std_table (cq_conversions sample_cpp_query) [] (Compound 6 [69] None []) [''Event'' \<mapsto> Compound 6 [69] None []] False ctx_roomy =
    Some (Inr sample_made_query, ctx_roomy)"
  by (simp add: Query_new_def sample_made_query_def sample_cpp_query_def HDQL_ERR_CODE_OK_def)

lemma cursor_locks_witness:
  "\<exists>w :: (nat, nat cpp_iterator, unit, unit, unit) cpp_world. client_reach w \<and> bound_to w 10 = Some 1 \<and>
    (\<exists>e. GenericQueryCursor_new 1 11 w = Some (Inl e, w)) \<and> (\<exists>w'. cursor_delete 10 w = Some w')"
proof -
  let ?w0 = "\<lparr>w_queries = Map.empty, w_cursors = Map.empty\<rparr> :: (nat, nat cpp_iterator, unit, unit, unit) cpp_world"
  let ?w1 = "put_query 1 sample_made_query ?w0" and ?q = sample_made_query
  have r1: "client_reach ?w1"
    by (rule more_calls [OF client_reach.start query_new [OF _ sample_made]]) simp
  have q: "cq_query ?q = [sample_query () stl_sample]" "query_keys ?q = None" "cq_ownContext ?q = ctx_roomy"
    by (simp_all add: sample_made_query_def sample_cpp_query_def query_keys_def)
  obtain r qs key c where reset: "hdql_query_reset (cq_query ?q) (Some 4) (query_keys ?q) (cq_ownContext ?q) = Some (r, qs, key, c)"
    "\<not> hdql_context_has_errors c"
    using sample_reset_keyless unfolding q by (auto simp: hdql_context_has_errors_def)
  have pre: "w_queries ?w1 1 = Some ?q" "cq_cCursor ?q = None" "w_cursors ?w1 10 = None"
    "cq_compounds ?q ''Event'' = Some (Compound 6 [69] None [])"
    "hdql_compound_is_same (cq_rootCompound ?q) (Compound 6 [69] None [])"
    by (simp_all add: sample_made_query_def sample_cpp_query_def hdql_compound_is_same_def)
  let ?u = "\<lparr>cu_typed = False, cu_qPtr = Some 1, cu_converter = None\<rparr>"
  let ?w2 = "put_query 1 ((query_after r qs key c ?q)\<lparr>cq_cCursor := Some 10, cq_isSet := True\<rparr>) (put_cursor 10 ?u ?w1)"
  have r2: "client_reach ?w2"
    by (rule more_calls [OF r1 generic_on [OF _ generic_on_returns [OF pre reset]]]) simp
  have b: "bound_to ?w2 10 = Some 1" "w_cursors ?w2 10 = Some ?u" "w_cursors ?w2 11 = None" "w_queries ?w2 1 \<noteq> None"
    by (simp_all add: bound_to_def)
  note locks = cursor_locks [OF r2]
  have "\<exists>w'. cursor_delete 10 ?w2 = Some w'" using conjunct1 [OF conjunct2 [OF locks]] b(2) by fastforce
  moreover have "\<exists>e. GenericQueryCursor_new 1 11 ?w2 = Some (Inl e, ?w2)"
    using conjunct1 [OF conjunct2 [OF conjunct2 [OF locks]]] b(1,3,4) by (metis not_None_eq)
  ultimately show ?thesis using r2 b(1) by blast
qed

lemma generic_cursor_throws_witness:
  "\<exists>w'. generic_cursor_on ''Track'' 4 1 10 sample_cpp_world = Some (Inl (HDQLError ''Unknown root compound type.''), w') \<and>
    w_cursors w' 10 = None \<and> locked_by w' 1 = None"
proof -
  have "\<exists>w'. generic_cursor_on ''Track'' 4 1 10 sample_cpp_world = Some (Inl (HDQLError ''Unknown root compound type.''), w')"
    by (simp add: generic_cursor_on_def generic_new_returns sample_cpp_world_def sample_cpp_query_def cursor_reset_def on_query_def
      query_instance_def verify_root_compound_type_def GenericQueryCursor_delete_def cursor_unbind_def unlock_def)
  then obtain w' where w': "generic_cursor_on ''Track'' 4 1 10 sample_cpp_world = Some (Inl (HDQLError ''Unknown root compound type.''), w')"
    by blast
  have "w_cursors sample_cpp_world 10 = None" "locked_by sample_cpp_world 1 = None"
    by (simp_all add: sample_cpp_world_def locked_by_def sample_cpp_query_def)
  with w' generic_cursor_throws [OF w'] show ?thesis by simp
qed

section \<open>Values of a type\<close>

text \<open>The cache of a query whose results are compounds holds entries without a function.\<close>

definition null_cache :: "('d, 's, 'a, 'i, 'f) cpp_Query \<Rightarrow> bool" where
  "null_cache q \<longleftrightarrow> list_all (\<lambda>(t, f, b). f = None) (cq_resultConversionsCache q)"

lemma compound_converter_entry:
  assumes "compound_converter cat t q = Some (r, q')" "is_compound q" "null_cache q"
  shows "is_compound q' \<and> null_cache q' \<and> r \<noteq> Inr None \<and> (\<forall>t'. r = Inr (Some t') \<longrightarrow> t' = t)"
  using assms by (auto simp: compound_converter_def null_cache_def is_compound_def split: bind_split_asm if_split_asm)

lemma converter_entry:
  assumes "get_converter_to cat cxa t q = Some (r, q')" "is_compound q" "null_cache q"
  shows "is_compound q' \<and> null_cache q' \<and> r \<noteq> Inr None \<and> (\<forall>t'. r = Inr (Some t') \<longrightarrow> t' = t)"
  using assms compound_converter_entry [of cat t q r q'] by (auto simp: get_converter_to_def split: if_split_asm)

lemma null_call: "null_cache q \<Longrightarrow> call_converter convert (cq_resultConversionsCache q) t r = None"
  by (auto simp: call_converter_def null_cache_def list_all_iff dest!: map_of_SomeD split: bind_split)

text \<open>
  C31: No result of a query that gives compounds can be read as a C++ type, not even as its own: asking for the
  converter gives an error, or an entry without a function, never the null pointer that says that there is
  nothing to convert; and reading a result throws, or calls the missing function.
\<close>

theorem compound_unreadable:
  assumes "is_compound q" "null_cache q"
  shows "(\<forall>r q'. get_converter_to compound_at cxa_demangle t q = Some (r, q') \<longrightarrow> is_compound q' \<and> null_cache q' \<and> r \<noteq> Inr None) \<and>
    (\<forall>v q'. get_as compound_at cxa_demangle convert t q \<noteq> Some (Inr v, q'))"
proof (intro conjI allI notI impI)
  fix r q'
  assume "get_converter_to compound_at cxa_demangle t q = Some (r, q')"
  note e = converter_entry [OF this assms]
  show "is_compound q'" "null_cache q'" using e by blast+
  assume "r = Inr None"
  then show False using e by blast
next
  fix v q'
  assume get: "get_as compound_at cxa_demangle convert t q = Some (Inr v, q')"
  then obtain r q1 where c: "get_converter_to compound_at cxa_demangle t q = Some (r, q1)"
    by (auto simp: get_as_def bind_eq_Some_conv)
  note e = converter_entry [OF c assms]
  then obtain t' where "r = Inr (Some t')" using get by (cases r) (auto simp: get_as_def c)
  then show False using get e by (simp add: get_as_def c null_call)
qed

definition sample_compound_query :: "(nat, nat cpp_iterator, unit, unit, unit) cpp_Query" where
  "sample_compound_query = sample_cpp_query\<lparr>cq_topAttrDef := AttrDef 15 False False False 0 False 0
     (AdScalar (ScClient None)) DefNull None (TiCompound 6) None, cq_r := Some 4, cq_isSet := True\<rparr>"

lemma compound_unreadable_witness:
  "get_converter_to [6 \<mapsto> Compound 6 [69] None []] Inl ''Event'' sample_compound_query =
     Some (Inr (Some ''Event''), sample_compound_query\<lparr>cq_resultConversionsCache := [(''Event'', None, None)]\<rparr>) \<and>
   (\<forall>v q'. get_as [6 \<mapsto> Compound 6 [69] None []] Inl (\<lambda>f d. (0, d)) ''Event'' sample_compound_query \<noteq> Some (Inr v, q'))"
proof -
  have q: "is_compound sample_compound_query" "null_cache sample_compound_query"
    by (simp_all add: is_compound_def null_cache_def sample_compound_query_def sample_cpp_query_def hdql_attr_def_is_compound_def)
  have "get_converter_to [6 \<mapsto> Compound 6 [69] None []] Inl ''Event'' sample_compound_query =
     Some (Inr (Some ''Event''), sample_compound_query\<lparr>cq_resultConversionsCache := [(''Event'', None, None)]\<rparr>)"
    using q(1) by (simp add: get_converter_to_def compound_converter_def sample_compound_query_def sample_cpp_query_def
        hdql_attr_def_compound_type_info_def hdql_compound_is_virtual_def)
  then show ?thesis using compound_unreadable [OF q] by blast
qed

text \<open>Reading again gives the same value, and leaves the query alone: the cache is not seen.\<close>

lemma atomic_converter_entry:
  assumes "atomic_converter cxa t q = Some (Inr x, q')"
  shows "x = None \<and> q' = q \<or> x = Some t \<and> map_of (cq_resultConversionsCache q') t \<noteq> None"
proof -
  obtain y where y: "hdql_cxx_demangle cxa t 64 = Some y" using assms by (cases "hdql_cxx_demangle cxa t 64") (simp_all add: atomic_converter_def)
  show ?thesis
    by (cases y) (use assms in \<open>auto simp: atomic_converter_def y Let_def split: bind_split_asm if_split_asm option.split_asm prod.split_asm\<close>)
qed

lemma converter_cached:
  assumes "get_converter_to cat cxa t q = Some (Inr x, q')"
  shows "x = None \<and> q' = q \<or> x = Some t \<and> map_of (cq_resultConversionsCache q') t \<noteq> None"
  using assms atomic_converter_entry [of cxa t q x q']
  by (auto simp: get_converter_to_def compound_converter_def split: if_split_asm bind_split_asm)

lemma get_as_again:
  assumes "get_as cat cxa convert t q = Some (Inr v, q')"
  shows "get_as cat cxa convert t q' = Some (Inr v, q')"
proof -
  obtain x q1 where c: "get_converter_to cat cxa t q = Some (Inr x, q1)"
  proof -
    obtain r q1 where "get_converter_to cat cxa t q = Some (r, q1)" using assms by (auto simp: get_as_def bind_eq_Some_conv)
    then show thesis using that assms by (cases r) (auto simp: get_as_def)
  qed
  have q1: "q1 = q'" using assms by (auto simp: get_as_def c bind_eq_Some_conv split: option.split_asm)
  have "get_converter_to cat cxa t q' = Some (Inr x, q')"
    using converter_cached [OF c] c by (auto simp: q1 get_converter_to_def)
  then show ?thesis using assms by (simp add: get_as_def c q1)
qed

section \<open>Names\<close>

text \<open>The names of the attributes of a compound are never returned: the loop reads behind the array, or throws before.\<close>

lemma collect_names_never:
  "collect_names_recursive cat delim prefix cp names result = Some r \<Longrightarrow> \<exists>e. r = Inl e"
proof (induction cat delim prefix cp names result r rule: collect_names_recursive.raw_induct [rotated, consumes 1, case_names step])
  case (step rec cat delim prefix cp names result r)
  show ?case
  proof (cases names)
    case (Cons n ns)
    show ?thesis using step.hyps step.IH unfolding Cons
      by (auto simp: Let_def bind_eq_Some_conv split: if_split_asm option.split_asm sum.split_asm) (metis sum.exhaust)+
  qed (use step.hyps in simp)
qed

lemma query_names_never: "query_names compound_at delim q \<noteq> Some (Inr names)"
  by (auto simp: query_names_def bind_eq_Some_conv dest: collect_names_never)

text \<open>The names of the types of the keys, in the order of the flat view.\<close>

lemma walk_at:
  "(k', p, x) \<in> set (key_walk k path lvl nq) \<Longrightarrow> \<exists>is. p = path @ is \<and> key_at k is = Some k'"
  "(k', p, x) \<in> set (keys_walk ks path lvl n) \<Longrightarrow> n \<ge> 1 \<Longrightarrow>
    \<exists>i is. p = path @ (n - 1 + i) # is \<and> i < length ks \<and> key_at (ks ! i) is = Some k'"
proof (induction k path lvl nq and ks path lvl n arbitrary: x and x rule: key_walk_keys_walk.induct)
  case (1 code ty t pl l path lvl nq)
  show ?case
  proof (cases "(k', p, x) = (Key code ty t pl l, path, lvl, nq)")
    case False
    then obtain a ks where pl: "pl = PlKeys a ks" "(k', p, x) \<in> set (keys_walk ks path (lvl + 1) 1)"
      using "1.prems" by (auto split: key_payload.split_asm)
    obtain i "is" where "p = path @ i # is" "i < length ks" "key_at (ks ! i) is = Some k'"
      using "1.IH" [OF pl] by auto
    then show ?thesis by (intro exI [of _ "i # is"]) (simp add: pl arr_get_def)
  qed (auto intro: exI [of _ "[]"])
next
  case (3 k ks path lvl n)
  consider "(k', p, x) \<in> set (key_walk k (path @ [n - 1]) lvl n)" | "(k', p, x) \<in> set (keys_walk ks path lvl (n + 1))"
    using "3.prems"(1) by auto
  then show ?case
  proof cases
    case 1
    then obtain "is" where "p = (path @ [n - 1]) @ is" "key_at k is = Some k'" using "3.IH"(1) by blast
    then show ?thesis by (intro exI [of _ 0] exI [of _ "is"]) simp
  next
    case 2
    then obtain i "is" where "p = path @ (n + 1 - 1 + i) # is" "i < length ks" "key_at (ks ! i) is = Some k'"
      using "3.IH"(2) by fastforce
    then show ?thesis using "3.prems"(2) by (intro exI [of _ "Suc i"] exI [of _ "is"]) simp
  qed
qed simp

lemma leaves_at: "(k', p) \<in> set (key_leaves k) \<Longrightarrow> key_at k p = Some k'"
  using walk_at(1) [of k' p _ k "[]" 0 0] by (fastforce simp: key_leaves_def)

lemma type_names_all:
  assumes "\<And>k p. (k, p) \<in> set leaves \<Longrightarrow> key_at key p = Some k \<and> (\<exists>tc i. hdql_key_datum_get_type_code k = Some tc \<and>
      hdql_types_get_type types (ucast tc) = Some (Some i) \<and> ti_name i = Some (name k))"
  shows "type_names types key (map (Some \<circ> snd) leaves) acc = Some (Inr (acc @ map (name \<circ> fst) leaves))"
  using assms
proof (induction leaves arbitrary: acc)
  case (Cons x leaves)
  obtain k p where x: "x = (k, p)" by (cases x)
  obtain tc i where k: "key_at key p = Some k" "hdql_key_datum_get_type_code k = Some tc"
    "hdql_types_get_type types (ucast tc) = Some (Some i)" "ti_name i = Some (name k)"
    using Cons.prems [of k p] by (auto simp: x)
  have "type_names types key (map (Some \<circ> snd) leaves) (acc @ [name k]) = Some (Inr ((acc @ [name k]) @ map (name \<circ> fst) leaves))"
    by (rule Cons.IH) (rule Cons.prems, simp)
  then show ?case by (simp add: x k o_def)
qed simp

theorem key_type_names_spec:
  assumes "query_keys q = Some key" "key_ok key"
    and "\<And>k p. (k, p) \<in> set (key_leaves key) \<Longrightarrow> \<exists>tc i. hdql_key_datum_get_type_code k = Some tc \<and>
      hdql_types_get_type (cq_types q) (ucast tc) = Some (Some i) \<and> ti_name i = Some (name k)"
  shows "key_type_names q = Some (Inr (map (name \<circ> fst) (key_leaves key)))"
proof -
  have "type_names (cq_types q) key (map (Some \<circ> snd) (key_leaves key)) [] = Some (Inr ([] @ map (name \<circ> fst) (key_leaves key)))"
    by (rule type_names_all) (intro conjI leaves_at assms(3); assumption)
  then show ?thesis
    using flat_view_spec [OF assms(2), of "replicate (length (key_leaves key)) None"] by (simp add: key_type_names_def assms(1))
qed

end
