(* ===== verification/Spec2Isabelle.thy ===== *)
theory Spec2Isabelle
  imports Prelude Pcg32 Heap Allocator HashTable Errors Context ContextData RandGen Keys Query Enumeration Chains AttrDef Containers Results Compound Products BoundValue FwdQuery Dictionaries Search ValueTypes Arguments CInt ValueText Operations Converters ArithOps Aggregates Filters MonoidOps Monoids MonoidFuncs CsvHandler CsvLines CppQuery CppCursors
begin

text \<open>
  HDQL (\<open>src/\<close>) evaluates queries on the data of a client: the client describes its types as compounds
  of named attributes with access functions, a query text is compiled to a chain of queries, one for each
  attribute on the path, and the chain, reset on a datum, is asked for its results one by one, each with
  the collection keys that lead to it. This development models the library below the parser and the
  clients of a compiled query, and proves what they compute. File names are relative to \<open>src/src/\<close> unless
  they begin with \<open>include/\<close>, which is under \<open>src/\<close>.

  \<^bold>\<open>How the code is rendered.\<close> A C function is a HOL function of the same name. What it may change (the
  context, the key, the state behind an iterator, the chain itself) is passed and returned. A call is an
  \<open>option\<close> value: \<open>None\<close> is every way not to return normally, undefined behaviour, a failed assertion, a
  C++ exception or a loop that runs for ever; \<open>Some\<close> is a return (where C++ clients catch exceptions, in
  \<open>CppQuery\<close>, they are values of a sum). A pointer that may be null is an
  \<open>option\<close> too. Assertions are kept as in the debug build. Error codes are the integers of
  \<open>include/hdql/errors.h\<close>; the formatted texts of errors are left out. Integers are words at their width
  where the code counts or hashes (\<open>u8\<close> to \<open>u64\<close>), and \<open>int\<close>s with the promotions and conversions of C
  written out where they are the data of queries (\<open>CInt\<close>). Addresses are names of blocks; which requests
  for memory fail is an arbitrary function fixed in the heap, so that the theorems about every heap cover
  every pattern of failures. Theorems about enumerations ask of the context that requests succeed
  (\<open>no_oom\<close>), as the evaluation code does not test them.

  \<^bold>\<open>The theories.\<close> In the order they build on each other:

  \<^item> \<open>Prelude\<close>: types, assertions, generic lemmas. \<open>Heap\<close>, \<open>Allocator\<close> (\<open>allocator.c\<close>): \<open>malloc\<close> and \<open>mmap\<close>;
    the contract \<open>allocator\<close> of a source of memory, provided by the forwarding allocator, by the arena and
    by the memory of a context. \<open>HashTable\<close> (\<open>hash-table.c\<close>): any program over a table behaves as one over a
    finite map and leaks nothing.
  \<^item> \<open>Errors\<close>, \<open>Context\<close>, \<open>ContextData\<close>, \<open>RandGen\<close>, \<open>Pcg32\<close> (\<open>errors.c\<close>, \<open>context.cc\<close>, \<open>random.c\<close>, \<open>util/pcg32.c\<close>):
    what the evaluation uses of a context; the invariant of its data of variable size over every sequence of
    calls; the generator of random numbers, with the bound up to which its rejection loop ends.
  \<^item> \<open>Keys\<close> (\<open>query-key.c\<close>) and \<open>AttrDef\<close> (\<open>attr-def.c\<close>, the static parts of \<open>query.c\<close>): keys and attribute
    definitions as owned structures: reserving, walking and destroying them touches exactly their blocks.
    \<open>Compound\<close> (\<open>compound.cc\<close>) and \<open>Dictionaries\<close> (\<open>value.cc\<close>, \<open>function.cc\<close>, \<open>context.cc\<close>): named things found
    in a table or its parents, the contract \<open>inherited\<close>.
  \<^item> \<open>Query\<close> (\<open>query.c\<close>): the engine, \<open>hdql_query_reset\<close> and \<open>hdql_query_get\<close> on a chain with its links and
    keys as zippers. \<open>Enumeration\<close> states the contract of one link, the locale \<open>query_level\<close>: reset on an
    owner it goes through a list of elements, setting the key to that of each. \<open>Chains\<close> concludes that a
    chain of such levels gives the depth-first list of its paths, \<open>chain_outs\<close>, then null.
  \<^item> The links: \<open>Containers\<close> (members, arrays and STL containers of \<open>include/hdql/helpers/compounds.hh\<close>),
    \<open>FwdQuery\<close> (\<open>ifaces/fwd-query-as-*.c\<close>), \<open>Products\<close> and \<open>BoundValue\<close> (\<open>query.c\<close>, \<open>ifaces/bound-value.c\<close>),
    \<open>Arguments\<close>, \<open>ArithOps\<close> (\<open>ifaces/arith-op-as-*.c\<close>), \<open>Aggregates\<close> (\<open>funcs/len.c\<close>), \<open>Filters\<close>
    (\<open>ifaces/filtered-v-compound.c\<close>), \<open>Monoids\<close> with \<open>MonoidOps\<close> and \<open>MonoidFuncs\<close> (\<open>funcs/monoids.c\<close>). Each
    interface is shown to provide \<open>query_level\<close>, by way of a narrower contract where several share one
    (\<open>pending_level\<close>, \<open>scalar_interface\<close>, \<open>container_interface\<close>, \<open>forwarded_chain\<close>, \<open>aggregate\<close>,
    \<open>query_arg\<close> for what a function needs of the queries it is given), so that all of them mix freely in a chain.
  \<^item> Types and operations: \<open>Search\<close> (\<open>qsort\<close>, \<open>bsearch\<close>), \<open>ValueTypes\<close> (\<open>value.cc\<close>, \<open>type-promotion-table.c\<close>),
    \<open>CInt\<close>, \<open>ValueText\<close> (\<open>value.cc\<close>), \<open>Operations\<close> (\<open>operations.cc\<close>), \<open>Converters\<close> (\<open>converters.c\<close>).
  \<^item> Clients: \<open>Results\<close> (\<open>helpers/query-results-handler.c\<close>), \<open>CsvHandler\<close> and \<open>CsvLines\<close>
    (\<open>helpers/query-results-handler-csv.c\<close>); \<open>CppQuery\<close> and \<open>CppCursors\<close> (\<open>include/hdql/helpers/query.hh\<close>,
    \<open>helpers/query.cc\<close>): queries as C++ objects and the cursors that lock them, the steps of a client as an
    inductive relation.

  \<^bold>\<open>How the parts meet.\<close> A chain is built of links whose interfaces are any of the above; \<open>chain_outs\<close> of
  their levels is the abstract specification of a query. \<open>Results\<close> shows that a client that drives a chain by
  the library's handler sees exactly that list, in order, each output with its key, that processing ends, and
  that the query is ready for the next datum. The theorems on the records of particular queries (through
  nested containers, selections, forwarded chains, operations, filters, sums, lengths) compute the list;
  those on bound compounds do it for products. Key reservation (\<open>AttrDef\<close>) builds the keys that the
  levels fill, and destroying them gives every block back. The separated-values handler is a client of all of
  this: the text it prints has a line for each output. The loop over a C++ cursor is shown to be that of the
  handler (\<open>cursor_loop_records\<close>), so that it sees the same list.

  \<^bold>\<open>Groups of lemmas.\<close> For each interface: what a reset and a yield do to the state (\<open>..._reset\<close>, \<open>..._yield\<close>),
  collected as the interpretation of a locale. For each owned structure: its blocks (\<open>key_blocks\<close>, the
  \<open>..._own\<close> functions), the well-formedness that says they are live and distinct, and that destruction
  frees them. For each table: its invariant, kept by each operation, and what a look-up finds afterwards.
  For the clients: an invariant over the records handled so far (\<open>process_records_inv\<close>), from which the
  results follow.

  \<^bold>\<open>Loops and bounds.\<close> Recursion over data is structural. Loops that the code does not bound are
  \<open>partial_function (option)\<close> (the search for the next output in a chain, the loop over the records, the
  search for the next tuple, the rejection loop of the generator, the expansion of nested compounds); the
  theorems about them state that they return, by weights of what is left to enumerate, or, for
  \<open>uint64_below\<close> and for filters that give nothing, that they do not. No fuel is used. Table sizes
  are those of the code: tiers of 511 types, 64 entries of promotions, steps of 16 converters, twice the
  buckets of a hash table when it has more entries than half of them.

  \<^bold>\<open>What is a parameter.\<close> Everything a client or the C++ library supplies: the contents of containers, the
  order of unordered maps, the selection traits, converters and operations on floating-point types, callbacks
  of handlers. What theorems ask of them is in their premises or in the \<open>assumes\<close> of a locale, and
  each such locale is interpreted on the code's own definitions.

  \<^bold>\<open>Not modelled.\<close> The grammar and the scanner (\<open>hdql.y\<close>, \<open>hdql.l\<close>: generated code whose actions call the
  constructors modelled here). Operations, accessors and functions on \<open>float\<close>, \<open>double\<close> and strings
  (\<open>include/hdql/helpers/functions.hh\<close> are templates over \<open>libm\<close>). Printing for people
  (\<open>hdql_query_dump\<close>, \<open>print-tree*.c\<close>, \<open>fancy-print-err.c\<close>). Type deduction in the templates of
  \<open>compounds.hh\<close>, which happens in the compiler, and what a
  context releases of its own when it is destroyed. \<open>query.cc\<close>, which is not built. The debug build's
  table of types by pointer. The tests and the sample data.
\<close>

end
